(* ===== verification/Df_Prelude.thy ===== *)
theory Df_Prelude
  imports Main "HOL-Library.AList" "HOL-Library.Word"
begin

text \<open>
  The vocabulary every component shares. A Python dictionary is an association list with
  distinct keys in insertion order, read by \<^const>\<open>map_of\<close> and written by
  \<^const>\<open>AList.update\<close> (in place when the key is present, at the end otherwise, as
  Python does) and \<^const>\<open>AList.delete\<close>. A Python set is a list without duplicates:
  Python leaves the iteration order of a set open, the model iterates in insertion order, and
  the theorems speak of the list's \<^const>\<open>set\<close>. An exception is a value of
  \<open>py_error\<close>; a function that may raise returns a sum with the exception on the left.
  Packet fields keep their width as words, Python integers are \<^typ>\<open>int\<close>.
\<close>

section \<open>Automation collections\<close>

named_theorems dict_simps \<open>reading a dictionary after it was written\<close>
named_theorems inv_intros \<open>operations that keep a component's invariant\<close>

section \<open>Exceptions\<close>

text \<open>
  The exceptions the modelled code raises, by their Python class names. \<open>FuelExhausted\<close>
  is no exception of the program: it marks a recursion of the model that was given too
  little fuel, and the enough-fuel lemmas show that it never arises.
\<close>

datatype py_error =
    KeyError
  | ValueError
  | TypeError
  | AttributeError
  | RuntimeError
  | IndexError
  | ValidationError
  | ReferencedObjectNotFound string string
  | DBKeyNotFound string
  | OutOfCookieSpaceException
  | MaskOverlapException
  | CookieOverflowExcpetion
  | InvalidEtherTypeException
  | UnknownResourceException
  | RetryRequest
  | InvalidIPAddressException
  | UnsupportedSegmentationTypeException
  | FuelExhausted

type_synonym 'a result = "py_error + 'a"

definition bind_result :: "'a result \<Rightarrow> ('a \<Rightarrow> 'b result) \<Rightarrow> 'b result" where
  "bind_result r f = (case r of Inl e \<Rightarrow> Inl e | Inr x \<Rightarrow> f x)"

lemma bind_result_simps [simp]:
  "bind_result (Inl e) f = Inl e"
  "bind_result (Inr x) f = f x"
  by (simp_all add: bind_result_def)

lemma bind_result_Inr_iff:
  "bind_result r f = Inr y \<longleftrightarrow> (\<exists>x. r = Inr x \<and> f x = Inr y)"
  by (cases r) simp_all

lemma bind_result_Inl_iff:
  "bind_result r f = Inl e \<longleftrightarrow> r = Inl e \<or> (\<exists>x. r = Inr x \<and> f x = Inl e)"
  by (cases r) simp_all

text \<open>A \<open>for\<close> loop whose body may raise: the first exception ends it.\<close>

fun for_each :: "('a \<Rightarrow> 's \<Rightarrow> 's result) \<Rightarrow> 'a list \<Rightarrow> 's \<Rightarrow> 's result" where
  "for_each f [] s = Inr s"
| "for_each f (x # xs) s = bind_result (f x s) (for_each f xs)"

lemma for_each_append:
  "for_each f (xs @ ys) s = bind_result (for_each f xs s) (for_each f ys)"
proof (induction xs arbitrary: s)
  case Nil
  then show ?case by simp
next
  case (Cons x xs)
  then show ?case by (cases "f x s") simp_all
qed

lemma for_each_invariant:
  assumes "for_each f xs s = Inr t" and "P s"
    and "\<And>x s t. x \<in> set xs \<Longrightarrow> P s \<Longrightarrow> f x s = Inr t \<Longrightarrow> P t"
  shows "P t"
  using assms
proof (induction xs arbitrary: s)
  case Nil
  then show ?case by simp
next
  case (Cons x xs)
  from Cons.prems(1) obtain u where u: "f x s = Inr u" "for_each f xs u = Inr t"
    by (auto simp: bind_result_Inr_iff)
  have "P u" using Cons.prems(3) [OF _ Cons.prems(2) u(1)] by simp
  moreover have "P t'" if "x' \<in> set xs" "P s'" "f x' s' = Inr t'" for x' s' t'
    using Cons.prems(3) [OF _ that(2,3)] that(1) by simp
  ultimately show ?case using Cons.IH [OF u(2)] by blast
qed

section \<open>Statements with effects before an exception\<close>

text \<open>
  A method that changes state and may then raise leaves its earlier changes behind. Its model
  returns the exception, if any, together with the state at that point.
\<close>

type_synonym 's outcome = "py_error option \<times> 's"

definition and_then :: "'s outcome \<Rightarrow> ('s \<Rightarrow> 's outcome) \<Rightarrow> 's outcome" where
  "and_then r f = (case r of (Some e, s) \<Rightarrow> (Some e, s) | (None, s) \<Rightarrow> f s)"

lemma and_then_simps [simp]:
  "and_then (None, s) f = f s"
  "and_then (Some e, s) f = (Some e, s)"
  by (simp_all add: and_then_def)

lemma and_then_assoc: "and_then (and_then r f) g = and_then r (\<lambda>s. and_then (f s) g)"
  by (auto simp: and_then_def split: prod.splits option.splits)

lemma and_then_None_iff:
  "and_then r f = (None, t) \<longleftrightarrow> (\<exists>s. r = (None, s) \<and> f s = (None, t))"
  by (cases r; cases "fst r") (auto simp: and_then_def)

lemma fst_and_then_None:
  "fst (and_then r f) = None \<longleftrightarrow> fst r = None \<and> fst (f (snd r)) = None"
  by (cases r; cases "fst r") (auto simp: and_then_def)

text \<open>A computed value that may raise before the state changes.\<close>

definition with_value :: "'a result \<Rightarrow> ('a \<Rightarrow> 's \<Rightarrow> 's outcome) \<Rightarrow> 's \<Rightarrow> 's outcome" where
  "with_value r f s = (case r of Inl e \<Rightarrow> (Some e, s) | Inr x \<Rightarrow> f x s)"

lemma with_value_simps [simp]:
  "with_value (Inr x) f s = f x s"
  "with_value (Inl e) f s = (Some e, s)"
  by (simp_all add: with_value_def)

lemma with_value_Inr [simp]: "with_value (Inr x) f = f x"
  by (rule ext) simp

lemma with_value_None_iff:
  "with_value r f s = (None, t) \<longleftrightarrow> (\<exists>x. r = Inr x \<and> f x s = (None, t))"
  by (cases r) simp_all

fun run_each :: "('a \<Rightarrow> 's \<Rightarrow> 's outcome) \<Rightarrow> 'a list \<Rightarrow> 's \<Rightarrow> 's outcome" where
  "run_each f [] s = (None, s)"
| "run_each f (x # xs) s = and_then (f x s) (run_each f xs)"

lemma run_each_cong [fundef_cong]:
  "xs = ys \<Longrightarrow> s = t \<Longrightarrow> (\<And>x s. x \<in> set ys \<Longrightarrow> f x s = g x s) \<Longrightarrow>
   run_each f xs s = run_each g ys t"
proof (induction ys arbitrary: xs s t)
  case Nil
  then show ?case by simp
next
  case (Cons y ys)
  have "run_each f ys = run_each g ys" using Cons.IH [of ys] Cons.prems(3) by (auto intro!: ext)
  then show ?case using Cons.prems by simp
qed

lemma run_each_map: "run_each f (map g xs) = run_each (\<lambda>x. f (g x)) xs"
proof (rule ext)
  show "run_each f (map g xs) s = run_each (\<lambda>x. f (g x)) xs s" for s
  proof (induction xs arbitrary: s)
    case Nil
    then show ?case by simp
  next
    case (Cons x xs)
    then have "run_each f (map g xs) = run_each (\<lambda>x. f (g x)) xs" by (simp add: fun_eq_iff)
    then show ?case by simp
  qed
qed

lemma run_each_append:
  "run_each f (xs @ ys) s = and_then (run_each f xs s) (run_each f ys)"
  by (induction xs arbitrary: s) (auto simp: and_then_def split: prod.splits option.splits)

lemma run_each_invariant:
  assumes "P s" "\<And>x s. x \<in> set xs \<Longrightarrow> P s \<Longrightarrow> fst (f x s) = None \<and> P (snd (f x s))"
  shows "\<exists>t. run_each f xs s = (None, t) \<and> P t"
  using assms
proof (induction xs arbitrary: s)
  case Nil
  then show ?case by simp
next
  case (Cons x xs)
  from Cons.prems(2) [of x s] Cons.prems(1) obtain u where "f x s = (None, u)" "P u"
    by (cases "f x s") auto
  with Cons.IH [of u] Cons.prems(2) show ?case by simp
qed

section \<open>Dictionaries\<close>

type_synonym ('k, 'v) dict = "('k \<times> 'v) list"

text \<open>Every dictionary the program builds has distinct keys.\<close>

abbreviation wf_dict :: "('k, 'v) dict \<Rightarrow> bool" where
  "wf_dict d \<equiv> distinct (map fst d)"

abbreviation dict_values :: "('k, 'v) dict \<Rightarrow> 'v list" where
  "dict_values d \<equiv> map snd d"

abbreviation dict_keys :: "('k, 'v) dict \<Rightarrow> 'k list" where
  "dict_keys d \<equiv> map fst d"

lemma map_of_update [simp, dict_simps]:
  "map_of (AList.update k v d) k' = (if k' = k then Some v else map_of d k')"
  by (simp add: update_conv')

lemma map_of_delete [simp, dict_simps]:
  "map_of (AList.delete k d) k' = (if k' = k then None else map_of d k')"
  by (simp add: delete_conv')

lemma wf_dict_update [simp, inv_intros]: "wf_dict d \<Longrightarrow> wf_dict (AList.update k v d)"
  by (rule distinct_update)

lemma wf_dict_delete [simp, inv_intros]: "wf_dict d \<Longrightarrow> wf_dict (AList.delete k d)"
  by (rule distinct_delete)

lemma update_new: "k \<notin> set (dict_keys d) \<Longrightarrow> AList.update k v d = d @ [(k, v)]"
  by (induction d) auto

text \<open>The proofs read dictionaries by \<^const>\<open>map_of\<close>, not by membership of pairs.\<close>

declare map_of_eq_Some_iff [simp del] Some_eq_map_of_iff [simp del]

lemma wf_dict_map_of_iff: "wf_dict d \<Longrightarrow> map_of d k = Some v \<longleftrightarrow> (k, v) \<in> set d"
  by (rule map_of_eq_Some_iff)

lemma set_dict_keys: "set (dict_keys d) = dom (map_of d)"
  by (simp add: dom_map_of_conv_image_fst)

lemma map_of_None_keys: "map_of d k = None \<longleftrightarrow> k \<notin> set (dict_keys d)"
  by (simp add: map_of_eq_None_iff)

lemma length_delete_less:
  "map_of d k \<noteq> None \<Longrightarrow> length (AList.delete k d) < length d"
proof (induction d)
  case Nil
  then show ?case by simp
next
  case (Cons p d)
  then show ?case
    using AList.length_delete_le [of k d] by (cases p) (auto split: if_splits)
qed

lemma set_update_wf:
  assumes "wf_dict d"
  shows "set (AList.update k v d) = insert (k, v) {p \<in> set d. fst p \<noteq> k}"
proof -
  have "(a, b) \<in> set (AList.update k v d) \<longleftrightarrow>
      (a, b) \<in> insert (k, v) {p \<in> set d. fst p \<noteq> k}" for a b
    by (auto simp: wf_dict_map_of_iff [OF wf_dict_update [OF assms], symmetric]
        wf_dict_map_of_iff [OF assms])
  then show ?thesis by auto
qed

section \<open>Sets as lists\<close>

text \<open>\<open>set.add\<close> and \<open>set.discard\<close>; \<open>a - b\<close> on sets.\<close>

definition set_add :: "'a \<Rightarrow> 'a list \<Rightarrow> 'a list" where
  "set_add x xs = (if x \<in> set xs then xs else xs @ [x])"

definition set_discard :: "'a \<Rightarrow> 'a list \<Rightarrow> 'a list" where
  "set_discard x xs = filter (\<lambda>y. y \<noteq> x) xs"

definition set_diff :: "'a list \<Rightarrow> 'a list \<Rightarrow> 'a list" where
  "set_diff xs ys = filter (\<lambda>x. x \<notin> set ys) xs"

lemma set_set_add [simp]: "set (set_add x xs) = insert x (set xs)"
  by (auto simp: set_add_def)

lemma set_add_not_Nil [simp]: "set_add x xs \<noteq> []"
  by (auto simp: set_add_def)

lemma distinct_set_add [simp]: "distinct (set_add x xs) = distinct xs"
  by (simp add: set_add_def)

lemma set_set_discard [simp]: "set (set_discard x xs) = set xs - {x}"
  by (auto simp: set_discard_def)

lemma distinct_set_discard [simp]: "distinct xs \<Longrightarrow> distinct (set_discard x xs)"
  by (simp add: set_discard_def)

lemma set_set_diff [simp]: "set (set_diff xs ys) = set xs - set ys"
  by (auto simp: set_diff_def)

lemma distinct_set_diff [simp]: "distinct xs \<Longrightarrow> distinct (set_diff xs ys)"
  by (simp add: set_diff_def)

section \<open>Removing one element\<close>

lemma distinct_map_remove1: "distinct (map f xs) \<Longrightarrow> distinct (map f (remove1 x xs))"
  by (induction xs) (auto dest: notin_set_remove1 simp: image_iff)

lemma removed_key: "distinct (map f xs) \<Longrightarrow> x \<in> set xs \<Longrightarrow> f x \<notin> f ` set (remove1 x xs)"
  by (induction xs) (auto, metis image_eqI)

lemma set_remove1_insert: "x \<in> set xs \<Longrightarrow> set xs = insert x (set (remove1 x xs))"
  using set_remove1_subset [of x xs] in_set_remove1 [of _ x xs] by blast

end
