(* ===== verification/Df_Models.thy ===== *)
theory Df_Models
  imports Df_Prelude
begin

text \<open>
  The data model: Python values as far as the database layer handles them, and the model
  classes of \<open>dragonflow/db/models\<close>. A class declaration records what its Python
  declaration says (bases, fields, indexes, events, table name); what a class inherits from
  its mixins is computed, as the \<open>construct_nb_db_model\<close> decorator and Python's method
  resolution order do it.
\<close>

section \<open>Values\<close>

datatype ipaddr = IPv4 "32 word" | IPv6 "128 word"

definition ip_version :: "ipaddr \<Rightarrow> nat" where
  "ip_version ip = (case ip of IPv4 w \<Rightarrow> 4 | IPv6 w \<Rightarrow> 6)"

text \<open>
  A model instance is its class name and the dictionary of its \<^emph>\<open>set\<close> fields
  (\<open>_set_fields\<close> is the domain of that dictionary); a model proxy is the name of the
  proxied model and the id it refers to.
\<close>

datatype pyval =
    PNone
  | PBool bool
  | PInt int
  | PStr string
  | PIp ipaddr
  | PList "pyval list"
  | PRef string string
  | PObj string "(string \<times> pyval) list"

section \<open>Class declarations\<close>

datatype mixin = Name | Version | Topic | UniqueKey | BasicEvents

text \<open>
  A field by what the framework asks of it: a reference (or list of references) to a
  first-class model, an embedded instance or a list of instances of a class, or a plain value
  or list of plain values.
\<close>

datatype field_type =
    Plain
  | PlainList
  | Embedded string
  | EmbeddedList string
  | Reference string
  | ReferenceList string

record field_decl =
  f_type :: field_type
  f_required :: bool

record class_decl =
  cd_table :: "string option"
  cd_is_model :: bool
  cd_mixins :: "mixin list"
  cd_fields :: "(string \<times> field_decl) list"
  cd_indexes :: "(string \<times> string list) list"
  cd_events :: "string list"

definition fld :: "field_type \<Rightarrow> field_decl" where
  "fld t = \<lparr>f_type = t, f_required = False\<rparr>"

definition req :: "field_type \<Rightarrow> field_decl" where
  "req t = \<lparr>f_type = t, f_required = True\<rparr>"

text \<open>\<open>dragonflow/db/models/mixins.py\<close>: what each mixin contributes.\<close>

fun mixin_fields :: "mixin \<Rightarrow> (string \<times> field_decl) list" where
  "mixin_fields Topic = [(''topic'', req Plain)]"
| "mixin_fields BasicEvents = []"
| "mixin_fields Version = [(''version'', fld Plain)]"
| "mixin_fields Name = [(''name'', fld Plain)]"
| "mixin_fields UniqueKey = [(''unique_key'', req Plain)]"

fun mixin_indexes :: "mixin \<Rightarrow> (string \<times> string list) list" where
  "mixin_indexes Topic = [(''topic'', [''topic''])]"
| "mixin_indexes UniqueKey = [(''unique_key'', [''unique_key''])]"
| "mixin_indexes m = []"

fun mixin_events :: "mixin \<Rightarrow> string list" where
  "mixin_events BasicEvents = [''created'', ''updated'', ''deleted'']"
| "mixin_events m = []"

text \<open>
  The fields, indexes and events of a class with what it inherits. \<open>ModelBase\<close>
  contributes the required \<open>id\<close> field and its index. \<open>get_indexes\<close> updates the
  dictionary of the superclass, so the last base in the method resolution order comes first.
\<close>

definition class_fields :: "class_decl \<Rightarrow> (string \<times> field_decl) list" where
  "class_fields c =
     (if cd_is_model c then [(''id'', req Plain)] else []) @
     concat (map mixin_fields (cd_mixins c)) @ cd_fields c"

definition get_indexes :: "class_decl \<Rightarrow> (string \<times> string list) list" where
  "get_indexes c =
     concat (map mixin_indexes (rev (cd_mixins c))) @
     (if cd_is_model c then [(''id'', [''id''])] else []) @ cd_indexes c"

definition get_events :: "class_decl \<Rightarrow> string list" where
  "get_events c = remdups (concat (map mixin_events (cd_mixins c)) @ cd_events c)"

definition is_first_class :: "class_decl \<Rightarrow> bool" where
  "is_first_class c \<longleftrightarrow> cd_table c \<noteq> None"

section \<open>The declared models\<close>

definition model_decl ::
  "string option \<Rightarrow> mixin list \<Rightarrow> (string \<times> field_decl) list \<Rightarrow>
   (string \<times> string list) list \<Rightarrow> string list \<Rightarrow> class_decl" where
  "model_decl t ms fs ix ev =
     \<lparr>cd_table = t, cd_is_model = True, cd_mixins = ms, cd_fields = fs,
      cd_indexes = ix, cd_events = ev\<rparr>"

definition plain_decl :: "(string \<times> field_decl) list \<Rightarrow> class_decl" where
  "plain_decl fs =
     \<lparr>cd_table = None, cd_is_model = False, cd_mixins = [], cd_fields = fs,
      cd_indexes = [], cd_events = []\<rparr>"

text \<open>\<open>core.py\<close>\<close>

definition Chassis :: class_decl where
  "Chassis = model_decl (Some ''chassis'') [BasicEvents]
     [(''ip'', req Plain), (''external_host_ip'', fld Plain), (''tunnel_types'', req PlainList)] [] []"

definition Publisher :: class_decl where
  "Publisher = model_decl (Some ''publisher'') [Name]
     [(''uri'', fld Plain), (''last_activity_timestamp'', fld Plain)] [] []"

definition Listener :: class_decl where
  "Listener = model_decl (Some ''listener'') []
     [(''timestamp'', fld Plain), (''ppid'', fld Plain)] [] []"

text \<open>\<open>qos.py\<close>, \<open>secgroups.py\<close>, \<open>host_route.py\<close>\<close>

definition QosPolicyRule :: class_decl where
  "QosPolicyRule = model_decl None [BasicEvents]
     [(''type'', req Plain), (''dscp_mark'', fld Plain), (''max_kbps'', fld Plain),
      (''max_burst_kbps'', fld Plain), (''direction'', fld Plain)] [] []"

definition QosPolicy :: class_decl where
  "QosPolicy = model_decl (Some ''qospolicy'') [Topic, Version, Name, BasicEvents]
     [(''rules'', fld (EmbeddedList ''QosPolicyRule''))] [] []"

definition SecurityGroupRule :: class_decl where
  "SecurityGroupRule = model_decl None [BasicEvents, Topic, Version]
     [(''direction'', req Plain), (''ethertype'', req Plain), (''port_range_max'', fld Plain),
      (''port_range_min'', fld Plain), (''protocol'', fld Plain), (''remote_group_id'', fld Plain),
      (''remote_ip_prefix'', fld Plain), (''security_group_id'', fld Plain)] [] []"

definition SecurityGroup :: class_decl where
  "SecurityGroup = model_decl (Some ''secgroup'') [Topic, Version, Name, BasicEvents, UniqueKey]
     [(''rules'', fld (EmbeddedList ''SecurityGroupRule''))] [] []"

definition HostRoute :: class_decl where
  "HostRoute = plain_decl [(''destination'', req Plain), (''nexthop'', req Plain)]"

text \<open>\<open>l2.py\<close>\<close>

definition LogicalSwitch :: class_decl where
  "LogicalSwitch = model_decl (Some ''lswitch'') [Name, Version, Topic, UniqueKey, BasicEvents]
     [(''is_external'', fld Plain), (''mtu'', fld Plain), (''segmentation_id'', fld Plain),
      (''network_type'', fld Plain), (''physical_network'', fld Plain),
      (''qos_policy'', fld (Reference ''QosPolicy''))]
     [(''network_type'', [''network_type'']), (''physical_network'', [''physical_network''])] []"

definition Subnet :: class_decl where
  "Subnet = model_decl (Some ''lsubnet'') [Name, Topic, Version, BasicEvents]
     [(''enable_dhcp'', fld Plain), (''dhcp_ip'', fld Plain), (''cidr'', fld Plain),
      (''gateway_ip'', fld Plain), (''dns_nameservers'', fld PlainList),
      (''host_routes'', fld (EmbeddedList ''HostRoute'')),
      (''lswitch'', req (Reference ''LogicalSwitch''))]
     [(''lswitch'', [''lswitch.id''])] []"

definition AddressPair :: class_decl where
  "AddressPair = plain_decl [(''ip_address'', req Plain), (''mac_address'', req Plain)]"

definition DhcpParams :: class_decl where
  "DhcpParams = plain_decl [(''opts'', fld Plain), (''siaddr'', fld Plain)]"

definition PortBinding :: class_decl where
  "PortBinding = plain_decl
     [(''type'', req Plain), (''chassis'', fld (Reference ''Chassis'')), (''vtep_address'', fld Plain)]"

definition LogicalPort :: class_decl where
  "LogicalPort = model_decl (Some ''lport'') [Name, Version, Topic, UniqueKey, BasicEvents]
     [(''ips'', fld PlainList), (''subnets'', fld (ReferenceList ''Subnet'')),
      (''macs'', fld PlainList), (''enabled'', fld Plain),
      (''binding'', fld (Embedded ''PortBinding'')),
      (''lswitch'', fld (Reference ''LogicalSwitch'')),
      (''security_groups'', fld (ReferenceList ''SecurityGroup'')),
      (''allowed_address_pairs'', fld (EmbeddedList ''AddressPair'')),
      (''port_security_enabled'', fld Plain), (''device_owner'', fld Plain),
      (''device_id'', fld Plain), (''qos_policy'', fld (Reference ''QosPolicy'')),
      (''dhcp_params'', fld (Embedded ''DhcpParams'')), (''binding_vnic_type'', fld Plain)]
     [(''chassis_id'', [''binding.chassis.id'']), (''lswitch_id'', [''lswitch.id'']),
      (''ip,lswitch'', [''ips'', ''lswitch.id'']),
      (''switch,owner'', [''lswitch.unique_key'', ''device_owner''])]
     [''bind_local'', ''unbind_local'', ''bind_remote'', ''unbind_remote'',
      ''local_updated'', ''remote_updated'']"

text \<open>\<open>l3.py\<close>\<close>

definition LogicalRouterPort :: class_decl where
  "LogicalRouterPort = model_decl None [Topic, UniqueKey]
     [(''mac'', fld Plain), (''lswitch'', fld (Reference ''LogicalSwitch'')), (''network'', fld Plain)]
     [] []"

definition LogicalRouter :: class_decl where
  "LogicalRouter = model_decl (Some ''lrouter'') [Name, Version, Topic, UniqueKey, BasicEvents]
     [(''ports'', fld (EmbeddedList ''LogicalRouterPort'')),
      (''routes'', fld (EmbeddedList ''HostRoute''))] [] []"

definition FloatingIp :: class_decl where
  "FloatingIp = model_decl (Some ''floatingip'') [Version, Topic, BasicEvents]
     [(''floating_ip_address'', fld Plain), (''fixed_ip_address'', fld Plain),
      (''lport'', fld (Reference ''LogicalPort'')),
      (''floating_lport'', fld (Reference ''LogicalPort'')),
      (''lrouter'', fld (Reference ''LogicalRouter''))]
     [(''lport'', [''lport.id'']), (''floating_lport'', [''floating_lport.id''])] []"

text \<open>\<open>switch.py\<close>, \<open>migration.py\<close>, \<open>active_port.py\<close>, \<open>service.py\<close>, \<open>trunk.py\<close>\<close>

definition SwitchPort :: class_decl where
  "SwitchPort = model_decl (Some ''switch_port'') [BasicEvents, Name]
     [(''port_num'', fld Plain), (''admin_state'', fld Plain),
      (''lport'', fld (Reference ''LogicalPort'')), (''type'', fld Plain), (''peer'', fld Plain),
      (''mac_in_use'', fld Plain), (''attached_mac'', fld Plain), (''tunnel_type'', fld Plain)]
     [] []"

definition Migration :: class_decl where
  "Migration = model_decl (Some ''migration'') [BasicEvents]
     [(''dest_chassis'', fld (Reference ''Chassis'')), (''lport'', fld (Reference ''LogicalPort'')),
      (''status'', req Plain)] [] []"

definition AllowedAddressPairsActivePort :: class_decl where
  "AllowedAddressPairsActivePort = model_decl (Some ''activeport'') [Topic, BasicEvents]
     [(''ip'', fld Plain), (''network'', fld (Reference ''LogicalSwitch'')),
      (''detected_mac'', fld Plain), (''detected_lport'', fld (Reference ''LogicalPort''))] [] []"

definition Service :: class_decl where
  "Service = model_decl (Some ''service'') []
     [(''chassis'', req (Reference ''Chassis'')), (''binary'', req Plain),
      (''last_seen_up'', fld Plain), (''disabled'', fld Plain), (''disabled_reason'', fld Plain)]
     [] []"

definition ChildPortSegmentation :: class_decl where
  "ChildPortSegmentation = model_decl (Some ''child_port_segmentation'') [Topic, BasicEvents]
     [(''parent'', req (Reference ''LogicalPort'')), (''port'', req (Reference ''LogicalPort'')),
      (''segmentation_type'', req Plain), (''segmentation_id'', fld Plain)]
     [(''lport_id'', [''port.id'']), (''parent_id'', [''parent.id''])] []"

text \<open>\<open>sfc.py\<close>, \<open>bgp.py\<close>\<close>

definition PortPair :: class_decl where
  "PortPair = model_decl (Some ''sfc_portpair'') [BasicEvents, Topic, Name]
     [(''ingress_port'', fld (Reference ''LogicalPort'')),
      (''egress_port'', fld (Reference ''LogicalPort'')),
      (''correlation_mechanism'', fld Plain), (''weight'', fld Plain)]
     [(''egress'', [''egress_port.id'']), (''ingress'', [''ingress_port.id''])] []"

definition PortPairGroup :: class_decl where
  "PortPairGroup = model_decl (Some ''sfc_portpairgroup'') [BasicEvents, Topic, Name]
     [(''port_pairs'', fld (ReferenceList ''PortPair''))]
     [(''port_pairs'', [''port_pairs.id''])] []"

definition FlowClassifier :: class_decl where
  "FlowClassifier = model_decl (Some ''sfc_flowclassifier'') [BasicEvents, Topic, Name, UniqueKey]
     [(''ether_type'', fld Plain), (''protocol'', fld Plain), (''source_cidr'', fld Plain),
      (''dest_cidr'', fld Plain), (''source_transport_ports'', fld Plain),
      (''dest_transport_ports'', fld Plain), (''source_port'', fld (Reference ''LogicalPort'')),
      (''dest_port'', fld (Reference ''LogicalPort''))]
     [(''source_port'', [''source_port.id'']), (''dest_port'', [''dest_port.id''])] []"

definition PortChain :: class_decl where
  "PortChain = model_decl (Some ''sfc_portchain'') [BasicEvents, Topic, Name]
     [(''protocol'', fld Plain), (''chain_id'', fld Plain),
      (''port_pair_groups'', fld (ReferenceList ''PortPairGroup'')),
      (''flow_classifiers'', fld (ReferenceList ''FlowClassifier''))]
     [(''flow_classifiers'', [''flow_classifiers.id'']),
      (''port_pair_groups'', [''port_pair_groups.id''])] []"

definition BGPPeer :: class_decl where
  "BGPPeer = model_decl (Some ''bgp_peer'') [Topic, Name]
     [(''peer_ip'', req Plain), (''remote_as'', req Plain), (''auth_type'', fld Plain),
      (''password'', fld Plain)] [] []"

definition BGPSpeaker :: class_decl where
  "BGPSpeaker = model_decl (Some ''bgp_speaker'') [Topic, Name]
     [(''local_as'', req Plain), (''peers'', fld (ReferenceList ''BGPPeer'')),
      (''host_routes'', fld (EmbeddedList ''HostRoute'')),
      (''prefix_routes'', fld (EmbeddedList ''HostRoute'')), (''ip_version'', req Plain)]
     [(''peer_id'', [''peers.id''])] []"

type_synonym class_table = "(string, class_decl) dict"

text \<open>The classes by name, as Python's module namespaces hold them.\<close>

definition df_classes :: class_table where
  "df_classes =
    [(''Chassis'', Chassis), (''Publisher'', Publisher), (''Listener'', Listener),
     (''QosPolicyRule'', QosPolicyRule), (''QosPolicy'', QosPolicy),
     (''SecurityGroupRule'', SecurityGroupRule), (''SecurityGroup'', SecurityGroup),
     (''HostRoute'', HostRoute), (''LogicalSwitch'', LogicalSwitch), (''Subnet'', Subnet),
     (''AddressPair'', AddressPair), (''DhcpParams'', DhcpParams), (''PortBinding'', PortBinding),
     (''LogicalPort'', LogicalPort), (''LogicalRouterPort'', LogicalRouterPort),
     (''LogicalRouter'', LogicalRouter), (''FloatingIp'', FloatingIp),
     (''SwitchPort'', SwitchPort), (''Migration'', Migration),
     (''AllowedAddressPairsActivePort'', AllowedAddressPairsActivePort), (''Service'', Service),
     (''ChildPortSegmentation'', ChildPortSegmentation), (''PortPair'', PortPair),
     (''PortPairGroup'', PortPairGroup), (''FlowClassifier'', FlowClassifier),
     (''PortChain'', PortChain), (''BGPPeer'', BGPPeer), (''BGPSpeaker'', BGPSpeaker)]"

lemmas class_decl_defs =
  Chassis_def Publisher_def Listener_def QosPolicyRule_def QosPolicy_def SecurityGroupRule_def
  SecurityGroup_def HostRoute_def LogicalSwitch_def Subnet_def AddressPair_def DhcpParams_def
  PortBinding_def LogicalPort_def LogicalRouterPort_def LogicalRouter_def FloatingIp_def
  SwitchPort_def Migration_def AllowedAddressPairsActivePort_def Service_def
  ChildPortSegmentation_def PortPair_def PortPairGroup_def FlowClassifier_def PortChain_def
  BGPPeer_def BGPSpeaker_def model_decl_def plain_decl_def fld_def req_def

lemma df_classes_lookup [simp]:
  "map_of df_classes ''Chassis'' = Some Chassis"
  "map_of df_classes ''Publisher'' = Some Publisher"
  "map_of df_classes ''Listener'' = Some Listener"
  "map_of df_classes ''QosPolicyRule'' = Some QosPolicyRule"
  "map_of df_classes ''QosPolicy'' = Some QosPolicy"
  "map_of df_classes ''SecurityGroupRule'' = Some SecurityGroupRule"
  "map_of df_classes ''SecurityGroup'' = Some SecurityGroup"
  "map_of df_classes ''HostRoute'' = Some HostRoute"
  "map_of df_classes ''LogicalSwitch'' = Some LogicalSwitch"
  "map_of df_classes ''Subnet'' = Some Subnet"
  "map_of df_classes ''AddressPair'' = Some AddressPair"
  "map_of df_classes ''DhcpParams'' = Some DhcpParams"
  "map_of df_classes ''PortBinding'' = Some PortBinding"
  "map_of df_classes ''LogicalPort'' = Some LogicalPort"
  "map_of df_classes ''LogicalRouterPort'' = Some LogicalRouterPort"
  "map_of df_classes ''LogicalRouter'' = Some LogicalRouter"
  "map_of df_classes ''FloatingIp'' = Some FloatingIp"
  "map_of df_classes ''SwitchPort'' = Some SwitchPort"
  "map_of df_classes ''Migration'' = Some Migration"
  "map_of df_classes ''AllowedAddressPairsActivePort'' = Some AllowedAddressPairsActivePort"
  "map_of df_classes ''Service'' = Some Service"
  "map_of df_classes ''ChildPortSegmentation'' = Some ChildPortSegmentation"
  "map_of df_classes ''PortPair'' = Some PortPair"
  "map_of df_classes ''PortPairGroup'' = Some PortPairGroup"
  "map_of df_classes ''FlowClassifier'' = Some FlowClassifier"
  "map_of df_classes ''PortChain'' = Some PortChain"
  "map_of df_classes ''BGPPeer'' = Some BGPPeer"
  "map_of df_classes ''BGPSpeaker'' = Some BGPSpeaker"
  by (simp_all add: df_classes_def)

end
