(* ===== verification/Model_Framework.thy ===== *)
theory Model_Framework
  imports Df_Models
begin

text \<open>
  The model framework of \<open>dragonflow/db/model_framework.py\<close>: reading, writing and merging
  the fields of model instances, embedded and referenced models, the registry of models and
  their dependency order. The functions take the class table as their first argument; the
  declared classes are \<open>df_classes\<close>.
\<close>

section \<open>Fields of an instance\<close>

fun field_default :: "field_type \<Rightarrow> pyval" where
  "field_default PlainList = PList []"
| "field_default (EmbeddedList c) = PList []"
| "field_default (ReferenceList m) = PList []"
| "field_default _ = PNone"

text \<open>
  Reading a declared field gives its value when it is set and its default otherwise; the
  default of a required field does not validate, and a name that is no field is an
  AttributeError.
\<close>

definition read_field :: "class_decl \<Rightarrow> (string \<times> pyval) list \<Rightarrow> string \<Rightarrow> pyval result" where
  "read_field c fs name =
     (case map_of (class_fields c) name of
        None \<Rightarrow> Inl AttributeError
      | Some fd \<Rightarrow>
          (case map_of fs name of
             Some v \<Rightarrow> Inr v
           | None \<Rightarrow> if f_required fd then Inl ValidationError else Inr (field_default (f_type fd))))"

text \<open>
  \<open>__setattr__\<close> stores the value and marks the field as set; \<open>__delattr__\<close> stores
  \<open>None\<close>, which a required field refuses, and unmarks the field, which reads as its
  default again.
\<close>

definition set_field :: "string \<Rightarrow> pyval \<Rightarrow> (string \<times> pyval) list \<Rightarrow> (string \<times> pyval) list" where
  "set_field name v fs = AList.update name v fs"

definition del_field ::
  "class_decl \<Rightarrow> string \<Rightarrow> (string \<times> pyval) list \<Rightarrow> (string \<times> pyval) list result" where
  "del_field c name fs =
     (case map_of (class_fields c) name of
        None \<Rightarrow> Inl AttributeError
      | Some fd \<Rightarrow> if f_required fd then Inl ValidationError else Inr (AList.delete name fs))"

definition field_is_set :: "string \<Rightarrow> (string \<times> pyval) list \<Rightarrow> bool" where
  "field_is_set name fs \<longleftrightarrow> map_of fs name \<noteq> None"

text \<open>\<open>_CommonBase.update\<close>: one step per set field of the other instance.\<close>

definition update_step ::
  "class_decl \<Rightarrow> (string \<times> pyval) list \<Rightarrow> string \<Rightarrow>
   (string \<times> pyval) list \<times> string list \<Rightarrow> ((string \<times> pyval) list \<times> string list) result" where
  "update_step c other key = (\<lambda>(self, changed).
     bind_result (read_field c self key) (\<lambda>old_value.
     bind_result (read_field c other key) (\<lambda>new_value.
       if old_value \<noteq> new_value then
         bind_result (if new_value \<noteq> PNone then Inr (set_field key new_value self)
                      else del_field c key self)
           (\<lambda>self'. Inr (self', set_add key changed))
       else Inr (self, changed))))"

definition model_update ::
  "class_decl \<Rightarrow> (string \<times> pyval) list \<Rightarrow> (string \<times> pyval) list \<Rightarrow>
   ((string \<times> pyval) list \<times> string list) result" where
  "model_update c self other = for_each (update_step c other) (dict_keys other) (self, [])"

section \<open>Instances inside instances\<close>

definition is_model_instance :: "class_table \<Rightarrow> pyval \<Rightarrow> bool" where
  "is_model_instance ct v =
     (case v of
        PObj c fs \<Rightarrow> (case map_of ct c of Some d \<Rightarrow> cd_is_model d | None \<Rightarrow> False)
      | _ \<Rightarrow> False)"

text \<open>
  \<open>iterate_embedded_model_instances\<close>: the model instances in embedded fields and lists.
  \<open>iter_submodels\<close> also yields proxies (they have \<open>get_object\<close>) and looks at every field.
\<close>

definition embedded_values :: "field_type \<Rightarrow> pyval \<Rightarrow> pyval list" where
  "embedded_values t w =
     (case t of
        Plain \<Rightarrow> []
      | Reference m \<Rightarrow> []
      | Embedded e \<Rightarrow> [w]
      | _ \<Rightarrow> (case w of PList ws \<Rightarrow> ws | _ \<Rightarrow> []))"

definition embedded_instances :: "class_table \<Rightarrow> pyval \<Rightarrow> pyval list" where
  "embedded_instances ct v =
     (case v of
        PObj c fs \<Rightarrow>
          (case map_of ct c of
             None \<Rightarrow> []
           | Some d \<Rightarrow>
               filter (is_model_instance ct)
                 (concat (map (\<lambda>(name, w).
                    (case map_of (class_fields d) name of
                       Some fd \<Rightarrow> embedded_values (f_type fd) w
                     | None \<Rightarrow> [])) fs)))
      | _ \<Rightarrow> [])"

definition is_submodel :: "class_table \<Rightarrow> pyval \<Rightarrow> bool" where
  "is_submodel ct v = (case v of PRef m i \<Rightarrow> True | _ \<Rightarrow> is_model_instance ct v)"

definition iter_submodels :: "class_table \<Rightarrow> pyval \<Rightarrow> pyval list" where
  "iter_submodels ct v =
     (case v of
        PObj c fs \<Rightarrow>
          concat (map (\<lambda>(name, w).
            (case w of PList ws \<Rightarrow> filter (is_submodel ct) ws
             | _ \<Rightarrow> if is_submodel ct w then [w] else [])) fs)
      | _ \<Rightarrow> [])"

section \<open>Embedded types and dependencies of a class\<close>

text \<open>
  The recursion follows embedded classes. Python ends it because a class can only embed
  classes declared before it; the model spends one unit of fuel per level.
\<close>

definition issubclass_model :: "class_table \<Rightarrow> string \<Rightarrow> bool" where
  "issubclass_model ct c = (case map_of ct c of Some d \<Rightarrow> cd_is_model d | None \<Rightarrow> False)"

definition embedded_field_types :: "class_decl \<Rightarrow> string list" where
  "embedded_field_types d =
     concat (map (\<lambda>(name, fd). (case f_type fd of
        Embedded e \<Rightarrow> [e] | EmbeddedList e \<Rightarrow> [e] | _ \<Rightarrow> [])) (class_fields d))"

fun iterate_embedded_model_types :: "nat \<Rightarrow> class_table \<Rightarrow> string \<Rightarrow> string list result" where
  "iterate_embedded_model_types 0 ct c = Inl FuelExhausted"
| "iterate_embedded_model_types (Suc fuel) ct c =
     (case map_of ct c of
        None \<Rightarrow> Inl AttributeError
      | Some d \<Rightarrow>
          for_each (\<lambda>m seen.
            if issubclass_model ct m then
              bind_result (iterate_embedded_model_types fuel ct m) (\<lambda>subs.
                Inr (fold set_add subs (set_add m seen)))
            else Inr seen) (embedded_field_types d) [])"

text \<open>
  \<open>dependencies\<close>: the models a class refers to. With \<open>first_class_only\<close> an embedded
  model contributes its own dependencies, otherwise itself.
\<close>

fun dependencies :: "nat \<Rightarrow> class_table \<Rightarrow> bool \<Rightarrow> string \<Rightarrow> string list result" where
  "dependencies 0 ct fco c = Inl FuelExhausted"
| "dependencies (Suc fuel) ct fco c =
     (case map_of ct c of
        None \<Rightarrow> Inl AttributeError
      | Some d \<Rightarrow>
          for_each (\<lambda>(name, fd) deps.
            (case f_type fd of
               Reference m \<Rightarrow> Inr (set_add m deps)
             | ReferenceList m \<Rightarrow> Inr (set_add m deps)
             | Plain \<Rightarrow> Inr deps
             | PlainList \<Rightarrow> Inr deps
             | Embedded e \<Rightarrow>
                 if issubclass_model ct e then
                   if fco then bind_result (dependencies fuel ct True e)
                                 (\<lambda>ds. Inr (fold set_add ds deps))
                   else Inr (set_add e deps)
                 else Inr deps
             | EmbeddedList e \<Rightarrow>
                 if issubclass_model ct e then
                   if fco then bind_result (dependencies fuel ct True e)
                                 (\<lambda>ds. Inr (fold set_add ds deps))
                   else Inr (set_add e deps)
                 else Inr deps)) (class_fields d) [])"

section \<open>The registry\<close>

record registry =
  registered_models :: "string list"
  lookup_by_class_name :: "(string, string) dict"
  lookup_by_table_name :: "(string, string) dict"

definition empty_registry :: registry where
  "empty_registry =
     \<lparr>registered_models = [], lookup_by_class_name = [], lookup_by_table_name = []\<rparr>"

text \<open>
  \<open>register_model\<close>: a class without a table, or whose name or table is taken, is refused;
  otherwise the class and its embedded model types are registered. Class names stand for the
  class objects.
\<close>

definition register_model :: "class_table \<Rightarrow> string \<Rightarrow> registry \<Rightarrow> registry result" where
  "register_model ct c r =
     (case map_of ct c of
        None \<Rightarrow> Inl AttributeError
      | Some d \<Rightarrow>
          (case cd_table d of
             None \<Rightarrow> Inl RuntimeError
           | Some tbl \<Rightarrow>
               if map_of (lookup_by_class_name r) c \<noteq> None then Inl RuntimeError
               else if map_of (lookup_by_table_name r) tbl \<noteq> None then Inl RuntimeError
               else
                 bind_result (iterate_embedded_model_types (Suc (length ct)) ct c) (\<lambda>ms.
                   Inr \<lparr>registered_models = fold set_add ms (set_add c (registered_models r)),
                        lookup_by_class_name =
                          fold (\<lambda>m. AList.update m m) ms
                            (AList.update c c (lookup_by_class_name r)),
                        lookup_by_table_name =
                          AList.update tbl c (lookup_by_table_name r)\<rparr>)))"

text \<open>\<open>get_model\<close> on a name: the class lookup first, then the table lookup.\<close>

definition get_model :: "registry \<Rightarrow> string \<Rightarrow> string result" where
  "get_model r arg =
     (case map_of (lookup_by_class_name r) arg of
        Some c \<Rightarrow> Inr c
      | None \<Rightarrow>
          (case map_of (lookup_by_table_name r) arg of
             Some c \<Rightarrow> Inr c
           | None \<Rightarrow> Inl KeyError))"

definition class_is_first_class :: "class_table \<Rightarrow> string \<Rightarrow> bool" where
  "class_is_first_class ct c =
     (case map_of ct c of Some d \<Rightarrow> is_first_class d | None \<Rightarrow> False)"

definition iter_models :: "class_table \<Rightarrow> bool \<Rightarrow> registry \<Rightarrow> string list" where
  "iter_models ct fco r =
     filter (\<lambda>m. \<not> (fco \<and> \<not> class_is_first_class ct m)) (registered_models r)"

section \<open>The dependency order\<close>

text \<open>
  The topological sort: in each round the models without open dependencies move to the
  result and out of the other models' dependency sets; a round that moves none is a cycle.
\<close>

definition independent_models :: "('m, 'm list) dict \<Rightarrow> 'm list" where
  "independent_models u = map fst (filter (\<lambda>(m, deps). deps = []) u)"

definition drop_models :: "'m list \<Rightarrow> ('m, 'm list) dict \<Rightarrow> ('m, 'm list) dict" where
  "drop_models done u =
     map (\<lambda>(m, deps). (m, set_diff deps done)) (filter (\<lambda>(m, deps). deps \<noteq> []) u)"

lemma length_drop_models:
  "independent_models u \<noteq> [] \<Longrightarrow> length (drop_models done u) < length u"
  by (induction u)
     (auto simp: independent_models_def drop_models_def less_Suc_eq_le le_imp_less_Suc
        intro: length_filter_le order.trans)

function topological_sort :: "('m, 'm list) dict \<Rightarrow> 'm list \<Rightarrow> 'm list result" where
  "topological_sort u sorted_models =
     (if u = [] then Inr sorted_models
      else if independent_models u = [] then Inl RuntimeError
      else topological_sort (drop_models (independent_models u) u)
             (sorted_models @ independent_models u))"
  by pat_completeness auto
termination
  by (relation "measure (\<lambda>(u, acc). length u)") (auto intro: length_drop_models)

declare topological_sort.simps [simp del]

definition unsorted_models :: "class_table \<Rightarrow> bool \<Rightarrow> registry \<Rightarrow> (string, string list) dict result" where
  "unsorted_models ct fco r =
     for_each (\<lambda>m u.
       bind_result (dependencies (Suc (length ct)) ct fco m) (\<lambda>deps.
         Inr (AList.update m
           (if fco then filter (class_is_first_class ct) deps else deps) u)))
       (iter_models ct fco r) []"

definition iter_models_by_dependency_order ::
  "class_table \<Rightarrow> bool \<Rightarrow> registry \<Rightarrow> string list result" where
  "iter_models_by_dependency_order ct fco r =
     bind_result (unsorted_models ct fco r) (\<lambda>u. topological_sort u [])"

section \<open>Merging two instances\<close>

lemma read_field_frame:
  "map_of fs k = map_of fs' k \<Longrightarrow> read_field c fs k = read_field c fs' k"
  by (simp add: read_field_def cong: option.case_cong)

lemma read_field_set:
  assumes "read_field c self k = Inr v" "map_of other k = Some w"
  shows "read_field c other k = Inr w"
  using assms by (auto simp: read_field_def split: option.splits)

text \<open>
  An instance is mergeable into another when its set fields are declared ones that can be read
  in the other, and no required field is set to \<open>None\<close>: the validation of the
  constructor gives this for two instances of a class.
\<close>

definition mergeable :: "class_decl \<Rightarrow> (string \<times> pyval) list \<Rightarrow> (string \<times> pyval) list \<Rightarrow> bool" where
  "mergeable c self other \<longleftrightarrow> wf_dict other \<and>
     list_all (\<lambda>(k, v). \<not> isl (read_field c self k) \<and>
       (v = PNone \<longrightarrow> \<not> f_required (the (map_of (class_fields c) k)))) other"

text \<open>The value a field of the merged instance is stored with.\<close>

definition merged :: "class_decl \<Rightarrow> (string \<times> pyval) list \<Rightarrow> (string \<times> pyval) list \<Rightarrow> string \<Rightarrow> pyval option" where
  "merged c self other k =
     (case map_of other k of
        None \<Rightarrow> map_of self k
      | Some v \<Rightarrow> if read_field c self k = Inr v then map_of self k
                  else if v = PNone then None else Some v)"

lemma mergeable_field:
  assumes "mergeable c self other" "map_of other k = Some v"
  shows "\<exists>u. read_field c self k = Inr u"
    and "v = PNone \<Longrightarrow> del_field c k fs = Inr (AList.delete k fs)"
proof -
  from assms have "(k, v) \<in> set other" by (simp add: map_of_SomeD)
  with assms(1) have *: "\<not> isl (read_field c self k)"
    "v = PNone \<longrightarrow> \<not> f_required (the (map_of (class_fields c) k))"
    by (auto simp: mergeable_def list_all_iff)
  then show "\<exists>u. read_field c self k = Inr u" by (cases "read_field c self k") auto
  show "v = PNone \<Longrightarrow> del_field c k fs = Inr (AList.delete k fs)"
    using * by (auto simp: del_field_def read_field_def split: option.splits)
qed

lemma update_step_ok:
  assumes "mergeable c self other" "map_of other k = Some w" "map_of cur k = map_of self k"
  shows "\<exists>cur' ch'. update_step c other k (cur, ch) = Inr (cur', ch') \<and>
    (\<forall>j. map_of cur' j = (if j = k then merged c self other k else map_of cur j)) \<and>
    set ch' = set ch \<union> (if read_field c self k = Inr w then {} else {k})"
proof -
  from mergeable_field(1) [OF assms(1,2)] obtain v where v: "read_field c self k = Inr v" ..
  have "read_field c cur k = Inr v" using v read_field_frame [of cur k self c] assms(3) by simp
  moreover have "read_field c other k = Inr w" by (rule read_field_set [OF v assms(2)])
  ultimately show ?thesis
    using v assms(2,3) mergeable_field(2) [OF assms(1,2)]
    by (cases "w = PNone") (auto simp: update_step_def set_field_def merged_def)
qed

lemma update_steps:
  assumes "mergeable c self other" "distinct ks" "\<forall>k\<in>set ks. map_of other k \<noteq> None"
    and "\<forall>k\<in>set ks. map_of cur k = map_of self k"
  shows "\<exists>fs ch'. for_each (update_step c other) ks (cur, ch) = Inr (fs, ch') \<and>
    (\<forall>k. map_of fs k = (if k \<in> set ks then merged c self other k else map_of cur k)) \<and>
    set ch' = set ch \<union> {k \<in> set ks. read_field c self k \<noteq> Inr (the (map_of other k))}"
  using assms(2-)
proof (induction ks arbitrary: cur ch)
  case Nil
  then show ?case by simp
next
  case (Cons k ks)
  from Cons.prems(2) obtain w where w: "map_of other k = Some w" by auto
  from update_step_ok [OF assms(1) w, of cur ch] Cons.prems(3) obtain cur1 ch1 where
    1: "update_step c other k (cur, ch) = Inr (cur1, ch1)"
      "\<forall>j. map_of cur1 j = (if j = k then merged c self other k else map_of cur j)"
      "set ch1 = set ch \<union> (if read_field c self k = Inr w then {} else {k})" by auto
  have "\<forall>k\<in>set ks. map_of cur1 k = map_of self k" using Cons.prems(1,3) 1(2) by auto
  with Cons.IH [of cur1 ch1] Cons.prems(1,2) obtain fs ch2 where
    2: "for_each (update_step c other) ks (cur1, ch1) = Inr (fs, ch2)"
      "\<forall>k. map_of fs k = (if k \<in> set ks then merged c self other k else map_of cur1 k)"
      "set ch2 = set ch1 \<union> {k \<in> set ks. read_field c self k \<noteq> Inr (the (map_of other k))}"
    by auto
  have "\<forall>j. map_of fs j = (if j \<in> set (k # ks) then merged c self other j else map_of cur j)"
    using 1(2) 2(2) by auto
  moreover have "set ch2 = set ch \<union>
      {j \<in> set (k # ks). read_field c self j \<noteq> Inr (the (map_of other j))}"
    using 1(3) 2(3) w by auto
  ultimately show ?case using 1(1) 2(1) by simp
qed

text \<open>
  C31. Merging the set fields of one instance into another changes exactly the fields whose
  value differs and reports exactly those: a field that is set in the other instance takes its
  value (and is unset again when that value is \<open>None\<close>), every other field keeps its own.
\<close>

theorem model_update_merges_set_fields:
  assumes "mergeable c self other"
  shows "\<exists>self' changed. model_update c self other = Inr (self', changed) \<and>
    (\<forall>k. map_of self' k =
       (case map_of other k of
          None \<Rightarrow> map_of self k
        | Some v \<Rightarrow> if read_field c self k = Inr v then map_of self k
                    else if v = PNone then None else Some v)) \<and>
    set changed = {k. \<exists>v. map_of other k = Some v \<and> read_field c self k \<noteq> Inr v}"
proof -
  have "\<forall>k\<in>set (dict_keys other). map_of other k \<noteq> None" by (simp add: map_of_eq_None_iff)
  with update_steps [of c self other "dict_keys other" self "[]"] assms
  obtain fs ch where
    1: "for_each (update_step c other) (dict_keys other) (self, []) = Inr (fs, ch)" and
    2: "\<And>k. map_of fs k = (if k \<in> set (dict_keys other) then merged c self other k
                         else map_of self k)" and
    3: "set ch = {k \<in> set (dict_keys other). read_field c self k \<noteq> Inr (the (map_of other k))}"
    by (auto simp: mergeable_def)
  have "map_of fs k = merged c self other k" for k
    using 2 [of k] map_of_None_keys [of other k] by (auto simp: merged_def split: if_splits)
  moreover have "set ch = {k. \<exists>v. map_of other k = Some v \<and> read_field c self k \<noteq> Inr v}"
    unfolding 3 set_dict_keys by auto
  ultimately show ?thesis using 1 by (auto simp: model_update_def merged_def)
qed

theorem model_update_merges_set_fields_witness:
  "\<exists>self' changed.
     model_update Chassis [(''id'', PStr ''c1''), (''ip'', PStr ''10.0.0.1'')]
       [(''id'', PStr ''c1''), (''ip'', PStr ''10.0.0.2'')] = Inr (self', changed) \<and>
     map_of self' ''ip'' = Some (PStr ''10.0.0.2'') \<and> set changed = {''ip''}"
proof -
  let ?self = "[(''id'', PStr ''c1''), (''ip'', PStr ''10.0.0.1'')]"
  let ?other = "[(''id'', PStr ''c1''), (''ip'', PStr ''10.0.0.2'')]"
  have r: "read_field Chassis ?self ''id'' = Inr (PStr ''c1'')"
    "read_field Chassis ?self ''ip'' = Inr (PStr ''10.0.0.1'')"
    by (simp_all add: read_field_def class_fields_def class_decl_defs)
  have "mergeable Chassis ?self ?other" by (simp add: mergeable_def r)
  from model_update_merges_set_fields [OF this]
  obtain self' changed where
    m: "model_update Chassis ?self ?other = Inr (self', changed)"
      "\<forall>k. map_of self' k = (case map_of ?other k of None \<Rightarrow> map_of ?self k
         | Some v \<Rightarrow> if read_field Chassis ?self k = Inr v then map_of ?self k
                    else if v = PNone then None else Some v)"
      "set changed = {k. \<exists>v. map_of ?other k = Some v \<and> read_field Chassis ?self k \<noteq> Inr v}"
    by blast
  have "{k. \<exists>v. map_of ?other k = Some v \<and> read_field Chassis ?self k \<noteq> Inr v} = {''ip''}"
    using r by (auto split: if_splits)
  then show ?thesis using m r by (auto intro!: exI [of _ self'] exI [of _ changed])
qed

section \<open>Correctness of the dependency order\<close>

lemma mem_independent: "m \<in> set (independent_models u) \<longleftrightarrow> (m, []) \<in> set u"
  by (force simp: independent_models_def)

lemma keys_split:
  "set (dict_keys u) = set (independent_models u) \<union> set (dict_keys (drop_models done u))"
  by (force simp: independent_models_def drop_models_def)

lemma wf_drop_models: "wf_dict u \<Longrightarrow> wf_dict (drop_models done u)"
  by (induction u) (force simp: drop_models_def)+

lemma drop_models_mem:
  "(m, ds) \<in> set (drop_models done u) \<longleftrightarrow>
     (\<exists>deps. (m, deps) \<in> set u \<and> deps \<noteq> [] \<and> ds = set_diff deps done)"
  by (force simp: drop_models_def)

lemma independent_open_disjoint:
  assumes "wf_dict u"
  shows "set (independent_models u) \<inter> set (dict_keys (drop_models done u)) = {}"
proof -
  have False if "m \<in> set (independent_models u)" "(m, ds) \<in> set (drop_models done u)" for m ds
    using that eq_key_imp_eq_value [OF assms] by (fastforce simp: mem_independent drop_models_mem)
  then show ?thesis by auto
qed

text \<open>
  \<open>before xs x y\<close>: some occurrence of \<open>x\<close> precedes \<open>y\<close>. The loop invariant: what is
  sorted is closed under what the open models no longer list.
\<close>

definition before :: "'a list \<Rightarrow> 'a \<Rightarrow> 'a \<Rightarrow> bool" where
  "before xs x y \<longleftrightarrow> (\<exists>as bs. xs = as @ y # bs \<and> x \<in> set as)"

lemma before_append1: "before xs x y \<Longrightarrow> before (xs @ ys) x y"
  unfolding before_def by (metis append.assoc append_Cons)

lemma before_append2: "x \<in> set xs \<Longrightarrow> y \<in> set ys \<Longrightarrow> before (xs @ ys) x y"
  unfolding before_def by (metis Un_iff append.assoc set_append split_list)

lemma topological_sort_invariant:
  assumes "topological_sort u acc = Inr ms" "wf_dict u"
    and "distinct acc" "set acc \<inter> set (dict_keys u) = {}"
    and "\<And>m ds. (m, ds) \<in> set u \<Longrightarrow> set (D m) \<subseteq> set ds \<union> set acc"
    and "\<And>m d. m \<in> set acc \<Longrightarrow> d \<in> set (D m) \<Longrightarrow> before acc d m"
  shows "distinct ms \<and> set ms = set acc \<union> set (dict_keys u) \<and>
    (\<forall>m\<in>set ms. \<forall>d\<in>set (D m). before ms d m)"
  using assms
proof (induction u acc rule: topological_sort.induct)
  case (1 u acc)
  show ?case
  proof (cases "u = []")
    case True
    then show ?thesis using 1(2,4-) by (simp add: topological_sort.simps)
  next
    case False
    let ?ind = "independent_models u"
    let ?u = "drop_models ?ind u"
    let ?acc = "acc @ ?ind"
    from 1(2) False have ne: "?ind \<noteq> []" and
      eq: "topological_sort ?u ?acc = Inr ms"
      by (auto simp: topological_sort.simps [of u acc] split: if_splits)
    have di: "distinct ?ind"
      using 1(3) by (simp add: independent_models_def distinct_map inj_on_def)
    have disj: "set ?acc \<inter> set (dict_keys ?u) = {}"
      using 1(5) keys_split [of u ?ind] independent_open_disjoint [OF 1(3), of ?ind] by auto
    have D': "set (D m) \<subseteq> set ds \<union> set ?acc" if "(m, ds) \<in> set ?u" for m ds
      using that 1(6) by (fastforce simp: drop_models_mem)
    have B': "before ?acc d m" if "m \<in> set ?acc" "d \<in> set (D m)" for m d
    proof (cases "m \<in> set acc")
      case True
      then show ?thesis using that(2) 1(7) before_append1 by fast
    next
      case m: False
      with that(1) have "m \<in> set ?ind" by simp
      moreover from this that(2) 1(6) have "d \<in> set acc"
        by (fastforce simp: mem_independent)
      ultimately show ?thesis by (simp add: before_append2)
    qed
    have "distinct ?acc" using 1(4,5) di keys_split [of u ?ind] by auto
    from 1(1) [OF False ne eq wf_drop_models [OF 1(3)] this disj D' B']
    show ?thesis using keys_split [of u ?ind] by auto
  qed
qed

text \<open>Progress: as long as a rank decreases along dependencies, no round is stuck.\<close>

lemma topological_sort_progress:
  fixes rank :: "'m \<Rightarrow> nat"
  assumes "\<And>m ds d. (m, ds) \<in> set u \<Longrightarrow> d \<in> set ds \<Longrightarrow> d \<in> set (dict_keys u) \<and> rank d < rank m"
  shows "\<exists>ms. topological_sort u acc = Inr ms"
  using assms
proof (induction u acc rule: topological_sort.induct)
  case (1 u acc)
  show ?case
  proof (cases "u = []")
    case True
    then show ?thesis by (simp add: topological_sort.simps)
  next
    case False
    define m where "m = arg_min_on rank (set (dict_keys u))"
    have m: "m \<in> set (dict_keys u)" "\<And>k. k \<in> set (dict_keys u) \<Longrightarrow> rank m \<le> rank k"
      using False by (auto simp: m_def intro: arg_min_if_finite arg_min_least)
    from m(1) obtain ds where ds: "(m, ds) \<in> set u" by auto
    have "ds = []"
    proof (rule ccontr)
      assume "ds \<noteq> []"
      then have "hd ds \<in> set ds" by simp
      with 1(2) [OF ds] m(2) show False by (metis not_less)
    qed
    with ds have ne: "independent_models u \<noteq> []" using mem_independent [of m u] by auto
    have "d \<in> set (dict_keys (drop_models (independent_models u) u)) \<and> rank d < rank k"
      if "(k, es) \<in> set (drop_models (independent_models u) u)" "d \<in> set es" for k es d
      using that 1(2) keys_split [of u "independent_models u"]
      by (fastforce simp: drop_models_mem)
    from 1(1) [OF False ne this] show ?thesis
      using False ne by (simp add: topological_sort.simps [of u acc])
  qed
qed

lemma topological_sort_outcome:
  "(\<exists>ms. topological_sort u acc = Inr ms) \<or> topological_sort u acc = Inl RuntimeError"
  by (induction u acc rule: topological_sort.induct) (subst (1 2) topological_sort.simps, auto)

lemma topological_sort_order:
  assumes "topological_sort u [] = Inr ms" "wf_dict u"
    "\<forall>(m, ds)\<in>set u. set ds \<subseteq> set (dict_keys u)"
  shows "distinct ms \<and> set ms = set (dict_keys u) \<and>
    (\<forall>(m, ds)\<in>set u. \<forall>d\<in>set ds. before ms d m)"
proof -
  have D: "the (map_of u m) = ds" if "(m, ds) \<in> set u" for m ds
    using that assms(2) by simp
  have "distinct ms \<and> set ms = set [] \<union> set (dict_keys u) \<and>
      (\<forall>m\<in>set ms. \<forall>d\<in>set (the (map_of u m)). before ms d m)"
    by (rule topological_sort_invariant [OF assms(1,2)]) (simp_all add: D)
  moreover from this have "before ms d m" if "(m, ds) \<in> set u" "d \<in> set ds" for m ds d
    using that D [OF that(1)] by force
  ultimately show ?thesis by auto
qed

text \<open>The position in a correct order is a rank.\<close>

lemma before_takeWhile:
  assumes "distinct ms" "before ms d m"
  shows "length (takeWhile (\<lambda>x. x \<noteq> d) ms) < length (takeWhile (\<lambda>x. x \<noteq> m) ms)"
proof -
  from assms(2) obtain as bs where ms: "ms = as @ m # bs" "d \<in> set as" by (auto simp: before_def)
  have "takeWhile (\<lambda>x. x \<noteq> m) ms = as"
    using assms(1) ms by (subst ms(1), subst takeWhile_append2) auto
  moreover from ms(2) obtain cs es where as: "as = cs @ d # es" "d \<notin> set cs"
    by (auto dest: split_list_first)
  then have "takeWhile (\<lambda>x. x \<noteq> d) ms = cs" unfolding ms(1) as(1) by simp (subst takeWhile_append2, auto)
  ultimately show ?thesis using as(1) by simp
qed

lemma order_has_rank:
  assumes "distinct ms \<and> set ms = set (dict_keys u) \<and>
    (\<forall>(m, ds)\<in>set u. \<forall>d\<in>set ds. before ms d m)"
  shows "\<exists>rank :: 'm \<Rightarrow> nat. \<forall>(m, ds)\<in>set u. \<forall>d\<in>set ds. rank d < rank m"
  using assms before_takeWhile [of ms]
  by (intro exI [of _ "\<lambda>x. length (takeWhile (\<lambda>y. y \<noteq> x) ms)"]) auto

text \<open>
  C30. The dependency order is right and is found whenever there is one: the sort returns the
  models exactly when some ranking puts every model above its dependencies, and then it lists
  every model once with all its dependencies before it.
\<close>

theorem topological_sort_correct:
  fixes u :: "('m, 'm list) dict"
  assumes "wf_dict u" "\<forall>(m, ds)\<in>set u. set ds \<subseteq> set (dict_keys u)"
  shows "(if \<exists>rank :: 'm \<Rightarrow> nat. \<forall>(m, ds)\<in>set u. \<forall>d\<in>set ds. rank d < rank m
          then \<exists>ms. topological_sort u [] = Inr ms \<and>
            distinct ms \<and> set ms = set (dict_keys u) \<and>
            (\<forall>(m, ds)\<in>set u. \<forall>d\<in>set ds. before ms d m)
          else topological_sort u [] = Inl RuntimeError)"
proof (cases "\<exists>rank :: 'm \<Rightarrow> nat. \<forall>(m, ds)\<in>set u. \<forall>d\<in>set ds. rank d < rank m")
  case True
  then obtain rank :: "'m \<Rightarrow> nat" where r: "\<forall>(m, ds)\<in>set u. \<forall>d\<in>set ds. rank d < rank m" by blast
  have "d \<in> set (dict_keys u) \<and> rank d < rank m" if "(m, ds) \<in> set u" "d \<in> set ds" for m ds d
    using bspec [OF r that(1)] bspec [OF assms(2) that(1)] that(2) by auto
  then have "\<exists>ms. topological_sort u [] = Inr ms" by (rule topological_sort_progress)
  then show ?thesis using True topological_sort_order [OF _ assms] by auto
next
  case False
  have "topological_sort u [] \<noteq> Inr ms" for ms
    using False order_has_rank [OF topological_sort_order [OF _ assms]] by blast
  with topological_sort_outcome [of u "[]"] show ?thesis unfolding if_not_P [OF False] by blast
qed

theorem topological_sort_correct_witness:
  "\<exists>ms. topological_sort [(''lport'', [''lswitch'']), (''lswitch'', [])] [] = Inr ms \<and>
     before ms ''lswitch'' ''lport''"
proof -
  let ?u = "[(''lport'', [''lswitch'']), (''lswitch'', [])]"
  have "\<exists>rank :: string \<Rightarrow> nat. \<forall>(m, ds)\<in>set ?u. \<forall>d\<in>set ds. rank d < rank m"
    by (rule exI [of _ "\<lambda>m. if m = ''lport'' then 1 else 0"]) simp
  with topological_sort_correct [of ?u] show ?thesis by auto
qed

end
