(* ===== verification/Model_Order.thy ===== *)
theory Model_Order
  imports Model_Framework
begin

text \<open>
  The registry and the dependency order of the models Dragonflow declares: what
  \<open>iter_models_by_dependency_order\<close> returns for the classes of
  \<open>dragonflow/db/models\<close>, which is the order in which the synchronisation of the
  local controller handles them.
\<close>

text \<open>
  The models Dragonflow declares, registered in the order of their modules, and the order in
  which the synchronisation handles them.
\<close>

definition register_all :: "class_table \<Rightarrow> string list \<Rightarrow> registry result" where
  "register_all ct cs = for_each (register_model ct) cs empty_registry"

definition df_first_class :: "string list" where
  "df_first_class = filter (class_is_first_class df_classes) (dict_keys df_classes)"

text \<open>Every model of the list has its dependencies among the models before it.\<close>

definition respects_dependencies :: "class_table \<Rightarrow> bool \<Rightarrow> string list \<Rightarrow> bool" where
  "respects_dependencies ct fco ms =
     list_all (\<lambda>i.
       (case dependencies (Suc (length ct)) ct fco (ms ! i) of
          Inl e \<Rightarrow> False
        | Inr deps \<Rightarrow> list_all (\<lambda>d. d \<in> set (take i ms)) deps)) [0..<length ms]"

text \<open>What the declarations of the models amount to: the class table and the dependencies.\<close>

lemma length_df_classes: "\<exists>n. length df_classes = Suc n"
  by (simp add: df_classes_def)

lemmas dependency_simps =
  class_decl_defs class_fields_def issubclass_model_def set_add_def embedded_field_types_def

lemma df_embedded_types:
  "iterate_embedded_model_types (Suc (length df_classes)) df_classes ''Chassis'' = Inr []"
  "iterate_embedded_model_types (Suc (length df_classes)) df_classes ''Publisher'' = Inr []"
  "iterate_embedded_model_types (Suc (length df_classes)) df_classes ''Listener'' = Inr []"
  "iterate_embedded_model_types (Suc (length df_classes)) df_classes ''QosPolicy'' = Inr [''QosPolicyRule'']"
  "iterate_embedded_model_types (Suc (length df_classes)) df_classes ''SecurityGroup'' = Inr [''SecurityGroupRule'']"
  "iterate_embedded_model_types (Suc (length df_classes)) df_classes ''LogicalSwitch'' = Inr []"
  "iterate_embedded_model_types (Suc (length df_classes)) df_classes ''Subnet'' = Inr []"
  "iterate_embedded_model_types (Suc (length df_classes)) df_classes ''LogicalPort'' = Inr []"
  "iterate_embedded_model_types (Suc (length df_classes)) df_classes ''LogicalRouter'' = Inr [''LogicalRouterPort'']"
  "iterate_embedded_model_types (Suc (length df_classes)) df_classes ''FloatingIp'' = Inr []"
  "iterate_embedded_model_types (Suc (length df_classes)) df_classes ''SwitchPort'' = Inr []"
  "iterate_embedded_model_types (Suc (length df_classes)) df_classes ''Migration'' = Inr []"
  "iterate_embedded_model_types (Suc (length df_classes)) df_classes ''AllowedAddressPairsActivePort'' = Inr []"
  "iterate_embedded_model_types (Suc (length df_classes)) df_classes ''Service'' = Inr []"
  "iterate_embedded_model_types (Suc (length df_classes)) df_classes ''ChildPortSegmentation'' = Inr []"
  "iterate_embedded_model_types (Suc (length df_classes)) df_classes ''PortPair'' = Inr []"
  "iterate_embedded_model_types (Suc (length df_classes)) df_classes ''PortPairGroup'' = Inr []"
  "iterate_embedded_model_types (Suc (length df_classes)) df_classes ''FlowClassifier'' = Inr []"
  "iterate_embedded_model_types (Suc (length df_classes)) df_classes ''PortChain'' = Inr []"
  "iterate_embedded_model_types (Suc (length df_classes)) df_classes ''BGPPeer'' = Inr []"
  "iterate_embedded_model_types (Suc (length df_classes)) df_classes ''BGPSpeaker'' = Inr []"
  using length_df_classes by (auto simp: dependency_simps)

lemma df_dependencies_first_class:
  "dependencies (Suc (length df_classes)) df_classes True ''Chassis'' = Inr []"
  "dependencies (Suc (length df_classes)) df_classes True ''Publisher'' = Inr []"
  "dependencies (Suc (length df_classes)) df_classes True ''Listener'' = Inr []"
  "dependencies (Suc (length df_classes)) df_classes True ''QosPolicy'' = Inr []"
  "dependencies (Suc (length df_classes)) df_classes True ''SecurityGroup'' = Inr []"
  "dependencies (Suc (length df_classes)) df_classes True ''LogicalSwitch'' = Inr [''QosPolicy'']"
  "dependencies (Suc (length df_classes)) df_classes True ''Subnet'' = Inr [''LogicalSwitch'']"
  "dependencies (Suc (length df_classes)) df_classes True ''LogicalPort'' = Inr [''Subnet'', ''LogicalSwitch'', ''SecurityGroup'', ''QosPolicy'']"
  "dependencies (Suc (length df_classes)) df_classes True ''LogicalRouter'' = Inr [''LogicalSwitch'']"
  "dependencies (Suc (length df_classes)) df_classes True ''FloatingIp'' = Inr [''LogicalPort'', ''LogicalRouter'']"
  "dependencies (Suc (length df_classes)) df_classes True ''SwitchPort'' = Inr [''LogicalPort'']"
  "dependencies (Suc (length df_classes)) df_classes True ''Migration'' = Inr [''Chassis'', ''LogicalPort'']"
  "dependencies (Suc (length df_classes)) df_classes True ''AllowedAddressPairsActivePort'' = Inr [''LogicalSwitch'', ''LogicalPort'']"
  "dependencies (Suc (length df_classes)) df_classes True ''Service'' = Inr [''Chassis'']"
  "dependencies (Suc (length df_classes)) df_classes True ''ChildPortSegmentation'' = Inr [''LogicalPort'']"
  "dependencies (Suc (length df_classes)) df_classes True ''PortPair'' = Inr [''LogicalPort'']"
  "dependencies (Suc (length df_classes)) df_classes True ''PortPairGroup'' = Inr [''PortPair'']"
  "dependencies (Suc (length df_classes)) df_classes True ''FlowClassifier'' = Inr [''LogicalPort'']"
  "dependencies (Suc (length df_classes)) df_classes True ''PortChain'' = Inr [''PortPairGroup'', ''FlowClassifier'']"
  "dependencies (Suc (length df_classes)) df_classes True ''BGPPeer'' = Inr []"
  "dependencies (Suc (length df_classes)) df_classes True ''BGPSpeaker'' = Inr [''BGPPeer'']"
  using length_df_classes by (auto simp: dependency_simps)

lemma df_dependencies_all:
  "dependencies (Suc (length df_classes)) df_classes False ''Chassis'' = Inr []"
  "dependencies (Suc (length df_classes)) df_classes False ''Publisher'' = Inr []"
  "dependencies (Suc (length df_classes)) df_classes False ''Listener'' = Inr []"
  "dependencies (Suc (length df_classes)) df_classes False ''QosPolicy'' = Inr [''QosPolicyRule'']"
  "dependencies (Suc (length df_classes)) df_classes False ''QosPolicyRule'' = Inr []"
  "dependencies (Suc (length df_classes)) df_classes False ''SecurityGroup'' = Inr [''SecurityGroupRule'']"
  "dependencies (Suc (length df_classes)) df_classes False ''SecurityGroupRule'' = Inr []"
  "dependencies (Suc (length df_classes)) df_classes False ''LogicalSwitch'' = Inr [''QosPolicy'']"
  "dependencies (Suc (length df_classes)) df_classes False ''Subnet'' = Inr [''LogicalSwitch'']"
  "dependencies (Suc (length df_classes)) df_classes False ''LogicalPort'' = Inr [''Subnet'', ''LogicalSwitch'', ''SecurityGroup'', ''QosPolicy'']"
  "dependencies (Suc (length df_classes)) df_classes False ''LogicalRouter'' = Inr [''LogicalRouterPort'']"
  "dependencies (Suc (length df_classes)) df_classes False ''LogicalRouterPort'' = Inr [''LogicalSwitch'']"
  "dependencies (Suc (length df_classes)) df_classes False ''FloatingIp'' = Inr [''LogicalPort'', ''LogicalRouter'']"
  "dependencies (Suc (length df_classes)) df_classes False ''SwitchPort'' = Inr [''LogicalPort'']"
  "dependencies (Suc (length df_classes)) df_classes False ''Migration'' = Inr [''Chassis'', ''LogicalPort'']"
  "dependencies (Suc (length df_classes)) df_classes False ''AllowedAddressPairsActivePort'' = Inr [''LogicalSwitch'', ''LogicalPort'']"
  "dependencies (Suc (length df_classes)) df_classes False ''Service'' = Inr [''Chassis'']"
  "dependencies (Suc (length df_classes)) df_classes False ''ChildPortSegmentation'' = Inr [''LogicalPort'']"
  "dependencies (Suc (length df_classes)) df_classes False ''PortPair'' = Inr [''LogicalPort'']"
  "dependencies (Suc (length df_classes)) df_classes False ''PortPairGroup'' = Inr [''PortPair'']"
  "dependencies (Suc (length df_classes)) df_classes False ''FlowClassifier'' = Inr [''LogicalPort'']"
  "dependencies (Suc (length df_classes)) df_classes False ''PortChain'' = Inr [''PortPairGroup'', ''FlowClassifier'']"
  "dependencies (Suc (length df_classes)) df_classes False ''BGPPeer'' = Inr []"
  "dependencies (Suc (length df_classes)) df_classes False ''BGPSpeaker'' = Inr [''BGPPeer'']"
  using length_df_classes by (auto simp: dependency_simps)

lemma df_is_first_class [simp]:
  "class_is_first_class df_classes ''Chassis'' = True"
  "class_is_first_class df_classes ''Publisher'' = True"
  "class_is_first_class df_classes ''Listener'' = True"
  "class_is_first_class df_classes ''QosPolicy'' = True"
  "class_is_first_class df_classes ''QosPolicyRule'' = False"
  "class_is_first_class df_classes ''SecurityGroup'' = True"
  "class_is_first_class df_classes ''SecurityGroupRule'' = False"
  "class_is_first_class df_classes ''LogicalSwitch'' = True"
  "class_is_first_class df_classes ''Subnet'' = True"
  "class_is_first_class df_classes ''LogicalPort'' = True"
  "class_is_first_class df_classes ''LogicalRouter'' = True"
  "class_is_first_class df_classes ''LogicalRouterPort'' = False"
  "class_is_first_class df_classes ''FloatingIp'' = True"
  "class_is_first_class df_classes ''SwitchPort'' = True"
  "class_is_first_class df_classes ''Migration'' = True"
  "class_is_first_class df_classes ''AllowedAddressPairsActivePort'' = True"
  "class_is_first_class df_classes ''Service'' = True"
  "class_is_first_class df_classes ''ChildPortSegmentation'' = True"
  "class_is_first_class df_classes ''PortPair'' = True"
  "class_is_first_class df_classes ''PortPairGroup'' = True"
  "class_is_first_class df_classes ''FlowClassifier'' = True"
  "class_is_first_class df_classes ''PortChain'' = True"
  "class_is_first_class df_classes ''BGPPeer'' = True"
  "class_is_first_class df_classes ''BGPSpeaker'' = True"
  by (simp_all add: class_is_first_class_def is_first_class_def class_decl_defs)

lemma df_tables [simp]:
  "cd_table Chassis \<noteq> None"
  "cd_table Publisher \<noteq> None"
  "cd_table Listener \<noteq> None"
  "cd_table QosPolicy \<noteq> None"
  "cd_table SecurityGroup \<noteq> None"
  "cd_table LogicalSwitch \<noteq> None"
  "cd_table Subnet \<noteq> None"
  "cd_table LogicalPort \<noteq> None"
  "cd_table LogicalRouter \<noteq> None"
  "cd_table FloatingIp \<noteq> None"
  "cd_table SwitchPort \<noteq> None"
  "cd_table Migration \<noteq> None"
  "cd_table AllowedAddressPairsActivePort \<noteq> None"
  "cd_table Service \<noteq> None"
  "cd_table ChildPortSegmentation \<noteq> None"
  "cd_table PortPair \<noteq> None"
  "cd_table PortPairGroup \<noteq> None"
  "cd_table FlowClassifier \<noteq> None"
  "cd_table PortChain \<noteq> None"
  "cd_table BGPPeer \<noteq> None"
  "cd_table BGPSpeaker \<noteq> None"
  by (simp_all add: class_decl_defs)

lemma df_first_class_eq:
  "df_first_class =
     [''Chassis'', ''Publisher'', ''Listener'', ''QosPolicy'', ''SecurityGroup'',
     ''LogicalSwitch'', ''Subnet'', ''LogicalPort'', ''LogicalRouter'', ''FloatingIp'',
     ''SwitchPort'', ''Migration'', ''AllowedAddressPairsActivePort'', ''Service'',
     ''ChildPortSegmentation'', ''PortPair'', ''PortPairGroup'', ''FlowClassifier'',
     ''PortChain'', ''BGPPeer'', ''BGPSpeaker'']"
  unfolding df_first_class_def class_is_first_class_def
  by (subst (2) df_classes_def) (simp add: is_first_class_def class_decl_defs)

declare dependencies.simps [simp del] iterate_embedded_model_types.simps [simp del]

text \<open>The registered classes: the first-class models and the models embedded in them.\<close>

definition df_registered :: "string list" where
  "df_registered =
     [''Chassis'', ''Publisher'', ''Listener'', ''QosPolicy'', ''QosPolicyRule'',
     ''SecurityGroup'', ''SecurityGroupRule'', ''LogicalSwitch'', ''Subnet'',
     ''LogicalPort'', ''LogicalRouter'', ''LogicalRouterPort'', ''FloatingIp'',
     ''SwitchPort'', ''Migration'', ''AllowedAddressPairsActivePort'', ''Service'',
     ''ChildPortSegmentation'', ''PortPair'', ''PortPairGroup'', ''FlowClassifier'',
     ''PortChain'', ''BGPPeer'', ''BGPSpeaker'']"

lemma register_df_models:
  "\<exists>r. register_all df_classes df_first_class = Inr r \<and>
     registered_models r = df_registered"
  unfolding df_first_class_eq register_all_def empty_registry_def
  by (simp add: register_model_def df_embedded_types class_decl_defs set_add_def df_registered_def)

lemma df_unsorted_first_class:
  assumes "registered_models r = df_registered"
  shows "unsorted_models df_classes True r =
     Inr [(''Chassis'', []), (''Publisher'', []), (''Listener'', []), (''QosPolicy'', []),
      (''SecurityGroup'', []), (''LogicalSwitch'', [''QosPolicy'']),
      (''Subnet'', [''LogicalSwitch'']),
      (''LogicalPort'', [''Subnet'', ''LogicalSwitch'', ''SecurityGroup'', ''QosPolicy'']),
      (''LogicalRouter'', [''LogicalSwitch'']),
      (''FloatingIp'', [''LogicalPort'', ''LogicalRouter'']),
      (''SwitchPort'', [''LogicalPort'']), (''Migration'', [''Chassis'', ''LogicalPort'']),
      (''AllowedAddressPairsActivePort'', [''LogicalSwitch'', ''LogicalPort'']),
      (''Service'', [''Chassis'']), (''ChildPortSegmentation'', [''LogicalPort'']),
      (''PortPair'', [''LogicalPort'']), (''PortPairGroup'', [''PortPair'']),
      (''FlowClassifier'', [''LogicalPort'']),
      (''PortChain'', [''PortPairGroup'', ''FlowClassifier'']), (''BGPPeer'', []),
      (''BGPSpeaker'', [''BGPPeer''])]"
  by (simp add: unsorted_models_def iter_models_def assms df_registered_def df_dependencies_first_class)

lemma df_unsorted_all:
  assumes "registered_models r = df_registered"
  shows "unsorted_models df_classes False r =
     Inr [(''Chassis'', []), (''Publisher'', []), (''Listener'', []),
      (''QosPolicy'', [''QosPolicyRule'']), (''QosPolicyRule'', []),
      (''SecurityGroup'', [''SecurityGroupRule'']), (''SecurityGroupRule'', []),
      (''LogicalSwitch'', [''QosPolicy'']), (''Subnet'', [''LogicalSwitch'']),
      (''LogicalPort'', [''Subnet'', ''LogicalSwitch'', ''SecurityGroup'', ''QosPolicy'']),
      (''LogicalRouter'', [''LogicalRouterPort'']),
      (''LogicalRouterPort'', [''LogicalSwitch'']),
      (''FloatingIp'', [''LogicalPort'', ''LogicalRouter'']),
      (''SwitchPort'', [''LogicalPort'']), (''Migration'', [''Chassis'', ''LogicalPort'']),
      (''AllowedAddressPairsActivePort'', [''LogicalSwitch'', ''LogicalPort'']),
      (''Service'', [''Chassis'']), (''ChildPortSegmentation'', [''LogicalPort'']),
      (''PortPair'', [''LogicalPort'']), (''PortPairGroup'', [''PortPair'']),
      (''FlowClassifier'', [''LogicalPort'']),
      (''PortChain'', [''PortPairGroup'', ''FlowClassifier'']), (''BGPPeer'', []),
      (''BGPSpeaker'', [''BGPPeer''])]"
  by (simp add: unsorted_models_def iter_models_def assms df_registered_def df_dependencies_all)

lemma df_order_first_class:
  assumes "registered_models r = df_registered"
  shows "iter_models_by_dependency_order df_classes True r =
     Inr [''Chassis'', ''Publisher'', ''Listener'', ''QosPolicy'', ''SecurityGroup'',
     ''BGPPeer'', ''LogicalSwitch'', ''Service'', ''BGPSpeaker'', ''Subnet'',
     ''LogicalRouter'', ''LogicalPort'', ''FloatingIp'', ''SwitchPort'', ''Migration'',
     ''AllowedAddressPairsActivePort'', ''ChildPortSegmentation'', ''PortPair'',
     ''FlowClassifier'', ''PortPairGroup'', ''PortChain'']"
  by (simp add: iter_models_by_dependency_order_def df_unsorted_first_class [OF assms]
      topological_sort.simps independent_models_def drop_models_def set_diff_def)

lemma df_order_first_class_models:
  assumes "registered_models r = df_registered"
    and "iter_models_by_dependency_order df_classes True r = Inr ms"
  shows "distinct ms \<and> set ms = set (iter_models df_classes True r)"
proof -
  let ?u = "[(''Chassis'', []), (''Publisher'', []), (''Listener'', []), (''QosPolicy'', []),
      (''SecurityGroup'', []), (''LogicalSwitch'', [''QosPolicy'']),
      (''Subnet'', [''LogicalSwitch'']),
      (''LogicalPort'', [''Subnet'', ''LogicalSwitch'', ''SecurityGroup'', ''QosPolicy'']),
      (''LogicalRouter'', [''LogicalSwitch'']),
      (''FloatingIp'', [''LogicalPort'', ''LogicalRouter'']),
      (''SwitchPort'', [''LogicalPort'']), (''Migration'', [''Chassis'', ''LogicalPort'']),
      (''AllowedAddressPairsActivePort'', [''LogicalSwitch'', ''LogicalPort'']),
      (''Service'', [''Chassis'']), (''ChildPortSegmentation'', [''LogicalPort'']),
      (''PortPair'', [''LogicalPort'']), (''PortPairGroup'', [''PortPair'']),
      (''FlowClassifier'', [''LogicalPort'']),
      (''PortChain'', [''PortPairGroup'', ''FlowClassifier'']), (''BGPPeer'', []),
      (''BGPSpeaker'', [''BGPPeer''])]"
  have 1: "topological_sort ?u [] = Inr ms"
    using assms(2) by (simp add: iter_models_by_dependency_order_def df_unsorted_first_class [OF assms(1)])
  have 2: "wf_dict ?u" by simp
  have 3: "\<forall>(m, ds)\<in>set ?u. set ds \<subseteq> set (dict_keys ?u)" by simp
  have 4: "dict_keys ?u = iter_models df_classes True r" by (simp add: iter_models_def assms(1) df_registered_def)
  from topological_sort_order [OF 1 2 3] show ?thesis unfolding 4 by (elim conjE) (rule conjI)
qed

lemma df_order_first_class_respected:
  "respects_dependencies df_classes True
     [''Chassis'', ''Publisher'', ''Listener'', ''QosPolicy'', ''SecurityGroup'',
     ''BGPPeer'', ''LogicalSwitch'', ''Service'', ''BGPSpeaker'', ''Subnet'',
     ''LogicalRouter'', ''LogicalPort'', ''FloatingIp'', ''SwitchPort'', ''Migration'',
     ''AllowedAddressPairsActivePort'', ''ChildPortSegmentation'', ''PortPair'',
     ''FlowClassifier'', ''PortPairGroup'', ''PortChain'']"
  by (simp add: respects_dependencies_def df_dependencies_first_class upt_rec take_Cons')

lemma df_order_all:
  assumes "registered_models r = df_registered"
  shows "iter_models_by_dependency_order df_classes False r =
     Inr [''Chassis'', ''Publisher'', ''Listener'', ''QosPolicyRule'', ''SecurityGroupRule'',
     ''BGPPeer'', ''QosPolicy'', ''SecurityGroup'', ''Service'', ''BGPSpeaker'',
     ''LogicalSwitch'', ''Subnet'', ''LogicalRouterPort'', ''LogicalPort'',
     ''LogicalRouter'', ''FloatingIp'', ''SwitchPort'', ''Migration'',
     ''AllowedAddressPairsActivePort'', ''ChildPortSegmentation'', ''PortPair'',
     ''FlowClassifier'', ''PortPairGroup'', ''PortChain'']"
  by (simp add: iter_models_by_dependency_order_def df_unsorted_all [OF assms]
      topological_sort.simps independent_models_def drop_models_def set_diff_def)

lemma df_order_all_models:
  assumes "registered_models r = df_registered"
    and "iter_models_by_dependency_order df_classes False r = Inr ms"
  shows "distinct ms \<and> set ms = set (iter_models df_classes False r)"
proof -
  let ?u = "[(''Chassis'', []), (''Publisher'', []), (''Listener'', []),
      (''QosPolicy'', [''QosPolicyRule'']), (''QosPolicyRule'', []),
      (''SecurityGroup'', [''SecurityGroupRule'']), (''SecurityGroupRule'', []),
      (''LogicalSwitch'', [''QosPolicy'']), (''Subnet'', [''LogicalSwitch'']),
      (''LogicalPort'', [''Subnet'', ''LogicalSwitch'', ''SecurityGroup'', ''QosPolicy'']),
      (''LogicalRouter'', [''LogicalRouterPort'']),
      (''LogicalRouterPort'', [''LogicalSwitch'']),
      (''FloatingIp'', [''LogicalPort'', ''LogicalRouter'']),
      (''SwitchPort'', [''LogicalPort'']), (''Migration'', [''Chassis'', ''LogicalPort'']),
      (''AllowedAddressPairsActivePort'', [''LogicalSwitch'', ''LogicalPort'']),
      (''Service'', [''Chassis'']), (''ChildPortSegmentation'', [''LogicalPort'']),
      (''PortPair'', [''LogicalPort'']), (''PortPairGroup'', [''PortPair'']),
      (''FlowClassifier'', [''LogicalPort'']),
      (''PortChain'', [''PortPairGroup'', ''FlowClassifier'']), (''BGPPeer'', []),
      (''BGPSpeaker'', [''BGPPeer''])]"
  have 1: "topological_sort ?u [] = Inr ms"
    using assms(2) by (simp add: iter_models_by_dependency_order_def df_unsorted_all [OF assms(1)])
  have 2: "wf_dict ?u" by simp
  have 3: "\<forall>(m, ds)\<in>set ?u. set ds \<subseteq> set (dict_keys ?u)" by simp
  have 4: "dict_keys ?u = iter_models df_classes False r" by (simp add: iter_models_def assms(1) df_registered_def)
  from topological_sort_order [OF 1 2 3] show ?thesis unfolding 4 by (elim conjE) (rule conjI)
qed

lemma df_order_all_respected:
  "respects_dependencies df_classes False
     [''Chassis'', ''Publisher'', ''Listener'', ''QosPolicyRule'', ''SecurityGroupRule'',
     ''BGPPeer'', ''QosPolicy'', ''SecurityGroup'', ''Service'', ''BGPSpeaker'',
     ''LogicalSwitch'', ''Subnet'', ''LogicalRouterPort'', ''LogicalPort'',
     ''LogicalRouter'', ''FloatingIp'', ''SwitchPort'', ''Migration'',
     ''AllowedAddressPairsActivePort'', ''ChildPortSegmentation'', ''PortPair'',
     ''FlowClassifier'', ''PortPairGroup'', ''PortChain'']"
  by (simp add: respects_dependencies_def df_dependencies_all upt_rec take_Cons')

text \<open>
  The declared models can all be registered, and they form no dependency cycle: with or
  without the embedded models, the dependency order lists every registered model exactly once
  and never before one of its dependencies.
\<close>

theorem df_models_dependency_order:
  "\<exists>r. register_all df_classes df_first_class = Inr r \<and>
     (\<forall>fco. \<exists>ms. iter_models_by_dependency_order df_classes fco r = Inr ms \<and>
        distinct ms \<and> set ms = set (iter_models df_classes fco r) \<and>
        respects_dependencies df_classes fco ms)"
proof -
  from register_df_models obtain r where r: "register_all df_classes df_first_class = Inr r"
    and m: "registered_models r = df_registered" by blast
  have "\<exists>ms. iter_models_by_dependency_order df_classes fco r = Inr ms \<and>
        distinct ms \<and> set ms = set (iter_models df_classes fco r) \<and>
        respects_dependencies df_classes fco ms" for fco
    using df_order_first_class [OF m] df_order_first_class_respected df_order_first_class_models [OF m]
      df_order_all [OF m] df_order_all_respected df_order_all_models [OF m]
    by (cases fco) metis+
  with r show ?thesis by blast
qed

end
