(* ===== verification/Cookies.thy ===== *)
theory Cookies
  imports Df_Prelude
begin

unbundle bit_operations_syntax

text \<open>
  The OpenFlow cookie space, \<open>dragonflow/controller/common/cookies.py\<close>: every task that
  wants to recognise its flows owns a range of the 64 cookie bits. The lower half is shared by
  all applications, the upper half is reused by each. Cookies, masks and values are Python
  integers, hence \<^typ>\<open>int\<close> with the bit operations of Isabelle; a length or an offset is a
  \<^typ>\<open>nat\<close>. The module's globals are the fields of one record; a cookie modifier is a
  function of what the caller passes as the opaque value.
\<close>

section \<open>State and operations\<close>

definition GLOBAL_APP_NAME :: string where
  "GLOBAL_APP_NAME = ''global cookie namespace''"

definition cookie_max_bits :: nat where "cookie_max_bits = 64"
definition cookie_max_bits_global :: nat where "cookie_max_bits_global = 32"
definition cookie_max_bits_local :: nat where
  "cookie_max_bits_local = cookie_max_bits - cookie_max_bits_global"

definition cookie_mask_all :: int where
  "cookie_mask_all = NOT (push_bit cookie_max_bits (drop_bit cookie_max_bits (- 1)))"

type_synonym cookie_bit_pair = "nat \<times> int"

record 'o cookie_space =
  ck_cookies :: "(string \<times> string, cookie_bit_pair) dict"
  ck_used_bits :: "(string, nat) dict"
  ck_modifiers :: "(string, 'o \<Rightarrow> int) dict"

definition empty_cookie_space :: "'o cookie_space" where
  "empty_cookie_space = \<lparr>ck_cookies = [], ck_used_bits = [], ck_modifiers = []\<rparr>"

definition ck_used :: "'o cookie_space \<Rightarrow> string \<Rightarrow> nat" where
  "ck_used s app = (case map_of (ck_used_bits s) app of Some n \<Rightarrow> n | None \<Rightarrow> 0)"

text \<open>The name space of a call: a local one needs an application name that is not empty.\<close>

definition cookie_namespace :: "bool \<Rightarrow> string option \<Rightarrow> string result" where
  "cookie_namespace is_local app_name =
     (if \<not> is_local then Inr GLOBAL_APP_NAME
      else (case app_name of
              Some app \<Rightarrow> if app \<noteq> [] then Inr app else Inl TypeError
            | None \<Rightarrow> Inl TypeError))"

definition register_cookie_bits ::
  "string \<Rightarrow> nat \<Rightarrow> bool \<Rightarrow> string option \<Rightarrow> 'o cookie_space \<Rightarrow> 'o cookie_space result" where
  "register_cookie_bits name len is_local app_name s =
     bind_result (cookie_namespace is_local app_name) (\<lambda>app.
       let shift = (if is_local then cookie_max_bits_global else 0);
           max_bits = (if is_local then cookie_max_bits_local else cookie_max_bits_global);
           start = ck_used s app
       in if map_of (ck_cookies s) (app, name) \<noteq> None then Inr s
          else if start + len > max_bits then Inl OutOfCookieSpaceException
          else
            let msk = push_bit (start + shift) (drop_bit (cookie_max_bits - len) cookie_mask_all)
            in Inr (s\<lparr>ck_used_bits := AList.update app (start + len) (ck_used_bits s),
                      ck_cookies := AList.update (app, name) (start + shift, msk) (ck_cookies s)\<rparr>))"

definition get_cookie ::
  "'o cookie_space \<Rightarrow> string \<Rightarrow> int \<Rightarrow> int \<Rightarrow> int \<Rightarrow> bool \<Rightarrow> string option \<Rightarrow> (int \<times> int) result" where
  "get_cookie s name value old_cookie old_mask is_local app_name =
     bind_result (cookie_namespace is_local app_name) (\<lambda>app.
       (case map_of (ck_cookies s) (app, name) of
          None \<Rightarrow> Inl KeyError
        | Some (offset, msk) \<Rightarrow>
            let mask_overlap = old_mask AND msk in
            if mask_overlap \<noteq> 0 then
              (if mask_overlap \<noteq> msk then Inl MaskOverlapException else Inr (old_cookie, old_mask))
            else
              let result_unmasked = push_bit offset value;
                  res = result_unmasked AND msk
              in if res \<noteq> result_unmasked then Inl CookieOverflowExcpetion
                 else Inr (res OR (old_cookie AND NOT msk), msk OR old_mask)))"

definition extract_value_from_cookie ::
  "'o cookie_space \<Rightarrow> string \<Rightarrow> int \<Rightarrow> bool \<Rightarrow> string option \<Rightarrow> int result" where
  "extract_value_from_cookie s name cookie_value is_local app_name =
     bind_result (cookie_namespace is_local app_name) (\<lambda>app.
       (case map_of (ck_cookies s) (app, name) of
          None \<Rightarrow> Inl KeyError
        | Some (offset, msk) \<Rightarrow> Inr (drop_bit offset (cookie_value AND msk))))"

definition add_global_cookie_modifier ::
  "string \<Rightarrow> nat \<Rightarrow> ('o \<Rightarrow> int) \<Rightarrow> 'o cookie_space \<Rightarrow> 'o cookie_space result" where
  "add_global_cookie_modifier name len modifier s =
     bind_result (register_cookie_bits name len False None s) (\<lambda>s.
       Inr (s\<lparr>ck_modifiers := AList.update name modifier (ck_modifiers s)\<rparr>))"

definition apply_global_cookie_modifiers ::
  "'o cookie_space \<Rightarrow> 'o \<Rightarrow> int \<times> int \<Rightarrow> (int \<times> int) result" where
  "apply_global_cookie_modifiers s opaque cm =
     for_each (\<lambda>(name, modifier) (cookie, msk).
       get_cookie s name (modifier opaque) cookie msk False None) (ck_modifiers s) cm"

section \<open>The layout of the cookie bits\<close>

text \<open>
  A registered task owns the bits from its offset on: its mask is a block of ones there. The
  invariant: blocks lie below what their name space has used, global blocks in the lower half
  and local ones in the upper half, and blocks of one name space do not overlap.
\<close>

definition bit_block :: "nat \<Rightarrow> nat \<Rightarrow> int" where
  "bit_block off len = push_bit off (mask len)"

definition block_base :: "string \<Rightarrow> nat" where
  "block_base app = (if app = GLOBAL_APP_NAME then 0 else cookie_max_bits_global)"

definition cs_inv :: "'o cookie_space \<Rightarrow> bool" where
  "cs_inv s \<longleftrightarrow>
     (\<forall>app. ck_used s app \<le> 32) \<and>
     (\<forall>app name off msk. map_of (ck_cookies s) (app, name) = Some (off, msk) \<longrightarrow>
        (\<exists>len. msk = bit_block off len \<and> block_base app \<le> off \<and>
           off + len \<le> block_base app + ck_used s app)) \<and>
     (\<forall>app n1 n2 p1 p2. n1 \<noteq> n2 \<longrightarrow> map_of (ck_cookies s) (app, n1) = Some p1 \<longrightarrow>
        map_of (ck_cookies s) (app, n2) = Some p2 \<longrightarrow> snd p1 AND snd p2 = 0)"

lemma cookie_mask_all_eq: "cookie_mask_all = mask 64"
  by (rule bit_eqI) (auto simp: cookie_mask_all_def cookie_max_bits_def bit_simps)

lemma registered_mask:
  "len \<le> 32 \<Longrightarrow> push_bit off (drop_bit (cookie_max_bits - len) cookie_mask_all) = bit_block off len"
  by (rule bit_eqI) (auto simp: cookie_mask_all_eq cookie_max_bits_def bit_block_def bit_simps)

lemma bit_block_iff: "bit (bit_block off len) n \<longleftrightarrow> off \<le> n \<and> n < off + len"
  by (auto simp: bit_block_def bit_simps)

lemma bit_blocks_disjoint:
  "off1 + len1 \<le> off2 \<Longrightarrow> bit_block off1 len1 AND bit_block off2 len2 = 0"
  "off1 + len1 \<le> off2 \<Longrightarrow> bit_block off2 len2 AND bit_block off1 len1 = 0"
  by (auto intro!: bit_eqI simp: bit_and_iff bit_block_iff)

lemma cs_inv_empty: "cs_inv empty_cookie_space"
  by (simp add: cs_inv_def empty_cookie_space_def ck_used_def)

lemma cs_invD:
  assumes "cs_inv s" "map_of (ck_cookies s) (app, name) = Some (off, msk)"
  obtains len where "msk = bit_block off len" "block_base app \<le> off"
    "off + len \<le> block_base app + ck_used s app" "ck_used s app \<le> 32"
  using assms unfolding cs_inv_def by blast

text \<open>A new block starts where its name space ends.\<close>

lemma cs_inv_add_block:
  assumes inv: "cs_inv s" and new: "map_of (ck_cookies s) (app, name) = None"
    and fits: "ck_used s app + len \<le> 32" and off: "off = block_base app + ck_used s app"
  shows "cs_inv (s\<lparr>ck_used_bits := AList.update app (ck_used s app + len) (ck_used_bits s),
     ck_cookies := AList.update (app, name) (off, bit_block off len) (ck_cookies s)\<rparr>)"
    (is "cs_inv ?s")
proof -
  have used: "ck_used ?s a = (if a = app then ck_used s app + len else ck_used s a)" for a
    by (simp add: ck_used_def)
  have cookies: "map_of (ck_cookies ?s) an =
      (if an = (app, name) then Some (off, bit_block off len) else map_of (ck_cookies s) an)" for an
    by simp
  have old: "snd p AND bit_block off len = 0 \<and> bit_block off len AND snd p = 0"
    if "map_of (ck_cookies s) (app, n) = Some p" for n p
  proof -
    obtain o' m' where p: "p = (o', m')" by (cases p)
    from cs_invD [OF inv that [unfolded p]] obtain l where
      "m' = bit_block o' l" "o' + l \<le> off" by (auto simp: off)
    then show ?thesis by (simp add: p bit_blocks_disjoint)
  qed
  have "\<exists>l. msk = bit_block o' l \<and> block_base a \<le> o' \<and> o' + l \<le> block_base a + ck_used ?s a"
    if m: "map_of (ck_cookies ?s) (a, n) = Some (o', msk)" for a n o' msk
  proof (cases "(a, n) = (app, name)")
    case True
    with m have "o' = off" "msk = bit_block off len" unfolding cookies by auto
    then show ?thesis using True off used [of app] by (intro exI [of _ len]) auto
  next
    case False
    with m have "map_of (ck_cookies s) (a, n) = Some (o', msk)" unfolding cookies by (simp only: if_False)
    from cs_invD [OF inv this] obtain l where "msk = bit_block o' l" "block_base a \<le> o'"
      "o' + l \<le> block_base a + ck_used s a" by blast
    then show ?thesis by (auto simp: used)
  qed
  moreover have "ck_used ?s a \<le> 32" for a using inv fits by (simp add: used cs_inv_def)
  moreover have "snd p1 AND snd p2 = 0"
    if "n1 \<noteq> n2" "map_of (ck_cookies ?s) (a, n1) = Some p1" "map_of (ck_cookies ?s) (a, n2) = Some p2"
    for a n1 n2 p1 p2
  proof (cases "(a, n1) = (app, name) \<or> (a, n2) = (app, name)")
    case True
    then show ?thesis using that old [of n1 p1] old [of n2 p2] unfolding cookies by auto
  next
    case False
    with that(2,3) have "map_of (ck_cookies s) (a, n1) = Some p1" "map_of (ck_cookies s) (a, n2) = Some p2"
      unfolding cookies by (simp_all only: if_False de_Morgan_disj)
    with that(1) inv show ?thesis unfolding cs_inv_def by blast
  qed
  ultimately show ?thesis unfolding cs_inv_def by blast
qed

lemma register_cookie_bits_inv:
  assumes "register_cookie_bits name len is_local app_name s = Inr s'" "cs_inv s"
    and "is_local \<longrightarrow> app_name \<noteq> Some GLOBAL_APP_NAME"
  shows "cs_inv s'"
proof -
  from assms(1) obtain app where app: "cookie_namespace is_local app_name = Inr app"
    by (auto simp: register_cookie_bits_def bind_result_Inr_iff)
  have base: "block_base app = (if is_local then 32 else 0)"
    using app assms(3)
    by (auto simp: cookie_namespace_def block_base_def cookie_max_bits_global_def
        split: if_splits option.splits)
  show ?thesis
  proof (cases "map_of (ck_cookies s) (app, name)")
    case (Some p)
    with assms(1,2) app show ?thesis by (simp add: register_cookie_bits_def)
  next
    case None
    let ?off = "block_base app + ck_used s app"
    from assms(1) app None have fits: "ck_used s app + len \<le> 32"
      by (auto simp: register_cookie_bits_def Let_def cookie_max_bits_local_def cookie_max_bits_def
          cookie_max_bits_global_def split: if_splits)
    then have "s' = s\<lparr>ck_used_bits := AList.update app (ck_used s app + len) (ck_used_bits s),
        ck_cookies := AList.update (app, name) (?off, bit_block ?off len) (ck_cookies s)\<rparr>"
      using assms(1) app None registered_mask [of len ?off] base
      by (auto simp: register_cookie_bits_def Let_def cookie_max_bits_global_def add.commute
          split: if_splits)
    with cs_inv_add_block [OF assms(2) None fits refl] show ?thesis by simp
  qed
qed

text \<open>A list of registrations, each with a name, a length, and the name space it asks for.\<close>

type_synonym registration = "string \<times> nat \<times> bool \<times> string option"

definition register_all_cookies ::
  "registration list \<Rightarrow> 'o cookie_space \<Rightarrow> 'o cookie_space result" where
  "register_all_cookies = for_each (\<lambda>(name, len, is_local, app). register_cookie_bits name len is_local app)"

definition proper_registration :: "registration \<Rightarrow> bool" where
  "proper_registration r =
     (case r of (name, len, is_local, app) \<Rightarrow> \<not> (is_local \<and> app = Some GLOBAL_APP_NAME))"

lemma register_all_inv:
  assumes "register_all_cookies regs s = Inr s'" "cs_inv s" "list_all proper_registration regs"
  shows "cs_inv s'"
proof (rule for_each_invariant [where P = cs_inv, OF assms(1) [unfolded register_all_cookies_def] assms(2)])
  fix x s t
  assume x: "x \<in> set regs" "cs_inv s"
    "(case x of (name, len, is_local, app) \<Rightarrow> register_cookie_bits name len is_local app) s = Inr t"
  obtain name len is_local app where "x = (name, len, is_local, app)" by (cases x)
  moreover from this assms(3) x(1) have "is_local \<longrightarrow> app \<noteq> Some GLOBAL_APP_NAME"
    by (auto simp: list_all_iff proper_registration_def)
  ultimately show "cs_inv t" using x by (auto intro: register_cookie_bits_inv)
qed

text \<open>
  C28. Cookie bits are never shared: after any sequence of registrations, the masks of two
  different tasks do not overlap when they belong to the same application, or when one of them
  is global; and every mask lies within the 64 bits of a cookie.
\<close>

theorem cookie_masks_disjoint:
  assumes "register_all_cookies regs empty_cookie_space = Inr s" "list_all proper_registration regs"
    and "map_of (ck_cookies s) (app1, name1) = Some (off1, m1)"
    and "map_of (ck_cookies s) (app2, name2) = Some (off2, m2)"
    and "(app1, name1) \<noteq> (app2, name2)" "app1 = app2 \<or> app1 = GLOBAL_APP_NAME"
  shows "m1 AND m2 = 0 \<and> 0 \<le> m1 \<and> m1 < 2 ^ 64"
proof -
  have inv: "cs_inv s" by (rule register_all_inv [OF assms(1) cs_inv_empty assms(2)])
  from cs_invD [OF inv assms(3)] obtain l1 where
    1: "m1 = bit_block off1 l1" "off1 + l1 \<le> block_base app1 + ck_used s app1" "ck_used s app1 \<le> 32"
    by blast
  from cs_invD [OF inv assms(4)] obtain l2 where
    2: "m2 = bit_block off2 l2" "block_base app2 \<le> off2" by blast
  have "m1 AND m2 = 0"
  proof (cases "app1 = app2")
    case True
    with assms(3-5) inv have "snd (off1, m1) AND snd (off2, m2) = 0" unfolding cs_inv_def by blast
    then show ?thesis by simp
  next
    case False
    then have "off1 + l1 \<le> off2"
      using 1 2 assms(6) by (auto simp: block_base_def cookie_max_bits_global_def)
    with 1(1) 2(1) show ?thesis by (simp add: bit_blocks_disjoint)
  qed
  moreover have "take_bit 64 m1 = m1"
    using 1 by (intro bit_eqI)
      (auto simp: bit_take_bit_iff bit_block_iff block_base_def cookie_max_bits_global_def split: if_splits)
  ultimately show ?thesis by (metis take_bit_int_less_exp take_bit_nonnegative)
qed

theorem cookie_masks_disjoint_witness:
  "\<exists>s m1 m2 off1 off2.
     register_all_cookies [(''aging'', 1, False, None), (''sg rule'', 32, True, Some ''SGApp'')]
       (empty_cookie_space :: unit cookie_space) = Inr s \<and>
     map_of (ck_cookies s) (GLOBAL_APP_NAME, ''aging'') = Some (off1, m1) \<and>
     map_of (ck_cookies s) (''SGApp'', ''sg rule'') = Some (off2, m2) \<and> m1 AND m2 = 0"
proof -
  let ?regs = "[(''aging'', 1, False, None), (''sg rule'', 32, True, Some ''SGApp'')]"
  obtain s :: "unit cookie_space" and p1 p2 where
    s: "register_all_cookies ?regs empty_cookie_space = Inr s"
      "map_of (ck_cookies s) (GLOBAL_APP_NAME, ''aging'') = Some p1"
      "map_of (ck_cookies s) (''SGApp'', ''sg rule'') = Some p2"
    by (simp add: register_all_cookies_def register_cookie_bits_def cookie_namespace_def
        GLOBAL_APP_NAME_def empty_cookie_space_def Let_def ck_used_def cookie_max_bits_global_def
        cookie_max_bits_local_def cookie_max_bits_def)
  obtain off1 m1 off2 m2 where p: "p1 = (off1, m1)" "p2 = (off2, m2)" by (cases p1; cases p2)
  have "list_all proper_registration ?regs" by (simp add: proper_registration_def GLOBAL_APP_NAME_def)
  from cookie_masks_disjoint [OF s(1) this s(2,3) [unfolded p]] s p show ?thesis by auto
qed

section \<open>Writing and reading a cookie\<close>

lemma bit_block_fits:
  assumes "0 \<le> (value :: int)"
  shows "push_bit off value AND bit_block off len = push_bit off value \<longleftrightarrow> value < 2 ^ len"
proof -
  have "push_bit off value AND bit_block off len = push_bit off (take_bit len value)"
    by (rule bit_eqI) (auto simp: bit_and_iff bit_block_iff bit_simps)
  moreover have "push_bit off (take_bit len value) = push_bit off value \<longleftrightarrow> take_bit len value = value"
    by (simp add: push_bit_eq_mult)
  ultimately show ?thesis using assms by (simp add: take_bit_int_eq_self_iff)
qed

lemma bit_block_negative:
  assumes "(value :: int) < 0"
  shows "push_bit off value AND bit_block off len \<noteq> push_bit off value"
proof -
  have "0 \<le> bit_block off len" by (simp add: bit_block_def)
  then have "0 \<le> push_bit off value AND bit_block off len" by (simp only: and_nonnegative_int_iff simp_thms)
  moreover have "push_bit off value < 0" using assms by (simp add: push_bit_negative_int_iff)
  ultimately show ?thesis by linarith
qed

lemma get_cookie_correct:
  assumes "cs_inv s" "cookie_namespace is_local app_name = Inr app"
    and "map_of (ck_cookies s) (app, name) = Some (off, msk)" "old_mask AND msk = 0"
  shows "\<exists>len. msk = bit_block off len \<and>
    (if 0 \<le> value \<and> value < 2 ^ len then
       \<exists>c. get_cookie s name value old_cookie old_mask is_local app_name = Inr (c, msk OR old_mask) \<and>
         extract_value_from_cookie s name c is_local app_name = Inr value \<and>
         (\<forall>name' is_local' app_name' app' off' msk'.
            cookie_namespace is_local' app_name' = Inr app' \<longrightarrow>
            map_of (ck_cookies s) (app', name') = Some (off', msk') \<longrightarrow> msk AND msk' = 0 \<longrightarrow>
            extract_value_from_cookie s name' c is_local' app_name' =
            extract_value_from_cookie s name' old_cookie is_local' app_name')
     else get_cookie s name value old_cookie old_mask is_local app_name = Inl CookieOverflowExcpetion)"
proof -
  from cs_invD [OF assms(1,3)] obtain len where len: "msk = bit_block off len" by blast
  show ?thesis
  proof (intro exI [of _ len] conjI len)
    let ?r = "push_bit off value AND msk"
    define c where "c = (push_bit off value AND msk) OR (old_cookie AND NOT msk)"
    have g: "get_cookie s name value old_cookie old_mask is_local app_name =
        (if ?r \<noteq> push_bit off value then Inl CookieOverflowExcpetion else Inr (c, msk OR old_mask))"
      by (simp add: get_cookie_def assms Let_def c_def)
    have own: "drop_bit off (c AND msk) = value" if "?r = push_bit off value"
    proof -
      have "c AND msk = ?r" by (rule bit_eqI) (auto simp: bit_simps c_def)
      with that show ?thesis by (simp add: drop_bit_push_bit)
    qed
    have other: "c AND m' = old_cookie AND m'" if "msk AND m' = 0" for m' :: int
    proof (rule bit_eqI)
      fix n
      have "\<not> (bit msk n \<and> bit m' n)" using that by (metis bit_0_eq bit_and_iff bot_apply bot_bool_def)
      then show "bit (c AND m') n = bit (old_cookie AND m') n" by (auto simp: bit_simps c_def)
    qed
    have fits: "?r = push_bit off value \<longleftrightarrow> 0 \<le> value \<and> value < 2 ^ len"
      using bit_block_fits [of "value" off len] bit_block_negative [of "value" off len] len by force
    show "if 0 \<le> value \<and> value < 2 ^ len then
       \<exists>c. get_cookie s name value old_cookie old_mask is_local app_name = Inr (c, msk OR old_mask) \<and>
         extract_value_from_cookie s name c is_local app_name = Inr value \<and>
         (\<forall>name' is_local' app_name' app' off' msk'.
            cookie_namespace is_local' app_name' = Inr app' \<longrightarrow>
            map_of (ck_cookies s) (app', name') = Some (off', msk') \<longrightarrow> msk AND msk' = 0 \<longrightarrow>
            extract_value_from_cookie s name' c is_local' app_name' =
            extract_value_from_cookie s name' old_cookie is_local' app_name')
     else get_cookie s name value old_cookie old_mask is_local app_name = Inl CookieOverflowExcpetion"
      using g own other fits
      by (auto simp: extract_value_from_cookie_def assms(2,3) simp del: drop_bit_and
          intro!: exI [of _ c])
  qed
qed

text \<open>
  C27. Writing a value into a cookie and reading it back: for a task whose bits are not in the
  old mask, \<open>get_cookie\<close> accepts exactly the values that fit into its bits; the result then
  reads back as that value, and every other task whose mask does not overlap reads the same
  value as before.
\<close>

theorem cookie_roundtrip:
  assumes "cs_inv s" "cookie_namespace is_local app_name = Inr app"
    and "map_of (ck_cookies s) (app, name) = Some (off, msk)" "old_mask AND msk = 0"
  shows "\<exists>len. msk = bit_block off len \<and>
    (if 0 \<le> value \<and> value < 2 ^ len then
       \<exists>c. get_cookie s name value old_cookie old_mask is_local app_name = Inr (c, msk OR old_mask) \<and>
         extract_value_from_cookie s name c is_local app_name = Inr value \<and>
         (\<forall>name' is_local' app_name' app' off' msk'.
            cookie_namespace is_local' app_name' = Inr app' \<longrightarrow>
            map_of (ck_cookies s) (app', name') = Some (off', msk') \<longrightarrow> msk AND msk' = 0 \<longrightarrow>
            extract_value_from_cookie s name' c is_local' app_name' =
            extract_value_from_cookie s name' old_cookie is_local' app_name')
     else get_cookie s name value old_cookie old_mask is_local app_name = Inl CookieOverflowExcpetion)"
  by (rule get_cookie_correct [OF assms])

theorem cookie_roundtrip_witness:
  "\<exists>(s :: unit cookie_space) c m. register_all_cookies [(''aging'', 1, False, None)] empty_cookie_space = Inr s \<and>
     get_cookie s ''aging'' 1 0 0 False None = Inr (c, m) \<and>
     extract_value_from_cookie s ''aging'' c False None = Inr 1"
proof -
  let ?regs = "[(''aging'', 1, False, None)]"
  have one: "drop_bit 63 (mask 64) = (1 :: int)" by (simp add: mask_eq_exp_minus_1 drop_bit_eq_div)
  obtain s :: "unit cookie_space" where s: "register_all_cookies ?regs empty_cookie_space = Inr s"
      and p: "map_of (ck_cookies s) (GLOBAL_APP_NAME, ''aging'') = Some (0, 1)"
    by (simp add: register_all_cookies_def register_cookie_bits_def cookie_namespace_def
        empty_cookie_space_def Let_def ck_used_def cookie_max_bits_global_def
        cookie_max_bits_def cookie_mask_all_eq one)
  have "cs_inv s" by (rule register_all_inv [OF s cs_inv_empty]) (simp add: proper_registration_def)
  from cookie_roundtrip [OF this _ p, of False None 0 1 0]
  obtain len where len: "1 = bit_block 0 len" and r: "if 0 \<le> (1::int) \<and> 1 < (2::int) ^ len then
       \<exists>c. get_cookie s ''aging'' 1 0 0 False None = Inr (c, 1 OR 0) \<and>
         extract_value_from_cookie s ''aging'' c False None = Inr 1
     else get_cookie s ''aging'' 1 0 0 False None = Inl CookieOverflowExcpetion"
    by (auto simp: cookie_namespace_def split: if_splits)
  have "len \<noteq> 0" using len by (cases len) (auto simp: bit_block_def)
  then have "1 < (2::int) ^ len" by simp
  with r s show ?thesis by auto
qed

end
