(* ===== verification/Flow_Mod.thy ===== *)
theory Flow_Mod
  imports Cookies Df_Models
begin

text \<open>
  The OpenFlow messages the applications send, \<open>dragonflow/controller/df_base_app.py\<close>, and
  the pipeline constants of \<open>dragonflow/controller/common/constants.py\<close>. The message
  constructors of the OpenFlow library are datatypes here: a match is the dictionary of its
  fields, an instruction the goto or the list of actions the library is asked to encode.
  The theory ends with the aging application, \<open>apps/aging.py\<close>, which marks every flow through a
  global cookie modifier and removes the flows of the previous run.
\<close>

section \<open>Constants\<close>

definition INGRESS_CLASSIFICATION_DISPATCH_TABLE :: nat where "INGRESS_CLASSIFICATION_DISPATCH_TABLE = 0"
definition INGRESS_CLASSIFICATION_EXITPOINT_TABLE :: nat where "INGRESS_CLASSIFICATION_EXITPOINT_TABLE = 1"
definition EGRESS_CONNTRACK_TABLE :: nat where "EGRESS_CONNTRACK_TABLE = 10"
definition EGRESS_SECURITY_GROUP_TABLE :: nat where "EGRESS_SECURITY_GROUP_TABLE = 15"
definition SERVICES_CLASSIFICATION_TABLE :: nat where "SERVICES_CLASSIFICATION_TABLE = 20"
definition ARP_TABLE :: nat where "ARP_TABLE = 25"
definition IPV6_ND_TABLE :: nat where "IPV6_ND_TABLE = 45"
definition L2_LOOKUP_TABLE :: nat where "L2_LOOKUP_TABLE = 55"
definition EGRESS_TABLE :: nat where "EGRESS_TABLE = 75"
definition EGRESS_EXTERNAL_TABLE :: nat where "EGRESS_EXTERNAL_TABLE = 80"
definition INGRESS_DESTINATION_PORT_LOOKUP_TABLE :: nat where "INGRESS_DESTINATION_PORT_LOOKUP_TABLE = 100"
definition INGRESS_CONNTRACK_TABLE :: nat where "INGRESS_CONNTRACK_TABLE = 105"
definition INGRESS_SECURITY_GROUP_TABLE :: nat where "INGRESS_SECURITY_GROUP_TABLE = 110"
definition INGRESS_DISPATCH_TABLE :: nat where "INGRESS_DISPATCH_TABLE = 115"
definition CANARY_TABLE :: nat where "CANARY_TABLE = 200"

lemmas table_defs =
  INGRESS_CLASSIFICATION_DISPATCH_TABLE_def INGRESS_CLASSIFICATION_EXITPOINT_TABLE_def
  EGRESS_CONNTRACK_TABLE_def EGRESS_SECURITY_GROUP_TABLE_def SERVICES_CLASSIFICATION_TABLE_def
  ARP_TABLE_def IPV6_ND_TABLE_def L2_LOOKUP_TABLE_def EGRESS_TABLE_def EGRESS_EXTERNAL_TABLE_def
  INGRESS_DESTINATION_PORT_LOOKUP_TABLE_def INGRESS_CONNTRACK_TABLE_def
  INGRESS_SECURITY_GROUP_TABLE_def INGRESS_DISPATCH_TABLE_def CANARY_TABLE_def

definition PRIORITY_DEFAULT :: int where "PRIORITY_DEFAULT = 1"
definition PRIORITY_VERY_LOW :: int where "PRIORITY_VERY_LOW = 20"
definition PRIORITY_LOW :: int where "PRIORITY_LOW = 50"
definition PRIORITY_MEDIUM :: int where "PRIORITY_MEDIUM = 100"
definition PRIORITY_HIGH :: int where "PRIORITY_HIGH = 200"
definition PRIORITY_VERY_HIGH :: int where "PRIORITY_VERY_HIGH = 300"
definition PRIORITY_CT_STATE :: int where "PRIORITY_CT_STATE = 65534"

definition ETH_TYPE_IP :: int where "ETH_TYPE_IP = 0x0800"
definition ETH_TYPE_ARP :: int where "ETH_TYPE_ARP = 0x0806"
definition ETH_TYPE_IPV6 :: int where "ETH_TYPE_IPV6 = 0x86dd"

definition IPPROTO_ICMPV6 :: int where "IPPROTO_ICMPV6 = 58"
definition ARP_REQUEST :: int where "ARP_REQUEST = 1"
definition ARP_REPLY :: int where "ARP_REPLY = 2"
definition ND_NEIGHBOR_SOLICIT :: int where "ND_NEIGHBOR_SOLICIT = 135"
definition ND_NEIGHBOR_ADVERT :: int where "ND_NEIGHBOR_ADVERT = 136"

definition OFPCML_MAX :: int where "OFPCML_MAX = 0xffe5"
definition OFPCML_NO_BUFFER :: int where "OFPCML_NO_BUFFER = 0xffff"
definition OFPVID_PRESENT :: int where "OFPVID_PRESENT = 0x1000"
definition ETH_TYPE_8021Q :: int where "ETH_TYPE_8021Q = 0x8100"

text \<open>The port a resubmission without arguments names, that is the packet's own.\<close>

definition NX_IN_PORT :: int where "NX_IN_PORT = 0xfff8"


definition OFPFF_SEND_FLOW_REM :: int where "OFPFF_SEND_FLOW_REM = 1"

text \<open>The group bit of an Ethernet address, which is set in multicast and broadcast addresses.\<close>

definition BUM_ADDR :: int where "BUM_ADDR = 0x010000000000"

definition OFPTT_ALL :: nat where "OFPTT_ALL = 0xff"
definition OFPP_ANY :: int where "OFPP_ANY = 0xffffffff"
definition OFPG_ANY :: int where "OFPG_ANY = 0xffffffff"

section \<open>Messages\<close>

text \<open>
  A match field is an integer, a value with its mask, a string or an address; any other value of
  a model's field is kept as it is, for the library to encode.
\<close>

datatype mval = MInt int | MMasked int int | MStr string | MIp ipaddr | MVal pyval

fun field_value :: "pyval \<Rightarrow> mval" where
  "field_value (PInt n) = MInt n"
| "field_value (PStr s) = MStr s"
| "field_value (PIp a) = MIp a"
| "field_value v = MVal v"

lemma field_value_eq [simp]: "field_value v = field_value w \<longleftrightarrow> v = w"
  by (cases v; cases w) simp_all

definition mac_value :: "string option \<Rightarrow> mval" where
  "mac_value mac = (case mac of Some m \<Rightarrow> MStr m | None \<Rightarrow> MVal PNone)"

type_synonym fmatch = "(string, mval) dict"

datatype action =
    SetField string mval
  | OutputPort pyval int
  | PopVlan
  | PushVlan int
  | ResubmitTable nat
  | Resubmit int
  | RegLoad string int
  | Conjunction nat nat int
  | CT nat nat int
  | RegMove string string int

datatype inst_type = OFPIT_APPLY_ACTIONS | OFPIT_WRITE_ACTIONS

datatype inst = GotoTable nat | Actions inst_type "action list"

datatype flow_command =
    OFPFC_ADD | OFPFC_MODIFY | OFPFC_MODIFY_STRICT | OFPFC_DELETE | OFPFC_DELETE_STRICT

record flow_mod =
  fm_cookie :: int
  fm_cookie_mask :: int
  fm_table_id :: nat
  fm_command :: flow_command
  fm_idle_timeout :: int
  fm_hard_timeout :: int
  fm_priority :: int
  fm_buffer_id :: int
  fm_out_port :: int
  fm_out_group :: int
  fm_flags :: int
  fm_match :: "fmatch option"
  fm_inst :: "inst list"

text \<open>The keyword arguments of \<open>mod_flow\<close> and their defaults.\<close>

record flow_args =
  a_cookie :: int
  a_cookie_mask :: int
  a_table_id :: nat
  a_command :: "flow_command option"
  a_idle_timeout :: int
  a_hard_timeout :: int
  a_priority :: int
  a_buffer_id :: int
  a_match :: "fmatch option"
  a_actions :: "action list option"
  a_inst_type :: "inst_type option"
  a_out_port :: "int option"
  a_out_group :: "int option"
  a_flags :: int
  a_inst :: "inst list option"

definition default_args :: flow_args where
  "default_args =
     \<lparr>a_cookie = 0, a_cookie_mask = 0, a_table_id = 0, a_command = None, a_idle_timeout = 0,
      a_hard_timeout = 0, a_priority = 0xff, a_buffer_id = 0xffffffff, a_match = None,
      a_actions = None, a_inst_type = None, a_out_port = None, a_out_group = None, a_flags = 0,
      a_inst = None\<rparr>"

definition or_default :: "'a \<Rightarrow> 'a option \<Rightarrow> 'a" where
  "or_default d v = (case v of Some x \<Rightarrow> x | None \<Rightarrow> d)"

text \<open>
  \<open>mod_flow\<close>: fill the defaults, let the global cookie modifiers write their bits, and send
  the message; the model returns the message.
\<close>

definition mod_flow :: "'o cookie_space \<Rightarrow> 'o \<Rightarrow> flow_args \<Rightarrow> flow_mod result" where
  "mod_flow cs opaque a =
     (let inst = (case a_inst a of
            Some i \<Rightarrow> i
          | None \<Rightarrow> (case a_actions a of
                      Some acts \<Rightarrow> [Actions (or_default OFPIT_APPLY_ACTIONS (a_inst_type a)) acts]
                    | None \<Rightarrow> []))
      in bind_result (apply_global_cookie_modifiers cs opaque (a_cookie a, a_cookie_mask a))
           (\<lambda>(cookie, cookie_mask).
              Inr \<lparr>fm_cookie = cookie, fm_cookie_mask = cookie_mask, fm_table_id = a_table_id a,
                   fm_command = or_default OFPFC_ADD (a_command a),
                   fm_idle_timeout = a_idle_timeout a, fm_hard_timeout = a_hard_timeout a,
                   fm_priority = a_priority a, fm_buffer_id = a_buffer_id a,
                   fm_out_port = or_default OFPP_ANY (a_out_port a),
                   fm_out_group = or_default OFPG_ANY (a_out_group a), fm_flags = a_flags a,
                   fm_match = a_match a, fm_inst = inst\<rparr>))"

text \<open>
  \<open>add_flow_go_to_table\<close>: a goto instruction only leads forward in the pipeline, so a jump
  back is a resubmit action.
\<close>

definition add_flow_go_to_table ::
  "'o cookie_space \<Rightarrow> 'o \<Rightarrow> nat \<Rightarrow> int \<Rightarrow> nat \<Rightarrow> fmatch option \<Rightarrow> flow_mod result" where
  "add_flow_go_to_table cs opaque table priority goto_table_id mtch =
     (if table < goto_table_id then
        mod_flow cs opaque (default_args\<lparr>a_inst := Some [GotoTable goto_table_id],
          a_table_id := table, a_priority := priority, a_match := mtch\<rparr>)
      else
        mod_flow cs opaque (default_args\<lparr>a_actions := Some [ResubmitTable goto_table_id],
          a_table_id := table, a_priority := priority, a_match := mtch\<rparr>))"

definition register_local_cookie_bits ::
  "string \<Rightarrow> string \<Rightarrow> nat \<Rightarrow> 'o cookie_space \<Rightarrow> 'o cookie_space result" where
  "register_local_cookie_bits class_name name len = register_cookie_bits name len True (Some class_name)"

definition get_local_cookie ::
  "'o cookie_space \<Rightarrow> string \<Rightarrow> string \<Rightarrow> int \<Rightarrow> int \<Rightarrow> int \<Rightarrow> (int \<times> int) result" where
  "get_local_cookie cs class_name name val old_cookie old_mask =
     get_cookie cs name val old_cookie old_mask True (Some class_name)"

section \<open>Aging\<close>

record aging_app =
  do_aging :: bool
  aging_cookie :: int

definition AGING_COOKIE_NAME :: string where
  "AGING_COOKIE_NAME = ''aging''"

definition aging_init :: "aging_app cookie_space \<Rightarrow> (aging_app \<times> aging_app cookie_space) result" where
  "aging_init cs =
     bind_result (add_global_cookie_modifier AGING_COOKIE_NAME 1 aging_cookie cs) (\<lambda>cs.
       Inr (\<lparr>do_aging = True, aging_cookie = 0\<rparr>, cs))"

definition invert_cookie :: "int \<Rightarrow> int" where
  "invert_cookie cookie = 1 XOR cookie"

text \<open>The cookies of the flows found in the canary table, the first of which counts.\<close>

definition get_canary_flow :: "int list \<Rightarrow> int option" where
  "get_canary_flow flows = (case flows of [] \<Rightarrow> None | c # cs \<Rightarrow> Some c)"

definition switch_sync_started ::
  "aging_app cookie_space \<Rightarrow> int list \<Rightarrow> aging_app \<Rightarrow> (aging_app \<times> flow_mod) result" where
  "switch_sync_started cs canary_flows app =
     bind_result
       (case get_canary_flow canary_flows of
          None \<Rightarrow> Inr (app\<lparr>do_aging := False, aging_cookie := 1\<rparr>)
        | Some canary_cookie \<Rightarrow>
            bind_result (extract_value_from_cookie cs AGING_COOKIE_NAME canary_cookie False None)
              (\<lambda>old_cookie. Inr (app\<lparr>do_aging := True, aging_cookie := invert_cookie old_cookie\<rparr>)))
       (\<lambda>app. bind_result (mod_flow cs app (default_args\<lparr>a_table_id := CANARY_TABLE\<rparr>))
                (\<lambda>fm. Inr (app, fm)))"

text \<open>Whether the deletion of aged flows is scheduled.\<close>

definition switch_sync_finished :: "aging_app \<Rightarrow> bool" where
  "switch_sync_finished app = do_aging app"

definition cleanup_flows :: "aging_app cookie_space \<Rightarrow> aging_app \<Rightarrow> int \<times> int \<Rightarrow> flow_mod result" where
  "cleanup_flows cs app cm =
     mod_flow cs app (default_args\<lparr>a_cookie := fst cm, a_cookie_mask := snd cm,
       a_table_id := OFPTT_ALL, a_match := Some [], a_command := Some OFPFC_DELETE,
       a_priority := 0\<rparr>)"

definition start_aging :: "aging_app cookie_space \<Rightarrow> aging_app \<Rightarrow> flow_mod result" where
  "start_aging cs app =
     bind_result (get_cookie cs AGING_COOKIE_NAME (invert_cookie (aging_cookie app)) 0 0 False None)
       (cleanup_flows cs app)"

text \<open>
  The cookie space as the aging application leaves it: one bit is registered for it, and its
  modifier is the only one.
\<close>

definition aging_ready :: "nat \<Rightarrow> aging_app cookie_space \<Rightarrow> bool" where
  "aging_ready off cs \<longleftrightarrow> cs_inv cs \<and>
     map_of (ck_cookies cs) (GLOBAL_APP_NAME, AGING_COOKIE_NAME) = Some (off, bit_block off 1) \<and>
     ck_modifiers cs = [(AGING_COOKIE_NAME, aging_cookie)]"

lemma aging_init_ready:
  assumes "cs_inv cs" "ck_modifiers cs = []"
    and "map_of (ck_cookies cs) (GLOBAL_APP_NAME, AGING_COOKIE_NAME) = None"
    and "ck_used cs GLOBAL_APP_NAME < 32"
  shows "\<exists>app cs'. aging_init cs = Inr (app, cs') \<and> aging_ready (ck_used cs GLOBAL_APP_NAME) cs'"
proof -
  let ?u = "ck_used cs GLOBAL_APP_NAME"
  let ?cs = "cs\<lparr>ck_used_bits := AList.update GLOBAL_APP_NAME (?u + 1) (ck_used_bits cs),
      ck_cookies := AList.update (GLOBAL_APP_NAME, AGING_COOKIE_NAME) (?u, bit_block ?u 1) (ck_cookies cs)\<rparr>"
  have reg: "register_cookie_bits AGING_COOKIE_NAME 1 False None cs = Inr ?cs"
    using assms(3,4) registered_mask [of 1 ?u]
    by (simp add: register_cookie_bits_def cookie_namespace_def Let_def cookie_max_bits_global_def)
  have "cs_inv ?cs" by (rule register_cookie_bits_inv [OF reg assms(1)]) simp
  then have "cs_inv (?cs\<lparr>ck_modifiers := m\<rparr>)" for m by (simp add: cs_inv_def ck_used_def)
  then show ?thesis
    using reg assms(2) by (auto simp: aging_init_def add_global_cookie_modifier_def aging_ready_def)
qed

text \<open>Every message sent carries the current aging bit, unless it names that bit itself.\<close>

lemma mod_flow_aging:
  assumes "aging_ready off cs" "aging_cookie app \<in> {0, 1}" "a_cookie_mask a AND bit_block off 1 = 0"
  shows "\<exists>fm. mod_flow cs app a = Inr fm \<and>
    extract_value_from_cookie cs AGING_COOKIE_NAME (fm_cookie fm) False None = Inr (aging_cookie app)"
proof -
  have inv: "cs_inv cs" "cookie_namespace False None = Inr GLOBAL_APP_NAME"
    "map_of (ck_cookies cs) (GLOBAL_APP_NAME, AGING_COOKIE_NAME) = Some (off, bit_block off 1)"
    using assms(1) by (simp_all add: aging_ready_def cookie_namespace_def)
  from get_cookie_correct [OF inv assms(3), of "aging_cookie app" "a_cookie a"] obtain len where
    len: "bit_block off 1 = bit_block off len" and
    r: "if 0 \<le> aging_cookie app \<and> aging_cookie app < 2 ^ len then
       \<exists>c. get_cookie cs AGING_COOKIE_NAME (aging_cookie app) (a_cookie a) (a_cookie_mask a) False None =
             Inr (c, bit_block off 1 OR a_cookie_mask a) \<and>
         extract_value_from_cookie cs AGING_COOKIE_NAME c False None = Inr (aging_cookie app)
     else get_cookie cs AGING_COOKIE_NAME (aging_cookie app) (a_cookie a) (a_cookie_mask a) False None =
       Inl CookieOverflowExcpetion"
    by (auto split: if_splits)
  have "len = 1"
  proof -
    have "(off \<le> n \<and> n < off + 1) = (off \<le> n \<and> n < off + len)" for n
      using len bit_block_iff by metis
    from this [of off] this [of "off + 1"] show ?thesis by auto
  qed
  with r assms(2) obtain c where
    "get_cookie cs AGING_COOKIE_NAME (aging_cookie app) (a_cookie a) (a_cookie_mask a) False None =
       Inr (c, bit_block off 1 OR a_cookie_mask a)"
    "extract_value_from_cookie cs AGING_COOKIE_NAME c False None = Inr (aging_cookie app)"
    by (auto split: if_splits)
  then show ?thesis
    using assms(1) by (auto simp: mod_flow_def aging_ready_def apply_global_cookie_modifiers_def Let_def)
qed

lemma one_bit_field:
  fixes c :: int
  shows "drop_bit off (c AND bit_block off 1) = of_bool (bit c off)"
  by (rule bit_eqI) (auto simp: bit_simps bit_block_iff bit_of_bool_iff)

lemma start_aging_message:
  assumes "aging_ready off cs" "aging_cookie app \<in> {0, 1}"
  shows "\<exists>fm. start_aging cs app = Inr fm \<and> fm_command fm = OFPFC_DELETE \<and>
    fm_table_id fm = OFPTT_ALL \<and> fm_match fm = Some [] \<and>
    fm_cookie fm = push_bit off (invert_cookie (aging_cookie app)) \<and>
    fm_cookie_mask fm = bit_block off 1"
proof -
  let ?v = "invert_cookie (aging_cookie app)"
  have v: "?v \<in> {0, 1}" using assms(2) by (auto simp: invert_cookie_def)
  have blk: "bit_block off 1 AND bit_block off 1 = bit_block off 1" "bit_block off 1 \<noteq> 0"
    by (simp_all add: bit_block_def)
  have "push_bit off ?v AND bit_block off 1 = push_bit off ?v"
    using v by (subst bit_block_fits) auto
  then have "get_cookie cs AGING_COOKIE_NAME ?v 0 0 False None = Inr (push_bit off ?v, bit_block off 1)"
    using assms(1) by (simp add: get_cookie_def aging_ready_def cookie_namespace_def Let_def)
  moreover have "get_cookie cs AGING_COOKIE_NAME (aging_cookie app) c (bit_block off 1) False None =
      Inr (c, bit_block off 1)" for c
    using assms(1) blk by (simp add: get_cookie_def aging_ready_def cookie_namespace_def Let_def)
  ultimately show ?thesis
    using assms(1)
    by (simp add: start_aging_def cleanup_flows_def mod_flow_def apply_global_cookie_modifiers_def
        aging_ready_def default_args_def or_default_def Let_def)
qed

text \<open>
  C26. Aging removes exactly the flows of the previous run: when the canary flow of the last
  run has aging bit \<open>b\<close>, every flow sent after the synchronisation started carries the other bit,
  the deletion that follows is scheduled, and it selects (by cookie and mask, in all tables)
  exactly the flows whose aging bit is \<open>b\<close>.
\<close>

theorem aging_deletes_previous_run:
  assumes "aging_ready off cs" "switch_sync_started cs (canary # rest) app0 = Inr (app, fm0)"
  shows "switch_sync_finished app \<and>
    (\<exists>b\<in>{0, 1}. extract_value_from_cookie cs AGING_COOKIE_NAME canary False None = Inr b \<and>
      (\<forall>a fm. a_cookie_mask a AND bit_block off 1 = 0 \<longrightarrow> mod_flow cs app a = Inr fm \<longrightarrow>
         extract_value_from_cookie cs AGING_COOKIE_NAME (fm_cookie fm) False None = Inr (1 - b)) \<and>
      (\<exists>d. start_aging cs app = Inr d \<and> fm_command d = OFPFC_DELETE \<and> fm_table_id d = OFPTT_ALL \<and>
         fm_match d = Some [] \<and>
         (\<forall>c. c AND fm_cookie_mask d = fm_cookie d AND fm_cookie_mask d \<longleftrightarrow>
            extract_value_from_cookie cs AGING_COOKIE_NAME c False None = Inr b)))"
proof -
  have ex: "extract_value_from_cookie cs AGING_COOKIE_NAME c False None = Inr (of_bool (bit c off))" for c
    using assms(1) one_bit_field [of off c]
    by (simp add: extract_value_from_cookie_def aging_ready_def cookie_namespace_def)
  define b :: int where "b = of_bool (bit canary off)"
  have app: "do_aging app" "aging_cookie app = 1 - b"
    using assms(2) by (auto simp: switch_sync_started_def get_canary_flow_def ex bind_result_Inr_iff
        invert_cookie_def b_def)
  have bit01: "b \<in> {0, 1}" "aging_cookie app \<in> {0, 1}" "invert_cookie (aging_cookie app) = b"
    by (auto simp: b_def app(2) invert_cookie_def)
  from start_aging_message [OF assms(1) bit01(2)] bit01(3) obtain d where
    d: "start_aging cs app = Inr d" "fm_command d = OFPFC_DELETE" "fm_table_id d = OFPTT_ALL"
      "fm_match d = Some []" "fm_cookie d = push_bit off b" "fm_cookie_mask d = bit_block off 1" by auto
  have sel: "c AND bit_block off 1 = push_bit off b AND bit_block off 1 \<longleftrightarrow> of_bool (bit c off) = b" for c
  proof -
    have 1: "bit (x AND bit_block off 1) n \<longleftrightarrow> n = off \<and> bit x off" for x :: int and n
      by (cases "n = off") (auto simp: bit_and_iff bit_block_iff)
    have 2: "bit (push_bit off b) off \<longleftrightarrow> b = 1" using bit01(1) by (auto simp: bit_push_bit_iff)
    have "c AND bit_block off 1 = push_bit off b AND bit_block off 1 \<longleftrightarrow> (bit c off \<longleftrightarrow> b = 1)"
      (is "?A = ?B \<longleftrightarrow> _")
    proof
      assume "?A = ?B"
      then have "bit ?A off = bit ?B off" by simp
      then show "bit c off \<longleftrightarrow> b = 1" unfolding 1 2 by simp
    next
      assume "bit c off \<longleftrightarrow> b = 1"
      then show "?A = ?B" by (intro bit_eqI) (simp only: 1 2)
    qed
    then show ?thesis using bit01(1) by auto
  qed
  have "extract_value_from_cookie cs AGING_COOKIE_NAME (fm_cookie fm) False None = Inr (1 - b)"
    if "a_cookie_mask a AND bit_block off 1 = 0" "mod_flow cs app a = Inr fm" for a fm
    using mod_flow_aging [OF assms(1) bit01(2) that(1)] that(2) app(2) by simp
  then show ?thesis
    using app(1) bit01(1) d sel by (auto simp: switch_sync_finished_def ex b_def)
qed

theorem aging_deletes_previous_run_witness:
  "\<exists>app cs app' fm d. aging_init empty_cookie_space = Inr (app, cs) \<and>
     switch_sync_started cs [0] app = Inr (app', fm) \<and> start_aging cs app' = Inr d \<and>
     (0 AND fm_cookie_mask d = fm_cookie d AND fm_cookie_mask d)"
proof -
  let ?e = "empty_cookie_space :: aging_app cookie_space"
  have "ck_used ?e GLOBAL_APP_NAME = 0" by (simp add: ck_used_def empty_cookie_space_def)
  with aging_init_ready [of ?e, OF cs_inv_empty] obtain app cs where
    init: "aging_init ?e = Inr (app, cs)" and ready: "aging_ready 0 cs"
    by (auto simp: empty_cookie_space_def)
  have ex: "extract_value_from_cookie cs AGING_COOKIE_NAME 0 False None = Inr 0"
    using ready by (simp add: extract_value_from_cookie_def aging_ready_def cookie_namespace_def)
  have "\<exists>fm. mod_flow cs (app\<lparr>do_aging := True, aging_cookie := 1\<rparr>)
      (default_args\<lparr>a_table_id := CANARY_TABLE\<rparr>) = Inr fm"
    using mod_flow_aging [OF ready, of "app\<lparr>do_aging := True, aging_cookie := 1\<rparr>"
      "default_args\<lparr>a_table_id := CANARY_TABLE\<rparr>"] by (auto simp: default_args_def)
  then obtain app' fm where st: "switch_sync_started cs [0] app = Inr (app', fm)"
    by (auto simp: switch_sync_started_def get_canary_flow_def ex invert_cookie_def)
  from aging_deletes_previous_run [OF ready st] ex init st show ?thesis by force
qed

end
