(* ===== verification/Sg_App.thy ===== *)
theory Sg_App
  imports Flow_Mod
begin

text \<open>
  The security group application, \<open>dragonflow/controller/apps/sg.py\<close>, with the helpers it
  takes from \<open>controller/common/utils.py\<close>. Its state is one record; every method is a
  function on that record which may raise and leaves behind what it did before; the OpenFlow
  messages and the connection-tracking deletions go to the field \<open>sg_sent\<close> in order. What the
  application reads from elsewhere is the environment \<open>sg_env\<close>: the objects of the database
  store, the cookie space, and the operations of the \<open>netaddr\<close> library, which is not part of
  the repository (an \<open>IPSet\<close> is the list of its addresses, \<open>iter_cidrs\<close> a function of
  them).
\<close>

section \<open>Data\<close>

datatype cidr = Cidr ipaddr nat

record sg_rule =
  r_id :: string
  r_direction :: string
  r_ethertype :: string
  r_protocol :: "int option"
  r_port_range_min :: "int option"
  r_port_range_max :: "int option"
  r_remote_group_id :: "string option"
  r_remote_ip_prefix :: "cidr option"
  r_security_group_id :: "string option"

record secgroup =
  sgm_id :: string
  sgm_unique_key :: int
  sgm_rules :: "sg_rule list"

text \<open>The fields of a logical port that the application reads; references are ids.\<close>

record lport =
  lp_id :: string
  lp_unique_key :: int
  lp_ips :: "ipaddr list"
  lp_address_pairs :: "(ipaddr \<times> string) list"
  lp_security_groups :: "string list"
  lp_lswitch :: string

definition all_ips :: "lport \<Rightarrow> ipaddr list" where
  "all_ips p = remdups (lp_ips p @ map fst (lp_address_pairs p))"

record ct_filter =
  ct_ethertype :: string
  ct_protocol :: "int option"
  ct_nw_src :: "ipaddr option"
  ct_nw_dst :: "ipaddr option"
  ct_zone :: int

datatype sg_effect = SentFlow flow_mod | ConntrackDelete ct_filter

record sg_app =
  sg_rule_mappings :: "(string, int) dict"
  sg_next_rule_id :: int
  sg_remote_ref :: "(string, (string, sg_rule) dict) dict"
  sg_local_ports :: "(string, string list) dict"
  sg_aggregate :: "(string, ipaddr list) dict"
  sg_ip_refs :: "(string \<times> ipaddr, string list) dict"
  sg_sent :: "sg_effect list"

definition sg_init :: sg_app where
  "sg_init =
     \<lparr>sg_rule_mappings = [], sg_next_rule_id = 0, sg_remote_ref = [], sg_local_ports = [],
      sg_aggregate = [], sg_ip_refs = [], sg_sent = []\<rparr>"

record 'o sg_env =
  se_cookies :: "'o cookie_space"
  se_opaque :: 'o
  se_secgroup :: "string \<Rightarrow> secgroup option"
  se_lport :: "string \<Rightarrow> lport option"
  se_switch_key :: "string \<Rightarrow> int option"
  se_iter_cidrs :: "ipaddr list \<Rightarrow> cidr list"
  se_network_and_mask :: "cidr \<Rightarrow> int \<times> int"
  se_range_cidrs :: "int \<Rightarrow> int \<Rightarrow> (int \<times> int) list"

section \<open>Constants and helpers\<close>

definition SG_CT_STATE_MASK :: int where
  "SG_CT_STATE_MASK = 0x01 OR 0x02 OR 0x04 OR 0x10 OR 0x20"

definition SG_PRIORITY_OFFSET :: int where "SG_PRIORITY_OFFSET = 2"
definition SG_COOKIE_NAME :: string where "SG_COOKIE_NAME = ''sg rule''"
definition DIRECTION_INGRESS :: string where "DIRECTION_INGRESS = ''ingress''"
definition DIRECTION_EGRESS :: string where "DIRECTION_EGRESS = ''egress''"
definition CT_ZONE_REG :: int where "CT_ZONE_REG = 0x1d402"
definition METADATA_REG :: int where "METADATA_REG = 0x80000408"

definition cidr_version :: "cidr \<Rightarrow> nat" where
  "cidr_version c = (case c of Cidr ip len \<Rightarrow> ip_version ip)"

definition ethertype_to_ip_version :: "string \<Rightarrow> nat result" where
  "ethertype_to_ip_version ethertype =
     (if ethertype = ''IPv4'' then Inr 4
      else if ethertype = ''IPv6'' then Inr 6
      else Inl InvalidEtherTypeException)"

definition get_port_match_list_from_port_range ::
  "(int \<Rightarrow> int \<Rightarrow> (int \<times> int) list) \<Rightarrow> int \<Rightarrow> int \<Rightarrow> (int \<times> int) list" where
  "get_port_match_list_from_port_range range_cidrs port_min port_max =
     map (\<lambda>(network, netmask). (network AND 0xffff, netmask AND 0xffff))
       (range_cidrs port_min port_max)"

definition get_cidr_difference ::
  "(ipaddr list \<Rightarrow> cidr list) \<Rightarrow> ipaddr list \<Rightarrow> ipaddr list \<Rightarrow> cidr list \<times> cidr list" where
  "get_cidr_difference iter_cidrs cidr_set new_cidr_set =
     (set_diff (iter_cidrs new_cidr_set) (iter_cidrs cidr_set),
      set_diff (iter_cidrs cidr_set) (iter_cidrs new_cidr_set))"

definition ipset_union :: "ipaddr list \<Rightarrow> ipaddr list \<Rightarrow> ipaddr list" where
  "ipset_union a b = fold set_add b a"

definition get_cidr_changes_after_removing_addresses ::
  "(ipaddr list \<Rightarrow> cidr list) \<Rightarrow> ipaddr list \<Rightarrow> ipaddr list \<Rightarrow> ipaddr list \<times> cidr list \<times> cidr list" where
  "get_cidr_changes_after_removing_addresses iter_cidrs cidr_set addresses =
     (let new_cidr_set = set_diff cidr_set addresses
      in (new_cidr_set, get_cidr_difference iter_cidrs cidr_set new_cidr_set))"

definition get_cidr_changes_after_adding_addresses ::
  "(ipaddr list \<Rightarrow> cidr list) \<Rightarrow> ipaddr list \<Rightarrow> ipaddr list \<Rightarrow> ipaddr list \<times> cidr list \<times> cidr list" where
  "get_cidr_changes_after_adding_addresses iter_cidrs cidr_set addresses =
     (let new_cidr_set = ipset_union cidr_set addresses
      in (new_cidr_set, get_cidr_difference iter_cidrs cidr_set new_cidr_set))"

definition get_cidr_changes_after_updating_addresses ::
  "(ipaddr list \<Rightarrow> cidr list) \<Rightarrow> ipaddr list \<Rightarrow> ipaddr list \<Rightarrow> ipaddr list \<Rightarrow>
   ipaddr list \<times> cidr list \<times> cidr list" where
  "get_cidr_changes_after_updating_addresses iter_cidrs cidr_set to_add to_remove =
     (let new_cidr_set = set_diff (ipset_union cidr_set to_add) to_remove
      in (new_cidr_set, get_cidr_difference iter_cidrs cidr_set new_cidr_set))"

text \<open>\<open>DEST_FIELD_NAME_BY_PROTOCOL_NUMBER\<close>: TCP is 6, UDP is 17, ICMP is 1.\<close>

definition dest_field_name :: "int \<Rightarrow> string result" where
  "dest_field_name protocol =
     (if protocol = 6 then Inr ''tcp_dst''
      else if protocol = 17 then Inr ''udp_dst'' else Inl KeyError)"

text \<open>A Python truth test on an optional integer.\<close>

definition truthy :: "int option \<Rightarrow> bool" where
  "truthy v = (case v of None \<Rightarrow> False | Some n \<Rightarrow> n \<noteq> 0)"

definition py_int :: "int option \<Rightarrow> int result" where
  "py_int v = (case v of None \<Rightarrow> Inl TypeError | Some n \<Rightarrow> Inr n)"

text \<open>
  The match fields of a rule apart from the addresses. A range with only one end raises (in
  \<open>int(None)\<close>, or in \<open>netaddr\<close> when the other end is missing); the model has one error for both.
\<close>

definition get_rule_flows_match_except_net_addresses ::
  "'o sg_env \<Rightarrow> sg_rule \<Rightarrow> fmatch list result" where
  "get_rule_flows_match_except_net_addresses env r =
     (let base = (if r_ethertype r = ''IPv4'' then [(''eth_type'', MInt ETH_TYPE_IP)]
                  else if r_ethertype r = ''IPv6'' then [(''eth_type'', MInt ETH_TYPE_IPV6)]
                  else [])
      in if \<not> truthy (r_protocol r) then Inr [base]
         else
           let protocol = the (r_protocol r);
               base = AList.update ''ip_proto'' (MInt protocol) base;
               lo = r_port_range_min r; hi = r_port_range_max r
           in if protocol = 1 then
                (let base = (if truthy lo then
                       AList.update (if r_ethertype r = ''IPv4'' then ''icmpv4_type'' else ''icmpv6_type'')
                         (MInt (the lo)) base else base);
                     base = (if truthy hi then
                       AList.update (if r_ethertype r = ''IPv4'' then ''icmpv4_code'' else ''icmpv6_code'')
                         (MInt (the hi)) base else base)
                 in Inr [base])
              else if \<not> truthy lo \<and> \<not> truthy hi then Inr [base]
              else
                bind_result (py_int lo) (\<lambda>lo.
                bind_result (py_int hi) (\<lambda>hi.
                  if lo = 1 \<and> hi = 65535 then Inr [base]
                  else
                    bind_result (dest_field_name protocol) (\<lambda>key.
                      Inr (map (\<lambda>(p, m). AList.update key (MMasked p m) base)
                             (get_port_match_list_from_port_range (se_range_cidrs env) lo hi))))))"

definition get_security_rule_by_addresses_match_item :: "string \<Rightarrow> string \<Rightarrow> string option" where
  "get_security_rule_by_addresses_match_item ethertype direction =
     map_of [((''IPv4'', ''ingress''), ''ipv4_src''), ((''IPv4'', ''egress''), ''ipv4_dst''),
             ((''IPv6'', ''ingress''), ''ipv6_src''), ((''IPv6'', ''egress''), ''ipv6_dst'')]
       (ethertype, direction)"

section \<open>Reference counts of addresses\<close>

definition inc_ip_reference_and_check :: "string \<Rightarrow> ipaddr \<Rightarrow> string \<Rightarrow> sg_app \<Rightarrow> bool \<times> sg_app" where
  "inc_ip_reference_and_check secgroup_id ip lport_id s =
     (let ip_ref = (case map_of (sg_ip_refs s) (secgroup_id, ip) of Some r \<Rightarrow> r | None \<Rightarrow> [])
      in (ip_ref = [],
          s\<lparr>sg_ip_refs := AList.update (secgroup_id, ip) (set_add lport_id ip_ref) (sg_ip_refs s)\<rparr>))"

definition dec_ip_reference_and_check :: "string \<Rightarrow> ipaddr \<Rightarrow> string \<Rightarrow> sg_app \<Rightarrow> bool \<times> sg_app" where
  "dec_ip_reference_and_check secgroup_id ip lport_id s =
     (case map_of (sg_ip_refs s) (secgroup_id, ip) of
        None \<Rightarrow> (False, s)
      | Some lport_id_set \<Rightarrow>
          if lport_id \<in> set lport_id_set then
            let rest = set_discard lport_id lport_id_set
            in if rest = [] then
                 (True, s\<lparr>sg_ip_refs := AList.delete (secgroup_id, ip) (sg_ip_refs s)\<rparr>)
               else (False, s\<lparr>sg_ip_refs := AList.update (secgroup_id, ip) rest (sg_ip_refs s)\<rparr>)
          else (False, s))"

text \<open>The loops collect the addresses for which the check answers true.\<close>

fun collect_ips ::
  "(ipaddr \<Rightarrow> sg_app \<Rightarrow> bool \<times> sg_app) \<Rightarrow> ipaddr list \<Rightarrow> sg_app \<Rightarrow> ipaddr list \<times> sg_app" where
  "collect_ips f [] s = ([], s)"
| "collect_ips f (ip # ips) s =
     (case f ip s of (b, s) \<Rightarrow>
       (case collect_ips f ips s of (rest, s) \<Rightarrow> (if b then ip # rest else rest, s)))"

definition get_lport_added_ips_for_secgroup ::
  "string \<Rightarrow> lport \<Rightarrow> sg_app \<Rightarrow> ipaddr list \<times> sg_app" where
  "get_lport_added_ips_for_secgroup secgroup_id p =
     collect_ips (\<lambda>ip. inc_ip_reference_and_check secgroup_id ip (lp_id p)) (all_ips p)"

definition get_lport_removed_ips_for_secgroup ::
  "string \<Rightarrow> lport \<Rightarrow> sg_app \<Rightarrow> ipaddr list \<times> sg_app" where
  "get_lport_removed_ips_for_secgroup secgroup_id p =
     collect_ips (\<lambda>ip. dec_ip_reference_and_check secgroup_id ip (lp_id p)) (all_ips p)"

definition get_lport_updated_ips_for_secgroup ::
  "string \<Rightarrow> lport \<Rightarrow> lport \<Rightarrow> sg_app \<Rightarrow> (ipaddr list \<times> ipaddr list) \<times> sg_app" where
  "get_lport_updated_ips_for_secgroup secgroup_id p original s =
     (case collect_ips (\<lambda>ip. inc_ip_reference_and_check secgroup_id ip (lp_id p))
             (filter (\<lambda>ip. ip \<notin> set (all_ips original)) (all_ips p)) s of (added_ips, s) \<Rightarrow>
       (case collect_ips (\<lambda>ip. dec_ip_reference_and_check secgroup_id ip (lp_id p))
               (filter (\<lambda>ip. ip \<notin> set (all_ips p)) (all_ips original)) s of (removed_ips, s) \<Rightarrow>
         ((added_ips, removed_ips), s)))"

section \<open>Sending flows\<close>

definition sg_send :: "'o sg_env \<Rightarrow> flow_args \<Rightarrow> sg_app \<Rightarrow> sg_app outcome" where
  "sg_send env a =
     with_value (mod_flow (se_cookies env) (se_opaque env) a)
       (\<lambda>fm s. (None, s\<lparr>sg_sent := sg_sent s @ [SentFlow fm]\<rparr>))"

definition install_ipv4_ipv6_rules ::
  "'o sg_env \<Rightarrow> nat \<Rightarrow> fmatch \<Rightarrow> int \<Rightarrow> flow_command option \<Rightarrow> inst list option \<Rightarrow>
   sg_app \<Rightarrow> sg_app outcome" where
  "install_ipv4_ipv6_rules env table_id match_items priority command inst =
     run_each (\<lambda>eth_type. sg_send env (default_args\<lparr>a_inst := inst, a_table_id := table_id,
         a_priority := priority, a_match := Some ((''eth_type'', MInt eth_type) # match_items),
         a_command := command\<rparr>)) [ETH_TYPE_IP, ETH_TYPE_IPV6]"

definition get_rule_cookie :: "'o sg_env \<Rightarrow> int \<Rightarrow> (int \<times> int) result" where
  "get_rule_cookie env rule_id =
     get_local_cookie (se_cookies env) ''SGApp'' SG_COOKIE_NAME rule_id 0 0"

definition install_flows_from_address_list ::
  "'o sg_env \<Rightarrow> cidr option list \<Rightarrow> string \<Rightarrow> nat \<Rightarrow> fmatch list \<Rightarrow> int \<Rightarrow> string \<Rightarrow> int \<Rightarrow>
   inst list option \<Rightarrow> flow_command option \<Rightarrow> sg_app \<Rightarrow> sg_app outcome" where
  "install_flows_from_address_list env addresses ethertype table_id match_list rule_id
       ip_match_item priority inst command =
     run_each (\<lambda>cidr_item.
       with_value
         (case cidr_item of
            None \<Rightarrow> Inr True
          | Some c \<Rightarrow> bind_result (ethertype_to_ip_version ethertype) (\<lambda>v. Inr (cidr_version c = v)))
         (\<lambda>selected.
            if selected then
              run_each (\<lambda>match_item.
                let mtch = (case cidr_item of
                       None \<Rightarrow> match_item
                     | Some c \<Rightarrow> (case se_network_and_mask env c of (n, m) \<Rightarrow>
                                   AList.update ip_match_item (MMasked n m) match_item))
                in with_value (get_rule_cookie env rule_id) (\<lambda>(cookie, cookie_mask).
                     sg_send env (default_args\<lparr>a_cookie := cookie, a_cookie_mask := cookie_mask,
                       a_inst := inst, a_table_id := table_id, a_priority := priority,
                       a_match := Some mtch, a_command := command\<rparr>))) match_list
            else (\<lambda>s. (None, s)))) addresses"

section \<open>Ids of rules and groups\<close>

definition is_sg_not_associated_with_local_port :: "string \<Rightarrow> sg_app \<Rightarrow> bool" where
  "is_sg_not_associated_with_local_port secgroup_id s \<longleftrightarrow> map_of (sg_local_ports s) secgroup_id = None"

definition get_security_rule_mapping :: "string \<Rightarrow> sg_app \<Rightarrow> int \<times> sg_app" where
  "get_security_rule_mapping lrule_id s =
     (case map_of (sg_rule_mappings s) lrule_id of
        Some rule_id \<Rightarrow> (rule_id, s)
      | None \<Rightarrow>
          let n = sg_next_rule_id s + 1
          in (n, s\<lparr>sg_next_rule_id := n,
                   sg_rule_mappings := AList.update lrule_id n (sg_rule_mappings s)\<rparr>))"

definition get_secgroup_conj_id_and_priority :: "'o sg_env \<Rightarrow> string \<Rightarrow> (int \<times> int) result" where
  "get_secgroup_conj_id_and_priority env secgroup_id =
     (case se_secgroup env secgroup_id of
        None \<Rightarrow> Inl AttributeError
      | Some sg \<Rightarrow> Inr (sgm_unique_key sg, SG_PRIORITY_OFFSET + sgm_unique_key sg))"

definition sg_table :: "string \<Rightarrow> nat" where
  "sg_table direction =
     (if direction = DIRECTION_INGRESS then INGRESS_SECURITY_GROUP_TABLE
      else EGRESS_SECURITY_GROUP_TABLE)"

definition classify_match :: "string \<Rightarrow> lport \<Rightarrow> fmatch" where
  "classify_match direction p =
     (if direction = DIRECTION_INGRESS then [(''reg7'', MInt (lp_unique_key p))]
      else [(''reg6'', MInt (lp_unique_key p))])"

section \<open>Flows of groups and ports\<close>

definition install_security_group_permit_flow_by_direction ::
  "'o sg_env \<Rightarrow> string \<Rightarrow> string \<Rightarrow> sg_app \<Rightarrow> sg_app outcome" where
  "install_security_group_permit_flow_by_direction env secgroup_id direction s =
     (if is_sg_not_associated_with_local_port secgroup_id s then (None, s)
      else
        let recirc_table = (if direction = DIRECTION_INGRESS then INGRESS_DISPATCH_TABLE
                            else SERVICES_CLASSIFICATION_TABLE)
        in with_value (get_secgroup_conj_id_and_priority env secgroup_id) (\<lambda>(conj_id, priority).
             install_ipv4_ipv6_rules env (sg_table direction) [(''conj_id'', MInt conj_id)] priority
               None (Some [Actions OFPIT_APPLY_ACTIONS [CT 1 recirc_table CT_ZONE_REG]])) s)"

definition uninstall_security_group_permit_flow_by_direction ::
  "'o sg_env \<Rightarrow> string \<Rightarrow> string \<Rightarrow> sg_app \<Rightarrow> sg_app outcome" where
  "uninstall_security_group_permit_flow_by_direction env secgroup_id direction s =
     (if is_sg_not_associated_with_local_port secgroup_id s then (None, s)
      else with_value (get_secgroup_conj_id_and_priority env secgroup_id) (\<lambda>(conj_id, priority).
             install_ipv4_ipv6_rules env (sg_table direction) [(''conj_id'', MInt conj_id)] 0xff
               (Some OFPFC_DELETE) None) s)"

definition associating_match :: "string \<Rightarrow> lport \<Rightarrow> fmatch" where
  "associating_match direction p =
     (''ct_state'', MMasked (0x20 OR 0x01) SG_CT_STATE_MASK) # classify_match direction p"

definition install_associating_flow_by_direction ::
  "'o sg_env \<Rightarrow> string \<Rightarrow> lport \<Rightarrow> string \<Rightarrow> sg_app \<Rightarrow> sg_app outcome" where
  "install_associating_flow_by_direction env secgroup_id p direction s =
     (if is_sg_not_associated_with_local_port secgroup_id s then (None, s)
      else with_value (get_secgroup_conj_id_and_priority env secgroup_id) (\<lambda>(conj_id, priority).
             sg_send env (default_args\<lparr>
               a_inst := Some [Actions OFPIT_APPLY_ACTIONS [Conjunction 0 2 conj_id]],
               a_table_id := sg_table direction, a_priority := priority,
               a_match := Some (associating_match direction p)\<rparr>)) s)"

definition uninstall_associating_flow_by_direction ::
  "'o sg_env \<Rightarrow> string \<Rightarrow> lport \<Rightarrow> string \<Rightarrow> sg_app \<Rightarrow> sg_app outcome" where
  "uninstall_associating_flow_by_direction env secgroup_id p direction s =
     (if is_sg_not_associated_with_local_port secgroup_id s then (None, s)
      else with_value (get_secgroup_conj_id_and_priority env secgroup_id) (\<lambda>(conj_id, priority).
             sg_send env (default_args\<lparr>a_table_id := sg_table direction, a_priority := priority,
               a_match := Some (associating_match direction p),
               a_command := Some OFPFC_DELETE_STRICT\<rparr>)) s)"

definition both_directions :: "(string \<Rightarrow> sg_app \<Rightarrow> sg_app outcome) \<Rightarrow> sg_app \<Rightarrow> sg_app outcome" where
  "both_directions f s = and_then (f DIRECTION_INGRESS s) (f DIRECTION_EGRESS)"

definition install_associating_flows :: "'o sg_env \<Rightarrow> string \<Rightarrow> lport \<Rightarrow> sg_app \<Rightarrow> sg_app outcome" where
  "install_associating_flows env secgroup_id p =
     both_directions (install_associating_flow_by_direction env secgroup_id p)"

definition uninstall_associating_flows :: "'o sg_env \<Rightarrow> string \<Rightarrow> lport \<Rightarrow> sg_app \<Rightarrow> sg_app outcome" where
  "uninstall_associating_flows env secgroup_id p =
     both_directions (uninstall_associating_flow_by_direction env secgroup_id p)"

definition install_connection_track_flow_by_direction ::
  "'o sg_env \<Rightarrow> lport \<Rightarrow> string \<Rightarrow> sg_app \<Rightarrow> sg_app outcome" where
  "install_connection_track_flow_by_direction env p direction =
     (let pre_table_id = (if direction = DIRECTION_INGRESS then INGRESS_CONNTRACK_TABLE
                          else EGRESS_CONNTRACK_TABLE)
      in install_ipv4_ipv6_rules env pre_table_id (classify_match direction p) PRIORITY_MEDIUM None
           (Some [Actions OFPIT_APPLY_ACTIONS [CT 0 (sg_table direction) METADATA_REG]]))"

definition uninstall_connection_track_flow_by_direction ::
  "'o sg_env \<Rightarrow> lport \<Rightarrow> string \<Rightarrow> sg_app \<Rightarrow> sg_app outcome" where
  "uninstall_connection_track_flow_by_direction env p direction =
     (let pre_table_id = (if direction = DIRECTION_INGRESS then INGRESS_CONNTRACK_TABLE
                          else EGRESS_CONNTRACK_TABLE)
      in install_ipv4_ipv6_rules env pre_table_id (classify_match direction p) 0xff
           (Some OFPFC_DELETE) None)"

definition install_connection_track_flows :: "'o sg_env \<Rightarrow> lport \<Rightarrow> sg_app \<Rightarrow> sg_app outcome" where
  "install_connection_track_flows env p =
     both_directions (install_connection_track_flow_by_direction env p)"

definition uninstall_connection_track_flows :: "'o sg_env \<Rightarrow> lport \<Rightarrow> sg_app \<Rightarrow> sg_app outcome" where
  "uninstall_connection_track_flows env p =
     both_directions (uninstall_connection_track_flow_by_direction env p)"

section \<open>Connection tracking\<close>

type_synonym port_info = "ipaddr list \<times> int"

definition delete_conntrack_entries_by_filter :: "ct_filter \<Rightarrow> sg_app \<Rightarrow> sg_app outcome" where
  "delete_conntrack_entries_by_filter f s = (None, s\<lparr>sg_sent := sg_sent s @ [ConntrackDelete f]\<rparr>)"

definition delete_conntrack_entries_process ::
  "port_info \<Rightarrow> sg_rule \<Rightarrow> ipaddr list option \<Rightarrow> sg_app \<Rightarrow> sg_app outcome" where
  "delete_conntrack_entries_process port_info rule remote_address_list =
     (let ingress = (DIRECTION_INGRESS = r_direction rule)
      in run_each (\<lambda>port_ip.
        with_value (ethertype_to_ip_version (r_ethertype rule)) (\<lambda>v s.
          if ip_version port_ip = v then
            let base = \<lparr>ct_ethertype = r_ethertype rule,
                   ct_protocol = (if truthy (r_protocol rule) then r_protocol rule else None),
                   ct_nw_src = (if ingress then None else Some port_ip),
                   ct_nw_dst = (if ingress then Some port_ip else None), ct_zone = snd port_info\<rparr>
            in (case remote_address_list of
                  None \<Rightarrow> delete_conntrack_entries_by_filter base s
                | Some remotes \<Rightarrow>
                    run_each (\<lambda>remote. delete_conntrack_entries_by_filter
                      (if ingress then base\<lparr>ct_nw_src := Some remote\<rparr>
                       else base\<lparr>ct_nw_dst := Some remote\<rparr>)) remotes s)
          else (None, s))) (fst port_info))"

text \<open>The ports of the rule's group, read from the store.\<close>

definition associating_ports_info :: "'o sg_env \<Rightarrow> sg_rule \<Rightarrow> sg_app \<Rightarrow> port_info list result" where
  "associating_ports_info env rule s =
     (case (case r_security_group_id rule of
              None \<Rightarrow> None | Some g \<Rightarrow> map_of (sg_local_ports s) g) of
        None \<Rightarrow> Inl TypeError
      | Some port_ids \<Rightarrow>
          for_each (\<lambda>port_id infos.
            (case se_lport env port_id of
               None \<Rightarrow> Inl AttributeError
             | Some p \<Rightarrow>
                 (case se_switch_key env (lp_lswitch p) of
                    None \<Rightarrow> Inl (ReferencedObjectNotFound ''LogicalSwitch'' (lp_lswitch p))
                  | Some zone_id \<Rightarrow> Inr (infos @ [(all_ips p, zone_id)])))) port_ids [])"

definition delete_conntrack_entries_by_rule ::
  "'o sg_env \<Rightarrow> sg_rule \<Rightarrow> port_info option \<Rightarrow> ipaddr list option \<Rightarrow> sg_app \<Rightarrow> sg_app outcome" where
  "delete_conntrack_entries_by_rule env rule filter_port_info filter_remote_addresses s =
     (let remote_address_list = (case filter_remote_addresses of
            Some (a # as) \<Rightarrow> Some (a # as) | _ \<Rightarrow> None)
      in with_value
           (case filter_port_info of
              Some info \<Rightarrow> Inr [info]
            | None \<Rightarrow> associating_ports_info env rule s)
           (run_each (\<lambda>info. delete_conntrack_entries_process info rule remote_address_list)) s)"

definition delete_conntrack_entries_by_local_port_info ::
  "'o sg_env \<Rightarrow> lport \<Rightarrow> lport option \<Rightarrow> string \<Rightarrow> sg_app \<Rightarrow> sg_app outcome" where
  "delete_conntrack_entries_by_local_port_info env p original secgroup_id =
     (let removed_ips = (case original of
            Some q \<Rightarrow> set_diff (all_ips q) (all_ips p) | None \<Rightarrow> all_ips p)
      in with_value
           (case se_switch_key env (lp_lswitch p) of
              None \<Rightarrow> Inl (ReferencedObjectNotFound ''LogicalSwitch'' (lp_lswitch p))
            | Some zone_id \<Rightarrow> Inr zone_id)
           (\<lambda>zone_id.
              (case se_secgroup env secgroup_id of
                 None \<Rightarrow> (\<lambda>s. (None, s))
               | Some sg \<Rightarrow>
                   run_each (\<lambda>rule. delete_conntrack_entries_by_rule env rule
                     (Some (removed_ips, zone_id)) None) (sgm_rules sg))))"

definition delete_conntrack_entries_by_remote_address ::
  "'o sg_env \<Rightarrow> ipaddr list \<Rightarrow> sg_rule \<Rightarrow> sg_app \<Rightarrow> sg_app outcome" where
  "delete_conntrack_entries_by_remote_address env remote_addresses rule =
     delete_conntrack_entries_by_rule env rule None (Some remote_addresses)"

section \<open>Flows of rules\<close>

definition rule_inst :: "int \<Rightarrow> inst list" where
  "rule_inst conj_id = [Actions OFPIT_APPLY_ACTIONS [Conjunction 1 2 conj_id]]"

definition update_security_group_rule_flows_by_addresses ::
  "'o sg_env \<Rightarrow> string option \<Rightarrow> sg_rule \<Rightarrow> cidr list \<Rightarrow> cidr list \<Rightarrow> sg_app \<Rightarrow> sg_app outcome" where
  "update_security_group_rule_flows_by_addresses env secgroup_id rule added_cidr removed_cidr s =
     (case secgroup_id of
        None \<Rightarrow> (None, s)
      | Some gid \<Rightarrow>
          if is_sg_not_associated_with_local_port gid s then (None, s)
          else
            with_value (get_secgroup_conj_id_and_priority env gid) (\<lambda>(conj_id, priority) s.
              (case get_security_rule_mapping (r_id rule) s of (rule_id, s) \<Rightarrow>
                 with_value (get_rule_flows_match_except_net_addresses env rule) (\<lambda>match_list s.
                   (case get_security_rule_by_addresses_match_item (r_ethertype rule) (r_direction rule) of
                      None \<Rightarrow> (None, s)
                    | Some item \<Rightarrow>
                        and_then
                          (install_flows_from_address_list env (map Some added_cidr)
                             (r_ethertype rule) (sg_table (r_direction rule)) match_list rule_id item
                             priority (Some (rule_inst conj_id)) (Some OFPFC_ADD) s)
                          (install_flows_from_address_list env (map Some removed_cidr)
                             (r_ethertype rule) (sg_table (r_direction rule)) match_list rule_id item
                             priority None (Some OFPFC_DELETE_STRICT)))) s)) s)"

text \<open>
  The address list of a rule: the aggregated addresses of its remote group, or its prefix, or
  no restriction (\<open>None\<close> stands for the empty string of the code).
\<close>

definition rule_addresses :: "'o sg_env \<Rightarrow> sg_rule \<Rightarrow> sg_app \<Rightarrow> cidr option list result" where
  "rule_addresses env rule s =
     (case r_remote_group_id rule of
        Some gid \<Rightarrow>
          (case map_of (sg_aggregate s) gid of
             None \<Rightarrow> Inr []
           | Some addresses \<Rightarrow>
               for_each (\<lambda>c acc. bind_result (ethertype_to_ip_version (r_ethertype rule)) (\<lambda>v.
                 Inr (if cidr_version c = v then acc @ [Some c] else acc)))
                 (se_iter_cidrs env addresses) [])
      | None \<Rightarrow>
          (case r_remote_ip_prefix rule of
             None \<Rightarrow> Inr [None]
           | Some prefix \<Rightarrow>
               bind_result (ethertype_to_ip_version (r_ethertype rule)) (\<lambda>v.
                 Inr (if cidr_version prefix = v then [Some prefix] else [None]))))"

definition install_security_group_rule_flows ::
  "'o sg_env \<Rightarrow> string \<Rightarrow> sg_rule \<Rightarrow> sg_app \<Rightarrow> sg_app outcome" where
  "install_security_group_rule_flows env secgroup_id rule =
     with_value (get_secgroup_conj_id_and_priority env secgroup_id) (\<lambda>(conj_id, priority) s.
       (case get_security_rule_mapping (r_id rule) s of (rule_id, s) \<Rightarrow>
          (case get_security_rule_by_addresses_match_item (r_ethertype rule) (r_direction rule) of
             None \<Rightarrow> (None, s)
           | Some item \<Rightarrow>
               with_value (get_rule_flows_match_except_net_addresses env rule) (\<lambda>match_list s.
                 with_value (rule_addresses env rule s) (\<lambda>addresses.
                   install_flows_from_address_list env addresses (r_ethertype rule)
                     (sg_table (r_direction rule)) match_list rule_id item priority
                     (Some (rule_inst conj_id)) (Some OFPFC_ADD)) s) s)))"

definition uninstall_security_group_rule_flows ::
  "'o sg_env \<Rightarrow> sg_rule \<Rightarrow> sg_app \<Rightarrow> sg_app outcome" where
  "uninstall_security_group_rule_flows env rule s =
     (case get_security_rule_mapping (r_id rule) s of (rule_id, s) \<Rightarrow>
        with_value (get_rule_cookie env rule_id) (\<lambda>(cookie, cookie_mask).
          sg_send env (default_args\<lparr>a_cookie := cookie, a_cookie_mask := cookie_mask,
            a_table_id := sg_table (r_direction rule), a_command := Some OFPFC_DELETE\<rparr>)) s)"

definition add_security_group_rule ::
  "'o sg_env \<Rightarrow> secgroup \<Rightarrow> sg_rule \<Rightarrow> sg_app \<Rightarrow> sg_app outcome" where
  "add_security_group_rule env sg rule s =
     (if is_sg_not_associated_with_local_port (sgm_id sg) s then (None, s)
      else
        let s = (case r_remote_group_id rule of
              None \<Rightarrow> s
            | Some gid \<Rightarrow>
                let rules = (case map_of (sg_remote_ref s) gid of Some rs \<Rightarrow> rs | None \<Rightarrow> [])
                in s\<lparr>sg_remote_ref :=
                       AList.update gid (AList.update (r_id rule) rule rules) (sg_remote_ref s)\<rparr>)
        in install_security_group_rule_flows env (sgm_id sg) rule s)"

definition remove_security_group_rule ::
  "'o sg_env \<Rightarrow> secgroup \<Rightarrow> sg_rule \<Rightarrow> sg_app \<Rightarrow> sg_app outcome" where
  "remove_security_group_rule env sg rule s =
     (if is_sg_not_associated_with_local_port (sgm_id sg) s then (None, s)
      else
        with_value (get_secgroup_conj_id_and_priority env (sgm_id sg)) (\<lambda>_ s.
          and_then
            (case r_remote_group_id rule of
               None \<Rightarrow> (None, s)
             | Some gid \<Rightarrow>
                 (case map_of (sg_remote_ref s) gid of
                    None \<Rightarrow> (None, s)
                  | Some rules \<Rightarrow>
                      if map_of rules (r_id rule) = None then (Some KeyError, s)
                      else
                        let rules = AList.delete (r_id rule) rules
                        in (None, s\<lparr>sg_remote_ref :=
                              (if rules = [] then AList.delete gid (sg_remote_ref s)
                               else AList.update gid rules (sg_remote_ref s))\<rparr>)))
            (\<lambda>s. and_then (uninstall_security_group_rule_flows env rule s)
                   (delete_conntrack_entries_by_rule env rule None None))) s)"

definition add_security_group :: "'o sg_env \<Rightarrow> secgroup \<Rightarrow> sg_app \<Rightarrow> sg_app outcome" where
  "add_security_group env sg = run_each (add_security_group_rule env sg) (sgm_rules sg)"

text \<open>The rules that are new, and the old rules that are left over.\<close>

fun split_rules :: "sg_rule list \<Rightarrow> sg_rule list \<Rightarrow> sg_rule list \<times> sg_rule list" where
  "split_rules [] old = ([], old)"
| "split_rules (r # new) old =
     (if r \<in> set old then split_rules new (remove1 r old)
      else (case split_rules new old of (added, left) \<Rightarrow> (r # added, left)))"

definition update_security_group ::
  "'o sg_env \<Rightarrow> secgroup \<Rightarrow> secgroup \<Rightarrow> sg_app \<Rightarrow> sg_app outcome" where
  "update_security_group env new_sg old_sg s =
     (case split_rules (sgm_rules new_sg) (sgm_rules old_sg) of (added, left) \<Rightarrow>
        and_then (run_each (add_security_group_rule env new_sg) added s)
          (run_each (remove_security_group_rule env old_sg) left))"

definition install_security_group_flows :: "'o sg_env \<Rightarrow> string \<Rightarrow> sg_app \<Rightarrow> sg_app outcome" where
  "install_security_group_flows env secgroup_id s =
     and_then (both_directions (install_security_group_permit_flow_by_direction env secgroup_id) s)
       (case se_secgroup env secgroup_id of
          None \<Rightarrow> (\<lambda>s. (None, s))
        | Some sg \<Rightarrow> run_each (add_security_group_rule env sg) (sgm_rules sg))"

definition uninstall_security_group_flow :: "'o sg_env \<Rightarrow> string \<Rightarrow> sg_app \<Rightarrow> sg_app outcome" where
  "uninstall_security_group_flow env secgroup_id s =
     and_then (both_directions (uninstall_security_group_permit_flow_by_direction env secgroup_id) s)
       (case se_secgroup env secgroup_id of
          None \<Rightarrow> (\<lambda>s. (None, s))
        | Some sg \<Rightarrow> run_each (remove_security_group_rule env sg) (sgm_rules sg))"

section \<open>Ports and groups\<close>

definition sg_addresses :: "sg_app \<Rightarrow> string \<Rightarrow> ipaddr list" where
  "sg_addresses s secgroup_id = (case map_of (sg_aggregate s) secgroup_id of Some a \<Rightarrow> a | None \<Rightarrow> [])"

definition referring_rules :: "sg_app \<Rightarrow> string \<Rightarrow> sg_rule list" where
  "referring_rules s secgroup_id =
     (case map_of (sg_remote_ref s) secgroup_id of Some rules \<Rightarrow> dict_values rules | None \<Rightarrow> [])"

definition associate_secgroup_lport_addresses ::
  "'o sg_env \<Rightarrow> string \<Rightarrow> lport \<Rightarrow> sg_app \<Rightarrow> sg_app outcome" where
  "associate_secgroup_lport_addresses env secgroup_id p s =
     (let addresses = sg_addresses s secgroup_id in
      case get_lport_added_ips_for_secgroup secgroup_id p s of (added_ips, s) \<Rightarrow>
      case get_cidr_changes_after_adding_addresses (se_iter_cidrs env) addresses added_ips of
        (new_cidr_set, added_cidr, removed_cidr) \<Rightarrow>
          let s = s\<lparr>sg_aggregate := AList.update secgroup_id new_cidr_set (sg_aggregate s)\<rparr>
          in run_each (\<lambda>rule. update_security_group_rule_flows_by_addresses env
                 (r_security_group_id rule) rule added_cidr removed_cidr)
               (referring_rules s secgroup_id) s)"

definition disassociate_secgroup_lport_addresses ::
  "'o sg_env \<Rightarrow> string \<Rightarrow> lport \<Rightarrow> sg_app \<Rightarrow> sg_app outcome" where
  "disassociate_secgroup_lport_addresses env secgroup_id p s =
     (let addresses = sg_addresses s secgroup_id in
      if addresses = [] then
        (None, s\<lparr>sg_aggregate := AList.update secgroup_id [] (sg_aggregate s)\<rparr>)
      else
        case get_lport_removed_ips_for_secgroup secgroup_id p s of (removed_ips, s) \<Rightarrow>
        case get_cidr_changes_after_removing_addresses (se_iter_cidrs env) addresses removed_ips of
          (new_cidr_set, added_cidr, removed_cidr) \<Rightarrow>
            let s = s\<lparr>sg_aggregate :=
                  (if new_cidr_set = [] then AList.delete secgroup_id (sg_aggregate s)
                   else AList.update secgroup_id new_cidr_set (sg_aggregate s))\<rparr>
            in run_each (\<lambda>rule s.
                 and_then (update_security_group_rule_flows_by_addresses env
                     (r_security_group_id rule) rule added_cidr removed_cidr s)
                   (delete_conntrack_entries_by_remote_address env removed_ips rule))
                 (referring_rules s secgroup_id) s)"

definition update_port_addresses_process ::
  "'o sg_env \<Rightarrow> lport \<Rightarrow> lport \<Rightarrow> string \<Rightarrow> sg_app \<Rightarrow> sg_app outcome" where
  "update_port_addresses_process env p original secgroup_id s =
     (let addresses = sg_addresses s secgroup_id in
      case get_lport_updated_ips_for_secgroup secgroup_id p original s of ((added_ips, removed_ips), s) \<Rightarrow>
      case get_cidr_changes_after_updating_addresses (se_iter_cidrs env) addresses added_ips removed_ips of
        (new_cidr_set, added_cidr, removed_cidr) \<Rightarrow>
          let s = s\<lparr>sg_aggregate :=
                (if new_cidr_set = [] then AList.delete secgroup_id (sg_aggregate s)
                 else AList.update secgroup_id new_cidr_set (sg_aggregate s))\<rparr>
          in run_each (\<lambda>rule s.
               and_then (update_security_group_rule_flows_by_addresses env
                   (r_security_group_id rule) rule added_cidr removed_cidr s)
                 (delete_conntrack_entries_by_remote_address env removed_ips rule))
               (referring_rules s secgroup_id) s)"

definition add_local_port_associating ::
  "'o sg_env \<Rightarrow> lport \<Rightarrow> string \<Rightarrow> sg_app \<Rightarrow> sg_app outcome" where
  "add_local_port_associating env p secgroup_id s =
     and_then (associate_secgroup_lport_addresses env secgroup_id p s) (\<lambda>s.
       and_then
         (case map_of (sg_local_ports s) secgroup_id of
            None \<Rightarrow> install_security_group_flows env secgroup_id
                      (s\<lparr>sg_local_ports := AList.update secgroup_id [lp_id p] (sg_local_ports s)\<rparr>)
          | Some ports \<Rightarrow>
              (None, if lp_id p \<notin> set ports then
                 s\<lparr>sg_local_ports := AList.update secgroup_id (ports @ [lp_id p]) (sg_local_ports s)\<rparr>
               else s))
         (install_associating_flows env secgroup_id p))"

definition remove_local_port_associating ::
  "'o sg_env \<Rightarrow> lport \<Rightarrow> string \<Rightarrow> sg_app \<Rightarrow> sg_app outcome" where
  "remove_local_port_associating env p secgroup_id s =
     and_then (uninstall_associating_flows env secgroup_id p s) (\<lambda>s.
       and_then (disassociate_secgroup_lport_addresses env secgroup_id p s) (\<lambda>s.
         (case map_of (sg_local_ports s) secgroup_id of
            None \<Rightarrow> (None, s)
          | Some ports \<Rightarrow>
              if lp_id p \<in> set ports then
                let ports = remove1 (lp_id p) ports;
                    s = s\<lparr>sg_local_ports := AList.update secgroup_id ports (sg_local_ports s)\<rparr>
                in and_then (delete_conntrack_entries_by_local_port_info env p None secgroup_id s)
                     (\<lambda>s. if ports = [] then
                            and_then (uninstall_security_group_flow env secgroup_id s)
                              (\<lambda>s. (None, s\<lparr>sg_local_ports :=
                                             AList.delete secgroup_id (sg_local_ports s)\<rparr>))
                          else (None, s))
              else (None, s))))"

definition add_remote_port_associating ::
  "'o sg_env \<Rightarrow> lport \<Rightarrow> string \<Rightarrow> sg_app \<Rightarrow> sg_app outcome" where
  "add_remote_port_associating env p secgroup_id = associate_secgroup_lport_addresses env secgroup_id p"

definition remove_remote_port_associating ::
  "'o sg_env \<Rightarrow> lport \<Rightarrow> string \<Rightarrow> sg_app \<Rightarrow> sg_app outcome" where
  "remove_remote_port_associating env p secgroup_id =
     disassociate_secgroup_lport_addresses env secgroup_id p"

fun split_secgroups :: "string list \<Rightarrow> string list \<Rightarrow> string list \<times> string list \<times> string list" where
  "split_secgroups [] removed = ([], removed, [])"
| "split_secgroups (g # gs) removed =
     (if g \<in> set removed then
        (case split_secgroups gs (remove1 g removed) of
           (added, removed', unchanged) \<Rightarrow> (added, removed', g # unchanged))
      else
        (case split_secgroups gs removed of
           (added, removed', unchanged) \<Rightarrow> (g # added, removed', unchanged)))"

definition get_added_and_removed_and_unchanged_secgroups ::
  "string list \<Rightarrow> string list \<Rightarrow> string list \<times> string list \<times> string list" where
  "get_added_and_removed_and_unchanged_secgroups secgroups original_secgroups =
     split_secgroups secgroups original_secgroups"

section \<open>Event handlers\<close>

definition sg_add_local_port :: "'o sg_env \<Rightarrow> lport \<Rightarrow> sg_app \<Rightarrow> sg_app outcome" where
  "sg_add_local_port env p s =
     (if lp_security_groups p = [] then (None, s)
      else and_then (run_each (add_local_port_associating env p) (lp_security_groups p) s)
             (install_connection_track_flows env p))"

definition sg_remove_local_port :: "'o sg_env \<Rightarrow> lport \<Rightarrow> sg_app \<Rightarrow> sg_app outcome" where
  "sg_remove_local_port env p s =
     (if lp_security_groups p = [] then (None, s)
      else and_then (uninstall_connection_track_flows env p s)
             (run_each (remove_local_port_associating env p) (lp_security_groups p)))"

definition sg_add_remote_port :: "'o sg_env \<Rightarrow> lport \<Rightarrow> sg_app \<Rightarrow> sg_app outcome" where
  "sg_add_remote_port env p s =
     (if lp_security_groups p = [] then (None, s)
      else run_each (add_remote_port_associating env p) (lp_security_groups p) s)"

definition sg_remove_remote_port :: "'o sg_env \<Rightarrow> lport \<Rightarrow> sg_app \<Rightarrow> sg_app outcome" where
  "sg_remove_remote_port env p s =
     (if lp_security_groups p = [] then (None, s)
      else run_each (remove_remote_port_associating env p) (lp_security_groups p) s)"

definition sg_update_local_port :: "'o sg_env \<Rightarrow> lport \<Rightarrow> lport \<Rightarrow> sg_app \<Rightarrow> sg_app outcome" where
  "sg_update_local_port env p original s =
     (let secgroups = lp_security_groups p; original_secgroups = lp_security_groups original in
      case get_added_and_removed_and_unchanged_secgroups secgroups original_secgroups of
        (added, removed, unchanged) \<Rightarrow>
          and_then (if secgroups = [] \<and> original_secgroups \<noteq> []
                    then uninstall_connection_track_flows env p s else (None, s)) (\<lambda>s.
          and_then (run_each (add_local_port_associating env p) added s) (\<lambda>s.
          and_then (run_each (remove_local_port_associating env original) removed s) (\<lambda>s.
          and_then (run_each (\<lambda>g s.
              and_then (update_port_addresses_process env p original g s)
                (delete_conntrack_entries_by_local_port_info env p (Some original) g)) unchanged s) (\<lambda>s.
            if secgroups \<noteq> [] \<and> original_secgroups = []
            then install_connection_track_flows env p s else (None, s))))))"

definition sg_update_remote_port :: "'o sg_env \<Rightarrow> lport \<Rightarrow> lport \<Rightarrow> sg_app \<Rightarrow> sg_app outcome" where
  "sg_update_remote_port env p original s =
     (case get_added_and_removed_and_unchanged_secgroups (lp_security_groups p)
             (lp_security_groups original) of
        (added, removed, unchanged) \<Rightarrow>
          and_then (run_each (add_remote_port_associating env p) added s) (\<lambda>s.
          and_then (run_each (remove_remote_port_associating env p) removed s)
            (run_each (update_port_addresses_process env p original) unchanged)))"

definition install_env_init_flow_by_direction :: "'o sg_env \<Rightarrow> string \<Rightarrow> sg_app \<Rightarrow> sg_app outcome" where
  "install_env_init_flow_by_direction env direction s =
     (let table_id = sg_table direction;
          goto_table_id = (if direction = DIRECTION_INGRESS then INGRESS_DISPATCH_TABLE
                           else SERVICES_CLASSIFICATION_TABLE);
          goto_inst = Some [GotoTable goto_table_id];
          related_mask = 0x20 OR 0x04 OR 0x01 OR 0x10;
          flow = (\<lambda>inst priority mtch. sg_send env (default_args\<lparr>a_inst := inst,
             a_table_id := table_id, a_priority := priority, a_match := mtch\<rparr>))
      in and_then (flow None PRIORITY_DEFAULT None s) (\<lambda>s.
         and_then (flow goto_inst PRIORITY_CT_STATE
             (Some [(''ct_state'', MMasked (0x20 OR 0x02) SG_CT_STATE_MASK)]) s) (\<lambda>s.
         and_then (flow goto_inst PRIORITY_CT_STATE
             (Some [(''ct_state'', MMasked (0x20 OR 0x04) related_mask)]) s) (\<lambda>s.
         and_then (install_ipv4_ipv6_rules env table_id
             [(''ct_state'', MMasked (0x20 OR 0x04 OR 0x01) related_mask)] PRIORITY_CT_STATE None
             (Some [Actions OFPIT_APPLY_ACTIONS [CT 1 goto_table_id CT_ZONE_REG]]) s)
           (flow None PRIORITY_CT_STATE
             (Some [(''ct_state'', MMasked (0x20 OR 0x10) (0x20 OR 0x10))]))))))"

definition sg_switch_features_handler :: "'o sg_env \<Rightarrow> sg_app \<Rightarrow> sg_app outcome" where
  "sg_switch_features_handler env s =
     and_then (both_directions (install_env_init_flow_by_direction env) s)
       (\<lambda>s. (None, s\<lparr>sg_local_ports := [], sg_remote_ref := [], sg_aggregate := [],
                      sg_ip_refs := []\<rparr>))"

section \<open>Frame conditions\<close>

text \<open>
  Sending flows and deleting connection-tracking entries changes neither the reference counts
  nor the records of addresses, ports and referring rules.
\<close>

definition sg_same :: "sg_app \<Rightarrow> sg_app \<Rightarrow> bool" where
  "sg_same s t \<longleftrightarrow> sg_ip_refs t = sg_ip_refs s \<and> sg_aggregate t = sg_aggregate s \<and>
     sg_local_ports t = sg_local_ports s \<and> sg_remote_ref t = sg_remote_ref s"

definition sg_frame :: "(sg_app \<Rightarrow> sg_app outcome) \<Rightarrow> bool" where
  "sg_frame f \<longleftrightarrow> (\<forall>s. sg_same s (snd (f s)))"

named_theorems sg_frames \<open>methods that only send\<close>

lemma sg_same_trans: "sg_same s t \<Longrightarrow> sg_same t u \<Longrightarrow> sg_same s u"
  by (simp add: sg_same_def)

lemma sg_frameD: "sg_frame f \<Longrightarrow> sg_same s (snd (f s))"
  by (simp add: sg_frame_def)

lemma sg_frame_return [sg_frames]: "sg_frame (\<lambda>s. (None, s))"
  by (simp add: sg_frame_def sg_same_def)

lemma sg_frame_with_value [sg_frames]:
  "(\<And>x. sg_frame (f x)) \<Longrightarrow> sg_frame (with_value r f)"
  by (cases r) (simp_all add: sg_frame_def sg_same_def)

lemma sg_frame_and_then [sg_frames]:
  assumes "sg_frame f" "sg_frame g"
  shows "sg_frame (\<lambda>s. and_then (f s) g)"
  unfolding sg_frame_def
proof
  fix s
  obtain e t where f: "f s = (e, t)" by (cases "f s")
  then have "sg_same s t" using sg_frameD [OF assms(1), of s] by simp
  then show "sg_same s (snd (and_then (f s) g))"
    using sg_frameD [OF assms(2), of t] by (cases e) (auto simp: f intro: sg_same_trans)
qed

lemma sg_frame_run_each [sg_frames]:
  "(\<And>x. x \<in> set xs \<Longrightarrow> sg_frame (f x)) \<Longrightarrow> sg_frame (run_each f xs)"
proof (induction xs)
  case Nil
  then show ?case using sg_frame_return by (simp add: run_each.simps(1) [abs_def])
next
  case (Cons x xs)
  have "run_each f (x # xs) = (\<lambda>s. and_then (f x s) (run_each f xs))" by (simp add: fun_eq_iff)
  then show ?case using sg_frame_and_then [of "f x" "run_each f xs"] Cons by simp
qed

lemma sg_frame_both_directions [sg_frames]:
  "(\<And>d. sg_frame (f d)) \<Longrightarrow> sg_frame (both_directions f)"
  unfolding both_directions_def [abs_def] by (intro sg_frame_and_then)

lemma sg_frame_send [sg_frames]: "sg_frame (sg_send env a)"
  unfolding sg_send_def by (intro sg_frame_with_value) (simp add: sg_frame_def sg_same_def)

lemma sg_frame_conntrack [sg_frames]: "sg_frame (delete_conntrack_entries_by_filter f)"
  by (simp add: sg_frame_def delete_conntrack_entries_by_filter_def sg_same_def)

lemma sg_frame_mapping:
  "get_security_rule_mapping r s = (n, t) \<Longrightarrow> sg_same s t"
  by (auto simp: get_security_rule_mapping_def sg_same_def Let_def split: option.splits)

lemma sg_frame_addresses [sg_frames]:
  "sg_frame (install_flows_from_address_list env as e t ms r i p ins c)"
  unfolding install_flows_from_address_list_def Let_def
  by (intro sg_frames) (auto split: option.splits prod.splits intro!: sg_frames)

lemma sg_frame_after_mapping:
  assumes "\<And>n. sg_frame (f n)"
  shows "sg_frame (\<lambda>s. case get_security_rule_mapping r s of (n, s) \<Rightarrow> f n s)"
  unfolding sg_frame_def
proof
  fix s
  obtain n t where m: "get_security_rule_mapping r s = (n, t)" by fastforce
  from sg_same_trans [OF sg_frame_mapping [OF m] sg_frameD [OF assms]]
  show "sg_same s (snd (case get_security_rule_mapping r s of (n, s) \<Rightarrow> f n s))" by (simp add: m)
qed

lemma sg_frame_if [sg_frames]:
  "sg_frame f \<Longrightarrow> sg_frame g \<Longrightarrow> sg_frame (\<lambda>s. if c s then f s else g s)"
  by (simp add: sg_frame_def)

lemma sg_frame_state_value [sg_frames]:
  "(\<And>x. sg_frame (f x)) \<Longrightarrow> sg_frame (\<lambda>s. with_value (r s) f s)"
  unfolding sg_frame_def
proof
  fix s
  assume "\<And>x. \<forall>s. sg_same s (snd (f x s))"
  then show "sg_same s (snd (with_value (r s) f s))" by (cases "r s") (simp_all add: sg_same_def)
qed

lemma sg_frame_option [sg_frames]:
  "sg_frame f \<Longrightarrow> (\<And>x. sg_frame (g x)) \<Longrightarrow>
   sg_frame (\<lambda>s. case v of None \<Rightarrow> f s | Some x \<Rightarrow> g x s)"
  by (cases v) simp_all

lemma sg_frame_update_rule [sg_frames]:
  "sg_frame (update_security_group_rule_flows_by_addresses env g rule added removed)"
proof -
  have "sg_frame (\<lambda>s. case get_security_rule_mapping (r_id rule) s of (rule_id, s) \<Rightarrow>
      with_value (get_rule_flows_match_except_net_addresses env rule) (\<lambda>match_list s.
        (case get_security_rule_by_addresses_match_item (r_ethertype rule) (r_direction rule) of
           None \<Rightarrow> (None, s)
         | Some item \<Rightarrow>
             and_then
               (install_flows_from_address_list env (map Some added)
                  (r_ethertype rule) (sg_table (r_direction rule)) match_list rule_id item
                  priority (Some (rule_inst conj_id)) (Some OFPFC_ADD) s)
               (install_flows_from_address_list env (map Some removed)
                  (r_ethertype rule) (sg_table (r_direction rule)) match_list rule_id item
                  priority None (Some OFPFC_DELETE_STRICT)))) s)" for conj_id priority
    by (intro sg_frame_after_mapping sg_frames)
  then show ?thesis
    unfolding update_security_group_rule_flows_by_addresses_def [abs_def]
    by (cases g) (auto intro!: sg_frames split: prod.splits)
qed

lemma sg_frame_conntrack_process [sg_frames]:
  "sg_frame (delete_conntrack_entries_process info rule remotes)"
  unfolding delete_conntrack_entries_process_def Let_def
  by (intro sg_frames)

lemma sg_frame_conntrack_by_rule [sg_frames]:
  "sg_frame (delete_conntrack_entries_by_rule env rule info remotes)"
  unfolding delete_conntrack_entries_by_rule_def [abs_def] Let_def by (intro sg_frames)

lemma sg_frame_conntrack_by_remote [sg_frames]:
  "sg_frame (delete_conntrack_entries_by_remote_address env remotes rule)"
  unfolding delete_conntrack_entries_by_remote_address_def by (intro sg_frames)

section \<open>Aggregated addresses\<close>

text \<open>
  The reference counts as a relation of group, address and port, and the invariant: the
  aggregated addresses of a group are exactly the addresses some port holds for it.
\<close>

definition ref_rel :: "sg_app \<Rightarrow> (string \<times> ipaddr \<times> string) set" where
  "ref_rel s = {(g, ip, pid). \<exists>pids. map_of (sg_ip_refs s) (g, ip) = Some pids \<and> pid \<in> set pids}"

definition sg_inv :: "sg_app \<Rightarrow> bool" where
  "sg_inv s \<longleftrightarrow> (\<forall>g ip. map_of (sg_ip_refs s) (g, ip) \<noteq> Some []) \<and>
     (\<forall>g. set (sg_addresses s g) = {ip. \<exists>pid. (g, ip, pid) \<in> ref_rel s})"

lemma sg_inv_init: "sg_inv sg_init"
  by (simp add: sg_inv_def sg_init_def sg_addresses_def ref_rel_def)

lemma sg_same_inv: "sg_same s t \<Longrightarrow> ref_rel t = ref_rel s \<and> sg_inv t = sg_inv s"
  by (simp add: sg_same_def sg_inv_def ref_rel_def sg_addresses_def)

definition refs_ok :: "sg_app \<Rightarrow> bool" where
  "refs_ok s \<longleftrightarrow> (\<forall>g ip. map_of (sg_ip_refs s) (g, ip) \<noteq> Some [])"

lemma nil_iff_no_member: "xs = [] \<longleftrightarrow> (\<forall>x. x \<notin> set xs)"
  by (cases xs) auto

lemma inc_correct:
  assumes "refs_ok s" "inc_ip_reference_and_check g ip pid s = (b, s')"
  shows "refs_ok s' \<and> sg_aggregate s' = sg_aggregate s \<and> sg_remote_ref s' = sg_remote_ref s \<and>
    ref_rel s' = insert (g, ip, pid) (ref_rel s) \<and> b = (\<forall>q. (g, ip, q) \<notin> ref_rel s)"
proof -
  let ?r = "case map_of (sg_ip_refs s) (g, ip) of Some r \<Rightarrow> r | None \<Rightarrow> []"
  from assms(2) have s': "s' = s\<lparr>sg_ip_refs := AList.update (g, ip) (set_add pid ?r) (sg_ip_refs s)\<rparr>"
    and b: "b = (?r = [])" by (simp_all add: inc_ip_reference_and_check_def Let_def)
  have rel: "(g, ip, q) \<in> ref_rel s \<longleftrightarrow> q \<in> set ?r" for q
    by (cases "map_of (sg_ip_refs s) (g, ip)") (simp_all add: ref_rel_def)
  have "ref_rel s' = insert (g, ip, pid) (ref_rel s)"
    using rel by (auto simp: s' ref_rel_def split: if_splits)
  moreover have "refs_ok s'" using assms(1) by (simp add: s' refs_ok_def)
  moreover have "b = (\<forall>q. (g, ip, q) \<notin> ref_rel s)" unfolding rel b by (cases ?r) auto
  ultimately show ?thesis by (simp add: s')
qed

lemma dec_correct:
  assumes "refs_ok s" "dec_ip_reference_and_check g ip pid s = (b, s')"
  shows "refs_ok s' \<and> sg_aggregate s' = sg_aggregate s \<and> sg_remote_ref s' = sg_remote_ref s \<and>
    ref_rel s' = ref_rel s - {(g, ip, pid)} \<and>
    b = ((g, ip, pid) \<in> ref_rel s \<and> (\<forall>q. (g, ip, q) \<notin> ref_rel s'))"
proof (cases "map_of (sg_ip_refs s) (g, ip)")
  case None
  then show ?thesis using assms
    by (auto simp: dec_ip_reference_and_check_def ref_rel_def)
next
  case (Some pids)
  show ?thesis
  proof (cases "pid \<in> set pids")
    case False
    then show ?thesis using assms Some
      by (auto simp: dec_ip_reference_and_check_def ref_rel_def)
  next
    case True
    let ?rest = "set_discard pid pids"
    have s': "s' = s\<lparr>sg_ip_refs := (if ?rest = [] then AList.delete (g, ip) (sg_ip_refs s)
          else AList.update (g, ip) ?rest (sg_ip_refs s))\<rparr>" and b: "b = (?rest = [])"
      using assms(2) Some True
      by (auto simp: dec_ip_reference_and_check_def Let_def split: if_splits)
    have m: "map_of (sg_ip_refs s') gi = (if gi = (g, ip) then if ?rest = [] then None else Some ?rest
        else map_of (sg_ip_refs s) gi)" for gi
      by (simp add: s')
    have sr: "set ?rest = set pids - {pid}" by simp
    have "refs_ok s'" using assms(1) by (auto simp: refs_ok_def m)
    moreover have rel: "ref_rel s' = ref_rel s - {(g, ip, pid)}"
    proof -
      have "(a, i, q) \<in> ref_rel s' \<longleftrightarrow> (a, i, q) \<in> ref_rel s - {(g, ip, pid)}" for a i q
      proof (cases "(a, i) = (g, ip)")
        case eq: True
        have "(a, i, q) \<in> ref_rel s' \<longleftrightarrow> q \<in> set ?rest"
          using eq m [of "(g, ip)"] by (cases "?rest = []") (simp_all add: ref_rel_def)
        then show ?thesis using eq Some sr by (auto simp: ref_rel_def)
      next
        case False
        then show ?thesis by (auto simp: ref_rel_def m)
      qed
      then show ?thesis by auto
    qed
    moreover have "(g, ip, q) \<in> ref_rel s' \<longleftrightarrow> q \<in> set ?rest" for q
      using m [of "(g, ip)"] by (cases "?rest = []") (simp_all add: ref_rel_def)
    then have "b = (\<forall>q. (g, ip, q) \<notin> ref_rel s')" unfolding b by (simp only: nil_iff_no_member)
    moreover have "(g, ip, pid) \<in> ref_rel s" using Some True by (simp add: ref_rel_def)
    ultimately show ?thesis by (auto simp: s')
  qed
qed

text \<open>The loops over the addresses of a port.\<close>

lemma collect_inc:
  assumes "refs_ok s" "distinct ips"
    and "collect_ips (\<lambda>ip. inc_ip_reference_and_check g ip pid) ips s = (out, s')"
  shows "refs_ok s' \<and> sg_aggregate s' = sg_aggregate s \<and> sg_remote_ref s' = sg_remote_ref s \<and>
    ref_rel s' = ref_rel s \<union> (\<lambda>ip. (g, ip, pid)) ` set ips \<and>
    set out = {ip \<in> set ips. \<forall>q. (g, ip, q) \<notin> ref_rel s}"
  using assms
proof (induction ips arbitrary: s out)
  case Nil
  then show ?case by simp
next
  case (Cons ip ips)
  obtain b s1 where 1: "inc_ip_reference_and_check g ip pid s = (b, s1)" by fastforce
  obtain rest s2 where 2: "collect_ips (\<lambda>ip. inc_ip_reference_and_check g ip pid) ips s1 = (rest, s2)"
    by fastforce
  from Cons.prems(3) 1 2 have out: "out = (if b then ip # rest else rest)" "s' = s2" by simp_all
  note i = inc_correct [OF Cons.prems(1) 1]
  with Cons.IH [of s1 rest] Cons.prems(2) 2 out(2) have ih:
    "refs_ok s' \<and> sg_aggregate s' = sg_aggregate s1 \<and> sg_remote_ref s' = sg_remote_ref s1 \<and>
     ref_rel s' = ref_rel s1 \<union> (\<lambda>ip. (g, ip, pid)) ` set ips \<and>
     set rest = {ip \<in> set ips. \<forall>q. (g, ip, q) \<notin> ref_rel s1}" by simp
  have "set out = {i \<in> set (ip # ips). \<forall>q. (g, i, q) \<notin> ref_rel s}"
    using ih i Cons.prems(2) by (auto simp: out(1))
  with ih i show ?case by auto
qed

lemma collect_dec:
  assumes "refs_ok s" "distinct ips"
    and "collect_ips (\<lambda>ip. dec_ip_reference_and_check g ip pid) ips s = (out, s')"
  shows "refs_ok s' \<and> sg_aggregate s' = sg_aggregate s \<and> sg_remote_ref s' = sg_remote_ref s \<and>
    ref_rel s' = ref_rel s - (\<lambda>ip. (g, ip, pid)) ` set ips \<and>
    set out = {ip \<in> set ips. (g, ip, pid) \<in> ref_rel s \<and> (\<forall>q. (g, ip, q) \<notin> ref_rel s')}"
  using assms
proof (induction ips arbitrary: s out)
  case Nil
  then show ?case by simp
next
  case (Cons ip ips)
  obtain b s1 where 1: "dec_ip_reference_and_check g ip pid s = (b, s1)" by fastforce
  obtain rest s2 where 2: "collect_ips (\<lambda>ip. dec_ip_reference_and_check g ip pid) ips s1 = (rest, s2)"
    by fastforce
  from Cons.prems(3) 1 2 have out: "out = (if b then ip # rest else rest)" "s' = s2" by simp_all
  note i = dec_correct [OF Cons.prems(1) 1]
  with Cons.IH [of s1 rest] Cons.prems(2) 2 out(2) have ih:
    "refs_ok s' \<and> sg_aggregate s' = sg_aggregate s1 \<and> sg_remote_ref s' = sg_remote_ref s1 \<and>
     ref_rel s' = ref_rel s1 - (\<lambda>ip. (g, ip, pid)) ` set ips \<and>
     set rest = {ip \<in> set ips. (g, ip, pid) \<in> ref_rel s1 \<and> (\<forall>q. (g, ip, q) \<notin> ref_rel s')}" by simp
  have "(\<forall>q. (g, ip, q) \<notin> ref_rel s1) \<longleftrightarrow> (\<forall>q. (g, ip, q) \<notin> ref_rel s')"
    using ih Cons.prems(2) by auto
  with i have b: "b \<longleftrightarrow> (g, ip, pid) \<in> ref_rel s \<and> (\<forall>q. (g, ip, q) \<notin> ref_rel s')" by simp
  have rest: "set rest = {x \<in> set ips. (g, x, pid) \<in> ref_rel s \<and> (\<forall>q. (g, x, q) \<notin> ref_rel s')}"
    using ih i Cons.prems(2) by auto
  have "set out = {x \<in> set (ip # ips). (g, x, pid) \<in> ref_rel s \<and> (\<forall>q. (g, x, q) \<notin> ref_rel s')}"
    using b by (cases b) (auto simp: out(1) rest)
  with ih i show ?case by auto
qed

lemma distinct_all_ips [simp]: "distinct (all_ips p)"
  by (simp add: all_ips_def)

lemma set_ipset_union [simp]: "set (ipset_union a b) = set a \<union> set b"
proof -
  have "set (fold set_add b a) = set a \<union> set b" by (induction b arbitrary: a) auto
  then show ?thesis by (simp add: ipset_union_def)
qed

lemma sg_invI:
  assumes "refs_ok s" "\<And>g. set (sg_addresses s g) = {ip. \<exists>pid. (g, ip, pid) \<in> ref_rel s}"
  shows "sg_inv s"
  using assms by (simp add: sg_inv_def refs_ok_def)

lemma sg_invD:
  assumes "sg_inv s"
  shows "refs_ok s" "set (sg_addresses s g) = {ip. \<exists>pid. (g, ip, pid) \<in> ref_rel s}"
  using assms by (simp_all add: sg_inv_def refs_ok_def)

lemma associate_correct:
  assumes "sg_inv s"
  shows "sg_inv (snd (associate_secgroup_lport_addresses env g p s)) \<and>
    ref_rel (snd (associate_secgroup_lport_addresses env g p s)) =
      ref_rel s \<union> (\<lambda>ip. (g, ip, lp_id p)) ` set (all_ips p)"
proof -
  obtain added s1 where c: "get_lport_added_ips_for_secgroup g p s = (added, s1)" by fastforce
  note col = collect_inc [OF sg_invD(1) [OF assms] distinct_all_ips c [unfolded get_lport_added_ips_for_secgroup_def]]
  let ?new = "ipset_union (sg_addresses s g) added"
  let ?s2 = "s1\<lparr>sg_aggregate := AList.update g ?new (sg_aggregate s1)\<rparr>"
  obtain ac rc where d: "get_cidr_difference (se_iter_cidrs env) (sg_addresses s g) ?new = (ac, rc)"
    by fastforce
  have eq: "associate_secgroup_lport_addresses env g p s =
      run_each (\<lambda>rule. update_security_group_rule_flows_by_addresses env
        (r_security_group_id rule) rule ac rc) (referring_rules ?s2 g) ?s2"
    by (simp add: associate_secgroup_lport_addresses_def Let_def c d get_cidr_changes_after_adding_addresses_def)
  have same: "sg_same ?s2 (snd (associate_secgroup_lport_addresses env g p s))"
    unfolding eq by (rule sg_frameD) (intro sg_frames)
  have rel: "ref_rel ?s2 = ref_rel s1" by (simp add: ref_rel_def)
  have adr: "sg_addresses ?s2 a = (if a = g then ?new else sg_addresses s a)" for a
    using col by (simp add: sg_addresses_def)
  have "sg_inv ?s2"
  proof (rule sg_invI)
    show "refs_ok ?s2" using col by (simp add: refs_ok_def)
    show "set (sg_addresses ?s2 a) = {ip. \<exists>pid. (a, ip, pid) \<in> ref_rel ?s2}" for a
      unfolding rel adr using col sg_invD(2) [OF assms, of a] by auto
  qed
  with same rel col show ?thesis using sg_same_inv [OF same] by simp
qed

lemma disassociate_correct:
  assumes "sg_inv s"
  shows "sg_inv (snd (disassociate_secgroup_lport_addresses env g p s)) \<and>
    ref_rel (snd (disassociate_secgroup_lport_addresses env g p s)) =
      ref_rel s - (\<lambda>ip. (g, ip, lp_id p)) ` set (all_ips p)"
proof (cases "sg_addresses s g = []")
  case True
  let ?s = "s\<lparr>sg_aggregate := AList.update g [] (sg_aggregate s)\<rparr>"
  have none: "(g, ip, pid) \<notin> ref_rel s" for ip pid using sg_invD(2) [OF assms, of g] True by auto
  have "sg_addresses ?s a = sg_addresses s a" for a using True by (simp add: sg_addresses_def)
  moreover have "ref_rel ?s = ref_rel s" by (simp add: ref_rel_def)
  ultimately have "sg_inv ?s" using assms by (simp add: sg_inv_def)
  then show ?thesis using True none \<open>ref_rel ?s = ref_rel s\<close>
    by (auto simp: disassociate_secgroup_lport_addresses_def Let_def)
next
  case False
  obtain removed s1 where c: "get_lport_removed_ips_for_secgroup g p s = (removed, s1)" by fastforce
  note col = collect_dec [OF sg_invD(1) [OF assms] distinct_all_ips c [unfolded get_lport_removed_ips_for_secgroup_def]]
  let ?new = "set_diff (sg_addresses s g) removed"
  let ?s2 = "s1\<lparr>sg_aggregate := (if ?new = [] then AList.delete g (sg_aggregate s1)
                   else AList.update g ?new (sg_aggregate s1))\<rparr>"
  obtain ac rc where d: "get_cidr_difference (se_iter_cidrs env) (sg_addresses s g) ?new = (ac, rc)"
    by fastforce
  have eq: "disassociate_secgroup_lport_addresses env g p s =
      run_each (\<lambda>rule s. and_then (update_security_group_rule_flows_by_addresses env
        (r_security_group_id rule) rule ac rc s)
        (delete_conntrack_entries_by_remote_address env removed rule)) (referring_rules ?s2 g) ?s2"
    using False
    by (simp add: disassociate_secgroup_lport_addresses_def Let_def c d get_cidr_changes_after_removing_addresses_def)
  have same: "sg_same ?s2 (snd (disassociate_secgroup_lport_addresses env g p s))"
    unfolding eq by (rule sg_frameD) (intro sg_frames)
  have rel: "ref_rel ?s2 = ref_rel s1" by (simp add: ref_rel_def)
  have adr: "sg_addresses ?s2 a = (if a = g then ?new else sg_addresses s a)" for a
    using col by (simp add: sg_addresses_def)
  have "sg_inv ?s2"
  proof (rule sg_invI)
    show "refs_ok ?s2" using col by (simp add: refs_ok_def)
    show "set (sg_addresses ?s2 a) = {ip. \<exists>pid. (a, ip, pid) \<in> ref_rel ?s2}" for a
      unfolding rel adr using col sg_invD(2) [OF assms, of a] by auto
  qed
  with same rel col show ?thesis using sg_same_inv [OF same] by simp
qed

lemma update_addresses_correct:
  assumes "sg_inv s"
  shows "sg_inv (snd (update_port_addresses_process env p original g s)) \<and>
    ref_rel (snd (update_port_addresses_process env p original g s)) =
      (ref_rel s \<union> (\<lambda>ip. (g, ip, lp_id p)) ` (set (all_ips p) - set (all_ips original))) -
        (\<lambda>ip. (g, ip, lp_id p)) ` (set (all_ips original) - set (all_ips p))"
proof -
  let ?new_ips = "filter (\<lambda>ip. ip \<notin> set (all_ips original)) (all_ips p)"
  let ?old_ips = "filter (\<lambda>ip. ip \<notin> set (all_ips p)) (all_ips original)"
  obtain added s1 where c1: "collect_ips (\<lambda>ip. inc_ip_reference_and_check g ip (lp_id p)) ?new_ips s = (added, s1)"
    by fastforce
  obtain removed s2 where c2: "collect_ips (\<lambda>ip. dec_ip_reference_and_check g ip (lp_id p)) ?old_ips s1 = (removed, s2)"
    by fastforce
  have d1: "distinct ?new_ips" and d2: "distinct ?old_ips" by simp_all
  note i1 = collect_inc [OF sg_invD(1) [OF assms] d1 c1]
  note i2 = collect_dec [OF conjunct1 [OF i1] d2 c2]
  let ?new = "set_diff (ipset_union (sg_addresses s g) added) removed"
  let ?s3 = "s2\<lparr>sg_aggregate := (if ?new = [] then AList.delete g (sg_aggregate s2)
                   else AList.update g ?new (sg_aggregate s2))\<rparr>"
  obtain ac rc where d: "get_cidr_difference (se_iter_cidrs env) (sg_addresses s g) ?new = (ac, rc)"
    by fastforce
  have eq: "update_port_addresses_process env p original g s =
      run_each (\<lambda>rule s. and_then (update_security_group_rule_flows_by_addresses env
        (r_security_group_id rule) rule ac rc s)
        (delete_conntrack_entries_by_remote_address env removed rule)) (referring_rules ?s3 g) ?s3"
    by (simp add: update_port_addresses_process_def Let_def c1 c2 d
        get_lport_updated_ips_for_secgroup_def get_cidr_changes_after_updating_addresses_def)
  have same: "sg_same ?s3 (snd (update_port_addresses_process env p original g s))"
    unfolding eq by (rule sg_frameD) (intro sg_frames)
  have rel: "ref_rel ?s3 = ref_rel s2" by (simp add: ref_rel_def)
  have adr: "sg_addresses ?s3 a = (if a = g then ?new else sg_addresses s a)" for a
    using i1 i2 by (simp add: sg_addresses_def)
  have "sg_inv ?s3"
  proof (rule sg_invI)
    show "refs_ok ?s3" using i2 by (simp add: refs_ok_def)
    show "set (sg_addresses ?s3 a) = {ip. \<exists>pid. (a, ip, pid) \<in> ref_rel ?s3}" for a
      unfolding rel adr using i1 i2 sg_invD(2) [OF assms, of a] by auto
  qed
  moreover have "set ?new_ips = set (all_ips p) - set (all_ips original)"
    "set ?old_ips = set (all_ips original) - set (all_ips p)" by auto
  ultimately show ?thesis using rel i1 i2 sg_same_inv [OF same] by simp
qed

text \<open>The address operations of a group, and the relation they should maintain.\<close>

datatype sg_op = Associate string lport | Disassociate string lport | UpdateAddresses string lport lport

fun sg_apply :: "'o sg_env \<Rightarrow> sg_op \<Rightarrow> sg_app \<Rightarrow> sg_app outcome" where
  "sg_apply env (Associate g p) s = associate_secgroup_lport_addresses env g p s"
| "sg_apply env (Disassociate g p) s = disassociate_secgroup_lport_addresses env g p s"
| "sg_apply env (UpdateAddresses g p original) s = update_port_addresses_process env p original g s"

fun sg_spec_apply :: "sg_op \<Rightarrow> (string \<times> ipaddr \<times> string) set \<Rightarrow> (string \<times> ipaddr \<times> string) set" where
  "sg_spec_apply (Associate g p) R = R \<union> (\<lambda>ip. (g, ip, lp_id p)) ` set (all_ips p)"
| "sg_spec_apply (Disassociate g p) R = R - (\<lambda>ip. (g, ip, lp_id p)) ` set (all_ips p)"
| "sg_spec_apply (UpdateAddresses g p original) R =
     (R \<union> (\<lambda>ip. (g, ip, lp_id p)) ` (set (all_ips p) - set (all_ips original))) -
       (\<lambda>ip. (g, ip, lp_id p)) ` (set (all_ips original) - set (all_ips p))"

lemma sg_ops_refine:
  "sg_inv s \<Longrightarrow>
   sg_inv (fold (\<lambda>x s. snd (sg_apply env x s)) ops s) \<and>
   ref_rel (fold (\<lambda>x s. snd (sg_apply env x s)) ops s) = fold sg_spec_apply ops (ref_rel s)"
proof (induction ops arbitrary: s)
  case Nil
  then show ?case by simp
next
  case (Cons x ops)
  have "sg_inv (snd (sg_apply env x s)) \<and> ref_rel (snd (sg_apply env x s)) = sg_spec_apply x (ref_rel s)"
    using Cons.prems associate_correct disassociate_correct update_addresses_correct
    by (cases x) simp_all
  with Cons.IH [of "snd (sg_apply env x s)"] show ?case by simp
qed

text \<open>
  C6. The aggregated addresses of a security group are exact: after any sequence of port
  associations, dissociations and address changes, whatever those report back, the addresses
  recorded for a group are exactly those that at least one port still holds in the group, so
  an address shared by two ports stays until both are gone.
\<close>

theorem sg_aggregate_addresses_exact:
  "set (sg_addresses (fold (\<lambda>x s. snd (sg_apply env x s)) ops sg_init) g) =
   {ip. \<exists>pid. (g, ip, pid) \<in> fold sg_spec_apply ops {}}"
proof -
  have "ref_rel sg_init = {}" by (simp add: ref_rel_def sg_init_def)
  with sg_ops_refine [OF sg_inv_init, of env ops]
  have inv: "sg_inv (fold (\<lambda>x s. snd (sg_apply env x s)) ops sg_init)"
    and rel: "ref_rel (fold (\<lambda>x s. snd (sg_apply env x s)) ops sg_init) = fold sg_spec_apply ops {}"
    by simp_all
  show ?thesis unfolding sg_invD(2) [OF inv] rel ..
qed

text \<open>
  C38. A remote port that leaves a group while its addresses change leaves its old addresses
  behind: the remote handler takes the port's new addresses out of the group, where the local
  handler takes the original ones, so the group keeps permitting addresses no port has.
\<close>

theorem sg_remote_update_keeps_stale_addresses:
  assumes "lp_security_groups p = []" "lp_security_groups original = [g]"
    and "lp_id p = lp_id original" "set (all_ips p) \<inter> set (all_ips original) = {}"
    and "sg_add_remote_port env original sg_init = (None, s)"
  shows "set (sg_addresses (snd (sg_update_remote_port env p original s)) g) = set (all_ips original)"
proof -
  have s: "sg_inv s \<and> ref_rel s = (\<lambda>ip. (g, ip, lp_id original)) ` set (all_ips original)"
    using associate_correct [OF sg_inv_init, of env g original] assms(2,5)
    by (cases "associate_secgroup_lport_addresses env g original sg_init")
       (auto simp: sg_add_remote_port_def add_remote_port_associating_def and_then_def ref_rel_def
          sg_init_def split: option.splits)
  let ?t = "snd (disassociate_secgroup_lport_addresses env g p s)"
  have "snd (sg_update_remote_port env p original s) = ?t"
    using assms(1,2)
    by (cases "disassociate_secgroup_lport_addresses env g p s"; cases "fst (disassociate_secgroup_lport_addresses env g p s)")
       (auto simp: sg_update_remote_port_def get_added_and_removed_and_unchanged_secgroups_def
          remove_remote_port_associating_def)
  moreover have "sg_inv ?t" "ref_rel ?t = ref_rel s"
    using disassociate_correct [of s env g p] s assms(3,4) by auto
  ultimately show ?thesis using sg_invD(2) [of ?t g] s by auto
qed

text \<open>An environment without objects, for examples; every address set is one block per address.\<close>

definition example_env :: "unit sg_env" where
  "example_env =
     \<lparr>se_cookies = empty_cookie_space, se_opaque = (), se_secgroup = (\<lambda>i. None),
      se_lport = (\<lambda>i. None), se_switch_key = (\<lambda>i. None),
      se_iter_cidrs = map (\<lambda>ip. Cidr ip (case ip of IPv4 w \<Rightarrow> 32 | IPv6 w \<Rightarrow> 128)),
      se_network_and_mask = (\<lambda>c. (0, 0)),
      se_range_cidrs = (\<lambda>lo hi. map (\<lambda>a. (a, 0xffffffff)) [lo..hi])\<rparr>"

definition example_port :: "string list \<Rightarrow> ipaddr list \<Rightarrow> lport" where
  "example_port groups ips =
     \<lparr>lp_id = ''port'', lp_unique_key = 1, lp_ips = ips, lp_address_pairs = [],
      lp_security_groups = groups, lp_lswitch = ''net''\<rparr>"

theorem sg_remote_update_keeps_stale_addresses_witness:
  "\<exists>s. sg_add_remote_port example_env (example_port [''sg''] [IPv4 1]) sg_init = (None, s) \<and>
     set (sg_addresses (snd (sg_update_remote_port example_env (example_port [] [IPv4 2])
       (example_port [''sg''] [IPv4 1]) s)) ''sg'') = {IPv4 1}"
proof -
  have "fst (sg_add_remote_port example_env (example_port [''sg''] [IPv4 1]) sg_init) = None"
    by (simp add: sg_add_remote_port_def example_port_def example_env_def add_remote_port_associating_def
        associate_secgroup_lport_addresses_def Let_def get_lport_added_ips_for_secgroup_def
        get_cidr_changes_after_adding_addresses_def get_cidr_difference_def all_ips_def
        inc_ip_reference_and_check_def referring_rules_def sg_init_def)
  then obtain s where s: "sg_add_remote_port example_env (example_port [''sg''] [IPv4 1]) sg_init = (None, s)"
    by (cases "sg_add_remote_port example_env (example_port [''sg''] [IPv4 1]) sg_init") simp
  have "set (all_ips (example_port [] [IPv4 2])) \<inter> set (all_ips (example_port [''sg''] [IPv4 1])) = {}"
    "set (all_ips (example_port [''sg''] [IPv4 1])) = {IPv4 1}"
    by (simp_all add: all_ips_def example_port_def)
  with sg_remote_update_keeps_stale_addresses [OF _ _ _ _ s, of "example_port [] [IPv4 2]" "''sg''"] s
  show ?thesis by (auto simp: example_port_def)
qed

section \<open>Port ranges\<close>



section \<open>Which flows a rule owns\<close>

text \<open>What a method sends: it appends effects with a property to those already sent.\<close>

definition sg_sends :: "(sg_effect \<Rightarrow> bool) \<Rightarrow> (sg_app \<Rightarrow> sg_app outcome) \<Rightarrow> bool" where
  "sg_sends P f \<longleftrightarrow> (\<forall>s. \<exists>xs. sg_sent (snd (f s)) = sg_sent s @ xs \<and> list_all P xs)"

named_theorems sg_sends_intros \<open>what the methods send\<close>

lemma sg_sends_return [sg_sends_intros]: "sg_sends P (\<lambda>s. (None, s))"
  by (simp add: sg_sends_def)

lemma sg_sends_with_value [sg_sends_intros]:
  "(\<And>x. r = Inr x \<Longrightarrow> sg_sends P (f x)) \<Longrightarrow> sg_sends P (with_value r f)"
  by (cases r) (simp_all add: sg_sends_def)

lemma sg_sends_and_then [sg_sends_intros]:
  assumes "sg_sends P f" "sg_sends P g"
  shows "sg_sends P (\<lambda>s. and_then (f s) g)"
  unfolding sg_sends_def
proof
  fix s
  obtain e t where f: "f s = (e, t)" by (cases "f s")
  with assms(1) obtain xs where xs: "sg_sent t = sg_sent s @ xs" "list_all P xs"
    unfolding sg_sends_def by (metis snd_conv)
  from assms(2) obtain ys where "sg_sent (snd (g t)) = sg_sent t @ ys" "list_all P ys"
    unfolding sg_sends_def by blast
  with xs f show "\<exists>zs. sg_sent (snd (and_then (f s) g)) = sg_sent s @ zs \<and> list_all P zs"
    by (cases e) auto
qed

lemma sg_sends_run_each [sg_sends_intros]:
  "(\<And>x. x \<in> set xs \<Longrightarrow> sg_sends P (f x)) \<Longrightarrow> sg_sends P (run_each f xs)"
proof (induction xs)
  case Nil
  then show ?case by (simp add: sg_sends_def)
next
  case (Cons x xs)
  have "run_each f (x # xs) = (\<lambda>s. and_then (f x s) (run_each f xs))" by (simp add: fun_eq_iff)
  then show ?case using sg_sends_and_then [of P "f x" "run_each f xs"] Cons by simp
qed

lemma sg_sends_send:
  assumes "\<And>fm. mod_flow (se_cookies env) (se_opaque env) a = Inr fm \<Longrightarrow> P (SentFlow fm)"
  shows "sg_sends P (sg_send env a)"
  unfolding sg_send_def using assms by (intro sg_sends_with_value) (simp add: sg_sends_def)

text \<open>
  The cookie space as the application registers it: 32 local bits for the rule id. The
  statement is about the application's own bits, with no global modifier in place.
\<close>

definition sg_cookies_ready :: "nat \<Rightarrow> 'o sg_env \<Rightarrow> bool" where
  "sg_cookies_ready off env \<longleftrightarrow> ck_modifiers (se_cookies env) = [] \<and>
     map_of (ck_cookies (se_cookies env)) (''SGApp'', SG_COOKIE_NAME) = Some (off, bit_block off 32)"

lemma rule_cookie:
  assumes "sg_cookies_ready off env"
  shows "get_rule_cookie env n =
    (if 0 \<le> n \<and> n < 2 ^ 32 then Inr (push_bit off n, bit_block off 32) else Inl CookieOverflowExcpetion)"
proof -
  have "push_bit off n AND bit_block off 32 = push_bit off n \<longleftrightarrow> 0 \<le> n \<and> n < 2 ^ 32"
    using bit_block_fits [of n off 32] bit_block_negative [of n off 32] by force
  then show ?thesis using assms
    by (auto simp: get_rule_cookie_def get_local_cookie_def get_cookie_def cookie_namespace_def
        sg_cookies_ready_def Let_def)
qed

lemma mod_flow_plain:
  assumes "sg_cookies_ready off env" "mod_flow (se_cookies env) (se_opaque env) a = Inr fm"
  shows "fm_cookie fm = a_cookie a \<and> fm_cookie_mask fm = a_cookie_mask a \<and>
    fm_table_id fm = a_table_id a \<and> fm_command fm = or_default OFPFC_ADD (a_command a) \<and>
    fm_priority fm = a_priority a \<and> fm_match fm = a_match a"
  using assms by (auto simp: mod_flow_def sg_cookies_ready_def apply_global_cookie_modifiers_def Let_def)

definition mapping_inv :: "sg_app \<Rightarrow> bool" where
  "mapping_inv s \<longleftrightarrow>
     (\<forall>r n. map_of (sg_rule_mappings s) r = Some n \<longrightarrow> 1 \<le> n \<and> n \<le> sg_next_rule_id s) \<and>
     0 \<le> sg_next_rule_id s \<and>
     (\<forall>r r' n. map_of (sg_rule_mappings s) r = Some n \<longrightarrow>
        map_of (sg_rule_mappings s) r' = Some n \<longrightarrow> r = r')"

lemma mapping_inv_init: "mapping_inv sg_init"
  by (simp add: mapping_inv_def sg_init_def)

lemma get_security_rule_mapping_inv:
  assumes "mapping_inv s" "get_security_rule_mapping r s = (n, s')"
  shows "mapping_inv s' \<and> map_of (sg_rule_mappings s') r = Some n \<and>
    (\<forall>r' m. map_of (sg_rule_mappings s) r' = Some m \<longrightarrow> map_of (sg_rule_mappings s') r' = Some m)"
proof (cases "map_of (sg_rule_mappings s) r")
  case (Some m)
  with assms show ?thesis by (simp add: get_security_rule_mapping_def)
next
  case None
  from assms(1) have b: "map_of (sg_rule_mappings s) q = Some m \<Longrightarrow> 1 \<le> m \<and> m \<le> sg_next_rule_id s" for q m
    unfolding mapping_inv_def by blast
  have s': "n = sg_next_rule_id s + 1"
    "s' = s\<lparr>sg_next_rule_id := n, sg_rule_mappings := AList.update r n (sg_rule_mappings s)\<rparr>"
    using assms(2) None by (auto simp: get_security_rule_mapping_def Let_def)
  have "mapping_inv s'"
    using assms(1) b unfolding mapping_inv_def s' by (fastforce split: if_splits)
  then show ?thesis using None by (auto simp: s'(2))
qed

lemma install_sends_own_cookie:
  assumes "sg_cookies_ready off env" "map_of (sg_rule_mappings s) (r_id rule) = Some n"
  shows "\<exists>xs. sg_sent (snd (install_security_group_rule_flows env g rule s)) = sg_sent s @ xs \<and>
    list_all (\<lambda>x. \<exists>fm. x = SentFlow fm \<and> fm_cookie fm = push_bit off n \<and>
      fm_table_id fm = sg_table (r_direction rule) \<and> fm_command fm = OFPFC_ADD) xs"
proof -
  let ?P = "\<lambda>x. \<exists>fm. x = SentFlow fm \<and> fm_cookie fm = push_bit off n \<and>
      fm_table_id fm = sg_table (r_direction rule) \<and> fm_command fm = OFPFC_ADD"
  have "sg_sends ?P (install_flows_from_address_list env as (r_ethertype rule)
      (sg_table (r_direction rule)) ms n item pr ins (Some OFPFC_ADD))" for as ms item pr ins
    unfolding install_flows_from_address_list_def Let_def
    by (intro sg_sends_intros)
       (auto split: if_splits option.splits prod.splits simp: rule_cookie [OF assms(1)] or_default_def
         intro!: sg_sends_intros sg_sends_send dest!: mod_flow_plain [OF assms(1)])
  then have inst: "\<exists>xs. sg_sent (snd (install_flows_from_address_list env as (r_ethertype rule)
      (sg_table (r_direction rule)) ms n item pr ins (Some OFPFC_ADD) s)) = sg_sent s @ xs \<and> list_all ?P xs"
    for as ms item pr ins
    unfolding sg_sends_def by blast
  show ?thesis
    using inst assms(2)
    by (auto simp: install_security_group_rule_flows_def with_value_def get_security_rule_mapping_def
        split: sum.splits option.splits)
qed


text \<open>Two rules with their ids, and an environment with the registered cookie bits.\<close>

definition example_rule :: "string \<Rightarrow> sg_rule" where
  "example_rule i =
     \<lparr>r_id = i, r_direction = ''ingress'', r_ethertype = ''IPv4'', r_protocol = None,
      r_port_range_min = None, r_port_range_max = None, r_remote_group_id = None,
      r_remote_ip_prefix = None, r_security_group_id = Some ''sg''\<rparr>"


text \<open>
  A rule whose remote prefix is of the other IP version is installed as if it had no
  prefix at all: the address list then keeps its initial value, the empty string, which stands
  for any address, so the rule admits every peer instead of none.
\<close>

theorem sg_prefix_of_other_version_is_ignored:
  assumes "r_remote_group_id rule = None" "r_remote_ip_prefix rule = Some c"
    and "ethertype_to_ip_version (r_ethertype rule) = Inr v" "cidr_version c \<noteq> v"
  shows "install_security_group_rule_flows env g rule s =
    install_security_group_rule_flows env g (rule\<lparr>r_remote_ip_prefix := None\<rparr>) s"
proof -
  have "rule_addresses env rule t = rule_addresses env (rule\<lparr>r_remote_ip_prefix := None\<rparr>) t" for t
    using assms by (simp add: rule_addresses_def)
  moreover have "get_rule_flows_match_except_net_addresses env rule =
      get_rule_flows_match_except_net_addresses env (rule\<lparr>r_remote_ip_prefix := None\<rparr>)"
    by (simp add: get_rule_flows_match_except_net_addresses_def Let_def)
  ultimately show ?thesis
    by (simp add: install_security_group_rule_flows_def cong: option.case_cong)
qed

theorem sg_prefix_of_other_version_is_ignored_witness:
  "install_security_group_rule_flows example_env ''sg''
     (example_rule ''r''\<lparr>r_remote_ip_prefix := Some (Cidr (IPv6 1) 64)\<rparr>) sg_init =
   install_security_group_rule_flows example_env ''sg'' (example_rule ''r'') sg_init"
  using sg_prefix_of_other_version_is_ignored
    [of "example_rule ''r''\<lparr>r_remote_ip_prefix := Some (Cidr (IPv6 1) 64)\<rparr>" "Cidr (IPv6 1) 64" 4]
  by (simp add: example_rule_def ethertype_to_ip_version_def cidr_version_def ip_version_def)

section \<open>Associating flows\<close>

definition add_args :: "secgroup \<Rightarrow> lport \<Rightarrow> string \<Rightarrow> flow_args" where
  "add_args sg p dir = default_args\<lparr>
     a_inst := Some [Actions OFPIT_APPLY_ACTIONS [Conjunction 0 2 (sgm_unique_key sg)]],
     a_table_id := sg_table dir, a_priority := SG_PRIORITY_OFFSET + sgm_unique_key sg,
     a_match := Some (associating_match dir p)\<rparr>"

definition del_args :: "secgroup \<Rightarrow> lport \<Rightarrow> string \<Rightarrow> flow_args" where
  "del_args sg p dir = default_args\<lparr>a_table_id := sg_table dir,
     a_priority := SG_PRIORITY_OFFSET + sgm_unique_key sg, a_match := Some (associating_match dir p),
     a_command := Some OFPFC_DELETE_STRICT\<rparr>"

lemma associating_direction:
  assumes "map_of (sg_local_ports s) g \<noteq> None" "se_secgroup env g = Some sg"
  shows "install_associating_flow_by_direction env g p dir s = sg_send env (add_args sg p dir) s"
    and "uninstall_associating_flow_by_direction env g p dir s = sg_send env (del_args sg p dir) s"
  using assms
  by (cases "map_of (sg_local_ports s) g";
      simp add: install_associating_flow_by_direction_def uninstall_associating_flow_by_direction_def
        is_sg_not_associated_with_local_port_def get_secgroup_conj_id_and_priority_def
        add_args_def del_args_def)+

lemma mod_flow_fields:
  assumes "mod_flow cs x a = Inr fm"
  shows "fm_command fm = or_default OFPFC_ADD (a_command a) \<and> fm_table_id fm = a_table_id a \<and>
    fm_priority fm = a_priority a \<and> fm_match fm = a_match a"
  using assms by (auto simp: mod_flow_def bind_result_Inr_iff Let_def)

lemma mod_flow_total:
  assumes "mod_flow cs x a = Inr fm" "a_cookie b = a_cookie a" "a_cookie_mask b = a_cookie_mask a"
  shows "\<exists>fm'. mod_flow cs x b = Inr fm'"
  using assms by (auto simp: mod_flow_def bind_result_Inr_iff Let_def)

text \<open>
  C34. Dissociating a port undoes its association in the flow tables: for a port of a group with
  local ports, both calls send one message per direction, and message by message the deletion
  is strict and names the table, the priority and the match of the flow that was added.
\<close>

theorem sg_associating_flows_undone:
  assumes "map_of (sg_local_ports s) g \<noteq> None" "se_secgroup env g = Some sg"
    and "install_associating_flows env g p s = (None, s1)"
  shows "\<exists>a1 a2 d1 d2.
    sg_sent s1 = sg_sent s @ [SentFlow a1, SentFlow a2] \<and>
    uninstall_associating_flows env g p s1 = (None, s1\<lparr>sg_sent := sg_sent s1 @ [SentFlow d1, SentFlow d2]\<rparr>) \<and>
    list_all2 (\<lambda>a d. fm_command a = OFPFC_ADD \<and> fm_command d = OFPFC_DELETE_STRICT \<and>
        fm_table_id d = fm_table_id a \<and> fm_priority d = fm_priority a \<and> fm_match d = fm_match a)
      [a1, a2] [d1, d2]"
proof -
  let ?mod = "mod_flow (se_cookies env) (se_opaque env)"
  note dirs = associating_direction [OF _ assms(2)]
  from assms(1) have l: "map_of (sg_local_ports s) g \<noteq> None" .
  from assms(3) obtain t where t: "sg_send env (add_args sg p DIRECTION_INGRESS) s = (None, t)"
      "install_associating_flow_by_direction env g p DIRECTION_EGRESS t = (None, s1)"
    by (auto simp: install_associating_flows_def both_directions_def and_then_None_iff dirs(1) [OF l])
  from t(1) obtain a1 where a1: "?mod (add_args sg p DIRECTION_INGRESS) = Inr a1"
      "t = s\<lparr>sg_sent := sg_sent s @ [SentFlow a1]\<rparr>"
    by (auto simp: sg_send_def with_value_None_iff)
  have lt: "map_of (sg_local_ports t) g \<noteq> None" using l by (simp add: a1(2))
  from t(2) dirs(1) [OF lt] obtain a2 where a2: "?mod (add_args sg p DIRECTION_EGRESS) = Inr a2"
      "s1 = t\<lparr>sg_sent := sg_sent t @ [SentFlow a2]\<rparr>"
    by (auto simp: sg_send_def with_value_None_iff)
  from mod_flow_total [OF a1(1), of "del_args sg p DIRECTION_INGRESS"]
    mod_flow_total [OF a1(1), of "del_args sg p DIRECTION_EGRESS"]
  obtain d1 d2 where d: "?mod (del_args sg p DIRECTION_INGRESS) = Inr d1"
      "?mod (del_args sg p DIRECTION_EGRESS) = Inr d2"
    by (auto simp: add_args_def del_args_def default_args_def)
  have l1: "map_of (sg_local_ports (s1\<lparr>sg_sent := x\<rparr>)) g \<noteq> None" "map_of (sg_local_ports s1) g \<noteq> None" for x
    using lt by (simp_all add: a2(2))
  have "uninstall_associating_flows env g p s1 = (None, s1\<lparr>sg_sent := sg_sent s1 @ [SentFlow d1, SentFlow d2]\<rparr>)"
    by (simp add: uninstall_associating_flows_def both_directions_def dirs(2) [OF l1(2)] sg_send_def d
        dirs(2) [OF l1(1)])
  then show ?thesis
    using a1 a2 mod_flow_fields [OF a1(1)] mod_flow_fields [OF a2(1)] mod_flow_fields [OF d(1)]
      mod_flow_fields [OF d(2)]
    by (intro exI [of _ a1] exI [of _ a2] exI [of _ d1] exI [of _ d2] conjI)
       (simp_all add: add_args_def del_args_def or_default_def default_args_def)
qed

theorem sg_associating_flows_undone_witness:
  "\<exists>s1 d1 d2. install_associating_flows
       (example_env\<lparr>se_secgroup := \<lambda>i. Some \<lparr>sgm_id = i, sgm_unique_key = 7, sgm_rules = []\<rparr>\<rparr>)
       ''sg'' (example_port [''sg''] []) (sg_init\<lparr>sg_local_ports := [(''sg'', [''port''])]\<rparr>) = (None, s1) \<and>
     uninstall_associating_flows
       (example_env\<lparr>se_secgroup := \<lambda>i. Some \<lparr>sgm_id = i, sgm_unique_key = 7, sgm_rules = []\<rparr>\<rparr>)
       ''sg'' (example_port [''sg''] []) s1 =
       (None, s1\<lparr>sg_sent := sg_sent s1 @ [SentFlow d1, SentFlow d2]\<rparr>)"
proof -
  let ?env = "example_env\<lparr>se_secgroup := \<lambda>i. Some \<lparr>sgm_id = i, sgm_unique_key = 7, sgm_rules = []\<rparr>\<rparr>"
  let ?s = "sg_init\<lparr>sg_local_ports := [(''sg'', [''port''])]\<rparr>"
  obtain s1 where s1: "install_associating_flows ?env ''sg'' (example_port [''sg''] []) ?s = (None, s1)"
    by (simp add: install_associating_flows_def both_directions_def install_associating_flow_by_direction_def
        is_sg_not_associated_with_local_port_def get_secgroup_conj_id_and_priority_def sg_send_def
        mod_flow_def apply_global_cookie_modifiers_def example_env_def empty_cookie_space_def Let_def
        default_args_def sg_init_def)
  from sg_associating_flows_undone [OF _ _ s1] s1 show ?thesis by auto
qed

end
