(* ===== verification/Radix_Tree.thy ===== *)
theory Radix_Tree
  imports Df_Prelude
begin

text \<open>
  The constant-depth radix tree of \<open>dragonflow/utils/radix_tree.py\<close>, which the database
  store uses for its indexes. A tree of depth \<open>n\<close> is \<open>n\<close> levels of
  \<open>defaultdict\<close> over leaf sets; an inner node carries the depth of its children, which is
  what its default factory needs. A path element \<^const>\<open>None\<close> is Python's
  \<open>None\<close>: the wildcard \<open>ANY\<close> in a query, and a missing attribute in a stored path.
  The theory ends with the interface \<open>wild_multimap\<close> (a multimap with wildcard queries),
  which the tree implements and the index cache relies on.
\<close>

section \<open>The tree and its operations\<close>

datatype ('k, 'v) rtree =
    Leaf "'v list"
  | Node nat "('k option, ('k, 'v) rtree) dict"

type_synonym 'k path = "'k option list"

fun rt_empty :: "nat \<Rightarrow> ('k, 'v) rtree" where
  "rt_empty 0 = Leaf []"
| "rt_empty (Suc n) = Node n []"

text \<open>\<open>node[key]\<close> on a \<open>defaultdict\<close>: a missing child is the default tree.\<close>

definition rt_child :: "nat \<Rightarrow> ('k option, ('k, 'v) rtree) dict \<Rightarrow> 'k option \<Rightarrow> ('k, 'v) rtree" where
  "rt_child n d k = (case map_of d k of Some t \<Rightarrow> t | None \<Rightarrow> rt_empty n)"

text \<open>
  \<open>set\<close> traverses to the leaf, creating what is missing, and adds the value. A path
  that is too long subscripts a Python set (TypeError), one that is too short calls
  \<open>add\<close> on a dictionary (AttributeError).
\<close>

fun rt_set :: "'k path \<Rightarrow> 'v \<Rightarrow> ('k, 'v) rtree \<Rightarrow> ('k, 'v) rtree result" where
  "rt_set [] v (Leaf s) = Inr (Leaf (set_add v s))"
| "rt_set [] v (Node n d) = Inl AttributeError"
| "rt_set (k # ks) v (Leaf s) = Inl TypeError"
| "rt_set (k # ks) v (Node n d) =
     bind_result (rt_set ks v (rt_child n d k)) (\<lambda>t. Inr (Node n (AList.update k t d)))"

text \<open>
  \<open>delete\<close> traverses in the same way (the \<open>defaultdict\<close> again creates what is missing),
  discards the value and then walks the trace backwards: it stops at the first level whose
  dictionary holds the key, and deletes the key otherwise. The flag of the result says whether
  that walk has stopped.
\<close>

fun rt_delete :: "'k path \<Rightarrow> 'v \<Rightarrow> ('k, 'v) rtree \<Rightarrow> (('k, 'v) rtree \<times> bool) result" where
  "rt_delete [] v (Leaf s) = Inr (Leaf (set_discard v s), False)"
| "rt_delete [] v (Node n d) = Inl AttributeError"
| "rt_delete (k # ks) v (Leaf s) = Inl TypeError"
| "rt_delete (k # ks) v (Node n d) =
     bind_result (rt_delete ks v (rt_child n d k)) (\<lambda>(t, stopped).
       let d' = AList.update k t d in
       if stopped then Inr (Node n d', True)
       else if map_of d' k \<noteq> None then Inr (Node n d', True)
       else Inr (Node n (AList.delete k d'), False))"

definition rt_del :: "'k path \<Rightarrow> 'v \<Rightarrow> ('k, 'v) rtree \<Rightarrow> ('k, 'v) rtree result" where
  "rt_del ks v t = bind_result (rt_delete ks v t) (\<lambda>r. Inr (fst r))"

text \<open>
  \<open>get_all\<close>: one round per path segment over the list of current nodes, then the
  concatenation of the leaf sets that are left. A query shorter than the tree would iterate
  over dictionary keys; the model reports it as a TypeError, and \<open>radix_tree_refines_multimap\<close> below
  shows that it does not happen for a query of the tree's depth.
\<close>

fun rt_next :: "'k option \<Rightarrow> ('k, 'v) rtree \<Rightarrow> ('k, 'v) rtree list result" where
  "rt_next seg (Leaf s) = Inl (if seg = None then AttributeError else TypeError)"
| "rt_next seg (Node n d) =
     (if seg = None then Inr (dict_values d)
      else (case map_of d seg of Some t \<Rightarrow> Inr [t] | None \<Rightarrow> Inr []))"

definition rt_round ::
  "'k option \<Rightarrow> ('k, 'v) rtree list \<Rightarrow> ('k, 'v) rtree list result" where
  "rt_round seg nodes =
     for_each (\<lambda>node acc. bind_result (rt_next seg node) (\<lambda>ts. Inr (acc @ ts))) nodes []"

fun rt_leaf :: "('k, 'v) rtree \<Rightarrow> 'v list result" where
  "rt_leaf (Leaf s) = Inr s"
| "rt_leaf (Node n d) = Inl TypeError"

definition rt_chain :: "('k, 'v) rtree list \<Rightarrow> 'v list result" where
  "rt_chain nodes =
     for_each (\<lambda>node acc. bind_result (rt_leaf node) (\<lambda>vs. Inr (acc @ vs))) nodes []"

definition rt_get_all :: "'k path \<Rightarrow> ('k, 'v) rtree \<Rightarrow> 'v list result" where
  "rt_get_all q t = bind_result (for_each rt_round q [t]) rt_chain"

section \<open>Well-formed trees and what they store\<close>

fun rt_wf :: "nat \<Rightarrow> ('k, 'v) rtree \<Rightarrow> bool" where
  "rt_wf 0 (Leaf s) = distinct s"
| "rt_wf (Suc n) (Node m d) = (m = n \<and> wf_dict d \<and> (\<forall>p\<in>set d. rt_wf n (snd p)))"
| "rt_wf _ _ = False"

fun rt_at :: "'k path \<Rightarrow> ('k, 'v) rtree \<Rightarrow> 'v list" where
  "rt_at [] (Leaf s) = s"
| "rt_at (k # ks) (Node n d) = (case map_of d k of Some t \<Rightarrow> rt_at ks t | None \<Rightarrow> [])"
| "rt_at _ _ = []"

definition rt_content :: "('k, 'v) rtree \<Rightarrow> ('k path \<times> 'v) set" where
  "rt_content t = {(p, v). v \<in> set (rt_at p t)}"

text \<open>A query segment matches a stored one when it is the wildcard or equal to it.\<close>

definition seg_matches :: "'k option \<Rightarrow> 'k option \<Rightarrow> bool" where
  "seg_matches q s \<longleftrightarrow> q = None \<or> q = s"

definition path_matches :: "'k path \<Rightarrow> 'k path \<Rightarrow> bool" where
  "path_matches q p \<longleftrightarrow> list_all2 seg_matches q p"

text \<open>A level whose dictionary holds every key of the path, down to the leaf.\<close>

fun rt_has_path :: "'k path \<Rightarrow> ('k, 'v) rtree \<Rightarrow> bool" where
  "rt_has_path [] t = True"
| "rt_has_path (k # ks) (Node n d) =
     (case map_of d k of Some t \<Rightarrow> rt_has_path ks t | None \<Rightarrow> False)"
| "rt_has_path (k # ks) (Leaf s) = False"

lemma rt_wf_empty [simp]: "rt_wf n (rt_empty n)"
  by (cases n) simp_all

lemma rt_at_empty [simp]: "rt_at p (rt_empty n) = []"
  by (cases n; cases p) simp_all

lemma rt_at_Leaf: "rt_at p (Leaf s) = (if p = [] then s else [])"
  by (cases p) simp_all

lemma rt_wf_0E:
  assumes "rt_wf 0 t" obtains s where "t = Leaf s" "distinct s"
  using assms by (cases t) auto

lemma rt_wf_child: "\<forall>p\<in>set d. rt_wf n (snd p) \<Longrightarrow> rt_wf n (rt_child n d k)"
  by (auto simp: rt_child_def split: option.splits dest!: map_of_SomeD)

lemma rt_at_child:
  "rt_at (k # ks) (Node n d) = rt_at ks (rt_child n d k)"
  by (simp add: rt_child_def split: option.splits)

lemma rt_wf_update:
  assumes "wf_dict d" "\<forall>p\<in>set d. rt_wf n (snd p)" "rt_wf n t"
  shows "rt_wf (Suc n) (Node n (AList.update k t d))"
  using assms by (auto simp: set_update_wf)

lemma rt_child_update [simp]:
  "rt_child n (AList.update k t d) k' = (if k' = k then t else rt_child n d k')"
  by (simp add: rt_child_def)

section \<open>Insertion and deletion\<close>

text \<open>
  Both operations change one leaf along a path and nothing else. \<open>rt_modify\<close> says so
  with the change as a parameter; \<open>set\<close> and \<open>delete\<close> are instances of it. For
  \<open>delete\<close> this also shows that the backward walk never removes a key.
\<close>

fun rt_modify :: "('v list \<Rightarrow> 'v list) \<Rightarrow> 'k path \<Rightarrow> ('k, 'v) rtree \<Rightarrow> ('k, 'v) rtree result" where
  "rt_modify f [] (Leaf s) = Inr (Leaf (f s))"
| "rt_modify f [] (Node n d) = Inl AttributeError"
| "rt_modify f (k # ks) (Leaf s) = Inl TypeError"
| "rt_modify f (k # ks) (Node n d) =
     bind_result (rt_modify f ks (rt_child n d k)) (\<lambda>t. Inr (Node n (AList.update k t d)))"

lemma rt_set_modify: "rt_set p v t = rt_modify (set_add v) p t"
  by (induction "set_add v" p t rule: rt_modify.induct) simp_all

lemma rt_delete_modify:
  "rt_delete p v t =
     bind_result (rt_modify (set_discard v) p t) (\<lambda>t'. Inr (t', p \<noteq> []))"
proof (induction p v t rule: rt_delete.induct)
  case (4 k ks v n d)
  then show ?case
    by (cases "rt_modify (set_discard v) ks (rt_child n d k)") (simp_all add: Let_def)
qed simp_all

lemma rt_del_modify: "rt_del p v t = rt_modify (set_discard v) p t"
  by (cases "rt_modify (set_discard v) p t") (simp_all add: rt_del_def rt_delete_modify)

lemma rt_modify_correct:
  assumes "rt_wf n t" "length p = n" "\<And>s. distinct s \<Longrightarrow> distinct (f s)"
  shows "\<exists>t'. rt_modify f p t = Inr t' \<and> rt_wf n t' \<and>
    (\<forall>p'. rt_at p' t' = (if p' = p then f (rt_at p t) else rt_at p' t))"
  using assms(1,2)
proof (induction n arbitrary: t p)
  case 0
  then obtain s where "t = Leaf s" "distinct s" "p = []" by (auto elim!: rt_wf_0E)
  then show ?case using assms(3) by (simp add: rt_at_Leaf)
next
  case (Suc n)
  from Suc.prems(2) obtain k ks where p: "p = k # ks" "length ks = n"
    by (cases p) auto
  from Suc.prems(1) obtain d where t: "t = Node n d" and wd: "wf_dict d"
      and wt: "\<forall>q\<in>set d. rt_wf n (snd q)"
    by (cases t) auto
  from Suc.IH [OF rt_wf_child [OF wt, of k] p(2)] obtain u where
    u: "rt_modify f ks (rt_child n d k) = Inr u" "rt_wf n u"
       "\<And>p'. rt_at p' u = (if p' = ks then f (rt_at ks (rt_child n d k))
                           else rt_at p' (rt_child n d k))"
    by blast
  have "rt_at p' (Node n (AList.update k u d)) =
      (if p' = p then f (rt_at p t) else rt_at p' t)" for p'
    using p t u(3) by (cases p') (simp_all add: rt_at_child del: rt_at.simps(2))
  moreover have "rt_wf (Suc n) (Node n (AList.update k u d))"
    by (rule rt_wf_update [OF wd wt u(2)])
  ultimately show ?case using p t u(1) by auto
qed

lemma rt_modify_keeps_path: "rt_modify f p t = Inr t' \<Longrightarrow> rt_has_path p t'"
  by (induction f p t arbitrary: t' rule: rt_modify.induct)
     (auto simp: bind_result_Inr_iff)

section \<open>Queries\<close>

text \<open>The rounds of \<open>get_all\<close>, on trees whose depth is what the query still has.\<close>

lemma for_each_collect:
  "(\<And>x. x \<in> set xs \<Longrightarrow> g x = Inr (h x)) \<Longrightarrow>
   for_each (\<lambda>x acc. bind_result (g x) (\<lambda>ys. Inr (acc @ ys))) xs acc =
   Inr (acc @ concat (map h xs))"
  by (induction xs arbitrary: acc) simp_all

definition rt_children :: "'k option \<Rightarrow> ('k, 'v) rtree \<Rightarrow> ('k, 'v) rtree list" where
  "rt_children seg t = (case rt_next seg t of Inr ts \<Rightarrow> ts | Inl _ \<Rightarrow> [])"

lemma rt_next_wf:
  assumes "rt_wf (Suc n) t"
  shows "rt_next seg t = Inr (rt_children seg t)"
    and "\<forall>u\<in>set (rt_children seg t). rt_wf n u"
    and "v \<in> set (rt_at (k # p) t) \<Longrightarrow> seg_matches seg k \<Longrightarrow>
         \<exists>u\<in>set (rt_children seg t). v \<in> set (rt_at p u)"
    and "u \<in> set (rt_children seg t) \<Longrightarrow>
         \<exists>k. seg_matches seg k \<and> (\<forall>p. rt_at (k # p) t = rt_at p u)"
proof -
  from assms obtain d where t: "t = Node n d" and wd: "wf_dict d"
      and wt: "\<forall>q\<in>set d. rt_wf n (snd q)"
    by (cases t) auto
  show "rt_next seg t = Inr (rt_children seg t)"
    by (simp add: t rt_children_def split: option.splits)
  show "\<forall>u\<in>set (rt_children seg t). rt_wf n u"
    using wt by (auto simp: t rt_children_def split: option.splits dest!: map_of_SomeD)
  show "\<exists>u\<in>set (rt_children seg t). v \<in> set (rt_at p u)"
    if v: "v \<in> set (rt_at (k # p) t)" and m: "seg_matches seg k"
  proof -
    from v obtain u where u: "map_of d k = Some u" "v \<in> set (rt_at p u)"
      by (cases "map_of d k") (simp_all add: t)
    moreover from u(1) have "u \<in> set (dict_values d)" by (force dest: map_of_SomeD)
    ultimately have "u \<in> set (rt_children seg t)"
      using m by (auto simp: t rt_children_def seg_matches_def)
    then show ?thesis using u(2) by blast
  qed
  show "\<exists>k. seg_matches seg k \<and> (\<forall>p. rt_at (k # p) t = rt_at p u)"
    if "u \<in> set (rt_children seg t)"
  proof -
    from that obtain k where "map_of d k = Some u" "seg_matches seg k"
      by (auto simp: t rt_children_def seg_matches_def wf_dict_map_of_iff [OF wd]
          split: if_splits option.splits)
    then show ?thesis by (auto simp: t intro!: exI [of _ k])
  qed
qed

lemma rt_round_wf:
  "\<forall>t\<in>set ts. rt_wf (Suc n) t \<Longrightarrow> rt_round seg ts = Inr (concat (map (rt_children seg) ts))"
  unfolding rt_round_def
  by (subst for_each_collect [where h = "rt_children seg"]) (auto intro: rt_next_wf(1))

lemma rt_chain_leaves:
  "\<forall>t\<in>set ts. rt_wf 0 t \<Longrightarrow> rt_chain ts = Inr (concat (map (rt_at []) ts))"
  unfolding rt_chain_def
  by (subst for_each_collect [where h = "rt_at []"]) (auto dest: bspec elim!: rt_wf_0E)

lemma rt_rounds_correct:
  assumes "\<forall>t\<in>set ts. rt_wf (length q) t"
  shows "\<exists>vs. bind_result (for_each rt_round q ts) rt_chain = Inr vs \<and>
    set vs = {v. \<exists>t\<in>set ts. \<exists>p. path_matches q p \<and> v \<in> set (rt_at p t)}"
  using assms
proof (induction q arbitrary: ts)
  case Nil
  then show ?case by (auto simp: rt_chain_leaves path_matches_def)
next
  case (Cons seg q)
  let ?us = "concat (map (rt_children seg) ts)"
  have wf: "\<forall>t\<in>set ts. rt_wf (Suc (length q)) t" using Cons.prems by simp
  have "\<forall>u\<in>set ?us. rt_wf (length q) u"
    using wf rt_next_wf(2) by fastforce
  from Cons.IH [OF this] obtain vs where
    vs: "bind_result (for_each rt_round q ?us) rt_chain = Inr vs"
        "set vs = {v. \<exists>t\<in>set ?us. \<exists>p. path_matches q p \<and> v \<in> set (rt_at p t)}"
    by blast
  have "(\<exists>u\<in>set ?us. \<exists>p. path_matches q p \<and> v \<in> set (rt_at p u)) \<longleftrightarrow>
      (\<exists>t\<in>set ts. \<exists>p. path_matches (seg # q) p \<and> v \<in> set (rt_at p t))" (is "?L = ?R") for v
  proof
    assume ?L
    then obtain t u p where u: "t \<in> set ts" "u \<in> set (rt_children seg t)"
      "path_matches q p" "v \<in> set (rt_at p u)" by auto
    from rt_next_wf(4) [OF bspec [OF wf u(1)] u(2)] obtain k
      where "seg_matches seg k" "\<forall>p. rt_at (k # p) t = rt_at p u" by blast
    then show ?R using u
      by (intro bexI [of _ t] exI [of _ "k # p"]) (auto simp: path_matches_def)
  next
    assume ?R
    then obtain t k p where t: "t \<in> set ts" "seg_matches seg k" "path_matches q p"
      "v \<in> set (rt_at (k # p) t)"
      by (auto simp: path_matches_def list_all2_Cons1)
    from rt_next_wf(3) [OF bspec [OF wf t(1)] t(4,2)] show ?L using t by auto
  qed
  then show ?case using vs rt_round_wf [OF wf] by simp
qed

section \<open>The interface\<close>

text \<open>
  A multimap with wildcard queries: \<open>holds n\<close> is the invariant of a structure for paths of
  length \<open>n\<close>, \<open>content\<close> the pairs it stores. The client lemma is what an index needs when
  an object changes: adding the new keys and deleting the stale ones.
\<close>

locale wild_multimap =
  fixes ins :: "'k path \<Rightarrow> 'v \<Rightarrow> 't \<Rightarrow> 't result"
    and del :: "'k path \<Rightarrow> 'v \<Rightarrow> 't \<Rightarrow> 't result"
    and query :: "'k path \<Rightarrow> 't \<Rightarrow> 'v list result"
    and content :: "'t \<Rightarrow> ('k path \<times> 'v) set"
    and holds :: "nat \<Rightarrow> 't \<Rightarrow> bool"
  assumes ins_law: "holds n t \<Longrightarrow> length p = n \<Longrightarrow>
      \<exists>t'. ins p v t = Inr t' \<and> holds n t' \<and> content t' = insert (p, v) (content t)"
    and del_law: "holds n t \<Longrightarrow> length p = n \<Longrightarrow>
      \<exists>t'. del p v t = Inr t' \<and> holds n t' \<and> content t' = content t - {(p, v)}"
    and query_law: "holds n t \<Longrightarrow> length q = n \<Longrightarrow>
      \<exists>vs. query q t = Inr vs \<and>
        set vs = {v. \<exists>p. path_matches q p \<and> (p, v) \<in> content t}"
begin

lemma ins_all:
  assumes "holds n t" "\<forall>p\<in>set ps. length p = n"
  shows "\<exists>t'. for_each (\<lambda>p. ins p v) ps t = Inr t' \<and> holds n t' \<and>
    content t' = content t \<union> (\<lambda>p. (p, v)) ` set ps"
  using assms
proof (induction ps arbitrary: t)
  case Nil
  then show ?case by simp
next
  case (Cons p ps)
  with ins_law [of n t p v] obtain u where
    u: "ins p v t = Inr u" "holds n u" "content u = insert (p, v) (content t)" by auto
  with Cons.IH [OF u(2)] Cons.prems(2) show ?case by auto
qed

lemma del_all:
  assumes "holds n t" "\<forall>p\<in>set ps. length p = n"
  shows "\<exists>t'. for_each (\<lambda>p. del p v) ps t = Inr t' \<and> holds n t' \<and>
    content t' = content t - (\<lambda>p. (p, v)) ` set ps"
  using assms
proof (induction ps arbitrary: t)
  case Nil
  then show ?case by simp
next
  case (Cons p ps)
  with del_law [of n t p v] obtain u where
    u: "del p v t = Inr u" "holds n u" "content u = content t - {(p, v)}" by auto
  with Cons.IH [OF u(2)] Cons.prems(2) show ?case by auto
qed

lemma replace_keys:
  assumes "holds n t" "\<forall>p\<in>set new. length p = n" "\<forall>p\<in>set old. length p = n"
  shows "\<exists>t'. bind_result (for_each (\<lambda>p. ins p v) (set_diff new old) t)
       (for_each (\<lambda>p. del p v) (set_diff old new)) = Inr t' \<and> holds n t' \<and>
     content t' = (content t \<union> (\<lambda>p. (p, v)) ` (set new - set old)) -
       (\<lambda>p. (p, v)) ` (set old - set new)"
proof -
  from ins_all [of n t "set_diff new old" v] assms obtain u where
    u: "for_each (\<lambda>p. ins p v) (set_diff new old) t = Inr u" "holds n u"
       "content u = content t \<union> (\<lambda>p. (p, v)) ` (set new - set old)" by auto
  from del_all [OF u(2), of "set_diff old new" v] assms(3) u(1,3) show ?thesis by auto
qed

end

lemma rt_set_content:
  assumes "rt_wf n t" "length p = n"
  shows "\<exists>t'. rt_set p v t = Inr t' \<and> rt_wf n t' \<and>
    rt_content t' = insert (p, v) (rt_content t)"
proof -
  from rt_modify_correct [OF assms, of "set_add v"] obtain t' where
    "rt_modify (set_add v) p t = Inr t'" "rt_wf n t'"
    "\<forall>p'. rt_at p' t' = (if p' = p then set_add v (rt_at p t) else rt_at p' t)" by auto
  then show ?thesis
    by (auto simp: rt_set_modify rt_content_def split: if_splits)
qed

lemma rt_del_content:
  assumes "rt_wf n t" "length p = n"
  shows "\<exists>t'. rt_del p v t = Inr t' \<and> rt_wf n t' \<and>
    rt_content t' = rt_content t - {(p, v)}"
proof -
  from rt_modify_correct [OF assms, of "set_discard v"] obtain t' where
    "rt_modify (set_discard v) p t = Inr t'" "rt_wf n t'"
    "\<forall>p'. rt_at p' t' = (if p' = p then set_discard v (rt_at p t) else rt_at p' t)" by auto
  then show ?thesis
    by (auto simp: rt_del_modify rt_content_def split: if_splits)
qed

interpretation radix: wild_multimap rt_set rt_del rt_get_all rt_content rt_wf
proof (unfold_locales, goal_cases)
  case (1 n t p v)
  then show ?case by (rule rt_set_content)
next
  case (2 n t p v)
  then show ?case by (rule rt_del_content)
next
  case (3 n t q)
  then show ?case
    using rt_rounds_correct [of "[t]" q] by (auto simp: rt_get_all_def rt_content_def)
qed

section \<open>Properties\<close>

text \<open>The operations as data, and what a sequence of them stores.\<close>

datatype ('k, 'v) rt_op = RtSet "'k path" 'v | RtDelete "'k path" 'v

fun rt_op_path :: "('k, 'v) rt_op \<Rightarrow> 'k path" where
  "rt_op_path (RtSet p v) = p"
| "rt_op_path (RtDelete p v) = p"

fun rt_apply :: "('k, 'v) rt_op \<Rightarrow> ('k, 'v) rtree \<Rightarrow> ('k, 'v) rtree result" where
  "rt_apply (RtSet p v) t = rt_set p v t"
| "rt_apply (RtDelete p v) t = rt_del p v t"

fun spec_apply :: "('k, 'v) rt_op \<Rightarrow> ('k path \<times> 'v) set \<Rightarrow> ('k path \<times> 'v) set" where
  "spec_apply (RtSet p v) c = insert (p, v) c"
| "spec_apply (RtDelete p v) c = c - {(p, v)}"

lemma rt_apply_refines:
  assumes "rt_wf n t" "\<forall>x\<in>set ops. length (rt_op_path x) = n"
  shows "\<exists>t'. for_each rt_apply ops t = Inr t' \<and> rt_wf n t' \<and>
    rt_content t' = fold spec_apply ops (rt_content t)"
  using assms
proof (induction ops arbitrary: t)
  case Nil
  then show ?case by simp
next
  case (Cons x ops)
  have "\<exists>u. rt_apply x t = Inr u \<and> rt_wf n u \<and> rt_content u = spec_apply x (rt_content t)"
    using Cons.prems radix.ins_law [of n t] radix.del_law [of n t] by (cases x) auto
  then obtain u where u: "rt_apply x t = Inr u" "rt_wf n u"
    "rt_content u = spec_apply x (rt_content t)" by blast
  from Cons.IH [OF u(2)] Cons.prems(2) u show ?case by auto
qed

text \<open>
  C29. The tree refines a multimap with wildcard queries: after any sequence of insertions and
  deletions from the empty tree, none of which raises, \<open>get_all\<close> returns exactly the
  values that the sequence left under the paths the query matches, the wildcard matching any
  segment.
\<close>

theorem radix_tree_refines_multimap:
  assumes "\<forall>x\<in>set ops. length (rt_op_path x) = n" "length q = n"
  shows "\<exists>t vs. for_each rt_apply ops (rt_empty n) = Inr t \<and> rt_get_all q t = Inr vs \<and>
    set vs = {v. \<exists>p. path_matches q p \<and> (p, v) \<in> fold spec_apply ops {}}"
proof -
  from rt_apply_refines [OF rt_wf_empty assms(1)] obtain t where
    t: "for_each rt_apply ops (rt_empty n) = Inr t" "rt_wf n t"
       "rt_content t = fold spec_apply ops {}"
    by (auto simp: rt_content_def)
  from radix.query_law [OF t(2) assms(2)] t show ?thesis by auto
qed

theorem radix_tree_refines_multimap_witness:
  "\<exists>t vs. for_each rt_apply [RtSet [Some 1, None] 7, RtSet [Some 2, Some 3] 8,
        RtDelete [Some 1, None] (7::nat)] (rt_empty 2) = Inr t \<and>
     rt_get_all [None, Some (3::nat)] t = Inr vs \<and> set vs = {8}"
proof -
  let ?ops = "[RtSet [Some 1, None] 7, RtSet [Some 2, Some 3] 8,
    RtDelete [Some 1, None] (7::nat)] :: (nat, nat) rt_op list"
  have eq: "{v. \<exists>p. path_matches [None, Some (3::nat)] p \<and> (p, v) \<in> fold spec_apply ?ops {}} = {8}"
    by (auto simp: path_matches_def seg_matches_def)
  from radix_tree_refines_multimap [of ?ops 2 "[None, Some 3]"] show ?thesis
    unfolding eq by simp
qed

text \<open>
  Deletion never shrinks the tree: whatever it discards, every dictionary along the path
  still holds the path's key afterwards, even when the leaf set is now empty. The comment in
  \<open>delete\<close> announces the opposite, that empty dictionaries are cleaned up.
\<close>

theorem radix_tree_delete_never_prunes:
  assumes "rt_delete p v t = Inr (t', stopped)"
  shows "rt_has_path p t' \<and> stopped = (p \<noteq> [])"
  using assms by (auto simp: rt_delete_modify bind_result_Inr_iff dest: rt_modify_keeps_path)

theorem radix_tree_delete_never_prunes_witness:
  "\<exists>t. rt_delete [Some 1] (7::nat) (Node 0 [(Some (1::nat), Leaf [7])]) = Inr (t, True) \<and>
     rt_has_path [Some 1] t \<and> rt_at [Some 1] t = []"
  using radix_tree_delete_never_prunes
    [of "[Some 1]" "7::nat" "Node 0 [(Some (1::nat), Leaf [7])]" "Node 0 [(Some 1, Leaf [])]" True]
  by (simp add: rt_child_def set_discard_def)

end
