(* ===== verification/Db_Store.thy ===== *)
theory Db_Store
  imports Radix_Tree Model_Framework
begin

text \<open>
  The controller's in-memory object cache, \<open>dragonflow/db/db_store.py\<close>, with the model
  proxies of \<open>dragonflow/db/model_proxy.py\<close> that read from it. An index cache keeps, for
  one index of one model, the keys of every object in a radix tree; a model cache keeps the
  objects of one model with its index caches; the store keeps a model cache per model, and the
  embedded objects with their owners.

  A proxy is read through the store (\<open>py_getattr\<close>): the code keeps the fetched object in
  the proxy and fetches again once the store has marked it stale, which it does whenever it
  replaces or removes an object. Query methods create an empty cache for a model that has none;
  the model leaves the store as it is, since an empty cache and a missing one answer alike.
\<close>

section \<open>Attributes through proxies\<close>

type_synonym deref = "string \<Rightarrow> string \<Rightarrow> pyval option"

definition py_getattr :: "class_table \<Rightarrow> deref \<Rightarrow> pyval \<Rightarrow> string \<Rightarrow> pyval result" where
  "py_getattr ct deref v name =
     (case v of
        PObj c fs \<Rightarrow>
          (case map_of ct c of None \<Rightarrow> Inl AttributeError | Some d \<Rightarrow> read_field d fs name)
      | PRef m i \<Rightarrow>
          if name = ''id'' then Inr (PStr i)
          else (case deref m i of
                  None \<Rightarrow> Inl (ReferencedObjectNotFound m i)
                | Some (PObj c fs) \<Rightarrow>
                    (case map_of ct c of None \<Rightarrow> Inl AttributeError | Some d \<Rightarrow> read_field d fs name)
                | Some w \<Rightarrow> Inl AttributeError)
      | _ \<Rightarrow> Inl AttributeError)"

definition obj_id :: "pyval \<Rightarrow> string result" where
  "obj_id v =
     (case v of
        PObj c fs \<Rightarrow>
          (case map_of fs ''id'' of Some (PStr i) \<Rightarrow> Inr i | _ \<Rightarrow> Inl ValidationError)
      | PRef m i \<Rightarrow> Inr i
      | _ \<Rightarrow> Inl AttributeError)"

definition obj_class :: "pyval \<Rightarrow> string" where
  "obj_class v = (case v of PObj c fs \<Rightarrow> c | PRef m i \<Rightarrow> m | _ \<Rightarrow> [])"

section \<open>Index caches\<close>

record index_cache =
  ic_index :: "string list"
  ic_tree :: "(pyval, string) rtree"
  ic_keys :: "(string, pyval path list) dict"

definition new_index_cache :: "string list \<Rightarrow> index_cache" where
  "new_index_cache index =
     \<lparr>ic_index = index, ic_tree = rt_empty (length index), ic_keys = []\<rparr>"

text \<open>\<open>key_element.split('.')\<close>\<close>

fun split_dots :: "string \<Rightarrow> string list" where
  "split_dots [] = [[]]"
| "split_dots (c # cs) =
     (if c = CHR ''.'' then [] # split_dots cs
      else (case split_dots cs of [] \<Rightarrow> [[c]] | w # ws \<Rightarrow> (c # w) # ws))"

text \<open>
  One step of \<open>_get_key_element\<close>: the attribute of every node, lists flattened, an absent
  value noted as missing.
\<close>

definition key_step ::
  "class_table \<Rightarrow> deref \<Rightarrow> string \<Rightarrow> pyval list \<times> bool \<Rightarrow> (pyval list \<times> bool) result" where
  "key_step ct deref p = (\<lambda>(nodes, missing).
     for_each (\<lambda>node (new_nodes, missing).
       bind_result (py_getattr ct deref node p) (\<lambda>attr.
         (case attr of
            PList ws \<Rightarrow> Inr (new_nodes @ ws, missing)
          | PNone \<Rightarrow> Inr (new_nodes, True)
          | w \<Rightarrow> Inr (new_nodes @ [w], missing)))) nodes ([], missing))"

definition as_key :: "pyval \<Rightarrow> pyval option" where
  "as_key v = (if v = PNone then None else Some v)"

definition get_key_element ::
  "class_table \<Rightarrow> deref \<Rightarrow> pyval \<Rightarrow> string \<Rightarrow> pyval option list result" where
  "get_key_element ct deref obj key_element =
     bind_result (for_each (key_step ct deref) (split_dots key_element) ([obj], False))
       (\<lambda>(nodes, missing).
          Inr (remdups (map as_key nodes @ (if missing then [None] else []))))"

definition ic_get_keys ::
  "class_table \<Rightarrow> deref \<Rightarrow> string list \<Rightarrow> pyval \<Rightarrow> pyval path list result" where
  "ic_get_keys ct deref index obj =
     bind_result
       (for_each (\<lambda>f keys. bind_result (get_key_element ct deref obj f)
                             (\<lambda>values. Inr (keys @ [values]))) index [])
       (\<lambda>keys. Inr (product_lists keys))"

definition ic_delete :: "pyval \<Rightarrow> index_cache \<Rightarrow> index_cache result" where
  "ic_delete obj ic =
     bind_result (obj_id obj) (\<lambda>i.
       (case map_of (ic_keys ic) i of
          None \<Rightarrow> Inl KeyError
        | Some keys \<Rightarrow>
            bind_result (for_each (\<lambda>key. rt_del key i) keys (ic_tree ic)) (\<lambda>t.
              Inr (ic\<lparr>ic_tree := t, ic_keys := AList.delete i (ic_keys ic)\<rparr>))))"

definition ic_update :: "class_table \<Rightarrow> deref \<Rightarrow> pyval \<Rightarrow> index_cache \<Rightarrow> index_cache result" where
  "ic_update ct deref obj ic =
     bind_result (ic_get_keys ct deref (ic_index ic) obj) (\<lambda>new_keys.
     bind_result (obj_id obj) (\<lambda>i.
       let old_keys = (case map_of (ic_keys ic) i of Some ks \<Rightarrow> ks | None \<Rightarrow> []);
           added_keys = set_diff new_keys old_keys;
           deleted_keys = set_diff old_keys new_keys
       in bind_result
            (bind_result (for_each (\<lambda>key. rt_set key i) added_keys (ic_tree ic))
               (for_each (\<lambda>key. rt_del key i) deleted_keys))
            (\<lambda>t. Inr (ic\<lparr>ic_tree := t, ic_keys := AList.update i new_keys (ic_keys ic)\<rparr>))))"

definition ic_get_all :: "class_table \<Rightarrow> deref \<Rightarrow> pyval \<Rightarrow> index_cache \<Rightarrow> string list result" where
  "ic_get_all ct deref obj ic =
     bind_result (ic_get_keys ct deref (ic_index ic) obj) (\<lambda>keys.
       for_each (\<lambda>key ids. bind_result (rt_get_all key (ic_tree ic))
                             (\<lambda>vs. Inr (ids @ vs))) keys [])"

section \<open>Model caches\<close>

record model_cache =
  mc_objs :: "(string, pyval) dict"
  mc_indexes :: "(string list, index_cache) dict"

definition id_index :: "string list" where
  "id_index = [''id'']"

definition new_model_cache :: "class_table \<Rightarrow> string \<Rightarrow> model_cache" where
  "new_model_cache ct model =
     \<lparr>mc_objs = [],
      mc_indexes =
        (case map_of ct model of
           None \<Rightarrow> []
         | Some d \<Rightarrow>
             fold (\<lambda>(name, index) ixs.
                     if index = id_index then ixs
                     else AList.update index (new_index_cache index) ixs) (get_indexes d) [])\<rparr>"

text \<open>
  The loop over \<open>self._indexes.values()\<close>, which changes each index cache in turn: an
  exception leaves the caches before it changed.
\<close>

fun each_index ::
  "(index_cache \<Rightarrow> index_cache result) \<Rightarrow> (string list, index_cache) dict \<Rightarrow>
   (string list, index_cache) dict outcome" where
  "each_index f [] = (None, [])"
| "each_index f ((index, ic) # ixs) =
     (case f ic of
        Inl e \<Rightarrow> (Some e, (index, ic) # ixs)
      | Inr ic' \<Rightarrow> (case each_index f ixs of (err, ixs') \<Rightarrow> (err, (index, ic') # ixs')))"

definition mc_delete :: "pyval \<Rightarrow> model_cache \<Rightarrow> model_cache outcome" where
  "mc_delete obj mc =
     (case each_index (ic_delete obj) (mc_indexes mc) of (err, ixs) \<Rightarrow>
       and_then (err, mc\<lparr>mc_indexes := ixs\<rparr>)
         (with_value (obj_id obj) (\<lambda>i mc.
            if map_of (mc_objs mc) i = None then (Some KeyError, mc)
            else (None, mc\<lparr>mc_objs := AList.delete i (mc_objs mc)\<rparr>))))"

definition mc_update :: "class_table \<Rightarrow> deref \<Rightarrow> pyval \<Rightarrow> model_cache \<Rightarrow> model_cache outcome" where
  "mc_update ct deref obj mc =
     (case each_index (ic_update ct deref obj) (mc_indexes mc) of (err, ixs) \<Rightarrow>
       and_then (err, mc\<lparr>mc_indexes := ixs\<rparr>)
         (with_value (obj_id obj) (\<lambda>i mc.
            (None, mc\<lparr>mc_objs := AList.update i obj (mc_objs mc)\<rparr>))))"

definition mc_get_keys ::
  "class_table \<Rightarrow> deref \<Rightarrow> pyval \<Rightarrow> string list option \<Rightarrow> model_cache \<Rightarrow> string list result" where
  "mc_get_keys ct deref obj index mc =
     (case index of
        None \<Rightarrow> Inr (dict_keys (mc_objs mc))
      | Some ix \<Rightarrow>
          if ix = [''id''] then bind_result (obj_id obj) (\<lambda>i. Inr [i])
          else (case map_of (mc_indexes mc) ix of
                  None \<Rightarrow> Inl KeyError
                | Some ic \<Rightarrow> ic_get_all ct deref obj ic))"

definition mc_get_by_id :: "string \<Rightarrow> model_cache \<Rightarrow> pyval result" where
  "mc_get_by_id i mc = (case map_of (mc_objs mc) i of None \<Rightarrow> Inl KeyError | Some v \<Rightarrow> Inr v)"

definition mc_get_one ::
  "class_table \<Rightarrow> deref \<Rightarrow> pyval \<Rightarrow> string list option \<Rightarrow> model_cache \<Rightarrow> pyval option result" where
  "mc_get_one ct deref obj index mc =
     bind_result
       (if index \<notin> {None, Some id_index} then
          bind_result (mc_get_keys ct deref obj index mc) (\<lambda>keys.
            (case keys of
               [] \<Rightarrow> Inr None
             | i # rest \<Rightarrow> if rest \<noteq> [] then Inl ValueError else Inr (Some i)))
        else bind_result (obj_id obj) (\<lambda>i. Inr (Some i)))
       (\<lambda>i. Inr (case i of
                   None \<Rightarrow> None
                 | Some i \<Rightarrow> (case mc_get_by_id i mc of Inr v \<Rightarrow> Some v | Inl e \<Rightarrow> None)))"

definition mc_get_all ::
  "class_table \<Rightarrow> deref \<Rightarrow> pyval \<Rightarrow> string list option \<Rightarrow> model_cache \<Rightarrow> pyval list result" where
  "mc_get_all ct deref obj index mc =
     bind_result (mc_get_keys ct deref obj index mc) (\<lambda>ids.
       for_each (\<lambda>i objs. bind_result (mc_get_by_id i mc) (\<lambda>v. Inr (objs @ [v]))) ids [])"

section \<open>The store\<close>

type_synonym obj_key = "string \<times> string"

record db_store =
  ds_cache :: "(string, model_cache) dict"
  ds_obj_to_embedded :: "(obj_key, obj_key list) dict"
  ds_embedded_refs :: "(obj_key, obj_key list) dict"

definition empty_store :: db_store where
  "empty_store = \<lparr>ds_cache = [], ds_obj_to_embedded = [], ds_embedded_refs = []\<rparr>"

definition ds_get_cache :: "class_table \<Rightarrow> string \<Rightarrow> db_store \<Rightarrow> model_cache" where
  "ds_get_cache ct model s =
     (case map_of (ds_cache s) model of Some mc \<Rightarrow> mc | None \<Rightarrow> new_model_cache ct model)"

text \<open>What a proxy fetches: \<open>get_one\<close> by id.\<close>

definition ds_deref :: "db_store \<Rightarrow> deref" where
  "ds_deref s m i =
     (case map_of (ds_cache s) m of None \<Rightarrow> None | Some mc \<Rightarrow> map_of (mc_objs mc) i)"

definition ds_obj_key :: "pyval \<Rightarrow> obj_key result" where
  "ds_obj_key obj = bind_result (obj_id obj) (\<lambda>i. Inr (obj_class obj, i))"

definition ds_get_one ::
  "class_table \<Rightarrow> pyval \<Rightarrow> string list option \<Rightarrow> db_store \<Rightarrow> pyval option result" where
  "ds_get_one ct obj index s =
     mc_get_one ct (ds_deref s) obj index (ds_get_cache ct (obj_class obj) s)"

definition ds_get_all ::
  "class_table \<Rightarrow> pyval \<Rightarrow> string list option \<Rightarrow> db_store \<Rightarrow> pyval list result" where
  "ds_get_all ct obj index s =
     mc_get_all ct (ds_deref s) obj index (ds_get_cache ct (obj_class obj) s)"

definition ds_get_keys ::
  "class_table \<Rightarrow> pyval \<Rightarrow> string list option \<Rightarrow> db_store \<Rightarrow> string list result" where
  "ds_get_keys ct obj index s =
     mc_get_keys ct (ds_deref s) obj index (ds_get_cache ct (obj_class obj) s)"

text \<open>A method of one model cache, inside the store.\<close>

definition on_cache ::
  "class_table \<Rightarrow> string \<Rightarrow> (model_cache \<Rightarrow> model_cache outcome) \<Rightarrow> db_store \<Rightarrow> db_store outcome" where
  "on_cache ct model f s =
     (case f (ds_get_cache ct model s) of
        (err, mc) \<Rightarrow> (err, s\<lparr>ds_cache := AList.update model mc (ds_cache s)\<rparr>))"

text \<open>
  \<open>delete\<close> and \<open>_delete_embedded\<close>, which call each other: \<open>_delete_embedded\<close> takes
  \<open>delete\<close> as an argument. Every call of \<open>delete\<close> takes the object's entry out of
  \<open>_obj_to_embedded\<close> and only then goes deeper, so the depth is at most the number of
  entries; that is the fuel.
\<close>

definition delete_embedded_with ::
  "(pyval \<Rightarrow> db_store \<Rightarrow> db_store outcome) \<Rightarrow> obj_key \<Rightarrow> obj_key \<Rightarrow> db_store \<Rightarrow> db_store outcome" where
  "delete_embedded_with delete okey ekey s =
     (let refs = set_discard okey
            (case map_of (ds_embedded_refs s) ekey of Some rs \<Rightarrow> rs | None \<Rightarrow> []);
          s = s\<lparr>ds_embedded_refs := AList.update ekey refs (ds_embedded_refs s)\<rparr>
      in if refs = [] then
           and_then (delete (PObj (fst ekey) [(''id'', PStr (snd ekey))]) s)
             (\<lambda>s. if map_of (ds_embedded_refs s) ekey = None then (Some KeyError, s)
                  else (None, s\<lparr>ds_embedded_refs := AList.delete ekey (ds_embedded_refs s)\<rparr>))
         else (None, s))"

primrec ds_delete_fuel :: "nat \<Rightarrow> class_table \<Rightarrow> pyval \<Rightarrow> db_store \<Rightarrow> db_store outcome" where
  "ds_delete_fuel 0 ct obj s = (Some FuelExhausted, s)"
| "ds_delete_fuel (Suc fuel) ct obj s =
     with_value (ds_obj_key obj) (\<lambda>okey s.
       let subobj_keys = (case map_of (ds_obj_to_embedded s) okey of Some ks \<Rightarrow> ks | None \<Rightarrow> [])
       in and_then
            (run_each (delete_embedded_with (ds_delete_fuel fuel ct) okey) subobj_keys
               (s\<lparr>ds_obj_to_embedded := AList.delete okey (ds_obj_to_embedded s)\<rparr>))
            (on_cache ct (obj_class obj) (mc_delete obj))) s"

definition ds_delete :: "class_table \<Rightarrow> pyval \<Rightarrow> db_store \<Rightarrow> db_store outcome" where
  "ds_delete ct obj s = ds_delete_fuel (Suc (length (ds_obj_to_embedded s))) ct obj s"

definition ds_delete_embedded ::
  "class_table \<Rightarrow> obj_key \<Rightarrow> obj_key \<Rightarrow> db_store \<Rightarrow> db_store outcome" where
  "ds_delete_embedded ct = delete_embedded_with (ds_delete ct)"

text \<open>\<open>update\<close> and \<open>_update_embedded\<close>: the recursion follows the embedded instances.\<close>

lemma embedded_instances_smaller:
  assumes "w \<in> set (embedded_instances ct v)"
  shows "size w < size v"
proof -
  have field: "size u < size (PObj c fs)" if "(name, u) \<in> set fs" for name u c fs
    using that by (induction fs) auto
  have item: "size u \<le> size_list size ws" if "u \<in> set ws" for u ws
    using that by (induction ws) auto
  have emb: "x = u \<or> (\<exists>ws. u = PList ws \<and> x \<in> set ws)" if "x \<in> set (embedded_values t u)" for x t u
    using that by (cases t; cases u) (simp_all add: embedded_values_def)
  from assms obtain c fs name u t where v: "v = PObj c fs" "(name, u) \<in> set fs"
      "w \<in> set (embedded_values t u)"
    by (cases v) (auto simp: embedded_instances_def split: option.splits)
  then show ?thesis using field [OF v(2), of c] emb [OF v(3)] by (auto dest!: item)
qed

definition link_embedded :: "obj_key \<Rightarrow> pyval \<Rightarrow> db_store \<Rightarrow> db_store outcome" where
  "link_embedded okey subobj =
     with_value (ds_obj_key subobj) (\<lambda>ekey s.
       (None, s\<lparr>ds_embedded_refs :=
          AList.update ekey
            (set_add okey
               (case map_of (ds_embedded_refs s) ekey of Some rs \<Rightarrow> rs | None \<Rightarrow> []))
            (ds_embedded_refs s)\<rparr>))"

function ds_update :: "class_table \<Rightarrow> pyval \<Rightarrow> db_store \<Rightarrow> db_store outcome" where
  "ds_update ct obj s =
     and_then (on_cache ct (obj_class obj) (mc_update ct (ds_deref s) obj) s)
       (with_value (ds_obj_key obj) (\<lambda>okey s.
          and_then
            (run_each (\<lambda>subobj s. and_then (ds_update ct subobj s) (link_embedded okey subobj))
               (embedded_instances ct obj) s)
            (\<lambda>s.
               let new_embedded = remdups (concat (map (\<lambda>v.
                     (case ds_obj_key v of Inr k \<Rightarrow> [k] | Inl e \<Rightarrow> []))
                     (embedded_instances ct obj)));
                   old_embedded = (case map_of (ds_obj_to_embedded s) okey of
                                     Some ks \<Rightarrow> ks | None \<Rightarrow> [])
               in and_then
                    (run_each (ds_delete_embedded ct okey) (set_diff old_embedded new_embedded) s)
                    (\<lambda>s. (None, s\<lparr>ds_obj_to_embedded :=
                                    AList.update okey new_embedded (ds_obj_to_embedded s)\<rparr>)))))"
  by pat_completeness auto
termination
  by (relation "measure (\<lambda>(ct, obj, s). size obj)") (auto dest: embedded_instances_smaller)

declare ds_update.simps [simp del]

definition ds_contains :: "class_table \<Rightarrow> pyval \<Rightarrow> db_store \<Rightarrow> bool result" where
  "ds_contains ct elem s = bind_result (ds_get_one ct elem None s) (\<lambda>r. Inr (r = Some elem))"

text \<open>An absent topic (\<open>None\<close> or the empty string) selects every object.\<close>

definition ds_get_all_by_topic ::
  "class_table \<Rightarrow> string \<Rightarrow> string option \<Rightarrow> db_store \<Rightarrow> pyval list result" where
  "ds_get_all_by_topic ct model topic s =
     (case topic of
        Some t \<Rightarrow>
          if t \<noteq> [] then ds_get_all ct (PObj model [(''topic'', PStr t)]) (Some [''topic'']) s
          else ds_get_all ct (PObj model []) None s
      | None \<Rightarrow> ds_get_all ct (PObj model []) None s)"

definition ds_get_keys_by_topic ::
  "class_table \<Rightarrow> string \<Rightarrow> string option \<Rightarrow> db_store \<Rightarrow> string list result" where
  "ds_get_keys_by_topic ct model topic s =
     (case topic of
        Some t \<Rightarrow>
          if t \<noteq> [] then ds_get_keys ct (PObj model [(''topic'', PStr t)]) (Some [''topic'']) s
          else ds_get_keys ct (PObj model []) None s
      | None \<Rightarrow> ds_get_keys ct (PObj model []) None s)"

definition ds_clear :: "db_store \<Rightarrow> db_store outcome" where
  "ds_clear s =
     and_then
       (run_each (\<lambda>(model, mc) s.
          (case run_each mc_delete (dict_values (mc_objs mc)) mc of
             (err, mc') \<Rightarrow> (err, s\<lparr>ds_cache := AList.update model mc' (ds_cache s)\<rparr>)))
          (ds_cache s) s)
       (\<lambda>s. (None, s\<lparr>ds_cache := []\<rparr>))"

section \<open>Index caches are correct\<close>

text \<open>
  The invariant of an index cache: the tree holds exactly the recorded keys of every id. What
  an index answers is therefore a function of the recorded keys.
\<close>

definition ic_inv :: "index_cache \<Rightarrow> bool" where
  "ic_inv ic \<longleftrightarrow>
     rt_wf (length (ic_index ic)) (ic_tree ic) \<and> wf_dict (ic_keys ic) \<and>
     (\<forall>i ks k. map_of (ic_keys ic) i = Some ks \<and> k \<in> set ks \<longrightarrow> length k = length (ic_index ic)) \<and>
     rt_content (ic_tree ic) = {(k, i). \<exists>ks. map_of (ic_keys ic) i = Some ks \<and> k \<in> set ks}"

lemma ic_inv_new [simp]: "ic_inv (new_index_cache index)"
  by (simp add: ic_inv_def new_index_cache_def rt_content_def)

lemma ic_get_keys_length:
  assumes "ic_get_keys ct deref index obj = Inr ks" "k \<in> set ks"
  shows "length k = length index"
proof -
  have "length keys = length acc + length index"
    if "for_each (\<lambda>f keys. bind_result (get_key_element ct deref obj f)
          (\<lambda>values. Inr (keys @ [values]))) index acc = Inr keys" for acc keys
    using that by (induction index arbitrary: acc) (fastforce simp: bind_result_Inr_iff)+
  with assms show ?thesis
    by (auto simp: ic_get_keys_def bind_result_Inr_iff in_set_product_lists_length)
qed

lemma ic_update_correct:
  assumes inv: "ic_inv ic" and i: "obj_id obj = Inr i"
    and ks: "ic_get_keys ct deref (ic_index ic) obj = Inr ks"
  shows "\<exists>ic'. ic_update ct deref obj ic = Inr ic' \<and> ic_inv ic' \<and>
    ic_index ic' = ic_index ic \<and> ic_keys ic' = AList.update i ks (ic_keys ic)"
proof -
  define old where "old = (case map_of (ic_keys ic) i of Some ks \<Rightarrow> ks | None \<Rightarrow> [])"
  have len: "\<forall>k\<in>set ks. length k = length (ic_index ic)"
    "\<forall>k\<in>set old. length k = length (ic_index ic)"
    using ic_get_keys_length [OF ks] inv
    by (simp, cases "map_of (ic_keys ic) i") (auto simp: old_def ic_inv_def)
  from radix.replace_keys [OF _ len, of "ic_tree ic" i] inv obtain t where
    t: "bind_result (for_each (\<lambda>p. rt_set p i) (set_diff ks old) (ic_tree ic))
          (for_each (\<lambda>p. rt_del p i) (set_diff old ks)) = Inr t"
       "rt_wf (length (ic_index ic)) t"
       "rt_content t = (rt_content (ic_tree ic) \<union> (\<lambda>p. (p, i)) ` (set ks - set old)) -
         (\<lambda>p. (p, i)) ` (set old - set ks)"
    by (auto simp: ic_inv_def)
  let ?ic = "ic\<lparr>ic_tree := t, ic_keys := AList.update i ks (ic_keys ic)\<rparr>"
  have "(k, j) \<in> rt_content t \<longleftrightarrow>
      (\<exists>ks'. map_of (ic_keys ?ic) j = Some ks' \<and> k \<in> set ks')" for k j
    using inv by (cases "j = i") (auto simp: t(3) ic_inv_def old_def split: option.splits)
  then have "ic_inv ?ic"
    using inv len(1) t(2) by (auto simp: ic_inv_def split: if_splits)
  moreover have "ic_update ct deref obj ic = Inr ?ic"
    using t(1) by (simp add: ic_update_def ks i Let_def old_def)
  ultimately show ?thesis by simp
qed

lemma ic_delete_correct:
  assumes inv: "ic_inv ic" and i: "obj_id obj = Inr i" and ks: "map_of (ic_keys ic) i = Some ks"
  shows "\<exists>ic'. ic_delete obj ic = Inr ic' \<and> ic_inv ic' \<and>
    ic_index ic' = ic_index ic \<and> ic_keys ic' = AList.delete i (ic_keys ic)"
proof -
  have "\<forall>k\<in>set ks. length k = length (ic_index ic)" using inv ks by (auto simp: ic_inv_def)
  from radix.del_all [OF _ this, of "ic_tree ic" i] inv obtain t where
    t: "for_each (\<lambda>p. rt_del p i) ks (ic_tree ic) = Inr t" "rt_wf (length (ic_index ic)) t"
       "rt_content t = rt_content (ic_tree ic) - (\<lambda>p. (p, i)) ` set ks"
    by (auto simp: ic_inv_def)
  let ?ic = "ic\<lparr>ic_tree := t, ic_keys := AList.delete i (ic_keys ic)\<rparr>"
  have "(k, j) \<in> rt_content t \<longleftrightarrow>
      (\<exists>ks'. map_of (ic_keys ?ic) j = Some ks' \<and> k \<in> set ks')" for k j
    using inv ks by (cases "j = i") (auto simp: t(3) ic_inv_def)
  then have "ic_inv ?ic"
    using inv t(2) by (auto simp: ic_inv_def split: if_splits)
  moreover have "ic_delete obj ic = Inr ?ic" by (simp add: ic_delete_def i ks t(1))
  ultimately show ?thesis by simp
qed

lemma ic_get_all_correct:
  assumes inv: "ic_inv ic" and qs: "ic_get_keys ct deref (ic_index ic) obj = Inr qs"
  shows "\<exists>ids. ic_get_all ct deref obj ic = Inr ids \<and>
    set ids = {i. \<exists>ks k q. map_of (ic_keys ic) i = Some ks \<and> k \<in> set ks \<and> q \<in> set qs \<and>
                    path_matches q k}"
proof -
  define ans where "ans q = (case rt_get_all q (ic_tree ic) of Inr vs \<Rightarrow> vs | Inl e \<Rightarrow> [])" for q
  have ans: "rt_get_all q (ic_tree ic) = Inr (ans q) \<and>
      set (ans q) = {v. \<exists>p. path_matches q p \<and> (p, v) \<in> rt_content (ic_tree ic)}"
    if "q \<in> set qs" for q
    using radix.query_law [of "length (ic_index ic)" "ic_tree ic" q] inv
      ic_get_keys_length [OF qs that] by (auto simp: ic_inv_def ans_def)
  have "ic_get_all ct deref obj ic = Inr ([] @ concat (map ans qs))"
    unfolding ic_get_all_def qs bind_result_simps by (rule for_each_collect) (use ans in blast)
  moreover have "set (concat (map ans qs)) =
      {i. \<exists>ks k q. map_of (ic_keys ic) i = Some ks \<and> k \<in> set ks \<and> q \<in> set qs \<and> path_matches q k}"
    using ans inv unfolding ic_inv_def by auto
  ultimately show ?thesis by simp
qed

section \<open>Model caches are correct\<close>

text \<open>
  The invariant of a model cache: objects are stored under their ids, and every index records
  keys for exactly the stored ids.
\<close>

definition mc_inv :: "model_cache \<Rightarrow> bool" where
  "mc_inv mc \<longleftrightarrow> wf_dict (mc_objs mc) \<and> wf_dict (mc_indexes mc) \<and>
     (\<forall>i v. map_of (mc_objs mc) i = Some v \<longrightarrow> obj_id v = Inr i) \<and>
     (\<forall>(ix, ic)\<in>set (mc_indexes mc).
        ic_index ic = ix \<and> ic_inv ic \<and> dom (map_of (ic_keys ic)) = dom (map_of (mc_objs mc)))"

lemma mc_invD:
  assumes "mc_inv mc" "(ix, ic) \<in> set (mc_indexes mc)"
  shows "ic_index ic = ix" "ic_inv ic" "dom (map_of (ic_keys ic)) = dom (map_of (mc_objs mc))"
  using assms unfolding mc_inv_def by blast+

lemma mc_inv_new: "mc_inv (new_model_cache ct model)"
proof -
  let ?P = "\<lambda>ixs. wf_dict ixs \<and> (\<forall>p\<in>set ixs. snd p = new_index_cache (fst p))"
  have "?P (fold (\<lambda>(name, index) ixs. if index = id_index then ixs
             else AList.update index (new_index_cache index) ixs) xs [])" for xs :: "(string \<times> string list) list"
    by (rule fold_invariant [where Q = "\<lambda>_. True" and P = ?P])
       (auto simp: set_update_wf split: prod.splits)
  moreover have "ic_index (new_index_cache ix) = ix" "ic_keys (new_index_cache ix) = []" for ix
    by (simp_all add: new_index_cache_def)
  ultimately show ?thesis
    by (fastforce simp: mc_inv_def new_model_cache_def split: option.splits)
qed

text \<open>An operation that succeeds on every index, index by index.\<close>

lemma each_index_correct:
  assumes "\<forall>(ix, ic)\<in>set ixs. \<exists>ic'. f ic = Inr ic' \<and> P ic ic'"
  shows "\<exists>ixs'. each_index f ixs = (None, ixs') \<and> dict_keys ixs' = dict_keys ixs \<and>
    list_all2 (\<lambda>(ix, ic) (ix', ic'). ix = ix' \<and> P ic ic') ixs ixs'"
  using assms
proof (induction ixs)
  case Nil
  then show ?case by simp
next
  case (Cons p ixs)
  obtain ix ic where p: "p = (ix, ic)" by (cases p)
  from Cons.prems p obtain ic' where "f ic = Inr ic'" "P ic ic'" by auto
  moreover from Cons obtain ixs' where "each_index f ixs = (None, ixs')"
    "dict_keys ixs' = dict_keys ixs"
    "list_all2 (\<lambda>(ix, ic) (ix', ic'). ix = ix' \<and> P ic ic') ixs ixs'" by auto
  ultimately show ?case by (simp add: p)
qed

lemma index_lookup:
  assumes "list_all2 (\<lambda>(ix, ic) (ix', ic'). ix = ix' \<and> P ic ic') ixs ixs'"
    and "map_of ixs ix = Some ic"
  shows "\<exists>ic'. map_of ixs' ix = Some ic' \<and> P ic ic'"
  using assms by (induction rule: list_all2_induct) (auto split: if_splits)

lemma list_all2_set2:
  assumes "list_all2 R xs ys" "y \<in> set ys" shows "\<exists>x\<in>set xs. R x y"
  using assms by (induction rule: list_all2_induct) auto

text \<open>
  What a successful \<open>update\<close> and \<open>delete\<close> do to a model cache: the object map and the
  recorded keys of every index change at the object's id and nowhere else.
\<close>

lemma mc_update_correct:
  assumes inv: "mc_inv mc" and i: "obj_id obj = Inr i"
    and keys: "\<forall>ix\<in>set (dict_keys (mc_indexes mc)). \<not> isl (ic_get_keys ct deref ix obj)"
  shows "\<exists>mc'. mc_update ct deref obj mc = (None, mc') \<and> mc_inv mc' \<and>
    mc_objs mc' = AList.update i obj (mc_objs mc) \<and>
    dict_keys (mc_indexes mc') = dict_keys (mc_indexes mc) \<and>
    (\<forall>ix ic. map_of (mc_indexes mc) ix = Some ic \<longrightarrow>
       (\<exists>ic'. map_of (mc_indexes mc') ix = Some ic' \<and>
          ic_keys ic' = AList.update i (projr (ic_get_keys ct deref ix obj)) (ic_keys ic)))"
proof -
  let ?P = "\<lambda>ic ic'. ic_inv ic' \<and> ic_index ic' = ic_index ic \<and>
    ic_keys ic' = AList.update i (projr (ic_get_keys ct deref (ic_index ic) obj)) (ic_keys ic)"
  have "\<exists>ic'. ic_update ct deref obj ic = Inr ic' \<and> ?P ic ic'"
    if "(ix, ic) \<in> set (mc_indexes mc)" for ix ic
  proof -
    have "ic_index ic = ix" "ic_inv ic" using inv that by (auto simp: mc_inv_def)
    moreover have "\<not> isl (ic_get_keys ct deref ix obj)" using keys that by force
    ultimately show ?thesis
      using ic_update_correct [OF _ i, of ic ct deref] by (cases "ic_get_keys ct deref ix obj") auto
  qed
  with each_index_correct [of "mc_indexes mc" "ic_update ct deref obj" ?P] obtain ixs where
    ixs: "each_index (ic_update ct deref obj) (mc_indexes mc) = (None, ixs)"
      "dict_keys ixs = dict_keys (mc_indexes mc)"
      "list_all2 (\<lambda>(ix, ic) (ix', ic'). ix = ix' \<and> ?P ic ic') (mc_indexes mc) ixs"
    by auto
  let ?mc = "mc\<lparr>mc_indexes := ixs, mc_objs := AList.update i obj (mc_objs mc)\<rparr>"
  have "mc_inv ?mc"
    using inv ixs(2) i list_all2_set2 [OF ixs(3)] by (fastforce simp: mc_inv_def)
  moreover have "mc_update ct deref obj mc = (None, ?mc)"
    by (simp add: mc_update_def ixs(1) i)
  moreover have "\<exists>ic'. map_of ixs ix = Some ic' \<and>
      ic_keys ic' = AList.update i (projr (ic_get_keys ct deref ix obj)) (ic_keys ic)"
    if "map_of (mc_indexes mc) ix = Some ic" for ix ic
    using index_lookup [OF ixs(3) that] inv map_of_SomeD [OF that] by (fastforce simp: mc_inv_def)
  ultimately show ?thesis using ixs(2) by (intro exI [of _ ?mc]) simp
qed

lemma mc_delete_correct:
  assumes inv: "mc_inv mc" and i: "obj_id obj = Inr i" and stored: "map_of (mc_objs mc) i \<noteq> None"
  shows "\<exists>mc'. mc_delete obj mc = (None, mc') \<and> mc_inv mc' \<and>
    mc_objs mc' = AList.delete i (mc_objs mc) \<and>
    dict_keys (mc_indexes mc') = dict_keys (mc_indexes mc) \<and>
    (\<forall>ix ic. map_of (mc_indexes mc) ix = Some ic \<longrightarrow>
       (\<exists>ic'. map_of (mc_indexes mc') ix = Some ic' \<and>
          ic_keys ic' = AList.delete i (ic_keys ic)))"
proof -
  let ?P = "\<lambda>ic ic'. ic_inv ic' \<and> ic_index ic' = ic_index ic \<and>
    ic_keys ic' = AList.delete i (ic_keys ic)"
  have "\<exists>ic'. ic_delete obj ic = Inr ic' \<and> ?P ic ic'"
    if "(ix, ic) \<in> set (mc_indexes mc)" for ix ic
  proof -
    from mc_invD [OF inv that]
    have "ic_inv ic" "dom (map_of (ic_keys ic)) = dom (map_of (mc_objs mc))" by simp_all
    with stored ic_delete_correct [OF _ i, of ic] show ?thesis by blast
  qed
  with each_index_correct [of "mc_indexes mc" "ic_delete obj" ?P] obtain ixs where
    ixs: "each_index (ic_delete obj) (mc_indexes mc) = (None, ixs)"
      "dict_keys ixs = dict_keys (mc_indexes mc)"
      "list_all2 (\<lambda>(ix, ic) (ix', ic'). ix = ix' \<and> ?P ic ic') (mc_indexes mc) ixs"
    by auto
  let ?mc = "mc\<lparr>mc_indexes := ixs, mc_objs := AList.delete i (mc_objs mc)\<rparr>"
  have "mc_inv ?mc"
    using inv ixs(2) list_all2_set2 [OF ixs(3)] by (fastforce simp: mc_inv_def)
  moreover have "mc_delete obj mc = (None, ?mc)"
    using stored by (simp add: mc_delete_def ixs(1) i)
  ultimately show ?thesis
    using ixs(2) index_lookup [OF ixs(3)] by (intro exI [of _ ?mc]) auto
qed

text \<open>Conversely, a call that returns has found the id and the keys it needs.\<close>

lemma each_index_None:
  "each_index f ixs = (None, ixs') \<Longrightarrow> (ix, ic) \<in> set ixs \<Longrightarrow> \<exists>ic'. f ic = Inr ic'"
  by (induction f ixs arbitrary: ixs' rule: each_index.induct)
     (auto split: sum.splits prod.splits)

lemma mc_update_returns:
  assumes "mc_update ct deref obj mc = (None, mc')" "mc_inv mc"
  obtains i where "obj_id obj = Inr i"
    and "\<forall>ix\<in>set (dict_keys (mc_indexes mc)). \<not> isl (ic_get_keys ct deref ix obj)"
proof -
  from assms(1) obtain ixs i where ixs: "each_index (ic_update ct deref obj) (mc_indexes mc) = (None, ixs)"
      and i: "obj_id obj = Inr i"
    by (auto simp: mc_update_def and_then_None_iff with_value_None_iff split: prod.splits)
  have "\<not> isl (ic_get_keys ct deref ix obj)" if "(ix, ic) \<in> set (mc_indexes mc)" for ix ic
    using each_index_None [OF ixs that] mc_invD(1) [OF assms(2) that]
    by (auto simp: ic_update_def bind_result_Inr_iff)
  then have "\<forall>ix\<in>set (dict_keys (mc_indexes mc)). \<not> isl (ic_get_keys ct deref ix obj)" by auto
  with i show thesis by (rule that)
qed

lemma mc_delete_returns:
  assumes "mc_delete obj mc = (None, mc')"
  obtains i where "obj_id obj = Inr i" "map_of (mc_objs mc) i \<noteq> None"
  using assms
  by (auto simp: mc_delete_def and_then_None_iff with_value_None_iff split: prod.splits if_splits)

text \<open>
  The contract of a model cache: a finite map from ids to an object and the keys it was stored
  under. The operations, and the relation of a cache to its contract.
\<close>

datatype mc_op = McUpdate deref pyval | McDelete pyval

fun mc_apply :: "class_table \<Rightarrow> mc_op \<Rightarrow> model_cache \<Rightarrow> model_cache outcome" where
  "mc_apply ct (McUpdate deref obj) mc = mc_update ct deref obj mc"
| "mc_apply ct (McDelete obj) mc = mc_delete obj mc"

type_synonym mc_spec = "string \<Rightarrow> (pyval \<times> (string list \<Rightarrow> pyval path list)) option"

fun mc_spec_apply :: "class_table \<Rightarrow> mc_op \<Rightarrow> mc_spec \<Rightarrow> mc_spec" where
  "mc_spec_apply ct (McUpdate deref obj) m =
     m(projr (obj_id obj) \<mapsto> (obj, \<lambda>ix. projr (ic_get_keys ct deref ix obj)))"
| "mc_spec_apply ct (McDelete obj) m = m(projr (obj_id obj) := None)"

definition mc_rel :: "model_cache \<Rightarrow> mc_spec \<Rightarrow> bool" where
  "mc_rel mc m \<longleftrightarrow> mc_inv mc \<and> (\<forall>i. map_of (mc_objs mc) i = map_option fst (m i)) \<and>
     (\<forall>ix ic i. map_of (mc_indexes mc) ix = Some ic \<longrightarrow>
        map_of (ic_keys ic) i = map_option (\<lambda>(v, ks). ks ix) (m i))"

lemma map_of_same_keys:
  "dict_keys xs = dict_keys ys \<Longrightarrow> map_of xs k = None \<longleftrightarrow> map_of ys k = None"
  by (simp add: map_of_None_keys)

lemma mc_apply_refines:
  assumes rel: "mc_rel mc m" and ok: "mc_apply ct x mc = (None, mc')"
  shows "mc_rel mc' (mc_spec_apply ct x m) \<and>
    dict_keys (mc_indexes mc') = dict_keys (mc_indexes mc)"
proof (cases x)
  case (McUpdate deref obj)
  have inv: "mc_inv mc" using rel by (simp add: mc_rel_def)
  from ok McUpdate have up: "mc_update ct deref obj mc = (None, mc')" by simp
  from mc_update_returns [OF up inv] obtain i where
    i: "obj_id obj = Inr i"
      "\<forall>ix\<in>set (dict_keys (mc_indexes mc)). \<not> isl (ic_get_keys ct deref ix obj)" by blast
  from mc_update_correct [OF inv i] up
  have c: "mc_inv mc'" "mc_objs mc' = AList.update i obj (mc_objs mc)"
      "dict_keys (mc_indexes mc') = dict_keys (mc_indexes mc)"
      "\<forall>ix ic. map_of (mc_indexes mc) ix = Some ic \<longrightarrow>
         (\<exists>ic'. map_of (mc_indexes mc') ix = Some ic' \<and>
            ic_keys ic' = AList.update i (projr (ic_get_keys ct deref ix obj)) (ic_keys ic))"
    by auto
  have "map_of (ic_keys ic') j = map_option (\<lambda>(v, ks). ks ix) (mc_spec_apply ct x m j)"
    if ic': "map_of (mc_indexes mc') ix = Some ic'" for ix ic' j
  proof -
    from ic' map_of_same_keys [OF c(3), of ix] obtain ic where
      ic: "map_of (mc_indexes mc) ix = Some ic" by auto
    from c(4) ic ic' have "ic_keys ic' =
        AList.update i (projr (ic_get_keys ct deref ix obj)) (ic_keys ic)" by force
    then show ?thesis using rel ic by (simp add: McUpdate i(1) mc_rel_def)
  qed
  then show ?thesis using c(1-3) rel by (auto simp: mc_rel_def McUpdate i(1))
next
  case (McDelete obj)
  have inv: "mc_inv mc" using rel by (simp add: mc_rel_def)
  from ok McDelete have up: "mc_delete obj mc = (None, mc')" by simp
  from mc_delete_returns [OF up] obtain i where
    i: "obj_id obj = Inr i" "map_of (mc_objs mc) i \<noteq> None" by blast
  from mc_delete_correct [OF inv i] up
  have c: "mc_inv mc'" "mc_objs mc' = AList.delete i (mc_objs mc)"
      "dict_keys (mc_indexes mc') = dict_keys (mc_indexes mc)"
      "\<forall>ix ic. map_of (mc_indexes mc) ix = Some ic \<longrightarrow>
         (\<exists>ic'. map_of (mc_indexes mc') ix = Some ic' \<and>
            ic_keys ic' = AList.delete i (ic_keys ic))"
    by auto
  have "map_of (ic_keys ic') j = map_option (\<lambda>(v, ks). ks ix) (mc_spec_apply ct x m j)"
    if ic': "map_of (mc_indexes mc') ix = Some ic'" for ix ic' j
  proof -
    from ic' map_of_same_keys [OF c(3), of ix] obtain ic where
      ic: "map_of (mc_indexes mc) ix = Some ic" by auto
    from c(4) ic ic' have "ic_keys ic' = AList.delete i (ic_keys ic)" by force
    then show ?thesis using rel ic by (simp add: McDelete i(1) mc_rel_def)
  qed
  then show ?thesis using c(1-3) rel by (auto simp: mc_rel_def McDelete i(1))
qed

lemma mc_ops_refine:
  assumes "mc_rel mc m" "run_each (mc_apply ct) ops mc = (None, mc')"
  shows "mc_rel mc' (fold (mc_spec_apply ct) ops m) \<and>
    dict_keys (mc_indexes mc') = dict_keys (mc_indexes mc)"
  using assms
proof (induction ops arbitrary: mc m)
  case Nil
  then show ?case by simp
next
  case (Cons x ops)
  from Cons.prems(2) obtain u where u: "mc_apply ct x mc = (None, u)"
      "run_each (mc_apply ct) ops u = (None, mc')"
    by (auto simp: and_then_None_iff)
  from mc_apply_refines [OF Cons.prems(1) u(1)] Cons.IH [OF _ u(2)] show ?case by auto
qed

lemma mc_rel_new: "mc_rel (new_model_cache ct model) Map.empty"
proof -
  have inv: "mc_inv (new_model_cache ct model)" by (rule mc_inv_new)
  have objs: "mc_objs (new_model_cache ct model) = []" by (simp add: new_model_cache_def)
  have "map_of (ic_keys ic) i = None"
    if "map_of (mc_indexes (new_model_cache ct model)) ix = Some ic" for ix ic i
    using mc_invD(3) [OF inv map_of_SomeD [OF that]] objs by auto
  then show ?thesis using inv objs by (simp add: mc_rel_def)
qed

text \<open>A query by index on a cache that implements a contract.\<close>

definition matching :: "mc_spec \<Rightarrow> string list \<Rightarrow> pyval path list \<Rightarrow> string set" where
  "matching m ix qs =
     {i. \<exists>v ks k q. m i = Some (v, ks) \<and> k \<in> set (ks ix) \<and> q \<in> set qs \<and> path_matches q k}"

lemma mc_query_ids:
  assumes rel: "mc_rel mc m" and ix: "ix \<in> set (dict_keys (mc_indexes mc))" "ix \<noteq> [''id'']"
    and qs: "ic_get_keys ct deref ix obj = Inr qs"
  shows "\<exists>ids. mc_get_keys ct deref obj (Some ix) mc = Inr ids \<and> set ids = matching m ix qs"
proof -
  from ix(1) map_of_None_keys [of "mc_indexes mc" ix] obtain ic where
    ic: "map_of (mc_indexes mc) ix = Some ic" by auto
  have inv: "ic_index ic = ix" "ic_inv ic"
    using rel mc_invD(1,2) [OF _ map_of_SomeD [OF ic]] by (simp_all add: mc_rel_def)
  have keys: "map_of (ic_keys ic) i = map_option (\<lambda>(v, ks). ks ix) (m i)" for i
    using rel ic by (simp add: mc_rel_def)
  from ic_get_all_correct [OF inv(2), of ct deref obj qs] qs inv(1) obtain ids where
    "ic_get_all ct deref obj ic = Inr ids"
    "set ids = {i. \<exists>ks k q. map_of (ic_keys ic) i = Some ks \<and> k \<in> set ks \<and> q \<in> set qs \<and>
                  path_matches q k}" by auto
  moreover have "{i. \<exists>ks k q. map_of (ic_keys ic) i = Some ks \<and> k \<in> set ks \<and> q \<in> set qs \<and>
      path_matches q k} = matching m ix qs"
    by (auto simp: matching_def keys)
  ultimately show ?thesis using ic ix(2) by (simp add: mc_get_keys_def)
qed

lemma mc_query_objs:
  assumes rel: "mc_rel mc m" and ids: "mc_get_keys ct deref obj index mc = Inr ids"
    and stored: "set ids \<subseteq> dom m"
  shows "mc_get_all ct deref obj index mc = Inr (map (\<lambda>i. fst (the (m i))) ids)"
proof -
  have "mc_get_by_id i mc = Inr (fst (the (m i)))" if "i \<in> set ids" for i
    using rel stored that by (auto simp: mc_get_by_id_def mc_rel_def)
  then have "for_each (\<lambda>i objs. bind_result (mc_get_by_id i mc) (\<lambda>v. Inr (objs @ [v]))) ids acc =
      Inr (acc @ map (\<lambda>i. fst (the (m i))) ids)" for acc
    by (induction ids arbitrary: acc) simp_all
  then show ?thesis by (simp add: mc_get_all_def ids)
qed

text \<open>
  C5. The indexes of a model cache are correct: after any sequence of updates and deletions
  that return, a query by an index gives exactly the ids of the stored objects with a key that
  matches the query, where the key is the one the object had when it was last stored, and
  \<open>get_all\<close> gives those objects as they were last stored (it never meets an id without an
  object).
\<close>

theorem model_cache_indexes_correct:
  assumes "run_each (mc_apply ct) ops (new_model_cache ct model) = (None, mc)"
    and "ix \<in> set (dict_keys (mc_indexes (new_model_cache ct model)))" "ix \<noteq> [''id'']"
    and "ic_get_keys ct deref ix query = Inr qs"
  shows "\<exists>ids. mc_get_keys ct deref query (Some ix) mc = Inr ids \<and>
    set ids = matching (fold (mc_spec_apply ct) ops Map.empty) ix qs \<and>
    mc_get_all ct deref query (Some ix) mc =
      Inr (map (\<lambda>i. fst (the (fold (mc_spec_apply ct) ops Map.empty i))) ids)"
proof -
  let ?m = "fold (mc_spec_apply ct) ops Map.empty"
  from mc_ops_refine [OF mc_rel_new assms(1)]
  have rel: "mc_rel mc ?m" and ix: "ix \<in> set (dict_keys (mc_indexes mc))"
    using assms(2) by auto
  from mc_query_ids [OF rel ix assms(3,4)] obtain ids where
    ids: "mc_get_keys ct deref query (Some ix) mc = Inr ids" "set ids = matching ?m ix qs"
    by blast
  moreover have "set ids \<subseteq> dom ?m" unfolding ids(2) by (auto simp: matching_def)
  from mc_query_objs [OF rel ids(1) this]
  have "mc_get_all ct deref query (Some ix) mc = Inr (map (\<lambda>i. fst (the (?m i))) ids)" .
  ultimately show ?thesis by blast
qed

lemmas key_simps =
  ic_get_keys_def get_key_element_def key_step_def py_getattr_def read_field_def as_key_def
  class_fields_def class_decl_defs obj_id_def set_diff_def set_add_def set_discard_def

theorem model_cache_indexes_correct_witness:
  "\<exists>mc ids. run_each (mc_apply df_classes)
       [McUpdate (\<lambda>m i. None) (PObj ''QosPolicy'' [(''id'', PStr ''p''), (''topic'', PStr ''t'')])]
       (new_model_cache df_classes ''QosPolicy'') = (None, mc) \<and>
     mc_get_keys df_classes (\<lambda>m i. None) (PObj ''QosPolicy'' [(''topic'', PStr ''t'')])
       (Some [''topic'']) mc = Inr ids \<and> set ids = {''p''}"
proof -
  let ?obj = "PObj ''QosPolicy'' [(''id'', PStr ''p''), (''topic'', PStr ''t'')]"
  let ?query = "PObj ''QosPolicy'' [(''topic'', PStr ''t'')]"
  have new: "dict_keys (mc_indexes (new_model_cache df_classes ''QosPolicy'')) = [[''topic'']]"
    by (simp add: new_model_cache_def get_indexes_def class_decl_defs id_index_def)
  have keys: "ic_get_keys df_classes deref [''topic''] v = Inr [[Some (PStr ''t'')]]"
    if "v \<in> {?obj, ?query}" for v deref
    using that by (auto simp: key_simps)
  have i: "obj_id ?obj = Inr ''p''" by (simp add: obj_id_def)
  from mc_update_correct [OF mc_inv_new i, of df_classes "''QosPolicy''" df_classes "\<lambda>m i. None"]
  obtain mc where mc: "run_each (mc_apply df_classes) [McUpdate (\<lambda>m i. None) ?obj]
      (new_model_cache df_classes ''QosPolicy'') = (None, mc)"
    by (auto simp: new keys)
  from model_cache_indexes_correct [OF mc, of "[''topic'']" "\<lambda>m i. None" ?query]
  obtain ids where "mc_get_keys df_classes (\<lambda>m i. None) ?query (Some [''topic'']) mc = Inr ids"
    "set ids = matching (fold (mc_spec_apply df_classes) [McUpdate (\<lambda>m i. None) ?obj] Map.empty)
       [''topic''] [[Some (PStr ''t'')]]"
    by (auto simp: new keys)
  moreover have "matching (fold (mc_spec_apply df_classes) [McUpdate (\<lambda>m i. None) ?obj] Map.empty)
       [''topic''] [[Some (PStr ''t'')]] = {''p''}"
    by (auto simp: matching_def keys i path_matches_def seg_matches_def)
  ultimately show ?thesis using mc by blast
qed

section \<open>Embedded objects\<close>

text \<open>
  What the store records of embedded objects: \<open>refs_of\<close> the owners of an embedded object,
  \<open>emb_of\<close> the embedded objects of an owner. The declared models embed objects one level
  deep, and the invariant says so: an embedded object has no embedded objects of its own.
\<close>

definition refs_of :: "db_store \<Rightarrow> obj_key \<Rightarrow> obj_key list" where
  "refs_of s ekey = (case map_of (ds_embedded_refs s) ekey of Some rs \<Rightarrow> rs | None \<Rightarrow> [])"

definition emb_of :: "db_store \<Rightarrow> obj_key \<Rightarrow> obj_key list" where
  "emb_of s okey = (case map_of (ds_obj_to_embedded s) okey of Some ks \<Rightarrow> ks | None \<Rightarrow> [])"

definition caches_inv :: "class_table \<Rightarrow> db_store \<Rightarrow> bool" where
  "caches_inv ct s \<longleftrightarrow> (\<forall>m mc. map_of (ds_cache s) m = Some mc \<longrightarrow> mc_inv mc \<and>
     dict_keys (mc_indexes mc) = dict_keys (mc_indexes (new_model_cache ct m)))"

definition ds_inv :: "class_table \<Rightarrow> db_store \<Rightarrow> bool" where
  "ds_inv ct s \<longleftrightarrow> caches_inv ct s \<and>
     (\<forall>okey ekey. ekey \<in> set (emb_of s okey) \<longleftrightarrow> okey \<in> set (refs_of s ekey)) \<and>
     (\<forall>okey. distinct (emb_of s okey)) \<and>
     (\<forall>ekey. map_of (ds_embedded_refs s) ekey \<noteq> Some []) \<and>
     (\<forall>ekey. refs_of s ekey \<noteq> [] \<longrightarrow> emb_of s ekey = [] \<and> ds_deref s (fst ekey) (snd ekey) \<noteq> None)"

lemma ds_invD:
  assumes "ds_inv ct s"
  shows "caches_inv ct s" "ekey \<in> set (emb_of s okey) \<longleftrightarrow> okey \<in> set (refs_of s ekey)"
    "distinct (emb_of s okey)" "map_of (ds_embedded_refs s) ekey \<noteq> Some []"
    "refs_of s ekey \<noteq> [] \<Longrightarrow> emb_of s ekey = [] \<and> ds_deref s (fst ekey) (snd ekey) \<noteq> None"
  using assms unfolding ds_inv_def by blast+

lemma ds_inv_empty: "ds_inv ct empty_store"
  by (simp add: ds_inv_def caches_inv_def empty_store_def refs_of_def emb_of_def)

lemma store_record_simps [simp]:
  "refs_of (s\<lparr>ds_obj_to_embedded := e\<rparr>) = refs_of s"
  "refs_of (s\<lparr>ds_cache := c\<rparr>) = refs_of s"
  "emb_of (s\<lparr>ds_embedded_refs := r\<rparr>) = emb_of s"
  "emb_of (s\<lparr>ds_cache := c\<rparr>) = emb_of s"
  "ds_deref (s\<lparr>ds_obj_to_embedded := e\<rparr>) = ds_deref s"
  "ds_deref (s\<lparr>ds_embedded_refs := r\<rparr>) = ds_deref s"
  "caches_inv ct (s\<lparr>ds_obj_to_embedded := e\<rparr>) = caches_inv ct s"
  "caches_inv ct (s\<lparr>ds_embedded_refs := r\<rparr>) = caches_inv ct s"
  by (auto simp: refs_of_def emb_of_def ds_deref_def caches_inv_def fun_eq_iff)

lemma emb_of_update [simp]:
  "emb_of (s\<lparr>ds_obj_to_embedded := AList.update k v (ds_obj_to_embedded s)\<rparr>) = (emb_of s)(k := v)"
  "emb_of (s\<lparr>ds_obj_to_embedded := AList.delete k (ds_obj_to_embedded s)\<rparr>) = (emb_of s)(k := [])"
  "refs_of (s\<lparr>ds_embedded_refs := AList.update k v (ds_embedded_refs s)\<rparr>) = (refs_of s)(k := v)"
  "refs_of (s\<lparr>ds_embedded_refs := AList.delete k (ds_embedded_refs s)\<rparr>) = (refs_of s)(k := [])"
  by (auto simp: emb_of_def refs_of_def fun_eq_iff)

lemma new_model_cache_objs [simp]: "mc_objs (new_model_cache ct m) = []"
  by (simp add: new_model_cache_def)

lemma get_cache_inv:
  assumes "caches_inv ct s"
  shows "mc_inv (ds_get_cache ct m s)"
    and "dict_keys (mc_indexes (ds_get_cache ct m s)) = dict_keys (mc_indexes (new_model_cache ct m))"
    and "map_of (mc_objs (ds_get_cache ct m s)) i = ds_deref s m i"
  using assms mc_inv_new [of ct m]
  by (auto simp: ds_get_cache_def caches_inv_def ds_deref_def split: option.splits)

lemma get_cache_objs: "map_of (mc_objs (ds_get_cache ct m s)) i = ds_deref s m i"
  by (simp add: ds_get_cache_def ds_deref_def split: option.splits)

text \<open>Reading one object by its id.\<close>

lemma ds_get_one_by_id:
  "obj_id obj = Inr i \<Longrightarrow> ds_get_one ct obj None s = Inr (ds_deref s (obj_class obj) i)"
  by (simp add: ds_get_one_def mc_get_one_def mc_get_by_id_def get_cache_objs split: option.splits)

lemma on_cache_result:
  assumes "caches_inv ct s" "f (ds_get_cache ct m s) = (None, mc)" "mc_inv mc"
    and "dict_keys (mc_indexes mc) = dict_keys (mc_indexes (ds_get_cache ct m s))"
  shows "\<exists>s'. on_cache ct m f s = (None, s') \<and> caches_inv ct s' \<and>
    ds_obj_to_embedded s' = ds_obj_to_embedded s \<and> ds_embedded_refs s' = ds_embedded_refs s \<and>
    (\<forall>m' j. ds_deref s' m' j = (if m' = m then map_of (mc_objs mc) j else ds_deref s m' j))"
  using assms get_cache_inv(2) [OF assms(1), of m]
  by (auto simp: on_cache_def caches_inv_def ds_deref_def)

lemma cache_delete:
  assumes "caches_inv ct s" "obj_id obj = Inr i" "ds_deref s (obj_class obj) i \<noteq> None"
  shows "\<exists>s'. on_cache ct (obj_class obj) (mc_delete obj) s = (None, s') \<and> caches_inv ct s' \<and>
    ds_obj_to_embedded s' = ds_obj_to_embedded s \<and> ds_embedded_refs s' = ds_embedded_refs s \<and>
    (\<forall>m j. ds_deref s' m j = (if (m, j) = (obj_class obj, i) then None else ds_deref s m j))"
proof -
  let ?mc = "ds_get_cache ct (obj_class obj) s"
  from mc_delete_correct [OF get_cache_inv(1) [OF assms(1)] assms(2), of "obj_class obj"] assms(3)
  obtain mc where mc: "mc_delete obj ?mc = (None, mc)" "mc_inv mc"
      "mc_objs mc = AList.delete i (mc_objs ?mc)"
      "dict_keys (mc_indexes mc) = dict_keys (mc_indexes ?mc)"
    by (auto simp: get_cache_inv(3) [OF assms(1)])
  from on_cache_result [of ct s "mc_delete obj", OF assms(1) mc(1,2,4)] mc(3)
  show ?thesis by (auto simp: get_cache_inv(3) [OF assms(1)])
qed

text \<open>The keys of an object can be read for every index of its model.\<close>

definition indexable :: "class_table \<Rightarrow> deref \<Rightarrow> pyval \<Rightarrow> bool" where
  "indexable ct deref obj \<longleftrightarrow>
     list_all (\<lambda>ix. \<not> isl (ic_get_keys ct deref ix obj))
       (dict_keys (mc_indexes (new_model_cache ct (obj_class obj))))"

lemma cache_update:
  assumes "caches_inv ct s" "obj_id obj = Inr i" "indexable ct deref obj"
  shows "\<exists>s'. on_cache ct (obj_class obj) (mc_update ct deref obj) s = (None, s') \<and> caches_inv ct s' \<and>
    ds_obj_to_embedded s' = ds_obj_to_embedded s \<and> ds_embedded_refs s' = ds_embedded_refs s \<and>
    (\<forall>m j. ds_deref s' m j = (if (m, j) = (obj_class obj, i) then Some obj else ds_deref s m j))"
proof -
  let ?mc = "ds_get_cache ct (obj_class obj) s"
  have "\<forall>ix\<in>set (dict_keys (mc_indexes ?mc)). \<not> isl (ic_get_keys ct deref ix obj)"
    using assms(3) unfolding get_cache_inv(2) [OF assms(1)] indexable_def by (simp add: list_all_iff)
  from mc_update_correct [OF get_cache_inv(1) [OF assms(1)] assms(2) this]
  obtain mc where mc: "mc_update ct deref obj ?mc = (None, mc)" "mc_inv mc"
      "mc_objs mc = AList.update i obj (mc_objs ?mc)"
      "dict_keys (mc_indexes mc) = dict_keys (mc_indexes ?mc)"
    by auto
  from on_cache_result [of ct s "mc_update ct deref obj", OF assms(1) mc(1,2,4)] mc(3)
  show ?thesis by (auto simp: get_cache_inv(3) [OF assms(1)])
qed

subsection \<open>Deleting an owner\<close>

lemma obj_key_of_stub [simp]:
  "ds_obj_key (PObj c [(''id'', PStr i)]) = Inr (c, i)"
  "obj_id (PObj c [(''id'', PStr i)]) = Inr i"
  "obj_class (PObj c fs) = c"
  by (simp_all add: ds_obj_key_def obj_id_def obj_class_def)

text \<open>Dropping the last owner of an embedded object removes it; dropping another keeps it.\<close>

definition orphaned :: "obj_key \<Rightarrow> db_store \<Rightarrow> obj_key \<Rightarrow> bool" where
  "orphaned okey s ekey \<longleftrightarrow> set_discard okey (refs_of s ekey) = []"

lemma delete_embedded_step:
  assumes inv: "caches_inv ct s" and flat: "emb_of s ekey = []"
    and stored: "ds_deref s (fst ekey) (snd ekey) \<noteq> None"
    and del: "\<And>obj s. \<exists>n. del obj s = ds_delete_fuel (Suc n) ct obj s"
  shows "\<exists>s'. delete_embedded_with del okey ekey s = (None, s') \<and> caches_inv ct s' \<and>
    emb_of s' = emb_of s \<and>
    map_of (ds_embedded_refs s') = (map_of (ds_embedded_refs s))(ekey :=
      if orphaned okey s ekey then None else Some (set_discard okey (refs_of s ekey))) \<and>
    (\<forall>m j. ds_deref s' m j =
       (if (m, j) = ekey \<and> orphaned okey s ekey then None else ds_deref s m j))"
proof (cases "orphaned okey s ekey")
  case False
  then show ?thesis using inv
    by (auto simp: delete_embedded_with_def Let_def orphaned_def refs_of_def [symmetric] fun_eq_iff)
next
  case True
  let ?obj = "PObj (fst ekey) [(''id'', PStr (snd ekey))]"
  let ?s1 = "s\<lparr>ds_embedded_refs := AList.update ekey [] (ds_embedded_refs s)\<rparr>"
  let ?s2 = "?s1\<lparr>ds_obj_to_embedded := AList.delete ekey (ds_obj_to_embedded ?s1)\<rparr>"
  from cache_delete [of ct ?s2 ?obj "snd ekey"] inv stored obtain s3 where
    s3: "on_cache ct (fst ekey) (mc_delete ?obj) ?s2 = (None, s3)" "caches_inv ct s3"
      "ds_obj_to_embedded s3 = ds_obj_to_embedded ?s2" "ds_embedded_refs s3 = ds_embedded_refs ?s2"
      "\<And>m j. ds_deref s3 m j = (if (m, j) = ekey then None else ds_deref s m j)"
    by auto
  from del [of ?obj ?s1] s3(1) flat have "del ?obj ?s1 = (None, s3)"
    by (auto simp: Let_def emb_of_def [symmetric])
  then have "delete_embedded_with del okey ekey s =
      (None, s3\<lparr>ds_embedded_refs := AList.delete ekey (ds_embedded_refs s3)\<rparr>)"
    using True s3(4)
    by (simp add: delete_embedded_with_def Let_def orphaned_def refs_of_def [symmetric])
  moreover have "emb_of s3 = emb_of s"
    using s3(3) flat by (auto simp: emb_of_def fun_eq_iff)
  ultimately show ?thesis using s3(2,4,5) True by (auto simp: fun_eq_iff)
qed

lemma delete_embedded_loop:
  assumes "caches_inv ct s" "distinct ks"
    and "\<forall>ekey\<in>set ks. emb_of s ekey = [] \<and> ds_deref s (fst ekey) (snd ekey) \<noteq> None"
    and del: "\<And>obj s. \<exists>n. del obj s = ds_delete_fuel (Suc n) ct obj s"
  shows "\<exists>s'. run_each (delete_embedded_with del okey) ks s = (None, s') \<and> caches_inv ct s' \<and>
    emb_of s' = emb_of s \<and>
    (\<forall>ekey. map_of (ds_embedded_refs s') ekey =
       (if ekey \<in> set ks then
          if orphaned okey s ekey then None else Some (set_discard okey (refs_of s ekey))
        else map_of (ds_embedded_refs s) ekey)) \<and>
    (\<forall>m j. ds_deref s' m j =
       (if (m, j) \<in> set ks \<and> orphaned okey s (m, j) then None else ds_deref s m j))"
  using assms(1-3)
proof (induction ks arbitrary: s)
  case Nil
  then show ?case by simp
next
  case (Cons k ks)
  from delete_embedded_step [OF Cons.prems(1) _ _ del, of k okey] Cons.prems(3) obtain s1 where
    s1: "delete_embedded_with del okey k s = (None, s1)" "caches_inv ct s1" "emb_of s1 = emb_of s"
      "map_of (ds_embedded_refs s1) = (map_of (ds_embedded_refs s))(k :=
         if orphaned okey s k then None else Some (set_discard okey (refs_of s k)))"
      "\<And>m j. ds_deref s1 m j =
         (if (m, j) = k \<and> orphaned okey s k then None else ds_deref s m j)"
    by auto
  have other: "refs_of s1 ekey = refs_of s ekey" "orphaned okey s1 ekey = orphaned okey s ekey"
    if "ekey \<noteq> k" for ekey
    using that s1(4) by (simp_all add: refs_of_def orphaned_def)
  have "\<forall>ekey\<in>set ks. emb_of s1 ekey = [] \<and> ds_deref s1 (fst ekey) (snd ekey) \<noteq> None"
    using Cons.prems(2,3) s1(3,5) by auto
  from Cons.IH [OF s1(2) _ this] Cons.prems(2) obtain s2 where
    s2: "run_each (delete_embedded_with del okey) ks s1 = (None, s2)" "caches_inv ct s2"
      "emb_of s2 = emb_of s1"
      "\<And>ekey. map_of (ds_embedded_refs s2) ekey =
         (if ekey \<in> set ks then
            if orphaned okey s1 ekey then None else Some (set_discard okey (refs_of s1 ekey))
          else map_of (ds_embedded_refs s1) ekey)"
      "\<And>m j. ds_deref s2 m j =
         (if (m, j) \<in> set ks \<and> orphaned okey s1 (m, j) then None else ds_deref s1 m j)"
    by auto
  have "map_of (ds_embedded_refs s2) ekey =
      (if ekey \<in> set (k # ks) then
         if orphaned okey s ekey then None else Some (set_discard okey (refs_of s ekey))
       else map_of (ds_embedded_refs s) ekey)" for ekey
    using Cons.prems(2) s1(4) by (cases "ekey = k") (simp_all add: s2(4) other)
  moreover have "ds_deref s2 m j =
      (if (m, j) \<in> set (k # ks) \<and> orphaned okey s (m, j) then None else ds_deref s m j)" for m j
    using Cons.prems(2) by (cases "(m, j) = k") (auto simp: s2(5) s1(5) other)
  ultimately show ?case using s1 s2(1-3) by simp
qed

lemma ds_delete_effect:
  assumes "ds_inv ct s" "obj_id obj = Inr i" "k = (obj_class obj, i)"
    and "ds_deref s (obj_class obj) i \<noteq> None" "refs_of s k = []"
  shows "\<exists>s'. ds_delete ct obj s = (None, s') \<and> caches_inv ct s' \<and> emb_of s' = (emb_of s)(k := []) \<and>
    (\<forall>ekey. map_of (ds_embedded_refs s') ekey =
       (if ekey \<in> set (emb_of s k) then
          if orphaned k s ekey then None else Some (set_discard k (refs_of s ekey))
        else map_of (ds_embedded_refs s) ekey)) \<and>
    (\<forall>m j. ds_deref s' m j =
       (if (m, j) = k \<or> (m, j) \<in> set (emb_of s k) \<and> orphaned k s (m, j) then None
        else ds_deref s m j))"
proof -
  let ?s1 = "s\<lparr>ds_obj_to_embedded := AList.delete k (ds_obj_to_embedded s)\<rparr>"
  let ?L = "length (ds_obj_to_embedded s)"
  note link = ds_invD(2) [OF assms(1), of _ k] and emb = ds_invD(5) [OF assms(1)]
    and inv = ds_invD(1) [OF assms(1)] ds_invD(3) [OF assms(1), of k]
  have subs: "emb_of ?s1 ekey = [] \<and> ds_deref ?s1 (fst ekey) (snd ekey) \<noteq> None"
    if "ekey \<in> set (emb_of s k)" for ekey
  proof -
    from that link [of ekey] have "refs_of s ekey \<noteq> []" by auto
    with emb [of ekey] show ?thesis by simp
  qed
  have orph: "orphaned k ?s1 = orphaned k s" by (auto simp: orphaned_def fun_eq_iff)
  have loop: "\<exists>s2. run_each (delete_embedded_with (ds_delete_fuel ?L ct) k) (emb_of s k) ?s1 = (None, s2) \<and>
      caches_inv ct s2 \<and> emb_of s2 = (emb_of s)(k := []) \<and>
      (\<forall>ekey. map_of (ds_embedded_refs s2) ekey =
         (if ekey \<in> set (emb_of s k) then
            if orphaned k s ekey then None else Some (set_discard k (refs_of s ekey))
          else map_of (ds_embedded_refs s) ekey)) \<and>
      (\<forall>m j. ds_deref s2 m j =
         (if (m, j) \<in> set (emb_of s k) \<and> orphaned k s (m, j) then None else ds_deref s m j))"
  proof (cases ?L)
    case 0
    then show ?thesis using inv by (auto simp: emb_of_def)
  next
    case (Suc n)
    then have del: "\<exists>n. ds_delete_fuel ?L ct obj t = ds_delete_fuel (Suc n) ct obj t" for obj t
      by metis
    have "caches_inv ct ?s1" "\<forall>ekey\<in>set (emb_of s k).
        emb_of ?s1 ekey = [] \<and> ds_deref ?s1 (fst ekey) (snd ekey) \<noteq> None"
      using inv subs by simp_all
    from delete_embedded_loop [OF this(1) inv(2) this(2) del, of k, unfolded orph]
    show ?thesis by (simp cong: if_cong split del: if_split)
  qed
  then obtain s2 where s2: "run_each (delete_embedded_with (ds_delete_fuel ?L ct) k) (emb_of s k) ?s1 = (None, s2)"
      "caches_inv ct s2" "emb_of s2 = (emb_of s)(k := [])"
      "\<And>ekey. map_of (ds_embedded_refs s2) ekey =
         (if ekey \<in> set (emb_of s k) then
            if orphaned k s ekey then None else Some (set_discard k (refs_of s ekey))
          else map_of (ds_embedded_refs s) ekey)"
      "\<And>m j. ds_deref s2 m j =
         (if (m, j) \<in> set (emb_of s k) \<and> orphaned k s (m, j) then None else ds_deref s m j)"
    by blast
  have "k \<notin> set (emb_of s k)" using link [of k] assms(5) by simp
  then have "ds_deref s2 (obj_class obj) i \<noteq> None" using assms(3,4) s2(5) by simp
  from cache_delete [OF s2(2) assms(2) this] obtain s3 where
    s3: "on_cache ct (obj_class obj) (mc_delete obj) s2 = (None, s3)" "caches_inv ct s3"
      "ds_obj_to_embedded s3 = ds_obj_to_embedded s2" "ds_embedded_refs s3 = ds_embedded_refs s2"
      "\<And>m j. ds_deref s3 m j = (if (m, j) = k then None else ds_deref s2 m j)"
    using assms(3) by auto
  have "ds_delete ct obj s = (None, s3)"
    using s2(1) s3(1) assms(2,3)
    by (simp add: ds_delete_def ds_obj_key_def Let_def emb_of_def)
  moreover have "emb_of s3 = (emb_of s)(k := [])" using s2(3) s3(3) by (simp add: emb_of_def fun_eq_iff)
  ultimately show ?thesis using s3 s2(4,5) by (intro exI [of _ s3]) auto
qed

lemma ds_delete_correct:
  assumes "ds_inv ct s" "obj_id obj = Inr i" "ds_deref s (obj_class obj) i \<noteq> None"
    and "refs_of s (obj_class obj, i) = []"
  shows "\<exists>s'. ds_delete ct obj s = (None, s') \<and> ds_inv ct s' \<and>
    (\<forall>m j. ds_deref s' m j =
       (if (m, j) = (obj_class obj, i) \<or> set (refs_of s (m, j)) = {(obj_class obj, i)}
        then None else ds_deref s m j))"
proof -
  define k where "k = (obj_class obj, i)"
  from ds_delete_effect [OF assms(1,2) k_def assms(3)] assms(4) obtain s' where
    s': "ds_delete ct obj s = (None, s')" "caches_inv ct s'" "emb_of s' = (emb_of s)(k := [])"
      "\<And>ekey. map_of (ds_embedded_refs s') ekey =
         (if ekey \<in> set (emb_of s k) then
            if orphaned k s ekey then None else Some (set_discard k (refs_of s ekey))
          else map_of (ds_embedded_refs s) ekey)"
      "\<And>m j. ds_deref s' m j =
         (if (m, j) = k \<or> (m, j) \<in> set (emb_of s k) \<and> orphaned k s (m, j) then None
          else ds_deref s m j)"
    by (auto simp: k_def)
  note inv = ds_invD [OF assms(1)]
  note link = inv(2) [of _ k]
  have orph: "ekey \<in> set (emb_of s k) \<and> orphaned k s ekey \<longleftrightarrow> set (refs_of s ekey) = {k}" for ekey
    unfolding link by (auto simp: orphaned_def set_discard_def filter_empty_conv)
  have refs: "set (refs_of s' ekey) = set (refs_of s ekey) - {k}" for ekey
    using link [of ekey] s'(4) [of ekey] orph [of ekey] by (auto simp: refs_of_def)
  have "refs_of s' ekey \<noteq> [] \<Longrightarrow>
      emb_of s' ekey = [] \<and> ds_deref s' (fst ekey) (snd ekey) \<noteq> None" for ekey
  proof -
    assume "refs_of s' ekey \<noteq> []"
    then have ne: "set (refs_of s ekey) - {k} \<noteq> {}" unfolding refs [of ekey, symmetric] by simp
    then have "refs_of s ekey \<noteq> []" "ekey \<noteq> k" "set (refs_of s ekey) \<noteq> {k}"
      using assms(4) by (auto simp: k_def)
    moreover from this(3) have "ds_deref s' (fst ekey) (snd ekey) = ds_deref s (fst ekey) (snd ekey)"
      using s'(5) [of "fst ekey" "snd ekey"] orph [of ekey] \<open>ekey \<noteq> k\<close> by simp
    ultimately show ?thesis using inv(5) [of ekey] s'(3) by simp
  qed
  moreover have "map_of (ds_embedded_refs s') ekey \<noteq> Some []" for ekey
    using s'(4) [of ekey] inv(4) [of ekey] by (auto simp: orphaned_def)
  moreover have "ekey \<in> set (emb_of s' okey) \<longleftrightarrow> okey \<in> set (refs_of s' ekey)" for okey ekey
    using inv(2) [of ekey okey] inv(2) [of ekey k] unfolding refs s'(3) by auto
  ultimately have "ds_inv ct s'"
    using s'(2,3) inv(3) unfolding ds_inv_def by auto
  moreover have "ds_deref s' m j =
      (if (m, j) = k \<or> set (refs_of s (m, j)) = {k} then None else ds_deref s m j)" for m j
    unfolding s'(5) orph ..
  ultimately show ?thesis using s'(1) unfolding k_def by blast
qed

text \<open>
  C9. Deleting an object deletes the embedded objects that nothing else embeds, and only them:
  in a store that satisfies the invariant, deleting a stored object that is itself not embedded
  returns, keeps the invariant, and afterwards exactly the object and the embedded objects it
  was the only owner of are gone; embedded objects with another owner stay.
\<close>

theorem store_delete_cascades:
  assumes "ds_inv ct s" "obj_id obj = Inr i" "ds_deref s (obj_class obj) i \<noteq> None"
    and "refs_of s (obj_class obj, i) = []"
  shows "\<exists>s'. ds_delete ct obj s = (None, s') \<and> ds_inv ct s' \<and>
    (\<forall>m j. ds_deref s' m j =
       (if (m, j) = (obj_class obj, i) \<or> set (refs_of s (m, j)) = {(obj_class obj, i)}
        then None else ds_deref s m j))"
  by (rule ds_delete_correct [OF assms])

subsection \<open>Updating an owner\<close>

definition sub_key :: "pyval \<Rightarrow> obj_key" where
  "sub_key v = (obj_class v, projr (obj_id v))"

definition subobjects :: "class_table \<Rightarrow> pyval \<Rightarrow> (obj_key, pyval) dict" where
  "subobjects ct obj = map (\<lambda>v. (sub_key v, v)) (embedded_instances ct obj)"

text \<open>
  An object the store can take: its embedded objects have ids of their own, no embedded objects
  themselves, readable keys, and are not owners in the store already.
\<close>

definition leaf_object :: "class_table \<Rightarrow> pyval \<Rightarrow> bool" where
  "leaf_object ct v \<longleftrightarrow>
     \<not> isl (obj_id v) \<and> embedded_instances ct v = [] \<and> (\<forall>deref. indexable ct deref v)"

definition storable :: "class_table \<Rightarrow> db_store \<Rightarrow> pyval \<Rightarrow> bool" where
  "storable ct s obj \<longleftrightarrow> \<not> isl (obj_id obj) \<and> indexable ct (ds_deref s) obj \<and>
     refs_of s (sub_key obj) = [] \<and> wf_dict (subobjects ct obj) \<and>
     (\<forall>v\<in>set (embedded_instances ct obj).
        leaf_object ct v \<and> sub_key v \<noteq> sub_key obj \<and> emb_of s (sub_key v) = [])"

lemma sub_key_Inr: "\<not> isl (obj_id v) \<Longrightarrow> ds_obj_key v = Inr (sub_key v)"
  by (cases "obj_id v") (simp_all add: ds_obj_key_def sub_key_def)

lemma update_leaf:
  assumes "caches_inv ct s" "leaf_object ct v" "emb_of s (sub_key v) = []"
  shows "\<exists>s'. ds_update ct v s = (None, s') \<and> caches_inv ct s' \<and> emb_of s' = emb_of s \<and>
    ds_embedded_refs s' = ds_embedded_refs s \<and>
    (\<forall>m j. ds_deref s' m j = (if (m, j) = sub_key v then Some v else ds_deref s m j))"
proof -
  from assms(2) obtain i where i: "obj_id v = Inr i" "embedded_instances ct v = []"
      "indexable ct (ds_deref s) v" "sub_key v = (obj_class v, i)"
    by (cases "obj_id v") (auto simp: leaf_object_def sub_key_def)
  from cache_update [OF assms(1) i(1,3)] obtain s1 where
    s1: "on_cache ct (obj_class v) (mc_update ct (ds_deref s) v) s = (None, s1)" "caches_inv ct s1"
      "ds_obj_to_embedded s1 = ds_obj_to_embedded s" "ds_embedded_refs s1 = ds_embedded_refs s"
      "\<forall>m j. ds_deref s1 m j = (if (m, j) = sub_key v then Some v else ds_deref s m j)"
    unfolding i(4) by blast
  have old: "emb_of s1 = emb_of s" by (simp add: emb_of_def s1(3) fun_eq_iff)
  have "ds_update ct v s =
      (None, s1\<lparr>ds_obj_to_embedded := AList.update (sub_key v) [] (ds_obj_to_embedded s1)\<rparr>)"
    using assms(3)
    by (simp add: ds_update.simps [of ct v] s1(1) i(2) sub_key_Inr i(1) Let_def set_diff_def
        emb_of_def [symmetric] old)
  moreover have "emb_of (s1\<lparr>ds_obj_to_embedded :=
      AList.update (sub_key v) [] (ds_obj_to_embedded s1)\<rparr>) = emb_of s"
    using assms(3) by (simp add: old fun_eq_iff)
  ultimately show ?thesis using s1(2,4,5) by auto
qed

lemma update_leaves:
  assumes "caches_inv ct s" "\<forall>v\<in>set vs. leaf_object ct v \<and> emb_of s (sub_key v) = []"
    and "distinct (map sub_key vs)"
  shows "\<exists>s'. run_each (\<lambda>v s. and_then (ds_update ct v s) (link_embedded okey v)) vs s = (None, s') \<and>
    caches_inv ct s' \<and> emb_of s' = emb_of s \<and>
    (\<forall>ekey. map_of (ds_embedded_refs s') ekey =
       (if ekey \<in> sub_key ` set vs then Some (set_add okey (refs_of s ekey))
        else map_of (ds_embedded_refs s) ekey)) \<and>
    (\<forall>m j. ds_deref s' m j =
       (case map_of (map (\<lambda>v. (sub_key v, v)) vs) (m, j) of
          Some v \<Rightarrow> Some v | None \<Rightarrow> ds_deref s m j))"
  using assms
proof (induction vs arbitrary: s)
  case Nil
  then show ?case by simp
next
  case (Cons v vs)
  from update_leaf [of ct s v] Cons.prems(1,2) obtain s1 where
    s1: "ds_update ct v s = (None, s1)" "caches_inv ct s1" "emb_of s1 = emb_of s"
      "ds_embedded_refs s1 = ds_embedded_refs s"
      "\<And>m j. ds_deref s1 m j = (if (m, j) = sub_key v then Some v else ds_deref s m j)" by auto
  let ?s2 = "s1\<lparr>ds_embedded_refs :=
    AList.update (sub_key v) (set_add okey (refs_of s1 (sub_key v))) (ds_embedded_refs s1)\<rparr>"
  have "\<forall>v\<in>set vs. leaf_object ct v \<and> emb_of ?s2 (sub_key v) = []"
    using Cons.prems(2) s1(3) by simp
  from Cons.IH [of ?s2, OF _ this] s1(2) Cons.prems(3) obtain s3 where
    s3: "run_each (\<lambda>v s. and_then (ds_update ct v s) (link_embedded okey v)) vs ?s2 = (None, s3)"
      "caches_inv ct s3" "emb_of s3 = emb_of ?s2"
      "\<And>ekey. map_of (ds_embedded_refs s3) ekey =
         (if ekey \<in> sub_key ` set vs then Some (set_add okey (refs_of ?s2 ekey))
          else map_of (ds_embedded_refs ?s2) ekey)"
      "\<And>m j. ds_deref s3 m j =
         (case map_of (map (\<lambda>v. (sub_key v, v)) vs) (m, j) of
            Some v \<Rightarrow> Some v | None \<Rightarrow> ds_deref ?s2 m j)"
    by auto
  have r: "refs_of s1 = refs_of s" by (simp add: refs_of_def s1(4) fun_eq_iff)
  have nv: "sub_key v \<notin> sub_key ` set vs" using Cons.prems(3) by simp
  have "ds_obj_key v = Inr (sub_key v)" using Cons.prems(2) by (simp add: leaf_object_def sub_key_Inr)
  then have run: "run_each (\<lambda>v s. and_then (ds_update ct v s) (link_embedded okey v)) (v # vs) s = (None, s3)"
    using s3(1) by (simp add: s1(1) refs_of_def link_embedded_def)
  have r2: "refs_of ?s2 ekey = refs_of s ekey" if "ekey \<noteq> sub_key v" for ekey
    using that by (simp add: r)
  have "map_of (ds_embedded_refs s3) ekey =
      (if ekey \<in> sub_key ` set (v # vs) then Some (set_add okey (refs_of s ekey))
       else map_of (ds_embedded_refs s) ekey)" for ekey
    using nv r2 [of ekey] s1(4) by (cases "ekey = sub_key v") (simp_all only: s3(4), simp_all add: r)
  moreover have "ds_deref s3 m j =
      (case map_of (map (\<lambda>v. (sub_key v, v)) (v # vs)) (m, j) of
         Some v \<Rightarrow> Some v | None \<Rightarrow> ds_deref s m j)" for m j
  proof (cases "(m, j) = sub_key v")
    case True
    have "map_of (map (\<lambda>v. (sub_key v, v)) vs) (sub_key v) = None"
      using nv by (simp add: map_of_eq_None_iff image_image)
    with True show ?thesis by (simp add: s3(5) s1(5))
  next
    case False
    then show ?thesis by (simp add: s3(5) s1(5) split: option.splits)
  qed
  ultimately show ?case using run s3(2,3) s1(3) by (intro exI [of _ s3]) simp
qed

lemma sub_keys_new:
  assumes "\<forall>v\<in>set vs. \<not> isl (obj_id v)" "distinct (map sub_key vs)"
  shows "remdups (concat (map (\<lambda>v. case ds_obj_key v of Inr k \<Rightarrow> [k] | Inl e \<Rightarrow> []) vs)) =
    map sub_key vs"
proof -
  have "concat (map (\<lambda>v. case ds_obj_key v of Inr k \<Rightarrow> [k] | Inl e \<Rightarrow> []) vs) = map sub_key vs"
    using assms(1) by (induction vs) (simp_all add: sub_key_Inr)
  with assms(2) show ?thesis by (simp add: distinct_remdups_id)
qed

lemma ds_delete_is_fuel: "\<exists>n. ds_delete ct obj s = ds_delete_fuel (Suc n) ct obj s"
  unfolding ds_delete_def by blast

lemma ds_update_effect:
  assumes inv: "ds_inv ct s" and st: "storable ct s obj"
    and k: "k = sub_key obj" and vs: "vs = embedded_instances ct obj"
  shows "\<exists>s'. ds_update ct obj s = (None, s') \<and> caches_inv ct s' \<and>
    emb_of s' = (emb_of s)(k := map sub_key vs) \<and>
    (\<forall>ekey. map_of (ds_embedded_refs s') ekey =
       (if ekey \<in> sub_key ` set vs then Some (set_add k (refs_of s ekey))
        else if ekey \<in> set (emb_of s k) then
          if orphaned k s ekey then None else Some (set_discard k (refs_of s ekey))
        else map_of (ds_embedded_refs s) ekey)) \<and>
    (\<forall>m j. ds_deref s' m j =
       (if (m, j) = k then Some obj
        else case map_of (subobjects ct obj) (m, j) of
          Some v \<Rightarrow> Some v
        | None \<Rightarrow> if (m, j) \<in> set (emb_of s k) \<and> orphaned k s (m, j) then None
                  else ds_deref s m j))"
proof -
  from st have id: "\<not> isl (obj_id obj)" and ix: "indexable ct (ds_deref s) obj"
      and dk: "distinct (map sub_key vs)"
      and leaf: "\<forall>v\<in>set vs. leaf_object ct v \<and> emb_of s (sub_key v) = []"
      and nk: "k \<notin> sub_key ` set vs" and rk: "refs_of s k = []"
    by (auto simp: storable_def subobjects_def k vs comp_def)
  from id obtain i where i: "obj_id obj = Inr i" "k = (obj_class obj, i)"
    by (cases "obj_id obj") (auto simp: k sub_key_def)
  from cache_update [OF ds_invD(1) [OF inv] i(1) ix, folded i(2)] obtain s1 where
    s1: "on_cache ct (obj_class obj) (mc_update ct (ds_deref s) obj) s = (None, s1)" "caches_inv ct s1"
      "ds_obj_to_embedded s1 = ds_obj_to_embedded s" "ds_embedded_refs s1 = ds_embedded_refs s"
      "\<And>m j. ds_deref s1 m j = (if (m, j) = k then Some obj else ds_deref s m j)" by blast
  have e1: "emb_of s1 = emb_of s" "refs_of s1 = refs_of s"
    by (simp_all add: emb_of_def refs_of_def s1(3,4) fun_eq_iff)
  from update_leaves [OF s1(2) _ dk, of k] leaf obtain s2 where
    s2: "run_each (\<lambda>v s. and_then (ds_update ct v s) (link_embedded k v)) vs s1 = (None, s2)"
      "caches_inv ct s2" "emb_of s2 = emb_of s"
      "\<And>ekey. map_of (ds_embedded_refs s2) ekey =
         (if ekey \<in> sub_key ` set vs then Some (set_add k (refs_of s ekey))
          else map_of (ds_embedded_refs s) ekey)"
      "\<And>m j. ds_deref s2 m j =
         (case map_of (subobjects ct obj) (m, j) of Some v \<Rightarrow> Some v | None \<Rightarrow> ds_deref s1 m j)"
    by (auto simp: e1 s1(4) subobjects_def vs)
  let ?D = "set_diff (emb_of s k) (map sub_key vs)"
  have r2: "refs_of s2 ekey = refs_of s ekey" "orphaned k s2 ekey = orphaned k s ekey"
    if "ekey \<in> set ?D" for ekey
    using that s2(4) [of ekey] by (auto simp: refs_of_def orphaned_def)
  have "emb_of s2 ekey = [] \<and> ds_deref s2 (fst ekey) (snd ekey) \<noteq> None" if "ekey \<in> set ?D" for ekey
  proof -
    from that ds_invD(2) [OF inv, of ekey k] have "refs_of s ekey \<noteq> []" by auto
    from ds_invD(5) [OF inv this] show ?thesis by (simp add: s2(3,5) s1(5) split: option.splits)
  qed
  then have "\<forall>ekey\<in>set ?D. emb_of s2 ekey = [] \<and> ds_deref s2 (fst ekey) (snd ekey) \<noteq> None" by blast
  from delete_embedded_loop [OF s2(2) distinct_set_diff [OF ds_invD(3) [OF inv]] this
      ds_delete_is_fuel, of k, folded ds_delete_embedded_def, unfolded s2(3)]
  obtain s3 where
    s3: "run_each (ds_delete_embedded ct k) ?D s2 = (None, s3)" "caches_inv ct s3"
      "emb_of s3 = emb_of s"
      "\<And>ekey. map_of (ds_embedded_refs s3) ekey =
         (if ekey \<in> set ?D then
            if orphaned k s2 ekey then None else Some (set_discard k (refs_of s2 ekey))
          else map_of (ds_embedded_refs s2) ekey)"
      "\<And>m j. ds_deref s3 m j =
         (if (m, j) \<in> set ?D \<and> orphaned k s2 (m, j) then None else ds_deref s2 m j)"
    by blast
  let ?s' = "s3\<lparr>ds_obj_to_embedded := AList.update k (map sub_key vs) (ds_obj_to_embedded s3)\<rparr>"
  have "ds_update ct obj s = (None, ?s')"
    using s2(1) s3(1) leaf dk id
    by (simp add: ds_update.simps [of ct obj] s1(1) sub_key_Inr k [symmetric] vs [symmetric] Let_def
        sub_keys_new leaf_object_def emb_of_def [symmetric] s2(3))
  moreover have "map_of (ds_embedded_refs ?s') ekey =
       (if ekey \<in> sub_key ` set vs then Some (set_add k (refs_of s ekey))
        else if ekey \<in> set (emb_of s k) then
          if orphaned k s ekey then None else Some (set_discard k (refs_of s ekey))
        else map_of (ds_embedded_refs s) ekey)" for ekey
    using r2 [of ekey] by (auto simp: s3(4) s2(4))
  moreover have "ds_deref ?s' m j =
       (if (m, j) = k then Some obj
        else case map_of (subobjects ct obj) (m, j) of
          Some v \<Rightarrow> Some v
        | None \<Rightarrow> if (m, j) \<in> set (emb_of s k) \<and> orphaned k s (m, j) then None
                  else ds_deref s m j)" for m j
  proof -
    have dom: "map_of (subobjects ct obj) (m, j) = None \<longleftrightarrow> (m, j) \<notin> sub_key ` set vs"
      by (simp add: subobjects_def map_of_eq_None_iff image_image vs)
    have "k \<notin> set (emb_of s k)" using ds_invD(2) [OF inv, of k k] rk by simp
    then show ?thesis using r2(2) [of "(m, j)"] dom nk
      by (cases "(m, j) = k"; cases "map_of (subobjects ct obj) (m, j)") (auto simp: s3(5) s2(5) s1(5))
  qed
  ultimately show ?thesis using s3(2,3) by (intro exI [of _ ?s']) simp
qed

lemma ds_update_correct:
  assumes "ds_inv ct s" "storable ct s obj"
  shows "\<exists>s'. ds_update ct obj s = (None, s') \<and> ds_inv ct s' \<and>
    (\<forall>m j. ds_deref s' m j =
       (if (m, j) = sub_key obj then Some obj
        else case map_of (subobjects ct obj) (m, j) of
          Some v \<Rightarrow> Some v
        | None \<Rightarrow> if set (refs_of s (m, j)) = {sub_key obj} then None else ds_deref s m j))"
proof -
  define k where "k = sub_key obj"
  define vs where "vs = embedded_instances ct obj"
  note inv = ds_invD [OF assms(1)]
  from ds_update_effect [OF assms k_def vs_def] obtain s' where
    s': "ds_update ct obj s = (None, s')" "caches_inv ct s'"
      "emb_of s' = (emb_of s)(k := map sub_key vs)"
      "\<And>ekey. map_of (ds_embedded_refs s') ekey =
       (if ekey \<in> sub_key ` set vs then Some (set_add k (refs_of s ekey))
        else if ekey \<in> set (emb_of s k) then
          if orphaned k s ekey then None else Some (set_discard k (refs_of s ekey))
        else map_of (ds_embedded_refs s) ekey)"
      "\<And>m j. ds_deref s' m j =
       (if (m, j) = k then Some obj
        else case map_of (subobjects ct obj) (m, j) of
          Some v \<Rightarrow> Some v
        | None \<Rightarrow> if (m, j) \<in> set (emb_of s k) \<and> orphaned k s (m, j) then None
                  else ds_deref s m j)"
    by blast
  have orph: "ekey \<in> set (emb_of s k) \<and> orphaned k s ekey \<longleftrightarrow> set (refs_of s ekey) = {k}" for ekey
    unfolding inv(2) by (auto simp: orphaned_def set_discard_def filter_empty_conv)
  have refs: "set (refs_of s' ekey) =
      (if ekey \<in> sub_key ` set vs then insert k (set (refs_of s ekey))
       else set (refs_of s ekey) - {k})" for ekey
    using inv(2) [of ekey k] orph [of ekey] s'(4) [of ekey] by (auto simp: refs_of_def)
  have nk: "k \<notin> sub_key ` set vs" and rk: "refs_of s k = []"
    and dk: "distinct (map sub_key vs)" and leaf: "\<forall>v\<in>set vs. emb_of s (sub_key v) = []"
    using assms(2) by (auto simp: storable_def k_def vs_def subobjects_def comp_def)
  have dom: "map_of (subobjects ct obj) ekey = None \<longleftrightarrow> ekey \<notin> sub_key ` set vs" for ekey
    by (simp add: subobjects_def map_of_eq_None_iff image_image vs_def)
  have "emb_of s' ekey = [] \<and> ds_deref s' (fst ekey) (snd ekey) \<noteq> None"
    if ne: "refs_of s' ekey \<noteq> []" for ekey
  proof (cases "ekey \<in> sub_key ` set vs")
    case True
    then have "ekey \<noteq> k" using nk by auto
    then show ?thesis using True leaf s'(3) s'(5) [of "fst ekey" "snd ekey"] dom [of ekey]
      by (auto split: option.splits)
  next
    case False
    with ne refs [of ekey] have ne': "set (refs_of s ekey) - {k} \<noteq> {}" by (metis set_empty)
    then have "refs_of s ekey \<noteq> []" "ekey \<noteq> k" "set (refs_of s ekey) \<noteq> {k}" using rk by auto
    then show ?thesis using False inv(5) [of ekey] s'(3) s'(5) [of "fst ekey" "snd ekey"]
        dom [of ekey] orph [of ekey] by simp
  qed
  moreover have "map_of (ds_embedded_refs s') ekey \<noteq> Some []" for ekey
    using s'(4) [of ekey] inv(4) [of ekey] by (auto simp: orphaned_def set_add_def)
  moreover have "ekey \<in> set (emb_of s' okey) \<longleftrightarrow> okey \<in> set (refs_of s' ekey)" for okey ekey
    using inv(2) [of ekey okey] unfolding refs s'(3) by auto
  ultimately have "ds_inv ct s'"
    using s'(2,3) inv(3) dk unfolding ds_inv_def by auto
  moreover have "ds_deref s' m j =
      (if (m, j) = k then Some obj
       else case map_of (subobjects ct obj) (m, j) of
         Some v \<Rightarrow> Some v
       | None \<Rightarrow> if set (refs_of s (m, j)) = {k} then None else ds_deref s m j)" for m j
    unfolding s'(5) orph ..
  ultimately show ?thesis using s'(1) unfolding k_def by blast
qed

text \<open>
  C2. Storing an object keeps the embedded objects in step with it: in a store that satisfies
  the invariant, \<open>update\<close> of a storable object returns and keeps the invariant; afterwards the
  object and every object embedded in it are stored as given, the objects embedded in the
  previous version alone are gone, and everything else is unchanged.
\<close>

theorem store_update_replaces_embedded:
  assumes "ds_inv ct s" "storable ct s obj"
  shows "\<exists>s'. ds_update ct obj s = (None, s') \<and> ds_inv ct s' \<and>
    (\<forall>m j. ds_deref s' m j =
       (if (m, j) = sub_key obj then Some obj
        else case map_of (subobjects ct obj) (m, j) of
          Some v \<Rightarrow> Some v
        | None \<Rightarrow> if set (refs_of s (m, j)) = {sub_key obj} then None else ds_deref s m j))"
  by (rule ds_update_correct [OF assms])

text \<open>A policy with one rule, as an example of an owner.\<close>

definition qos_rule :: pyval where
  "qos_rule = PObj ''QosPolicyRule'' [(''id'', PStr ''r''), (''type'', PStr ''dscp'')]"

definition qos_policy :: pyval where
  "qos_policy = PObj ''QosPolicy''
     [(''id'', PStr ''p''), (''topic'', PStr ''t''), (''rules'', PList [qos_rule])]"

lemma qos_policy_storable:
  "storable df_classes empty_store qos_policy"
  "sub_key qos_policy = (''QosPolicy'', ''p'')"
  "subobjects df_classes qos_policy = [((''QosPolicyRule'', ''r''), qos_rule)]"
proof -
  have emb: "embedded_instances df_classes qos_policy = [qos_rule]"
    "embedded_instances df_classes qos_rule = []"
    by (simp_all add: embedded_instances_def qos_policy_def qos_rule_def class_fields_def
        class_decl_defs embedded_values_def is_model_instance_def)
  have ids: "obj_id qos_policy = Inr ''p''" "obj_id qos_rule = Inr ''r''"
    "obj_class qos_policy = ''QosPolicy''" "obj_class qos_rule = ''QosPolicyRule''"
    by (simp_all add: qos_policy_def qos_rule_def obj_id_def)
  have "new_model_cache df_classes ''QosPolicyRule'' = \<lparr>mc_objs = [], mc_indexes = []\<rparr>"
    "dict_keys (mc_indexes (new_model_cache df_classes ''QosPolicy'')) = [[''topic'']]"
    by (simp_all add: new_model_cache_def get_indexes_def class_decl_defs id_index_def)
  moreover have "ic_get_keys df_classes deref [''topic''] qos_policy = Inr [[Some (PStr ''t'')]]" for deref
    by (simp add: qos_policy_def key_simps)
  ultimately have ix: "indexable df_classes deref qos_policy" "indexable df_classes deref qos_rule" for deref
    by (simp_all add: indexable_def ids)
  show "sub_key qos_policy = (''QosPolicy'', ''p'')"
    "subobjects df_classes qos_policy = [((''QosPolicyRule'', ''r''), qos_rule)]"
    by (simp_all add: sub_key_def ids subobjects_def emb)
  show "storable df_classes empty_store qos_policy"
    by (simp add: storable_def emb ids ix leaf_object_def subobjects_def sub_key_def
        refs_of_def emb_of_def empty_store_def)
qed

theorem store_update_replaces_embedded_witness:
  "\<exists>s. ds_update df_classes qos_policy empty_store = (None, s) \<and>
     ds_deref s ''QosPolicyRule'' ''r'' = Some qos_rule"
  using store_update_replaces_embedded [OF ds_inv_empty qos_policy_storable(1)]
  by (auto simp: qos_policy_storable)

theorem store_delete_cascades_witness:
  "\<exists>s s'. ds_update df_classes qos_policy empty_store = (None, s) \<and>
     ds_delete df_classes (PObj ''QosPolicy'' [(''id'', PStr ''p'')]) s = (None, s') \<and>
     ds_deref s ''QosPolicyRule'' ''r'' \<noteq> None \<and> ds_deref s' ''QosPolicyRule'' ''r'' = None"
proof -
  let ?o = "PObj ''QosPolicy'' [(''id'', PStr ''p'')]"
  let ?k = "(''QosPolicy'', ''p'')"
  from ds_update_correct [OF ds_inv_empty qos_policy_storable(1)] obtain s where
    s: "ds_update df_classes qos_policy empty_store = (None, s)" "ds_inv df_classes s"
      "ds_deref s ''QosPolicy'' ''p'' \<noteq> None" "ds_deref s ''QosPolicyRule'' ''r'' \<noteq> None"
    by (auto simp: qos_policy_storable)
  have emb: "embedded_instances df_classes qos_policy = [qos_rule]"
    "sub_key qos_rule = (''QosPolicyRule'', ''r'')"
    using qos_policy_storable(3) by (auto simp: subobjects_def)
  from ds_update_effect [OF ds_inv_empty qos_policy_storable(1) refl refl] s(1)
  have refs: "refs_of s ?k = []" "refs_of s (''QosPolicyRule'', ''r'') = [?k]"
    by (auto simp: refs_of_def emb qos_policy_storable(2) set_add_def empty_store_def emb_of_def)
  from store_delete_cascades [OF s(2), of ?o "''p''"] s(3) refs s(1,4) show ?thesis by auto
qed

section \<open>Clearing the store\<close>

lemma mc_delete_missing:
  assumes "mc_inv mc" "obj_id obj = Inr i" "map_of (mc_objs mc) i = None"
  shows "fst (mc_delete obj mc) = Some KeyError"
proof (cases "mc_indexes mc")
  case Nil
  then show ?thesis using assms by (simp add: mc_delete_def)
next
  case (Cons p ixs)
  obtain ix ic where p: "p = (ix, ic)" by (cases p)
  have "map_of (ic_keys ic) i = None"
    using mc_invD(3) [OF assms(1), of ix ic] assms(3) by (auto simp: Cons p)
  then have "ic_delete obj ic = Inl KeyError" by (simp add: ic_delete_def assms(2))
  then show ?thesis using Cons by (simp add: mc_delete_def p)
qed

lemma mc_clear:
  assumes "mc_inv mc" "set vs \<subseteq> ran (map_of (mc_objs mc))" "distinct (map (\<lambda>v. projr (obj_id v)) vs)"
  shows "\<exists>mc'. run_each mc_delete vs mc = (None, mc')"
  using assms
proof (induction vs arbitrary: mc)
  case Nil
  then show ?case by simp
next
  case (Cons v vs)
  from Cons.prems(1,2) obtain i where i: "map_of (mc_objs mc) i = Some v" "obj_id v = Inr i"
    by (auto simp: mc_inv_def ran_def)
  from mc_delete_correct [OF Cons.prems(1) i(2)] i(1) obtain mc1 where
    1: "mc_delete v mc = (None, mc1)" "mc_inv mc1" "mc_objs mc1 = AList.delete i (mc_objs mc)" by auto
  have "w \<in> ran (map_of (mc_objs mc1))" if "w \<in> set vs" for w
  proof -
    from that Cons.prems(2) obtain j where j: "map_of (mc_objs mc) j = Some w"
      by (auto simp: ran_def)
    then have "obj_id w = Inr j" using Cons.prems(1) by (simp add: mc_inv_def)
    then have "j \<noteq> i" using Cons.prems(3) that i(2) by force
    with j show ?thesis by (auto simp: 1(3) ran_def)
  qed
  with Cons.IH [OF 1(2)] Cons.prems(3) show ?case by (auto simp: 1(1))
qed

lemma ds_clear_returns:
  assumes "caches_inv ct s" "wf_dict (ds_cache s)"
  shows "ds_clear s = (None, s\<lparr>ds_cache := []\<rparr>)"
proof -
  let ?f = "\<lambda>(model, mc) s. (case run_each mc_delete (dict_values (mc_objs mc)) mc of
             (err, mc') \<Rightarrow> (err, s\<lparr>ds_cache := AList.update model mc' (ds_cache s)\<rparr>))"
  have clear: "\<exists>mc'. run_each mc_delete (dict_values (mc_objs mc)) mc = (None, mc')"
    if "(model, mc) \<in> set (ds_cache s)" for model mc
  proof -
    have inv: "mc_inv mc" using assms that by (auto simp: caches_inv_def wf_dict_map_of_iff)
    have "obj_id (snd p) = Inr (fst p)" if "p \<in> set (mc_objs mc)" for p
      using that inv map_of_is_SomeI [of "mc_objs mc" "fst p" "snd p"] by (simp add: mc_inv_def)
    then have "map (\<lambda>v. projr (obj_id v)) (dict_values (mc_objs mc)) = dict_keys (mc_objs mc)"
      by simp
    moreover have "set (dict_values (mc_objs mc)) \<subseteq> ran (map_of (mc_objs mc))"
      using inv by (simp add: mc_inv_def ran_distinct)
    moreover have "wf_dict (mc_objs mc)" using inv by (simp add: mc_inv_def)
    ultimately show ?thesis using mc_clear [OF inv, of "dict_values (mc_objs mc)"] by metis
  qed
  have "\<exists>t. run_each ?f (ds_cache s) s = (None, t) \<and> (\<exists>c. t = s\<lparr>ds_cache := c\<rparr>)"
  proof (rule run_each_invariant [where P = "\<lambda>t. \<exists>c. t = s\<lparr>ds_cache := c\<rparr>"])
    show "\<exists>c. s = s\<lparr>ds_cache := c\<rparr>" by (rule exI [of _ "ds_cache s"]) simp
  next
    fix x t assume x: "x \<in> set (ds_cache s)" and "\<exists>c. t = s\<lparr>ds_cache := c\<rparr>"
    then obtain c model mc where t: "t = s\<lparr>ds_cache := c\<rparr>" "x = (model, mc)"
      by (metis surj_pair)
    with x clear [of model mc] obtain mc' where
      "run_each mc_delete (dict_values (mc_objs mc)) mc = (None, mc')" by blast
    then show "fst (?f x t) = None \<and> (\<exists>c. snd (?f x t) = s\<lparr>ds_cache := c\<rparr>)" by (auto simp: t)
  qed
  then show ?thesis by (auto simp: ds_clear_def)
qed

lemma on_cache_wf: "wf_dict (ds_cache s) \<Longrightarrow> wf_dict (ds_cache (snd (on_cache ct m f s)))"
  by (simp add: on_cache_def split: prod.splits)

lemma and_then_snd:
  "P (snd r) \<Longrightarrow> (\<And>s. P s \<Longrightarrow> P (snd (f s))) \<Longrightarrow> P (snd (and_then r f))"
  by (cases r; cases "fst r") (auto simp: and_then_def)

lemma with_value_snd:
  "P s \<Longrightarrow> (\<And>x s. P s \<Longrightarrow> P (snd (f x s))) \<Longrightarrow> P (snd (with_value r f s))"
  by (cases r) simp_all

lemma run_each_snd:
  "P s \<Longrightarrow> (\<And>x s. x \<in> set xs \<Longrightarrow> P s \<Longrightarrow> P (snd (f x s))) \<Longrightarrow> P (snd (run_each f xs s))"
  by (induction xs arbitrary: s) (simp_all add: and_then_snd)

lemma ds_delete_wf_cache:
  "wf_dict (ds_cache s) \<Longrightarrow> wf_dict (ds_cache (snd (ds_delete_fuel n ct obj s)))"
proof (induction n arbitrary: obj s)
  case 0
  then show ?case by simp
next
  case (Suc n)
  then show ?case
    by (auto simp: Let_def delete_embedded_with_def
        intro!: with_value_snd [where P = "\<lambda>s. wf_dict (ds_cache s)"]
          and_then_snd [where P = "\<lambda>s. wf_dict (ds_cache s)"]
          run_each_snd [where P = "\<lambda>s. wf_dict (ds_cache s)"] on_cache_wf)
qed

lemma ds_update_wf_cache:
  "wf_dict (ds_cache s) \<Longrightarrow> wf_dict (ds_cache (snd (ds_update ct obj s)))"
proof (induction ct obj s rule: ds_update.induct)
  case (1 ct obj s)
  then show ?case
    by (subst ds_update.simps)
       (auto simp: Let_def link_embedded_def ds_delete_embedded_def delete_embedded_with_def ds_delete_def
        intro!: with_value_snd [where P = "\<lambda>s. wf_dict (ds_cache s)"]
          and_then_snd [where P = "\<lambda>s. wf_dict (ds_cache s)"]
          run_each_snd [where P = "\<lambda>s. wf_dict (ds_cache s)"] on_cache_wf ds_delete_wf_cache)
qed

text \<open>
  Clearing the store forgets the objects but not who embedded what: after \<open>clear\<close>, storing
  a new version of an object that no longer embeds an object its old version alone had embedded
  raises KeyError, because the cascade deletes an object that is no longer there.
\<close>

theorem store_clear_keeps_embedding_records:
  assumes "ds_inv ct s" "wf_dict (ds_cache s)"
    and "emb_of s (sub_key obj) = [ekey]" "refs_of s ekey = [sub_key obj]"
    and "\<not> isl (obj_id obj)" "embedded_instances ct obj = []" "indexable ct (\<lambda>m i. None) obj"
    and "fst ekey \<noteq> obj_class obj"
  shows "\<exists>s1 s2. ds_clear s = (None, s1) \<and> ds_update ct obj s1 = (Some KeyError, s2)"
proof -
  let ?k = "sub_key obj" and ?s1 = "s\<lparr>ds_cache := []\<rparr>"
  let ?stub = "PObj (fst ekey) [(''id'', PStr (snd ekey))]"
  obtain i where i: "obj_id obj = Inr i" "?k = (obj_class obj, i)"
    using assms(5) by (cases "obj_id obj") (auto simp: sub_key_def)
  have inv1: "caches_inv ct ?s1" "ds_deref ?s1 = (\<lambda>m i. None)"
    by (simp_all add: caches_inv_def ds_deref_def fun_eq_iff)
  from cache_update [OF inv1(1) i(1), of "ds_deref ?s1"] assms(7) obtain s2 where
    s2: "on_cache ct (obj_class obj) (mc_update ct (ds_deref ?s1) obj) ?s1 = (None, s2)"
      "caches_inv ct s2" "ds_obj_to_embedded s2 = ds_obj_to_embedded s"
      "ds_embedded_refs s2 = ds_embedded_refs s" "ds_deref s2 (fst ekey) (snd ekey) = None"
    using assms(8) by (auto simp: inv1(2))
  have e2: "emb_of s2 = emb_of s" "refs_of s2 = refs_of s"
    by (simp_all add: emb_of_def refs_of_def s2(3,4) fun_eq_iff)
  have flat: "emb_of s ekey = []" using ds_invD(5) [OF assms(1), of ekey] assms(4) by simp
  let ?s3 = "s2\<lparr>ds_embedded_refs := AList.update ekey [] (ds_embedded_refs s2)\<rparr>"
  let ?s4 = "?s3\<lparr>ds_obj_to_embedded := AList.delete ekey (ds_obj_to_embedded ?s3)\<rparr>"
  have "fst (mc_delete ?stub (ds_get_cache ct (fst ekey) ?s4)) = Some KeyError"
    by (rule mc_delete_missing [OF get_cache_inv(1)]) (use s2 in \<open>simp_all add: get_cache_inv(3)\<close>)
  then have del: "fst (ds_delete ct ?stub ?s3) = Some KeyError"
    using flat e2(1) by (simp add: ds_delete_def Let_def emb_of_def [symmetric] on_cache_def)
       (auto split: prod.splits)
  then have "fst (ds_delete_embedded ct ?k ekey s2) = Some KeyError"
    using assms(4) e2(2)
    by (cases "ds_delete ct ?stub ?s3")
       (auto simp: ds_delete_embedded_def delete_embedded_with_def refs_of_def [symmetric]
          set_discard_def Let_def)
  then have "fst (ds_update ct obj ?s1) = Some KeyError"
    using assms(3)
    by (cases "ds_delete_embedded ct ?k ekey s2")
       (simp add: ds_update.simps [of ct obj ?s1] s2(1) sub_key_Inr [OF assms(5)] assms(6) Let_def
          emb_of_def [symmetric] e2(1) set_diff_def)
  then show ?thesis
    using ds_clear_returns [OF ds_invD(1) [OF assms(1)] assms(2)]
    by (cases "ds_update ct obj ?s1") auto
qed

theorem store_clear_keeps_embedding_records_witness:
  "\<exists>s s1 s2. ds_update df_classes qos_policy empty_store = (None, s) \<and> ds_clear s = (None, s1) \<and>
     ds_update df_classes (PObj ''QosPolicy'' [(''id'', PStr ''p''), (''topic'', PStr ''t'')]) s1 =
       (Some KeyError, s2)"
proof -
  let ?o = "PObj ''QosPolicy'' [(''id'', PStr ''p''), (''topic'', PStr ''t'')]"
  from ds_update_correct [OF ds_inv_empty qos_policy_storable(1)]
    ds_update_effect [OF ds_inv_empty qos_policy_storable(1) refl refl]
    ds_update_wf_cache [of empty_store df_classes qos_policy]
  obtain s where s: "ds_update df_classes qos_policy empty_store = (None, s)" "ds_inv df_classes s"
      "emb_of s (''QosPolicy'', ''p'') = [(''QosPolicyRule'', ''r'')]"
      "refs_of s (''QosPolicyRule'', ''r'') = [(''QosPolicy'', ''p'')]" "wf_dict (ds_cache s)"
    using qos_policy_storable(2,3)
    by (auto simp: subobjects_def refs_of_def set_add_def empty_store_def)
  have o: "sub_key ?o = (''QosPolicy'', ''p'')" "\<not> isl (obj_id ?o)"
    "embedded_instances df_classes ?o = []" "indexable df_classes (\<lambda>m i. None) ?o"
    by (simp_all add: sub_key_def obj_id_def embedded_instances_def class_fields_def class_decl_defs
        embedded_values_def indexable_def new_model_cache_def get_indexes_def id_index_def key_simps)
  from store_clear_keeps_embedding_records [OF s(2,5), of ?o "(''QosPolicyRule'', ''r'')"] s o
  show ?thesis by auto
qed

section \<open>An update that raises\<close>

text \<open>A port that refers to a logical switch.\<close>

definition unresolved_port :: "string \<Rightarrow> string \<Rightarrow> string \<Rightarrow> pyval" where
  "unresolved_port i t sw = PObj ''LogicalPort''
     [(''id'', PStr i), (''topic'', PStr t), (''unique_key'', PInt 1),
      (''lswitch'', PRef ''LogicalSwitch'' sw)]"

lemma port_caches:
  "new_model_cache df_classes ''LogicalPort'' =
     \<lparr>mc_objs = [],
      mc_indexes = map (\<lambda>ix. (ix, new_index_cache ix))
        [[''unique_key''], [''topic''], [''binding.chassis.id''], [''lswitch.id''],
         [''ips'', ''lswitch.id''], [''lswitch.unique_key'', ''device_owner'']]\<rparr>"
  by (simp add: new_model_cache_def get_indexes_def class_decl_defs id_index_def)

lemma port_keys:
  assumes "deref ''LogicalSwitch'' sw = None"
  shows "ic_get_keys df_classes deref [''unique_key''] (unresolved_port i t sw) = Inr [[Some (PInt 1)]]"
  "ic_get_keys df_classes deref [''topic''] (unresolved_port i t sw) = Inr [[Some (PStr t)]]"
  "ic_get_keys df_classes deref [''binding.chassis.id''] (unresolved_port i t sw) = Inr [[None]]"
  "ic_get_keys df_classes deref [''lswitch.id''] (unresolved_port i t sw) = Inr [[Some (PStr sw)]]"
  "ic_get_keys df_classes deref [''ips'', ''lswitch.id''] (unresolved_port i t sw) = Inr []"
  "ic_get_keys df_classes deref [''lswitch.unique_key'', ''device_owner''] (unresolved_port i t sw) = Inl (ReferencedObjectNotFound ''LogicalSwitch'' sw)"
  using assms by (simp_all add: unresolved_port_def key_simps)

lemma topic_query_keys:
  "ic_get_keys df_classes deref [''topic''] (PObj ''LogicalPort'' [(''topic'', PStr t)]) = Inr [[Some (PStr t)]]"
  by (simp add: key_simps)

text \<open>
  An update that raises half-way leaves the store inconsistent: storing a port whose
  logical switch is not in the store raises, the port is not stored, but the indexes before the
  failing one already hold its id, so that every later query by its topic raises KeyError.
\<close>

theorem store_failed_update_breaks_index:
  assumes "t \<noteq> []"
  shows "\<exists>s. ds_update df_classes (unresolved_port i t sw) empty_store =
      (Some (ReferencedObjectNotFound ''LogicalSwitch'' sw), s) \<and>
    ds_get_one df_classes (PObj ''LogicalPort'' [(''id'', PStr i)]) None s = Inr None \<and>
    ds_get_all_by_topic df_classes ''LogicalPort'' (Some t) s = Inl KeyError"
proof -
  let ?port = "unresolved_port i t sw"
  have cls: "obj_class ?port = ''LogicalPort''" "obj_id ?port = Inr i"
    by (simp_all add: unresolved_port_def obj_id_def)
  have deref: "ds_deref empty_store ''LogicalSwitch'' sw = None"
    by (simp add: ds_deref_def empty_store_def)
  have cache: "ds_get_cache df_classes ''LogicalPort'' empty_store = new_model_cache df_classes ''LogicalPort''"
    by (simp add: ds_get_cache_def empty_store_def)
  obtain mc where mc: "mc_update df_classes (ds_deref empty_store) ?port (new_model_cache df_classes ''LogicalPort'') =
        (Some (ReferencedObjectNotFound ''LogicalSwitch'' sw), mc)"
      "mc_objs mc = []" "map_of (mc_indexes mc) [''topic''] =
         Some \<lparr>ic_index = [''topic''], ic_tree = Node 0 [(Some (PStr t), Leaf [i])], ic_keys = [(i, [[Some (PStr t)]])]\<rparr>"
    by (simp add: mc_update_def port_caches new_index_cache_def ic_update_def port_keys [of "ds_deref empty_store", OF deref] cls(2)
        set_diff_def Let_def rt_child_def set_add_def)
  let ?s = "empty_store\<lparr>ds_cache := [(''LogicalPort'', mc)]\<rparr>"
  have "ds_update df_classes ?port empty_store = (Some (ReferencedObjectNotFound ''LogicalSwitch'' sw), ?s)"
    by (subst ds_update.simps) (simp add: on_cache_def cls(1) cache mc(1), simp add: empty_store_def)
  moreover have "ds_get_one df_classes (PObj ''LogicalPort'' [(''id'', PStr i)]) None ?s = Inr None"
    by (simp add: ds_get_one_def mc_get_one_def ds_get_cache_def mc_get_by_id_def mc(2) id_index_def)
  moreover have "ds_get_all_by_topic df_classes ''LogicalPort'' (Some t) ?s = Inl KeyError"
    using assms
    by (simp add: ds_get_all_by_topic_def ds_get_all_def mc_get_all_def mc_get_keys_def ds_get_cache_def
        mc(2,3) ic_get_all_def topic_query_keys rt_get_all_def rt_round_def rt_chain_def mc_get_by_id_def)
  ultimately show ?thesis by blast
qed

theorem store_failed_update_breaks_index_witness:
  "\<exists>s. fst (ds_update df_classes (unresolved_port ''p'' ''t'' ''sw'') empty_store) \<noteq> None \<and>
     snd (ds_update df_classes (unresolved_port ''p'' ''t'' ''sw'') empty_store) = s \<and>
     ds_get_all_by_topic df_classes ''LogicalPort'' (Some ''t'') s = Inl KeyError"
  using store_failed_update_breaks_index [of "''t''" "''p''" "''sw''"] by auto

end
