(* ===== verification/Sync.thy ===== *)
theory Sync
  imports Db_Store
begin

text \<open>
  Keeping the local cache in step with the northbound database: \<open>dragonflow/db/sync.py\<close>.
  The \<open>Sync\<close> object keeps the models it syncs, in dependency order, and the topics it
  watches; it reads the local store and the northbound database and changes the local state
  only through the controller's update and delete callbacks. The model takes these callbacks as
  arguments and acts on the state \<open>'s\<close> they change. What the northbound database
  answers is fixed during one call.

  The contract of the callbacks is the locale \<open>sync_contract\<close>; its lemmas say what a
  cleanup, a sync and the removal of a topic leave in the store.
\<close>

section \<open>The code\<close>

record 's sync_env =
  sy_ct :: class_table
  sy_db :: "'s \<Rightarrow> db_store"
  sy_nb_get_all :: "string \<Rightarrow> string option \<Rightarrow> pyval list result"
  sy_update_cb :: "pyval \<Rightarrow> 's \<Rightarrow> 's outcome"
  sy_delete_cb :: "pyval \<Rightarrow> 's \<Rightarrow> 's outcome"

record sync =
  sy_topics :: "string list"
  sy_selective :: bool
  sy_models :: "string list"

definition sync_init :: "bool \<Rightarrow> sync" where
  "sync_init selective = \<lparr>sy_topics = [], sy_selective = selective, sy_models = []\<rparr>"

text \<open>\<open>issubclass(model, mixins.Topic)\<close>\<close>

definition topic_model :: "class_table \<Rightarrow> string \<Rightarrow> bool" where
  "topic_model ct m = (case map_of ct m of Some d \<Rightarrow> Topic \<in> set (cd_mixins d) | None \<Rightarrow> False)"

definition make_dict :: "pyval list \<Rightarrow> (string, pyval) dict result" where
  "make_dict iterable =
     for_each (\<lambda>obj d. bind_result (obj_id obj) (\<lambda>i. Inr (AList.update i obj d))) iterable []"

definition add_model :: "string \<Rightarrow> sync \<Rightarrow> sync" where
  "add_model model y = y\<lparr>sy_models := sy_models y @ [model]\<rparr>"

definition update_objects :: "'s sync_env \<Rightarrow> pyval list \<Rightarrow> 's \<Rightarrow> 's outcome" where
  "update_objects env desired = run_each (sy_update_cb env) desired"

definition update_model :: "'s sync_env \<Rightarrow> sync \<Rightarrow> string \<Rightarrow> 's \<Rightarrow> 's outcome" where
  "update_model env y model w =
     (if \<not> sy_selective y \<or> \<not> topic_model (sy_ct env) model then
        with_value (sy_nb_get_all env model None) (update_objects env) w
      else
        run_each (\<lambda>topic. with_value (sy_nb_get_all env model (Some topic)) (update_objects env))
          (sy_topics y) w)"

definition cleanup_objects :: "'s sync_env \<Rightarrow> pyval list \<Rightarrow> pyval list \<Rightarrow> 's \<Rightarrow> 's outcome" where
  "cleanup_objects env desired present =
     with_value (make_dict desired) (\<lambda>desired.
     with_value (make_dict present) (\<lambda>present.
       run_each (\<lambda>(i, obj). sy_delete_cb env obj)
         (filter (\<lambda>(i, obj). i \<notin> set (dict_keys desired)) present)))"

text \<open>\<open>present_by_topic\<close>, and the loop over the watched topics that takes it apart.\<close>

definition group_by_topic ::
  "'s sync_env \<Rightarrow> 's \<Rightarrow> pyval list \<Rightarrow> (pyval, pyval list) dict result" where
  "group_by_topic env w present_all =
     for_each (\<lambda>obj g.
       bind_result (py_getattr (sy_ct env) (ds_deref (sy_db env w)) obj ''topic'') (\<lambda>topic.
         Inr (AList.update topic
           ((case map_of g topic of Some os \<Rightarrow> os | None \<Rightarrow> []) @ [obj]) g))) present_all []"

fun cleanup_topics ::
  "'s sync_env \<Rightarrow> string \<Rightarrow> string list \<Rightarrow> (pyval, pyval list) dict \<Rightarrow> 's \<Rightarrow> 's outcome" where
  "cleanup_topics env model [] g w =
     run_each (\<lambda>(topic, objects). run_each (sy_delete_cb env) objects) g w"
| "cleanup_topics env model (topic # topics) g w =
     with_value (sy_nb_get_all env model (Some topic)) (\<lambda>desired w.
       and_then
         (cleanup_objects env desired
            (case map_of g (PStr topic) of Some os \<Rightarrow> os | None \<Rightarrow> []) w)
         (cleanup_topics env model topics (AList.delete (PStr topic) g))) w"

definition cleanup_model :: "'s sync_env \<Rightarrow> sync \<Rightarrow> string \<Rightarrow> 's \<Rightarrow> 's outcome" where
  "cleanup_model env y model w =
     (if \<not> sy_selective y \<or> \<not> topic_model (sy_ct env) model then
        with_value (sy_nb_get_all env model None) (\<lambda>desired w.
        with_value (ds_get_all (sy_ct env) (PObj model []) None (sy_db env w)) (\<lambda>present.
          cleanup_objects env desired present) w) w
      else
        with_value (ds_get_all (sy_ct env) (PObj model []) None (sy_db env w)) (\<lambda>present_all w.
        with_value (group_by_topic env w present_all) (\<lambda>present_by_topic.
          cleanup_topics env model (sy_topics y) present_by_topic) w) w)"

definition sync_all :: "'s sync_env \<Rightarrow> sync \<Rightarrow> 's \<Rightarrow> 's outcome" where
  "sync_all env y w =
     and_then (run_each (update_model env y) (sy_models y) w)
       (run_each (cleanup_model env y) (rev (sy_models y)))"

definition add_topic :: "'s sync_env \<Rightarrow> string \<Rightarrow> sync \<Rightarrow> 's \<Rightarrow> (sync \<times> 's) outcome" where
  "add_topic env topic y w =
     (if \<not> sy_selective y \<or> topic \<in> set (sy_topics y) then (None, (y, w))
      else
        (case and_then (sync_all env y w)
                (run_each (\<lambda>model.
                   if \<not> topic_model (sy_ct env) model then Pair None
                   else with_value (sy_nb_get_all env model (Some topic))
                          (run_each (sy_update_cb env))) (sy_models y)) of
           (Some e, w) \<Rightarrow> (Some e, (y, w))
         | (None, w) \<Rightarrow> (None, (y\<lparr>sy_topics := set_add topic (sy_topics y)\<rparr>, w))))"

definition remove_topic :: "'s sync_env \<Rightarrow> string \<Rightarrow> sync \<Rightarrow> 's \<Rightarrow> (sync \<times> 's) outcome" where
  "remove_topic env topic y w =
     (if \<not> sy_selective y \<or> topic \<notin> set (sy_topics y) then (None, (y, w))
      else
        (case run_each (\<lambda>model w.
                if \<not> topic_model (sy_ct env) model then (None, w)
                else with_value
                       (ds_get_all_by_topic (sy_ct env) model (Some topic) (sy_db env w))
                       (run_each (sy_delete_cb env)) w) (rev (sy_models y)) w of
           (err, w) \<Rightarrow> (err, (y\<lparr>sy_topics := set_discard topic (sy_topics y)\<rparr>, w))))"

section \<open>The contract of the callbacks\<close>

abbreviation held :: "'s sync_env \<Rightarrow> 's \<Rightarrow> string \<Rightarrow> string \<Rightarrow> pyval option" where
  "held env w \<equiv> ds_deref (sy_db env w)"

definition key_of :: "pyval \<Rightarrow> string" where
  "key_of v = projr (obj_id v)"

definition topic_of :: "class_table \<Rightarrow> pyval \<Rightarrow> pyval" where
  "topic_of ct v = projr (py_getattr ct (\<lambda>_ _. None) v ''topic'')"

text \<open>The ids the database lists for a model and a topic.\<close>

definition nb_ids :: "'s sync_env \<Rightarrow> string \<Rightarrow> string option \<Rightarrow> string set" where
  "nb_ids env m t = (case sy_nb_get_all env m t of Inr xs \<Rightarrow> key_of ` set xs | Inl e \<Rightarrow> {})"

text \<open>
  What a sync keeps: objects of a model without topics when the database lists their id, objects
  of a model with topics when it lists their id under their own topic and that topic is watched.
\<close>

definition wanted :: "'s sync_env \<Rightarrow> sync \<Rightarrow> string \<Rightarrow> string \<Rightarrow> pyval \<Rightarrow> bool" where
  "wanted env y m i v \<longleftrightarrow>
     (if \<not> sy_selective y \<or> \<not> topic_model (sy_ct env) m then i \<in> nb_ids env m None
      else \<exists>t\<in>set (sy_topics y). topic_of (sy_ct env) v = PStr t \<and> i \<in> nb_ids env m (Some t))"

definition kept :: "('a \<Rightarrow> bool) \<Rightarrow> 'a option \<Rightarrow> 'a option" where
  "kept P x = (case x of None \<Rightarrow> None | Some v \<Rightarrow> if P v then Some v else None)"

lemma kept_simps [simp]: "kept P None = None" "kept P (Some v) = (if P v then Some v else None)"
  by (simp_all add: kept_def)

lemma kept_kept [simp]: "kept P (kept Q x) = kept (\<lambda>v. P v \<and> Q v) x"
  by (cases x) simp_all

definition nb_proper :: "'s sync_env \<Rightarrow> (pyval \<Rightarrow> bool) \<Rightarrow> string \<Rightarrow> bool" where
  "nb_proper env acceptable m \<longleftrightarrow> (\<forall>t. \<exists>xs. sy_nb_get_all env m t = Inr xs \<and>
     (\<forall>v\<in>set xs. acceptable v \<and> obj_class v = m \<and> \<not> isl (obj_id v)))"

text \<open>What \<open>_make_dict\<close> builds from objects with different ids.\<close>

lemma make_dict_distinct:
  assumes "\<forall>v\<in>set vs. \<not> isl (obj_id v)" "distinct (map key_of vs)"
  shows "make_dict vs = Inr (map (\<lambda>v. (key_of v, v)) vs)"
proof -
  have "for_each (\<lambda>obj d. bind_result (obj_id obj) (\<lambda>i. Inr (AList.update i obj d))) vs acc =
      Inr (acc @ map (\<lambda>v. (key_of v, v)) vs)"
    if "set (map fst acc) \<inter> key_of ` set vs = {}" for acc
    using that assms
  proof (induction vs arbitrary: acc)
    case Nil
    then show ?case by simp
  next
    case (Cons v vs)
    from Cons.prems(2) have v: "obj_id v = Inr (key_of v)" by (cases "obj_id v") (simp_all add: key_of_def)
    have "AList.update (key_of v) v acc = acc @ [(key_of v, v)]"
      using Cons.prems(1) by (intro update_new) auto
    with Cons.IH [of "acc @ [(key_of v, v)]"] Cons.prems v show ?case by auto
  qed
  from this [of "[]"] show ?thesis by (simp add: make_dict_def)
qed

lemma make_dict_keys:
  assumes "\<forall>v\<in>set vs. \<not> isl (obj_id v)"
  shows "\<exists>d. make_dict vs = Inr d \<and> set (dict_keys d) = key_of ` set vs"
proof -
  have "\<exists>d. for_each (\<lambda>obj d. bind_result (obj_id obj) (\<lambda>i. Inr (AList.update i obj d))) vs acc = Inr d \<and>
      set (dict_keys d) = set (dict_keys acc) \<union> key_of ` set vs" for acc
    using assms
  proof (induction vs arbitrary: acc)
    case Nil
    then show ?case by simp
  next
    case (Cons v vs)
    from Cons.prems have "obj_id v = Inr (key_of v)" by (cases "obj_id v") (simp_all add: key_of_def)
    with Cons.IH [of "AList.update (key_of v) v acc"] Cons.prems show ?case
      by (auto simp: dom_update)
  qed
  from this [of "[]"] show ?thesis by (simp add: make_dict_def)
qed

text \<open>
  The groups \<open>present_by_topic\<close> has at some point: each is the part of the listed objects
  \<open>xs\<close> with that topic, all still stored.
\<close>

definition topic_groups :: "'s sync_env \<Rightarrow> 's \<Rightarrow> string \<Rightarrow> pyval list \<Rightarrow> (pyval, pyval list) dict \<Rightarrow> bool" where
  "topic_groups env w m xs g \<longleftrightarrow> wf_dict g \<and> distinct (map key_of xs) \<and>
     (\<forall>k os. map_of g k = Some os \<longrightarrow> os = filter (\<lambda>v. topic_of (sy_ct env) v = k) xs) \<and>
     (\<forall>v\<in>set xs. map_of g (topic_of (sy_ct env) v) \<noteq> None \<longrightarrow> held env w m (key_of v) = Some v)"

lemma topic_groupsD:
  assumes "topic_groups env w m xs g"
  shows "wf_dict g" "distinct (map key_of xs)"
    "map_of g k = Some os \<Longrightarrow> os = filter (\<lambda>v. topic_of (sy_ct env) v = k) xs"
    "v \<in> set xs \<Longrightarrow> map_of g (topic_of (sy_ct env) v) \<noteq> None \<Longrightarrow> held env w m (key_of v) = Some v"
  using assms unfolding topic_groups_def by blast+

lemma split_topic:
  "(\<exists>v\<in>A. K v \<and> G v \<and> (\<forall>s\<in>set (t # ts). f v = PStr s \<longrightarrow> \<not> N s)) \<longleftrightarrow>
   (\<exists>v\<in>A. K v \<and> (f v \<noteq> PStr t \<and> G v) \<and> (\<forall>s\<in>set ts. f v = PStr s \<longrightarrow> \<not> N s)) \<or>
   (\<exists>v\<in>A. K v \<and> G v \<and> f v = PStr t \<and> \<not> N t)"
  by auto

lemma nested_removal:
  "(if a \<and> P then x else if a \<and> Q then x else y) = (if a \<and> (P \<or> Q) then x else y)"
  by auto

text \<open>The ids an update round fetches for a model.\<close>

definition fetched :: "'s sync_env \<Rightarrow> sync \<Rightarrow> string \<Rightarrow> string set" where
  "fetched env y m =
     (if \<not> sy_selective y \<or> \<not> topic_model (sy_ct env) m then nb_ids env m None
      else (\<Union>t\<in>set (sy_topics y). nb_ids env m (Some t)))"

locale sync_contract =
  fixes env :: "'s sync_env"
    and inv :: "'s \<Rightarrow> bool"
    and managed :: "string \<Rightarrow> bool"
    and acceptable :: "pyval \<Rightarrow> bool"
  assumes listing: "inv w \<Longrightarrow> \<exists>xs. ds_get_all (sy_ct env) (PObj m []) None (sy_db env w) = Inr xs \<and>
      set xs = {v. \<exists>i. held env w m i = Some v} \<and> distinct (map key_of xs)"
    and identity: "inv w \<Longrightarrow> managed m \<Longrightarrow> held env w m i = Some v \<Longrightarrow> obj_id v = Inr i"
    and topical: "inv w \<Longrightarrow> managed m \<Longrightarrow> topic_model (sy_ct env) m \<Longrightarrow> held env w m i = Some v \<Longrightarrow>
      \<exists>t. \<forall>d. py_getattr (sy_ct env) d v ''topic'' = Inr (PStr t)"
    and updated: "inv w \<Longrightarrow> acceptable v \<Longrightarrow> sy_update_cb env v w = (None, w') \<Longrightarrow> inv w' \<and>
      held env w' (obj_class v) (key_of v) \<noteq> None \<and>
      (\<forall>m i. managed m \<and> (m, i) \<noteq> (obj_class v, key_of v) \<longrightarrow> held env w' m i = held env w m i)"
    and deleted: "inv w \<Longrightarrow> managed m \<Longrightarrow> held env w m i = Some v \<Longrightarrow>
      \<exists>w'. sy_delete_cb env v w = (None, w') \<and> inv w' \<and>
        (\<forall>m' j. managed m' \<longrightarrow>
           held env w' m' j = (if (m', j) = (m, i) then None else held env w m' j))"
begin

text \<open>Deleting a list of stored objects with different ids.\<close>

lemma delete_all:
  assumes "inv w" "managed m" "\<forall>v\<in>set vs. held env w m (key_of v) = Some v" "distinct (map key_of vs)"
  shows "\<exists>w'. run_each (sy_delete_cb env) vs w = (None, w') \<and> inv w' \<and>
    (\<forall>m' j. managed m' \<longrightarrow>
       held env w' m' j = (if m' = m \<and> j \<in> key_of ` set vs then None else held env w m' j))"
  using assms
proof (induction vs arbitrary: w)
  case Nil
  then show ?case by simp
next
  case (Cons v vs)
  from deleted [OF Cons.prems(1,2), of "key_of v" v] Cons.prems(3) obtain w1 where
    w1: "sy_delete_cb env v w = (None, w1)" "inv w1"
      "\<And>m' j. managed m' \<Longrightarrow>
         held env w1 m' j = (if (m', j) = (m, key_of v) then None else held env w m' j)"
    by auto
  have "held env w1 m (key_of u) = Some u" if "u \<in> set vs" for u
  proof -
    from Cons.prems(4) that have "key_of u \<noteq> key_of v" by (metis distinct.simps(2) image_eqI list.simps(9) set_map)
    then show ?thesis using Cons.prems(2,3) that w1(3) [of m "key_of u"] by simp
  qed
  then obtain w2 where w2: "run_each (sy_delete_cb env) vs w1 = (None, w2)" "inv w2"
      "\<And>m' j. managed m' \<Longrightarrow>
         held env w2 m' j = (if m' = m \<and> j \<in> key_of ` set vs then None else held env w1 m' j)"
    using Cons.IH [OF w1(2) Cons.prems(2)] Cons.prems(4) by fastforce
  have "held env w2 m' j = (if m' = m \<and> j \<in> key_of ` set (v # vs) then None else held env w m' j)"
    if "managed m'" for m' j
    using w1(3) [OF that, of j] w2(3) [OF that, of j] by auto
  with w1(1) w2(1,2) show ?case by (intro exI [of _ w2]) simp
qed

lemma stored_id:
  assumes "inv w" "managed m" "held env w m i = Some v"
  shows "\<not> isl (obj_id v)" "key_of v = i"
  using identity [OF assms] by (simp_all add: key_of_def)

text \<open>\<open>_cleanup_objects\<close> deletes the present objects the database does not list.\<close>

lemma cleanup_objects_result:
  assumes inv: "inv w" "managed m" and des: "\<forall>v\<in>set desired. \<not> isl (obj_id v)"
    and vs: "\<forall>v\<in>set vs. held env w m (key_of v) = Some v" "distinct (map key_of vs)"
  shows "\<exists>w'. cleanup_objects env desired vs w = (None, w') \<and> inv w' \<and>
    (\<forall>m' j. managed m' \<longrightarrow> held env w' m' j =
       (if m' = m \<and> j \<in> key_of ` set vs - key_of ` set desired then None else held env w m' j))"
proof -
  define gone where "gone = filter (\<lambda>v. key_of v \<notin> key_of ` set desired) vs"
  from make_dict_keys [OF des] obtain d where
    d: "make_dict desired = Inr d" "set (dict_keys d) = key_of ` set desired" by blast
  have ids: "\<forall>v\<in>set vs. \<not> isl (obj_id v)" using stored_id(1) [OF inv] vs(1) by blast
  have "filter (\<lambda>(i, obj). i \<notin> set (dict_keys d)) (map (\<lambda>v. (key_of v, v)) vs) =
      map (\<lambda>v. (key_of v, v)) gone"
    unfolding d(2) gone_def by (simp add: filter_map comp_def)
  then have "cleanup_objects env desired vs w = run_each (sy_delete_cb env) gone w"
    by (simp add: cleanup_objects_def d(1) make_dict_distinct [OF ids vs(2)] run_each_map)
  moreover have "key_of ` set gone = key_of ` set vs - key_of ` set desired" by (auto simp: gone_def)
  moreover have "distinct (map key_of gone)" using vs(2) unfolding gone_def by (rule distinct_map_filter)
  ultimately show ?thesis using delete_all [OF inv, of gone] vs(1) by (simp add: gone_def)
qed

lemma topic_groups_deleted:
  assumes "topic_groups env w m xs g" "managed m" "map_of g k = Some os" "ids \<subseteq> key_of ` set os"
    and "\<And>j. held env w' m j = (if j \<in> ids then None else held env w m j)"
  shows "topic_groups env w' m xs (AList.delete k g)"
proof -
  have "key_of v \<notin> ids" if "v \<in> set xs" "topic_of (sy_ct env) v \<noteq> k" for v
  proof
    assume "key_of v \<in> ids"
    with assms(4) obtain u where u: "u \<in> set os" "key_of u = key_of v" by (metis image_iff subsetD)
    with topic_groupsD(3) [OF assms(1,3)] have u': "u \<in> set xs" "topic_of (sy_ct env) u = k" by simp_all
    have "inj_on key_of (set xs)" using assms(1) by (simp add: topic_groups_def distinct_map)
    with u(2) u'(1) that(1) have "u = v" by (simp add: inj_on_eq_iff)
    with u'(2) that(2) show False by simp
  qed
  then have "held env w' m (key_of v) = Some v"
    if "v \<in> set xs" "map_of (AList.delete k g) (topic_of (sy_ct env) v) \<noteq> None" for v
    using assms(1) that unfolding topic_groups_def assms(5) by (simp split: if_splits)
  moreover have "os' = filter (\<lambda>v. topic_of (sy_ct env) v = k') xs"
    if "map_of (AList.delete k g) k' = Some os'" for k' os'
    using assms(1) that unfolding topic_groups_def by (simp split: if_splits)
  ultimately show ?thesis
    using topic_groupsD(2) [OF assms(1)] wf_dict_delete [OF topic_groupsD(1) [OF assms(1)], of k]
    unfolding topic_groups_def by blast
qed

lemma delete_groups:
  assumes "inv w" "managed m" "topic_groups env w m xs g"
  shows "\<exists>w'. run_each (\<lambda>(topic, objects). run_each (sy_delete_cb env) objects) g w = (None, w') \<and> inv w' \<and>
    (\<forall>m' j. managed m' \<longrightarrow> held env w' m' j =
       (if m' = m \<and> (\<exists>v\<in>set xs. key_of v = j \<and> map_of g (topic_of (sy_ct env) v) \<noteq> None)
        then None else held env w m' j))"
  using assms
proof (induction g arbitrary: w)
  case Nil
  then show ?case by simp
next
  case (Cons kos g)
  obtain k os where kos [simp]: "kos = (k, os)" by (cases kos)
  note grp = topic_groupsD [OF Cons.prems(3), unfolded kos]
  have os: "os = filter (\<lambda>v. topic_of (sy_ct env) v = k) xs" by (rule grp(3)) simp
  have wf: "wf_dict ((k, os) # g)" and d: "distinct (map key_of xs)" by (rule grp)+
  have st: "\<forall>v\<in>set os. held env w m (key_of v) = Some v"
  proof
    fix v assume "v \<in> set os"
    then show "held env w m (key_of v) = Some v" using grp(4) [of v] by (simp add: os)
  qed
  from d have "distinct (map key_of os)" unfolding os by (rule distinct_map_filter)
  from delete_all [OF Cons.prems(1,2) st this] obtain w1 where
    w1: "run_each (sy_delete_cb env) os w = (None, w1)" "inv w1"
      "\<And>m' j. managed m' \<Longrightarrow>
         held env w1 m' j = (if m' = m \<and> j \<in> key_of ` set os then None else held env w m' j)"
    by blast
  have "AList.delete k ((k, os) # g) = g" using wf by simp
  with topic_groups_deleted [OF Cons.prems(3,2), of k os "key_of ` set os" w1] w1(3) [OF Cons.prems(2)]
  have "topic_groups env w1 m xs g" by simp
  from Cons.IH [OF w1(2) Cons.prems(2) this] obtain w2 where
    w2: "run_each (\<lambda>(topic, objects). run_each (sy_delete_cb env) objects) g w1 = (None, w2)" "inv w2"
      "\<And>m' j. managed m' \<Longrightarrow> held env w2 m' j =
       (if m' = m \<and> (\<exists>v\<in>set xs. key_of v = j \<and> map_of g (topic_of (sy_ct env) v) \<noteq> None)
        then None else held env w1 m' j)"
    by blast
  have "held env w2 m' j =
       (if m' = m \<and> (\<exists>v\<in>set xs. key_of v = j \<and> map_of ((k, os) # g) (topic_of (sy_ct env) v) \<noteq> None)
        then None else held env w m' j)" if "managed m'" for m' j
    unfolding w2(3) [OF that] w1(3) [OF that] by (auto simp: os)
  with w1(1) w2(1,2) show ?case by (intro exI [of _ w2]) simp
qed

lemma nb_list:
  assumes "nb_proper env acceptable m"
  obtains xs where "sy_nb_get_all env m t = Inr xs" "key_of ` set xs = nb_ids env m t"
    "\<forall>v\<in>set xs. acceptable v \<and> obj_class v = m \<and> \<not> isl (obj_id v)"
  using assms unfolding nb_proper_def nb_ids_def by (metis sum.simps(6))

lemma cleanup_topics_result:
  assumes "inv w" "managed m" "nb_proper env acceptable m" "topic_groups env w m xs g"
  shows "\<exists>w'. cleanup_topics env m ts g w = (None, w') \<and> inv w' \<and>
    (\<forall>m' j. managed m' \<longrightarrow> held env w' m' j =
       (if m' = m \<and> (\<exists>v\<in>set xs. key_of v = j \<and> map_of g (topic_of (sy_ct env) v) \<noteq> None \<and>
          (\<forall>t\<in>set ts. topic_of (sy_ct env) v = PStr t \<longrightarrow> j \<notin> nb_ids env m (Some t)))
        then None else held env w m' j))"
  using assms
proof (induction ts arbitrary: w g)
  case Nil
  then show ?case using delete_groups [OF Nil.prems(1,2,4)] by simp
next
  case (Cons t ts)
  note grp = topic_groupsD [OF Cons.prems(4)]
  define os where "os = (case map_of g (PStr t) of Some os \<Rightarrow> os | None \<Rightarrow> [])"
  have os: "set os = {v \<in> set xs. map_of g (PStr t) \<noteq> None \<and> topic_of (sy_ct env) v = PStr t}"
    using grp(3) [of "PStr t"] by (cases "map_of g (PStr t)") (auto simp: os_def)
  have st: "\<forall>v\<in>set os. held env w m (key_of v) = Some v"
  proof
    fix v assume "v \<in> set os"
    then show "held env w m (key_of v) = Some v" using grp(4) [of v] by (simp add: os)
  qed
  have d: "distinct (map key_of os)"
    using grp(2) grp(3) [of "PStr t"] distinct_map_filter [OF grp(2)]
    by (cases "map_of g (PStr t)") (simp_all add: os_def)
  obtain des where des: "sy_nb_get_all env m (Some t) = Inr des" "key_of ` set des = nb_ids env m (Some t)"
      "\<forall>v\<in>set des. acceptable v \<and> obj_class v = m \<and> \<not> isl (obj_id v)"
    by (rule nb_list [OF Cons.prems(3)])
  with cleanup_objects_result [OF Cons.prems(1,2) _ st d, of des] obtain w1 where
    w1: "cleanup_objects env des os w = (None, w1)" "inv w1"
      "\<And>m' j. managed m' \<Longrightarrow> held env w1 m' j =
        (if m' = m \<and> j \<in> key_of ` set os - nb_ids env m (Some t) then None else held env w m' j)"
    by auto
  have "topic_groups env w1 m xs (AList.delete (PStr t) g)"
  proof (cases "map_of g (PStr t)")
    case None
    then have "PStr t \<notin> fst ` set g" by (simp add: map_of_eq_None_iff)
    moreover have "os = []" using None by (simp add: os_def)
    ultimately show ?thesis using Cons.prems(4) w1(3) [OF Cons.prems(2)] by (simp add: topic_groups_def)
  next
    case (Some os')
    then have "os = os'" by (simp add: os_def)
    with Some show ?thesis
      using w1(3) [OF Cons.prems(2)] topic_groups_deleted [OF Cons.prems(4,2) Some, of
        "key_of ` set os - nb_ids env m (Some t)" w1] by auto
  qed
  from Cons.IH [OF w1(2) Cons.prems(2,3) this] obtain w2 where
    w2: "cleanup_topics env m ts (AList.delete (PStr t) g) w1 = (None, w2)" "inv w2"
      "\<And>m' j. managed m' \<Longrightarrow> held env w2 m' j =
       (if m' = m \<and> (\<exists>v\<in>set xs. key_of v = j \<and>
            map_of (AList.delete (PStr t) g) (topic_of (sy_ct env) v) \<noteq> None \<and>
          (\<forall>t\<in>set ts. topic_of (sy_ct env) v = PStr t \<longrightarrow> j \<notin> nb_ids env m (Some t)))
        then None else held env w1 m' j)"
    by blast
  have "held env w2 m' j =
     (if m' = m \<and> (\<exists>v\<in>set xs. key_of v = j \<and> map_of g (topic_of (sy_ct env) v) \<noteq> None \<and>
        (\<forall>t\<in>set (t # ts). topic_of (sy_ct env) v = PStr t \<longrightarrow> j \<notin> nb_ids env m (Some t)))
      then None else held env w m' j)" if "managed m'" for m' j
  proof -
    have R1: "j \<in> key_of ` set os - nb_ids env m (Some t) \<longleftrightarrow>
        (\<exists>v\<in>set xs. key_of v = j \<and> map_of g (topic_of (sy_ct env) v) \<noteq> None \<and>
           topic_of (sy_ct env) v = PStr t \<and> j \<notin> nb_ids env m (Some t))"
      unfolding os by auto
    have R2: "map_of (AList.delete (PStr t) g) k \<noteq> None \<longleftrightarrow> k \<noteq> PStr t \<and> map_of g k \<noteq> None" for k
      by simp
    show ?thesis unfolding w2(3) [OF that] w1(3) [OF that] R1 R2 split_topic by (rule nested_removal)
  qed
  with w1(1) w2(1,2) des(1) show ?case by (intro exI [of _ w2]) (simp add: os_def)
qed

text \<open>The groups of a listing.\<close>

lemma group_by_topic_result:
  assumes "\<forall>v\<in>set xs. \<exists>t. \<forall>d. py_getattr (sy_ct env) d v ''topic'' = Inr (PStr t)"
    and "\<forall>v\<in>set xs. held env w m (key_of v) = Some v" "distinct (map key_of xs)"
  shows "\<exists>g. group_by_topic env w xs = Inr g \<and> topic_groups env w m xs g \<and>
    (\<forall>v\<in>set xs. map_of g (topic_of (sy_ct env) v) \<noteq> None)"
proof -
  let ?f = "\<lambda>obj g. bind_result (py_getattr (sy_ct env) (ds_deref (sy_db env w)) obj ''topic'') (\<lambda>topic.
         Inr (AList.update topic ((case map_of g topic of Some os \<Rightarrow> os | None \<Rightarrow> []) @ [obj]) g))"
  have "\<exists>g. for_each ?f ys acc = Inr g \<and> wf_dict g \<and>
      (\<forall>k os. map_of g k = Some os \<longrightarrow> os = filter (\<lambda>v. topic_of (sy_ct env) v = k) (zs @ ys)) \<and>
      (\<forall>v\<in>set (zs @ ys). map_of g (topic_of (sy_ct env) v) \<noteq> None)"
    if "set ys \<subseteq> set xs" "wf_dict acc"
      "\<forall>k. (case map_of acc k of Some os \<Rightarrow> os | None \<Rightarrow> []) = filter (\<lambda>v. topic_of (sy_ct env) v = k) zs"
      "\<forall>v\<in>set zs. map_of acc (topic_of (sy_ct env) v) \<noteq> None" for ys zs acc
    using that
  proof (induction ys arbitrary: zs acc)
    case Nil
    have "os = filter (\<lambda>v. topic_of (sy_ct env) v = k) zs" if "map_of acc k = Some os" for k os
      using Nil.prems(3) [rule_format, of k] that by simp
    with Nil.prems(2,4) show ?case by simp
  next
    case (Cons y ys)
    from Cons.prems(1) assms(1) obtain t where t: "\<And>d. py_getattr (sy_ct env) d y ''topic'' = Inr (PStr t)"
      by auto
    then have tp: "topic_of (sy_ct env) y = PStr t" by (simp add: topic_of_def)
    define acc' where "acc' = AList.update (PStr t)
      ((case map_of acc (PStr t) of Some os \<Rightarrow> os | None \<Rightarrow> []) @ [y]) acc"
    have "(case map_of acc' k of Some os \<Rightarrow> os | None \<Rightarrow> []) =
        filter (\<lambda>v. topic_of (sy_ct env) v = k) (zs @ [y])" for k
      using Cons.prems(3) by (auto simp: acc'_def tp)
    moreover have "map_of acc' (topic_of (sy_ct env) v) \<noteq> None" if "v \<in> set (zs @ [y])" for v
      using Cons.prems(4) that tp by (auto simp: acc'_def)
    moreover have "wf_dict acc'" using Cons.prems(2) by (simp add: acc'_def)
    moreover have "for_each ?f (y # ys) acc = for_each ?f ys acc'" by (simp add: t acc'_def)
    ultimately show ?case using Cons.IH [of acc' "zs @ [y]"] Cons.prems(1) by simp
  qed
  from this [of xs "[]" "[]"] obtain g where g: "for_each ?f xs [] = Inr g" "wf_dict g"
      "\<forall>k os. map_of g k = Some os \<longrightarrow> os = filter (\<lambda>v. topic_of (sy_ct env) v = k) xs"
      "\<forall>v\<in>set xs. map_of g (topic_of (sy_ct env) v) \<noteq> None"
    by auto
  then have "topic_groups env w m xs g" using assms(2,3) unfolding topic_groups_def by blast
  with g(1,4) show ?thesis unfolding group_by_topic_def by blast
qed

lemma cleanup_model_result:
  assumes inv: "inv w" "managed m" and nb: "nb_proper env acceptable m"
  shows "\<exists>w'. cleanup_model env y m w = (None, w') \<and> inv w' \<and>
    (\<forall>m' j. managed m' \<longrightarrow>
       held env w' m' j = (if m' = m then kept (wanted env y m j) (held env w m j) else held env w m' j))"
proof -
  from listing [OF inv(1), of m] obtain xs where
    xs: "ds_get_all (sy_ct env) (PObj m []) None (sy_db env w) = Inr xs"
      "set xs = {v. \<exists>i. held env w m i = Some v}" "distinct (map key_of xs)"
    by blast
  have st: "\<forall>v\<in>set xs. held env w m (key_of v) = Some v"
    using stored_id(2) [OF inv] unfolding xs(2) by blast
  have in_xs: "held env w m j = Some v \<Longrightarrow> v \<in> set xs \<and> key_of v = j" for j v
    using stored_id(2) [OF inv, of j v] unfolding xs(2) by blast
  show ?thesis
  proof (cases "\<not> sy_selective y \<or> \<not> topic_model (sy_ct env) m")
    case True
    obtain des where des: "sy_nb_get_all env m None = Inr des" "key_of ` set des = nb_ids env m None"
        "\<forall>v\<in>set des. acceptable v \<and> obj_class v = m \<and> \<not> isl (obj_id v)"
      by (rule nb_list [OF nb])
    with cleanup_objects_result [OF inv _ st xs(3), of des] obtain w1 where
      w1: "cleanup_objects env des xs w = (None, w1)" "inv w1"
        "\<And>m' j. managed m' \<Longrightarrow> held env w1 m' j =
          (if m' = m \<and> j \<in> key_of ` set xs - nb_ids env m None then None else held env w m' j)"
      by auto
    have "held env w1 m j = kept (wanted env y m j) (held env w m j)" for j
      using w1(3) [OF inv(2), of j] in_xs [of j] st True
      by (cases "held env w m j") (auto simp: wanted_def)
    then have "held env w1 m' j =
        (if m' = m then kept (wanted env y m j) (held env w m j) else held env w m' j)"
      if "managed m'" for m' j
      using w1(3) [OF that, of j] by (cases "m' = m") simp_all
    moreover have "cleanup_model env y m w = (None, w1)"
      using True des(1) xs(1) w1(1) by (simp add: cleanup_model_def)
    ultimately show ?thesis using w1(2) by blast
  next
    case False
    have "\<forall>v\<in>set xs. \<exists>t. \<forall>d. py_getattr (sy_ct env) d v ''topic'' = Inr (PStr t)"
      using topical [OF inv] False st by blast
    from group_by_topic_result [OF this st xs(3)] obtain g where
      g: "group_by_topic env w xs = Inr g" "topic_groups env w m xs g"
        "\<forall>v\<in>set xs. map_of g (topic_of (sy_ct env) v) \<noteq> None" by blast
    from cleanup_topics_result [OF inv nb g(2), of "sy_topics y"] obtain w1 where
      w1: "cleanup_topics env m (sy_topics y) g w = (None, w1)" "inv w1"
        "\<And>m' j. managed m' \<Longrightarrow> held env w1 m' j =
       (if m' = m \<and> (\<exists>v\<in>set xs. key_of v = j \<and> map_of g (topic_of (sy_ct env) v) \<noteq> None \<and>
          (\<forall>t\<in>set (sy_topics y). topic_of (sy_ct env) v = PStr t \<longrightarrow> j \<notin> nb_ids env m (Some t)))
        then None else held env w m' j)"
      by blast
    have "held env w1 m j = kept (wanted env y m j) (held env w m j)" for j
    proof (cases "held env w m j")
      case None
      then show ?thesis using w1(3) [OF inv(2), of j] by simp
    next
      case (Some v)
      have "u = v" if "u \<in> set xs" "key_of u = j" for u using that st Some by fastforce
      then have "(\<exists>u\<in>set xs. key_of u = j \<and> map_of g (topic_of (sy_ct env) u) \<noteq> None \<and>
          (\<forall>t\<in>set (sy_topics y). topic_of (sy_ct env) u = PStr t \<longrightarrow> j \<notin> nb_ids env m (Some t))) \<longleftrightarrow>
          \<not> wanted env y m j v"
        using in_xs [OF Some] g(3) False by (auto simp: wanted_def)
      then show ?thesis using w1(3) [OF inv(2), of j] Some by simp
    qed
    then have "held env w1 m' j =
        (if m' = m then kept (wanted env y m j) (held env w m j) else held env w m' j)"
      if "managed m'" for m' j
      using w1(3) [OF that, of j] by (cases "m' = m") simp_all
    moreover have "cleanup_model env y m w = (None, w1)"
      using False g(1) xs(1) w1(1) by (simp add: cleanup_model_def)
    ultimately show ?thesis using w1(2) by blast
  qed
qed

text \<open>Updating stores what it fetched and loses nothing.\<close>

lemma update_objects_result:
  assumes "update_objects env vs w = (None, w')" "inv w" "managed m"
    and "\<forall>v\<in>set vs. acceptable v \<and> obj_class v = m"
  shows "inv w' \<and> (\<forall>v\<in>set vs. held env w' m (key_of v) \<noteq> None) \<and>
    (\<forall>m' i. managed m' \<longrightarrow> held env w m' i \<noteq> None \<longrightarrow> held env w' m' i \<noteq> None)"
  using assms
proof (induction vs arbitrary: w)
  case Nil
  then show ?case by (simp add: update_objects_def)
next
  case (Cons v vs)
  from Cons.prems(1) obtain w1 where w1: "sy_update_cb env v w = (None, w1)"
      "update_objects env vs w1 = (None, w')"
    by (auto simp: update_objects_def and_then_None_iff)
  from updated [OF Cons.prems(2) _ w1(1)] Cons.prems(4) have up: "inv w1" "held env w1 m (key_of v) \<noteq> None"
      "\<And>m' i. managed m' \<Longrightarrow> (m', i) \<noteq> (m, key_of v) \<Longrightarrow> held env w1 m' i = held env w m' i"
    by auto
  have grow: "held env w1 m' i \<noteq> None" if "managed m'" "held env w m' i \<noteq> None" for m' i
    using up(2) up(3) [OF that(1), of i] that(2) by (cases "(m', i) = (m, key_of v)") auto
  from Cons.IH [OF w1(2) up(1) Cons.prems(3)] Cons.prems(4) have
    IH: "inv w'" "\<forall>v\<in>set vs. held env w' m (key_of v) \<noteq> None"
      "\<And>m' i. managed m' \<Longrightarrow> held env w1 m' i \<noteq> None \<Longrightarrow> held env w' m' i \<noteq> None" by simp_all
  from IH(3) [OF Cons.prems(3) up(2)] IH(1,2) IH(3) grow show ?case unfolding list.set by blast
qed

lemma fetch_result:
  assumes "with_value (sy_nb_get_all env m t) (update_objects env) w = (None, w')" "inv w" "managed m"
    and "nb_proper env acceptable m"
  shows "inv w' \<and> (\<forall>i\<in>nb_ids env m t. held env w' m i \<noteq> None) \<and>
    (\<forall>m' i. managed m' \<longrightarrow> held env w m' i \<noteq> None \<longrightarrow> held env w' m' i \<noteq> None)"
proof -
  obtain xs where xs: "sy_nb_get_all env m t = Inr xs" "key_of ` set xs = nb_ids env m t"
      "\<forall>v\<in>set xs. acceptable v \<and> obj_class v = m \<and> \<not> isl (obj_id v)"
    by (rule nb_list [OF assms(4)])
  with assms(1) have "update_objects env xs w = (None, w')" by simp
  from update_objects_result [OF this assms(2,3)] xs(3) show ?thesis unfolding xs(2) [symmetric] by simp
qed

lemma update_model_result:
  assumes "update_model env y m w = (None, w')" "inv w" "managed m" "nb_proper env acceptable m"
  shows "inv w' \<and> (\<forall>i\<in>fetched env y m. held env w' m i \<noteq> None) \<and>
    (\<forall>m' i. managed m' \<longrightarrow> held env w m' i \<noteq> None \<longrightarrow> held env w' m' i \<noteq> None)"
proof (cases "\<not> sy_selective y \<or> \<not> topic_model (sy_ct env) m")
  case True
  with assms(1) fetch_result [OF _ assms(2-4)] show ?thesis by (simp add: update_model_def fetched_def)
next
  case False
  let ?f = "\<lambda>t. with_value (sy_nb_get_all env m (Some t)) (update_objects env)"
  have "inv w' \<and> (\<forall>t\<in>set ts. \<forall>i\<in>nb_ids env m (Some t). held env w' m i \<noteq> None) \<and>
      (\<forall>m' i. managed m' \<longrightarrow> held env w m' i \<noteq> None \<longrightarrow> held env w' m' i \<noteq> None)"
    if "run_each ?f ts w = (None, w')" "inv w" for ts
    using that
  proof (induction ts arbitrary: w)
    case Nil
    then show ?case by simp
  next
    case (Cons t ts)
    from Cons.prems(1) obtain w1 where w1: "?f t w = (None, w1)" "run_each ?f ts w1 = (None, w')"
      by (auto simp: and_then_None_iff)
    note first = fetch_result [OF w1(1) Cons.prems(2) assms(3,4)]
    from first Cons.IH [OF w1(2)] assms(3) show ?case unfolding list.set by blast
  qed
  from this [of "sy_topics y"] False assms(1,2) show ?thesis by (simp add: update_model_def fetched_def)
qed

lemma update_phase:
  assumes "run_each (update_model env y) ms w = (None, w')" "inv w"
    and "\<forall>m\<in>set ms. managed m \<and> nb_proper env acceptable m"
  shows "inv w' \<and> (\<forall>m\<in>set ms. \<forall>i\<in>fetched env y m. held env w' m i \<noteq> None) \<and>
    (\<forall>m' i. managed m' \<longrightarrow> held env w m' i \<noteq> None \<longrightarrow> held env w' m' i \<noteq> None)"
  using assms
proof (induction ms arbitrary: w)
  case Nil
  then show ?case by simp
next
  case (Cons m ms)
  from Cons.prems(1) obtain w1 where w1: "update_model env y m w = (None, w1)"
      "run_each (update_model env y) ms w1 = (None, w')"
    by (auto simp: and_then_None_iff)
  have m: "managed m" "nb_proper env acceptable m" using Cons.prems(3) by simp_all
  note first = update_model_result [OF w1(1) Cons.prems(2) m]
  with Cons.IH [OF w1(2)] Cons.prems(3) m(1) show ?case unfolding list.set by blast
qed

lemma cleanup_phase:
  assumes "inv w" "\<forall>m\<in>set ms. managed m \<and> nb_proper env acceptable m"
  shows "\<exists>w'. run_each (cleanup_model env y) ms w = (None, w') \<and> inv w' \<and>
    (\<forall>m i. managed m \<longrightarrow> held env w' m i =
       (if m \<in> set ms then kept (wanted env y m i) (held env w m i) else held env w m i))"
  using assms
proof (induction ms arbitrary: w)
  case Nil
  then show ?case by simp
next
  case (Cons m ms)
  have m: "managed m" "nb_proper env acceptable m" using Cons.prems(2) by simp_all
  from cleanup_model_result [OF Cons.prems(1) m] obtain w1 where
    w1: "cleanup_model env y m w = (None, w1)" "inv w1"
      "\<And>m' j. managed m' \<Longrightarrow> held env w1 m' j =
        (if m' = m then kept (wanted env y m j) (held env w m j) else held env w m' j)"
    by blast
  from Cons.IH [OF w1(2)] Cons.prems(2) obtain w2 where
    w2: "run_each (cleanup_model env y) ms w1 = (None, w2)" "inv w2"
      "\<And>m' i. managed m' \<Longrightarrow> held env w2 m' i =
        (if m' \<in> set ms then kept (wanted env y m' i) (held env w1 m' i) else held env w1 m' i)"
    by auto
  have "held env w2 m' i = (if m' \<in> set (m # ms) then kept (wanted env y m' i) (held env w m' i)
      else held env w m' i)" if "managed m'" for m' i
    unfolding w2(3) [OF that] w1(3) [OF that] by simp
  with w1(1) w2(1,2) show ?case by (intro exI [of _ w2]) simp
qed

text \<open>
  Once the update round has returned, the whole sync returns; it keeps of every synced model
  exactly the wanted objects, and for a model without topics these are the ids the database
  lists.
\<close>

lemma sync_result:
  assumes upd: "run_each (update_model env y) (sy_models y) w = (None, w1)" and inv: "inv w"
    and models: "\<forall>m\<in>set (sy_models y). managed m \<and> nb_proper env acceptable m"
  shows "\<exists>w2. sync_all env y w = (None, w2) \<and> inv w2 \<and>
    (\<forall>m\<in>set (sy_models y). \<forall>i. held env w2 m i = kept (wanted env y m i) (held env w1 m i)) \<and>
    (\<forall>m\<in>set (sy_models y). \<not> sy_selective y \<or> \<not> topic_model (sy_ct env) m \<longrightarrow>
       dom (held env w2 m) = nb_ids env m None)"
proof -
  note up = update_phase [OF upd inv models]
  from cleanup_phase [of w1 "rev (sy_models y)" y] up models obtain w2 where
    w2: "run_each (cleanup_model env y) (rev (sy_models y)) w1 = (None, w2)" "inv w2"
      "\<And>m i. managed m \<Longrightarrow> held env w2 m i =
        (if m \<in> set (sy_models y) then kept (wanted env y m i) (held env w1 m i) else held env w1 m i)"
    by auto
  have kept: "held env w2 m i = kept (wanted env y m i) (held env w1 m i)"
    if "m \<in> set (sy_models y)" for m i
    using w2(3) [of m i] models that by simp
  moreover have "dom (held env w2 m) = nb_ids env m None"
    if "m \<in> set (sy_models y)" "\<not> sy_selective y \<or> \<not> topic_model (sy_ct env) m" for m
  proof (rule set_eqI)
    fix i
    have "held env w1 m i \<noteq> None" if "i \<in> nb_ids env m None"
      using up that \<open>m \<in> _\<close> \<open>\<not> sy_selective y \<or> _\<close> by (simp add: fetched_def)
    then show "i \<in> dom (held env w2 m) \<longleftrightarrow> i \<in> nb_ids env m None"
      using kept [OF that(1), of i] that(2)
      by (cases "held env w1 m i") (auto simp: wanted_def domIff)
  qed
  moreover have "sync_all env y w = (None, w2)" using upd w2(1) by (simp add: sync_all_def)
  ultimately show ?thesis using w2(2) by blast
qed

end

end
