(* ===== verification/Controller.thy ===== *)
theory Controller
  imports Sync
begin

text \<open>
  The local controller, \<open>dragonflow/controller/df_local_controller.py\<close>: how an object that
  arrives from the northbound database is stored and announced, how its references are loaded
  first, and how an object that waits for a missing reference is sent again once that arrives.

  The state holds the local store, the pending objects, the \<open>Sync\<close> object, the two
  dictionaries of the \<open>Topology\<close> object (whose methods are in a theory of their own), the
  port locator's overrides, the calls made to other services in their order, and the state \<open>'a\<close> of the applications. An
  application's event handler reads the store and changes only \<open>'a\<close>; \<open>_emit\<close> logs
  the exceptions of handlers and goes on. The northbound database is a dictionary; the equality of
  model instances comes from the \<open>jsonmodels\<close> package and is a parameter.
\<close>

section \<open>The state\<close>

datatype ctl_effect =
    RegisterTopic string
  | UnregisterTopic string
  | RegisterListenAddress pyval
  | UnregisterListenAddress pyval
  | NbCreate pyval
  | NbUpdate pyval
  | NotifyPortStatus pyval string
  | SwitchInitialize
  | SwitchSyncStarted
  | SwitchSyncFinished
  | DbRecover

record 'a controller =
  c_db :: db_store
  c_pending :: "(string, obj_key list) dict"
  c_sync :: sync
  c_topic_subscribed :: "(string, string list) dict"
  c_ovs_to_lport_mapping :: "(string, string \<times> string) dict"
  c_locations :: "(string, pyval) dict"
  c_effects :: "ctl_effect list"
  c_apps :: 'a

type_synonym 'a handler = "db_store \<Rightarrow> pyval \<Rightarrow> pyval option \<Rightarrow> 'a \<Rightarrow> 'a outcome"

record 'a ctl_env =
  ce_ct :: class_table
  ce_registry :: registry
  ce_chassis_name :: string
  ce_ip :: pyval
  ce_tunnel_types :: pyval
  ce_external_host_ip :: "pyval option"
  ce_selective :: bool
  ce_nb :: "(obj_key, pyval) dict"
  ce_model_eq :: "pyval \<Rightarrow> pyval \<Rightarrow> bool"
  ce_handlers :: "string \<Rightarrow> string \<Rightarrow> 'a handler list"

definition effect :: "ctl_effect \<Rightarrow> 'a controller \<Rightarrow> 'a controller" where
  "effect e c = c\<lparr>c_effects := c_effects c @ [e]\<rparr>"

definition on_db :: "(db_store \<Rightarrow> db_store outcome) \<Rightarrow> 'a controller \<Rightarrow> 'a controller outcome" where
  "on_db f c = (case f (c_db c) of (err, s) \<Rightarrow> (err, c\<lparr>c_db := s\<rparr>))"

text \<open>\<open>NbApi.get\<close> and \<open>NbApi.get_all\<close> on the database's content.\<close>

definition nb_get :: "'a ctl_env \<Rightarrow> string \<Rightarrow> string \<Rightarrow> pyval option" where
  "nb_get env m i = map_of (ce_nb env) (m, i)"

definition nb_get_all :: "'a ctl_env \<Rightarrow> string \<Rightarrow> string option \<Rightarrow> pyval list result" where
  "nb_get_all env m topic =
     Inr (map snd (filter (\<lambda>((m', i), v). m' = m \<and>
       (case topic of None \<Rightarrow> True | Some t \<Rightarrow> topic_of (ce_ct env) v = PStr t)) (ce_nb env)))"

section \<open>Events\<close>

definition class_mixins :: "class_table \<Rightarrow> pyval \<Rightarrow> mixin list" where
  "class_mixins ct v = (case map_of ct (obj_class v) of Some d \<Rightarrow> cd_mixins d | None \<Rightarrow> [])"

definition has_basic_events :: "class_table \<Rightarrow> pyval \<Rightarrow> bool" where
  "has_basic_events ct v \<longleftrightarrow> BasicEvents \<in> set (class_mixins ct v)"

definition emit :: "'a ctl_env \<Rightarrow> string \<Rightarrow> pyval \<Rightarrow> pyval option \<Rightarrow> 'a controller \<Rightarrow> 'a controller" where
  "emit env event obj orig c =
     c\<lparr>c_apps := fold (\<lambda>cb a. snd (cb (c_db c) obj orig a))
       (ce_handlers env (obj_class obj) event) (c_apps c)\<rparr>"

section \<open>Storing and deleting an object\<close>

definition is_newer :: "'a ctl_env \<Rightarrow> db_store \<Rightarrow> pyval \<Rightarrow> pyval option \<Rightarrow> bool result" where
  "is_newer env s obj cached =
     (if Version \<in> set (class_mixins (ce_ct env) obj) then
        (case cached of
           None \<Rightarrow> Inr True
         | Some other \<Rightarrow>
             bind_result (py_getattr (ce_ct env) (ds_deref s) obj ''version'') (\<lambda>v.
             bind_result (py_getattr (ce_ct env) (ds_deref s) other ''version'') (\<lambda>u.
               (case (v, u) of (PInt x, PInt y) \<Rightarrow> Inr (x > y) | _ \<Rightarrow> Inl TypeError))))
      else Inr (case cached of None \<Rightarrow> True | Some other \<Rightarrow> \<not> ce_model_eq env obj other))"

definition update_model_object :: "'a ctl_env \<Rightarrow> pyval \<Rightarrow> 'a controller \<Rightarrow> 'a controller outcome" where
  "update_model_object env obj c =
     with_value (ds_get_one (ce_ct env) obj None (c_db c)) (\<lambda>original_obj c.
     with_value (is_newer env (c_db c) obj original_obj) (\<lambda>newer c.
       if \<not> newer then (None, c)
       else and_then (on_db (ds_update (ce_ct env) obj) c) (\<lambda>c.
         (None,
          if \<not> has_basic_events (ce_ct env) obj then c
          else (case original_obj of
                  None \<Rightarrow> emit env ''created'' obj None c
                | Some orig \<Rightarrow> emit env ''updated'' obj (Some orig) c)))) c) c"

definition delete_model_object :: "'a ctl_env \<Rightarrow> pyval \<Rightarrow> 'a controller \<Rightarrow> 'a controller outcome" where
  "delete_model_object env obj c =
     with_value (ds_get_one (ce_ct env) obj None (c_db c)) (\<lambda>org_obj c.
       (case org_obj of
          None \<Rightarrow> (None, c)
        | Some org \<Rightarrow>
            on_db (ds_delete (ce_ct env) org)
              (if has_basic_events (ce_ct env) org then emit env ''deleted'' org None c else c))) c"

section \<open>Chassis and publishers\<close>

definition chassis_index :: "string list" where
  "chassis_index = [''binding.chassis.id'']"

definition ports_query :: "string \<Rightarrow> pyval" where
  "ports_query chassis_id =
     PObj ''LogicalPort''
       [(''binding'', PObj ''PortBinding''
           [(''type'', PStr ''chassis''), (''chassis'', PRef ''Chassis'' chassis_id)])]"

text \<open>
  \<open>_get_ports_by_chassis\<close> returns a generator over the set of ids the index keeps, and the
  loops below run it while their bodies change the store: when a body changes the size of that
  set, the next step of the generator raises RuntimeError.
\<close>

fun for_ports ::
  "'a ctl_env \<Rightarrow> string \<Rightarrow> (pyval \<Rightarrow> 'a controller \<Rightarrow> 'a controller outcome) \<Rightarrow> nat \<Rightarrow> string list \<Rightarrow>
   'a controller \<Rightarrow> 'a controller outcome" where
  "for_ports env ch body n [] c = (None, c)"
| "for_ports env ch body n (i # ids) c =
     with_value (mc_get_by_id i (ds_get_cache (ce_ct env) ''LogicalPort'' (c_db c))) (\<lambda>port c.
       and_then (body port c) (\<lambda>c.
         with_value (ds_get_keys (ce_ct env) (ports_query ch) (Some chassis_index) (c_db c)) (\<lambda>live c.
           if length live \<noteq> n then (Some RuntimeError, c)
           else for_ports env ch body n ids c) c)) c"

definition for_ports_by_chassis ::
  "'a ctl_env \<Rightarrow> string \<Rightarrow> (pyval \<Rightarrow> 'a controller \<Rightarrow> 'a controller outcome) \<Rightarrow>
   'a controller \<Rightarrow> 'a controller outcome" where
  "for_ports_by_chassis env ch body c =
     with_value (ds_get_keys (ce_ct env) (ports_query ch) (Some chassis_index) (c_db c)) (\<lambda>ids c.
       for_ports env ch body (length ids) ids c) c"

text \<open>
  The ports are instances of \<open>LogicalPort\<close>, for which \<open>update\<close> and \<open>delete\<close> take
  the general handlers.
\<close>

definition update_chassis :: "'a ctl_env \<Rightarrow> pyval \<Rightarrow> 'a controller \<Rightarrow> 'a controller outcome" where
  "update_chassis env chassis c =
     and_then (on_db (ds_update (ce_ct env) chassis) c)
       (with_value (obj_id chassis) (\<lambda>remote_chassis_name c.
          if ce_chassis_name env = remote_chassis_name then (None, c)
          else for_ports_by_chassis env remote_chassis_name (update_model_object env) c))"

definition delete_chassis :: "'a ctl_env \<Rightarrow> pyval \<Rightarrow> 'a controller \<Rightarrow> 'a controller outcome" where
  "delete_chassis env chassis c =
     with_value (obj_id chassis) (\<lambda>i c.
       and_then (for_ports_by_chassis env i (delete_model_object env) c)
         (on_db (ds_delete (ce_ct env) chassis))) c"

definition update_publisher :: "'a ctl_env \<Rightarrow> pyval \<Rightarrow> 'a controller \<Rightarrow> 'a controller outcome" where
  "update_publisher env publisher c =
     and_then (on_db (ds_update (ce_ct env) publisher) c) (\<lambda>c.
       with_value (py_getattr (ce_ct env) (ds_deref (c_db c)) publisher ''uri'')
         (\<lambda>uri c. (None, effect (RegisterListenAddress uri) c)) c)"

definition delete_publisher :: "'a ctl_env \<Rightarrow> pyval \<Rightarrow> 'a controller \<Rightarrow> 'a controller outcome" where
  "delete_publisher env publisher c =
     with_value (py_getattr (ce_ct env) (ds_deref (c_db c)) publisher ''uri'') (\<lambda>uri c.
       on_db (ds_delete (ce_ct env) publisher) (effect (UnregisterListenAddress uri) c)) c"

definition register_chassis :: "'a ctl_env \<Rightarrow> 'a controller \<Rightarrow> 'a controller outcome" where
  "register_chassis env c =
     (let lean = PObj ''Chassis'' [(''id'', PStr (ce_chassis_name env))];
          chassis = PObj ''Chassis''
            ([(''id'', PStr (ce_chassis_name env)), (''ip'', ce_ip env),
              (''tunnel_types'', ce_tunnel_types env)] @
             (case ce_external_host_ip env of None \<Rightarrow> [] | Some e \<Rightarrow> [(''external_host_ip'', e)]))
      in and_then
           (with_value (nb_get_all env ''Chassis'' None)
              (run_each (\<lambda>ch. on_db (ds_update (ce_ct env) ch))) c)
           (\<lambda>c. with_value (ds_get_one (ce_ct env) lean None (c_db c)) (\<lambda>old_chassis c.
             and_then (on_db (ds_update (ce_ct env) chassis) c) (\<lambda>c.
               (None,
                case old_chassis of
                  None \<Rightarrow> effect (NbCreate chassis) c
                | Some old \<Rightarrow> if \<not> ce_model_eq env old chassis then effect (NbUpdate chassis) c else c))) c))"

text \<open>\<open>update\<close> and \<open>delete\<close> choose the handler by the table of the object's class.\<close>

definition table_name :: "class_table \<Rightarrow> pyval \<Rightarrow> string result" where
  "table_name ct v =
     (case map_of ct (obj_class v) of
        None \<Rightarrow> Inl AttributeError
      | Some d \<Rightarrow> (case cd_table d of None \<Rightarrow> Inl AttributeError | Some t \<Rightarrow> Inr t))"

definition ctl_update :: "'a ctl_env \<Rightarrow> pyval \<Rightarrow> 'a controller \<Rightarrow> 'a controller outcome" where
  "ctl_update env obj c =
     with_value (table_name (ce_ct env) obj) (\<lambda>t c.
       if t = ''chassis'' then update_chassis env obj c
       else if t = ''publisher'' then update_publisher env obj c
       else update_model_object env obj c) c"

definition ctl_delete :: "'a ctl_env \<Rightarrow> pyval \<Rightarrow> 'a controller \<Rightarrow> 'a controller outcome" where
  "ctl_delete env obj c =
     with_value (table_name (ce_ct env) obj) (\<lambda>t c.
       if t = ''chassis'' then delete_chassis env obj c
       else if t = ''publisher'' then delete_publisher env obj c
       else delete_model_object env obj c) c"

definition delete_by_id :: "'a ctl_env \<Rightarrow> string \<Rightarrow> string \<Rightarrow> 'a controller \<Rightarrow> 'a controller outcome" where
  "delete_by_id env model i = ctl_delete env (PObj model [(''id'', PStr i)])"

section \<open>Topics\<close>

definition ctl_sync_env :: "'a ctl_env \<Rightarrow> 'a controller sync_env" where
  "ctl_sync_env env =
     \<lparr>sy_ct = ce_ct env, sy_db = c_db, sy_nb_get_all = nb_get_all env,
      sy_update_cb = ctl_update env, sy_delete_cb = ctl_delete env\<rparr>"

definition set_sync :: "(sync \<times> 'a controller) outcome \<Rightarrow> 'a controller outcome" where
  "set_sync r = (case r of (err, (y, c)) \<Rightarrow> (err, c\<lparr>c_sync := y\<rparr>))"

definition register_topic :: "'a ctl_env \<Rightarrow> string \<Rightarrow> 'a controller \<Rightarrow> 'a controller outcome" where
  "register_topic env topic c =
     set_sync (add_topic (ctl_sync_env env) topic (c_sync c) (effect (RegisterTopic topic) c))"

definition unregister_topic :: "'a ctl_env \<Rightarrow> string \<Rightarrow> 'a controller \<Rightarrow> 'a controller outcome" where
  "unregister_topic env topic c =
     set_sync (remove_topic (ctl_sync_env env) topic (c_sync c) (effect (UnregisterTopic topic) c))"

definition register_models :: "'a ctl_env \<Rightarrow> string list \<Rightarrow> 'a controller \<Rightarrow> 'a controller outcome" where
  "register_models env ignore_models c =
     with_value (iter_models_by_dependency_order (ce_ct env) True (ce_registry env)) (\<lambda>models c.
       (None, c\<lparr>c_sync := fold (\<lambda>m y. if m \<notin> set ignore_models then add_model m y else y)
          models (c_sync c)\<rparr>)) c"

section \<open>References\<close>

definition dereference :: "'a ctl_env \<Rightarrow> db_store \<Rightarrow> string \<Rightarrow> string \<Rightarrow> pyval result" where
  "dereference env s m i =
     (case ds_deref s m i of
        Some v \<Rightarrow> Inr v
      | None \<Rightarrow> (case nb_get env m i of
                   Some v \<Rightarrow> Inr v
                 | None \<Rightarrow> Inl (ReferencedObjectNotFound m i)))"

definition resolve :: "'a ctl_env \<Rightarrow> db_store \<Rightarrow> pyval \<Rightarrow> pyval result" where
  "resolve env s item = (case item of PRef m i \<Rightarrow> dereference env s m i | _ \<Rightarrow> Inr item)"

text \<open>
  \<open>iter_model_references_deep\<close>: the deque is used as a stack, here with its top first; the
  object behind a reference is looked up once per id.
\<close>

primrec refs_deep ::
  "nat \<Rightarrow> 'a ctl_env \<Rightarrow> db_store \<Rightarrow> string list \<Rightarrow> pyval list \<Rightarrow> pyval list result" where
  "refs_deep 0 env s seen stack = Inl FuelExhausted"
| "refs_deep (Suc fuel) env s seen stack =
     (case stack of
        [] \<Rightarrow> Inr []
      | item # stack \<Rightarrow>
          bind_result (obj_id item) (\<lambda>i.
            if i \<in> set seen then refs_deep fuel env s seen stack
            else
              bind_result (resolve env s item) (\<lambda>obj.
              bind_result
                (refs_deep fuel env s (i # seen) (rev (iter_submodels (ce_ct env) obj) @ stack))
                (\<lambda>rest. Inr (case item of PRef m j \<Rightarrow> obj # rest | _ \<Rightarrow> rest)))))"

text \<open>
  The fuel: every step either drops an item whose id is known or takes a new id, and ids and
  submodels all come from inside the object, the store and the database.
\<close>

fun nested :: "pyval \<Rightarrow> pyval list" where
  "nested (PObj c fs) = PObj c fs # concat (map (\<lambda>(name, v). nested v) fs)"
| "nested (PList vs) = concat (map nested vs)"
| "nested v = [v]"

definition stored_values :: "db_store \<Rightarrow> pyval list" where
  "stored_values s = concat (map (\<lambda>(m, mc). dict_values (mc_objs mc)) (ds_cache s))"

definition ref_universe :: "'a ctl_env \<Rightarrow> db_store \<Rightarrow> pyval \<Rightarrow> pyval list" where
  "ref_universe env s obj = concat (map nested (obj # dict_values (ce_nb env) @ stored_values s))"

definition ref_fuel :: "'a ctl_env \<Rightarrow> db_store \<Rightarrow> pyval \<Rightarrow> nat" where
  "ref_fuel env s obj =
     (let n = length (ref_universe env s obj) in Suc (Suc (n * Suc n)))"

definition get_model_references_deep :: "'a ctl_env \<Rightarrow> db_store \<Rightarrow> pyval \<Rightarrow> pyval list result" where
  "get_model_references_deep env s obj = refs_deep (ref_fuel env s obj) env s [] [obj]"

section \<open>Objects that wait for a reference\<close>

text \<open>
  \<open>_send_updates_for_object\<close> and \<open>_send_pending_events\<close>, which call each other. A
  nested call is made for an object taken out of the pending dictionary, so the number of
  pending objects bounds the depth.
\<close>

primrec send_updates_fuel :: "nat \<Rightarrow> 'a ctl_env \<Rightarrow> pyval \<Rightarrow> 'a controller \<Rightarrow> 'a controller outcome" where
  "send_updates_fuel 0 env obj c = (Some FuelExhausted, c)"
| "send_updates_fuel (Suc fuel) env obj c =
     (case get_model_references_deep env (c_db c) obj of
        Inl (ReferencedObjectNotFound m reference_id) \<Rightarrow>
          with_value (obj_id obj) (\<lambda>i c.
            (None, c\<lparr>c_pending := AList.update reference_id
               (set_add (obj_class obj, i)
                  (case map_of (c_pending c) reference_id of Some ps \<Rightarrow> ps | None \<Rightarrow> []))
               (c_pending c)\<rparr>)) c
      | Inl e \<Rightarrow> (Some e, c)
      | Inr references \<Rightarrow>
          and_then (run_each (ctl_update env) (rev references @ [obj]) c)
            (with_value (obj_id obj) (\<lambda>i c.
               (case map_of (c_pending c) i of
                  None \<Rightarrow> (None, c)
                | Some pending \<Rightarrow>
                    run_each (\<lambda>(model, item_id) c.
                      (case nb_get env model item_id of
                         None \<Rightarrow> (Some AttributeError, c)
                       | Some item \<Rightarrow> send_updates_fuel fuel env item c)) pending
                      (c\<lparr>c_pending := AList.delete i (c_pending c)\<rparr>)))))"

definition pending_count :: "'a controller \<Rightarrow> nat" where
  "pending_count c = sum_list (map (\<lambda>(i, ps). length ps) (c_pending c))"

definition send_updates_for_object :: "'a ctl_env \<Rightarrow> pyval \<Rightarrow> 'a controller \<Rightarrow> 'a controller outcome" where
  "send_updates_for_object env obj c = send_updates_fuel (Suc (pending_count c)) env obj c"

section \<open>The store under the controller\<close>

text \<open>
  The objects the controller is sent: instances of first-class models whose embedded objects are
  instances of other models, with ids of their own and nothing embedded in them, whose references
  are to first-class models, and whose topic, if the model has one, is a string.
\<close>

definition wf_object :: "class_table \<Rightarrow> pyval \<Rightarrow> bool" where
  "wf_object ct v \<longleftrightarrow> class_is_first_class ct (obj_class v) \<and> \<not> isl (obj_id v) \<and>
     wf_dict (subobjects ct v) \<and>
     (\<forall>w\<in>set (embedded_instances ct v). leaf_object ct w \<and> \<not> class_is_first_class ct (obj_class w)) \<and>
     (\<forall>m i. PRef m i \<in> set (nested v) \<longrightarrow> class_is_first_class ct m) \<and>
     (topic_model ct (obj_class v) \<longrightarrow> (\<exists>t. \<forall>d. py_getattr ct d v ''topic'' = Inr (PStr t)))"

text \<open>
  The invariant of the controller's store: the store's own invariant, objects are kept under their
  class, first-class models own and the others are owned.
\<close>

definition store_ok :: "class_table \<Rightarrow> db_store \<Rightarrow> bool" where
  "store_ok ct s \<longleftrightarrow> ds_inv ct s \<and>
     (\<forall>m i v. ds_deref s m i = Some v \<longrightarrow> obj_class v = m \<and> (class_is_first_class ct m \<longrightarrow> wf_object ct v)) \<and>
     (\<forall>okey. \<forall>ekey\<in>set (emb_of s okey). class_is_first_class ct (fst okey) \<and> \<not> class_is_first_class ct (fst ekey))"

lemma store_okD:
  assumes "store_ok ct s"
  shows "ds_inv ct s" "ds_deref s m i = Some v \<Longrightarrow> obj_class v = m"
    "ds_deref s m i = Some v \<Longrightarrow> class_is_first_class ct m \<Longrightarrow> wf_object ct v"
    "ekey \<in> set (emb_of s okey) \<Longrightarrow> class_is_first_class ct (fst okey) \<and> \<not> class_is_first_class ct (fst ekey)"
  using assms unfolding store_ok_def by blast+

lemma store_ok_empty: "store_ok ct empty_store"
  using ds_inv_empty [of ct] by (simp add: store_ok_def empty_store_def ds_deref_def emb_of_def)

lemma first_class_not_owned:
  assumes "store_ok ct s" "class_is_first_class ct m"
  shows "refs_of s (m, i) = []"
proof (rule ccontr)
  assume "refs_of s (m, i) \<noteq> []"
  then obtain okey where "okey \<in> set (refs_of s (m, i))" by (cases "refs_of s (m, i)") auto
  then have "(m, i) \<in> set (emb_of s okey)" using ds_invD(2) [OF store_okD(1) [OF assms(1)]] by simp
  from store_okD(4) [OF assms(1) this] assms(2) show False by simp
qed

lemma stored_key:
  assumes "store_ok ct s" "ds_deref s m i = Some v"
  shows "obj_id v = Inr i" "key_of v = i"
proof -
  from assms(2) obtain mc where mc: "map_of (ds_cache s) m = Some mc" "map_of (mc_objs mc) i = Some v"
    by (auto simp: ds_deref_def split: option.splits)
  with ds_invD(1) [OF store_okD(1) [OF assms(1)]] show "obj_id v = Inr i"
    unfolding caches_inv_def mc_inv_def by blast
  then show "key_of v = i" by (simp add: key_of_def)
qed

lemma wf_object_storable:
  assumes "store_ok ct s" "wf_object ct v" "indexable ct (ds_deref s) v"
  shows "storable ct s v"
proof -
  have "emb_of s (sub_key w) = []" if "w \<in> set (embedded_instances ct v)" for w
  proof (rule ccontr)
    assume "emb_of s (sub_key w) \<noteq> []"
    then obtain e where "e \<in> set (emb_of s (sub_key w))" by (cases "emb_of s (sub_key w)") auto
    from store_okD(4) [OF assms(1) this] that assms(2) show False by (simp add: wf_object_def sub_key_def)
  qed
  moreover have "sub_key w \<noteq> sub_key v" if "w \<in> set (embedded_instances ct v)" for w
    using that assms(2) by (auto simp: wf_object_def sub_key_def)
  ultimately show ?thesis
    using assms first_class_not_owned [OF assms(1), of "obj_class v"]
    unfolding storable_def wf_object_def by (auto simp: sub_key_def)
qed

lemma ds_update_indexable:
  assumes "caches_inv ct s" "ds_update ct v s = (None, s')"
  shows "indexable ct (ds_deref s) v"
proof -
  let ?mc = "ds_get_cache ct (obj_class v) s"
  from assms(2) obtain mc where "mc_update ct (ds_deref s) v ?mc = (None, mc)"
    by (subst (asm) ds_update.simps) (auto simp: and_then_None_iff on_cache_def split: prod.splits)
  then have "\<forall>ix\<in>set (dict_keys (mc_indexes ?mc)). \<not> isl (ic_get_keys ct (ds_deref s) ix v)"
    using mc_update_returns get_cache_inv(1) [OF assms(1)] by metis
  then show ?thesis unfolding get_cache_inv(2) [OF assms(1)] indexable_def by (simp add: list_all_iff)
qed

lemma store_ok_update:
  assumes ok: "store_ok ct s" and wf: "wf_object ct v" and ix: "indexable ct (ds_deref s) v"
  shows "\<exists>s'. ds_update ct v s = (None, s') \<and> store_ok ct s' \<and> ds_deref s' (obj_class v) (key_of v) = Some v \<and>
    (\<forall>m j. class_is_first_class ct m \<and> (m, j) \<noteq> (obj_class v, key_of v) \<longrightarrow> ds_deref s' m j = ds_deref s m j)"
proof -
  note st = wf_object_storable [OF ok wf ix]
  have k: "sub_key v = (obj_class v, key_of v)" by (simp add: sub_key_def key_of_def)
  from ds_update_correct [OF store_okD(1) [OF ok] st] obtain s' where
    s': "ds_update ct v s = (None, s')" "ds_inv ct s'"
      "\<And>m j. ds_deref s' m j =
       (if (m, j) = sub_key v then Some v
        else case map_of (subobjects ct v) (m, j) of
          Some v \<Rightarrow> Some v
        | None \<Rightarrow> if set (refs_of s (m, j)) = {sub_key v} then None else ds_deref s m j)"
    by blast
  from ds_update_effect [OF store_okD(1) [OF ok] st refl refl] s'(1) have
    emb: "emb_of s' = (emb_of s)(sub_key v := map sub_key (embedded_instances ct v))" by auto
  have sub: "\<not> class_is_first_class ct m \<and> obj_class w = m" if "map_of (subobjects ct v) (m, j) = Some w" for m j w
  proof -
    from that have "w \<in> set (embedded_instances ct v)" "sub_key w = (m, j)"
      by (auto simp: subobjects_def dest!: map_of_SomeD)
    with wf show ?thesis by (auto simp: wf_object_def sub_key_def)
  qed
  have other: "ds_deref s' m j = ds_deref s m j"
    if "class_is_first_class ct m" "(m, j) \<noteq> (obj_class v, key_of v)" for m j
    using that sub [of m j] first_class_not_owned [OF ok that(1), of j]
    by (cases "map_of (subobjects ct v) (m, j)") (auto simp: s'(3) k)
  have "obj_class w = m \<and> (class_is_first_class ct m \<longrightarrow> wf_object ct w)" if w: "ds_deref s' m j = Some w" for m j w
  proof (cases "(m, j) = sub_key v")
    case True
    then show ?thesis using w wf s'(3) [of m j] by (auto simp: k)
  next
    case False
    show ?thesis
    proof (cases "map_of (subobjects ct v) (m, j)")
      case None
      then have "ds_deref s m j = Some w" using w s'(3) [of m j] False by (auto split: if_splits)
      then show ?thesis using store_okD(2,3) [OF ok] by blast
    next
      case (Some w')
      then show ?thesis using w s'(3) [of m j] False sub [OF Some] by auto
    qed
  qed
  moreover have "class_is_first_class ct (fst okey) \<and> \<not> class_is_first_class ct (fst ekey)"
    if "ekey \<in> set (emb_of s' okey)" for okey ekey
    using that store_okD(4) [OF ok] wf unfolding emb
    by (cases "okey = sub_key v") (auto simp: wf_object_def sub_key_def)
  ultimately have "store_ok ct s'" using s'(2) unfolding store_ok_def by blast
  with s'(1) other s'(3) [of "obj_class v" "key_of v"] show ?thesis by (auto simp: k)
qed

lemma store_ok_delete:
  assumes ok: "store_ok ct s" and fc: "class_is_first_class ct m" and v: "ds_deref s m i = Some v"
  shows "\<exists>s'. ds_delete ct v s = (None, s') \<and> store_ok ct s' \<and> ds_deref s' m i = None \<and>
    (\<forall>m' j. class_is_first_class ct m' \<longrightarrow>
       ds_deref s' m' j = (if (m', j) = (m, i) then None else ds_deref s m' j))"
proof -
  note inv = store_okD(1) [OF ok] and cl = store_okD(2) [OF ok v] and i = stored_key(1) [OF ok v]
  have free: "refs_of s (obj_class v, i) = []" unfolding cl by (rule first_class_not_owned [OF ok fc])
  from ds_delete_correct [OF inv i _ free] v cl obtain s' where
    s': "ds_delete ct v s = (None, s')" "ds_inv ct s'"
      "\<And>m' j. ds_deref s' m' j =
       (if (m', j) = (m, i) \<or> set (refs_of s (m', j)) = {(m, i)} then None else ds_deref s m' j)"
    by auto
  from ds_delete_effect [OF inv i refl _ free] v cl s'(1) have
    emb: "emb_of s' = (emb_of s)((m, i) := [])" by auto
  have "obj_class w = m' \<and> (class_is_first_class ct m' \<longrightarrow> wf_object ct w)" if "ds_deref s' m' j = Some w" for m' j w
    using that s'(3) [of m' j] store_okD(2,3) [OF ok, of m' j w] by (auto split: if_splits)
  moreover have "class_is_first_class ct (fst okey) \<and> \<not> class_is_first_class ct (fst ekey)"
    if "ekey \<in> set (emb_of s' okey)" for okey ekey
    using that store_okD(4) [OF ok, of ekey okey] unfolding emb by (auto split: if_splits)
  ultimately have "store_ok ct s'" using s'(2) unfolding store_ok_def by blast
  moreover have "ds_deref s' m' j = (if (m', j) = (m, i) then None else ds_deref s m' j)"
    if "class_is_first_class ct m'" for m' j
    using first_class_not_owned [OF ok that, of j] by (simp add: s'(3))
  ultimately show ?thesis using s'(1,3) by auto
qed

section \<open>Updates and deletions\<close>

lemma emit_frame [simp]:
  "c_db (emit env e obj orig c) = c_db c" "c_pending (emit env e obj orig c) = c_pending c"
  by (simp_all add: emit_def)

lemma on_db_None_iff: "on_db f c = (None, c') \<longleftrightarrow> (\<exists>s. f (c_db c) = (None, s) \<and> c' = c\<lparr>c_db := s\<rparr>)"
  by (auto simp: on_db_def split: prod.splits)

text \<open>What \<open>update_model_object\<close> does, by whether the object is newer than the stored one.\<close>

lemma update_not_newer:
  assumes "obj_id obj = Inr i" "is_newer env (c_db c) obj (ds_deref (c_db c) (obj_class obj) i) = Inr False"
  shows "update_model_object env obj c = (None, c)"
  using assms by (simp add: update_model_object_def ds_get_one_by_id)

lemma update_newer:
  assumes "obj_id obj = Inr i" "is_newer env (c_db c) obj (ds_deref (c_db c) (obj_class obj) i) = Inr True"
    and "ds_update (ce_ct env) obj (c_db c) = (None, s)"
  shows "update_model_object env obj c = (None,
    if \<not> has_basic_events (ce_ct env) obj then c\<lparr>c_db := s\<rparr>
    else emit env (if ds_deref (c_db c) (obj_class obj) i = None then ''created'' else ''updated'')
      obj (ds_deref (c_db c) (obj_class obj) i) (c\<lparr>c_db := s\<rparr>))"
  using assms
  by (cases "ds_deref (c_db c) (obj_class obj) i")
     (simp_all add: update_model_object_def ds_get_one_by_id on_db_def)

lemma update_model_object_returns:
  assumes "update_model_object env obj c = (None, c')" "obj_id obj = Inr i"
  obtains (old) v where "ds_deref (c_db c) (obj_class obj) i = Some v" "c' = c"
    | (new) s where "ds_update (ce_ct env) obj (c_db c) = (None, s)" "c_db c' = s"
proof -
  from assms obtain b where b: "is_newer env (c_db c) obj (ds_deref (c_db c) (obj_class obj) i) = Inr b"
    by (auto simp: update_model_object_def ds_get_one_by_id with_value_None_iff)
  show thesis
  proof (cases b)
    case False
    with b have n: "is_newer env (c_db c) obj (ds_deref (c_db c) (obj_class obj) i) = Inr False" by simp
    then obtain v where "ds_deref (c_db c) (obj_class obj) i = Some v"
      by (cases "ds_deref (c_db c) (obj_class obj) i") (simp_all add: is_newer_def split: if_splits)
    moreover have "c' = c" using update_not_newer [OF assms(2) n] assms(1) by simp
    ultimately show thesis by (rule old)
  next
    case True
    with b assms obtain s where s: "ds_update (ce_ct env) obj (c_db c) = (None, s)"
      by (auto simp: update_model_object_def ds_get_one_by_id and_then_None_iff on_db_None_iff)
    with True b update_newer [OF assms(2) _ s] assms(1) have "c_db c' = s" by (auto split: if_splits)
    with s show thesis by (rule new)
  qed
qed

lemma delete_stored_object:
  assumes "store_ok (ce_ct env) (c_db c)" "class_is_first_class (ce_ct env) m" "ds_deref (c_db c) m i = Some v"
    and "obj_id obj = Inr i" "obj_class obj = m"
  shows "\<exists>s. ds_delete (ce_ct env) v (c_db c) = (None, s) \<and>
    delete_model_object env obj c = (None,
      (if has_basic_events (ce_ct env) v then emit env ''deleted'' v None c else c)\<lparr>c_db := s\<rparr>)"
proof -
  from store_ok_delete [OF assms(1-3)] obtain s where "ds_delete (ce_ct env) v (c_db c) = (None, s)" by blast
  with assms(3-5) show ?thesis by (simp add: delete_model_object_def ds_get_one_by_id on_db_def)
qed


section \<open>The controller and sync\<close>

text \<open>The models whose objects take the general handlers.\<close>

definition general_model :: "class_table \<Rightarrow> string \<Rightarrow> bool" where
  "general_model ct m =
     (case map_of ct m of
        None \<Rightarrow> False
      | Some d \<Rightarrow> (case cd_table d of None \<Rightarrow> False | Some t \<Rightarrow> t \<noteq> ''chassis'' \<and> t \<noteq> ''publisher''))"

lemma general_model_first_class: "general_model ct m \<Longrightarrow> class_is_first_class ct m"
  by (auto simp: general_model_def class_is_first_class_def is_first_class_def split: option.splits)

lemma general_handlers:
  assumes "general_model (ce_ct env) (obj_class obj)"
  shows "ctl_update env obj c = update_model_object env obj c"
    "ctl_delete env obj c = delete_model_object env obj c"
  using assms
  by (auto simp: general_model_def ctl_update_def ctl_delete_def table_name_def split: option.splits)

lemma ctl_sync_env_simps [simp]:
  "sy_ct (ctl_sync_env env) = ce_ct env" "sy_db (ctl_sync_env env) = c_db"
  "sy_nb_get_all (ctl_sync_env env) = nb_get_all env"
  "sy_update_cb (ctl_sync_env env) = ctl_update env" "sy_delete_cb (ctl_sync_env env) = ctl_delete env"
  by (simp_all add: ctl_sync_env_def)

lemma stored_listing:
  assumes "store_ok ct s"
  shows "\<exists>xs. ds_get_all ct (PObj m []) None s = Inr xs \<and>
    set xs = {v. \<exists>i. ds_deref s m i = Some v} \<and> distinct (map key_of xs)"
proof -
  let ?mc = "ds_get_cache ct m s"
  have wf: "wf_dict (mc_objs ?mc)"
    using get_cache_inv(1) [OF ds_invD(1) [OF store_okD(1) [OF assms]], of m] by (simp add: mc_inv_def)
  have "for_each (\<lambda>i objs. bind_result (mc_get_by_id i ?mc) (\<lambda>v. Inr (objs @ [v]))) (map fst d) acc =
      Inr (acc @ map snd d)" if "set d \<subseteq> set (mc_objs ?mc)" for d acc
    using that
  proof (induction d arbitrary: acc)
    case Nil
    then show ?case by simp
  next
    case (Cons iv d)
    then have "map_of (mc_objs ?mc) (fst iv) = Some (snd iv)" using wf by (simp add: map_of_is_SomeI)
    then have "mc_get_by_id (fst iv) ?mc = Inr (snd iv)" by (simp add: mc_get_by_id_def)
    with Cons show ?case by simp
  qed
  from this [of "mc_objs ?mc" "[]"] have "ds_get_all ct (PObj m []) None s = Inr (map snd (mc_objs ?mc))"
    by (simp add: ds_get_all_def mc_get_all_def mc_get_keys_def)
  moreover have "set (map snd (mc_objs ?mc)) = {v. \<exists>i. ds_deref s m i = Some v}"
    unfolding get_cache_objs [of ct m s, symmetric] using wf by (force simp: map_of_eq_Some_iff)
  moreover have "map key_of (map snd (mc_objs ?mc)) = map fst (mc_objs ?mc)"
  proof -
    have "key_of v = i" if "(i, v) \<in> set (mc_objs ?mc)" for i v
      using stored_key(2) [OF assms, of m i v] that wf
      by (simp add: get_cache_objs [of ct m s, symmetric] map_of_is_SomeI)
    then show ?thesis by auto
  qed
  ultimately show ?thesis using wf by metis
qed

text \<open>
  The controller's callbacks keep the contract of \<open>Sync\<close> on the models with the general
  handlers.
\<close>

interpretation ctl: sync_contract "ctl_sync_env env" "\<lambda>c. store_ok (ce_ct env) (c_db c)"
  "general_model (ce_ct env)"
  "\<lambda>v. wf_object (ce_ct env) v \<and> general_model (ce_ct env) (obj_class v)" for env :: "'a ctl_env"
proof unfold_locales
  fix w :: "'a controller" and m
  assume ok: "store_ok (ce_ct env) (c_db w)"
  show "\<exists>xs. ds_get_all (sy_ct (ctl_sync_env env)) (PObj m []) None (sy_db (ctl_sync_env env) w) = Inr xs \<and>
      set xs = {v. \<exists>i. held (ctl_sync_env env) w m i = Some v} \<and> distinct (map key_of xs)"
    using stored_listing [OF ok] by simp
  assume gm: "general_model (ce_ct env) m"
  note fc = general_model_first_class [OF gm]
  fix i v assume v: "held (ctl_sync_env env) w m i = Some v"
  show "obj_id v = Inr i" using stored_key(1) [OF ok] v by simp
  show "\<exists>t. \<forall>d. py_getattr (sy_ct (ctl_sync_env env)) d v ''topic'' = Inr (PStr t)"
    if "topic_model (sy_ct (ctl_sync_env env)) m"
    using store_okD(2,3) [OF ok, of m i v] v fc that by (simp add: wf_object_def)
  have held: "ds_deref (c_db w) m i = Some v" using v by simp
  from store_ok_delete [OF ok fc held] obtain s where s: "ds_delete (ce_ct env) v (c_db w) = (None, s)"
      "store_ok (ce_ct env) s" "\<And>m' j. class_is_first_class (ce_ct env) m' \<Longrightarrow>
        ds_deref s m' j = (if (m', j) = (m, i) then None else ds_deref (c_db w) m' j)"
    by blast
  have cl: "obj_class v = m" "obj_id v = Inr i" using store_okD(2) [OF ok] stored_key(1) [OF ok] v by simp_all
  from delete_stored_object [OF ok fc held cl(2,1)] s(1) general_handlers(2) [of env v w] gm cl(1)
  have "ctl_delete env v w = (None, (if has_basic_events (ce_ct env) v then emit env ''deleted'' v None w else w)\<lparr>c_db := s\<rparr>)"
    by auto
  then show "\<exists>w'. sy_delete_cb (ctl_sync_env env) v w = (None, w') \<and> store_ok (ce_ct env) (c_db w') \<and>
      (\<forall>m' j. general_model (ce_ct env) m' \<longrightarrow> held (ctl_sync_env env) w' m' j =
        (if (m', j) = (m, i) then None else held (ctl_sync_env env) w m' j))"
    using s(2,3) general_model_first_class [of "ce_ct env"] by auto
next
  fix w w' :: "'a controller" and v
  assume ok: "store_ok (ce_ct env) (c_db w)"
    and wf: "wf_object (ce_ct env) v \<and> general_model (ce_ct env) (obj_class v)"
    and up: "sy_update_cb (ctl_sync_env env) v w = (None, w')"
  have i: "obj_id v = Inr (key_of v)"
    using wf by (cases "obj_id v") (simp_all add: wf_object_def key_of_def)
  from up general_handlers(1) [of env v w] wf have "update_model_object env v w = (None, w')" by simp
  then show "store_ok (ce_ct env) (c_db w') \<and>
      held (ctl_sync_env env) w' (obj_class v) (key_of v) \<noteq> None \<and>
      (\<forall>m i. general_model (ce_ct env) m \<and> (m, i) \<noteq> (obj_class v, key_of v) \<longrightarrow>
        held (ctl_sync_env env) w' m i = held (ctl_sync_env env) w m i)"
    using i
  proof (cases rule: update_model_object_returns)
    case (old u)
    with ok show ?thesis by simp
  next
    case (new s)
    note ix = ds_update_indexable [OF ds_invD(1) [OF store_okD(1) [OF ok]] new(1)]
    from store_ok_update [OF ok _ ix] wf new general_model_first_class [of "ce_ct env"]
    show ?thesis by auto
  qed
qed

text \<open>The objects the database holds for a model are stored under their own model and id.\<close>

definition nb_wf :: "'a ctl_env \<Rightarrow> string \<Rightarrow> bool" where
  "nb_wf env m \<longleftrightarrow> (\<forall>((m', i), v)\<in>set (ce_nb env). m' = m \<longrightarrow>
     obj_class v = m \<and> obj_id v = Inr i \<and> wf_object (ce_ct env) v)"

lemma nb_wfD:
  assumes "nb_wf env m" "((m, i), v) \<in> set (ce_nb env)"
  shows "obj_class v = m" "obj_id v = Inr i" "wf_object (ce_ct env) v"
  using assms unfolding nb_wf_def by blast+

lemma nb_wf_proper:
  assumes "nb_wf env m" "general_model (ce_ct env) m"
  shows "nb_proper (ctl_sync_env env)
    (\<lambda>v. wf_object (ce_ct env) v \<and> general_model (ce_ct env) (obj_class v)) m"
  using assms unfolding nb_proper_def nb_wf_def by (fastforce simp: nb_get_all_def)

lemma nb_wf_ids:
  assumes "nb_wf env m"
  shows "nb_ids (ctl_sync_env env) m None = {i. (m, i) \<in> set (dict_keys (ce_nb env))}"
  using assms unfolding nb_wf_def by (force simp: nb_ids_def nb_get_all_def key_of_def)


section \<open>Loading references\<close>

lemma nested_self: "is_submodel ct v \<Longrightarrow> v \<in> set (nested v)"
  by (cases v) (simp_all add: is_submodel_def is_model_instance_def)

lemma nested_trans: "x \<in> set (nested v) \<Longrightarrow> set (nested x) \<subseteq> set (nested v) \<and> length (nested x) \<le> length (nested v)"
proof (induction v rule: nested.induct)
  case (1 c fs)
  show ?case
  proof (cases "x = PObj c fs")
    case False
    with "1.prems" obtain name v where v: "(name, v) \<in> set fs" "x \<in> set (nested v)" by auto
    from "1.IH" [OF v(1) refl v(2)] have IH: "set (nested x) \<subseteq> set (nested v)" "length (nested x) \<le> length (nested v)"
      by simp_all
    have "length (nested v) \<le> length (concat (map (\<lambda>(name, v). nested v) fs))"
      using v(1) by (induction fs) auto
    moreover have "set (nested v) \<subseteq> set (nested (PObj c fs))" using v(1) by force
    ultimately show ?thesis using IH by (simp add: le_trans [of _ "length (nested v)"] le_SucI)
  qed simp
next
  case (2 vs)
  then obtain v where v: "v \<in> set vs" "x \<in> set (nested v)" by auto
  from "2.IH" [OF v] have IH: "set (nested x) \<subseteq> set (nested v)" "length (nested x) \<le> length (nested v)"
    by simp_all
  have "length (nested v) \<le> length (concat (map nested vs))" using v(1) by (induction vs) auto
  moreover have "set (nested v) \<subseteq> set (nested (PList vs))" using v(1) by force
  ultimately show ?case using IH by (simp add: le_trans [of _ "length (nested v)"])
qed simp_all

lemma concat_dominated:
  assumes "\<And>w. set (g w) \<subseteq> set (h w) \<and> length (g w) \<le> length (h w)"
  shows "set (concat (map (\<lambda>(name, w). g w) fs)) \<subseteq> set (concat (map (\<lambda>(name, w). h w) fs)) \<and>
    length (concat (map (\<lambda>(name, w). g w) fs)) \<le> length (concat (map (\<lambda>(name, w). h w) fs))"
proof (induction fs)
  case (Cons nw fs)
  then show ?case using assms [of "snd nw"] by (cases nw) (auto intro: add_mono)
qed simp

lemma iter_submodels_nested:
  "set (iter_submodels ct v) \<subseteq> set (nested v) \<and> length (iter_submodels ct v) \<le> length (nested v)"
proof (cases v)
  case (PObj c fs)
  have item: "set (case w of PList ws \<Rightarrow> filter (is_submodel ct) ws | _ \<Rightarrow> if is_submodel ct w then [w] else [])
        \<subseteq> set (nested w) \<and>
      length (case w of PList ws \<Rightarrow> filter (is_submodel ct) ws | _ \<Rightarrow> if is_submodel ct w then [w] else [])
        \<le> length (nested w)" for w
  proof (cases w)
    case (PList ws)
    have "length (filter (is_submodel ct) ws) \<le> length (concat (map nested ws))"
    proof (induction ws)
      case (Cons u us)
      have "is_submodel ct u \<Longrightarrow> 1 \<le> length (nested u)" using nested_self [of ct u]
        by (cases "nested u") auto
      with Cons show ?case by auto
    qed simp
    then show ?thesis using PList nested_self by fastforce
  qed (auto simp: is_submodel_def is_model_instance_def)
  have "set (iter_submodels ct (PObj c fs)) \<subseteq> set (concat (map (\<lambda>(name, v). nested v) fs)) \<and>
      length (iter_submodels ct (PObj c fs)) \<le> length (concat (map (\<lambda>(name, v). nested v) fs))"
    unfolding iter_submodels_def pyval.case by (rule concat_dominated) (rule item)
  then show ?thesis using PObj by auto
qed (simp_all add: iter_submodels_def)

lemma refs_deep_enough_fuel:
  assumes "set stack \<subseteq> set us"
    and "\<And>x v. x \<in> set us \<Longrightarrow> resolve env s x = Inr v \<Longrightarrow>
      set (iter_submodels (ce_ct env) v) \<subseteq> set us \<and> length (iter_submodels (ce_ct env) v) \<le> length us"
    and "length stack + card (key_of ` set us - set seen) * Suc (length us) < fuel"
  shows "refs_deep fuel env s seen stack \<noteq> Inl FuelExhausted"
  using assms(1,3)
proof (induction fuel arbitrary: seen stack)
  case 0
  then show ?case by simp
next
  case (Suc fuel)
  show ?case
  proof (cases stack)
    case (Cons item rest)
    show ?thesis
    proof (cases "obj_id item")
      case (Inl e)
      then show ?thesis using Cons by (auto simp: obj_id_def split: pyval.splits option.splits)
    next
      case (Inr i)
      then have i: "key_of item = i" by (simp add: key_of_def)
      show ?thesis
      proof (cases "i \<in> set seen")
        case True
        with Suc.IH [of rest seen] Suc.prems Cons Inr show ?thesis by simp
      next
        case False
        show ?thesis
        proof (cases "resolve env s item")
          case (Inl e)
          then have "e \<noteq> FuelExhausted" by (auto simp: resolve_def dereference_def split: pyval.splits option.splits)
          with Inl Cons Inr False show ?thesis by simp
        next
          case (Inr v)
          let ?subs = "iter_submodels (ce_ct env) v" and ?I = "key_of ` set us"
          from assms(2) [OF _ Inr] Suc.prems(1) Cons have
            subs: "set ?subs \<subseteq> set us" "length ?subs \<le> length us" by simp_all
          have "i \<in> ?I - set seen" using i False Suc.prems(1) Cons by auto
          moreover have "?I - set (i # seen) = ?I - set seen - {i}" by auto
          ultimately have card: "card (?I - set seen) = Suc (card (?I - set (i # seen)))"
            using card.remove [of "?I - set seen" i] by simp
          have "length (rev ?subs @ rest) + card (?I - set (i # seen)) * Suc (length us) < fuel"
            using Suc.prems(2) subs(2) Cons unfolding card by simp
          with Suc.IH [of "rev ?subs @ rest" "i # seen"] subs(1) Suc.prems(1) Cons
          have "refs_deep fuel env s (i # seen) (rev ?subs @ rest) \<noteq> Inl FuelExhausted" by simp
          with Inr Cons False \<open>obj_id item = Inr i\<close> show ?thesis
            by (cases "refs_deep fuel env s (i # seen) (rev ?subs @ rest)") simp_all
        qed
      qed
    qed
  qed simp
qed

lemma stored_values_deref: "ds_deref s m i = Some v \<Longrightarrow> v \<in> set (stored_values s)"
  by (force simp: ds_deref_def stored_values_def split: option.splits dest: map_of_SomeD)

lemma resolve_universe:
  assumes "x \<in> set (ref_universe env s obj)" "resolve env s x = Inr v"
  shows "set (iter_submodels (ce_ct env) v) \<subseteq> set (ref_universe env s obj) \<and>
    length (iter_submodels (ce_ct env) v) \<le> length (ref_universe env s obj)"
proof -
  let ?base = "obj # dict_values (ce_nb env) @ stored_values s"
  have "\<exists>b\<in>set ?base. set (nested v) \<subseteq> set (nested b) \<and> length (nested v) \<le> length (nested b)"
  proof (cases "\<exists>m i. x = PRef m i")
    case True
    then obtain m i where "dereference env s m i = Inr v" using assms(2) by (auto simp: resolve_def)
    then have "ds_deref s m i = Some v \<or> map_of (ce_nb env) (m, i) = Some v"
      by (simp add: dereference_def nb_get_def split: option.splits)
    then have "v \<in> set ?base"
    proof
      assume "map_of (ce_nb env) (m, i) = Some v"
      then have "v \<in> set (dict_values (ce_nb env))" by (metis map_of_SomeD imageI set_map snd_conv)
      then show ?thesis by simp
    qed (simp add: stored_values_deref)
    then show ?thesis by blast
  next
    case False
    then have "x = v" using assms(2) by (cases x) (auto simp: resolve_def)
    with assms(1) obtain b where "b \<in> set ?base" "v \<in> set (nested b)"
      unfolding ref_universe_def set_concat set_map by blast
    with nested_trans [of v b] show ?thesis by blast
  qed
  then obtain b where b: "b \<in> set ?base" "set (nested v) \<subseteq> set (nested b)" "length (nested v) \<le> length (nested b)"
    by blast
  have "length (nested b) \<le> length (concat (map nested bs))" if "b \<in> set bs" for bs
    using that by (induction bs) auto
  from this [OF b(1)] have "length (nested b) \<le> length (ref_universe env s obj)"
    by (simp only: ref_universe_def)
  moreover have "set (nested b) \<subseteq> set (ref_universe env s obj)"
    using b(1) unfolding ref_universe_def set_concat set_map by blast
  moreover note b(2,3) iter_submodels_nested [of "ce_ct env" v]
  ultimately show ?thesis by (meson le_trans subset_trans)
qed

lemma references_terminate:
  assumes "is_submodel (ce_ct env) obj"
  shows "get_model_references_deep env s obj \<noteq> Inl FuelExhausted"
proof -
  let ?us = "ref_universe env s obj"
  have "obj \<in> set ?us" using nested_self [OF assms] by (simp add: ref_universe_def)
  moreover have "card (key_of ` set ?us) \<le> length ?us"
    using card_image_le [of "set ?us" key_of] card_length [of ?us] by simp
  then have "card (key_of ` set ?us) * Suc (length ?us) \<le> length ?us * Suc (length ?us)" by (rule mult_le_mono1)
  ultimately show ?thesis
    unfolding get_model_references_deep_def ref_fuel_def Let_def
    using refs_deep_enough_fuel [of "[obj]" ?us env s "[]" "Suc (Suc (length ?us * Suc (length ?us)))"]
      resolve_universe [of _ env s obj] by simp
qed

text \<open>The items an object leads to, through embedded objects and resolved references.\<close>

inductive leads_to :: "'a ctl_env \<Rightarrow> db_store \<Rightarrow> pyval \<Rightarrow> pyval \<Rightarrow> bool" for env s obj where
  self: "leads_to env s obj obj"
| further: "leads_to env s obj x \<Longrightarrow> resolve env s x = Inr v \<Longrightarrow>
    y \<in> set (iter_submodels (ce_ct env) v) \<Longrightarrow> leads_to env s obj y"

text \<open>
  What a run has done: the items it took up, with the objects behind the references among them
  as its output, and every id it has met.
\<close>

lemma refs_deep_explored:
  assumes "refs_deep fuel env s seen stack = Inr out" "\<forall>x\<in>set stack. leads_to env s obj x"
  shows "\<exists>taken. set out = {v. \<exists>m i. PRef m i \<in> taken \<and> dereference env s m i = Inr v} \<and>
    (\<forall>x\<in>taken. leads_to env s obj x) \<and> (\<forall>x\<in>set stack. key_of x \<in> set seen \<union> key_of ` taken) \<and>
    (\<forall>x\<in>taken. \<exists>v. resolve env s x = Inr v \<and>
       (\<forall>y\<in>set (iter_submodels (ce_ct env) v). key_of y \<in> set seen \<union> key_of ` taken))"
  using assms
proof (induction fuel arbitrary: seen stack out)
  case 0
  then show ?case by simp
next
  case (Suc fuel)
  show ?case
  proof (cases stack)
    case Nil
    then show ?thesis using Suc.prems(1) by (intro exI [of _ "{}"]) simp
  next
    case (Cons item rest)
    with Suc.prems(1) obtain i where i: "obj_id item = Inr i" by (auto simp: bind_result_Inr_iff)
    then have ki: "key_of item = i" by (simp add: key_of_def)
    show ?thesis
    proof (cases "i \<in> set seen")
      case True
      with Suc.IH [of seen rest out] Suc.prems Cons i ki show ?thesis by simp
    next
      case False
      with Suc.prems(1) Cons i obtain v rest_out where
        v: "resolve env s item = Inr v"
          "refs_deep fuel env s (i # seen) (rev (iter_submodels (ce_ct env) v) @ rest) = Inr rest_out"
          "out = (case item of PRef m j \<Rightarrow> v # rest_out | _ \<Rightarrow> rest_out)"
        by (auto simp: bind_result_Inr_iff)
      have item: "leads_to env s obj item" using Suc.prems(2) Cons by simp
      have "\<forall>x\<in>set (rev (iter_submodels (ce_ct env) v) @ rest). leads_to env s obj x"
        using leads_to.further [OF item v(1)] Suc.prems(2) Cons by auto
      from Suc.IH [OF v(2) this] obtain taken where
        t: "set rest_out = {v. \<exists>m i. PRef m i \<in> taken \<and> dereference env s m i = Inr v}"
          "\<forall>x\<in>taken. leads_to env s obj x"
          "\<forall>x\<in>set (rev (iter_submodels (ce_ct env) v) @ rest). key_of x \<in> set (i # seen) \<union> key_of ` taken"
          "\<forall>x\<in>taken. \<exists>v. resolve env s x = Inr v \<and>
            (\<forall>y\<in>set (iter_submodels (ce_ct env) v). key_of y \<in> set (i # seen) \<union> key_of ` taken)"
        by blast
      have ids: "set (i # seen) \<union> key_of ` taken = set seen \<union> key_of ` insert item taken" using ki by auto
      have "set out = {v. \<exists>m i. PRef m i \<in> insert item taken \<and> dereference env s m i = Inr v}"
      proof (cases "\<exists>m j. item = PRef m j")
        case True
        then obtain m j where r: "item = PRef m j" "dereference env s m j = Inr v" "out = v # rest_out"
          using v(1,3) by (auto simp: resolve_def)
        show ?thesis unfolding r(3) list.set t(1) r(1) using r(2) by (intro set_eqI) auto
      next
        case False
        then have "out = rest_out" "\<And>m j. PRef m j \<noteq> item" using v(3) by (auto split: pyval.splits)
        then show ?thesis using t(1) by simp
      qed
      moreover have "\<forall>x\<in>set stack. key_of x \<in> set seen \<union> key_of ` insert item taken"
        using t(3) Cons unfolding ids by auto
      ultimately show ?thesis using t(2,3,4) item v(1) unfolding ids
        by (intro exI [of _ "insert item taken"]) auto
    qed
  qed
qed

lemma refs_deep_error:
  assumes "refs_deep fuel env s seen stack = Inl e" "\<forall>x\<in>set stack. leads_to env s obj x"
    and "e \<noteq> FuelExhausted" "\<forall>x. leads_to env s obj x \<longrightarrow> \<not> isl (obj_id x)"
  shows "\<exists>m i. e = ReferencedObjectNotFound m i \<and> leads_to env s obj (PRef m i) \<and>
    ds_deref s m i = None \<and> nb_get env m i = None"
  using assms(1,2)
proof (induction fuel arbitrary: seen stack)
  case 0
  then show ?case using assms(3) by simp
next
  case (Suc fuel)
  then obtain item rest where Cons: "stack = item # rest" by (cases stack) simp_all
  have item: "leads_to env s obj item" using Suc.prems(2) Cons by simp
  with assms(4) obtain i where i: "obj_id item = Inr i" by (cases "obj_id item") auto
  show ?case
  proof (cases "i \<in> set seen")
    case True
    with Suc.IH [of seen rest] Suc.prems Cons i show ?thesis by simp
  next
    case False
    show ?thesis
    proof (cases "resolve env s item")
      case (Inl e')
      then obtain m j where "item = PRef m j" "e' = ReferencedObjectNotFound m j"
          "ds_deref s m j = None" "nb_get env m j = None"
        by (cases item) (auto simp: resolve_def dereference_def split: option.splits)
      moreover have "e = e'" using Suc.prems(1) Cons i False Inl by simp
      ultimately show ?thesis using item by blast
    next
      case (Inr v)
      with Suc.prems(1) Cons i False have
        "refs_deep fuel env s (i # seen) (rev (iter_submodels (ce_ct env) v) @ rest) = Inl e"
        by (auto simp: bind_result_Inl_iff)
      moreover have "\<forall>x\<in>set (rev (iter_submodels (ce_ct env) v) @ rest). leads_to env s obj x"
        using leads_to.further [OF item Inr] Suc.prems(2) Cons by auto
      ultimately show ?thesis by (rule Suc.IH)
    qed
  qed
qed


section \<open>Waiting for references\<close>

text \<open>
  What only the controller's own bookkeeping changes: an update or a deletion of an object leaves
  the pending objects, the topology, the port locations and the sync object alone.
\<close>

definition c_books :: "'a controller \<Rightarrow> (string, obj_key list) dict \<times> (string, string list) dict \<times>
    (string, string \<times> string) dict \<times> (string, pyval) dict \<times> sync" where
  "c_books c = (c_pending c, c_topic_subscribed c, c_ovs_to_lport_mapping c, c_locations c, c_sync c)"

definition has_books :: "(string, obj_key list) dict \<times> (string, string list) dict \<times>
    (string, string \<times> string) dict \<times> (string, pyval) dict \<times> sync \<Rightarrow> 'a controller \<Rightarrow> bool" where
  "has_books p c \<longleftrightarrow> c_books c = p"

lemma has_books_steps:
  "has_books p c \<Longrightarrow> has_books p (snd (err, c))"
  "has_books p c \<Longrightarrow> has_books p (snd (on_db f c))"
  "has_books p c \<Longrightarrow> has_books p (effect e c)"
  "has_books p c \<Longrightarrow> has_books p (emit env ev obj orig c)"
  "(b \<Longrightarrow> has_books p (snd x)) \<Longrightarrow> (\<not> b \<Longrightarrow> has_books p (snd y)) \<Longrightarrow> has_books p (snd (if b then x else y))"
  "(b \<Longrightarrow> has_books p c) \<Longrightarrow> (\<not> b \<Longrightarrow> has_books p c') \<Longrightarrow> has_books p (if b then c else c')"
  "has_books p a \<Longrightarrow> (\<And>v. has_books p (g v)) \<Longrightarrow> has_books p (case opt of None \<Rightarrow> a | Some v \<Rightarrow> g v)"
  "has_books p (snd x) \<Longrightarrow> (\<And>v. has_books p (snd (h v))) \<Longrightarrow>
     has_books p (snd (case opt of None \<Rightarrow> x | Some v \<Rightarrow> h v))"
  by (auto simp: has_books_def c_books_def on_db_def effect_def emit_def split: prod.splits option.splits)

lemmas has_books_intros = has_books_steps
  and_then_snd [where P = "has_books p" for p] with_value_snd [where P = "has_books p" for p]

lemma update_model_object_books:
  "has_books p c \<Longrightarrow> has_books p (snd (update_model_object env obj c))"
  unfolding update_model_object_def by (rule has_books_intros | assumption)+

lemma delete_model_object_books:
  "has_books p c \<Longrightarrow> has_books p (snd (delete_model_object env obj c))"
  unfolding delete_model_object_def by (rule has_books_intros | assumption)+

lemma for_ports_books:
  assumes "\<And>port c. has_books p c \<Longrightarrow> has_books p (snd (body port c))"
  shows "has_books p c \<Longrightarrow> has_books p (snd (for_ports env ch body n ids c))"
proof (induction ids arbitrary: c)
  case (Cons i ids)
  show ?case unfolding for_ports.simps
    by (rule has_books_intros assms Cons.IH Cons.prems | assumption)+
qed (simp add: has_books_def)

lemma ctl_update_books: "has_books p c \<Longrightarrow> has_books p (snd (ctl_update env obj c))"
  unfolding ctl_update_def update_chassis_def update_publisher_def for_ports_by_chassis_def
  by (rule has_books_intros for_ports_books update_model_object_books | assumption)+

lemma ctl_delete_books: "has_books p c \<Longrightarrow> has_books p (snd (ctl_delete env obj c))"
  unfolding ctl_delete_def delete_chassis_def delete_publisher_def for_ports_by_chassis_def
  by (rule has_books_intros for_ports_books delete_model_object_books | assumption)+

lemma run_updates_pending: "c_pending (snd (run_each (ctl_update env) xs c)) = c_pending c"
proof -
  have "has_books (c_books c) (snd (run_each (ctl_update env) xs c))"
    by (rule run_each_snd) (simp_all add: has_books_def [of "c_books c" c] ctl_update_books)
  then show ?thesis by (simp add: has_books_def c_books_def)
qed

definition pending_size :: "(string, obj_key list) dict \<Rightarrow> nat" where
  "pending_size p = sum_list (map (\<lambda>(i, ps). length ps) p)"

lemma pending_count_size: "pending_count c = pending_size (c_pending c)"
  by (simp add: pending_count_def pending_size_def)

lemma pending_size_update:
  "pending_size (AList.update k v p) + (case map_of p k of Some ps \<Rightarrow> length ps | None \<Rightarrow> 0) =
   pending_size p + length v"
  by (induction p) (auto simp: pending_size_def)

lemma pending_size_add:
  "pending_size (AList.update k (set_add x (case map_of p k of Some ps \<Rightarrow> ps | None \<Rightarrow> [])) p) \<le> Suc (pending_size p)"
  using pending_size_update [of k "set_add x (case map_of p k of Some ps \<Rightarrow> ps | None \<Rightarrow> [])" p]
  by (cases "map_of p k") (auto simp: set_add_def split: if_splits)

lemma pending_size_pop:
  "map_of p k = Some ps \<Longrightarrow> pending_size (AList.delete k p) + length ps \<le> pending_size p"
proof (induction p)
  case (Cons e p)
  have "pending_size (AList.delete k p) \<le> pending_size p"
    by (induction p) (auto simp: pending_size_def)
  with Cons show ?case by (cases e) (auto simp: pending_size_def split: if_splits)
qed simp

text \<open>The fuel of \<open>send_updates_for_object\<close> is enough: more changes nothing.\<close>

lemma send_each_fuel:
  assumes "\<And>item c. pending_count c < f \<Longrightarrow> pending_count c < g \<Longrightarrow>
      send_updates_fuel f env item c = send_updates_fuel g env item c \<and>
      pending_count (snd (send_updates_fuel f env item c)) \<le> Suc (pending_count c)"
    and "pending_count c + length qs \<le> f" "pending_count c + length qs \<le> g"
  shows "run_each (\<lambda>(m, i) c. case nb_get env m i of None \<Rightarrow> (Some AttributeError, c)
        | Some item \<Rightarrow> send_updates_fuel f env item c) qs c =
      run_each (\<lambda>(m, i) c. case nb_get env m i of None \<Rightarrow> (Some AttributeError, c)
        | Some item \<Rightarrow> send_updates_fuel g env item c) qs c \<and>
    pending_count (snd (run_each (\<lambda>(m, i) c. case nb_get env m i of None \<Rightarrow> (Some AttributeError, c)
        | Some item \<Rightarrow> send_updates_fuel f env item c) qs c)) \<le> pending_count c + length qs"
  using assms(2,3)
proof (induction qs arbitrary: c)
  case (Cons q qs)
  obtain m i where q [simp]: "q = (m, i)" by (cases q)
  show ?case
  proof (cases "nb_get env m i")
    case (Some item)
    from assms(1) [of c item] Cons.prems obtain err c1 where
      c1: "send_updates_fuel f env item c = (err, c1)" "send_updates_fuel g env item c = (err, c1)"
        "pending_count c1 \<le> Suc (pending_count c)"
      by (cases "send_updates_fuel f env item c") auto
    with Cons.IH [of c1] Cons.prems Some show ?thesis by (cases err) auto
  qed simp
qed simp

lemma send_fuel_enough:
  assumes "pending_count c < f" "pending_count c < g"
  shows "send_updates_fuel f env obj c = send_updates_fuel g env obj c \<and>
    pending_count (snd (send_updates_fuel f env obj c)) \<le> Suc (pending_count c)"
  using assms
proof (induction f arbitrary: g obj c)
  case (Suc f)
  then obtain g' where g: "g = Suc g'" by (cases g) simp_all
  show ?case
  proof (cases "get_model_references_deep env (c_db c) obj")
    case (Inl e)
    then show ?thesis using g pending_size_add
      by (cases e; cases "obj_id obj") (simp_all add: pending_count_size)
  next
    case (Inr refs)
    obtain err c1 where c1: "run_each (ctl_update env) (rev refs @ [obj]) c = (err, c1)" by fastforce
    then have p1: "c_pending c1 = c_pending c" using run_updates_pending [of env _ c] by (metis snd_conv)
    show ?thesis
    proof (cases "err = None \<and> (\<exists>i ps. obj_id obj = Inr i \<and> map_of (c_pending c1) i = Some ps)")
      case False
      then show ?thesis using Inr c1 g p1
        by (cases err; cases "obj_id obj") (auto simp: pending_count_size)
    next
      case True
      then obtain i ps where i: "err = None" "obj_id obj = Inr i" "map_of (c_pending c1) i = Some ps" by blast
      let ?c2 = "c1\<lparr>c_pending := AList.delete i (c_pending c1)\<rparr>"
      have "pending_count ?c2 + length ps \<le> pending_count c"
        using pending_size_pop [OF i(3)] p1 by (simp add: pending_count_size)
      with Suc.prems g have b: "pending_count ?c2 + length ps \<le> f" "pending_count ?c2 + length ps \<le> g'"
        by simp_all
      let ?run = "\<lambda>h. run_each (\<lambda>(m, i) c. case nb_get env m i of None \<Rightarrow> (Some AttributeError, c)
            | Some item \<Rightarrow> send_updates_fuel h env item c) ps ?c2"
      have run: "send_updates_fuel (Suc h) env obj c = ?run h" for h using Inr c1 i by simp
      note each = send_each_fuel [of f g' env ?c2 ps, OF Suc.IH b]
      show ?thesis unfolding g run
      proof
        show "?run f = ?run g'" using each by (rule conjunct1)
        show "pending_count (snd (?run f)) \<le> Suc (pending_count c)"
          using conjunct2 [OF each] \<open>_ \<le> pending_count c\<close> by linarith
      qed
    qed
  qed
qed simp


text \<open>An update that returns stores its object and removes no first-class object.\<close>

definition grows :: "class_table \<Rightarrow> 'a controller \<Rightarrow> 'a controller \<Rightarrow> bool" where
  "grows ct c c' \<longleftrightarrow> store_ok ct (c_db c') \<and> (\<forall>m i. class_is_first_class ct m \<longrightarrow>
     ds_deref (c_db c) m i \<noteq> None \<longrightarrow> ds_deref (c_db c') m i \<noteq> None)"

lemma grows_refl: "store_ok ct (c_db c) \<Longrightarrow> grows ct c c"
  by (simp add: grows_def)

lemma grows_trans: "grows ct c c' \<Longrightarrow> grows ct c' c'' \<Longrightarrow> grows ct c c''"
  by (simp add: grows_def)

lemma wf_object_key: "wf_object ct v \<Longrightarrow> obj_id v = Inr (key_of v)"
  by (cases "obj_id v") (simp_all add: wf_object_def key_of_def)

lemma ds_update_grows:
  assumes "store_ok ct (c_db c)" "wf_object ct v" "ds_update ct v (c_db c) = (None, c_db c')"
  shows "grows ct c c' \<and> ds_deref (c_db c') (obj_class v) (key_of v) \<noteq> None"
proof -
  note ix = ds_update_indexable [OF ds_invD(1) [OF store_okD(1) [OF assms(1)]] assms(3)]
  have "grows ct c c'"
  proof -
    have "ds_deref (c_db c') m i \<noteq> None"
      if "class_is_first_class ct m" "ds_deref (c_db c) m i \<noteq> None" for m i
      using store_ok_update [OF assms(1,2) ix] assms(3) that
      by (cases "(m, i) = (obj_class v, key_of v)") auto
    then show ?thesis using store_ok_update [OF assms(1,2) ix] assms(3) unfolding grows_def by auto
  qed
  then show ?thesis using store_ok_update [OF assms(1,2) ix] assms(3) by auto
qed

lemma update_model_object_grows:
  assumes "store_ok (ce_ct env) (c_db c)" "wf_object (ce_ct env) v" "update_model_object env v c = (None, c')"
  shows "grows (ce_ct env) c c' \<and> ds_deref (c_db c') (obj_class v) (key_of v) \<noteq> None"
  using assms(3) wf_object_key [OF assms(2)]
proof (cases rule: update_model_object_returns)
  case (old u)
  then show ?thesis using assms(1) grows_refl by auto
next
  case (new s)
  then show ?thesis using ds_update_grows [OF assms(1,2), of c'] by simp
qed

lemma for_ports_grows:
  assumes "for_ports env ch (update_model_object env) n ids c = (None, c')" "store_ok (ce_ct env) (c_db c)"
    and "class_is_first_class (ce_ct env) ''LogicalPort''"
  shows "grows (ce_ct env) c c'"
  using assms(1,2)
proof (induction ids arbitrary: c)
  case Nil
  then show ?case by (simp add: grows_refl)
next
  case (Cons i ids)
  from Cons.prems(1) obtain port c1 live where
    port: "mc_get_by_id i (ds_get_cache (ce_ct env) ''LogicalPort'' (c_db c)) = Inr port"
    and c1: "update_model_object env port c = (None, c1)"
    and rest: "for_ports env ch (update_model_object env) n ids c1 = (None, c')"
    by (auto simp: with_value_None_iff and_then_None_iff split: if_splits)
  from port have "ds_deref (c_db c) ''LogicalPort'' i = Some port"
    by (simp add: mc_get_by_id_def get_cache_objs split: option.splits)
  from store_okD(3) [OF Cons.prems(2) this assms(3)] have "wf_object (ce_ct env) port" .
  from update_model_object_grows [OF Cons.prems(2) this c1] have g: "grows (ce_ct env) c c1" by simp
  then have "store_ok (ce_ct env) (c_db c1)" by (simp add: grows_def)
  from grows_trans [OF g Cons.IH [OF rest this]] show ?case .
qed

lemma ctl_update_grows:
  assumes ok: "store_ok (ce_ct env) (c_db c)" and wf: "wf_object (ce_ct env) v"
    and up: "ctl_update env v c = (None, c')" and lp: "class_is_first_class (ce_ct env) ''LogicalPort''"
  shows "grows (ce_ct env) c c' \<and> ds_deref (c_db c') (obj_class v) (key_of v) \<noteq> None"
proof -
  from up obtain t where "table_name (ce_ct env) v = Inr t" by (auto simp: ctl_update_def with_value_None_iff)
  with up consider (gen) "update_model_object env v c = (None, c')"
    | (pub) "update_publisher env v c = (None, c')" | (ch) "update_chassis env v c = (None, c')"
    by (auto simp: ctl_update_def split: if_splits)
  then show ?thesis
  proof cases
    case gen
    then show ?thesis by (rule update_model_object_grows [OF ok wf])
  next
    case pub
    then obtain c1 where "on_db (ds_update (ce_ct env) v) c = (None, c1)" "c_db c' = c_db c1"
      by (auto simp: update_publisher_def and_then_None_iff with_value_None_iff effect_def)
    then show ?thesis using ds_update_grows [OF ok wf, of c'] by (auto simp: on_db_None_iff)
  next
    case ch
    then obtain c1 where c1: "on_db (ds_update (ce_ct env) v) c = (None, c1)"
        "c' = c1 \<or> (\<exists>n ids i. for_ports env i (update_model_object env) n ids c1 = (None, c'))"
      by (auto simp: update_chassis_def for_ports_by_chassis_def and_then_None_iff with_value_None_iff
          split: if_splits)
    from c1(1) have g: "grows (ce_ct env) c c1 \<and> ds_deref (c_db c1) (obj_class v) (key_of v) \<noteq> None"
      using ds_update_grows [OF ok wf, of c1] by (auto simp: on_db_None_iff)
    then have "store_ok (ce_ct env) (c_db c1)" by (simp add: grows_def)
    with c1(2) lp for_ports_grows [of env] grows_refl have "grows (ce_ct env) c1 c'" by blast
    with g wf show ?thesis using grows_trans [of "ce_ct env" c c1 c'] by (auto simp: grows_def wf_object_def)
  qed
qed

lemma updates_grow:
  assumes "run_each (ctl_update env) vs c = (None, c')" "store_ok (ce_ct env) (c_db c)"
    and "\<forall>v\<in>set vs. wf_object (ce_ct env) v" "class_is_first_class (ce_ct env) ''LogicalPort''"
  shows "grows (ce_ct env) c c' \<and> (\<forall>v\<in>set vs. ds_deref (c_db c') (obj_class v) (key_of v) \<noteq> None)"
  using assms(1-3)
proof (induction vs arbitrary: c)
  case Nil
  then show ?case by (simp add: grows_refl)
next
  case (Cons v vs)
  from Cons.prems(1) obtain c1 where c1: "ctl_update env v c = (None, c1)" "run_each (ctl_update env) vs c1 = (None, c')"
    by (auto simp: and_then_None_iff)
  have v: "wf_object (ce_ct env) v" using Cons.prems(3) by simp
  note g = ctl_update_grows [OF Cons.prems(2) v c1(1) assms(4)]
  then have "store_ok (ce_ct env) (c_db c1)" by (simp add: grows_def)
  with Cons.IH [OF c1(2)] Cons.prems(3)
  have IH: "grows (ce_ct env) c1 c'" "\<forall>v\<in>set vs. ds_deref (c_db c') (obj_class v) (key_of v) \<noteq> None" by simp_all
  have "ds_deref (c_db c') (obj_class v) (key_of v) \<noteq> None"
    using g IH(1) v by (auto simp: grows_def wf_object_def)
  with g IH grows_trans [of "ce_ct env" c c1 c'] show ?case by simp
qed


text \<open>The references an object is sent with are well-formed objects themselves.\<close>

lemma dereference_wf:
  assumes "store_ok (ce_ct env) s" "\<forall>m. nb_wf env m" "class_is_first_class (ce_ct env) m"
    and "dereference env s m i = Inr v"
  shows "wf_object (ce_ct env) v"
proof (cases "ds_deref s m i")
  case (Some u)
  then show ?thesis using store_okD(3) [OF assms(1) Some assms(3)] assms(4) by (simp add: dereference_def)
next
  case None
  then have "((m, i), v) \<in> set (ce_nb env)"
    using assms(4) by (auto simp: dereference_def nb_get_def split: option.splits dest: map_of_SomeD)
  with assms(2) show ?thesis unfolding nb_wf_def by blast
qed

lemma references_wf:
  assumes "refs_deep fuel env s seen stack = Inr out" "store_ok (ce_ct env) s" "\<forall>m. nb_wf env m"
    and "\<forall>x\<in>set stack. \<forall>m i. PRef m i \<in> set (nested x) \<longrightarrow> class_is_first_class (ce_ct env) m"
  shows "\<forall>v\<in>set out. wf_object (ce_ct env) v"
  using assms(1,4)
proof (induction fuel arbitrary: seen stack out)
  case (Suc fuel)
  show ?case
  proof (cases stack)
    case (Cons item rest)
    with Suc.prems(1) obtain i where i: "obj_id item = Inr i" by (auto simp: bind_result_Inr_iff)
    show ?thesis
    proof (cases "i \<in> set seen")
      case True
      with Suc.IH [of seen rest out] Suc.prems Cons i show ?thesis by simp
    next
      case False
      with Suc.prems(1) Cons i obtain v rest_out where
        v: "resolve env s item = Inr v"
          "refs_deep fuel env s (i # seen) (rev (iter_submodels (ce_ct env) v) @ rest) = Inr rest_out"
          "out = (case item of PRef m j \<Rightarrow> v # rest_out | _ \<Rightarrow> rest_out)"
        by (auto simp: bind_result_Inr_iff)
      have wf: "wf_object (ce_ct env) v" if "item = PRef m j" for m j
        using dereference_wf [OF assms(2,3), of m j v] Suc.prems(2) Cons v(1) that by (simp add: resolve_def)
      have nv: "\<forall>m i. PRef m i \<in> set (nested v) \<longrightarrow> class_is_first_class (ce_ct env) m"
      proof (cases "\<exists>m j. item = PRef m j")
        case True
        then show ?thesis using wf unfolding wf_object_def by blast
      next
        case False
        then have "item = v" using v(1) by (cases item) (auto simp: resolve_def)
        then show ?thesis using Suc.prems(2) Cons by simp
      qed
      have "\<forall>x\<in>set (rev (iter_submodels (ce_ct env) v) @ rest).
          \<forall>m i. PRef m i \<in> set (nested x) \<longrightarrow> class_is_first_class (ce_ct env) m"
        using nv Suc.prems(2) Cons iter_submodels_nested [of "ce_ct env" v] nested_trans
        unfolding set_append set_rev by (metis (no_types, lifting) UnE list.set_intros(2) subsetD)
      from Suc.IH [OF v(2) this] wf v(3) show ?thesis by (cases item) auto
    qed
  qed (use Suc.prems in simp)
qed simp

text \<open>An object the controller knows of: stored, or waiting for a reference.\<close>

definition known :: "'a controller \<Rightarrow> obj_key \<Rightarrow> bool" where
  "known c k \<longleftrightarrow> ds_deref (c_db c) (fst k) (snd k) \<noteq> None \<or>
     (\<exists>i ps. map_of (c_pending c) i = Some ps \<and> k \<in> set ps)"

definition keeps_known :: "class_table \<Rightarrow> 'a controller \<Rightarrow> 'a controller \<Rightarrow> bool" where
  "keeps_known ct c c' \<longleftrightarrow> store_ok ct (c_db c') \<and>
     (\<forall>k. class_is_first_class ct (fst k) \<longrightarrow> known c k \<longrightarrow> known c' k)"

lemma send_each_keeps:
  assumes "run_each (\<lambda>(m, i) c. case nb_get env m i of None \<Rightarrow> (Some AttributeError, c)
        | Some item \<Rightarrow> send_updates_fuel f env item c) qs c = (None, c')"
    and "store_ok (ce_ct env) (c_db c)" "\<forall>m. nb_wf env m"
    and IH: "\<And>item c c'. send_updates_fuel f env item c = (None, c') \<Longrightarrow> store_ok (ce_ct env) (c_db c) \<Longrightarrow>
        wf_object (ce_ct env) item \<Longrightarrow> keeps_known (ce_ct env) c c' \<and> known c' (sub_key item)"
  shows "keeps_known (ce_ct env) c c' \<and> (\<forall>k\<in>set qs. class_is_first_class (ce_ct env) (fst k) \<longrightarrow> known c' k)"
  using assms(1,2)
proof (induction qs arbitrary: c)
  case Nil
  then show ?case by (simp add: keeps_known_def)
next
  case (Cons q qs)
  obtain m i where q [simp]: "q = (m, i)" by (cases q)
  from Cons.prems(1) obtain item c1 where item: "nb_get env m i = Some item"
      and c1: "send_updates_fuel f env item c = (None, c1)"
      and rest: "run_each (\<lambda>(m, i) c. case nb_get env m i of None \<Rightarrow> (Some AttributeError, c)
        | Some item \<Rightarrow> send_updates_fuel f env item c) qs c1 = (None, c')"
    by (auto simp: and_then_None_iff split: option.splits)
  from item have "((m, i), item) \<in> set (ce_nb env)" by (auto simp: nb_get_def dest: map_of_SomeD)
  with assms(3) have wf: "wf_object (ce_ct env) item" "sub_key item = (m, i)"
    using nb_wfD [of env m i item] by (simp_all add: sub_key_def)
  note k1 = IH [OF c1 Cons.prems(2) wf(1)]
  then have "store_ok (ce_ct env) (c_db c1)" by (simp add: keeps_known_def)
  from Cons.IH [OF rest this] k1 wf(2) show ?case by (auto simp: keeps_known_def)
qed

lemma send_updates_keeps:
  assumes "send_updates_fuel fuel env obj c = (None, c')" "store_ok (ce_ct env) (c_db c)"
    and "wf_object (ce_ct env) obj" "\<forall>m. nb_wf env m" "class_is_first_class (ce_ct env) ''LogicalPort''"
  shows "keeps_known (ce_ct env) c c' \<and> known c' (sub_key obj)"
  using assms(1-3)
proof (induction fuel arbitrary: obj c c')
  case (Suc fuel)
  note i = wf_object_key [OF Suc.prems(3)]
  then have k: "sub_key obj = (obj_class obj, key_of obj)" by (simp add: sub_key_def)
  show ?case
  proof (cases "get_model_references_deep env (c_db c) obj")
    case (Inl e)
    with Suc.prems(1) obtain m j where e: "e = ReferencedObjectNotFound m j" by (cases e) simp_all
    define ps where "ps = (case map_of (c_pending c) j of Some ps \<Rightarrow> ps | None \<Rightarrow> [])"
    have c': "c' = c\<lparr>c_pending := AList.update j (set_add (sub_key obj) ps) (c_pending c)\<rparr>"
      using Suc.prems(1) Inl e i k by (simp add: ps_def)
    have "known c' k" if "known c k" for k
    proof (cases "\<exists>qs. map_of (c_pending c) j = Some qs \<and> k \<in> set qs")
      case True
      then have "map_of (c_pending c') j = Some (set_add (sub_key obj) ps) \<and> k \<in> set (set_add (sub_key obj) ps)"
        by (auto simp: c' ps_def set_add_def)
      then show ?thesis unfolding known_def by blast
    next
      case False
      then have "map_of (c_pending c') l = Some qs"
        if "map_of (c_pending c) l = Some qs" "k \<in> set qs" for l qs
        using that by (auto simp: c')
      moreover have "c_db c' = c_db c" by (simp add: c')
      ultimately show ?thesis using \<open>known c k\<close> unfolding known_def by metis
    qed
    moreover have "map_of (c_pending c') j = Some (set_add (sub_key obj) ps) \<and>
        sub_key obj \<in> set (set_add (sub_key obj) ps)" by (simp add: c' set_add_def)
    then have "known c' (sub_key obj)" unfolding known_def by blast
    ultimately show ?thesis using Suc.prems(2) by (simp add: keeps_known_def c')
  next
    case (Inr refs)
    with Suc.prems(1) obtain c1 where c1: "run_each (ctl_update env) (rev refs @ [obj]) c = (None, c1)"
      by (auto simp: and_then_None_iff)
    have p1: "c_pending c1 = c_pending c" using run_updates_pending [of env _ c] c1 by (metis snd_conv)
    have "\<forall>x\<in>set [obj]. \<forall>m i. PRef m i \<in> set (nested x) \<longrightarrow> class_is_first_class (ce_ct env) m"
      using Suc.prems(3) by (simp add: wf_object_def)
    from references_wf [OF Inr [unfolded get_model_references_deep_def] Suc.prems(2) assms(4) this]
    have "\<forall>v\<in>set (rev refs @ [obj]). wf_object (ce_ct env) v" using Suc.prems(3) by simp
    from updates_grow [OF c1 Suc.prems(2) this assms(5)] have
      g: "grows (ce_ct env) c c1" "ds_deref (c_db c1) (obj_class obj) (key_of obj) \<noteq> None" by simp_all
    have ok1: "store_ok (ce_ct env) (c_db c1)" using g(1) by (simp add: grows_def)
    have self: "known c1 (sub_key obj)" using g(2) by (simp add: known_def k)
    have k1: "keeps_known (ce_ct env) c c1" using g(1) p1 by (auto simp: keeps_known_def grows_def known_def)
    have fc: "class_is_first_class (ce_ct env) (fst (sub_key obj))" using Suc.prems(3) by (simp add: wf_object_def k)
    show ?thesis
    proof (cases "map_of (c_pending c1) (key_of obj)")
      case None
      with Suc.prems(1) Inr c1 i have "c' = c1" by simp
      with k1 self show ?thesis by simp
    next
      case (Some ps)
      define c2 where "c2 = c1\<lparr>c_pending := AList.delete (key_of obj) (c_pending c1)\<rparr>"
      from Some Suc.prems(1) Inr c1 i have
        run: "run_each (\<lambda>(m, i) c. case nb_get env m i of None \<Rightarrow> (Some AttributeError, c)
          | Some item \<Rightarrow> send_updates_fuel fuel env item c) ps c2 = (None, c')" by (simp add: c2_def)
      have "store_ok (ce_ct env) (c_db c2)" using ok1 by (simp add: c2_def)
      from send_each_keeps [OF run this assms(4) Suc.IH] have
        k2: "keeps_known (ce_ct env) c2 c'"
          "\<forall>k\<in>set ps. class_is_first_class (ce_ct env) (fst k) \<longrightarrow> known c' k" by blast+
      have "known c' k" if "known c1 k" "class_is_first_class (ce_ct env) (fst k)" for k
      proof (cases "k \<in> set ps")
        case False
        have "map_of (c_pending c2) j = Some qs"
          if "map_of (c_pending c1) j = Some qs" "k \<in> set qs" for j qs
          using that False Some by (auto simp: c2_def)
        moreover have "c_db c2 = c_db c1" by (simp add: c2_def)
        ultimately have "known c2 k" using \<open>known c1 k\<close> unfolding known_def by metis
        then show ?thesis using k2(1) that(2) unfolding keeps_known_def by blast
      qed (use k2(2) that(2) in blast)
      with k1 k2(1) self fc show ?thesis unfolding keeps_known_def by blast
    qed
  qed
qed simp


end
