(* ===== verification/Port_Binding.thy ===== *)
theory Port_Binding
  imports Db_Store
begin

text \<open>
  Where a port is bound: the \<open>PortBinding\<close> of a logical port
  (\<open>dragonflow/db/models/l2.py\<close>), the local overrides of
  \<open>dragonflow/controller/port_locator.py\<close>, and the application that turns the life of a
  port into bind, update and unbind events for the other applications,
  \<open>dragonflow/controller/apps/portbinding.py\<close>.
\<close>

section \<open>Bindings\<close>

record loc_env =
  le_ct :: class_table
  le_deref :: deref
  le_host :: string
  le_locations :: "(string, pyval) dict"

definition le_attr :: "loc_env \<Rightarrow> pyval \<Rightarrow> string \<Rightarrow> pyval result" where
  "le_attr env = py_getattr (le_ct env) (le_deref env)"

definition binding_is_local :: "loc_env \<Rightarrow> pyval \<Rightarrow> bool result" where
  "binding_is_local env binding =
     bind_result (le_attr env binding ''type'') (\<lambda>type.
       if type = PStr ''chassis'' then
         bind_result (le_attr env binding ''chassis'') (\<lambda>chassis.
         bind_result (le_attr env chassis ''id'') (\<lambda>i. Inr (i = PStr (le_host env))))
       else Inr False)"

definition binding_ip :: "loc_env \<Rightarrow> pyval \<Rightarrow> pyval result" where
  "binding_ip env binding =
     bind_result (le_attr env binding ''type'') (\<lambda>type.
       if type = PStr ''chassis'' then
         bind_result (le_attr env binding ''chassis'') (\<lambda>chassis. le_attr env chassis ''ip'')
       else if type = PStr ''vtep'' then le_attr env binding ''vtep_address''
       else Inr PNone)"

section \<open>The port locator\<close>

definition reset :: "loc_env \<Rightarrow> loc_env" where
  "reset env = env\<lparr>le_locations := []\<rparr>"

definition set_port_binding :: "pyval \<Rightarrow> pyval \<Rightarrow> loc_env \<Rightarrow> loc_env result" where
  "set_port_binding lport binding env =
     bind_result (obj_id lport) (\<lambda>i. Inr (env\<lparr>le_locations := AList.update i binding (le_locations env)\<rparr>))"

definition get_port_binding :: "loc_env \<Rightarrow> pyval \<Rightarrow> pyval result" where
  "get_port_binding env lport =
     bind_result (obj_id lport) (\<lambda>i.
     bind_result (le_attr env lport ''binding'') (\<lambda>binding.
       Inr (case map_of (le_locations env) i of Some b \<Rightarrow> b | None \<Rightarrow> binding)))"

definition copy_port_binding :: "pyval \<Rightarrow> pyval \<Rightarrow> loc_env \<Rightarrow> loc_env result" where
  "copy_port_binding lport source env =
     bind_result (get_port_binding env source) (\<lambda>b. set_port_binding lport b env)"

definition clear_port_binding :: "pyval \<Rightarrow> loc_env \<Rightarrow> loc_env result" where
  "clear_port_binding lport env =
     bind_result (obj_id lport) (\<lambda>i.
       if map_of (le_locations env) i = None then Inl KeyError
       else Inr (env\<lparr>le_locations := AList.delete i (le_locations env)\<rparr>))"

definition is_port_local :: "loc_env \<Rightarrow> pyval \<Rightarrow> bool result" where
  "is_port_local env lport =
     bind_result (get_port_binding env lport) (\<lambda>binding.
       if binding \<noteq> PNone then binding_is_local env binding else Inr False)"

definition is_port_remote :: "loc_env \<Rightarrow> pyval \<Rightarrow> bool result" where
  "is_port_remote env lport =
     bind_result (get_port_binding env lport) (\<lambda>binding.
       if binding \<noteq> PNone then bind_result (binding_is_local env binding) (\<lambda>b. Inr (\<not> b)) else Inr False)"

section \<open>The port binding application\<close>

text \<open>
  The state: the ids of the ports bound here and elsewhere, and the events emitted, with the
  port and, for updates, the original port. An emitted event runs the handlers of every
  application; those of this application keep the two sets. Exceptions of handlers, such as the
  KeyError of removing an id that is not in a set, are logged by \<open>_emit\<close>.
\<close>

record pb_app =
  pb_local_ports :: "string list"
  pb_remote_ports :: "string list"
  pb_events :: "(string \<times> pyval \<times> pyval option) list"

definition pb_init :: pb_app where
  "pb_init = \<lparr>pb_local_ports = [], pb_remote_ports = [], pb_events = []\<rparr>"

definition pb_switch_features_handler :: "pb_app \<Rightarrow> pb_app" where
  "pb_switch_features_handler a = a\<lparr>pb_local_ports := [], pb_remote_ports := []\<rparr>"

definition port_bound_local :: "string \<Rightarrow> pb_app \<Rightarrow> pb_app" where
  "port_bound_local i a = a\<lparr>pb_local_ports := set_add i (pb_local_ports a)\<rparr>"

definition port_unbound_local :: "string \<Rightarrow> pb_app \<Rightarrow> pb_app" where
  "port_unbound_local i a = a\<lparr>pb_local_ports := set_discard i (pb_local_ports a)\<rparr>"

definition port_bound_remote :: "string \<Rightarrow> pb_app \<Rightarrow> pb_app" where
  "port_bound_remote i a = a\<lparr>pb_remote_ports := set_add i (pb_remote_ports a)\<rparr>"

definition port_unbound_remote :: "string \<Rightarrow> pb_app \<Rightarrow> pb_app" where
  "port_unbound_remote i a = a\<lparr>pb_remote_ports := set_discard i (pb_remote_ports a)\<rparr>"

definition pb_emit :: "string \<Rightarrow> pyval \<Rightarrow> pyval option \<Rightarrow> pb_app \<Rightarrow> pb_app outcome" where
  "pb_emit event lport orig a =
     (let a = a\<lparr>pb_events := pb_events a @ [(event, lport, orig)]\<rparr>
      in (None,
          case obj_id lport of
            Inl e \<Rightarrow> a
          | Inr i \<Rightarrow>
              if event = ''bind_local'' then port_bound_local i a
              else if event = ''unbind_local'' then port_unbound_local i a
              else if event = ''bind_remote'' then port_bound_remote i a
              else if event = ''unbind_remote'' then port_unbound_remote i a
              else a))"

definition port_disabled :: "loc_env \<Rightarrow> pyval \<Rightarrow> bool result" where
  "port_disabled env lport = bind_result (le_attr env lport ''enabled'') (\<lambda>v. Inr (v = PBool False))"

text \<open>\<open>or\<close> on conditions that may raise.\<close>

definition or_result :: "bool result \<Rightarrow> bool result \<Rightarrow> bool result" where
  "or_result x y = bind_result x (\<lambda>b. if b then Inr True else y)"

definition port_moved :: "loc_env \<Rightarrow> pyval \<Rightarrow> pyval \<Rightarrow> bool result" where
  "port_moved env lport orig =
     or_result
       (bind_result (is_port_local env orig) (\<lambda>x. bind_result (is_port_local env lport) (\<lambda>y. Inr (x \<noteq> y))))
       (bind_result (is_port_remote env orig) (\<lambda>x. bind_result (is_port_remote env lport) (\<lambda>y. Inr (x \<noteq> y))))"

text \<open>\<open>if is_local: emit ... elif is_remote: emit ...\<close>\<close>

definition emit_by_location ::
  "loc_env \<Rightarrow> string \<Rightarrow> string \<Rightarrow> pyval \<Rightarrow> pb_app \<Rightarrow> pb_app outcome" where
  "emit_by_location env local_event remote_event lport a =
     with_value (is_port_local env lport) (\<lambda>is_local a.
       if is_local then pb_emit local_event lport None a
       else with_value (is_port_remote env lport) (\<lambda>is_remote a.
         if is_remote then pb_emit remote_event lport None a else (None, a)) a) a"

definition port_update_unbind :: "loc_env \<Rightarrow> pyval \<Rightarrow> pyval \<Rightarrow> pb_app \<Rightarrow> pb_app outcome" where
  "port_update_unbind env lport orig a =
     with_value (port_disabled env orig) (\<lambda>off a.
       if off then (None, a)
       else with_value (or_result (port_moved env lport orig) (port_disabled env lport)) (\<lambda>unbind a.
         if unbind then emit_by_location env ''unbind_local'' ''unbind_remote'' orig a
         else (None, a)) a) a"

definition port_update_bind :: "loc_env \<Rightarrow> pyval \<Rightarrow> pyval \<Rightarrow> pb_app \<Rightarrow> pb_app outcome" where
  "port_update_bind env lport orig a =
     with_value (port_disabled env lport) (\<lambda>off a.
       if off then (None, a)
       else with_value (or_result (port_moved env lport orig) (port_disabled env orig)) (\<lambda>bind a.
         if bind then emit_by_location env ''bind_local'' ''bind_remote'' lport a
         else (None, a)) a) a"

definition port_created :: "loc_env \<Rightarrow> pyval \<Rightarrow> pb_app \<Rightarrow> pb_app outcome" where
  "port_created env lport a =
     with_value (port_disabled env lport) (\<lambda>off a.
       if off then (None, a) else emit_by_location env ''bind_local'' ''bind_remote'' lport a) a"

definition port_updated :: "loc_env \<Rightarrow> pyval \<Rightarrow> pyval \<Rightarrow> pb_app \<Rightarrow> pb_app outcome" where
  "port_updated env lport orig a =
     and_then (port_update_unbind env lport orig a) (\<lambda>a.
     and_then
       (with_value (obj_id lport) (\<lambda>i a.
          if i \<in> set (pb_local_ports a) then pb_emit ''local_updated'' lport (Some orig) a
          else if i \<in> set (pb_remote_ports a) then pb_emit ''remote_updated'' lport (Some orig) a
          else (None, a)) a)
       (port_update_bind env lport orig))"

definition port_deleted :: "loc_env \<Rightarrow> pyval \<Rightarrow> pb_app \<Rightarrow> pb_app outcome" where
  "port_deleted env lport a =
     with_value (port_disabled env lport) (\<lambda>off a.
       if off then (None, a)
       else with_value (obj_id lport) (\<lambda>i a.
         if i \<in> set (pb_local_ports a) then pb_emit ''unbind_local'' lport None a
         else if i \<in> set (pb_remote_ports a) then pb_emit ''unbind_remote'' lport None a
         else (None, a)) a) a"

section \<open>What the applications see of a port\<close>

datatype port_status = Unbound | Local | Remote

definition readable_port :: "loc_env \<Rightarrow> pyval \<Rightarrow> bool" where
  "readable_port env p \<longleftrightarrow> \<not> isl (obj_id p) \<and> \<not> isl (port_disabled env p) \<and> \<not> isl (is_port_local env p)"

definition status_of :: "loc_env \<Rightarrow> pyval \<Rightarrow> port_status" where
  "status_of env p =
     (if port_disabled env p = Inr True then Unbound
      else if is_port_local env p = Inr True then Local
      else if is_port_remote env p = Inr True then Remote
      else Unbound)"

definition pb_port_id :: "pyval \<Rightarrow> string" where
  "pb_port_id p = projr (obj_id p)"

text \<open>The events of one port as an automaton: no event is possible in a status it does not fit.\<close>

fun port_step :: "string \<Rightarrow> port_status \<Rightarrow> port_status option" where
  "port_step e Unbound = (if e = ''bind_local'' then Some Local else if e = ''bind_remote'' then Some Remote else None)"
| "port_step e Local = (if e = ''local_updated'' then Some Local else if e = ''unbind_local'' then Some Unbound else None)"
| "port_step e Remote = (if e = ''remote_updated'' then Some Remote else if e = ''unbind_remote'' then Some Unbound else None)"

definition replay_event :: "string \<Rightarrow> port_status option \<Rightarrow> string \<times> pyval \<times> pyval option \<Rightarrow> port_status option" where
  "replay_event i st ev =
     (case ev of (e, p, orig) \<Rightarrow>
       if obj_id p = Inr i then (case st of None \<Rightarrow> None | Some s \<Rightarrow> port_step e s) else st)"

definition replay :: "string \<Rightarrow> (string \<times> pyval \<times> pyval option) list \<Rightarrow> port_status option" where
  "replay i events = foldl (replay_event i) (Some Unbound) events"

text \<open>The invariant: the sets and the events emitted so far agree with the status of each port.\<close>

definition pb_inv :: "(string \<Rightarrow> port_status) \<Rightarrow> pb_app \<Rightarrow> bool" where
  "pb_inv st a \<longleftrightarrow> (\<forall>i. (i \<in> set (pb_local_ports a) \<longleftrightarrow> st i = Local) \<and>
     (i \<in> set (pb_remote_ports a) \<longleftrightarrow> st i = Remote) \<and> replay i (pb_events a) = Some (st i))"

lemma readable_cases:
  assumes "readable_port env p"
  obtains off l r where "port_disabled env p = Inr off" "is_port_local env p = Inr l"
    "is_port_remote env p = Inr r" "l \<longrightarrow> \<not> r" "obj_id p = Inr (pb_port_id p)"
    "status_of env p = (if off then Unbound else if l then Local else if r then Remote else Unbound)"
proof -
  from assms obtain off l where off: "port_disabled env p = Inr off" "is_port_local env p = Inr l"
    by (cases "port_disabled env p"; cases "is_port_local env p") (simp_all add: readable_port_def)
  from off(2) obtain r where r: "is_port_remote env p = Inr r" "l \<longrightarrow> \<not> r"
    by (auto simp: is_port_local_def is_port_remote_def bind_result_Inr_iff split: if_splits)
  from assms have "obj_id p = Inr (pb_port_id p)"
    by (cases "obj_id p") (simp_all add: readable_port_def pb_port_id_def)
  with off r show thesis by (intro that [of off l r]) (simp_all add: status_of_def)
qed

lemma replay_snoc: "replay i (evs @ [ev]) = replay_event i (replay i evs) ev"
  by (simp add: replay_def)

text \<open>Emitting an event that fits the status of its port.\<close>

lemma pb_emit_inv:
  assumes "pb_inv st a" "obj_id p = Inr i" "port_step e (st i) = Some s"
  shows "\<exists>a'. pb_emit e p orig a = (None, a') \<and> pb_inv (st(i := s)) a'"
proof -
  have r: "replay j (pb_events a) = Some (st j)" for j using assms(1) by (simp add: pb_inv_def)
  have sets: "j \<in> set (pb_local_ports a) \<longleftrightarrow> st j = Local" "j \<in> set (pb_remote_ports a) \<longleftrightarrow> st j = Remote" for j
    using assms(1) by (simp_all add: pb_inv_def)
  have "replay j (pb_events a @ [(e, p, orig)]) = Some ((st(i := s)) j)" for j
    using assms(2,3) r by (auto simp: replay_snoc replay_event_def)
  then show ?thesis using assms(2,3)
    by (cases "st i") (auto simp: pb_emit_def Let_def pb_inv_def sets port_bound_local_def
        port_unbound_local_def port_bound_remote_def port_unbound_remote_def set_add_def set_discard_def
        split: if_splits)
qed


lemma pb_inv_same: "pb_inv st a \<Longrightarrow> s = st i \<Longrightarrow> pb_inv (st(i := s)) a"
  by simp

lemma bind_by_location:
  assumes "readable_port env p" "port_disabled env p = Inr False" "pb_inv st a" "st (pb_port_id p) = Unbound"
  shows "\<exists>a'. emit_by_location env ''bind_local'' ''bind_remote'' p a = (None, a') \<and>
    pb_inv (st(pb_port_id p := status_of env p)) a'"
  using assms(1)
proof (cases rule: readable_cases)
  case (1 off l r)
  then show ?thesis using assms(2,3,4) pb_emit_inv [OF assms(3) 1(5), of "''bind_local''" Local None]
      pb_emit_inv [OF assms(3) 1(5), of "''bind_remote''" Remote None] fun_upd_idem [of st "pb_port_id p" Unbound]
    by (auto simp: emit_by_location_def)
qed

lemma unbind_by_location:
  assumes "readable_port env p" "port_disabled env p = Inr False" "pb_inv st a"
    and "st (pb_port_id p) = status_of env p"
  shows "\<exists>a'. emit_by_location env ''unbind_local'' ''unbind_remote'' p a = (None, a') \<and>
    pb_inv (st(pb_port_id p := Unbound)) a'"
  using assms(1)
proof (cases rule: readable_cases)
  case (1 off l r)
  then show ?thesis using assms(2,3,4) pb_emit_inv [OF assms(3) 1(5), of "''unbind_local''" Unbound None]
      pb_emit_inv [OF assms(3) 1(5), of "''unbind_remote''" Unbound None] pb_inv_same [OF assms(3), of Unbound]
    by (auto simp: emit_by_location_def)
qed

lemma port_created_inv:
  assumes "readable_port env p" "pb_inv st a" "st (pb_port_id p) = Unbound"
  shows "\<exists>a'. port_created env p a = (None, a') \<and> pb_inv (st(pb_port_id p := status_of env p)) a'"
proof (cases "port_disabled env p = Inr True")
  case True
  then show ?thesis using assms(2,3) pb_inv_same [OF assms(2), of Unbound "pb_port_id p"]
    by (simp add: port_created_def status_of_def)
next
  case False
  with assms(1) have "port_disabled env p = Inr False"
    by (cases "port_disabled env p") (auto simp: readable_port_def)
  then show ?thesis using bind_by_location [OF assms(1) _ assms(2,3)] by (simp add: port_created_def)
qed

lemma port_deleted_inv:
  assumes "readable_port env p" "pb_inv st a" "st (pb_port_id p) = status_of env p"
  shows "\<exists>a'. port_deleted env p a = (None, a') \<and> pb_inv (st(pb_port_id p := Unbound)) a'"
  using assms(1)
proof (cases rule: readable_cases)
  case (1 off l r)
  have sets: "pb_port_id p \<in> set (pb_local_ports a) \<longleftrightarrow> st (pb_port_id p) = Local"
    "pb_port_id p \<in> set (pb_remote_ports a) \<longleftrightarrow> st (pb_port_id p) = Remote"
    using assms(2) by (simp_all add: pb_inv_def)
  then show ?thesis using 1 assms(2,3) pb_emit_inv [OF assms(2) 1(5), of "''unbind_local''" Unbound None]
      pb_emit_inv [OF assms(2) 1(5), of "''unbind_remote''" Unbound None] pb_inv_same [OF assms(2), of Unbound]
    by (cases off; cases l; cases r) (auto simp: port_deleted_def)
qed

lemma port_moved_status:
  assumes "readable_port env p" "readable_port env q"
    and "port_disabled env p = Inr False" "port_disabled env q = Inr False"
  shows "port_moved env p q = Inr (status_of env p \<noteq> status_of env q)"
  using assms(1)
proof (cases rule: readable_cases)
  case p: (1 off l r)
  from assms(2) show ?thesis
  proof (cases rule: readable_cases)
    case q: (1 off' l' r')
    show ?thesis using p q assms(3,4)
      by (cases l; cases r; cases l'; cases r') (simp_all add: port_moved_def or_result_def)
  qed
qed

lemma port_moved_returns:
  assumes "readable_port env p" "readable_port env q"
  shows "\<exists>m. port_moved env p q = Inr m"
  using assms(1)
proof (cases rule: readable_cases)
  case p: (1 off l r)
  from assms(2) show ?thesis
    by (cases rule: readable_cases) (auto simp: port_moved_def or_result_def p(2,3))
qed

lemma port_still_bound:
  assumes "pb_inv st a" "obj_id p = Inr i"
  shows "\<exists>a'. with_value (obj_id p) (\<lambda>i a.
          if i \<in> set (pb_local_ports a) then pb_emit ''local_updated'' p (Some q) a
          else if i \<in> set (pb_remote_ports a) then pb_emit ''remote_updated'' p (Some q) a
          else (None, a)) a = (None, a') \<and> pb_inv st a'"
proof -
  have sets: "i \<in> set (pb_local_ports a) \<longleftrightarrow> st i = Local" "i \<in> set (pb_remote_ports a) \<longleftrightarrow> st i = Remote"
    using assms(1) by (simp_all add: pb_inv_def)
  show ?thesis
    using pb_emit_inv [OF assms, of "''local_updated''" Local "Some q"]
      pb_emit_inv [OF assms, of "''remote_updated''" Remote "Some q"] fun_upd_idem [of st i] assms
    by (cases "st i") (auto simp: sets)
qed

lemma port_updated_inv:
  assumes p: "readable_port env p" and q: "readable_port env q" and same: "pb_port_id p = pb_port_id q"
    and inv: "pb_inv st a" and st: "st (pb_port_id q) = status_of env q"
  shows "\<exists>a'. port_updated env p q a = (None, a') \<and> pb_inv (st(pb_port_id p := status_of env p)) a'"
proof -
  let ?i = "pb_port_id p"
  from p obtain off where off: "port_disabled env p = Inr off" and id: "obj_id p = Inr ?i"
    by (cases rule: readable_cases) blast
  from q obtain off' where off': "port_disabled env q = Inr off'" by (cases rule: readable_cases) blast
  obtain m where m: "port_moved env p q = Inr m" using port_moved_returns [OF p q] by blast
  define stay where "stay \<longleftrightarrow> \<not> off \<and> \<not> off' \<and> \<not> m"
  define st1 where "st1 = (if stay then st else st(?i := Unbound))"
  have same_status: "status_of env p = status_of env q" if stay
    using port_moved_status [OF p q] that off off' m by (auto simp: stay_def)
  have "\<exists>a1. port_update_unbind env p q a = (None, a1) \<and> pb_inv st1 a1"
  proof (cases "off' \<or> stay")
    case True
    then have "st1 = st" using st off' same by (auto simp: st1_def status_of_def fun_upd_idem)
    then show ?thesis using True inv off off' m
      by (auto simp: port_update_unbind_def or_result_def stay_def)
  next
    case False
    with unbind_by_location [OF q _ inv st] off off' m same show ?thesis
      by (auto simp: port_update_unbind_def or_result_def stay_def st1_def)
  qed
  then obtain a1 where a1: "port_update_unbind env p q a = (None, a1)" "pb_inv st1 a1" by blast
  from port_still_bound [OF a1(2) id, of q] obtain a2 where
    a2: "with_value (obj_id p) (\<lambda>i a.
          if i \<in> set (pb_local_ports a) then pb_emit ''local_updated'' p (Some q) a
          else if i \<in> set (pb_remote_ports a) then pb_emit ''remote_updated'' p (Some q) a
          else (None, a)) a1 = (None, a2)" "pb_inv st1 a2" by blast
  have "\<exists>a3. port_update_bind env p q a2 = (None, a3) \<and> pb_inv (st(?i := status_of env p)) a3"
  proof (cases "off \<or> stay")
    case True
    have "st1 = st(?i := status_of env p)"
      using True st same same_status off by (auto simp: st1_def status_of_def stay_def fun_upd_idem)
    then show ?thesis using True a2(2) off off' m
      by (auto simp: port_update_bind_def or_result_def stay_def)
  next
    case False
    then have "st1 ?i = Unbound" "st1(?i := status_of env p) = st(?i := status_of env p)"
      by (simp_all add: st1_def)
    with bind_by_location [OF p _ a2(2)] False off off' m show ?thesis
      by (auto simp: port_update_bind_def or_result_def stay_def)
  qed
  with a1(1) a2(1) show ?thesis by (auto simp: port_updated_def)
qed

text \<open>
  The life of the ports: created when unknown, updated and deleted with the port last seen, each
  with readable fields.
\<close>

datatype pb_event = PortCreated pyval | PortUpdated pyval pyval | PortDeleted pyval

fun pb_handle :: "loc_env \<Rightarrow> pb_event \<Rightarrow> pb_app \<Rightarrow> pb_app outcome" where
  "pb_handle env (PortCreated p) a = port_created env p a"
| "pb_handle env (PortUpdated p q) a = port_updated env p q a"
| "pb_handle env (PortDeleted p) a = port_deleted env p a"

fun ports_after :: "loc_env \<Rightarrow> (string, pyval) dict \<Rightarrow> pb_event list \<Rightarrow> (string, pyval) dict option" where
  "ports_after env ports [] = Some ports"
| "ports_after env ports (PortCreated p # evs) =
     (if readable_port env p \<and> map_of ports (pb_port_id p) = None
      then ports_after env (AList.update (pb_port_id p) p ports) evs else None)"
| "ports_after env ports (PortUpdated p q # evs) =
     (if readable_port env p \<and> readable_port env q \<and> pb_port_id p = pb_port_id q \<and>
         map_of ports (pb_port_id q) = Some q
      then ports_after env (AList.update (pb_port_id p) p ports) evs else None)"
| "ports_after env ports (PortDeleted p # evs) =
     (if readable_port env p \<and> map_of ports (pb_port_id p) = Some p
      then ports_after env (AList.delete (pb_port_id p) ports) evs else None)"

definition current_status :: "loc_env \<Rightarrow> (string, pyval) dict \<Rightarrow> string \<Rightarrow> port_status" where
  "current_status env ports i =
     (case map_of ports i of None \<Rightarrow> Unbound | Some p \<Rightarrow> status_of env p)"

lemma current_status_update [simp]:
  "current_status env (AList.update i p ports) = (current_status env ports)(i := status_of env p)"
  "current_status env (AList.delete i ports) = (current_status env ports)(i := Unbound)"
  by (auto simp: current_status_def)

lemma pb_run_inv:
  assumes "ports_after env ports evs = Some ports'" "pb_inv (current_status env ports) a"
  shows "\<exists>a'. run_each (pb_handle env) evs a = (None, a') \<and> pb_inv (current_status env ports') a'"
  using assms
proof (induction env ports evs arbitrary: a rule: ports_after.induct)
  case (1 env ports)
  then show ?case by simp
next
  case (2 env ports p evs)
  then have h: "readable_port env p" "current_status env ports (pb_port_id p) = Unbound"
    "ports_after env (AList.update (pb_port_id p) p ports) evs = Some ports'"
    by (simp_all add: current_status_def split: if_splits)
  from port_created_inv [OF h(1) "2.prems"(2) h(2)] obtain a1 where a1: "port_created env p a = (None, a1)"
      "pb_inv (current_status env (AList.update (pb_port_id p) p ports)) a1" by auto
  from "2.prems"(1) have "readable_port env p \<and> map_of ports (pb_port_id p) = None" by (simp split: if_splits)
  from "2.IH" [OF this h(3) a1(2)] a1(1) show ?case by simp
next
  case (3 env ports p q evs)
  then have h: "readable_port env p" "readable_port env q" "pb_port_id p = pb_port_id q"
    "current_status env ports (pb_port_id q) = status_of env q"
    "ports_after env (AList.update (pb_port_id p) p ports) evs = Some ports'"
    by (simp_all add: current_status_def split: if_splits)
  from port_updated_inv [OF h(1-3) "3.prems"(2) h(4)] obtain a1 where a1: "port_updated env p q a = (None, a1)"
      "pb_inv (current_status env (AList.update (pb_port_id p) p ports)) a1" by auto
  from "3.prems"(1) have "readable_port env p \<and> readable_port env q \<and> pb_port_id p = pb_port_id q \<and>
      map_of ports (pb_port_id q) = Some q" by (simp split: if_splits)
  from "3.IH" [OF this h(5) a1(2)] a1(1) show ?case by simp
next
  case (4 env ports p evs)
  then have h: "readable_port env p" "current_status env ports (pb_port_id p) = status_of env p"
    "ports_after env (AList.delete (pb_port_id p) ports) evs = Some ports'"
    by (simp_all add: current_status_def split: if_splits)
  from port_deleted_inv [OF h(1) "4.prems"(2) h(2)] obtain a1 where a1: "port_deleted env p a = (None, a1)"
      "pb_inv (current_status env (AList.delete (pb_port_id p) ports)) a1" by auto
  from "4.prems"(1) have "readable_port env p \<and> map_of ports (pb_port_id p) = Some p" by (simp split: if_splits)
  from "4.IH" [OF this h(3) a1(2)] a1(1) show ?case by simp
qed

text \<open>
  C4. The applications see a consistent life of every port. For any sequence of created, updated
  and deleted ports, while the locations do not change: no handler raises, the two sets hold
  exactly the enabled ports bound here and elsewhere, and the events emitted for each port form a
  run of the automaton - bound once before it is updated or unbound, unbound the way it was bound
  before it is bound again - that ends in the port's present status.
\<close>

theorem port_binding_events_consistent:
  assumes "ports_after env [] evs = Some ports"
  shows "\<exists>a. run_each (pb_handle env) evs pb_init = (None, a) \<and>
    (\<forall>i. (i \<in> set (pb_local_ports a) \<longleftrightarrow> current_status env ports i = Local) \<and>
         (i \<in> set (pb_remote_ports a) \<longleftrightarrow> current_status env ports i = Remote) \<and>
         replay i (pb_events a) = Some (current_status env ports i))"
proof -
  have "pb_inv (current_status env []) pb_init"
    by (simp add: pb_inv_def pb_init_def replay_def current_status_def)
  from pb_run_inv [OF assms this] show ?thesis by (simp add: pb_inv_def)
qed

definition example_loc :: loc_env where
  "example_loc = \<lparr>le_ct = df_classes, le_deref = (\<lambda>m i. None), le_host = ''here'', le_locations = []\<rparr>"

lemma example_loc_simps [simp]:
  "le_ct example_loc = df_classes" "le_deref example_loc = (\<lambda>m i. None)" "le_host example_loc = ''here''"
  "le_locations example_loc = []"
  by (simp_all add: example_loc_def)

definition port_at :: "string \<Rightarrow> pyval" where
  "port_at ch = PObj ''LogicalPort''
     [(''id'', PStr ''p''), (''topic'', PStr ''t''), (''unique_key'', PInt 1),
      (''binding'', PObj ''PortBinding'' [(''type'', PStr ''chassis''), (''chassis'', PRef ''Chassis'' ch)])]"

theorem port_binding_events_consistent_witness:
  "\<exists>a. run_each (pb_handle example_loc)
       [PortCreated (port_at ''here''), PortUpdated (port_at ''there'') (port_at ''here'')] pb_init = (None, a) \<and>
     pb_local_ports a = [] \<and> ''p'' \<in> set (pb_remote_ports a) \<and> replay ''p'' (pb_events a) = Some Remote"
proof -
  have id: "obj_id (port_at ch) = Inr ''p''" "pb_port_id (port_at ch) = ''p''" for ch
    by (simp_all add: port_at_def obj_id_def pb_port_id_def)
  have b: "get_port_binding example_loc (port_at ch) =
      Inr (PObj ''PortBinding'' [(''type'', PStr ''chassis''), (''chassis'', PRef ''Chassis'' ch)])" for ch
    by (simp add: get_port_binding_def obj_id_def le_attr_def py_getattr_def read_field_def port_at_def
        class_fields_def class_decl_defs)
  have l: "is_port_local example_loc (port_at ch) = Inr (ch = ''here'')"
    "is_port_remote example_loc (port_at ch) = Inr (ch \<noteq> ''here'')" for ch
    by (simp_all add: is_port_local_def is_port_remote_def b binding_is_local_def le_attr_def
        py_getattr_def read_field_def class_fields_def class_decl_defs)
  have e: "port_disabled example_loc (port_at ch) = Inr False" for ch
    by (simp add: port_disabled_def le_attr_def py_getattr_def read_field_def port_at_def
        class_fields_def class_decl_defs)
  have "ports_after example_loc [] [PortCreated (port_at ''here''), PortUpdated (port_at ''there'') (port_at ''here'')] =
      Some [(''p'', port_at ''there'')]"
    by (simp add: readable_port_def id l e)
  from port_binding_events_consistent [OF this] obtain a where
    a: "run_each (pb_handle example_loc)
       [PortCreated (port_at ''here''), PortUpdated (port_at ''there'') (port_at ''here'')] pb_init = (None, a)"
      "\<And>i. i \<notin> set (pb_local_ports a)" "''p'' \<in> set (pb_remote_ports a)" "replay ''p'' (pb_events a) = Some Remote"
    by (auto simp: current_status_def status_of_def l e split: option.splits if_splits)
  then have "pb_local_ports a = []" by (cases "pb_local_ports a") auto
  with a show ?thesis by blast
qed

end
