(* ===== verification/Topology.thy ===== *)
theory Topology
  imports Controller Port_Binding "HOL-Library.Sublist"
begin

text \<open>
  \<open>dragonflow/controller/topology.py\<close>: the switch ports of this host, the logical ports
  behind them, and the topics the controller subscribes to on their behalf. The state is that of
  the controller: \<open>c_topic_subscribed\<close> maps a topic to the ids of the local logical ports that
  need it, \<open>c_ovs_to_lport_mapping\<close> a switch port to its logical port and topic.
\<close>

section \<open>The code\<close>

definition c_attr :: "'a ctl_env \<Rightarrow> 'a controller \<Rightarrow> pyval \<Rightarrow> string \<Rightarrow> pyval result" where
  "c_attr env c = py_getattr (ce_ct env) (ds_deref (c_db c))"

definition py_true :: "pyval \<Rightarrow> bool" where
  "py_true v = (case v of PNone \<Rightarrow> False | PBool b \<Rightarrow> b | PInt n \<Rightarrow> n \<noteq> 0 | PStr s \<Rightarrow> s \<noteq> [] | PList vs \<Rightarrow> vs \<noteq> [] | _ \<Rightarrow> True)"

definition as_str :: "pyval \<Rightarrow> string" where
  "as_str v = (case v of PStr s \<Rightarrow> s | _ \<Rightarrow> [])"

text \<open>\<open>try: ... except Exception: LOG.exception(...)\<close>\<close>

definition logged :: "'s outcome \<Rightarrow> 's outcome" where
  "logged r = (None, snd r)"

definition switch_port_types :: "string list" where
  "switch_port_types = [''compute'', ''tunnel'']"

definition add_to_topic_subscribed ::
  "'a ctl_env \<Rightarrow> string \<Rightarrow> string \<Rightarrow> 'a controller \<Rightarrow> 'a controller outcome" where
  "add_to_topic_subscribed env topic lport_id c =
     (if \<not> ce_selective env \<or> topic = [] then (None, c)
      else (case map_of (c_topic_subscribed c) topic of
              None \<Rightarrow>
                and_then (register_topic env topic c) (\<lambda>c.
                  (None, c\<lparr>c_topic_subscribed := AList.update topic [lport_id] (c_topic_subscribed c)\<rparr>))
            | Some ids \<Rightarrow>
                (None, c\<lparr>c_topic_subscribed :=
                   AList.update topic (set_add lport_id ids) (c_topic_subscribed c)\<rparr>)))"

definition del_from_topic_subscribed ::
  "'a ctl_env \<Rightarrow> string \<Rightarrow> string \<Rightarrow> 'a controller \<Rightarrow> 'a controller outcome" where
  "del_from_topic_subscribed env topic lport_id c =
     (if \<not> ce_selective env \<or> topic = [] then (None, c)
      else (case map_of (c_topic_subscribed c) topic of
              None \<Rightarrow> (Some KeyError, c)
            | Some port_ids \<Rightarrow>
                if lport_id \<notin> set port_ids then (Some KeyError, c)
                else
                  let port_ids = set_discard lport_id port_ids;
                      c = c\<lparr>c_topic_subscribed := AList.update topic port_ids (c_topic_subscribed c)\<rparr>
                  in if port_ids = [] then
                       unregister_topic env topic
                         (c\<lparr>c_topic_subscribed := AList.delete topic (c_topic_subscribed c)\<rparr>)
                     else (None, c)))"

definition get_subscribed_topics :: "'a ctl_env \<Rightarrow> 'a controller \<Rightarrow> string list option" where
  "get_subscribed_topics env c =
     (if \<not> ce_selective env then None else Some (dict_keys (c_topic_subscribed c)))"

definition get_lport :: "'a ctl_env \<Rightarrow> pyval \<Rightarrow> 'a controller \<Rightarrow> pyval option result" where
  "get_lport env switch_port c =
     bind_result (c_attr env c switch_port ''lport'') (\<lambda>ref.
       (case ref of
          PRef m i \<Rightarrow>
            Inr (case ds_deref (c_db c) m i of Some v \<Rightarrow> Some v | None \<Rightarrow> nb_get env m i)
        | v \<Rightarrow> if py_true v then Inl AttributeError else Inr None))"

definition compute_port_updated :: "'a ctl_env \<Rightarrow> pyval \<Rightarrow> 'a controller \<Rightarrow> 'a controller outcome" where
  "compute_port_updated env switch_port c =
     with_value (get_lport env switch_port c) (\<lambda>lport c.
       (case lport of
          None \<Rightarrow> (None, c)
        | Some lport \<Rightarrow>
            with_value (c_attr env c lport ''topic'') (\<lambda>topic c.
              if \<not> py_true topic then (None, c)
              else
                with_value (obj_id lport) (\<lambda>lport_id c.
                and_then (add_to_topic_subscribed env (as_str topic) lport_id c) (\<lambda>c.
                with_value (obj_id switch_port) (\<lambda>key c.
                  let c = c\<lparr>c_ovs_to_lport_mapping :=
                        AList.update key (lport_id, as_str topic) (c_ovs_to_lport_mapping c)\<rparr>
                  in with_value (c_attr env c lport ''binding'') (\<lambda>binding c.
                     with_value (c_attr env c binding ''chassis'') (\<lambda>chassis c.
                     with_value (c_attr env c chassis ''id'') (\<lambda>chassis_id c.
                       if chassis_id \<noteq> PStr (ce_chassis_name env) then
                         with_value (c_attr env c lport ''device_owner'') (\<lambda>device_owner c.
                           (case device_owner of
                              PStr owner \<Rightarrow>
                                if sublist ''compute:'' owner then
                                  (None, effect (NbCreate (PObj ''Migration''
                                     [(''id'', PStr lport_id),
                                      (''dest_chassis'', PRef ''Chassis'' (ce_chassis_name env)),
                                      (''status'', PStr ''dest_plug'')])) c)
                                else (None, c)
                            | _ \<Rightarrow> (Some TypeError, c))) c
                       else if ds_deref (c_db c) (obj_class lport) lport_id = None then
                         logged (ctl_update env lport c)
                       else (None, c)) c) c) c) c)) c) c)) c"

definition notify_port_status :: "pyval \<Rightarrow> string \<Rightarrow> 'a controller \<Rightarrow> 'a controller outcome" where
  "notify_port_status switch_port status c = (None, effect (NotifyPortStatus switch_port status) c)"

definition compute_port_added :: "'a ctl_env \<Rightarrow> pyval \<Rightarrow> 'a controller \<Rightarrow> 'a controller outcome" where
  "compute_port_added env switch_port c =
     and_then (compute_port_updated env switch_port c) (notify_port_status switch_port ''ACTIVE'')"

definition forget_switch_port ::
  "'a ctl_env \<Rightarrow> string \<Rightarrow> string \<Rightarrow> string \<Rightarrow> 'a controller \<Rightarrow> 'a controller outcome" where
  "forget_switch_port env key topic lport_id c =
     (if map_of (c_ovs_to_lport_mapping c) key = None then (Some KeyError, c)
      else del_from_topic_subscribed env topic lport_id
             (c\<lparr>c_ovs_to_lport_mapping := AList.delete key (c_ovs_to_lport_mapping c)\<rparr>))"

definition compute_port_deleted :: "'a ctl_env \<Rightarrow> pyval \<Rightarrow> 'a controller \<Rightarrow> 'a controller outcome" where
  "compute_port_deleted env switch_port c =
     with_value (obj_id switch_port) (\<lambda>key c.
     with_value (c_attr env c switch_port ''lport'') (\<lambda>ref c.
       (case ref of
          PRef m i \<Rightarrow>
            (case ds_deref (c_db c) m i of
               None \<Rightarrow>
                 (case map_of (c_ovs_to_lport_mapping c) key of
                    None \<Rightarrow> (None, c)
                  | Some (lport_id, topic) \<Rightarrow> forget_switch_port env key topic lport_id c)
             | Some lport \<Rightarrow>
                 with_value (c_attr env c lport ''topic'') (\<lambda>topic c.
                   and_then (logged (ctl_delete env lport c)) (\<lambda>c.
                   and_then (notify_port_status switch_port ''DOWN'' c) (\<lambda>c.
                   and_then
                     (case nb_get env ''Migration'' i of
                        None \<Rightarrow> (None, c)
                      | Some migration_obj \<Rightarrow>
                          with_value (c_attr env c migration_obj ''chassis'') (\<lambda>chassis c.
                            if py_true chassis then
                              (None, effect (NbUpdate
                                 (case migration_obj of
                                    PObj cl fs \<Rightarrow> PObj cl (set_field ''status'' (PStr ''src_unplug'') (set_field ''lport'' ref fs))
                                  | v \<Rightarrow> v)) c)
                            else (None, c)) c)
                     (forget_switch_port env key (as_str topic) i)))) c)
        | _ \<Rightarrow> (Some AttributeError, c))) c) c"

text \<open>
  The tunnel ports. Both loops run over generators on the live sets of an index; a body that
  changes the size of the set makes the next step raise RuntimeError.
\<close>

fun for_live ::
  "'a ctl_env \<Rightarrow> pyval \<Rightarrow> string list \<Rightarrow> (pyval \<Rightarrow> 'a controller \<Rightarrow> 'a controller outcome) \<Rightarrow> nat \<Rightarrow> string list \<Rightarrow>
   'a controller \<Rightarrow> 'a controller outcome" where
  "for_live env query index body n [] c = (None, c)"
| "for_live env query index body n (i # ids) c =
     with_value (mc_get_by_id i (ds_get_cache (ce_ct env) (obj_class query) (c_db c))) (\<lambda>obj c.
       and_then (body obj c) (\<lambda>c.
         with_value (ds_get_keys (ce_ct env) query (Some index) (c_db c)) (\<lambda>live c.
           if length live \<noteq> n then (Some RuntimeError, c)
           else for_live env query index body n ids c) c)) c"

definition for_all_live ::
  "'a ctl_env \<Rightarrow> pyval \<Rightarrow> string list \<Rightarrow> (pyval \<Rightarrow> 'a controller \<Rightarrow> 'a controller outcome) \<Rightarrow>
   'a controller \<Rightarrow> 'a controller outcome" where
  "for_all_live env query index body c =
     with_value (ds_get_keys (ce_ct env) query (Some index) (c_db c)) (\<lambda>ids c.
       for_live env query index body (length ids) ids c) c"

definition ctl_loc :: "'a ctl_env \<Rightarrow> 'a controller \<Rightarrow> loc_env" where
  "ctl_loc env c =
     \<lparr>le_ct = ce_ct env, le_deref = ds_deref (c_db c), le_host = ce_chassis_name env,
      le_locations = c_locations c\<rparr>"

definition process_ovs_tunnel_port ::
  "'a ctl_env \<Rightarrow> pyval \<Rightarrow> bool \<Rightarrow> 'a controller \<Rightarrow> 'a controller outcome" where
  "process_ovs_tunnel_port env switch_port is_set c =
     with_value (c_attr env c switch_port ''tunnel_type'') (\<lambda>tunnel_type c.
       if \<not> py_true tunnel_type then (None, c)
       else
         for_all_live env (PObj ''LogicalSwitch'' [(''network_type'', tunnel_type)]) [''network_type''] (\<lambda>lswitch c.
           with_value (obj_id lswitch) (\<lambda>lswitch_id c.
             for_all_live env (PObj ''LogicalPort'' [(''lswitch'', PRef ''LogicalSwitch'' lswitch_id)]) [''lswitch.id''] (\<lambda>lport c.
               with_value (is_port_local (ctl_loc env c) lport) (\<lambda>is_local c.
                 if is_local then (None, c)
                 else logged (if is_set then ctl_update env lport c else ctl_delete env lport c)) c) c) c) c) c"

definition tunnel_port_updated :: "'a ctl_env \<Rightarrow> pyval \<Rightarrow> 'a controller \<Rightarrow> 'a controller outcome" where
  "tunnel_port_updated env switch_port = process_ovs_tunnel_port env switch_port True"

definition tunnel_port_added :: "'a ctl_env \<Rightarrow> pyval \<Rightarrow> 'a controller \<Rightarrow> 'a controller outcome" where
  "tunnel_port_added = tunnel_port_updated"

definition tunnel_port_deleted :: "'a ctl_env \<Rightarrow> pyval \<Rightarrow> 'a controller \<Rightarrow> 'a controller outcome" where
  "tunnel_port_deleted env switch_port = process_ovs_tunnel_port env switch_port False"

section \<open>Events of switch ports\<close>

definition by_port_type ::
  "'a ctl_env \<Rightarrow> (pyval \<Rightarrow> 'a controller \<Rightarrow> 'a controller outcome) \<Rightarrow>
   (pyval \<Rightarrow> 'a controller \<Rightarrow> 'a controller outcome) \<Rightarrow> pyval \<Rightarrow> 'a controller \<Rightarrow> 'a controller outcome" where
  "by_port_type env compute tunnel switch_port c =
     with_value (c_attr env c switch_port ''type'') (\<lambda>port_type c.
       if port_type = PStr ''compute'' then compute switch_port c
       else if port_type = PStr ''tunnel'' then tunnel switch_port c
       else (None, c)) c"

definition handle_switch_port_added :: "'a ctl_env \<Rightarrow> pyval \<Rightarrow> 'a controller \<Rightarrow> 'a controller outcome" where
  "handle_switch_port_added env = by_port_type env (compute_port_added env) (tunnel_port_added env)"

definition handle_switch_port_updated :: "'a ctl_env \<Rightarrow> pyval \<Rightarrow> 'a controller \<Rightarrow> 'a controller outcome" where
  "handle_switch_port_updated env = by_port_type env (compute_port_updated env) (tunnel_port_updated env)"

definition handle_switch_port_deleted :: "'a ctl_env \<Rightarrow> pyval \<Rightarrow> 'a controller \<Rightarrow> 'a controller outcome" where
  "handle_switch_port_deleted env = by_port_type env (compute_port_deleted env) (tunnel_port_deleted env)"

definition switch_port_updated ::
  "'a ctl_env \<Rightarrow> pyval \<Rightarrow> pyval option \<Rightarrow> 'a controller \<Rightarrow> 'a controller outcome" where
  "switch_port_updated env switch_port orig_switch_port c =
     with_value (c_attr env c switch_port ''type'') (\<lambda>port_type c.
       if as_str port_type \<notin> set switch_port_types then (None, c)
       else logged (case orig_switch_port of
                      None \<Rightarrow> handle_switch_port_added env switch_port c
                    | Some orig \<Rightarrow> handle_switch_port_updated env switch_port c)) c"

definition switch_port_deleted :: "'a ctl_env \<Rightarrow> pyval \<Rightarrow> 'a controller \<Rightarrow> 'a controller outcome" where
  "switch_port_deleted env switch_port c =
     with_value (c_attr env c switch_port ''type'') (\<lambda>port_type c.
       if as_str port_type \<notin> set switch_port_types then (None, c)
       else logged (handle_switch_port_deleted env switch_port c)) c"

section \<open>Rechecking the switch ports\<close>

text \<open>
  \<open>check_topology_info\<close>. The mapping to delete is the object's own dictionary, from which
  the loop pops the entries it meets.
\<close>

definition recheck_port ::
  "'a ctl_env \<Rightarrow> pyval \<Rightarrow>
   (string, string \<times> string) dict \<times> (string, string \<times> string) dict \<times> 'a controller \<Rightarrow>
   ((string, string \<times> string) dict \<times> (string, string \<times> string) dict \<times> 'a controller) outcome" where
  "recheck_port env switch_port =
     (\<lambda>(new, add, c).
        with_value (obj_id switch_port) (\<lambda>key (new, add, c).
        with_value (c_attr env c switch_port ''type'') (\<lambda>port_type (new, add, c).
          if port_type \<noteq> PStr ''compute'' then (None, (new, add, c))
          else with_value (get_lport env switch_port c) (\<lambda>lport (new, add, c).
            (case lport of
               None \<Rightarrow> (None, (new, add, c))
             | Some lport \<Rightarrow>
                 with_value (c_attr env c lport ''topic'') (\<lambda>topic (new, add, c).
                   if \<not> py_true topic then (None, (new, add, c))
                   else with_value (obj_id lport) (\<lambda>lport_id (new, add, c).
                     let entry = (lport_id, as_str topic);
                         known = map_of (c_ovs_to_lport_mapping c) key
                     in (None, (AList.update key entry new,
                                (if known = None then AList.update key entry add else add),
                                c\<lparr>c_ovs_to_lport_mapping := AList.delete key (c_ovs_to_lport_mapping c)\<rparr>)))
                     (new, add, c)) (new, add, c))) (new, add, c)) (new, add, c)) (new, add, c))"

definition check_topology_info :: "'a ctl_env \<Rightarrow> 'a controller \<Rightarrow> 'a controller outcome" where
  "check_topology_info env c =
     with_value (ds_get_all (ce_ct env) (PObj ''SwitchPort'' []) None (c_db c)) (\<lambda>switch_ports c.
       (case run_each (recheck_port env) switch_ports ([], [], c) of
          (Some e, (new, add, c)) \<Rightarrow> (Some e, c)
        | (None, (new, add, c)) \<Rightarrow>
            (let gone = c_ovs_to_lport_mapping c
             in and_then
                  (run_each (\<lambda>(key, lport_id, topic). add_to_topic_subscribed env topic lport_id) add
                     (c\<lparr>c_ovs_to_lport_mapping := new\<rparr>))
                  (run_each (\<lambda>(key, lport_id, topic). del_from_topic_subscribed env topic lport_id) gone)))) c"

section \<open>The subscriptions\<close>

declare map_of_eq_Some_iff [simp del] Some_eq_map_of_iff [simp del]

lemma sync_all_books:
  assumes "has_books p c"
  shows "has_books p (snd (sync_all (ctl_sync_env env) y c))"
proof -
  note intros = has_books_intros run_each_snd [where P = "has_books p"] ctl_update_books ctl_delete_books
  have deletes: "has_books p (snd (run_each (\<lambda>(i, obj). ctl_delete env obj) xs c))"
    if "has_books p c" for xs c
    by (rule run_each_snd [where P = "has_books p"]) (auto simp: that ctl_delete_books)
  have cleanup: "has_books p (snd (cleanup_objects (ctl_sync_env env) desired present c))"
    if "has_books p c" for desired present c
    unfolding cleanup_objects_def ctl_sync_env_simps by (rule intros deletes that | assumption)+
  have groups: "has_books p (snd (run_each (\<lambda>(t, objects). run_each (ctl_delete env) objects) g c))"
    if "has_books p c" for g c
    by (rule run_each_snd [where P = "has_books p"]) (auto simp: that intro!: intros)
  have topics: "has_books p (snd (cleanup_topics (ctl_sync_env env) m ts g c))" if "has_books p c" for m ts g c
    using that
  proof (induction ts arbitrary: g c)
    case (Cons t ts)
    show ?case unfolding cleanup_topics.simps
      by (rule has_books_intros cleanup Cons.IH Cons.prems | assumption)+
  qed (simp add: groups)
  show ?thesis
    unfolding sync_all_def update_model_def update_objects_def cleanup_model_def ctl_sync_env_simps
    by (rule intros cleanup topics assms | assumption)+
qed

lemma run_books:
  assumes "\<And>x c. has_books p c \<Longrightarrow> has_books p (snd (f x c))" "has_books p c"
  shows "has_books p (snd (run_each f xs c))"
  by (rule run_each_snd) (use assms in auto)

lemma register_topic_books:
  shows "c_books (snd (register_topic env t c)) =
    (c_pending c, c_topic_subscribed c, c_ovs_to_lport_mapping c, c_locations c,
     if sy_selective (c_sync c) \<and> fst (register_topic env t c) = None
     then (c_sync c)\<lparr>sy_topics := set_add t (sy_topics (c_sync c))\<rparr> else c_sync c)"
proof (cases "sy_selective (c_sync c) \<and> t \<notin> set (sy_topics (c_sync c))")
  case False
  then show ?thesis
    by (auto simp: register_topic_def add_topic_def set_sync_def effect_def c_books_def set_add_def)
next
  case True
  let ?r = "and_then (sync_all (ctl_sync_env env) (c_sync c) (effect (RegisterTopic t) c))
    (run_each (\<lambda>model. if \<not> topic_model (ce_ct env) model then Pair None
       else with_value (nb_get_all env model (Some t)) (run_each (ctl_update env))) (sy_models (c_sync c)))"
  have "has_books (c_books c) (effect (RegisterTopic t) c)"
    by (simp add: has_books_def c_books_def effect_def)
  then have "has_books (c_books c) (snd ?r)"
    by (intro and_then_snd [where P = "has_books (c_books c)"] sync_all_books run_books)
       (auto intro!: with_value_snd [where P = "has_books (c_books c)"] run_books ctl_update_books)
  then have books: "c_books (snd ?r) = c_books c" by (simp add: has_books_def)
  obtain err w where r: "?r = (err, w)" by fastforce
  have "register_topic env t c =
      (err, w\<lparr>c_sync := if err = None then (c_sync c)\<lparr>sy_topics := set_add t (sy_topics (c_sync c))\<rparr> else c_sync c\<rparr>)"
    using True by (simp add: register_topic_def add_topic_def set_sync_def r cong: if_cong split: option.split)
  with books r True show ?thesis by (auto simp: c_books_def)
qed

lemma unregister_topic_books:
  shows "c_books (snd (unregister_topic env t c)) =
    (c_pending c, c_topic_subscribed c, c_ovs_to_lport_mapping c, c_locations c,
     if sy_selective (c_sync c)
     then (c_sync c)\<lparr>sy_topics := set_discard t (sy_topics (c_sync c))\<rparr> else c_sync c)"
proof (cases "sy_selective (c_sync c) \<and> t \<in> set (sy_topics (c_sync c))")
  case False
  then have "set_discard t (sy_topics (c_sync c)) = sy_topics (c_sync c)" if "sy_selective (c_sync c)"
    using that by (auto simp: set_discard_def filter_id_conv)
  with False show ?thesis
    by (auto simp: unregister_topic_def remove_topic_def set_sync_def effect_def c_books_def)
next
  case True
  let ?r = "run_each (\<lambda>model w. if \<not> topic_model (ce_ct env) model then (None, w)
      else with_value (ds_get_all_by_topic (ce_ct env) model (Some t) (c_db w)) (run_each (ctl_delete env)) w)
    (rev (sy_models (c_sync c))) (effect (UnregisterTopic t) c)"
  have "has_books (c_books c) (effect (UnregisterTopic t) c)"
    by (simp add: has_books_def c_books_def effect_def)
  then have "has_books (c_books c) (snd ?r)"
    by (intro run_books) (auto intro!: with_value_snd [where P = "has_books (c_books c)"] run_books ctl_delete_books)
  then have books: "c_books (snd ?r) = c_books c" by (simp add: has_books_def)
  obtain err w where r: "?r = (err, w)" by fastforce
  have "unregister_topic env t c =
      (err, w\<lparr>c_sync := (c_sync c)\<lparr>sy_topics := set_discard t (sy_topics (c_sync c))\<rparr>\<rparr>)"
    using True by (simp add: unregister_topic_def remove_topic_def set_sync_def r cong: if_cong)
  with books r True show ?thesis by (auto simp: c_books_def)
qed

text \<open>
  The invariant of the subscriptions: no topic is kept without a port, and the sync object watches
  exactly the topics of the dictionary.
\<close>

definition subs_ok :: "'a ctl_env \<Rightarrow> 'a controller \<Rightarrow> bool" where
  "subs_ok env c \<longleftrightarrow> wf_dict (c_topic_subscribed c) \<and>
     (\<forall>t ids. map_of (c_topic_subscribed c) t = Some ids \<longrightarrow> t \<noteq> [] \<and> ids \<noteq> []) \<and>
     sy_selective (c_sync c) = ce_selective env \<and>
     (if ce_selective env then set (sy_topics (c_sync c)) = dom (map_of (c_topic_subscribed c))
      else c_topic_subscribed c = [])"

lemma subs_ok_cong: "c_books c' = c_books c \<Longrightarrow> subs_ok env c' = subs_ok env c"
  by (simp add: subs_ok_def c_books_def)

lemma subs_ok_add:
  assumes "subs_ok env c"
  shows "subs_ok env (snd (add_to_topic_subscribed env t l c))"
proof (cases "ce_selective env \<and> t \<noteq> []")
  case True
  show ?thesis
  proof (cases "map_of (c_topic_subscribed c) t")
    case None
    obtain err c1 where r: "register_topic env t c = (err, c1)" by fastforce
    from register_topic_books [of env t c] r assms True have
      "c_topic_subscribed c1 = c_topic_subscribed c"
      "c_sync c1 = (if err = None then (c_sync c)\<lparr>sy_topics := set_add t (sy_topics (c_sync c))\<rparr> else c_sync c)"
      by (auto simp: c_books_def subs_ok_def)
    then show ?thesis using assms True None r
      by (cases err) (auto simp: add_to_topic_subscribed_def subs_ok_def)
  next
    case (Some ids)
    with assms True show ?thesis
      by (auto simp: add_to_topic_subscribed_def subs_ok_def split: if_splits)
  qed
qed (use assms in \<open>auto simp: add_to_topic_subscribed_def\<close>)

lemma delete_update: "AList.delete k (AList.update k v d) = AList.delete k d"
  by (induction d) auto

lemma subs_ok_del:
  assumes "subs_ok env c"
  shows "subs_ok env (snd (del_from_topic_subscribed env t l c))"
proof (cases "\<exists>ids. ce_selective env \<and> t \<noteq> [] \<and> map_of (c_topic_subscribed c) t = Some ids \<and> l \<in> set ids")
  case True
  then obtain ids where t: "ce_selective env" "t \<noteq> []" "map_of (c_topic_subscribed c) t = Some ids" "l \<in> set ids"
    by blast
  show ?thesis
  proof (cases "set_discard l ids = []")
    case empty: True
    let ?c = "c\<lparr>c_topic_subscribed := AList.delete t (c_topic_subscribed c)\<rparr>"
    have "c_topic_subscribed (snd (unregister_topic env t ?c)) = AList.delete t (c_topic_subscribed c)"
      "c_sync (snd (unregister_topic env t ?c)) =
         (c_sync c)\<lparr>sy_topics := set_discard t (sy_topics (c_sync c))\<rparr>"
      using unregister_topic_books [of env t ?c] assms t(1) by (auto simp: c_books_def subs_ok_def)
    with assms t empty show ?thesis
      by (auto simp: del_from_topic_subscribed_def subs_ok_def delete_update split: if_splits)
  next
    case False
    with assms t show ?thesis
      by (auto simp: del_from_topic_subscribed_def subs_ok_def Let_def split: if_splits)
  qed
qed (use assms in \<open>auto simp: del_from_topic_subscribed_def split: option.splits\<close>)


text \<open>Every event of a switch port keeps the invariant, whatever it raises.\<close>

lemma subs_ok_steps:
  "subs_ok env c \<Longrightarrow> subs_ok env (snd (err, c))"
  "subs_ok env c \<Longrightarrow> subs_ok env (effect e c)"
  "subs_ok env c \<Longrightarrow> subs_ok env (c\<lparr>c_ovs_to_lport_mapping := d\<rparr>)"
  "subs_ok env (snd r) \<Longrightarrow> subs_ok env (snd (logged r))"
  "subs_ok env (snd x) \<Longrightarrow> subs_ok env (snd y) \<Longrightarrow> subs_ok env (snd (if b then x else y))"
  "subs_ok env (snd x) \<Longrightarrow> (\<And>v. subs_ok env (snd (h v))) \<Longrightarrow>
     subs_ok env (snd (case opt of None \<Rightarrow> x | Some v \<Rightarrow> h v))"
  "(\<And>a b. subs_ok env (snd (g a b))) \<Longrightarrow> subs_ok env (snd (case p of (a, b) \<Rightarrow> g a b))"
  by (auto simp: subs_ok_def effect_def logged_def split: prod.splits option.splits)

lemma subs_ok_pyval:
  "subs_ok env (snd f1) \<Longrightarrow> (\<And>b. subs_ok env (snd (f2 b))) \<Longrightarrow> (\<And>n. subs_ok env (snd (f3 n))) \<Longrightarrow>
   (\<And>s. subs_ok env (snd (f4 s))) \<Longrightarrow> (\<And>a. subs_ok env (snd (f5 a))) \<Longrightarrow>
   (\<And>vs. subs_ok env (snd (f6 vs))) \<Longrightarrow> (\<And>m i. subs_ok env (snd (f7 m i))) \<Longrightarrow>
   (\<And>cl fs. subs_ok env (snd (f8 cl fs))) \<Longrightarrow>
   subs_ok env (snd (case v of PNone \<Rightarrow> f1 | PBool b \<Rightarrow> f2 b | PInt n \<Rightarrow> f3 n | PStr s \<Rightarrow> f4 s
     | PIp a \<Rightarrow> f5 a | PList vs \<Rightarrow> f6 vs | PRef m i \<Rightarrow> f7 m i | PObj cl fs \<Rightarrow> f8 cl fs))"
  by (cases v) simp_all

lemma subs_ok_ctl:
  assumes "subs_ok env c"
  shows "subs_ok env (snd (ctl_update env obj c))" "subs_ok env (snd (ctl_delete env obj c))"
    "subs_ok env (snd (sync_all (ctl_sync_env env) y c))"
proof -
  have same: "subs_ok env c'" if "has_books (c_books c) c'" for c'
    using that assms subs_ok_cong [of c' c env] by (simp add: has_books_def)
  have "has_books (c_books c) c" by (simp add: has_books_def)
  then show "subs_ok env (snd (ctl_update env obj c))" "subs_ok env (snd (ctl_delete env obj c))"
    "subs_ok env (snd (sync_all (ctl_sync_env env) y c))"
    by (blast intro: same ctl_update_books ctl_delete_books sync_all_books)+
qed

lemmas subs_ok_intros = subs_ok_steps subs_ok_pyval subs_ok_ctl subs_ok_add subs_ok_del
  and_then_snd [where P = "subs_ok env" for env] with_value_snd [where P = "subs_ok env" for env]

lemma subs_ok_compute_updated:
  "subs_ok env c \<Longrightarrow> subs_ok env (snd (compute_port_updated env switch_port c))"
  unfolding compute_port_updated_def Let_def by (rule subs_ok_intros | assumption)+

lemma subs_ok_compute_deleted:
  "subs_ok env c \<Longrightarrow> subs_ok env (snd (compute_port_deleted env switch_port c))"
  unfolding compute_port_deleted_def notify_port_status_def forget_switch_port_def
  by (rule subs_ok_intros | assumption)+

lemma subs_ok_for_live:
  assumes "\<And>obj c. subs_ok env c \<Longrightarrow> subs_ok env (snd (body obj c))" "subs_ok env c"
  shows "subs_ok env (snd (for_all_live env query index body c))"
proof -
  have "subs_ok env (snd (for_live env query index body n ids c))" if "subs_ok env c" for n ids c
    using that
  proof (induction ids arbitrary: c)
    case (Cons i ids)
    show ?case unfolding for_live.simps by (rule subs_ok_intros assms(1) Cons.IH Cons.prems | assumption)+
  qed simp
  then show ?thesis unfolding for_all_live_def by (intro subs_ok_intros) (use assms in auto)
qed

lemma subs_ok_tunnel:
  "subs_ok env c \<Longrightarrow> subs_ok env (snd (process_ovs_tunnel_port env switch_port is_set c))"
  unfolding process_ovs_tunnel_port_def by (rule subs_ok_intros subs_ok_for_live | assumption)+

lemma subs_ok_switch_port_updated:
  "subs_ok env c \<Longrightarrow> subs_ok env (snd (switch_port_updated env switch_port orig c))"
  unfolding switch_port_updated_def handle_switch_port_added_def handle_switch_port_updated_def
    by_port_type_def compute_port_added_def tunnel_port_added_def tunnel_port_updated_def notify_port_status_def
  by (rule subs_ok_intros subs_ok_compute_updated subs_ok_tunnel | assumption)+

lemma subs_ok_switch_port_deleted:
  "subs_ok env c \<Longrightarrow> subs_ok env (snd (switch_port_deleted env switch_port c))"
  unfolding switch_port_deleted_def handle_switch_port_deleted_def by_port_type_def tunnel_port_deleted_def
  by (rule subs_ok_intros subs_ok_compute_deleted subs_ok_tunnel | assumption)+


section \<open>The recheck\<close>

text \<open>
  What the recheck keeps of a switch port: nothing, or its id with the logical port and the topic.
  \<open>entries\<close> lists it for the switch ports of the store.
\<close>

definition port_entry :: "'a ctl_env \<Rightarrow> 'a controller \<Rightarrow> pyval \<Rightarrow> (string \<times> string \<times> string) option result" where
  "port_entry env c p =
     bind_result (obj_id p) (\<lambda>key.
     bind_result (c_attr env c p ''type'') (\<lambda>port_type.
       if port_type \<noteq> PStr ''compute'' then Inr None
       else bind_result (get_lport env p c) (\<lambda>lport.
         (case lport of
            None \<Rightarrow> Inr None
          | Some lport \<Rightarrow>
              bind_result (c_attr env c lport ''topic'') (\<lambda>topic.
                if \<not> py_true topic then Inr None
                else bind_result (obj_id lport) (\<lambda>lport_id. Inr (Some (key, lport_id, as_str topic))))))))"

definition entries :: "'a ctl_env \<Rightarrow> 'a controller \<Rightarrow> pyval list \<Rightarrow> (string, string \<times> string) dict" where
  "entries env c = List.map_filter (\<lambda>p. case port_entry env c p of Inr e \<Rightarrow> e | Inl err \<Rightarrow> None)"

lemma entries_simps [simp]:
  "entries env c [] = []"
  "entries env c (p # ps) =
     (case port_entry env c p of Inr (Some e) \<Rightarrow> e # entries env c ps | _ \<Rightarrow> entries env c ps)"
  by (simp_all add: entries_def map_filter_simps split: sum.split option.split)

lemma port_entry_mapping [simp]:
  "port_entry env (c\<lparr>c_ovs_to_lport_mapping := d\<rparr>) p = port_entry env c p"
  unfolding port_entry_def c_attr_def get_lport_def by (simp cong: if_cong option.case_cong)

lemma entries_mapping [simp]: "entries env (c\<lparr>c_ovs_to_lport_mapping := d\<rparr>) = entries env c"
  by (simp add: entries_def)

lemma port_entry_key: "port_entry env c p = Inr (Some (k, v)) \<Longrightarrow> obj_id p = Inr k \<and> k = key_of p"
  by (auto simp: port_entry_def bind_result_Inr_iff key_of_def split: if_splits option.splits)

lemma set_entries: "(k, v) \<in> set (entries env c ps) \<longleftrightarrow> (\<exists>p\<in>set ps. port_entry env c p = Inr (Some (k, v)))"
  by (induction ps) (auto split: sum.splits option.splits)

lemma wf_entries: "distinct (map key_of ps) \<Longrightarrow> wf_dict (entries env c ps)"
proof (induction ps)
  case (Cons p ps)
  have "fst e \<notin> fst ` set (entries env c ps)" if e: "port_entry env c p = Inr (Some e)" for e
  proof
    assume "fst e \<in> fst ` set (entries env c ps)"
    then obtain v where "(fst e, v) \<in> set (entries env c ps)" by force
    then obtain q where "q \<in> set ps" "port_entry env c q = Inr (Some (fst e, v))" by (auto simp: set_entries)
    with port_entry_key [of env c q "fst e" v] port_entry_key [of env c p "fst e" "snd e"] e Cons.prems
    show False by (metis distinct.simps(2) list.set_map list.simps(9) imageI prod.collapse)
  qed
  with Cons show ?case by (auto split: sum.split option.split)
qed simp

lemma recheck_port_entry:
  "recheck_port env p (new, add, c) =
     (case port_entry env c p of
        Inl e \<Rightarrow> (Some e, (new, add, c))
      | Inr None \<Rightarrow> (None, (new, add, c))
      | Inr (Some (k, v)) \<Rightarrow>
          (None, (AList.update k v new,
                  (if map_of (c_ovs_to_lport_mapping c) k = None then AList.update k v add else add),
                  c\<lparr>c_ovs_to_lport_mapping := AList.delete k (c_ovs_to_lport_mapping c)\<rparr>)))"
  by (simp add: recheck_port_def port_entry_def with_value_def bind_result_def Let_def
      split: sum.split option.split)

lemma delete_filter: "AList.delete k d = filter (\<lambda>(k', v). k' \<noteq> k) d"
  by (induction d) auto

lemma recheck_loop:
  assumes "\<forall>p\<in>set ps. \<not> isl (port_entry env c p)" "wf_dict (entries env c ps)"
    "\<forall>k\<in>fst ` set (entries env c ps). k \<notin> set (dict_keys new) \<and> k \<notin> set (dict_keys add)"
  shows "run_each (recheck_port env) ps (new, add, c) =
    (None, (new @ entries env c ps,
            add @ filter (\<lambda>(k, v). map_of (c_ovs_to_lport_mapping c) k = None) (entries env c ps),
            c\<lparr>c_ovs_to_lport_mapping :=
              filter (\<lambda>(k, v). k \<notin> fst ` set (entries env c ps)) (c_ovs_to_lport_mapping c)\<rparr>))"
  using assms
proof (induction ps arbitrary: new add c)
  case Nil
  then show ?case by (simp add: filter_id_conv case_prod_beta)
next
  case (Cons p ps)
  show ?case
  proof (cases "port_entry env c p")
    case (Inl e)
    with Cons.prems(1) show ?thesis by simp
  next
    case (Inr r)
    show ?thesis
    proof (cases r)
      case None
      with Cons.prems have "run_each (recheck_port env) ps (new, add, c) =
          (None, (new @ entries env c ps,
            add @ filter (\<lambda>(k, v). map_of (c_ovs_to_lport_mapping c) k = None) (entries env c ps),
            c\<lparr>c_ovs_to_lport_mapping :=
              filter (\<lambda>(k, v). k \<notin> fst ` set (entries env c ps)) (c_ovs_to_lport_mapping c)\<rparr>))"
        by (intro Cons.IH) (auto simp: Inr)
      with Inr None show ?thesis by (simp add: recheck_port_entry)
    next
      case (Some e)
      obtain k v where e: "e = (k, v)" by (cases e) blast
      let ?c = "c\<lparr>c_ovs_to_lport_mapping := AList.delete k (c_ovs_to_lport_mapping c)\<rparr>"
      let ?add = "if map_of (c_ovs_to_lport_mapping c) k = None then add @ [(k, v)] else add"
      note entry = Inr Some e
      from Cons.prems(2) entry have fresh: "k \<notin> fst ` set (entries env c ps)" by simp
      have keys: "\<forall>j\<in>fst ` set (entries env c ps). j \<notin> set (dict_keys new) \<and> j \<notin> set (dict_keys add) \<and> j \<noteq> k"
        using Cons.prems(3) entry fresh by auto
      have "run_each (recheck_port env) ps (new @ [(k, v)], ?add, ?c) =
          (None, ((new @ [(k, v)]) @ entries env ?c ps,
            ?add @ filter (\<lambda>(j, w). map_of (c_ovs_to_lport_mapping ?c) j = None) (entries env ?c ps),
            ?c\<lparr>c_ovs_to_lport_mapping :=
              filter (\<lambda>(j, w). j \<notin> fst ` set (entries env ?c ps)) (c_ovs_to_lport_mapping ?c)\<rparr>))"
        using Cons.prems(1,2) keys entry by (intro Cons.IH) (auto split: if_splits)
      moreover have "filter (\<lambda>(j, w). map_of (c_ovs_to_lport_mapping ?c) j = None) (entries env c ps) =
          filter (\<lambda>(j, w). map_of (c_ovs_to_lport_mapping c) j = None) (entries env c ps)"
        using keys by (auto intro!: filter_cong)
      moreover have "filter (\<lambda>(j, w). j \<notin> fst ` set (entries env c ps)) (c_ovs_to_lport_mapping ?c) =
          filter (\<lambda>(j, w). j \<notin> insert k (fst ` set (entries env c ps))) (c_ovs_to_lport_mapping c)"
        by (auto simp: delete_filter intro!: filter_cong)
      moreover have "recheck_port env p (new, add, c) = (None, (new @ [(k, v)], ?add, ?c))"
        using entry Cons.prems(3) by (simp add: recheck_port_entry update_new)
      ultimately show ?thesis using entry by simp
    qed
  qed
qed


text \<open>The ports a topic is subscribed for, and the ports a mapping has for it.\<close>

definition subs_of :: "'a controller \<Rightarrow> string \<Rightarrow> string set" where
  "subs_of c t = (case map_of (c_topic_subscribed c) t of Some ids \<Rightarrow> set ids | None \<Rightarrow> {})"

definition ports_of :: "(string, string \<times> string) dict \<Rightarrow> string \<Rightarrow> string set" where
  "ports_of d t = {l. \<exists>k. map_of d k = Some (l, t)}"

lemma add_subs_of:
  assumes "add_to_topic_subscribed env t l c = (None, c')" "ce_selective env" "t \<noteq> []"
  shows "subs_of c' = (subs_of c)(t := insert l (subs_of c t))"
proof (cases "map_of (c_topic_subscribed c) t")
  case None
  with assms obtain c1 where c1: "register_topic env t c = (None, c1)"
      "c' = c1\<lparr>c_topic_subscribed := AList.update t [l] (c_topic_subscribed c1)\<rparr>"
    by (auto simp: add_to_topic_subscribed_def and_then_None_iff)
  have "c_topic_subscribed c1 = c_topic_subscribed c"
    using register_topic_books [of env t c] c1(1) by (simp add: c_books_def)
  with c1 None show ?thesis by (auto simp: subs_of_def fun_eq_iff)
next
  case (Some ids)
  with assms show ?thesis by (auto simp: add_to_topic_subscribed_def subs_of_def fun_eq_iff)
qed

lemma del_subs_of:
  assumes "del_from_topic_subscribed env t l c = (None, c')" "ce_selective env" "t \<noteq> []"
  shows "subs_of c' = (subs_of c)(t := subs_of c t - {l})"
proof -
  from assms obtain ids where ids: "map_of (c_topic_subscribed c) t = Some ids" "l \<in> set ids"
    by (auto simp: del_from_topic_subscribed_def split: option.splits if_splits)
  show ?thesis
  proof (cases "set_discard l ids = []")
    case True
    let ?c = "c\<lparr>c_topic_subscribed := AList.delete t (c_topic_subscribed c)\<rparr>"
    from True ids assms have "unregister_topic env t ?c = (None, c')"
      by (simp add: del_from_topic_subscribed_def delete_update)
    then have "c_topic_subscribed c' = AList.delete t (c_topic_subscribed c)"
      using unregister_topic_books [of env t ?c] by (simp add: c_books_def)
    moreover have "set ids - {l} = {}" using True set_set_discard [of l ids] by simp
    ultimately show ?thesis using ids by (simp add: subs_of_def fun_eq_iff)
  next
    case False
    with ids assms have "c' = c\<lparr>c_topic_subscribed :=
        AList.update t (set_discard l ids) (c_topic_subscribed c)\<rparr>"
      by (simp add: del_from_topic_subscribed_def Let_def)
    with ids show ?thesis by (simp add: subs_of_def fun_eq_iff)
  qed
qed

lemma unselected:
  assumes "\<not> ce_selective env \<or> t = []"
  shows "add_to_topic_subscribed env t l c = (None, c)" "del_from_topic_subscribed env t l c = (None, c)"
  using assms by (auto simp: add_to_topic_subscribed_def del_from_topic_subscribed_def)

lemma adds_subs_of:
  assumes "run_each (\<lambda>(k, l, t). add_to_topic_subscribed env t l) xs c = (None, c')" "ce_selective env" "t \<noteq> []"
  shows "subs_of c' t = subs_of c t \<union> {l. (l, t) \<in> snd ` set xs}"
  using assms(1)
proof (induction xs arbitrary: c)
  case (Cons x xs)
  obtain k l u where x: "x = (k, l, u)" by (cases x) auto
  with Cons.prems obtain c1 where c1: "add_to_topic_subscribed env u l c = (None, c1)"
      "run_each (\<lambda>(k, l, t). add_to_topic_subscribed env t l) xs c1 = (None, c')"
    by (auto simp: and_then_None_iff)
  have "subs_of c1 t = subs_of c t \<union> (if u = t then {l} else {})"
  proof (cases "u = []")
    case True
    with c1 unselected(1) [of env u l c] assms(3) show ?thesis by auto
  next
    case False
    with add_subs_of [OF c1(1) assms(2)] show ?thesis by simp
  qed
  with Cons.IH [OF c1(2)] x show ?case by auto
qed simp

lemma dels_subs_of:
  assumes "run_each (\<lambda>(k, l, t). del_from_topic_subscribed env t l) xs c = (None, c')" "ce_selective env" "t \<noteq> []"
  shows "subs_of c' t = subs_of c t - {l. (l, t) \<in> snd ` set xs}"
  using assms(1)
proof (induction xs arbitrary: c)
  case (Cons x xs)
  obtain k l u where x: "x = (k, l, u)" by (cases x) auto
  with Cons.prems obtain c1 where c1: "del_from_topic_subscribed env u l c = (None, c1)"
      "run_each (\<lambda>(k, l, t). del_from_topic_subscribed env t l) xs c1 = (None, c')"
    by (auto simp: and_then_None_iff)
  have "subs_of c1 t = subs_of c t - (if u = t then {l} else {})"
  proof (cases "u = []")
    case True
    with c1 unselected(2) [of env u l c] assms(3) show ?thesis by auto
  next
    case False
    with del_subs_of [OF c1(1) assms(2)] show ?thesis by simp
  qed
  with Cons.IH [OF c1(2)] x show ?case by auto
qed simp

text \<open>The subscriptions are changed without touching the mapping or the store's switch ports.\<close>

definition mapped :: "(string, string \<times> string) dict \<Rightarrow> 'a controller \<Rightarrow> bool" where
  "mapped d c \<longleftrightarrow> c_ovs_to_lport_mapping c = d"

lemma mapped_add: "mapped d c \<Longrightarrow> mapped d (snd (add_to_topic_subscribed env t l c))"
proof -
  assume "mapped d c"
  moreover obtain err c1 where r: "register_topic env t c = (err, c1)" by fastforce
  moreover have "c_ovs_to_lport_mapping c1 = c_ovs_to_lport_mapping c"
    using register_topic_books [of env t c] r by (simp add: c_books_def)
  ultimately show ?thesis
    by (cases err) (auto simp: add_to_topic_subscribed_def mapped_def split: option.splits)
qed

lemma mapped_del: "mapped d c \<Longrightarrow> mapped d (snd (del_from_topic_subscribed env t l c))"
proof -
  assume d: "mapped d c"
  have "c_ovs_to_lport_mapping (snd (unregister_topic env t c')) = c_ovs_to_lport_mapping c'" for c' :: "'a controller"
    using unregister_topic_books [of env t c'] by (simp add: c_books_def)
  with d show ?thesis
    by (auto simp: del_from_topic_subscribed_def mapped_def Let_def split: option.splits)
qed

lemma check_topology_unfold:
  assumes "store_ok (ce_ct env) (c_db c)"
    and "\<forall>k p. ds_deref (c_db c) ''SwitchPort'' k = Some p \<longrightarrow> \<not> isl (port_entry env c p)"
  obtains ps where "set ps = {p. \<exists>k. ds_deref (c_db c) ''SwitchPort'' k = Some p}" "distinct (map key_of ps)"
    "check_topology_info env c =
      and_then
        (run_each (\<lambda>(key, l, t). add_to_topic_subscribed env t l)
           (filter (\<lambda>(k, v). map_of (c_ovs_to_lport_mapping c) k = None) (entries env c ps))
           (c\<lparr>c_ovs_to_lport_mapping := entries env c ps\<rparr>))
        (run_each (\<lambda>(key, l, t). del_from_topic_subscribed env t l)
           (filter (\<lambda>(k, v). k \<notin> fst ` set (entries env c ps)) (c_ovs_to_lport_mapping c)))"
proof -
  from stored_listing [OF assms(1), of "''SwitchPort''"] obtain ps where
    ps: "ds_get_all (ce_ct env) (PObj ''SwitchPort'' []) None (c_db c) = Inr ps"
      "set ps = {p. \<exists>k. ds_deref (c_db c) ''SwitchPort'' k = Some p}" "distinct (map key_of ps)" by blast
  have "run_each (recheck_port env) ps ([], [], c) = (None, ([] @ entries env c ps,
      [] @ filter (\<lambda>(k, v). map_of (c_ovs_to_lport_mapping c) k = None) (entries env c ps),
      c\<lparr>c_ovs_to_lport_mapping := filter (\<lambda>(k, v). k \<notin> fst ` set (entries env c ps)) (c_ovs_to_lport_mapping c)\<rparr>))"
    using assms(2) ps(2) wf_entries [OF ps(3)] by (intro recheck_loop) auto
  with ps that show thesis by (simp add: check_topology_info_def Let_def)
qed

lemma recheck_result:
  assumes ok: "store_ok (ce_ct env) (c_db c)" and wf: "wf_dict (c_ovs_to_lport_mapping c)"
    and known: "\<forall>k p. ds_deref (c_db c) ''SwitchPort'' k = Some p \<longrightarrow> \<not> isl (port_entry env c p)"
    and r: "check_topology_info env c = (err, c')"
  shows "map_of (c_ovs_to_lport_mapping c') k = Some v \<longleftrightarrow>
      (\<exists>p. ds_deref (c_db c) ''SwitchPort'' k = Some p \<and> port_entry env c p = Inr (Some (k, v)))" (is ?mapping)
    and "err = None \<Longrightarrow> ce_selective env \<Longrightarrow> t \<noteq> [] \<Longrightarrow>
      l \<in> subs_of c' t \<longleftrightarrow>
        (l \<in> subs_of c t \<or>
         (\<exists>k. map_of (c_ovs_to_lport_mapping c) k = None \<and> map_of (c_ovs_to_lport_mapping c') k = Some (l, t))) \<and>
        \<not> (\<exists>k. map_of (c_ovs_to_lport_mapping c) k = Some (l, t) \<and> map_of (c_ovs_to_lport_mapping c') k = None)"
proof -
  obtain ps where ps: "set ps = {p. \<exists>k. ds_deref (c_db c) ''SwitchPort'' k = Some p}" "distinct (map key_of ps)"
    and run: "check_topology_info env c =
      and_then
        (run_each (\<lambda>(key, l, t). add_to_topic_subscribed env t l)
           (filter (\<lambda>(k, v). map_of (c_ovs_to_lport_mapping c) k = None) (entries env c ps))
           (c\<lparr>c_ovs_to_lport_mapping := entries env c ps\<rparr>))
        (run_each (\<lambda>(key, l, t). del_from_topic_subscribed env t l)
           (filter (\<lambda>(k, v). k \<notin> fst ` set (entries env c ps)) (c_ovs_to_lport_mapping c)))"
    using check_topology_unfold [OF ok known] by blast
  let ?es = "entries env c ps"
  have "mapped ?es (snd (check_topology_info env c))"
    unfolding run
    by (intro and_then_snd [where P = "mapped ?es"] run_each_snd [where P = "mapped ?es"])
       (auto simp: mapped_add mapped_del, simp add: mapped_def)
  then have es: "c_ovs_to_lport_mapping c' = ?es" using r by (simp add: mapped_def)
  have wf_es: "wf_dict ?es" by (rule wf_entries [OF ps(2)])
  have "j = k" if "ds_deref (c_db c) ''SwitchPort'' j = Some p" "port_entry env c p = Inr (Some (k, v))" for j p
    using stored_key(1) [OF ok that(1)] port_entry_key [OF that(2)] by simp
  then show ?mapping unfolding es wf_dict_map_of_iff [OF wf_es] set_entries ps(1) by blast
  assume err: "err = None" and sel: "ce_selective env" "t \<noteq> []"
  note ret = trans [OF run [symmetric] r, unfolded err]
  from and_then_None_iff [THEN iffD1, OF ret] obtain c1 where c1:
    "run_each (\<lambda>(key, l, t). add_to_topic_subscribed env t l)
       (filter (\<lambda>(k, v). map_of (c_ovs_to_lport_mapping c) k = None) ?es)
       (c\<lparr>c_ovs_to_lport_mapping := ?es\<rparr>) = (None, c1)"
    "run_each (\<lambda>(key, l, t). del_from_topic_subscribed env t l)
       (filter (\<lambda>(k, v). k \<notin> fst ` set ?es) (c_ovs_to_lport_mapping c)) c1 = (None, c')"
    by blast
  have start: "subs_of (c\<lparr>c_ovs_to_lport_mapping := ?es\<rparr>) t = subs_of c t" by (simp add: subs_of_def)
  show "l \<in> subs_of c' t \<longleftrightarrow>
      (l \<in> subs_of c t \<or>
       (\<exists>k. map_of (c_ovs_to_lport_mapping c) k = None \<and> map_of (c_ovs_to_lport_mapping c') k = Some (l, t))) \<and>
      \<not> (\<exists>k. map_of (c_ovs_to_lport_mapping c) k = Some (l, t) \<and> map_of (c_ovs_to_lport_mapping c') k = None)"
    unfolding es dels_subs_of [OF c1(2) sel] adds_subs_of [OF c1(1) sel] start
    by (auto simp: wf_dict_map_of_iff [OF wf] wf_dict_map_of_iff [OF wf_es] map_of_None_keys image_iff Bex_def)
qed


text \<open>
  A logical port that moved from one switch port to another between two rechecks loses its
  topic: the recheck subscribes it under the new switch port first and then unsubscribes it for the
  one that is gone, so that the mapping has the port and the subscription does not.
\<close>

theorem topology_recheck_moved_port:
  assumes "store_ok (ce_ct env) (c_db c)" "wf_dict (c_ovs_to_lport_mapping c)"
    and "\<forall>k p. ds_deref (c_db c) ''SwitchPort'' k = Some p \<longrightarrow> \<not> isl (port_entry env c p)"
    and "check_topology_info env c = (None, c')" "ce_selective env" "t \<noteq> []"
    and moved: "map_of (c_ovs_to_lport_mapping c) k = Some (l, t)" "ds_deref (c_db c) ''SwitchPort'' k = None"
    and to: "ds_deref (c_db c) ''SwitchPort'' k' = Some p" "port_entry env c p = Inr (Some (k', (l, t)))"
  shows "map_of (c_ovs_to_lport_mapping c') k' = Some (l, t) \<and> l \<notin> subs_of c' t"
proof -
  note res = recheck_result [OF assms(1-4)]
  have "map_of (c_ovs_to_lport_mapping c') k = None"
    using res(1) [of k] moved(2) by (cases "map_of (c_ovs_to_lport_mapping c') k") auto
  then show ?thesis using res(1) [of k' "(l, t)"] res(2) [OF refl assms(5,6), of l] to moved(1) by blast
qed


lemma subs_ok_check:
  fixes c :: "'a controller"
  assumes "subs_ok env c"
  shows "subs_ok env (snd (check_topology_info env c))"
proof -
  have loop: "subs_ok env (snd (snd (snd (run_each (recheck_port env) ps ([], [], c)))))" for ps
  proof (rule run_each_snd [where P = "\<lambda>x. subs_ok env (snd (snd x))"])
    fix p and x :: "(string, string \<times> string) dict \<times> (string, string \<times> string) dict \<times> 'a controller"
    assume "subs_ok env (snd (snd x))"
    then show "subs_ok env (snd (snd (snd (recheck_port env p x))))"
      by (cases x) (auto simp: recheck_port_entry subs_ok_steps split: sum.split option.split)
  qed (simp add: assms)
  have adds: "subs_ok env (snd (run_each (\<lambda>(k, l, t). add_to_topic_subscribed env t l) xs d))"
    and dels: "subs_ok env (snd (run_each (\<lambda>(k, l, t). del_from_topic_subscribed env t l) xs d))"
    if "subs_ok env d" for xs d
    by (rule run_each_snd; use that in \<open>auto simp: subs_ok_add subs_ok_del\<close>)+
  have "subs_ok env (snd (case run_each (recheck_port env) ps ([], [], c) of
      (Some e, (new, add, c)) \<Rightarrow> (Some e, c)
    | (None, (new, add, c)) \<Rightarrow>
        and_then (run_each (\<lambda>(k, l, t). add_to_topic_subscribed env t l) add (c\<lparr>c_ovs_to_lport_mapping := new\<rparr>))
          (run_each (\<lambda>(k, l, t). del_from_topic_subscribed env t l) (c_ovs_to_lport_mapping c))))" for ps
  proof -
    obtain err new add d where "run_each (recheck_port env) ps ([], [], c) = (err, (new, add, d))"
      by (metis prod.collapse)
    with loop [of ps] show ?thesis
      by (cases err) (auto intro!: and_then_snd [where P = "subs_ok env"] adds dels subs_ok_steps(3))
  qed
  with assms show ?thesis
    unfolding check_topology_info_def Let_def by (cases rule: sum.exhaust) (auto simp: with_value_def split: sum.split)
qed

text \<open>
  The steps of the controller that may change the subscriptions or the objects they bring in:
  events of switch ports, rechecks, objects that arrive or go, and whole syncs. A step that raises
  leaves its changes behind.
\<close>

inductive topo_step :: "'a ctl_env \<Rightarrow> 'a controller \<Rightarrow> 'a controller \<Rightarrow> bool" for env where
  port_updated: "topo_step env c (snd (switch_port_updated env p orig c))"
| port_deleted: "topo_step env c (snd (switch_port_deleted env p c))"
| recheck: "topo_step env c (snd (check_topology_info env c))"
| object_updated: "topo_step env c (snd (ctl_update env obj c))"
| object_deleted: "topo_step env c (snd (ctl_delete env obj c))"
| synced: "topo_step env c (snd (sync_all (ctl_sync_env env) (c_sync c) c))"

lemma topo_step_subs_ok: "topo_step env c c' \<Longrightarrow> subs_ok env c \<Longrightarrow> subs_ok env c'"
  by (induction rule: topo_step.induct)
    (simp_all add: subs_ok_switch_port_updated subs_ok_switch_port_deleted subs_ok_check subs_ok_ctl)

lemma topo_steps_subs_ok: "(topo_step env)\<^sup>*\<^sup>* c c' \<Longrightarrow> subs_ok env c \<Longrightarrow> subs_ok env c'"
  by (induction rule: rtranclp_induct) (auto intro: topo_step_subs_ok)

text \<open>
  C7. However the controller is driven by events of switch ports, rechecks, objects and syncs from
  its start, and whatever these raise, the topics the sync object watches are exactly the topics
  that a local port is subscribed for, which is what \<open>get_subscribed_topics\<close> returns, and the
  empty topic is never one of them; without selective distribution nothing is ever subscribed.
\<close>

theorem topology_watches_subscribed_topics:
  assumes "(topo_step env)\<^sup>*\<^sup>* c c'" "c_topic_subscribed c = []" "sy_topics (c_sync c) = []"
    "sy_selective (c_sync c) = ce_selective env"
  shows "(case get_subscribed_topics env c' of
      None \<Rightarrow> \<not> ce_selective env \<and> c_topic_subscribed c' = []
    | Some ts \<Rightarrow> ce_selective env \<and> distinct ts \<and> set ts = {t. subs_of c' t \<noteq> {}} \<and>
        set (sy_topics (c_sync c')) = set ts \<and> [] \<notin> set ts)"
proof -
  have "subs_ok env c" using assms(2-4) by (simp add: subs_ok_def)
  from topo_steps_subs_ok [OF assms(1) this] have ok: "subs_ok env c'" .
  then have "subs_of c' t \<noteq> {} \<longleftrightarrow> t \<in> dom (map_of (c_topic_subscribed c'))" for t
    by (auto simp: subs_ok_def subs_of_def split: option.splits)
  moreover have "map_of (c_topic_subscribed c') [] = None"
    using ok by (cases "map_of (c_topic_subscribed c') []") (auto simp: subs_ok_def)
  ultimately show ?thesis using ok
    by (auto simp: get_subscribed_topics_def subs_ok_def set_dict_keys [symmetric] map_of_None_keys [symmetric]
        simp del: set_map)
qed


end
