(* ===== verification/Controller_Cases.thy ===== *)
theory Controller_Cases
  imports Controller
begin

text \<open>
  The controller at concrete inputs, on the declared models: the witnesses of its general
  theorems, and the cases in which it does not do what its comments say - a chassis with ports
  cannot be deleted, an updated chassis does not reach its ports, a reference with the referring
  object's own id is skipped, and a referenced object can be sent after the object that needs it.
\<close>

lemma df_first_class [simp]:
  "class_is_first_class df_classes ''Chassis''" "class_is_first_class df_classes ''LogicalPort''"
  "class_is_first_class df_classes ''QosPolicy''" "class_is_first_class df_classes ''LogicalSwitch''"
  "\<not> class_is_first_class df_classes ''QosPolicyRule''"
  "general_model df_classes ''LogicalPort''" "general_model df_classes ''QosPolicy''"
  by (simp_all add: class_is_first_class_def is_first_class_def general_model_def class_decl_defs)

section \<open>A port bound to a chassis\<close>

definition bound_port :: pyval where
  "bound_port = PObj ''LogicalPort''
     [(''id'', PStr ''p''), (''version'', PInt 1), (''topic'', PStr ''t''), (''unique_key'', PInt 1),
      (''binding'', PObj ''PortBinding'' [(''type'', PStr ''chassis''), (''chassis'', PRef ''Chassis'' ''ch'')])]"

lemma bound_port_class [simp]: "obj_class bound_port = ''LogicalPort''" "obj_id bound_port = Inr ''p''"
  "key_of bound_port = ''p''"
  by (simp_all add: bound_port_def obj_id_def key_of_def)

lemma bound_port_keys:
  "ic_get_keys df_classes deref [''unique_key''] bound_port = Inr [[Some (PInt 1)]]"
  "ic_get_keys df_classes deref [''topic''] bound_port = Inr [[Some (PStr ''t'')]]"
  "ic_get_keys df_classes deref [''binding.chassis.id''] bound_port = Inr [[Some (PStr ''ch'')]]"
  "ic_get_keys df_classes deref [''lswitch.id''] bound_port = Inr [[None]]"
  "ic_get_keys df_classes deref [''ips'', ''lswitch.id''] bound_port = Inr []"
  "ic_get_keys df_classes deref [''lswitch.unique_key'', ''device_owner''] bound_port = Inr [[None, None]]"
  by (simp_all add: bound_port_def key_simps)

lemma bound_port_wf: "wf_object df_classes bound_port" "indexable df_classes deref bound_port"
proof -
  have "embedded_instances df_classes bound_port = []"
    by (simp add: embedded_instances_def bound_port_def class_fields_def class_decl_defs
        embedded_values_def is_model_instance_def)
  moreover have "py_getattr df_classes d bound_port ''topic'' = Inr (PStr ''t'')" for d
    by (simp add: bound_port_def py_getattr_def read_field_def class_fields_def class_decl_defs)
  moreover have "PRef m i \<in> set (nested bound_port) \<Longrightarrow> class_is_first_class df_classes m" for m i
    by (simp add: bound_port_def)
  ultimately show "wf_object df_classes bound_port"
    unfolding wf_object_def by (auto simp: subobjects_def)
  show "indexable df_classes deref bound_port"
    by (simp add: indexable_def port_caches bound_port_keys)
qed


section \<open>Deleting a chassis\<close>

lemma ports_query_keys:
  "ic_get_keys df_classes deref chassis_index (ports_query ch) = Inr [[Some (PStr ch)]]"
  by (simp add: chassis_index_def ports_query_def key_simps)

text \<open>The ids \<open>_get_ports_by_chassis\<close> goes through are the set in one leaf of the index.\<close>

lemma rt_get_all_leaf:
  assumes "rt_wf (Suc 0) t"
  shows "rt_get_all [Some k] t = Inr (rt_at [Some k] t) \<and> distinct (rt_at [Some k] t)"
proof -
  from assms obtain d where t: "t = Node 0 d" "wf_dict d" "\<forall>p\<in>set d. rt_wf 0 (snd p)"
    by (cases t) auto
  show ?thesis
  proof (cases "map_of d (Some k)")
    case None
    then show ?thesis by (simp add: t(1) rt_get_all_def rt_round_def rt_chain_def)
  next
    case (Some u)
    then have "rt_wf 0 u" using t(3) by (metis map_of_SomeD snd_conv)
    then obtain vs where "u = Leaf vs" "distinct vs" by (cases u) simp_all
    with Some show ?thesis by (simp add: t(1) rt_get_all_def rt_round_def rt_chain_def)
  qed
qed

lemma chassis_port_ids:
  assumes "caches_inv df_classes s"
  shows "\<exists>ic :: index_cache. map_of (mc_indexes (ds_get_cache df_classes ''LogicalPort'' s)) chassis_index = Some ic \<and>
    ds_get_keys df_classes (ports_query ch) (Some chassis_index) s = Inr (rt_at [Some (PStr ch)] (ic_tree ic)) \<and>
    distinct (rt_at [Some (PStr ch)] (ic_tree ic)) \<and>
    set (rt_at [Some (PStr ch)] (ic_tree ic)) =
      {i. \<exists>ks. map_of (ic_keys ic) i = Some ks \<and> [Some (PStr ch)] \<in> set ks} \<and>
    dom (map_of (ic_keys ic)) = {i. ds_deref s ''LogicalPort'' i \<noteq> None}"
proof -
  let ?mc = "ds_get_cache df_classes ''LogicalPort'' s"
  have "chassis_index \<in> set (dict_keys (mc_indexes ?mc))"
    unfolding get_cache_inv(2) [OF assms] by (simp add: port_caches chassis_index_def)
  then obtain ic where ic: "map_of (mc_indexes ?mc) chassis_index = Some ic"
    by (cases "map_of (mc_indexes ?mc) chassis_index") (simp_all add: map_of_eq_None_iff)
  note inv = mc_invD [OF get_cache_inv(1) [OF assms] map_of_SomeD [OF ic]]
  have wf: "rt_wf (Suc 0) (ic_tree ic)" using inv(1,2) by (simp add: ic_inv_def chassis_index_def)
  have "ds_get_keys df_classes (ports_query ch) (Some chassis_index) s = Inr (rt_at [Some (PStr ch)] (ic_tree ic))"
  proof -
    have "ic_get_all df_classes (ds_deref s) (ports_query ch) ic = Inr (rt_at [Some (PStr ch)] (ic_tree ic))"
      using inv(1) rt_get_all_leaf [OF wf, of "PStr ch"] by (simp add: ic_get_all_def ports_query_keys)
    moreover have "chassis_index \<noteq> [''id'']" "obj_class (ports_query ch) = ''LogicalPort''"
      by (simp_all add: chassis_index_def ports_query_def)
    ultimately show ?thesis using ic by (simp add: ds_get_keys_def mc_get_keys_def)
  qed
  moreover have "set (rt_at [Some (PStr ch)] (ic_tree ic)) =
      {i. \<exists>ks. map_of (ic_keys ic) i = Some ks \<and> [Some (PStr ch)] \<in> set ks}"
    using inv(2) by (auto simp: ic_inv_def rt_content_def set_eq_iff)
  moreover have "dom (map_of (ic_keys ic)) = {i. ds_deref s ''LogicalPort'' i \<noteq> None}"
    using inv(3) by (auto simp: get_cache_objs dom_def)
  ultimately show ?thesis using ic rt_get_all_leaf [OF wf, of "PStr ch"] by blast
qed


text \<open>Deleting a stored port that embeds nothing takes its id out of the index.\<close>

lemma port_delete_index:
  assumes ok: "store_ok df_classes s" and v: "ds_deref s ''LogicalPort'' i = Some v"
    and emb: "emb_of s (''LogicalPort'', i) = []"
    and del: "ds_delete df_classes v s = (None, s')" and ok': "store_ok df_classes s'"
    and ids: "ds_get_keys df_classes (ports_query ch) (Some chassis_index) s = Inr ids" "i \<in> set ids"
  shows "\<exists>ids'. ds_get_keys df_classes (ports_query ch) (Some chassis_index) s' = Inr ids' \<and> length ids' \<noteq> length ids"
proof -
  note inv = ds_invD(1) [OF store_okD(1) [OF ok]] and inv' = ds_invD(1) [OF store_okD(1) [OF ok']]
  let ?mc = "ds_get_cache df_classes ''LogicalPort'' s"
  let ?s1 = "s\<lparr>ds_obj_to_embedded := AList.delete (''LogicalPort'', i) (ds_obj_to_embedded s)\<rparr>"
  have cl: "obj_class v = ''LogicalPort''" "obj_id v = Inr i"
    using store_okD(2) [OF ok v] stored_key(1) [OF ok v] by simp_all
  have "ds_delete df_classes v s = on_cache df_classes ''LogicalPort'' (mc_delete v) ?s1"
    using emb by (simp add: ds_delete_def ds_obj_key_def cl emb_of_def)
  moreover have "ds_get_cache df_classes ''LogicalPort'' ?s1 = ?mc" by (simp add: ds_get_cache_def)
  moreover have "map_of (mc_objs ?mc) i \<noteq> None" using v by (simp add: get_cache_objs)
  from mc_delete_correct [OF get_cache_inv(1) [OF inv] cl(2) this] obtain mc where
    mc: "mc_delete v ?mc = (None, mc)" "\<And>ix ic. map_of (mc_indexes ?mc) ix = Some ic \<Longrightarrow>
       \<exists>ic'. map_of (mc_indexes mc) ix = Some ic' \<and> ic_keys ic' = AList.delete i (ic_keys ic)"
    by blast
  ultimately have mc': "ds_get_cache df_classes ''LogicalPort'' s' = mc"
    using del by (auto simp: on_cache_def ds_get_cache_def)
  obtain ic :: index_cache where ic: "map_of (mc_indexes ?mc) chassis_index = Some ic"
      "ds_get_keys df_classes (ports_query ch) (Some chassis_index) s = Inr (rt_at [Some (PStr ch)] (ic_tree ic))"
      "distinct (rt_at [Some (PStr ch)] (ic_tree ic))"
      "set (rt_at [Some (PStr ch)] (ic_tree ic)) =
        {i. \<exists>ks. map_of (ic_keys ic) i = Some ks \<and> [Some (PStr ch)] \<in> set ks}"
    using chassis_port_ids [OF inv, of ch] by blast
  obtain ic' :: index_cache where ic': "map_of (mc_indexes mc) chassis_index = Some ic'"
      "ds_get_keys df_classes (ports_query ch) (Some chassis_index) s' = Inr (rt_at [Some (PStr ch)] (ic_tree ic'))"
      "distinct (rt_at [Some (PStr ch)] (ic_tree ic'))"
      "set (rt_at [Some (PStr ch)] (ic_tree ic')) =
        {i. \<exists>ks. map_of (ic_keys ic') i = Some ks \<and> [Some (PStr ch)] \<in> set ks}"
    using chassis_port_ids [OF inv', of ch] unfolding mc' by blast
  have "ic_keys ic' = AList.delete i (ic_keys ic)" using mc(2) [OF ic(1)] ic'(1) by simp
  then have "set (rt_at [Some (PStr ch)] (ic_tree ic')) = set (rt_at [Some (PStr ch)] (ic_tree ic)) - {i}"
    unfolding ic(4) ic'(4) by auto
  moreover have "ids = rt_at [Some (PStr ch)] (ic_tree ic)" using ids(1) ic(2) by simp
  moreover have "card (set ids - {i}) < card (set ids)" using ids(2) by (intro card_Diff1_less) auto
  ultimately have "length (rt_at [Some (PStr ch)] (ic_tree ic')) \<noteq> length ids"
    using distinct_card [OF ic(3)] distinct_card [OF ic'(3)] by simp
  with ic'(2) show ?thesis by blast
qed

text \<open>
  A chassis with a port cannot be deleted. When the store holds a port bound to the chassis,
  deleting the chassis deletes the first such port, then raises RuntimeError because the set the
  loop runs over has changed, and the chassis stays in the store.
\<close>

theorem controller_chassis_delete_raises:
  assumes "ce_ct env = df_classes" "store_ok df_classes (c_db c)"
    and "ds_get_keys df_classes (ports_query ch) (Some chassis_index) (c_db c) = Inr (i # rest)"
    and "emb_of (c_db c) (''LogicalPort'', i) = []"
  shows "\<exists>c'. delete_chassis env (PObj ''Chassis'' ((''id'', PStr ch) # fs)) c = (Some RuntimeError, c') \<and>
    ds_deref (c_db c') ''LogicalPort'' i = None \<and>
    ds_deref (c_db c') ''Chassis'' = ds_deref (c_db c) ''Chassis''"
proof -
  note inv = ds_invD(1) [OF store_okD(1) [OF assms(2)]]
  from chassis_port_ids [OF inv, of ch] obtain ic :: index_cache where ic:
      "ds_get_keys df_classes (ports_query ch) (Some chassis_index) (c_db c) = Inr (rt_at [Some (PStr ch)] (ic_tree ic))"
      "set (rt_at [Some (PStr ch)] (ic_tree ic)) =
        {i. \<exists>ks. map_of (ic_keys ic) i = Some ks \<and> [Some (PStr ch)] \<in> set ks}"
      "dom (map_of (ic_keys ic)) = {i. ds_deref (c_db c) ''LogicalPort'' i \<noteq> None}"
    by blast
  have "rt_at [Some (PStr ch)] (ic_tree ic) = i # rest" using ic(1) assms(3) by simp
  then have "i \<in> set (rt_at [Some (PStr ch)] (ic_tree ic))" by simp
  then have "i \<in> dom (map_of (ic_keys ic))" unfolding ic(2) by blast
  then have "ds_deref (c_db c) ''LogicalPort'' i \<noteq> None" unfolding ic(3) by blast
  then obtain v where v: "ds_deref (c_db c) ''LogicalPort'' i = Some v" by blast
  have cl: "obj_class v = ''LogicalPort''" "obj_id v = Inr i"
    using store_okD(2) [OF assms(2) v] stored_key(1) [OF assms(2) v] by simp_all
  from store_ok_delete [OF assms(2) _ v] obtain s where
    s: "ds_delete df_classes v (c_db c) = (None, s)" "store_ok df_classes s" "ds_deref s ''LogicalPort'' i = None"
      "\<And>m' j. class_is_first_class df_classes m' \<Longrightarrow>
         ds_deref s m' j = (if (m', j) = (''LogicalPort'', i) then None else ds_deref (c_db c) m' j)"
    by auto
  from delete_stored_object [of env c "''LogicalPort''" i v v] assms(1,2) v cl s(1) obtain c1 where
    c1: "delete_model_object env v c = (None, c1)" "c_db c1 = s" by auto
  from port_delete_index [OF assms(2) v assms(4) s(1,2) assms(3)] obtain ids' where
    ids': "ds_get_keys df_classes (ports_query ch) (Some chassis_index) s = Inr ids'" "length ids' \<noteq> length (i # rest)"
    by auto
  have "mc_get_by_id i (ds_get_cache df_classes ''LogicalPort'' (c_db c)) = Inr v"
    using v by (simp add: mc_get_by_id_def get_cache_objs)
  with c1 ids' assms(1,3) have "for_ports_by_chassis env ch (delete_model_object env) c = (Some RuntimeError, c1)"
    by (simp add: for_ports_by_chassis_def)
  then have "delete_chassis env (PObj ''Chassis'' ((''id'', PStr ch) # fs)) c = (Some RuntimeError, c1)"
    by (simp add: delete_chassis_def obj_id_def)
  with c1(2) s(3,4) show ?thesis by (auto simp: fun_eq_iff)
qed


lemma same_port_not_newer:
  assumes "ce_ct env = df_classes" "obj_class v = ''LogicalPort''"
    and "py_getattr df_classes (ds_deref s) v ''version'' = Inr (PInt x)"
  shows "is_newer env s v (Some v) = Inr False"
  using assms by (simp add: is_newer_def class_mixins_def class_decl_defs)


lemma for_ports_idle:
  assumes "\<forall>i\<in>set ids. \<exists>v. mc_get_by_id i (ds_get_cache (ce_ct env) ''LogicalPort'' (c_db c)) = Inr v \<and> body v c = (None, c)"
    and "ds_get_keys (ce_ct env) (ports_query ch) (Some chassis_index) (c_db c) = Inr live" "length live = n"
  shows "for_ports env ch body n ids c = (None, c)"
  using assms(1)
proof (induction ids)
  case (Cons i ids)
  then show ?case using assms(2,3) by auto
qed simp

text \<open>
  Updating a chassis does not reach its ports. The loop over the ports of the chassis sends
  each stored port again, but a port is never newer than itself: when the ports have versions, an
  update of a chassis stores the chassis and changes nothing else, and no handler runs.
\<close>

theorem controller_chassis_update_silent:
  assumes "ce_ct env = df_classes" "store_ok df_classes (c_db c)"
    and "wf_object df_classes ch" "obj_class ch = ''Chassis''"
    and "ds_update df_classes ch (c_db c) = (None, s)"
    and "\<forall>i v. ds_deref (c_db c) ''LogicalPort'' i = Some v \<longrightarrow>
      (\<exists>x. py_getattr df_classes (ds_deref s) v ''version'' = Inr (PInt x))"
  shows "ctl_update env ch c = (None, c\<lparr>c_db := s\<rparr>)"
proof -
  let ?c = "c\<lparr>c_db := s\<rparr>"
  note inv = ds_invD(1) [OF store_okD(1) [OF assms(2)]]
  note ix = ds_update_indexable [OF inv assms(5)] and key = wf_object_key [OF assms(3)]
  from store_ok_update [OF assms(2,3) ix] assms(4,5) have s: "store_ok df_classes s"
    "\<And>m j. class_is_first_class df_classes m \<Longrightarrow> m \<noteq> ''Chassis'' \<Longrightarrow> ds_deref s m j = ds_deref (c_db c) m j"
    by auto
  have ports: "ds_deref s ''LogicalPort'' = ds_deref (c_db c) ''LogicalPort''" using s(2) by auto
  have idle: "update_model_object env v ?c = (None, ?c)" if v: "ds_deref s ''LogicalPort'' i = Some v" for i v
  proof (rule update_not_newer [OF stored_key(1) [OF s(1) v]])
    from assms(6) v ports obtain x where "py_getattr df_classes (ds_deref s) v ''version'' = Inr (PInt x)" by auto
    from same_port_not_newer [OF assms(1) store_okD(2) [OF s(1) v] this]
    show "is_newer env (c_db ?c) v (ds_deref (c_db ?c) (obj_class v) i) = Inr False"
      using v store_okD(2) [OF s(1) v] by simp
  qed
  from chassis_port_ids [OF ds_invD(1) [OF store_okD(1) [OF s(1)]], of "key_of ch"] obtain ic :: index_cache where
    ic: "ds_get_keys df_classes (ports_query (key_of ch)) (Some chassis_index) s =
        Inr (rt_at [Some (PStr (key_of ch))] (ic_tree ic))"
      "set (rt_at [Some (PStr (key_of ch))] (ic_tree ic)) =
        {i. \<exists>ks. map_of (ic_keys ic) i = Some ks \<and> [Some (PStr (key_of ch))] \<in> set ks}"
      "dom (map_of (ic_keys ic)) = {i. ds_deref s ''LogicalPort'' i \<noteq> None}"
    by blast
  have "\<exists>v. mc_get_by_id i (ds_get_cache df_classes ''LogicalPort'' s) = Inr v \<and> update_model_object env v ?c = (None, ?c)"
    if "i \<in> set (rt_at [Some (PStr (key_of ch))] (ic_tree ic))" for i
  proof -
    from that have "i \<in> dom (map_of (ic_keys ic))" unfolding ic(2) by blast
    then obtain v where v: "ds_deref s ''LogicalPort'' i = Some v" unfolding ic(3) by blast
    then show ?thesis using idle [OF v] by (simp add: mc_get_by_id_def get_cache_objs)
  qed
  then have "for_ports_by_chassis env (key_of ch) (update_model_object env) ?c = (None, ?c)"
    using for_ports_idle [of _ env ?c "update_model_object env" "key_of ch"] ic(1) assms(1)
    by (simp add: for_ports_by_chassis_def)
  then have "update_chassis env ch c = (None, ?c)"
    using assms(1,5) key by (simp add: update_chassis_def on_db_def)
  then show ?thesis using assms(1,4) by (simp add: ctl_update_def table_name_def class_decl_defs)
qed

section \<open>References\<close>

lemma ref_fuel_steps:
  assumes "is_submodel (ce_ct env) obj"
  shows "\<exists>k. ref_fuel env s obj = Suc (Suc (Suc k))"
proof -
  have "obj \<in> set (ref_universe env s obj)" using nested_self [OF assms] by (simp add: ref_universe_def)
  then have "length (ref_universe env s obj) \<noteq> 0" by auto
  then show ?thesis by (cases "length (ref_universe env s obj)") (simp_all add: ref_fuel_def)
qed

definition migration_of :: "string \<Rightarrow> string \<Rightarrow> pyval" where
  "migration_of i status = PObj ''Migration''
     [(''id'', PStr i), (''lport'', PRef ''LogicalPort'' i), (''status'', PStr status)]"

text \<open>
  The port of a migration is not loaded. A migration object has the id of the port it is
  about, and references are looked up once per id, whatever their model: loading the references
  of a migration returns none, also when neither the store nor the database holds its port.
\<close>

theorem controller_migration_port_skipped:
  "get_model_references_deep (env\<lparr>ce_ct := df_classes\<rparr>) s (migration_of i status) = Inr []"
proof -
  let ?env = "env\<lparr>ce_ct := df_classes\<rparr>"
  have sub: "is_submodel (ce_ct ?env) (migration_of i status)"
    by (simp add: migration_of_def is_submodel_def is_model_instance_def class_decl_defs)
  then obtain k where k: "ref_fuel ?env s (migration_of i status) = Suc (Suc (Suc k))"
    using ref_fuel_steps by blast
  have "iter_submodels df_classes (migration_of i status) = [PRef ''LogicalPort'' i]"
    by (simp add: migration_of_def iter_submodels_def is_submodel_def is_model_instance_def)
  moreover have "obj_id (migration_of i status) = Inr i" "resolve ?env s (migration_of i status) = Inr (migration_of i status)"
    by (simp_all add: migration_of_def obj_id_def resolve_def)
  moreover have "(case migration_of i status of PRef m j \<Rightarrow> x | _ \<Rightarrow> y) = y" for x y :: "pyval list"
    by (simp add: migration_of_def)
  ultimately show ?thesis
    by (simp add: get_model_references_deep_def k obj_id_def [of "PRef _ _"])
qed

definition switch_with_policy :: "string \<Rightarrow> string \<Rightarrow> pyval" where
  "switch_with_policy l q = PObj ''LogicalSwitch''
     [(''id'', PStr l), (''topic'', PStr ''t''), (''unique_key'', PInt 1), (''qos_policy'', PRef ''QosPolicy'' q)]"

definition plain_policy :: "string \<Rightarrow> pyval" where
  "plain_policy q = PObj ''QosPolicy'' [(''id'', PStr q), (''topic'', PStr ''t'')]"

definition port_on_switch :: "string \<Rightarrow> string \<Rightarrow> string \<Rightarrow> pyval" where
  "port_on_switch p l q = PObj ''LogicalPort''
     [(''id'', PStr p), (''topic'', PStr ''t''), (''unique_key'', PInt 1),
      (''lswitch'', PRef ''LogicalSwitch'' l), (''qos_policy'', PRef ''QosPolicy'' q)]"

text \<open>
  A reference can be sent before the object it depends on. A port references a switch and a
  policy, and the switch references the same policy: the stack takes the policy up first, so the
  reversed list - the order of the updates - sends the switch before the policy it needs.
\<close>

theorem controller_reference_order:
  assumes "p \<noteq> l" "p \<noteq> q" "l \<noteq> q"
    and "env' = env\<lparr>ce_ct := df_classes,
      ce_nb := [((''LogicalSwitch'', l), switch_with_policy l q), ((''QosPolicy'', q), plain_policy q)]\<rparr>"
  shows "get_model_references_deep env' empty_store (port_on_switch p l q) =
      Inr [plain_policy q, switch_with_policy l q]"
proof -
  have "length (ref_universe env' empty_store (port_on_switch p l q)) \<ge> 5"
    by (simp add: ref_universe_def port_on_switch_def)
  then obtain n where "length (ref_universe env' empty_store (port_on_switch p l q)) = 5 + n"
    using le_Suc_ex by blast
  then have "ref_fuel env' empty_store (port_on_switch p l q) =
      Suc (Suc (Suc (Suc (Suc (Suc (Suc (25 + 11 * n + n * n)))))))"
    by (simp add: ref_fuel_def Let_def algebra_simps)
  then obtain r where k: "ref_fuel env' empty_store (port_on_switch p l q) =
      Suc (Suc (Suc (Suc (Suc (Suc (Suc r))))))" by blast
  have subs: "iter_submodels df_classes (port_on_switch p l q) = [PRef ''LogicalSwitch'' l, PRef ''QosPolicy'' q]"
    "iter_submodels df_classes (switch_with_policy l q) = [PRef ''QosPolicy'' q]"
    "iter_submodels df_classes (plain_policy q) = []"
    by (simp_all add: port_on_switch_def switch_with_policy_def plain_policy_def iter_submodels_def
        is_submodel_def is_model_instance_def)
  have "dereference env' empty_store ''QosPolicy'' q = Inr (plain_policy q)"
    "dereference env' empty_store ''LogicalSwitch'' l = Inr (switch_with_policy l q)"
    using assms by (simp_all add: dereference_def nb_get_def ds_deref_def empty_store_def)
  then have res: "resolve env' empty_store (PRef ''QosPolicy'' q) = Inr (plain_policy q)"
    "resolve env' empty_store (PRef ''LogicalSwitch'' l) = Inr (switch_with_policy l q)"
    "resolve env' empty_store (port_on_switch p l q) = Inr (port_on_switch p l q)"
    by (simp_all add: resolve_def port_on_switch_def)
  have ids: "obj_id (port_on_switch p l q) = Inr p" "\<And>m i. obj_id (PRef m i) = Inr i"
    "\<And>x y :: pyval list. (case port_on_switch p l q of PRef m j \<Rightarrow> x | _ \<Rightarrow> y) = y" "ce_ct env' = df_classes"
    using assms(4) by (simp_all add: port_on_switch_def obj_id_def)
  show ?thesis using assms(1-3)
    by (simp add: get_model_references_deep_def k subs res ids)
qed


section \<open>Witnesses\<close>

text \<open>
  A controller with one application that records the events it sees, an empty store, and a
  database with the bound port.
\<close>

definition example_ctl_env :: "string list ctl_env" where
  "example_ctl_env =
     \<lparr>ce_ct = df_classes, ce_registry = empty_registry, ce_chassis_name = ''here'', ce_ip = PNone,
      ce_tunnel_types = PList [], ce_external_host_ip = None, ce_selective = False,
      ce_nb = [((''LogicalPort'', ''p''), bound_port)], ce_model_eq = (=),
      ce_handlers = (\<lambda>c event. [\<lambda>s obj orig a. (None, a @ [event])])\<rparr>"

definition example_ctl :: "db_store \<Rightarrow> string list controller" where
  "example_ctl s =
     \<lparr>c_db = s, c_pending = [], c_sync = sync_init False, c_topic_subscribed = [],
      c_ovs_to_lport_mapping = [], c_locations = [], c_effects = [], c_apps = []\<rparr>"

lemma example_ctl_simps [simp]:
  "ce_ct example_ctl_env = df_classes" "ce_nb example_ctl_env = [((''LogicalPort'', ''p''), bound_port)]"
  "ce_handlers example_ctl_env c event = [\<lambda>s obj orig a. (None, a @ [event])]"
  "c_db (example_ctl s) = s" "c_apps (example_ctl s) = []" "c_pending (example_ctl s) = []"
  by (simp_all add: example_ctl_env_def example_ctl_def)

lemma deref_empty [simp]: "ds_deref empty_store m i = None"
  by (simp add: ds_deref_def empty_store_def)

lemma bound_port_events: "has_basic_events df_classes bound_port"
  by (simp add: has_basic_events_def class_mixins_def class_decl_defs)

lemma bound_port_new: "is_newer env s bound_port None = Inr True"
  by (simp add: is_newer_def)


lemma bound_port_sent:
  "\<exists>c'. ctl_update example_ctl_env bound_port (example_ctl empty_store) = (None, c')"
proof -
  from store_ok_update [OF store_ok_empty bound_port_wf] obtain s where
    s: "ds_update df_classes bound_port empty_store = (None, s)" by blast
  from update_newer [of bound_port "''p''" example_ctl_env "example_ctl empty_store" s] s
  show ?thesis by (simp add: general_handlers bound_port_new)
qed

lemma bound_port_nb: "nb_wf example_ctl_env m"
  by (simp add: nb_wf_def bound_port_wf)


lemma bound_port_references:
  "get_model_references_deep example_ctl_env s bound_port = Inr []"
proof -
  have sub: "is_submodel (ce_ct example_ctl_env) bound_port"
    by (simp add: bound_port_def is_submodel_def is_model_instance_def class_decl_defs)
  then obtain k where k: "ref_fuel example_ctl_env s bound_port = Suc (Suc (Suc k))"
    using ref_fuel_steps by blast
  have "iter_submodels df_classes bound_port = []"
    by (simp add: bound_port_def iter_submodels_def is_submodel_def is_model_instance_def class_decl_defs)
  moreover have "resolve example_ctl_env s bound_port = Inr bound_port"
    "\<And>x y :: pyval list. (case bound_port of PRef m j \<Rightarrow> x | _ \<Rightarrow> y) = y"
    by (simp_all add: bound_port_def resolve_def)
  ultimately show ?thesis by (simp add: get_model_references_deep_def k)
qed


definition switch_ctl_env :: "string list ctl_env" where
  "switch_ctl_env = example_ctl_env\<lparr>ce_nb := [((''LogicalSwitch'', ''l''), switch_with_policy ''l'' ''q'')]\<rparr>"

lemma switch_leads_to:
  assumes "leads_to switch_ctl_env empty_store (unresolved_port ''p'' ''t'' ''l'') x"
  shows "x \<in> {unresolved_port ''p'' ''t'' ''l'', PRef ''LogicalSwitch'' ''l'', PRef ''QosPolicy'' ''q''}"
  using assms
proof (induction rule: leads_to.induct)
  case (further x v y)
  have subs: "iter_submodels df_classes (unresolved_port ''p'' ''t'' ''l'') = [PRef ''LogicalSwitch'' ''l'']"
    "iter_submodels df_classes (switch_with_policy ''l'' ''q'') = [PRef ''QosPolicy'' ''q'']"
    by (simp_all add: unresolved_port_def switch_with_policy_def iter_submodels_def is_submodel_def is_model_instance_def)
  have "resolve switch_ctl_env empty_store (unresolved_port ''p'' ''t'' ''l'') = Inr (unresolved_port ''p'' ''t'' ''l'')"
    "resolve switch_ctl_env empty_store (PRef ''LogicalSwitch'' ''l'') = Inr (switch_with_policy ''l'' ''q'')"
    "resolve switch_ctl_env empty_store (PRef ''QosPolicy'' ''q'') = Inl (ReferencedObjectNotFound ''QosPolicy'' ''q'')"
    by (simp_all add: resolve_def unresolved_port_def dereference_def nb_get_def switch_ctl_env_def)
  with further subs show ?case by (auto simp: switch_ctl_env_def)
qed simp


theorem controller_reference_order_witness:
  "get_model_references_deep (example_ctl_env\<lparr>ce_ct := df_classes,
      ce_nb := [((''LogicalSwitch'', ''l''), switch_with_policy ''l'' ''q''), ((''QosPolicy'', ''q''), plain_policy ''q'')]\<rparr>)
     empty_store (port_on_switch ''p'' ''l'' ''q'') = Inr [plain_policy ''q'', switch_with_policy ''l'' ''q'']"
  using controller_reference_order [of "''p''" "''l''" "''q''" _ example_ctl_env, OF _ _ _ refl] by simp


text \<open>The store with the bound port.\<close>

lemma bound_store:
  "\<exists>s. ds_update df_classes bound_port empty_store = (None, s) \<and> store_ok df_classes s \<and>
     emb_of s (''LogicalPort'', ''p'') = [] \<and>
     (\<forall>i v. ds_deref s ''LogicalPort'' i = Some v \<longrightarrow> v = bound_port) \<and>
     ds_get_keys df_classes (ports_query ''ch'') (Some chassis_index) s = Inr [''p'']"
proof -
  have cache: "ds_get_cache df_classes ''LogicalPort'' empty_store = new_model_cache df_classes ''LogicalPort''"
    by (simp add: ds_get_cache_def empty_store_def)
  obtain mc where mc: "mc_update df_classes (ds_deref empty_store) bound_port (new_model_cache df_classes ''LogicalPort'') = (None, mc)"
      "map_of (mc_indexes mc) [''binding.chassis.id''] =
         Some \<lparr>ic_index = [''binding.chassis.id''], ic_tree = Node 0 [(Some (PStr ''ch''), Leaf [''p''])],
           ic_keys = [(''p'', [[Some (PStr ''ch'')]])]\<rparr>"
    by (simp add: mc_update_def port_caches new_index_cache_def ic_update_def bound_port_keys
        set_diff_def Let_def rt_child_def set_add_def)
  have emb: "embedded_instances df_classes bound_port = []"
    by (simp add: embedded_instances_def bound_port_def class_fields_def class_decl_defs
        embedded_values_def is_model_instance_def)
  from store_ok_update [OF store_ok_empty bound_port_wf] obtain s where
    s: "ds_update df_classes bound_port empty_store = (None, s)" "store_ok df_classes s"
      "\<And>m j. class_is_first_class df_classes m \<Longrightarrow> (m, j) \<noteq> (''LogicalPort'', ''p'') \<Longrightarrow> ds_deref s m j = None"
      "ds_deref s ''LogicalPort'' ''p'' = Some bound_port"
    by auto
  have "s = \<lparr>ds_cache = [(''LogicalPort'', mc)], ds_obj_to_embedded = [((''LogicalPort'', ''p''), [])], ds_embedded_refs = []\<rparr>"
    using s(1) by (subst (asm) ds_update.simps)
      (simp add: on_cache_def cache mc(1) emb ds_obj_key_def set_diff_def, simp add: empty_store_def)
  then have "emb_of s (''LogicalPort'', ''p'') = []" "ds_get_cache df_classes ''LogicalPort'' s = mc"
    by (simp_all add: emb_of_def ds_get_cache_def)
  moreover from this(2) have "ds_get_keys df_classes (ports_query ''ch'') (Some chassis_index) s = Inr [''p'']"
    using ports_query_keys [of "ds_deref s" "''ch''"] mc(2)
    by (simp add: ds_get_keys_def mc_get_keys_def chassis_index_def ports_query_def ic_get_all_def
        rt_get_all_def rt_round_def rt_chain_def)
  moreover have "v = bound_port" if "ds_deref s ''LogicalPort'' i = Some v" for i v
    using that s(3) [of "''LogicalPort''" i] s(4) by (cases "i = ''p''") simp_all
  ultimately show ?thesis using s(1,2) by blast
qed

theorem controller_chassis_delete_raises_witness:
  "\<exists>s c'. ds_update df_classes bound_port empty_store = (None, s) \<and>
     delete_chassis example_ctl_env (PObj ''Chassis'' [(''id'', PStr ''ch'')]) (example_ctl s) = (Some RuntimeError, c') \<and>
     ds_deref (c_db c') ''LogicalPort'' ''p'' = None"
proof -
  from bound_store obtain s where s: "ds_update df_classes bound_port empty_store = (None, s)" "store_ok df_classes s"
      "emb_of s (''LogicalPort'', ''p'') = []"
      "ds_get_keys df_classes (ports_query ''ch'') (Some chassis_index) s = Inr [''p'']" by blast
  from controller_chassis_delete_raises [of example_ctl_env "example_ctl s" "''ch''" "''p''" "[]" "[]"] s
  show ?thesis by auto
qed

definition example_chassis :: pyval where
  "example_chassis = PObj ''Chassis'' [(''id'', PStr ''ch''), (''ip'', PStr ''10.0.0.1''), (''tunnel_types'', PList [])]"

theorem controller_chassis_update_silent_witness:
  "\<exists>s s'. ds_update df_classes bound_port empty_store = (None, s) \<and>
     ctl_update example_ctl_env example_chassis (example_ctl s) = (None, (example_ctl s)\<lparr>c_db := s'\<rparr>) \<and>
     ds_deref s' ''Chassis'' ''ch'' = Some example_chassis"
proof -
  from bound_store obtain s where s: "ds_update df_classes bound_port empty_store = (None, s)" "store_ok df_classes s"
      "\<And>i v. ds_deref s ''LogicalPort'' i = Some v \<Longrightarrow> v = bound_port" by blast
  have ch: "obj_class example_chassis = ''Chassis''" "obj_id example_chassis = Inr ''ch''" "key_of example_chassis = ''ch''"
    by (simp_all add: example_chassis_def obj_id_def key_of_def)
  have emb: "embedded_instances df_classes example_chassis = []"
    by (simp add: embedded_instances_def example_chassis_def class_fields_def class_decl_defs
        embedded_values_def is_model_instance_def)
  have wf: "wf_object df_classes example_chassis" "indexable df_classes (ds_deref s) example_chassis"
    by (simp_all add: wf_object_def ch emb subobjects_def topic_model_def class_decl_defs indexable_def
        new_model_cache_def get_indexes_def id_index_def) (simp add: example_chassis_def)
  from store_ok_update [OF s(2) wf] obtain s' where
    s': "ds_update df_classes example_chassis s = (None, s')" "ds_deref s' ''Chassis'' ''ch'' = Some example_chassis"
    by (auto simp: ch)
  have "py_getattr df_classes d bound_port ''version'' = Inr (PInt 1)" for d
    by (simp add: bound_port_def py_getattr_def read_field_def class_fields_def class_decl_defs)
  then have "\<forall>i v. ds_deref (c_db (example_ctl s)) ''LogicalPort'' i = Some v \<longrightarrow>
      (\<exists>x. py_getattr df_classes (ds_deref s') v ''version'' = Inr (PInt x))"
    unfolding example_ctl_simps using s(3) by blast
  from controller_chassis_update_silent [OF _ _ wf(1) ch(1) _ this] s(1,2) s' show ?thesis by auto
qed

end
