(* ===== verification/Topology_Cases.thy ===== *)
theory Topology_Cases
  imports Topology Controller_Cases
begin

text \<open>
  Switch ports of migrating logical ports, and the topology at concrete inputs: a controller on
  chassis \<open>here\<close> with one switch port, whose logical port the northbound database holds.
\<close>

section \<open>A port that goes away\<close>

declare map_of_eq_Some_iff [simp del] Some_eq_map_of_iff [simp del]

lemma del_snd_subs:
  assumes "ce_selective env" "t \<noteq> []"
  shows "l \<notin> subs_of (snd (del_from_topic_subscribed env t l c)) t"
proof (cases "map_of (c_topic_subscribed c) t")
  case None
  with assms show ?thesis by (simp add: del_from_topic_subscribed_def subs_of_def)
next
  case (Some ids)
  let ?c = "c\<lparr>c_topic_subscribed := AList.delete t (c_topic_subscribed c)\<rparr>"
  have "c_topic_subscribed (snd (unregister_topic env t ?c)) = AList.delete t (c_topic_subscribed c)"
    using unregister_topic_books [of env t ?c] by (simp add: c_books_def)
  with Some assms show ?thesis
    by (auto simp: del_from_topic_subscribed_def subs_of_def delete_update Let_def)
qed

lemma forget_switch_port_effect:
  "map_of (c_ovs_to_lport_mapping (snd (forget_switch_port env key t l c))) key = None"
  "ce_selective env \<Longrightarrow> t \<noteq> [] \<Longrightarrow> map_of (c_ovs_to_lport_mapping c) key \<noteq> None \<Longrightarrow>
     l \<notin> subs_of (snd (forget_switch_port env key t l c)) t"
proof -
  let ?c = "c\<lparr>c_ovs_to_lport_mapping := AList.delete key (c_ovs_to_lport_mapping c)\<rparr>"
  have "mapped (AList.delete key (c_ovs_to_lport_mapping c)) (snd (del_from_topic_subscribed env t l ?c))"
    by (rule mapped_del) (simp add: mapped_def)
  then show "map_of (c_ovs_to_lport_mapping (snd (forget_switch_port env key t l c))) key = None"
    by (simp add: forget_switch_port_def mapped_def)
  show "l \<notin> subs_of (snd (forget_switch_port env key t l c)) t"
    if "ce_selective env" "t \<noteq> []" "map_of (c_ovs_to_lport_mapping c) key \<noteq> None"
    using that del_snd_subs [of env t l ?c] by (auto simp: forget_switch_port_def)
qed

text \<open>
  When a compute switch port goes away whose logical port is stored, the mapping forgets the
  switch port and the logical port no longer holds its topic - unless the northbound database has
  a migration object for the port: then the handler reads a field that migrations do not have,
  the exception is logged, and the mapping, the subscription and the migration stay as they were.
\<close>

theorem topology_port_deleted:
  assumes "ce_ct env = df_classes" "obj_id p = Inr key"
    and "c_attr env c p ''type'' = Inr (PStr ''compute'')"
    and "c_attr env c p ''lport'' = Inr (PRef ''LogicalPort'' i)"
    and "ds_deref (c_db c) ''LogicalPort'' i = Some lport" "c_attr env c lport ''topic'' = Inr (PStr t)"
    and "\<forall>m. nb_get env ''Migration'' i = Some m \<longrightarrow> (\<exists>fs. m = PObj ''Migration'' fs)"
  shows "\<exists>c'. switch_port_deleted env p c = (None, c') \<and>
    (case nb_get env ''Migration'' i of
       None \<Rightarrow> map_of (c_ovs_to_lport_mapping c') key = None \<and>
         (ce_selective env \<and> t \<noteq> [] \<and> map_of (c_ovs_to_lport_mapping c) key \<noteq> None \<longrightarrow> i \<notin> subs_of c' t)
     | Some m \<Rightarrow> c_books c' = c_books c \<and>
         c_effects c' = c_effects (snd (ctl_delete env lport c)) @ [NotifyPortStatus p ''DOWN''])"
proof -
  let ?d = "effect (NotifyPortStatus p ''DOWN'') (snd (ctl_delete env lport c))"
  let ?migrate = "case nb_get env ''Migration'' i of
      None \<Rightarrow> (None, ?d)
    | Some migration_obj \<Rightarrow>
        with_value (c_attr env ?d migration_obj ''chassis'') (\<lambda>chassis c.
          if py_true chassis then
            (None, effect (NbUpdate
               (case migration_obj of
                  PObj cl fs \<Rightarrow> PObj cl (set_field ''status'' (PStr ''src_unplug'')
                    (set_field ''lport'' (PRef ''LogicalPort'' i) fs))
                | v \<Rightarrow> v)) c)
          else (None, c)) ?d"
  have run: "switch_port_deleted env p c = (None, snd (and_then ?migrate (forget_switch_port env key t i)))"
    using assms by (simp add: switch_port_deleted_def switch_port_types_def handle_switch_port_deleted_def
        by_port_type_def as_str_def compute_port_deleted_def logged_def notify_port_status_def)
  have "has_books (c_books c) (snd (ctl_delete env lport c))"
    by (rule ctl_delete_books) (simp add: has_books_def)
  then have books: "c_books ?d = c_books c" by (simp add: has_books_def c_books_def effect_def)
  then have mapping: "c_ovs_to_lport_mapping ?d = c_ovs_to_lport_mapping c" by (simp add: c_books_def)
  show ?thesis
  proof (cases "nb_get env ''Migration'' i")
    case None
    then show ?thesis using run mapping forget_switch_port_effect(1) [of env key t i ?d]
        forget_switch_port_effect(2) [of env t ?d key i] by simp
  next
    case (Some m)
    have "c_attr env ?d (PObj ''Migration'' fs) ''chassis'' = Inl AttributeError" for fs
      using assms(1) by (simp add: c_attr_def py_getattr_def read_field_def class_fields_def class_decl_defs)
    moreover from assms(7) Some obtain fs where "m = PObj ''Migration'' fs" by blast
    ultimately have "switch_port_deleted env p c = (None, ?d)" using run Some by simp
    then show ?thesis using Some books by (simp add: effect_def)
  qed
qed

section \<open>Witnesses\<close>

definition plugged :: pyval where
  "plugged = PObj ''SwitchPort''
     [(''id'', PStr ''sp''), (''type'', PStr ''compute''), (''lport'', PRef ''LogicalPort'' ''p'')]"

lemma plugged_class [simp]: "obj_class plugged = ''SwitchPort''" "obj_id plugged = Inr ''sp''" "key_of plugged = ''sp''"
  by (simp_all add: plugged_def obj_id_def key_of_def)

lemma switch_port_first_class [simp]: "class_is_first_class df_classes ''SwitchPort''"
  by (simp add: class_is_first_class_def is_first_class_def class_decl_defs)

lemma plugged_wf: "wf_object df_classes plugged" "indexable df_classes deref plugged"
proof -
  have "embedded_instances df_classes plugged = []"
    by (simp add: embedded_instances_def plugged_def class_fields_def class_decl_defs
        embedded_values_def is_model_instance_def)
  moreover have "\<not> topic_model df_classes ''SwitchPort''" by (simp add: topic_model_def class_decl_defs)
  moreover have "PRef m i \<in> set (nested plugged) \<Longrightarrow> class_is_first_class df_classes m" for m i
    by (simp add: plugged_def)
  ultimately show "wf_object df_classes plugged"
    unfolding wf_object_def by (auto simp: subobjects_def)
  show "indexable df_classes deref plugged"
    by (simp add: indexable_def new_model_cache_def get_indexes_def id_index_def class_decl_defs)
qed

lemma plugged_store:
  "\<exists>s. store_ok df_classes s \<and> ds_deref s ''SwitchPort'' = [''sp'' \<mapsto> plugged] \<and> ds_deref s ''LogicalPort'' = Map.empty"
proof -
  from store_ok_update [OF store_ok_empty plugged_wf] obtain s where
    "store_ok df_classes s" "ds_deref s ''SwitchPort'' ''sp'' = Some plugged"
    "\<And>m j. class_is_first_class df_classes m \<Longrightarrow> (m, j) \<noteq> (''SwitchPort'', ''sp'') \<Longrightarrow> ds_deref s m j = None"
    by auto
  then show ?thesis by (intro exI [of _ s]) (auto simp: fun_eq_iff)
qed

definition topo_env :: "string list ctl_env" where
  "topo_env = example_ctl_env\<lparr>ce_selective := True\<rparr>"

definition topo_ctl :: "db_store \<Rightarrow> string list controller" where
  "topo_ctl s = (example_ctl s)\<lparr>c_sync := sync_init True\<rparr>"

lemma topo_simps [simp]:
  "ce_ct topo_env = df_classes" "ce_selective topo_env" "ce_nb topo_env = [((''LogicalPort'', ''p''), bound_port)]"
  "c_db (topo_ctl s) = s" "c_topic_subscribed (topo_ctl s) = []" "c_ovs_to_lport_mapping (topo_ctl s) = []"
  "c_sync (topo_ctl s) = sync_init True"
  by (simp_all add: topo_env_def topo_ctl_def example_ctl_env_def example_ctl_def)

lemma plugged_attrs:
  "c_attr topo_env c plugged ''type'' = Inr (PStr ''compute'')"
  "c_attr topo_env c plugged ''lport'' = Inr (PRef ''LogicalPort'' ''p'')"
  "c_attr topo_env c bound_port ''topic'' = Inr (PStr ''t'')"
  by (simp_all add: c_attr_def plugged_def bound_port_def py_getattr_def read_field_def class_fields_def class_decl_defs)

lemma plugged_entry:
  assumes "ds_deref (c_db c) ''LogicalPort'' = Map.empty"
  shows "port_entry topo_env c plugged = Inr (Some (''sp'', (''p'', ''t'')))"
  using assms by (simp add: port_entry_def plugged_attrs get_lport_def nb_get_def py_true_def as_str_def)

lemma topic_registered:
  assumes "c_sync c = sync_init True"
  shows "register_topic topo_env ''t'' c =
    (None, (effect (RegisterTopic ''t'') c)\<lparr>c_sync := \<lparr>sy_topics = [''t''], sy_selective = True, sy_models = []\<rparr>\<rparr>)"
  using assms by (simp add: register_topic_def add_topic_def sync_all_def set_sync_def sync_init_def set_add_def)

lemma plugged_recheck:
  assumes "store_ok df_classes (c_db c)" "ds_deref (c_db c) ''SwitchPort'' = [''sp'' \<mapsto> plugged]"
    "ds_deref (c_db c) ''LogicalPort'' = Map.empty"
  shows "\<forall>k p. ds_deref (c_db c) ''SwitchPort'' k = Some p \<longrightarrow> \<not> isl (port_entry topo_env c p)"
    and "check_topology_info topo_env c =
      and_then
        (run_each (\<lambda>(key, l, t). add_to_topic_subscribed topo_env t l)
           (if map_of (c_ovs_to_lport_mapping c) ''sp'' = None then [(''sp'', (''p'', ''t''))] else [])
           (c\<lparr>c_ovs_to_lport_mapping := [(''sp'', (''p'', ''t''))]\<rparr>))
        (run_each (\<lambda>(key, l, t). del_from_topic_subscribed topo_env t l)
           (AList.delete ''sp'' (c_ovs_to_lport_mapping c)))"
proof -
  note entry = plugged_entry [OF assms(3)]
  show known: "\<forall>k p. ds_deref (c_db c) ''SwitchPort'' k = Some p \<longrightarrow> \<not> isl (port_entry topo_env c p)"
    using entry assms(2) by simp
  from assms(1) have ok: "store_ok (ce_ct topo_env) (c_db c)" by simp
  show "check_topology_info topo_env c =
      and_then
        (run_each (\<lambda>(key, l, t). add_to_topic_subscribed topo_env t l)
           (if map_of (c_ovs_to_lport_mapping c) ''sp'' = None then [(''sp'', (''p'', ''t''))] else [])
           (c\<lparr>c_ovs_to_lport_mapping := [(''sp'', (''p'', ''t''))]\<rparr>))
        (run_each (\<lambda>(key, l, t). del_from_topic_subscribed topo_env t l)
           (AList.delete ''sp'' (c_ovs_to_lport_mapping c)))"
  proof (rule check_topology_unfold [OF ok known])
    fix ps assume ps: "set ps = {p. \<exists>k. ds_deref (c_db c) ''SwitchPort'' k = Some p}" "distinct (map key_of ps)"
      and run: "check_topology_info topo_env c =
      and_then
        (run_each (\<lambda>(key, l, t). add_to_topic_subscribed topo_env t l)
           (filter (\<lambda>(k, v). map_of (c_ovs_to_lport_mapping c) k = None) (entries topo_env c ps))
           (c\<lparr>c_ovs_to_lport_mapping := entries topo_env c ps\<rparr>))
        (run_each (\<lambda>(key, l, t). del_from_topic_subscribed topo_env t l)
           (filter (\<lambda>(k, v). k \<notin> fst ` set (entries topo_env c ps)) (c_ovs_to_lport_mapping c)))"
    have "set ps = {plugged}" using ps(1) assms(2) by (auto split: if_splits)
    with ps(2) have "ps = [plugged]"
      by (metis distinct_card distinct_map card.empty card_insert_disjoint equals0D finite.emptyI length_0_conv
          length_Suc_conv list.set_intros(1) singletonD)
    then have "entries topo_env c ps = [(''sp'', (''p'', ''t''))]" using entry by simp
    with run show ?thesis by (simp add: delete_filter)
  qed
qed

lemma topo_start:
  obtains s where "store_ok df_classes s" "ds_deref s ''SwitchPort'' = [''sp'' \<mapsto> plugged]"
    "ds_deref s ''LogicalPort'' = Map.empty"
  using plugged_store by blast


definition moved_ctl :: "db_store \<Rightarrow> string list controller" where
  "moved_ctl s = (topo_ctl s)\<lparr>c_topic_subscribed := [(''t'', [''p''])],
     c_ovs_to_lport_mapping := [(''old'', (''p'', ''t''))],
     c_sync := \<lparr>sy_topics = [''t''], sy_selective = True, sy_models = []\<rparr>\<rparr>"

theorem topology_recheck_moved_port_witness:
  "\<exists>s c'. check_topology_info topo_env (moved_ctl s) = (None, c') \<and>
     map_of (c_ovs_to_lport_mapping c') ''sp'' = Some (''p'', ''t'') \<and> ''p'' \<notin> subs_of c' ''t''"
proof -
  obtain s where s: "store_ok df_classes s" "ds_deref s ''SwitchPort'' = [''sp'' \<mapsto> plugged]"
    "ds_deref s ''LogicalPort'' = Map.empty" by (rule topo_start)
  let ?c = "moved_ctl s"
  have c: "c_db ?c = s" "c_topic_subscribed ?c = [(''t'', [''p''])]"
    "c_ovs_to_lport_mapping ?c = [(''old'', (''p'', ''t''))]"
    "c_sync ?c = \<lparr>sy_topics = [''t''], sy_selective = True, sy_models = []\<rparr>"
    by (simp_all add: moved_ctl_def)
  note check = plugged_recheck [of ?c, unfolded c, OF s]
  obtain c' where r: "check_topology_info topo_env ?c = (None, c')"
    by (auto simp: check(2) add_to_topic_subscribed_def del_from_topic_subscribed_def c set_add_def
        set_discard_def unregister_topic_def remove_topic_def set_sync_def effect_def)
  from topology_recheck_moved_port [OF _ _ _ r, of "''t''" "''old''" "''p''" "''sp''" plugged]
    s check(1) plugged_entry [of ?c] r show ?thesis by (auto simp: c)
qed

theorem topology_watches_subscribed_topics_witness:
  "\<exists>s c'. check_topology_info topo_env (topo_ctl s) = (None, c') \<and>
     get_subscribed_topics topo_env c' = Some [''t''] \<and> sy_topics (c_sync c') = [''t''] \<and> subs_of c' ''t'' \<noteq> {}"
proof -
  obtain s where s: "store_ok df_classes s" "ds_deref s ''SwitchPort'' = [''sp'' \<mapsto> plugged]"
    "ds_deref s ''LogicalPort'' = Map.empty" by (rule topo_start)
  let ?c = "topo_ctl s"
  note check = plugged_recheck [of ?c, unfolded topo_simps, OF s]
  from check(2) obtain c' where r: "check_topology_info topo_env ?c = (None, c')"
    "c_topic_subscribed c' = [(''t'', [''p''])]" "sy_topics (c_sync c') = [''t'']"
    by (simp add: add_to_topic_subscribed_def topic_registered effect_def)
  from topo_step.recheck [of topo_env ?c] r(1) have "(topo_step topo_env)\<^sup>*\<^sup>* ?c c'" by auto
  from topology_watches_subscribed_topics [OF this] r show ?thesis
    by (intro exI conjI) (auto simp: get_subscribed_topics_def sync_init_def)
qed

lemma ported_store:
  "\<exists>s. store_ok df_classes s \<and> ds_deref s ''LogicalPort'' ''p'' = Some bound_port"
  using store_ok_update [OF store_ok_empty bound_port_wf] by auto

definition migrating_env :: "string list ctl_env" where
  "migrating_env = topo_env\<lparr>ce_nb := [((''Migration'', ''p''), migration_of ''p'' ''dest_plug'')]\<rparr>"

theorem topology_port_deleted_witness:
  "\<exists>s c'. ds_deref s ''LogicalPort'' ''p'' = Some bound_port \<and>
     switch_port_deleted migrating_env plugged ((topo_ctl s)\<lparr>c_ovs_to_lport_mapping := [(''sp'', (''p'', ''t''))]\<rparr>) = (None, c') \<and>
     map_of (c_ovs_to_lport_mapping c') ''sp'' = Some (''p'', ''t'')"
proof -
  from ported_store obtain s where s: "ds_deref s ''LogicalPort'' ''p'' = Some bound_port" by blast
  let ?c = "(topo_ctl s)\<lparr>c_ovs_to_lport_mapping := [(''sp'', (''p'', ''t''))]\<rparr>"
  have nb: "nb_get migrating_env ''Migration'' ''p'' = Some (migration_of ''p'' ''dest_plug'')"
    by (simp add: nb_get_def migrating_env_def)
  have attrs: "c_attr migrating_env c plugged ''type'' = Inr (PStr ''compute'')"
    "c_attr migrating_env c plugged ''lport'' = Inr (PRef ''LogicalPort'' ''p'')"
    "c_attr migrating_env c bound_port ''topic'' = Inr (PStr ''t'')" for c
    using plugged_attrs [of c] by (simp_all add: migrating_env_def c_attr_def)
  from topology_port_deleted [of migrating_env plugged "''sp''" ?c "''p''" bound_port "''t''"] s nb attrs
  obtain c' where "switch_port_deleted migrating_env plugged ?c = (None, c')" "c_books c' = c_books ?c"
    by (auto simp: migrating_env_def migration_of_def)
  with s show ?thesis by (intro exI conjI) (auto simp: c_books_def)
qed


end
