(* ===== verification/Nb_Driver.thy ===== *)
theory Nb_Driver
  imports Df_Prelude "HOL-Library.Sublist"
begin

text \<open>
  The database driver on etcd, \<open>dragonflow/db/drivers/etcd_db_driver.py\<close>, behind the driver
  interface of \<open>dragonflow/db/db_api.py\<close>.

  The etcd client is the package \<open>etcd3gw\<close>: a record of its operations on an abstract
  server state, whose documented behaviour is \<open>etcd_laws\<close>. Its values are the UTF-8 encodings
  of the texts the driver puts, and the model keeps the texts. What every driver promises is the
  locale \<open>db_driver\<close>; the driver on any client with these laws keeps it.
\<close>

declare map_of_eq_Some_iff [simp del] Some_eq_map_of_iff [simp del]

section \<open>Decimal numbers\<close>

text \<open>\<open>str\<close> and \<open>int\<close> on the counters.\<close>

definition digit_char :: "nat \<Rightarrow> char" where
  "digit_char n = char_of (48 + n)"

definition char_digit :: "char \<Rightarrow> nat option" where
  "char_digit c = (let n = of_char c in if 48 \<le> n \<and> n \<le> 57 then Some (n - 48) else None)"

fun str_of_nat :: "nat \<Rightarrow> string" where
  "str_of_nat n = (if n < 10 then [digit_char n] else str_of_nat (n div 10) @ [digit_char (n mod 10)])"

declare str_of_nat.simps [simp del]

definition py_str :: "int \<Rightarrow> string" where
  "py_str n = (if n < 0 then CHR ''-'' # str_of_nat (nat (- n)) else str_of_nat (nat n))"

fun digits_value :: "bool \<Rightarrow> nat \<Rightarrow> string \<Rightarrow> nat option" where
  "digits_value after acc [] = (if after then Some acc else None)"
| "digits_value after acc (c # cs) =
     (if c = CHR ''_'' then (if after then digits_value False acc cs else None)
      else (case char_digit c of None \<Rightarrow> None | Some d \<Rightarrow> digits_value True (10 * acc + d) cs))"

definition is_space :: "char \<Rightarrow> bool" where
  "is_space c \<longleftrightarrow> of_char c \<in> {9, 10, 11, 12, 13, 32 :: nat}"

definition strip :: "string \<Rightarrow> string" where
  "strip s = rev (dropWhile is_space (rev (dropWhile is_space s)))"

definition py_int_of :: "string \<Rightarrow> int option" where
  "py_int_of s =
     (case strip s of
        [] \<Rightarrow> None
      | c # cs \<Rightarrow>
          if c = CHR ''-'' then map_option (\<lambda>n. - int n) (digits_value False 0 cs)
          else if c = CHR ''+'' then map_option int (digits_value False 0 cs)
          else map_option int (digits_value False 0 (c # cs)))"

lemma digit_char_simps:
  assumes "n < 10"
  shows "char_digit (digit_char n) = Some n" "digit_char n \<noteq> CHR ''_''" "digit_char n \<noteq> CHR ''-''"
    "digit_char n \<noteq> CHR ''+''" "\<not> is_space (digit_char n)"
proof -
  have c: "(of_char (digit_char n) :: nat) = 48 + n" using assms by (simp add: digit_char_def)
  then show "char_digit (digit_char n) = Some n" "\<not> is_space (digit_char n)"
    using assms by (auto simp: char_digit_def is_space_def)
  have "digit_char n \<noteq> c'" if "(of_char c' :: nat) < 48 \<or> 58 \<le> (of_char c' :: nat)" for c'
    using c assms that by auto
  from this [of "CHR ''_''"] this [of "CHR ''-''"] this [of "CHR ''+''"]
  show "digit_char n \<noteq> CHR ''_''" "digit_char n \<noteq> CHR ''-''" "digit_char n \<noteq> CHR ''+''"
    by simp_all
qed


lemma digits_value_append:
  "digits_value True acc (ds @ [digit_char n]) =
     map_option (\<lambda>m. 10 * m + n) (digits_value True acc ds)"
  if "n < 10" "\<forall>c\<in>set ds. \<exists>k<10. c = digit_char k"
  using that(2)
proof (induction ds arbitrary: acc)
  case Nil
  then show ?case using that(1) by (simp add: digit_char_simps)
next
  case (Cons c ds)
  then show ?case by (auto simp: digit_char_simps)
qed

lemma str_of_nat_digits: "\<forall>c\<in>set (str_of_nat n). \<exists>k<10. c = digit_char k"
proof (induction n rule: str_of_nat.induct)
  case (1 n)
  then show ?case
    by (subst str_of_nat.simps) (auto intro: mod_less_divisor exI [of _ "n mod 10"])
qed

lemma str_of_nat_Cons: "\<exists>k ds. k < 10 \<and> str_of_nat n = digit_char k # ds"
proof -
  have "str_of_nat n \<noteq> []" by (subst str_of_nat.simps) simp
  then obtain c ds where "str_of_nat n = c # ds" by (cases "str_of_nat n") auto
  with str_of_nat_digits [of n] show ?thesis by auto
qed

lemma digits_value_start:
  assumes "k < 10"
  shows "digits_value False 0 (digit_char k # ds) = digits_value True 0 (digit_char k # ds)"
  using assms by (simp add: digit_char_simps)

lemma digits_value_str: "digits_value True 0 (str_of_nat n) = Some n"
proof (induction n rule: str_of_nat.induct)
  case (1 n)
  show ?case
  proof (cases "n < 10")
    case True
    then show ?thesis by (simp add: str_of_nat.simps [of n] digit_char_simps)
  next
    case False
    then have "digits_value True 0 (str_of_nat n) = map_option (\<lambda>m. 10 * m + n mod 10) (Some (n div 10))"
      using 1 digits_value_append [of "n mod 10" "str_of_nat (n div 10)" 0] str_of_nat_digits
      by (simp add: str_of_nat.simps [of n])
    then show ?thesis by simp
  qed
qed

lemma strip_digits: "\<forall>c\<in>set s. \<not> is_space c \<Longrightarrow> strip s = s"
proof -
  have keep: "dropWhile is_space xs = xs" if "\<forall>c\<in>set xs. \<not> is_space c" for xs
    using that by (cases xs) simp_all
  show "\<forall>c\<in>set s. \<not> is_space c \<Longrightarrow> strip s = s" by (simp add: strip_def keep)
qed

lemma py_int_of_str: "py_int_of (py_str (int n)) = Some (int n)"
proof -
  obtain k ds where k: "k < 10" "str_of_nat n = digit_char k # ds" using str_of_nat_Cons by blast
  have "strip (str_of_nat n) = str_of_nat n"
    by (rule strip_digits) (use str_of_nat_digits [of n] in \<open>auto simp: digit_char_simps\<close>)
  then show ?thesis
    using k digits_value_start [OF k(1), of ds] digits_value_str [of n]
    by (simp add: py_int_of_def py_str_def digit_char_simps del: digits_value.simps)
qed

lemma py_str_inj: "py_str (int m) = py_str (int n) \<longleftrightarrow> m = n"
  by (metis py_int_of_str of_nat_eq_iff option.inject)

lemma py_str_not_Nil: "py_str (int n) \<noteq> []"
  using str_of_nat_Cons [of n] by (auto simp: py_str_def)

section \<open>The etcd client\<close>

record 's etcd =
  et_get :: "string \<Rightarrow> 's \<Rightarrow> string list"
  et_put :: "string \<Rightarrow> string \<Rightarrow> 's \<Rightarrow> 's"
  et_delete :: "string \<Rightarrow> 's \<Rightarrow> bool \<times> 's"
  et_get_prefix :: "string \<Rightarrow> 's \<Rightarrow> (string \<times> string) list"
  et_delete_prefix :: "string \<Rightarrow> 's \<Rightarrow> 's"
  et_create :: "string \<Rightarrow> string \<Rightarrow> 's \<Rightarrow> bool \<times> 's"
  et_replace :: "string \<Rightarrow> string \<Rightarrow> string \<Rightarrow> 's \<Rightarrow> bool \<times> 's"

text \<open>
  The documented behaviour of the client: \<open>get\<close> lists the value of a key, \<open>delete\<close>
  tells whether there was one, \<open>get_prefix\<close> lists values with their keys, \<open>create\<close>
  writes only a missing key, and \<open>replace\<close> only a key that holds the expected value.
\<close>

definition etcd_laws :: "'s etcd \<Rightarrow> ('s \<Rightarrow> string \<Rightarrow> string option) \<Rightarrow> bool" where
  "etcd_laws cl view \<longleftrightarrow>
     (\<forall>k s. et_get cl k s = (case view s k of None \<Rightarrow> [] | Some v \<Rightarrow> [v])) \<and>
     (\<forall>k v s. view (et_put cl k v s) = (view s)(k \<mapsto> v)) \<and>
     (\<forall>k s. fst (et_delete cl k s) = (view s k \<noteq> None) \<and> view (snd (et_delete cl k s)) = (view s)(k := None)) \<and>
     (\<forall>p s. set (et_get_prefix cl p s) = {(v, k). view s k = Some v \<and> prefix p k} \<and>
        distinct (map snd (et_get_prefix cl p s))) \<and>
     (\<forall>p s k. view (et_delete_prefix cl p s) k = (if prefix p k then None else view s k)) \<and>
     (\<forall>k v s. fst (et_create cl k v s) = (view s k = None) \<and>
        view (snd (et_create cl k v s)) = (if view s k = None then (view s)(k \<mapsto> v) else view s)) \<and>
     (\<forall>k old new s. fst (et_replace cl k old new s) = (view s k = Some old) \<and>
        view (snd (et_replace cl k old new s)) = (if view s k = Some old then (view s)(k \<mapsto> new) else view s))"

lemma etcd_lawsD:
  assumes "etcd_laws cl view"
  shows "et_get cl k s = (case view s k of None \<Rightarrow> [] | Some v \<Rightarrow> [v])"
    "view (et_put cl k v s) = (view s)(k \<mapsto> v)"
    "fst (et_delete cl k s) = (view s k \<noteq> None)" "view (snd (et_delete cl k s)) = (view s)(k := None)"
    "set (et_get_prefix cl p s) = {(v, k). view s k = Some v \<and> prefix p k}"
    "distinct (map snd (et_get_prefix cl p s))"
    "view (et_delete_prefix cl p s) k = (if prefix p k then None else view s k)"
    "fst (et_create cl k v s) = (view s k = None)"
    "view (snd (et_create cl k v s)) = (if view s k = None then (view s)(k \<mapsto> v) else view s)"
    "fst (et_replace cl k old new s) = (view s k = Some old)"
    "view (snd (et_replace cl k old new s)) = (if view s k = Some old then (view s)(k \<mapsto> new) else view s)"
  using assms by (simp_all add: etcd_laws_def)

section \<open>The driver\<close>

definition make_key :: "string \<Rightarrow> string option \<Rightarrow> string" where
  "make_key table obj_id =
     (case obj_id of
        Some i \<Rightarrow> if i \<noteq> [] then ''/'' @ table @ ''/'' @ i else ''/'' @ table @ ''/''
      | None \<Rightarrow> ''/'' @ table @ ''/'')"

definition UNIQUE_KEY_TABLE :: string where
  "UNIQUE_KEY_TABLE = ''unique_key''"

definition etcd_delete_table :: "'s etcd \<Rightarrow> string \<Rightarrow> 's \<Rightarrow> 's" where
  "etcd_delete_table cl table s = et_delete_prefix cl (make_key table None) s"

text \<open>\<open>_get_key\<close>; \<open>pop\<close> takes the last value.\<close>

definition etcd_get_raw :: "'s etcd \<Rightarrow> string \<Rightarrow> string \<Rightarrow> 's \<Rightarrow> string result" where
  "etcd_get_raw cl table_key key s =
     (let vs = et_get cl table_key s in if vs \<noteq> [] then Inr (last vs) else Inl (DBKeyNotFound key))"

definition etcd_get_key :: "'s etcd \<Rightarrow> string \<Rightarrow> string \<Rightarrow> string option \<Rightarrow> 's \<Rightarrow> string result" where
  "etcd_get_key cl table key topic s = etcd_get_raw cl (make_key table (Some key)) key s"

definition etcd_set_key :: "'s etcd \<Rightarrow> string \<Rightarrow> string \<Rightarrow> string \<Rightarrow> string option \<Rightarrow> 's \<Rightarrow> 's outcome" where
  "etcd_set_key cl table key v topic s = (None, et_put cl (make_key table (Some key)) v s)"

definition etcd_create_key :: "'s etcd \<Rightarrow> string \<Rightarrow> string \<Rightarrow> string \<Rightarrow> string option \<Rightarrow> 's \<Rightarrow> 's outcome" where
  "etcd_create_key cl table key v topic s = (None, et_put cl (make_key table (Some key)) v s)"

definition etcd_delete_key :: "'s etcd \<Rightarrow> string \<Rightarrow> string \<Rightarrow> string option \<Rightarrow> 's \<Rightarrow> 's outcome" where
  "etcd_delete_key cl table key topic s =
     (case et_delete cl (make_key table (Some key)) s of
        (deleted, s) \<Rightarrow> if \<not> deleted then (Some (DBKeyNotFound key), s) else (None, s))"

definition etcd_get_all_entries :: "'s etcd \<Rightarrow> string \<Rightarrow> string option \<Rightarrow> 's \<Rightarrow> string list" where
  "etcd_get_all_entries cl table topic s =
     filter (\<lambda>v. v \<noteq> []) (map fst (et_get_prefix cl (make_key table None) s))"

definition etcd_get_all_keys :: "'s etcd \<Rightarrow> string \<Rightarrow> string option \<Rightarrow> 's \<Rightarrow> string list" where
  "etcd_get_all_keys cl table topic s =
     map (\<lambda>(v, k). drop (length table + 2) k) (et_get_prefix cl (make_key table None) s)"

text \<open>
  \<open>_allocate_unique_key\<close> makes two calls of the client, between which other processes may
  run: it reads the counter, and then creates or replaces it.
\<close>

definition alloc_key :: "string \<Rightarrow> string" where
  "alloc_key table = make_key UNIQUE_KEY_TABLE (Some table)"

definition alloc_read :: "'s etcd \<Rightarrow> string \<Rightarrow> 's \<Rightarrow> string result" where
  "alloc_read cl table s = etcd_get_raw cl (alloc_key table) table s"

definition alloc_write :: "'s etcd \<Rightarrow> string \<Rightarrow> string result \<Rightarrow> 's \<Rightarrow> int result \<times> 's" where
  "alloc_write cl table seen s =
     (case seen of
        Inl (DBKeyNotFound k) \<Rightarrow>
          (case et_create cl (alloc_key table) ''1'' s of
             (created, s) \<Rightarrow> (if created then Inr 1 else Inl RuntimeError, s))
      | Inl e \<Rightarrow> (Inl e, s)
      | Inr v \<Rightarrow>
          (case py_int_of v of
             None \<Rightarrow> (Inl ValueError, s)
           | Some prev_value \<Rightarrow>
               (case et_replace cl (alloc_key table) (py_str prev_value) (py_str (prev_value + 1)) s of
                  (replaced, s) \<Rightarrow> (if replaced then Inr (prev_value + 1) else Inl RuntimeError, s))))"

definition try_allocate :: "'s etcd \<Rightarrow> string \<Rightarrow> 's \<Rightarrow> int result \<times> 's" where
  "try_allocate cl table s = alloc_write cl table (alloc_read cl table s) s"

text \<open>The loop ends with a key or an exception other than RuntimeError, or it never ends.\<close>

partial_function (option) etcd_allocate_unique_key :: "'s etcd \<Rightarrow> string \<Rightarrow> 's \<Rightarrow> (int result \<times> 's) option" where
  "etcd_allocate_unique_key cl table s =
     (case try_allocate cl table s of
        (Inl RuntimeError, s) \<Rightarrow> etcd_allocate_unique_key cl table s
      | r \<Rightarrow> Some r)"

section \<open>What a driver promises\<close>

record 's driver =
  d_get_key :: "string \<Rightarrow> string \<Rightarrow> string option \<Rightarrow> 's \<Rightarrow> string result"
  d_set_key :: "string \<Rightarrow> string \<Rightarrow> string \<Rightarrow> string option \<Rightarrow> 's \<Rightarrow> 's outcome"
  d_create_key :: "string \<Rightarrow> string \<Rightarrow> string \<Rightarrow> string option \<Rightarrow> 's \<Rightarrow> 's outcome"
  d_delete_key :: "string \<Rightarrow> string \<Rightarrow> string option \<Rightarrow> 's \<Rightarrow> 's outcome"
  d_get_all_entries :: "string \<Rightarrow> string option \<Rightarrow> 's \<Rightarrow> string list"
  d_allocate_unique_key :: "string \<Rightarrow> 's \<Rightarrow> (int result \<times> 's) option"

text \<open>
  The content of a database: the rows of its tables and the counters of its unique keys, where
  \<open>None\<close> is a counter that holds no number. A row is written when it reads as given, the other
  rows are as they were, and so are the counters.
\<close>

record 's content =
  ct_row :: "'s \<Rightarrow> string \<Rightarrow> string \<Rightarrow> string option"
  ct_counter :: "'s \<Rightarrow> string \<Rightarrow> nat option"
  ct_table :: "string \<Rightarrow> bool"

definition row_written :: "'s content \<Rightarrow> string \<Rightarrow> string \<Rightarrow> string option \<Rightarrow> 's \<Rightarrow> 's \<Rightarrow> bool" where
  "row_written ct t k x s s' \<longleftrightarrow> ct_counter ct s' = ct_counter ct s \<and>
     (\<forall>t' k'. ct_table ct t' \<longrightarrow>
        ct_row ct s' t' k' = (if t' = t \<and> k' = k then x else ct_row ct s t' k'))"

locale db_driver =
  fixes drv :: "'s driver" and ct :: "'s content"
  assumes read_row: "ct_table ct t \<Longrightarrow> d_get_key drv t k topic s =
      (case ct_row ct s t k of Some v \<Rightarrow> Inr v | None \<Rightarrow> Inl (DBKeyNotFound k))"
    and create_row: "ct_table ct t \<Longrightarrow>
      \<exists>s'. d_create_key drv t k v topic s = (None, s') \<and> row_written ct t k (Some v) s s'"
    and set_row: "ct_table ct t \<Longrightarrow> ct_row ct s t k \<noteq> None \<Longrightarrow>
      \<exists>s'. d_set_key drv t k v topic s = (None, s') \<and> row_written ct t k (Some v) s s'"
    and delete_row: "ct_table ct t \<Longrightarrow>
      \<exists>s'. d_delete_key drv t k topic s = (if ct_row ct s t k = None then Some (DBKeyNotFound k) else None, s') \<and>
        row_written ct t k None s s'"
    and all_rows: "ct_table ct t \<Longrightarrow> (\<forall>k. ct_row ct s t k \<noteq> Some []) \<Longrightarrow>
      set (d_get_all_entries drv t None s) = ran (ct_row ct s t)"
    and allocate: "ct_counter ct s t = Some n \<Longrightarrow>
      \<exists>s'. d_allocate_unique_key drv t s = Some (Inr (int n + 1), s') \<and>
        ct_counter ct s' = (ct_counter ct s)(t \<mapsto> n + 1) \<and>
        (\<forall>t'. ct_table ct t' \<longrightarrow> ct_row ct s' t' = ct_row ct s t')"

section \<open>The etcd driver keeps the promise\<close>

definition etcd_driver :: "'s etcd \<Rightarrow> 's driver" where
  "etcd_driver cl =
     \<lparr>d_get_key = etcd_get_key cl, d_set_key = etcd_set_key cl, d_create_key = etcd_create_key cl,
      d_delete_key = etcd_delete_key cl, d_get_all_entries = etcd_get_all_entries cl,
      d_allocate_unique_key = etcd_allocate_unique_key cl\<rparr>"

definition etcd_table :: "string \<Rightarrow> bool" where
  "etcd_table t \<longleftrightarrow> CHR ''/'' \<notin> set t \<and> t \<noteq> UNIQUE_KEY_TABLE"

definition counter_value :: "string option \<Rightarrow> nat option" where
  "counter_value x =
     (case x of
        None \<Rightarrow> Some 0
      | Some v \<Rightarrow>
          (case py_int_of v of
             Some n \<Rightarrow> if 0 \<le> n \<and> v = py_str n then Some (nat n) else None
           | None \<Rightarrow> None))"

definition etcd_content :: "('s \<Rightarrow> string \<Rightarrow> string option) \<Rightarrow> 's content" where
  "etcd_content view =
     \<lparr>ct_row = (\<lambda>s t k. view s (make_key t (Some k))),
      ct_counter = (\<lambda>s t. counter_value (view s (alloc_key t))), ct_table = etcd_table\<rparr>"

lemma make_key_eq: "make_key t (Some k) = CHR ''/'' # t @ CHR ''/'' # k" "make_key t None = CHR ''/'' # t @ ''/''"
  by (simp_all add: make_key_def)

lemma split_slash:
  assumes "t @ CHR ''/'' # k = t' @ CHR ''/'' # k'" "CHR ''/'' \<notin> set t" "CHR ''/'' \<notin> set t'"
  shows "t = t' \<and> k = k'"
proof -
  have "takeWhile (\<lambda>c. c \<noteq> CHR ''/'') (u @ CHR ''/'' # l) = u" if "CHR ''/'' \<notin> set u" for u l
    using that by (induction u) auto
  with assms have "t = t'" by metis
  with assms(1) show ?thesis by simp
qed

lemma make_key_inj:
  "CHR ''/'' \<notin> set t \<Longrightarrow> CHR ''/'' \<notin> set t' \<Longrightarrow>
   make_key t (Some k) = make_key t' (Some k') \<longleftrightarrow> t = t' \<and> k = k'"
  using split_slash [of t k t' k'] by (auto simp: make_key_eq)

lemma unique_table_plain: "CHR ''/'' \<notin> set UNIQUE_KEY_TABLE"
  by (simp add: UNIQUE_KEY_TABLE_def)

lemma row_not_counter:
  assumes "etcd_table t"
  shows "make_key t (Some k) \<noteq> alloc_key u" "alloc_key u \<noteq> make_key t (Some k)"
  using assms make_key_inj [OF _ unique_table_plain, of t k u] by (auto simp: etcd_table_def alloc_key_def)

lemma alloc_key_inj [simp]: "alloc_key t = alloc_key u \<longleftrightarrow> t = u"
  by (simp add: alloc_key_def make_key_eq)

lemma table_prefix:
  assumes "CHR ''/'' \<notin> set t"
  shows "prefix (make_key t None) key \<longleftrightarrow> (\<exists>k. key = make_key t (Some k))"
  by (auto simp: make_key_eq prefix_def)

lemma counter_value_str [simp]: "counter_value (Some (py_str (int n))) = Some n"
  by (simp add: counter_value_def py_int_of_str)

lemma counter_value_SomeD:
  assumes "counter_value x = Some n"
  shows "x = None \<and> n = 0 \<or> x = Some (py_str (int n))"
  using assms by (cases x) (auto simp: counter_value_def split: option.splits if_splits)

lemma py_str_one: "py_str 1 = ''1''"
  by code_simp

lemma try_allocate_sequential:
  assumes laws: "etcd_laws cl view" and n: "counter_value (view s (alloc_key t)) = Some n"
  shows "\<exists>s'. try_allocate cl t s = (Inr (int n + 1), s') \<and>
    view s' = (view s)(alloc_key t \<mapsto> py_str (int n + 1))"
proof (cases "view s (alloc_key t)")
  case None
  then have "n = 0" using counter_value_SomeD [OF n] by simp
  obtain ok s' where r: "et_create cl (alloc_key t) ''1'' s = (ok, s')" by fastforce
  with etcd_lawsD(8,9) [OF laws, of "alloc_key t" "''1''" s] None
  have "ok" "view s' = (view s)(alloc_key t \<mapsto> ''1'')" by simp_all
  with r None \<open>n = 0\<close> show ?thesis
    by (simp add: try_allocate_def alloc_read_def etcd_get_raw_def etcd_lawsD(1) [OF laws] alloc_write_def py_str_one)
next
  case (Some v)
  then have v: "v = py_str (int n)" using counter_value_SomeD [OF n] by simp
  obtain ok s' where r: "et_replace cl (alloc_key t) (py_str (int n)) (py_str (int n + 1)) s = (ok, s')" by fastforce
  with etcd_lawsD(10,11) [OF laws, of "alloc_key t" "py_str (int n)" "py_str (int n + 1)" s] Some v
  have "ok" "view s' = (view s)(alloc_key t \<mapsto> py_str (int n + 1))" by simp_all
  with r Some v show ?thesis
    by (simp add: try_allocate_def alloc_read_def etcd_get_raw_def etcd_lawsD(1) [OF laws] alloc_write_def py_int_of_str)
qed

lemma allocate_sequential:
  assumes "etcd_laws cl view" "counter_value (view s (alloc_key t)) = Some n"
  shows "\<exists>s'. etcd_allocate_unique_key cl t s = Some (Inr (int n + 1), s') \<and>
    view s' = (view s)(alloc_key t \<mapsto> py_str (int n + 1))"
  using try_allocate_sequential [OF assms] by (subst etcd_allocate_unique_key.simps) auto



text \<open>The driver on a client with the laws, and the contract it keeps.\<close>

locale etcd_client =
  fixes cl :: "'s etcd" and view :: "'s \<Rightarrow> string \<Rightarrow> string option"
  assumes laws: "etcd_laws cl view"
begin

lemma put_row:
  assumes "etcd_table t"
  shows "row_written (etcd_content view) t k (Some v) s (et_put cl (make_key t (Some k)) v s)"
  using assms
  by (auto simp: row_written_def etcd_content_def etcd_lawsD(2) [OF laws] row_not_counter etcd_table_def
      make_key_inj fun_eq_iff)

lemma remove_row:
  assumes "etcd_table t"
  shows "row_written (etcd_content view) t k None s (snd (et_delete cl (make_key t (Some k)) s))"
  using assms
  by (auto simp: row_written_def etcd_content_def etcd_lawsD(4) [OF laws] row_not_counter etcd_table_def
      make_key_inj fun_eq_iff)

lemma entries_ran:
  assumes "etcd_table t" "\<forall>k. view s (make_key t (Some k)) \<noteq> Some []"
  shows "set (etcd_get_all_entries cl t topic s) = ran (\<lambda>k. view s (make_key t (Some k)))"
proof -
  have "set (etcd_get_all_entries cl t topic s) =
      {v. v \<noteq> [] \<and> (\<exists>key. view s key = Some v \<and> (\<exists>k. key = make_key t (Some k)))}"
    using assms(1) table_prefix [of t]
    by (force simp: etcd_get_all_entries_def etcd_lawsD(5) [OF laws] etcd_table_def)
  also have "\<dots> = ran (\<lambda>k. view s (make_key t (Some k)))" using assms(2) by (auto simp: ran_def)
  finally show ?thesis .
qed

end

sublocale etcd_client \<subseteq> etcd: db_driver "etcd_driver cl" "etcd_content view"
proof unfold_locales
  fix t k topic s v n
  assume "ct_table (etcd_content view) t"
  then have t: "etcd_table t" by (simp add: etcd_content_def)
  show "d_get_key (etcd_driver cl) t k topic s =
      (case ct_row (etcd_content view) s t k of Some v \<Rightarrow> Inr v | None \<Rightarrow> Inl (DBKeyNotFound k))"
    by (simp add: etcd_driver_def etcd_get_key_def etcd_get_raw_def etcd_lawsD(1) [OF laws] etcd_content_def
        split: option.split)
  show "\<exists>s'. d_create_key (etcd_driver cl) t k v topic s = (None, s') \<and>
      row_written (etcd_content view) t k (Some v) s s'"
    using put_row [OF t] by (simp add: etcd_driver_def etcd_create_key_def)
  show "\<exists>s'. d_set_key (etcd_driver cl) t k v topic s = (None, s') \<and>
      row_written (etcd_content view) t k (Some v) s s'"
    using put_row [OF t] by (simp add: etcd_driver_def etcd_set_key_def)
  show "\<exists>s'. d_delete_key (etcd_driver cl) t k topic s =
        (if ct_row (etcd_content view) s t k = None then Some (DBKeyNotFound k) else None, s') \<and>
      row_written (etcd_content view) t k None s s'"
    using remove_row [OF t, of k s] etcd_lawsD(3) [OF laws, of "make_key t (Some k)" s]
    by (auto simp: etcd_driver_def etcd_delete_key_def etcd_content_def split: prod.splits)
  show "set (d_get_all_entries (etcd_driver cl) t None s) = ran (ct_row (etcd_content view) s t)"
    if "\<forall>k. ct_row (etcd_content view) s t k \<noteq> Some []"
    using entries_ran [OF t] that by (simp add: etcd_driver_def etcd_content_def)
next
  fix s t n
  assume "ct_counter (etcd_content view) s t = Some n"
  then have "counter_value (view s (alloc_key t)) = Some n" by (simp add: etcd_content_def)
  from allocate_sequential [OF laws this] obtain s' where
    s': "etcd_allocate_unique_key cl t s = Some (Inr (int n + 1), s')"
      "view s' = (view s)(alloc_key t \<mapsto> py_str (int n + 1))" by blast
  have "counter_value (Some (py_str (int n + 1))) = Some (n + 1)"
    using counter_value_str [of "n + 1"] by (simp add: add.commute)
  with s' show "\<exists>s'. d_allocate_unique_key (etcd_driver cl) t s = Some (Inr (int n + 1), s') \<and>
      ct_counter (etcd_content view) s' = (ct_counter (etcd_content view) s)(t \<mapsto> n + 1) \<and>
      (\<forall>t'. ct_table (etcd_content view) t' \<longrightarrow> ct_row (etcd_content view) s' t' = ct_row (etcd_content view) s t')"
    by (intro exI [of _ s']) (auto simp: etcd_driver_def etcd_content_def fun_eq_iff row_not_counter)
qed

context etcd_client
begin

lemma is_driver: "db_driver (etcd_driver cl) (etcd_content view)"
  by unfold_locales

end

section \<open>A client\<close>

text \<open>A client on one dictionary, as a server with a single member behaves.\<close>

definition dict_etcd :: "(string, string) dict etcd" where
  "dict_etcd =
     \<lparr>et_get = (\<lambda>k d. case map_of d k of None \<Rightarrow> [] | Some v \<Rightarrow> [v]),
      et_put = AList.update,
      et_delete = (\<lambda>k d. (map_of d k \<noteq> None, AList.delete k d)),
      et_get_prefix = (\<lambda>p d. map (\<lambda>(k, v). (v, k)) (filter (\<lambda>(k, v). prefix p k) (AList.clearjunk d))),
      et_delete_prefix = (\<lambda>p d. filter (\<lambda>(k, v). \<not> prefix p k) d),
      et_create = (\<lambda>k v d. if map_of d k = None then (True, AList.update k v d) else (False, d)),
      et_replace = (\<lambda>k old new d. if map_of d k = Some old then (True, AList.update k new d) else (False, d))\<rparr>"

lemma map_of_filter_key: "map_of (filter (\<lambda>(k, v). P k) d) k = (if P k then map_of d k else None)"
  by (induction d) auto

lemma dict_etcd_laws: "etcd_laws dict_etcd map_of"
proof -
  have "set (map (\<lambda>(k, v). (v, k)) (filter (\<lambda>(k, v). prefix p k) (AList.clearjunk d))) =
      {(v, k). map_of d k = Some v \<and> prefix p k}" for p and d :: "(string, string) dict"
  proof -
    have "(k, v) \<in> set (AList.clearjunk d) \<longleftrightarrow> map_of d k = Some v" for k v
      using wf_dict_map_of_iff [OF distinct_clearjunk, of d k v] by (simp add: map_of_clearjunk)
    then show ?thesis by force
  qed
  moreover have "distinct (map snd (map (\<lambda>(k, v). (v, k)) (filter (\<lambda>(k, v). prefix p k) (AList.clearjunk d))))"
    for p and d :: "(string, string) dict"
    using distinct_map_filter [OF distinct_clearjunk, of "\<lambda>(k, v). prefix p k" d]
    by (simp add: comp_def case_prod_beta)
  ultimately show ?thesis
    by (simp add: etcd_laws_def dict_etcd_def update_conv delete_conv map_of_filter_key fun_eq_iff)
qed

interpretation dict_etcd: etcd_client dict_etcd map_of
  by unfold_locales (rule dict_etcd_laws)

section \<open>Processes that allocate at the same time\<close>

text \<open>
  Neutron servers and controllers allocate keys of a table side by side. Each process is between
  calls or has read the counter; the calls of the client are the atomic steps, and other rows and
  the counters of other tables change in between.
\<close>

datatype alloc_phase = Idle | Seen "string result"

record 's alloc_sys =
  as_db :: 's
  as_phase :: "nat \<Rightarrow> alloc_phase"
  as_keys :: "int list"

inductive alloc_step :: "'s etcd \<Rightarrow> string \<Rightarrow> 's alloc_sys \<Rightarrow> 's alloc_sys \<Rightarrow> bool" for cl t where
  alloc_reads: "as_phase y p = Idle \<Longrightarrow>
     alloc_step cl t y (y\<lparr>as_phase := (as_phase y)(p := Seen (alloc_read cl t (as_db y)))\<rparr>)"
| alloc_gets: "as_phase y p = Seen x \<Longrightarrow> alloc_write cl t x (as_db y) = (Inr n, s) \<Longrightarrow>
     alloc_step cl t y (y\<lparr>as_db := s, as_phase := (as_phase y)(p := Idle), as_keys := as_keys y @ [n]\<rparr>)"
| alloc_retries: "as_phase y p = Seen x \<Longrightarrow> alloc_write cl t x (as_db y) = (Inl RuntimeError, s) \<Longrightarrow>
     alloc_step cl t y (y\<lparr>as_db := s, as_phase := (as_phase y)(p := Idle)\<rparr>)"
| row_set: "etcd_table u \<Longrightarrow> alloc_step cl t y (y\<lparr>as_db := snd (etcd_set_key cl u k v topic (as_db y))\<rparr>)"
| row_deleted: "etcd_table u \<Longrightarrow> alloc_step cl t y (y\<lparr>as_db := snd (etcd_delete_key cl u k topic (as_db y))\<rparr>)"
| other_table: "u \<noteq> t \<Longrightarrow> alloc_step cl t y (y\<lparr>as_db := snd (alloc_write cl u x (as_db y))\<rparr>)"

definition seen_ok :: "string \<Rightarrow> string result \<Rightarrow> bool" where
  "seen_ok t x \<longleftrightarrow> x = Inl (DBKeyNotFound t) \<or> (\<exists>m. x = Inr (py_str (int m)))"

definition alloc_inv :: "('s \<Rightarrow> string \<Rightarrow> string option) \<Rightarrow> string \<Rightarrow> nat \<Rightarrow> 's alloc_sys \<Rightarrow> bool" where
  "alloc_inv view t n y \<longleftrightarrow>
     counter_value (view (as_db y) (alloc_key t)) = Some (n + length (as_keys y)) \<and>
     as_keys y = map int [Suc n..<Suc n + length (as_keys y)] \<and>
     (\<forall>p x. as_phase y p = Seen x \<longrightarrow> seen_ok t x)"

lemma alloc_read_ok:
  assumes "etcd_laws cl view" "counter_value (view s (alloc_key t)) = Some n"
  shows "seen_ok t (alloc_read cl t s)"
  using counter_value_SomeD [OF assms(2)]
  by (auto simp: seen_ok_def alloc_read_def etcd_get_raw_def etcd_lawsD(1) [OF assms(1)])

text \<open>A write succeeds with the next key or leaves the counter alone.\<close>

lemma alloc_write_cases:
  assumes laws: "etcd_laws cl view" and n: "counter_value (view s (alloc_key t)) = Some n"
    and seen: "seen_ok t x" and w: "alloc_write cl t x s = (r, s')"
  shows "r = Inr (int n + 1) \<and> counter_value (view s' (alloc_key t)) = Some (Suc n) \<or>
    r = Inl RuntimeError \<and> view s' = view s"
  using seen unfolding seen_ok_def
proof (elim disjE exE)
  assume x: "x = Inl (DBKeyNotFound t)"
  obtain ok s1 where c: "et_create cl (alloc_key t) ''1'' s = (ok, s1)" by fastforce
  with etcd_lawsD(8,9) [OF laws, of "alloc_key t" "''1''" s] have
    "ok = (view s (alloc_key t) = None)" "view s1 = (if ok then (view s)(alloc_key t \<mapsto> ''1'') else view s)" by auto
  with c x w counter_value_SomeD [OF n] n show ?thesis
    using counter_value_str [of 1] by (auto simp: alloc_write_def py_str_one)
next
  fix m assume x: "x = Inr (py_str (int m))"
  obtain ok s1 where c: "et_replace cl (alloc_key t) (py_str (int m)) (py_str (int m + 1)) s = (ok, s1)" by fastforce
  with etcd_lawsD(10,11) [OF laws, of "alloc_key t" "py_str (int m)" "py_str (int m + 1)" s] have
    s1: "ok = (view s (alloc_key t) = Some (py_str (int m)))"
      "view s1 = (if ok then (view s)(alloc_key t \<mapsto> py_str (int m + 1)) else view s)" by auto
  have "m = n" if ok using that s1(1) n by simp
  moreover have "counter_value (Some (py_str (int m + 1))) = Some (Suc m)"
    using counter_value_str [of "Suc m"] by (simp add: add.commute)
  ultimately show ?thesis using c x w s1(2) by (auto simp: alloc_write_def py_int_of_str split: if_splits)
qed

lemma alloc_write_other:
  assumes "etcd_laws cl view" "u \<noteq> t"
  shows "view (snd (alloc_write cl u x s)) (alloc_key t) = view s (alloc_key t)"
  using assms(2) etcd_lawsD(9,11) [OF assms(1)]
  by (auto simp: alloc_write_def split: sum.split py_error.split option.split prod.split)
     (metis (no_types, lifting) alloc_key_inj fun_upd_apply snd_conv)+

lemma alloc_step_inv:
  assumes "alloc_step cl t y y'" and laws: "etcd_laws cl view" and inv: "alloc_inv view t n y"
  shows "alloc_inv view t n y'"
  using assms(1,3)
proof (cases rule: alloc_step.cases)
  case (alloc_gets p x k s)
  let ?l = "length (as_keys y)"
  from alloc_gets(2) inv have "seen_ok t x" by (simp add: alloc_inv_def)
  from alloc_write_cases [OF laws _ this alloc_gets(3), of "n + ?l"] inv have
    "k = int (Suc (n + ?l))" "counter_value (view s (alloc_key t)) = Some (Suc (n + ?l))"
    by (auto simp: alloc_inv_def)
  moreover have "as_keys y @ [int (Suc (n + ?l))] = map int [Suc n..<Suc n + Suc ?l]"
    using inv by (simp add: alloc_inv_def)
  ultimately show ?thesis using alloc_gets(1) inv by (simp add: alloc_inv_def)
next
  case (alloc_retries p x s)
  from alloc_retries(2) inv have "seen_ok t x" by (simp add: alloc_inv_def)
  from alloc_write_cases [OF laws _ this alloc_retries(3), of "n + length (as_keys y)"] inv have
    "view s = view (as_db y)" by (auto simp: alloc_inv_def)
  then show ?thesis using alloc_retries(1) inv by (simp add: alloc_inv_def)
next
  case (alloc_reads p)
  then show ?thesis using inv alloc_read_ok [OF laws, of "as_db y" t] by (simp add: alloc_inv_def)
next
  case (row_set u k v topic)
  then show ?thesis using inv
    by (simp add: alloc_inv_def etcd_set_key_def etcd_lawsD(2) [OF laws] row_not_counter)
next
  case (row_deleted u k topic)
  have "snd (etcd_delete_key cl u k topic (as_db y)) = snd (et_delete cl (make_key u (Some k)) (as_db y))"
    by (simp add: etcd_delete_key_def split: prod.split)
  with row_deleted show ?thesis using inv
    by (simp add: alloc_inv_def etcd_lawsD(4) [OF laws] row_not_counter)
next
  case (other_table u x)
  then show ?thesis using inv alloc_write_other [OF laws] by (simp add: alloc_inv_def)
qed

lemma alloc_steps_inv:
  "(alloc_step cl t)\<^sup>*\<^sup>* y y' \<Longrightarrow> etcd_laws cl view \<Longrightarrow> alloc_inv view t n y \<Longrightarrow> alloc_inv view t n y'"
  by (induction rule: rtranclp_induct) (auto intro: alloc_step_inv)

text \<open>
  C3. Unique keys never repeat. However many processes allocate keys of a table at the same time,
  in whatever order their reads and writes of the counter reach the server and whatever other rows
  change in between, the keys handed out so far are the numbers that follow the counter's first
  value, each exactly once and in order.
\<close>

theorem unique_keys_never_repeat:
  assumes "etcd_laws cl view" "counter_value (view (as_db y) (alloc_key t)) = Some n"
    and "as_phase y = (\<lambda>p. Idle)" "as_keys y = []" "(alloc_step cl t)\<^sup>*\<^sup>* y y'"
  shows "as_keys y' = map int [Suc n..<Suc n + length (as_keys y')] \<and> distinct (as_keys y') \<and>
    counter_value (view (as_db y') (alloc_key t)) = Some (n + length (as_keys y'))"
proof -
  have "alloc_inv view t n y" using assms(2-4) by (simp add: alloc_inv_def)
  from alloc_steps_inv [OF assms(5,1) this] have inv: "alloc_inv view t n y'" .
  moreover have "distinct (map int [Suc n..<Suc n + length (as_keys y')])" by (simp add: distinct_map)
  ultimately show ?thesis unfolding alloc_inv_def by metis
qed

definition alloc_start :: "(string, string) dict alloc_sys" where
  "alloc_start = \<lparr>as_db = [], as_phase = (\<lambda>p. Idle), as_keys = []\<rparr>"

text \<open>Two processes read the missing counter; the first creates it, the second has to start again.\<close>

theorem unique_keys_never_repeat_witness:
  "\<exists>y. (alloc_step dict_etcd ''lport'')\<^sup>*\<^sup>* alloc_start y \<and> as_phase y 2 = Seen (Inl (DBKeyNotFound ''lport'')) \<and>
     as_keys y = [1] \<and> alloc_write dict_etcd ''lport'' (Inl (DBKeyNotFound ''lport'')) (as_db y) = (Inl RuntimeError, as_db y)"
proof -
  let ?nf = "Inl (DBKeyNotFound ''lport'')"
  let ?a = "alloc_start\<lparr>as_phase := (as_phase alloc_start)(1 := Seen ?nf)\<rparr>"
  let ?b = "?a\<lparr>as_phase := (as_phase ?a)(2 := Seen ?nf)\<rparr>"
  let ?c = "?b\<lparr>as_db := [(alloc_key ''lport'', ''1'')], as_phase := (as_phase ?b)(1 := Idle), as_keys := as_keys ?b @ [1]\<rparr>"
  have read: "alloc_read dict_etcd ''lport'' [] = ?nf"
    by (simp add: alloc_read_def etcd_get_raw_def dict_etcd_def)
  have wrote: "alloc_write dict_etcd ''lport'' ?nf [] = (Inr 1, [(alloc_key ''lport'', ''1'')])"
    by (simp add: alloc_write_def dict_etcd_def)
  have s1: "alloc_step dict_etcd ''lport'' alloc_start ?a"
    using alloc_step.alloc_reads [of alloc_start 1 dict_etcd "''lport''"] read by (simp add: alloc_start_def)
  have s2: "alloc_step dict_etcd ''lport'' ?a ?b"
    using alloc_step.alloc_reads [of ?a 2 dict_etcd "''lport''"] read by (simp add: alloc_start_def)
  have s3: "alloc_step dict_etcd ''lport'' ?b ?c"
    using alloc_step.alloc_gets [of ?b 1 ?nf dict_etcd "''lport''"] wrote by (simp add: alloc_start_def)
  have steps: "(alloc_step dict_etcd ''lport'')\<^sup>*\<^sup>* alloc_start ?c"
    by (rule converse_rtranclp_into_rtranclp, rule s1, rule converse_rtranclp_into_rtranclp, rule s2,
        rule converse_rtranclp_into_rtranclp, rule s3, rule rtranclp.rtrancl_refl)
  from unique_keys_never_repeat [OF dict_etcd_laws _ _ _ steps, of 0] have "as_keys ?c = [1]"
    by (simp add: alloc_start_def counter_value_def)
  then show ?thesis using steps
    by (intro exI [of _ ?c] conjI) (simp_all add: alloc_write_def dict_etcd_def)
qed


end
