(* ===== verification/Nb_Api.thy ===== *)
theory Nb_Api
  imports Controller Nb_Driver
begin

text \<open>
  The northbound database as Neutron and the controllers use it, \<open>dragonflow/db/api_nb.py\<close>,
  with the hooks of the models that run before an object is written
  (\<open>dragonflow/db/models/mixins.py\<close>, \<open>core.py\<close>, \<open>service.py\<close>).

  The state is the database behind the driver and the updates the publisher was given. The
  conversion of an instance to JSON and back comes from the \<open>jsonmodels\<close> package and is a
  parameter, as are the clock, which counts in integers of some unit, and \<open>uuid5\<close>.
\<close>

declare map_of_eq_Some_iff [simp del] Some_eq_map_of_iff [simp del]

section \<open>The code\<close>

record db_update =
  du_table :: "string option"
  du_key :: "string option"
  du_action :: string
  du_value :: "string option"
  du_timestamp :: int
  du_topic :: "string option"

definition SEND_ALL_TOPIC :: string where
  "SEND_ALL_TOPIC = ''D''"

record 's nb_env =
  ne_ct :: class_table
  ne_driver :: "'s driver"
  ne_use_pubsub :: bool
  ne_selective :: bool
  ne_to_json :: "pyval \<Rightarrow> string result"
  ne_from_json :: "string \<Rightarrow> string \<Rightarrow> pyval result"
  ne_now :: int
  ne_publisher_timeout :: int
  ne_uuid5 :: "string \<Rightarrow> string"

record 's nb_state =
  nb_db :: 's
  nb_sent :: "db_update list"

definition nb_attr :: "'s nb_env \<Rightarrow> pyval \<Rightarrow> string \<Rightarrow> pyval result" where
  "nb_attr env = py_getattr (ne_ct env) (\<lambda>m i. None)"

definition obj_set :: "string \<Rightarrow> pyval \<Rightarrow> pyval \<Rightarrow> pyval" where
  "obj_set name v obj = (case obj of PObj c fs \<Rightarrow> PObj c (set_field name v fs) | w \<Rightarrow> w)"

text \<open>\<open>getattr(obj, 'topic', None)\<close>; a listener computes its topic.\<close>

definition get_topic :: "'s nb_env \<Rightarrow> pyval \<Rightarrow> string option result" where
  "get_topic env obj =
     (case (if obj_class obj = ''Listener''
            then bind_result (obj_id obj) (\<lambda>i. Inr (PStr (''listener_'' @ i)))
            else nb_attr env obj ''topic'') of
        Inr (PStr t) \<Rightarrow> Inr (Some t)
      | Inr v \<Rightarrow> Inr None
      | Inl AttributeError \<Rightarrow> Inr None
      | Inl ValidationError \<Rightarrow> Inr None
      | Inl e \<Rightarrow> Inl e)"

definition send_db_change_event ::
  "'s nb_env \<Rightarrow> string \<Rightarrow> string \<Rightarrow> string \<Rightarrow> string option \<Rightarrow> string option \<Rightarrow> 's nb_state \<Rightarrow> 's nb_state" where
  "send_db_change_event env table key action v topic st =
     (if \<not> ne_use_pubsub env then st
      else
        let topic = (if \<not> ne_selective env \<or> topic = None then Some SEND_ALL_TOPIC else topic)
        in st\<lparr>nb_sent := nb_sent st @
             [\<lparr>du_table = Some table, du_key = Some key, du_action = action, du_value = v,
               du_timestamp = ne_now env, du_topic = topic\<rparr>]\<rparr>)"

subsection \<open>Hooks\<close>

text \<open>\<open>Version.on_create_pre\<close> and \<open>UniqueKey.on_create_pre\<close>; the result is None when the allocation never returns.\<close>

definition version_on_create :: "'s nb_env \<Rightarrow> pyval \<Rightarrow> pyval result" where
  "version_on_create env obj =
     bind_result (nb_attr env obj ''version'') (\<lambda>v. Inr (if v = PNone then obj_set ''version'' (PInt 1) obj else obj))"

definition unique_key_on_create :: "'s nb_env \<Rightarrow> pyval \<Rightarrow> 's \<Rightarrow> (pyval result \<times> 's) option" where
  "unique_key_on_create env obj s =
     (case table_name (ne_ct env) obj of
        Inl e \<Rightarrow> Some (Inl e, s)
      | Inr t \<Rightarrow>
          (case d_allocate_unique_key (ne_driver env) t s of
             None \<Rightarrow> None
           | Some (Inl e, s) \<Rightarrow> Some (Inl e, s)
           | Some (Inr n, s) \<Rightarrow> Some (Inr (obj_set ''unique_key'' (PInt n) obj), s)))"

definition generate_service_id :: "'s nb_env \<Rightarrow> pyval \<Rightarrow> pyval result" where
  "generate_service_id env obj =
     bind_result (nb_attr env obj ''chassis'') (\<lambda>chassis.
     bind_result (case chassis of PStr s \<Rightarrow> Inr s | _ \<Rightarrow> obj_id chassis) (\<lambda>chassis_id.
     bind_result (nb_attr env obj ''binary'') (\<lambda>binary.
       (case binary of
          PStr b \<Rightarrow> Inr (obj_set ''id'' (PStr (ne_uuid5 env (chassis_id @ b))) obj)
        | _ \<Rightarrow> Inl TypeError))))"

definition on_create_pre :: "'s nb_env \<Rightarrow> pyval \<Rightarrow> 's \<Rightarrow> (pyval result \<times> 's) option" where
  "on_create_pre env obj s =
     (if obj_class obj = ''Service'' then Some (generate_service_id env obj, s)
      else if obj_class obj = ''Listener'' then Some (Inr (obj_set ''timestamp'' (PInt (ne_now env)) obj), s)
      else
        let mixins = class_mixins (ne_ct env) obj
        in (case (if Version \<in> set mixins then version_on_create env obj else Inr obj) of
              Inl e \<Rightarrow> Some (Inl e, s)
            | Inr obj \<Rightarrow>
                if UniqueKey \<in> set mixins then unique_key_on_create env obj s else Some (Inr obj, s)))"

definition on_update_pre :: "'s nb_env \<Rightarrow> pyval \<Rightarrow> pyval \<Rightarrow> pyval result" where
  "on_update_pre env obj orig =
     (if obj_class obj = ''Listener'' then Inr (obj_set ''timestamp'' (PInt (ne_now env)) obj)
      else if Version \<in> set (class_mixins (ne_ct env) obj) then
        bind_result (nb_attr env obj ''version'') (\<lambda>v.
        bind_result (nb_attr env orig ''version'') (\<lambda>w.
          if v = w then (case v of PInt n \<Rightarrow> Inr (obj_set ''version'' (PInt (n + 1)) obj) | _ \<Rightarrow> Inl TypeError)
          else Inr obj))
      else Inr obj)"

definition is_stale :: "'s nb_env \<Rightarrow> pyval \<Rightarrow> bool result" where
  "is_stale env publisher =
     bind_result (nb_attr env publisher ''last_activity_timestamp'') (\<lambda>t.
       (case t of PInt n \<Rightarrow> Inr (ne_now env - n > ne_publisher_timeout env) | _ \<Rightarrow> Inl TypeError))"

definition on_get_all_post :: "'s nb_env \<Rightarrow> string \<Rightarrow> pyval list \<Rightarrow> pyval list result" where
  "on_get_all_post env model instances =
     (if model = ''Publisher'' then
        for_each (\<lambda>p ps. bind_result (is_stale env p) (\<lambda>stale. Inr (if stale then ps else ps @ [p]))) instances []
      else Inr instances)"

subsection \<open>Operations\<close>

definition nb_create ::
  "'s nb_env \<Rightarrow> pyval \<Rightarrow> bool \<Rightarrow> 's nb_state \<Rightarrow> (pyval \<times> 's nb_state) outcome option" where
  "nb_create env obj skip_send_event st =
     (case on_create_pre env obj (nb_db st) of
        None \<Rightarrow> None
      | Some (Inl e, s) \<Rightarrow> Some (Some e, (obj, st\<lparr>nb_db := s\<rparr>))
      | Some (Inr obj, s) \<Rightarrow>
          Some (with_value (ne_to_json env obj) (\<lambda>serialized (obj, st).
            with_value (get_topic env obj) (\<lambda>topic (obj, st).
            with_value (table_name (ne_ct env) obj) (\<lambda>t (obj, st).
            with_value (obj_id obj) (\<lambda>i (obj, st).
              (case d_create_key (ne_driver env) t i serialized topic (nb_db st) of
                 (Some e, s) \<Rightarrow> (Some e, (obj, st\<lparr>nb_db := s\<rparr>))
               | (None, s) \<Rightarrow>
                   (None, (obj, if skip_send_event then st\<lparr>nb_db := s\<rparr>
                     else send_db_change_event env t i ''create'' (Some serialized) topic (st\<lparr>nb_db := s\<rparr>)))))
              (obj, st)) (obj, st)) (obj, st)) (obj, st\<lparr>nb_db := s\<rparr>)))"

definition nb_api_get :: "'s nb_env \<Rightarrow> pyval \<Rightarrow> 's \<Rightarrow> pyval option result" where
  "nb_api_get env lean_obj s =
     (let lean_obj = (case lean_obj of PRef m i \<Rightarrow> PObj m [(''id'', PStr i)] | v \<Rightarrow> v)
      in bind_result (table_name (ne_ct env) lean_obj) (\<lambda>t.
         bind_result (obj_id lean_obj) (\<lambda>i.
         bind_result (get_topic env lean_obj) (\<lambda>topic.
           (case d_get_key (ne_driver env) t i topic s of
              Inl (DBKeyNotFound k) \<Rightarrow> Inr None
            | Inl e \<Rightarrow> Inl e
            | Inr serialized \<Rightarrow> bind_result (ne_from_json env (obj_class lean_obj) serialized) (\<lambda>obj. Inr (Some obj)))))))"

definition obj_update :: "'s nb_env \<Rightarrow> pyval \<Rightarrow> pyval \<Rightarrow> (pyval \<times> string list) result" where
  "obj_update env full obj =
     (case (full, obj) of
        (PObj c fs, PObj c' fs') \<Rightarrow>
          (case map_of (ne_ct env) c of
             None \<Rightarrow> Inl AttributeError
           | Some d \<Rightarrow> bind_result (model_update d fs fs') (\<lambda>(fs, changed). Inr (PObj c fs, changed)))
      | _ \<Rightarrow> Inl AttributeError)"

definition nb_api_update :: "'s nb_env \<Rightarrow> pyval \<Rightarrow> bool \<Rightarrow> 's nb_state \<Rightarrow> 's nb_state outcome" where
  "nb_api_update env obj skip_send_event st =
     with_value (nb_api_get env obj (nb_db st)) (\<lambda>full_obj st.
       (case full_obj of
          None \<Rightarrow> with_value (obj_id obj) (\<lambda>i st. (Some (DBKeyNotFound i), st)) st
        | Some db_obj \<Rightarrow>
            with_value (obj_update env db_obj obj) (\<lambda>(full_obj, changed_fields) st.
              if changed_fields = [] then (None, st)
              else
                with_value (on_update_pre env full_obj db_obj) (\<lambda>full_obj st.
                with_value (ne_to_json env full_obj) (\<lambda>serialized st.
                with_value (get_topic env full_obj) (\<lambda>topic st.
                with_value (table_name (ne_ct env) obj) (\<lambda>t st.
                with_value (obj_id full_obj) (\<lambda>i st.
                  (case d_set_key (ne_driver env) t i serialized topic (nb_db st) of
                     (Some e, s) \<Rightarrow> (Some e, st\<lparr>nb_db := s\<rparr>)
                   | (None, s) \<Rightarrow>
                       (None, if skip_send_event then st\<lparr>nb_db := s\<rparr>
                        else send_db_change_event env t i ''set'' (Some serialized) topic (st\<lparr>nb_db := s\<rparr>))))
                  st) st) st) st) st) st)) st"

definition nb_api_delete :: "'s nb_env \<Rightarrow> pyval \<Rightarrow> bool \<Rightarrow> 's nb_state \<Rightarrow> 's nb_state outcome" where
  "nb_api_delete env obj skip_send_event st =
     with_value (get_topic env obj) (\<lambda>topic st.
     with_value (table_name (ne_ct env) obj) (\<lambda>t st.
     with_value (obj_id obj) (\<lambda>i st.
       (case d_delete_key (ne_driver env) t i topic (nb_db st) of
          (Some e, s) \<Rightarrow> (Some e, st\<lparr>nb_db := s\<rparr>)
        | (None, s) \<Rightarrow>
            (None, if skip_send_event then st\<lparr>nb_db := s\<rparr>
             else send_db_change_event env t i ''delete'' None topic (st\<lparr>nb_db := s\<rparr>)))) st) st) st"

definition nb_api_get_all :: "'s nb_env \<Rightarrow> string \<Rightarrow> string option \<Rightarrow> 's \<Rightarrow> pyval list result" where
  "nb_api_get_all env model topic s =
     bind_result (table_name (ne_ct env) (PObj model [])) (\<lambda>t.
     bind_result
       (for_each (\<lambda>e objs. bind_result (ne_from_json env model e) (\<lambda>obj. Inr (objs @ [obj])))
          (d_get_all_entries (ne_driver env) t topic s) [])
       (on_get_all_post env model))"

section \<open>Objects and their rows\<close>

text \<open>
  The models the general hooks serve, and the objects that survive the conversion to JSON and back.
\<close>

definition plain_model :: "'s nb_env \<Rightarrow> string \<Rightarrow> string \<Rightarrow> bool" where
  "plain_model env c t \<longleftrightarrow> c \<noteq> ''Service'' \<and> c \<noteq> ''Listener'' \<and> c \<noteq> ''Publisher'' \<and>
     (\<exists>d. map_of (ne_ct env) c = Some d \<and> cd_table d = Some t)"

definition serializable :: "'s nb_env \<Rightarrow> pyval \<Rightarrow> bool" where
  "serializable env obj \<longleftrightarrow>
     (\<exists>j. ne_to_json env obj = Inr j \<and> ne_from_json env (obj_class obj) j = Inr obj)"

definition lean :: "string \<Rightarrow> string \<Rightarrow> pyval" where
  "lean c i = PObj c [(''id'', PStr i)]"

lemma lean_simps [simp]: "obj_class (lean c i) = c" "obj_id (lean c i) = Inr i"
  by (simp_all add: lean_def obj_class_def obj_id_def)

lemma plain_model_table: "plain_model env (obj_class v) t \<Longrightarrow> table_name (ne_ct env) v = Inr t"
  by (auto simp: plain_model_def table_name_def)

lemma get_topic_plain:
  assumes "plain_model env c t"
  shows "\<exists>topic. get_topic env (PObj c fs) = Inr topic"
  using assms
  by (auto simp: plain_model_def get_topic_def nb_attr_def py_getattr_def read_field_def obj_class_def
      split: option.split pyval.split)

lemma obj_set_simps [simp]:
  "obj_class (obj_set name v obj) = obj_class obj"
  "name \<noteq> ''id'' \<Longrightarrow> obj_id (obj_set name v obj) = obj_id obj"
  by (auto simp: obj_set_def obj_class_def obj_id_def set_field_def split: pyval.split)

lemma obj_set_PObj [simp]: "obj_set name v (PObj c fs) = PObj c (set_field name v fs)"
  by (simp add: obj_set_def)

text \<open>What the hooks make of an object when the counter of its table stands at \<open>n\<close>.\<close>

definition created :: "'s nb_env \<Rightarrow> nat \<Rightarrow> pyval \<Rightarrow> pyval" where
  "created env n obj =
     (let mixins = class_mixins (ne_ct env) obj;
          obj = (if Version \<in> set mixins \<and> nb_attr env obj ''version'' = Inr PNone
                 then obj_set ''version'' (PInt 1) obj else obj)
      in if UniqueKey \<in> set mixins then obj_set ''unique_key'' (PInt (int n + 1)) obj else obj)"

lemma created_simps [simp]: "obj_class (created env n obj) = obj_class obj" "obj_id (created env n obj) = obj_id obj"
  by (simp_all add: created_def Let_def)

lemma created_PObj: "\<exists>fs'. created env n (PObj c fs) = PObj c fs'"
  by (simp add: created_def Let_def)

lemma version_field:
  assumes "Version \<in> set (cd_mixins d)"
  shows "map_of (class_fields d) ''version'' = Some (fld Plain)"
proof -
  have "map_of (concat (map mixin_fields ms)) ''version'' = Some (fld Plain)" if "Version \<in> set ms" for ms
    using that
  proof (induction ms)
    case (Cons m ms)
    then show ?case by (cases m) auto
  qed simp
  from this [OF assms] show ?thesis by (simp add: class_fields_def map_add_def)
qed

lemma version_readable:
  assumes "map_of (ne_ct env) c = Some d" "Version \<in> set (cd_mixins d)"
  shows "nb_attr env (PObj c fs) ''version'' =
    Inr (case map_of fs ''version'' of Some v \<Rightarrow> v | None \<Rightarrow> field_default Plain)"
  using version_field [OF assms(2)] assms(1)
  by (simp add: nb_attr_def py_getattr_def read_field_def fld_def split: option.split)

lemma model_update_keeps:
  assumes "model_update d self other = Inr (fs, changed)"
    and "map_of other k = None \<or> map_of other k = map_of self k"
  shows "map_of fs k = map_of self k \<and> k \<notin> set changed"
proof -
  let ?P = "\<lambda>(cur, ch). map_of cur k = map_of self k \<and> k \<notin> set ch"
  have "?P (fs, changed)"
    using assms(1) unfolding model_update_def
  proof (rule for_each_invariant [where P = ?P])
    fix x s u assume x: "x \<in> set (dict_keys other)" and s: "?P s" and u: "update_step d other x s = Inr u"
    obtain cur ch where cur: "s = (cur, ch)" by (cases s)
    show "?P u"
    proof (cases "x = k")
      case True
      then obtain w where w: "map_of other k = Some w"
        using x by (metis map_of_None_keys not_Some_eq)
      with assms(2) s cur have "map_of cur k = Some w" by simp
      then have "read_field d cur k = read_field d other k"
        using w by (intro read_field_frame) simp
      with u True cur s show ?thesis by (auto simp: update_step_def bind_result_Inr_iff)
    next
      case False
      with u s cur show ?thesis
        by (auto simp: update_step_def bind_result_Inr_iff set_field_def del_field_def
            split: if_splits option.splits)
    qed
  qed simp
  then show ?thesis by simp
qed

section \<open>The operations over a driver's promise\<close>

context db_driver
begin

lemma api_get:
  assumes "ne_driver env = drv" "plain_model env c t" "ct_table ct t" "obj_id (PObj c fs) = Inr i"
  shows "nb_api_get env (PObj c fs) s =
    (case ct_row ct s t i of
       None \<Rightarrow> Inr None
     | Some j \<Rightarrow> bind_result (ne_from_json env c j) (\<lambda>obj. Inr (Some obj)))"
proof -
  obtain topic where "get_topic env (PObj c fs) = Inr topic"
    using get_topic_plain [OF assms(2)] by auto
  then show ?thesis
    using assms plain_model_table [of env "PObj c fs" t]
    by (simp add: nb_api_get_def Let_def read_row obj_class_def split: option.split)
qed

text \<open>Creating an object: the hooks, the row, the event.\<close>

lemma api_create:
  assumes env: "ne_driver env = drv" "plain_model env c t" "ct_table ct t"
    and obj: "obj_id (PObj c fs) = Inr i"
    and n: "UniqueKey \<in> set (class_mixins (ne_ct env) (PObj c fs)) \<longrightarrow> ct_counter ct (nb_db st) t = Some n"
    and ser: "serializable env (created env n (PObj c fs))"
  shows "\<exists>st' j topic. nb_create env (PObj c fs) skip st = Some (None, (created env n (PObj c fs), st')) \<and>
    ne_to_json env (created env n (PObj c fs)) = Inr j \<and>
    get_topic env (created env n (PObj c fs)) = Inr topic \<and>
    (\<forall>t' i'. ct_table ct t' \<longrightarrow> ct_row ct (nb_db st') t' i' =
       (if t' = t \<and> i' = i then Some j else ct_row ct (nb_db st) t' i')) \<and>
    nb_sent st' = nb_sent
      (if skip then st else send_db_change_event env t i ''create'' (Some j) topic st)"
proof -
  let ?mixins = "class_mixins (ne_ct env) (PObj c fs)" and ?obj = "created env n (PObj c fs)"
  from env(2) obtain d where d: "map_of (ne_ct env) c = Some d" "c \<noteq> ''Service''" "c \<noteq> ''Listener''"
    by (auto simp: plain_model_def)
  have tn: "table_name (ne_ct env) v = Inr t" if "obj_class v = c" for v
    using plain_model_table [of env v t] env(2) that by simp
  have cl: "obj_class (PObj c fs) = c" by (simp add: obj_class_def)
  have v: "(if Version \<in> set ?mixins then version_on_create env (PObj c fs) else Inr (PObj c fs)) =
      Inr (if Version \<in> set ?mixins \<and> nb_attr env (PObj c fs) ''version'' = Inr PNone
           then obj_set ''version'' (PInt 1) (PObj c fs) else PObj c fs)"
    using version_readable [OF d(1), of fs] d(1) by (auto simp: version_on_create_def class_mixins_def cl)
  obtain s1 where s1: "on_create_pre env (PObj c fs) (nb_db st) = Some (Inr ?obj, s1)"
    "\<forall>t'. ct_table ct t' \<longrightarrow> ct_row ct s1 t' = ct_row ct (nb_db st) t'"
  proof (cases "UniqueKey \<in> set ?mixins")
    case True
    with n allocate [of "nb_db st" t n] obtain s' where
      s': "d_allocate_unique_key drv t (nb_db st) = Some (Inr (int n + 1), s')"
        "\<forall>t'. ct_table ct t' \<longrightarrow> ct_row ct s' t' = ct_row ct (nb_db st) t'" by auto
    have "on_create_pre env (PObj c fs) (nb_db st) = Some (Inr ?obj, s')"
      unfolding on_create_pre_def Let_def v using True d(2,3) s'(1) env(1)
      by (simp add: cl unique_key_on_create_def tn created_def Let_def)
    with s'(2) that show thesis by blast
  next
    case False
    have "on_create_pre env (PObj c fs) (nb_db st) = Some (Inr ?obj, nb_db st)"
      unfolding on_create_pre_def Let_def v using False d(2,3) by (simp add: cl created_def Let_def)
    with that show thesis by blast
  qed
  from ser obtain j where j: "ne_to_json env ?obj = Inr j" by (auto simp: serializable_def)
  obtain topic where topic: "get_topic env ?obj = Inr topic"
    using get_topic_plain [OF env(2)] created_PObj [of env n c fs] by metis
  from create_row [OF env(3), of i j topic s1] obtain s2 where
    s2: "d_create_key drv t i j topic s1 = (None, s2)" "row_written ct t i (Some j) s1 s2" by blast
  let ?st = "if skip then st\<lparr>nb_db := s2\<rparr> else send_db_change_event env t i ''create'' (Some j) topic (st\<lparr>nb_db := s2\<rparr>)"
  have "nb_create env (PObj c fs) skip st = Some (None, (?obj, ?st))"
    using j topic s2(1) obj env(1) tn [of ?obj] by (simp add: nb_create_def s1(1) cl)
  moreover have "nb_db ?st = s2" by (simp add: send_db_change_event_def Let_def)
  moreover have "nb_sent ?st = nb_sent (if skip then st else send_db_change_event env t i ''create'' (Some j) topic st)"
    by (simp add: send_db_change_event_def Let_def)
  ultimately show ?thesis using j topic s2(2) s1(2) by (auto simp: row_written_def)
qed

lemma api_delete:
  assumes env: "ne_driver env = drv" "plain_model env c t" "ct_table ct t"
  shows "\<exists>st' topic. nb_api_delete env (lean c i) skip st =
      (if ct_row ct (nb_db st) t i = None then Some (DBKeyNotFound i) else None, st') \<and>
    get_topic env (lean c i) = Inr topic \<and>
    (\<forall>t' i'. ct_table ct t' \<longrightarrow> ct_row ct (nb_db st') t' i' =
       (if t' = t \<and> i' = i then None else ct_row ct (nb_db st) t' i')) \<and>
    nb_sent st' = nb_sent (if skip \<or> ct_row ct (nb_db st) t i = None then st
      else send_db_change_event env t i ''delete'' None topic st)"
proof -
  obtain topic where topic: "get_topic env (lean c i) = Inr topic"
    using get_topic_plain [OF env(2)] by (auto simp: lean_def)
  have tn: "table_name (ne_ct env) (lean c i) = Inr t" using plain_model_table [of env "lean c i" t] env(2) by simp
  from delete_row [OF env(3), of i topic "nb_db st"] obtain s where
    s: "d_delete_key drv t i topic (nb_db st) =
        (if ct_row ct (nb_db st) t i = None then Some (DBKeyNotFound i) else None, s)"
      "row_written ct t i None (nb_db st) s" by blast
  show ?thesis
    using topic tn s env(1)
    by (auto simp: nb_api_delete_def row_written_def send_db_change_event_def Let_def)
qed

text \<open>Updating an object that has a version: the version grows, whatever else changes.\<close>

lemma api_update:
  assumes env: "ne_driver env = drv" "plain_model env c t" "ct_table ct t"
    and d: "map_of (ne_ct env) c = Some d" "Version \<in> set (cd_mixins d)"
    and row: "ct_row ct (nb_db st) t i = Some j" "ne_from_json env c j = Inr (PObj c ofs)"
    and ids: "obj_id (PObj c ofs) = Inr i" "obj_id (PObj c nfs) = Inr i"
    and ver: "map_of ofs ''version'' = Some (PInt v)" "map_of nfs ''version'' \<in> {None, Some (PInt v)}"
    and upd: "model_update d ofs nfs = Inr (fs, changed)" "changed \<noteq> []"
    and ser: "ne_to_json env (PObj c (set_field ''version'' (PInt (v + 1)) fs)) = Inr j'"
  shows "\<exists>st' topic. nb_api_update env (PObj c nfs) skip st = (None, st') \<and>
    get_topic env (PObj c (set_field ''version'' (PInt (v + 1)) fs)) = Inr topic \<and>
    (\<forall>t' i'. ct_table ct t' \<longrightarrow> ct_row ct (nb_db st') t' i' =
       (if t' = t \<and> i' = i then Some j' else ct_row ct (nb_db st) t' i')) \<and>
    nb_sent st' = nb_sent (if skip then st else send_db_change_event env t i ''set'' (Some j') topic st)"
proof -
  let ?new = "PObj c (set_field ''version'' (PInt (v + 1)) fs)"
  have keep: "map_of fs ''version'' = Some (PInt v)" "map_of fs ''id'' = map_of ofs ''id''"
    using model_update_keeps [OF upd(1), of "''version''"] model_update_keeps [OF upd(1), of "''id''"] ver ids
    by (auto simp: obj_id_def split: option.splits pyval.splits)
  have c: "c \<noteq> ''Listener''" using env(2) by (simp add: plain_model_def)
  have id_new: "obj_id ?new = Inr i" using keep(2) ids(1) by (simp add: obj_id_def set_field_def)
  have get: "nb_api_get env (PObj c nfs) (nb_db st) = Inr (Some (PObj c ofs))"
    using api_get [OF env ids(2)] row by simp
  have merge: "obj_update env (PObj c ofs) (PObj c nfs) = Inr (PObj c fs, changed)"
    using d(1) upd(1) by (simp add: obj_update_def)
  have bump: "on_update_pre env (PObj c fs) (PObj c ofs) = Inr ?new"
    using version_readable [OF d] c d keep(1) ver(1)
    by (simp add: on_update_pre_def class_mixins_def obj_class_def)
  obtain topic where topic: "get_topic env ?new = Inr topic" using get_topic_plain [OF env(2)] by blast
  have tn: "table_name (ne_ct env) (PObj c nfs) = Inr t"
    using plain_model_table [of env "PObj c nfs" t] env(2) by (simp add: obj_class_def)
  from set_row [OF env(3), of "nb_db st" i j' topic] row(1) obtain s where
    s: "d_set_key drv t i j' topic (nb_db st) = (None, s)" "row_written ct t i (Some j') (nb_db st) s" by auto
  let ?st = "if skip then st\<lparr>nb_db := s\<rparr> else send_db_change_event env t i ''set'' (Some j') topic (st\<lparr>nb_db := s\<rparr>)"
  have "nb_api_update env (PObj c nfs) skip st = (None, ?st)"
    using get merge bump ser topic tn id_new s(1) env(1) upd(2) by (simp add: nb_api_update_def)
  then show ?thesis using s(2) topic
    by (auto simp: row_written_def send_db_change_event_def Let_def)
qed

end

text \<open>The driver on etcd keeps the promise.\<close>

lemma etcd_db_driver: "etcd_laws cl view \<Longrightarrow> db_driver (etcd_driver cl) (etcd_content view)"
  by (rule etcd_client.is_driver) (rule etcd_client.intro)

section \<open>What the API guarantees\<close>

definition nb_event :: "'s nb_env \<Rightarrow> string \<Rightarrow> string \<Rightarrow> string \<Rightarrow> string option \<Rightarrow> string option \<Rightarrow> db_update list" where
  "nb_event env t i action v topic =
     (if ne_use_pubsub env then
        [\<lparr>du_table = Some t, du_key = Some i, du_action = action, du_value = v, du_timestamp = ne_now env,
          du_topic = (if \<not> ne_selective env \<or> topic = None then Some SEND_ALL_TOPIC else topic)\<rparr>]
      else [])"

lemma send_event_log: "nb_sent (send_db_change_event env t i action v topic st) = nb_sent st @ nb_event env t i action v topic"
  by (simp add: send_db_change_event_def nb_event_def Let_def)

text \<open>
  C25. What is created can be read. On the etcd driver, creating an object of a general model
  returns; the object then has a version, and a unique key one above the counter, if its model has
  such fields; reading its id returns exactly this object while every other row is as it was; one
  creation event with the stored text is published. Deleting it afterwards returns, publishes one
  deletion event and makes the id unreadable, and deleting it again raises DBKeyNotFound and
  publishes nothing.
\<close>

theorem nb_create_read_delete:
  assumes laws: "etcd_laws cl view" and env: "ne_driver env = etcd_driver cl" "plain_model env c t" "etcd_table t"
    and obj: "obj_id (PObj c fs) = Inr i"
    and n: "counter_value (view (nb_db st) (alloc_key t)) = Some n"
    and ser: "serializable env (created env n (PObj c fs))"
  shows "\<exists>st1 j topic st2 topic' st3.
    nb_create env (PObj c fs) False st = Some (None, (created env n (PObj c fs), st1)) \<and>
    nb_api_get env (lean c i) (nb_db st1) = Inr (Some (created env n (PObj c fs))) \<and>
    (\<forall>t' i'. etcd_table t' \<and> (t', i') \<noteq> (t, i) \<longrightarrow>
       etcd_get_key cl t' i' None (nb_db st1) = etcd_get_key cl t' i' None (nb_db st)) \<and>
    nb_sent st1 = nb_sent st @ nb_event env t i ''create'' (Some j) topic \<and>
    nb_api_delete env (lean c i) False st1 = (None, st2) \<and>
    nb_api_get env (lean c i) (nb_db st2) = Inr None \<and>
    nb_sent st2 = nb_sent st1 @ nb_event env t i ''delete'' None topic' \<and>
    nb_api_delete env (lean c i) False st2 = (Some (DBKeyNotFound i), st3) \<and> nb_sent st3 = nb_sent st2"
proof -
  let ?ct = "etcd_content view" and ?obj = "created env n (PObj c fs)"
  note drv = etcd_db_driver [OF laws]
  have tbl: "ct_table ?ct t" "ct_counter ?ct (nb_db st) t = Some n" using env(3) n by (simp_all add: etcd_content_def)
  from db_driver.api_create [OF drv env(1,2) tbl(1) obj, of st n False] tbl(2) ser obtain st1 j topic where
    create: "nb_create env (PObj c fs) False st = Some (None, (?obj, st1))" "ne_to_json env ?obj = Inr j"
      "\<forall>t' i'. ct_table ?ct t' \<longrightarrow> ct_row ?ct (nb_db st1) t' i' = (if t' = t \<and> i' = i then Some j else ct_row ?ct (nb_db st) t' i')"
      "nb_sent st1 = nb_sent st @ nb_event env t i ''create'' (Some j) topic"
    by (auto simp: send_event_log)
  have lean_id: "obj_id (PObj c [(''id'', PStr i)]) = Inr i" by (simp add: obj_id_def)
  note get = db_driver.api_get [OF drv env(1,2) tbl(1) lean_id, folded lean_def]
  have row1: "ct_row ?ct (nb_db st1) t i = Some j" using create(3) tbl(1) by simp
  have read: "nb_api_get env (lean c i) (nb_db st1) = Inr (Some ?obj)"
    using get [of "nb_db st1"] row1 ser create(2) by (auto simp: serializable_def obj_class_def [of "PObj c fs"])
  from db_driver.api_delete [OF drv env(1,2) tbl(1), of i False st1] row1 obtain st2 topic' where
    delete: "nb_api_delete env (lean c i) False st1 = (None, st2)" "ct_row ?ct (nb_db st2) t i = None"
      "nb_sent st2 = nb_sent st1 @ nb_event env t i ''delete'' None topic'"
    using tbl(1) by (auto simp: send_event_log)
  have gone: "nb_api_get env (lean c i) (nb_db st2) = Inr None" using get delete(2) by simp
  from db_driver.api_delete [OF drv env(1,2) tbl(1), of i False st2] delete(2) obtain st3 where
    again: "nb_api_delete env (lean c i) False st2 = (Some (DBKeyNotFound i), st3)" "nb_sent st3 = nb_sent st2"
    by auto
  have "etcd_get_key cl t' i' None (nb_db st1) = etcd_get_key cl t' i' None (nb_db st)"
    if "etcd_table t'" "(t', i') \<noteq> (t, i)" for t' i'
    using create(3) that db_driver.read_row [OF drv, of t'] by (auto simp: etcd_content_def etcd_driver_def)
  with create(1,4) read delete(1,3) gone again show ?thesis by blast
qed

text \<open>
  C8. An update reaches the controllers. On the etcd driver, updating a stored object of a
  versioned model with an instance that changes some field and does not set the version itself
  returns; the row then holds the merged object with the version one higher, one event with the
  stored text is published, and every controller that still holds the old object takes the new
  one as newer. An instance that changes nothing leaves database and publisher alone, and an id
  that is not stored raises DBKeyNotFound.
\<close>

theorem nb_update_reaches_controllers:
  assumes laws: "etcd_laws cl view" and env: "ne_driver env = etcd_driver cl" "plain_model env c t" "etcd_table t"
    and d: "map_of (ne_ct env) c = Some d" "Version \<in> set (cd_mixins d)"
    and old: "nb_api_get env (PObj c nfs) (nb_db st) = Inr (Some (PObj c ofs))"
    and ids: "obj_id (PObj c ofs) = Inr i" "obj_id (PObj c nfs) = Inr i"
    and ver: "map_of ofs ''version'' = Some (PInt v)" "map_of nfs ''version'' \<in> {None, Some (PInt v)}"
    and upd: "model_update d ofs nfs = Inr (fs, changed)"
    and new: "new = PObj c (set_field ''version'' (PInt (v + 1)) fs)" "serializable env new"
  shows "(if changed = [] then nb_api_update env (PObj c nfs) False st = (None, st)
     else \<exists>st' j topic. nb_api_update env (PObj c nfs) False st = (None, st') \<and>
       nb_api_get env (lean c i) (nb_db st') = Inr (Some new) \<and> ne_to_json env new = Inr j \<and>
       nb_sent st' = nb_sent st @ nb_event env t i ''set'' (Some j) topic \<and>
       (\<forall>(cenv :: 'a ctl_env) s. ce_ct cenv = ne_ct env \<longrightarrow> is_newer cenv s new (Some (PObj c ofs)) = Inr True)) \<and>
    (\<forall>k fs'. nb_api_get env (lean c k) (nb_db st) = Inr None \<longrightarrow> obj_id (PObj c fs') = Inr k \<longrightarrow>
       nb_api_update env (PObj c fs') False st = (Some (DBKeyNotFound k), st))"
proof -
  let ?ct = "etcd_content view"
  note drv = etcd_db_driver [OF laws]
  have tbl: "ct_table ?ct t" using env(3) by (simp add: etcd_content_def)
  note get = db_driver.api_get [OF drv env(1,2) tbl]
  have lean_id: "obj_id (PObj c [(''id'', PStr k)]) = Inr k" for k by (simp add: obj_id_def)
  from old get [OF ids(2)] obtain j0 where
    row: "ct_row ?ct (nb_db st) t i = Some j0" "ne_from_json env c j0 = Inr (PObj c ofs)"
    by (auto simp: bind_result_Inr_iff split: option.splits)
  from new(2) obtain j where j: "ne_to_json env new = Inr j" "ne_from_json env c j = Inr new"
    by (auto simp: serializable_def new(1) obj_class_def)
  have idle: "nb_api_update env (PObj c nfs) False st = (None, st)" if "changed = []"
    using that old upd d(1) by (simp add: nb_api_update_def obj_update_def)
  have newer: "is_newer cenv s new (Some (PObj c ofs)) = Inr True"
    if "ce_ct cenv = ne_ct env" for cenv :: "'a ctl_env" and s
    using that d version_field [OF d(2)] ver(1)
    by (simp add: is_newer_def new(1) class_mixins_def obj_class_def py_getattr_def read_field_def set_field_def)
  have run: "\<exists>st' topic. nb_api_update env (PObj c nfs) False st = (None, st') \<and>
      nb_api_get env (lean c i) (nb_db st') = Inr (Some new) \<and>
      nb_sent st' = nb_sent st @ nb_event env t i ''set'' (Some j) topic" if "changed \<noteq> []"
  proof -
    from db_driver.api_update [OF drv env(1,2) tbl d row ids ver upd that j(1) [unfolded new(1)], of False]
    obtain st' topic where
      st': "nb_api_update env (PObj c nfs) False st = (None, st')" "ct_row ?ct (nb_db st') t i = Some j"
        "nb_sent st' = nb_sent st @ nb_event env t i ''set'' (Some j) topic"
      using tbl by (auto simp: send_event_log)
    then show ?thesis using get [OF lean_id, of i "nb_db st'"] j(2) by (auto simp: lean_def)
  qed
  have missing: "nb_api_update env (PObj c fs') False st = (Some (DBKeyNotFound k), st)"
    if "nb_api_get env (lean c k) (nb_db st) = Inr None" "obj_id (PObj c fs') = Inr k" for k fs'
    using that get [OF that(2), of "nb_db st"] get [OF lean_id, of k "nb_db st"]
    by (auto simp: nb_api_update_def lean_def bind_result_Inr_iff split: option.splits)
  show ?thesis
  proof (cases "changed = []")
    case True
    then show ?thesis using idle missing by simp
  next
    case False
    from run [OF False] obtain st' topic where "nb_api_update env (PObj c nfs) False st = (None, st')"
      "nb_api_get env (lean c i) (nb_db st') = Inr (Some new)"
      "nb_sent st' = nb_sent st @ nb_event env t i ''set'' (Some j) topic" by blast
    then show ?thesis using False j(1) newer missing by auto
  qed
qed

section \<open>Witnesses\<close>

text \<open>A security group on a dictionary client; the two texts stand for its JSON before and after an update.\<close>

definition nb_group :: "int \<Rightarrow> string \<Rightarrow> pyval" where
  "nb_group v name = PObj ''SecurityGroup''
     [(''id'', PStr ''g''), (''topic'', PStr ''t''), (''name'', PStr name), (''version'', PInt v), (''unique_key'', PInt 1)]"

definition nb_witness_env :: "(string, string) dict nb_env" where
  "nb_witness_env =
     \<lparr>ne_ct = df_classes, ne_driver = etcd_driver dict_etcd, ne_use_pubsub = True, ne_selective = True,
      ne_to_json = (\<lambda>v. if v = nb_group 1 ''a'' then Inr ''A'' else if v = nb_group 2 ''b'' then Inr ''B'' else Inl ValidationError),
      ne_from_json = (\<lambda>c j. if j = ''A'' then Inr (nb_group 1 ''a'') else if j = ''B'' then Inr (nb_group 2 ''b'') else Inl ValueError),
      ne_now = 0, ne_publisher_timeout = 70, ne_uuid5 = (\<lambda>x. x)\<rparr>"

definition nb_witness_state :: "(string, string) dict \<Rightarrow> (string, string) dict nb_state" where
  "nb_witness_state d = \<lparr>nb_db = d, nb_sent = []\<rparr>"


lemma nb_witness_simps:
  "plain_model nb_witness_env ''SecurityGroup'' ''secgroup''" "etcd_table ''secgroup''"
  "ne_driver nb_witness_env = etcd_driver dict_etcd" "ne_ct nb_witness_env = df_classes"
  "serializable nb_witness_env (nb_group 1 ''a'')" "serializable nb_witness_env (nb_group 2 ''b'')"
  "ne_use_pubsub nb_witness_env"
  by (simp_all add: plain_model_def etcd_table_def UNIQUE_KEY_TABLE_def nb_witness_env_def serializable_def
      nb_group_def obj_class_def class_decl_defs)

lemma nb_group_created:
  "created nb_witness_env 0 (PObj ''SecurityGroup'' [(''id'', PStr ''g''), (''topic'', PStr ''t''), (''name'', PStr ''a'')]) =
     nb_group 1 ''a''"
  by (simp add: created_def nb_attr_def class_mixins_def obj_class_def py_getattr_def read_field_def
      class_fields_def class_decl_defs set_field_def nb_witness_simps nb_group_def Let_def)

theorem nb_create_read_delete_witness:
  "\<exists>st. nb_create nb_witness_env
       (PObj ''SecurityGroup'' [(''id'', PStr ''g''), (''topic'', PStr ''t''), (''name'', PStr ''a'')]) False
       (nb_witness_state []) = Some (None, (nb_group 1 ''a'', st)) \<and>
     nb_api_get nb_witness_env (lean ''SecurityGroup'' ''g'') (nb_db st) = Inr (Some (nb_group 1 ''a'')) \<and>
     length (nb_sent st) = 1"
proof -
  let ?fs = "[(''id'', PStr ''g''), (''topic'', PStr ''t''), (''name'', PStr ''a'')]"
  have "obj_id (PObj ''SecurityGroup'' ?fs) = Inr ''g''" "counter_value None = Some 0"
    "serializable nb_witness_env (created nb_witness_env 0 (PObj ''SecurityGroup'' ?fs))"
    by (simp_all add: obj_id_def counter_value_def nb_group_created nb_witness_simps)
  from nb_create_read_delete [OF dict_etcd_laws nb_witness_simps(3,1,2) this(1) _ this(3), of "nb_witness_state []"] this(2)
  show ?thesis
    by (auto simp: nb_group_created nb_witness_state_def nb_event_def nb_witness_simps)
qed

theorem nb_update_reaches_controllers_witness:
  "\<exists>st. nb_api_update nb_witness_env (PObj ''SecurityGroup'' [(''id'', PStr ''g''), (''name'', PStr ''b'')]) False
       (nb_witness_state [(''/secgroup/g'', ''A'')]) = (None, st) \<and>
     nb_api_get nb_witness_env (lean ''SecurityGroup'' ''g'') (nb_db st) = Inr (Some (nb_group 2 ''b'')) \<and>
     length (nb_sent st) = 1"
proof -
  let ?old = "[(''id'', PStr ''g''), (''topic'', PStr ''t''), (''name'', PStr ''a''), (''version'', PInt 1), (''unique_key'', PInt 1)]"
  let ?fs = "[(''id'', PStr ''g''), (''topic'', PStr ''t''), (''name'', PStr ''b''), (''version'', PInt 1), (''unique_key'', PInt 1)]"
  let ?nfs = "[(''id'', PStr ''g''), (''name'', PStr ''b'')]" and ?st = "nb_witness_state [(''/secgroup/g'', ''A'')]"
  have d: "map_of (ne_ct nb_witness_env) ''SecurityGroup'' = Some SecurityGroup" "Version \<in> set (cd_mixins SecurityGroup)"
    by (simp_all add: nb_witness_simps class_decl_defs)
  have old: "nb_api_get nb_witness_env (PObj ''SecurityGroup'' ?nfs) (nb_db ?st) = Inr (Some (PObj ''SecurityGroup'' ?old))"
    by (simp add: nb_api_get_def table_name_def obj_class_def obj_id_def get_topic_def nb_attr_def py_getattr_def
        read_field_def class_fields_def class_decl_defs nb_witness_env_def nb_witness_state_def etcd_driver_def
        etcd_get_key_def etcd_get_raw_def dict_etcd_def make_key_def nb_group_def)
  have ids: "obj_id (PObj ''SecurityGroup'' ?old) = Inr ''g''" "obj_id (PObj ''SecurityGroup'' ?nfs) = Inr ''g''"
    "map_of ?old ''version'' = Some (PInt 1)" "map_of ?nfs ''version'' \<in> {None, Some (PInt 1)}"
    by (simp_all add: obj_id_def)
  have upd: "model_update SecurityGroup ?old ?nfs = Inr (?fs, [''name''])"
    by (simp add: model_update_def update_step_def read_field_def class_fields_def class_decl_defs
        set_field_def set_add_def)
  have new: "nb_group 2 ''b'' = PObj ''SecurityGroup'' (set_field ''version'' (PInt (1 + 1)) ?fs)"
    by (simp add: nb_group_def set_field_def)
  from nb_update_reaches_controllers [OF dict_etcd_laws nb_witness_simps(3,1,2) d old ids upd new nb_witness_simps(6)]
  show ?thesis by (auto simp: nb_witness_state_def nb_event_def nb_witness_simps)
qed


end
