(* ===== verification/Controller_Loop.thy ===== *)
theory Controller_Loop
  imports Topology Nb_Api "HOL-Library.Multiset"
begin

text \<open>
  How updates reach the controller: the priority queue of \<open>df_local_controller.py\<close> with the
  order of \<open>db_common.DbUpdate\<close>, the dispatch of an update by its action, the sync that
  follows a failed one, and the limiter of \<open>dragonflow/common/utils.py\<close> in front of it.
\<close>

declare map_of_eq_Some_iff [simp del] Some_eq_map_of_iff [simp del]

section \<open>The rate limiter\<close>

text \<open>The deque holds the times of the latest accepted calls, the oldest first.\<close>

record rate_limiter =
  rl_max :: nat
  rl_time_unit :: int
  rl_deque :: "int list"

definition new_rate_limiter :: "nat \<Rightarrow> int \<Rightarrow> rate_limiter" where
  "new_rate_limiter max_rate time_unit = \<lparr>rl_max = max_rate, rl_time_unit = time_unit, rl_deque = []\<rparr>"

definition deque_append :: "nat \<Rightarrow> 'a \<Rightarrow> 'a list \<Rightarrow> 'a list" where
  "deque_append maxlen x q = (if maxlen = 0 then [] else if length q = maxlen then tl q @ [x] else q @ [x])"

text \<open>The call answers whether the caller has to hold back.\<close>

definition rate_limit :: "int \<Rightarrow> rate_limiter \<Rightarrow> (bool \<times> rate_limiter) result" where
  "rate_limit now rl =
     (let accepted = rl\<lparr>rl_deque := deque_append (rl_max rl) now (rl_deque rl)\<rparr>
      in if rl_max rl = length (rl_deque rl) then
           (case rl_deque rl of
              [] \<Rightarrow> Inl IndexError
            | oldest # q \<Rightarrow> if now - oldest > rl_time_unit rl then Inr (False, accepted) else Inr (True, rl))
         else Inr (False, accepted))"

text \<open>The times at which a sequence of calls was let through.\<close>

fun let_through :: "int list \<Rightarrow> rate_limiter \<Rightarrow> int list result" where
  "let_through [] rl = Inr []"
| "let_through (now # calls) rl =
     bind_result (rate_limit now rl) (\<lambda>(limited, rl).
     bind_result (let_through calls rl) (\<lambda>ts. Inr (if limited then ts else now # ts)))"

text \<open>
  With the deque in front, every accepted call lies more than a time unit after the one
  \<open>rl_max\<close> calls before it.
\<close>

definition spaced :: "nat \<Rightarrow> int \<Rightarrow> int list \<Rightarrow> bool" where
  "spaced n unit ts \<longleftrightarrow> (\<forall>i. i + n < length ts \<longrightarrow> ts ! (i + n) - ts ! i > unit)"

lemma rate_limit_cases:
  assumes "0 < rl_max rl" "length (rl_deque rl) \<le> rl_max rl"
  shows "\<exists>limited rl'. rate_limit now rl = Inr (limited, rl') \<and> rl_max rl' = rl_max rl \<and>
    rl_time_unit rl' = rl_time_unit rl \<and> length (rl_deque rl') \<le> rl_max rl \<and>
    (if limited then rl' = rl
     else (if length (rl_deque rl) < rl_max rl then rl_deque rl' = rl_deque rl @ [now]
           else rl_deque rl' = tl (rl_deque rl) @ [now] \<and> now - hd (rl_deque rl) > rl_time_unit rl))"
  using assms by (cases "rl_deque rl") (auto simp: rate_limit_def deque_append_def Let_def)

lemma spaced_drop: "spaced n unit (x # ts) \<Longrightarrow> spaced n unit ts"
  unfolding spaced_def by (metis add_Suc length_Cons nth_Cons_Suc Suc_less_eq)

lemma spaced_Cons:
  assumes "spaced n unit ts" "0 < n" "n \<le> length ts \<longrightarrow> ts ! (n - 1) - x > unit"
  shows "spaced n unit (x # ts)"
  unfolding spaced_def
proof (intro allI impI)
  fix i assume i: "i + n < length (x # ts)"
  show "(x # ts) ! (i + n) - (x # ts) ! i > unit"
  proof (cases i)
    case 0
    with i assms(2,3) show ?thesis by (cases n) auto
  next
    case (Suc k)
    with i assms(1) show ?thesis by (auto simp: spaced_def)
  qed
qed

lemma let_through_spaced:
  assumes "0 < rl_max rl" "length (rl_deque rl) \<le> rl_max rl" "spaced (rl_max rl) (rl_time_unit rl) (rl_deque rl)"
  shows "\<exists>ts. let_through calls rl = Inr ts \<and> spaced (rl_max rl) (rl_time_unit rl) (rl_deque rl @ ts)"
  using assms
proof (induction calls arbitrary: rl)
  case Nil
  then show ?case by simp
next
  case (Cons now calls)
  from rate_limit_cases [OF Cons.prems(1,2), of now] obtain limited rl' where
    r: "rate_limit now rl = Inr (limited, rl')" "rl_max rl' = rl_max rl" "rl_time_unit rl' = rl_time_unit rl"
      "length (rl_deque rl') \<le> rl_max rl"
      "if limited then rl' = rl
       else (if length (rl_deque rl) < rl_max rl then rl_deque rl' = rl_deque rl @ [now]
             else rl_deque rl' = tl (rl_deque rl) @ [now] \<and> now - hd (rl_deque rl) > rl_time_unit rl)"
    by blast
  show ?case
  proof (cases "\<not> limited \<and> length (rl_deque rl) = rl_max rl")
    case True
    then obtain old q where q: "rl_deque rl = old # q" using Cons.prems(1) by (cases "rl_deque rl") auto
    have len: "length q = rl_max rl - 1" using True q by auto
    have dq: "rl_deque rl' = q @ [now]" "now - old > rl_time_unit rl" using r(5) True q by auto
    have "spaced (rl_max rl) (rl_time_unit rl) (q @ [now])"
      using len Cons.prems(1) by (auto simp: spaced_def)
    with Cons.IH [of rl'] r(2-4) dq(1) Cons.prems(1) obtain ts where
      ts: "let_through calls rl' = Inr ts" "spaced (rl_max rl) (rl_time_unit rl) ((q @ [now]) @ ts)" by auto
    have "spaced (rl_max rl) (rl_time_unit rl) (old # (q @ [now]) @ ts)"
      using ts(2) Cons.prems(1) dq(2) len by (intro spaced_Cons) (auto simp: nth_append)
    then show ?thesis using ts(1) r(1) True q by simp
  next
    case False
    then have "limited \<and> rl' = rl \<or> \<not> limited \<and> rl_deque rl' = rl_deque rl @ [now]"
      using r(5) Cons.prems(2) by (auto split: if_splits)
    then show ?thesis
    proof (elim disjE conjE)
      assume "limited" "rl' = rl"
      with Cons.IH [OF Cons.prems] r(1) show ?thesis by auto
    next
      assume l: "\<not> limited" and dq: "rl_deque rl' = rl_deque rl @ [now]"
      have "spaced (rl_max rl) (rl_time_unit rl) (rl_deque rl')"
        using r(4) dq by (auto simp: spaced_def)
      with Cons.IH [of rl'] r(2-4) Cons.prems(1) obtain ts where
        "let_through calls rl' = Inr ts" "spaced (rl_max rl) (rl_time_unit rl) (rl_deque rl' @ ts)" by auto
      then show ?thesis using r(1) l dq by auto
    qed
  qed
qed

text \<open>A list that is spaced has few elements in any closed window of one time unit.\<close>

lemma spaced_far:
  assumes "spaced n unit ts" "0 \<le> unit" "i + Suc m * n < length ts"
  shows "ts ! (i + Suc m * n) - ts ! i > unit"
  using assms(3)
proof (induction m)
  case 0
  then show ?case using assms(1) by (simp add: spaced_def)
next
  case (Suc m)
  have "ts ! (i + Suc m * n) - ts ! i > unit" by (rule Suc.IH) (use Suc.prems in simp)
  moreover have "ts ! (i + Suc m * n + n) - ts ! (i + Suc m * n) > unit"
    using assms(1) [unfolded spaced_def, rule_format, of "i + Suc m * n"] Suc.prems by (simp add: algebra_simps)
  ultimately show ?case using assms(2) by (simp add: algebra_simps)
qed

lemma spaced_window:
  assumes "spaced n unit ts" "0 \<le> unit" "0 < n"
  shows "card {i. i < length ts \<and> a \<le> ts ! i \<and> ts ! i \<le> a + unit} \<le> n"
proof -
  let ?W = "{i. i < length ts \<and> a \<le> ts ! i \<and> ts ! i \<le> a + unit}"
  have far: False if "i \<in> ?W" "j \<in> ?W" "i < j" "i mod n = j mod n" for i j
  proof -
    from that(3,4) obtain q where "j = i + n * q" using mod_eq_nat2E [of i n j] by auto
    moreover from this that(3) obtain m where "q = Suc m" by (cases q) auto
    ultimately have "ts ! j - ts ! i > unit"
      using spaced_far [OF assms(1,2), of i m] that(2) by (simp add: mult.commute)
    with that(1,2) show False by auto
  qed
  have "inj_on (\<lambda>i. i mod n) ?W"
  proof (rule inj_onI, rule ccontr)
    fix i j assume "i \<in> ?W" "j \<in> ?W" "i mod n = j mod n" "i \<noteq> j"
    then show False using far [of i j] far [of j i] by (cases "i < j") auto
  qed
  then have "card ?W \<le> card {..<n}" using assms(3) by (intro card_inj_on_le [where f = "\<lambda>i. i mod n"]) auto
  then show ?thesis by simp
qed

text \<open>
  C35. The limiter keeps its rate. With a positive rate it answers every call, whatever the clock
  does between the calls, and in any period of one time unit it lets at most \<open>max_rate\<close>
  calls through; a limiter with rate 0 raises at its first call.
\<close>

theorem rate_limiter_keeps_rate:
  assumes "0 \<le> time_unit"
  shows "(if max_rate = 0 then let_through (now # calls) (new_rate_limiter max_rate time_unit) = Inl IndexError
     else \<exists>ts. let_through (now # calls) (new_rate_limiter max_rate time_unit) = Inr ts \<and>
       (\<forall>a. card {i. i < length ts \<and> a \<le> ts ! i \<and> ts ! i \<le> a + time_unit} \<le> max_rate))"
proof (cases "max_rate = 0")
  case True
  then show ?thesis by (simp add: new_rate_limiter_def rate_limit_def)
next
  case False
  let ?rl = "new_rate_limiter max_rate time_unit"
  have "\<exists>ts. let_through (now # calls) ?rl = Inr ts \<and> spaced max_rate time_unit ts"
    using let_through_spaced [of ?rl "now # calls"] False by (simp add: new_rate_limiter_def spaced_def)
  then show ?thesis using False spaced_window [of max_rate time_unit] assms by auto
qed

theorem rate_limiter_keeps_rate_witness:
  "\<exists>ts. let_through [0, 50, 100, 181, 200] (new_rate_limiter 1 180) = Inr ts \<and> ts = [0, 181] \<and>
     card {i. i < length ts \<and> 1 \<le> ts ! i \<and> ts ! i \<le> 1 + 180} \<le> 1"
proof -
  have "let_through [0, 50, 100, 181, 200] (new_rate_limiter 1 180) = Inr [0, 181]"
    by (simp add: new_rate_limiter_def rate_limit_def deque_append_def Let_def)
  moreover obtain ts where "let_through [0, 50, 100, 181, 200] (new_rate_limiter 1 180) = Inr ts"
      "\<forall>a. card {i. i < length ts \<and> a \<le> ts ! i \<and> ts ! i \<le> a + 180} \<le> 1"
    using rate_limiter_keeps_rate [of 180 1 0 "[50, 100, 181, 200]"] by auto
  ultimately have "ts = [0, 181]" by simp
  with \<open>let_through _ _ = Inr ts\<close> \<open>\<forall>a. _\<close> show ?thesis by blast
qed

section \<open>The queue\<close>

text \<open>
  \<open>DbUpdate.__lt__\<close>; comparing a missing key raises TypeError. A get of the priority queue
  takes an update that no other one precedes.
\<close>

definition update_lt :: "db_update \<Rightarrow> db_update \<Rightarrow> bool result" where
  "update_lt u v =
     (if du_timestamp u \<noteq> du_timestamp v then Inr (du_timestamp u < du_timestamp v)
      else (case (du_key u, du_key v) of
              (Some k, Some l) \<Rightarrow> Inr (ord_class.lexordp (map (of_char :: char \<Rightarrow> nat) k) (map of_char l))
            | _ \<Rightarrow> Inl TypeError))"

definition db_change_callback ::
  "int \<Rightarrow> string option \<Rightarrow> string option \<Rightarrow> string \<Rightarrow> string option \<Rightarrow> string option \<Rightarrow> db_update list \<Rightarrow> db_update list" where
  "db_change_callback now table key action v topic queue =
     queue @ [\<lparr>du_table = table, du_key = key, du_action = action, du_value = v, du_timestamp = now, du_topic = topic\<rparr>]"

definition submit_sync_event :: "int \<Rightarrow> db_update list \<Rightarrow> db_update list" where
  "submit_sync_event now = db_change_callback now None None ''sync'' None None"

definition queue_takes :: "db_update list \<Rightarrow> db_update \<Rightarrow> db_update list \<Rightarrow> bool" where
  "queue_takes queue u rest \<longleftrightarrow> u \<in> set queue \<and> rest = remove1 u queue \<and>
     (\<forall>v\<in>set queue. update_lt v u \<noteq> Inr True)"

text \<open>The order in which \<open>process_changes\<close> empties a queue that nothing is added to.\<close>

inductive drained :: "db_update list \<Rightarrow> db_update list \<Rightarrow> bool" where
  "drained [] []"
| "queue_takes queue u rest \<Longrightarrow> drained rest us \<Longrightarrow> drained queue (u # us)"

lemma drained_sorted:
  assumes "drained queue us" "distinct (map du_timestamp queue)"
  shows "mset us = mset queue \<and> sorted (map du_timestamp us)"
  using assms
proof (induction rule: drained.induct)
  case (2 queue u rest us)
  from 2(1) have q: "u \<in> set queue" "rest = remove1 u queue" "\<forall>v\<in>set queue. update_lt v u \<noteq> Inr True"
    by (simp_all add: queue_takes_def)
  have perm: "mset queue = add_mset u (mset rest)" using q(1,2) by simp
  then have "distinct (map du_timestamp rest)"
    using 2(4) by (metis distinct.simps(2) list.simps(9) mset.simps(2) mset_eq_imp_distinct_iff mset_map)
  with 2(3) have us: "mset us = mset rest" "sorted (map du_timestamp us)" by simp_all
  have "du_timestamp u \<le> du_timestamp v" if "v \<in> set us" for v
  proof -
    have "v \<in> set queue" using that us(1) perm by (metis set_mset_mset insertCI set_mset_add_mset_insert)
    then have "update_lt v u \<noteq> Inr True" using q(3) by blast
    then show ?thesis by (cases "du_timestamp v = du_timestamp u") (auto simp: update_lt_def)
  qed
  then show ?case using us perm by simp
qed simp

lemma drained_exists:
  assumes "distinct (map du_timestamp queue)"
  shows "\<exists>us. drained queue us"
  using assms
proof (induction "length queue" arbitrary: queue)
  case 0
  then show ?case by (auto intro: drained.intros)
next
  case (Suc n)
  then have "queue \<noteq> []" by auto
  then obtain u where u: "u \<in> set queue" "\<forall>v\<in>set queue. du_timestamp u \<le> du_timestamp v"
    using Min_in [of "du_timestamp ` set queue"] Min_le [of "du_timestamp ` set queue"] by fastforce
  have "update_lt v u \<noteq> Inr True" if "v \<in> set queue" for v
  proof (cases "v = u")
    case True
    have "\<not> ord_class.lexordp xs xs" for xs :: "nat list" by (induction xs) auto
    then show ?thesis using True by (auto simp: update_lt_def split: option.split)
  next
    case False
    then have "du_timestamp v \<noteq> du_timestamp u" using that u(1) Suc.prems by (auto simp: distinct_map inj_on_def)
    with u(2) that show ?thesis by (auto simp: update_lt_def)
  qed
  then have "queue_takes queue u (remove1 u queue)" using u(1) by (simp add: queue_takes_def)
  moreover have "distinct (map du_timestamp (remove1 u queue))"
    using Suc.prems by (simp add: distinct_map inj_on_def distinct_remove1 set_remove1_eq)
  moreover have "length (remove1 u queue) = n" using Suc.hyps(2) u(1) by (simp add: length_remove1)
  ultimately show ?case using Suc.hyps(1) [of "remove1 u queue"] by (auto intro: drained.intros)
qed



section \<open>Handling an update\<close>

definition ctl_full_sync :: "'a ctl_env \<Rightarrow> 'a controller \<Rightarrow> 'a controller outcome" where
  "ctl_full_sync env c =
     and_then (check_topology_info env c) (\<lambda>c. sync_all (ctl_sync_env env) (c_sync c) c)"

text \<open>
  \<open>NbApi.db_recover_callback\<close>: after the high-availability hooks it builds a
  \<open>DbUpdate\<close> without the required argument \<open>value\<close>.
\<close>

definition db_recover_callback :: "'a controller \<Rightarrow> 'a controller outcome" where
  "db_recover_callback c = (Some TypeError, effect DbRecover c)"

definition switch_sync_finished_event :: "'a controller \<Rightarrow> 'a controller outcome" where
  "switch_sync_finished_event c = (None, effect SwitchSyncFinished c)"

definition switch_sync_started_event :: "'a controller \<Rightarrow> 'a controller outcome" where
  "switch_sync_started_event c = (None, effect SwitchSyncStarted c)"

definition handle_db_change ::
  "'a ctl_env \<Rightarrow> (string \<Rightarrow> string \<Rightarrow> pyval result) \<Rightarrow> db_update \<Rightarrow> 'a controller \<Rightarrow> 'a controller outcome" where
  "handle_db_change env from_json u c =
     (if du_action u = ''reinitialize'' then
        and_then (on_db ds_clear c) (\<lambda>c. ctl_full_sync env (effect SwitchInitialize c))
      else if du_action u = ''sync'' then ctl_full_sync env c
      else if du_action u = ''dbrestart'' then db_recover_callback c
      else if du_action u = ''switch_sync_finished'' then switch_sync_finished_event c
      else if du_action u = ''switch_sync_started'' then switch_sync_started_event c
      else if du_action u = ''log'' then (None, c)
      else
        (case du_table u of
           None \<Rightarrow> (None, c)
         | Some table \<Rightarrow>
             (case get_model (ce_registry env) table of
                Inl e \<Rightarrow> (None, c)
              | Inr model \<Rightarrow>
                  if du_action u = ''delete'' then
                    (case du_key u of
                       Some key \<Rightarrow> delete_by_id env model key c
                     | None \<Rightarrow> ctl_delete env (PObj model [(''id'', PNone)]) c)
                  else
                    (case du_value u of
                       None \<Rightarrow> (Some TypeError, c)
                     | Some v \<Rightarrow> with_value (from_json model v) (send_updates_for_object env) c))))"

text \<open>A failed update is followed by a sync, unless the limiter holds it back; the sync runs outside the \<open>try\<close>.\<close>

definition handle_update ::
  "'a ctl_env \<Rightarrow> (string \<Rightarrow> string \<Rightarrow> pyval result) \<Rightarrow> int \<Rightarrow> db_update \<Rightarrow>
   rate_limiter \<times> 'a controller \<Rightarrow> (rate_limiter \<times> 'a controller) outcome" where
  "handle_update env from_json now u =
     (\<lambda>(rl, c).
        (case handle_db_change env from_json u c of
           (None, c) \<Rightarrow> (None, (rl, c))
         | (Some e, c) \<Rightarrow>
             with_value (rate_limit now rl) (\<lambda>(limited, rl) (old, c).
               if limited then (None, (rl, c))
               else (case ctl_full_sync env c of (err, c) \<Rightarrow> (err, (rl, c)))) (rl, c)))"

text \<open>\<open>process_changes\<close> on the updates in the order the queue gives them; an exception ends the loop.\<close>

definition process_changes ::
  "'a ctl_env \<Rightarrow> (string \<Rightarrow> string \<Rightarrow> pyval result) \<Rightarrow> (int \<times> db_update) list \<Rightarrow>
   rate_limiter \<times> 'a controller \<Rightarrow> (rate_limiter \<times> 'a controller) outcome" where
  "process_changes env from_json = run_each (\<lambda>(now, u). handle_update env from_json now u)"

text \<open>
  A restart of the database can go without a sync. Handling it calls the high-availability
  hooks and then always raises, so that the only sync is the one that follows a failed update, and
  that one is limited: while the limiter holds back, the controller keeps its old objects; else the
  sync runs, and its own exception ends the loop over the updates.
\<close>

theorem loop_database_restart:
  assumes "du_action u = ''dbrestart''" "rl_max rl = 1" "length (rl_deque rl) \<le> 1"
  shows "handle_update env from_json now u (rl, c) =
    (if rl_deque rl \<noteq> [] \<and> now - hd (rl_deque rl) \<le> rl_time_unit rl then (None, (rl, effect DbRecover c))
     else (case ctl_full_sync env (effect DbRecover c) of
             (err, c') \<Rightarrow> (err, (rl\<lparr>rl_deque := [now]\<rparr>, c')))) \<and>
    (\<forall>e c'. ctl_full_sync env (effect DbRecover c) = (Some e, c') \<longrightarrow>
       \<not> (rl_deque rl \<noteq> [] \<and> now - hd (rl_deque rl) \<le> rl_time_unit rl) \<longrightarrow>
       process_changes env from_json ((now, u) # later) (rl, c) = (Some e, (rl\<lparr>rl_deque := [now]\<rparr>, c')))"
proof -
  obtain err c' where s: "ctl_full_sync env (effect DbRecover c) = (err, c')" by fastforce
  have h: "handle_update env from_json now u (rl, c) =
      (if rl_deque rl \<noteq> [] \<and> now - hd (rl_deque rl) \<le> rl_time_unit rl then (None, (rl, effect DbRecover c))
       else (err, (rl\<lparr>rl_deque := [now]\<rparr>, c')))"
    using assms s
    by (cases "rl_deque rl")
       (auto simp: handle_update_def handle_db_change_def db_recover_callback_def rate_limit_def deque_append_def Let_def)
  then show ?thesis using s by (auto simp: process_changes_def)
qed

definition restart_event :: db_update where
  "restart_event = \<lparr>du_table = None, du_key = None, du_action = ''dbrestart'', du_value = None,
     du_timestamp = 0, du_topic = None\<rparr>"

theorem loop_database_restart_witness:
  "\<forall>(env :: 'a ctl_env) from_json c.
     handle_update env from_json 100 restart_event (\<lparr>rl_max = 1, rl_time_unit = 180, rl_deque = [0]\<rparr>, c) =
     (None, (\<lparr>rl_max = 1, rl_time_unit = 180, rl_deque = [0]\<rparr>, effect DbRecover c))"
proof (intro allI)
  fix env :: "'a ctl_env" and from_json c
  show "handle_update env from_json 100 restart_event (\<lparr>rl_max = 1, rl_time_unit = 180, rl_deque = [0]\<rparr>, c) =
     (None, (\<lparr>rl_max = 1, rl_time_unit = 180, rl_deque = [0]\<rparr>, effect DbRecover c))"
    using loop_database_restart [of restart_event "\<lparr>rl_max = 1, rl_time_unit = 180, rl_deque = [0]\<rparr>" env from_json 100 c "[]"]
    by (simp add: restart_event_def)
qed

end
