(* ===== verification/Flow_Table.thy ===== *)
theory Flow_Table
  imports Flow_Mod
begin

text \<open>
  What the applications rely on of the OpenFlow switch they talk to. The switch is not part of
  the repository: it is an interface, the locale \<open>of_switch\<close>, whose laws are the flow
  modification messages of the OpenFlow 1.3 specification (6.4, Flow Table Modification
  Messages). A flow is identified by its table, priority and match; it has a cookie and its
  instructions.
\<close>

section \<open>Messages and flows\<close>

type_synonym flow_key = "nat \<times> int \<times> (string \<rightharpoonup> mval)"

definition fm_fields :: "flow_mod \<Rightarrow> fmatch" where
  "fm_fields f = (case fm_match f of Some m \<Rightarrow> m | None \<Rightarrow> [])"

definition fm_key :: "flow_mod \<Rightarrow> flow_key" where
  "fm_key f = (fm_table_id f, fm_priority f, map_of (fm_fields f))"

text \<open>The number in a field of a match.\<close>

definition match_int :: "(string \<rightharpoonup> mval) \<Rightarrow> string \<Rightarrow> int" where
  "match_int m field = (case m field of Some (MInt n) \<Rightarrow> n | _ \<Rightarrow> 0)"

text \<open>Whether one field value is at most as specific as another.\<close>

fun mval_covers :: "mval \<Rightarrow> mval \<Rightarrow> bool" where
  "mval_covers (MMasked a m) (MMasked b n) \<longleftrightarrow> m AND n = m \<and> a AND m = b AND m"
| "mval_covers (MMasked a m) (MInt x) \<longleftrightarrow> x AND m = a AND m"
| "mval_covers v w \<longleftrightarrow> v = w"

definition match_covers :: "fmatch \<Rightarrow> (string \<rightharpoonup> mval) \<Rightarrow> bool" where
  "match_covers g m \<longleftrightarrow>
     list_all (\<lambda>(k, v). case m k of Some w \<Rightarrow> mval_covers v w | None \<Rightarrow> False) g"

text \<open>The cookie of a message with a mask selects the flows whose cookie agrees under it.\<close>

definition cookie_selects :: "flow_mod \<Rightarrow> int \<Rightarrow> bool" where
  "cookie_selects f c \<longleftrightarrow> c AND fm_cookie_mask f = fm_cookie f AND fm_cookie_mask f"

definition hits :: "flow_mod \<Rightarrow> flow_key \<Rightarrow> bool" where
  "hits f key \<longleftrightarrow> (case key of (table, priority, m) \<Rightarrow>
     (fm_table_id f = OFPTT_ALL \<or> table = fm_table_id f) \<and> match_covers (fm_fields f) m)"

text \<open>The messages the laws speak of: with no restriction by output port or group.\<close>

definition unrestricted :: "flow_mod \<Rightarrow> bool" where
  "unrestricted f \<longleftrightarrow> fm_out_port f = OFPP_ANY \<and> fm_out_group f = OFPG_ANY"

lemma mval_covers_refl [simp]: "mval_covers v v"
  by (cases v) simp_all

lemma match_covers_iff:
  "match_covers g m \<longleftrightarrow> (\<forall>(k, v) \<in> set g. \<exists>w. m k = Some w \<and> mval_covers v w)"
  by (auto simp: match_covers_def list_all_iff split: option.splits)

section \<open>The switch\<close>

locale of_switch =
  fixes sw_mod :: "flow_mod \<Rightarrow> 't \<Rightarrow> 't"
    and flow_at :: "'t \<Rightarrow> flow_key \<Rightarrow> (int \<times> inst list) option"
  assumes add: "fm_command f = OFPFC_ADD \<Longrightarrow>
      flow_at (sw_mod f t) = (flow_at t)(fm_key f \<mapsto> (fm_cookie f, fm_inst f))"
    and modify: "fm_command f = OFPFC_MODIFY \<Longrightarrow> unrestricted f \<Longrightarrow>
      flow_at (sw_mod f t) key =
        map_option (\<lambda>(c, i). (c, if hits f key \<and> cookie_selects f c then fm_inst f else i)) (flow_at t key)"
    and modify_strict: "fm_command f = OFPFC_MODIFY_STRICT \<Longrightarrow> unrestricted f \<Longrightarrow>
      flow_at (sw_mod f t) key =
        map_option (\<lambda>(c, i). (c, if key = fm_key f \<and> cookie_selects f c then fm_inst f else i)) (flow_at t key)"
    and delete: "fm_command f = OFPFC_DELETE \<Longrightarrow> unrestricted f \<Longrightarrow>
      flow_at (sw_mod f t) key =
        (case flow_at t key of
           None \<Rightarrow> None
         | Some (c, i) \<Rightarrow> if hits f key \<and> cookie_selects f c then None else Some (c, i))"
    and delete_strict: "fm_command f = OFPFC_DELETE_STRICT \<Longrightarrow> unrestricted f \<Longrightarrow>
      flow_at (sw_mod f t) key =
        (case flow_at t key of
           None \<Rightarrow> None
         | Some (c, i) \<Rightarrow> if key = fm_key f \<and> cookie_selects f c then None else Some (c, i))"

text \<open>
  While every message carries the same cookie, the cookies of the flows do not matter, and the
  table is a map from flows to instructions.
\<close>

type_synonym flow_table = "flow_key \<rightharpoonup> inst list"

definition table_mod :: "flow_mod \<Rightarrow> flow_table \<Rightarrow> flow_table" where
  "table_mod f T =
     (case fm_command f of
        OFPFC_ADD \<Rightarrow> T(fm_key f \<mapsto> fm_inst f)
      | OFPFC_MODIFY \<Rightarrow> (\<lambda>key. map_option (\<lambda>i. if hits f key then fm_inst f else i) (T key))
      | OFPFC_MODIFY_STRICT \<Rightarrow> (\<lambda>key. map_option (\<lambda>i. if key = fm_key f then fm_inst f else i) (T key))
      | OFPFC_DELETE \<Rightarrow> (\<lambda>key. if hits f key then None else T key)
      | OFPFC_DELETE_STRICT \<Rightarrow> T(fm_key f := None))"

definition flows_after :: "flow_mod list \<Rightarrow> flow_table" where
  "flows_after fms = fold table_mod fms Map.empty"

lemma flows_after_Nil [simp]: "flows_after [] = Map.empty"
  by (simp add: flows_after_def)

lemma flows_after_append: "flows_after (fms @ gms) = fold table_mod gms (flows_after fms)"
  by (simp add: flows_after_def)

definition carries :: "int \<Rightarrow> int \<Rightarrow> flow_mod \<Rightarrow> bool" where
  "carries ck cm f \<longleftrightarrow> fm_cookie f = ck \<and> fm_cookie_mask f = cm \<and> unrestricted f"

context of_switch
begin

lemma sw_mod_table:
  assumes "carries ck cm f" "flow_at t = (\<lambda>key. map_option (Pair ck) (T key))"
  shows "flow_at (sw_mod f t) = (\<lambda>key. map_option (Pair ck) (table_mod f T key))"
proof -
  have f: "unrestricted f" "fm_cookie f = ck" "cookie_selects f ck"
    using assms(1) by (simp_all add: carries_def cookie_selects_def)
  show ?thesis
  proof (cases "fm_command f")
    case OFPFC_ADD
    then show ?thesis using add [of f t] assms(2) f(2) by (auto simp: table_mod_def)
  next
    case OFPFC_MODIFY
    then show ?thesis using modify [of f t] assms(2) f(1,3)
      by (auto simp: table_mod_def fun_eq_iff option.map_comp comp_def)
  next
    case OFPFC_MODIFY_STRICT
    then show ?thesis using modify_strict [of f t] assms(2) f(1,3)
      by (auto simp: table_mod_def fun_eq_iff option.map_comp comp_def)
  next
    case OFPFC_DELETE
    then show ?thesis using delete [of f t] assms(2) f(1,3)
      by (auto simp: table_mod_def fun_eq_iff split: option.splits)
  next
    case OFPFC_DELETE_STRICT
    then show ?thesis using delete_strict [of f t] assms(2) f(1,3)
      by (auto simp: table_mod_def fun_eq_iff split: option.splits)
  qed
qed

lemma switch_refines_table:
  assumes "list_all (carries ck cm) fms" "flow_at t = (\<lambda>key. map_option (Pair ck) (T key))"
  shows "flow_at (fold sw_mod fms t) = (\<lambda>key. map_option (Pair ck) (fold table_mod fms T key))"
  using assms
proof (induction fms arbitrary: t T)
  case Nil
  then show ?case by simp
next
  case (Cons f fms)
  then show ?case using sw_mod_table [of ck cm f t T] by simp
qed

lemma switch_flows_after:
  assumes "list_all (carries ck cm) fms" "flow_at t = Map.empty"
  shows "flow_at (fold sw_mod fms t) key = map_option (Pair ck) (flows_after fms key)"
  using switch_refines_table [OF assms(1), of t Map.empty] assms(2) by (simp add: flows_after_def)

end

section \<open>Packets\<close>

text \<open>
  A packet at a table is taken by a flow of the highest priority among those that match it; a
  flow without instructions drops it.
\<close>

type_synonym packet = "string \<rightharpoonup> mval"

definition packet_matches :: "(string \<rightharpoonup> mval) \<Rightarrow> packet \<Rightarrow> bool" where
  "packet_matches m pkt \<longleftrightarrow> (\<forall>k v. m k = Some v \<longrightarrow> (\<exists>w. pkt k = Some w \<and> mval_covers v w))"

definition may_pass :: "flow_table \<Rightarrow> nat \<Rightarrow> packet \<Rightarrow> bool" where
  "may_pass T table pkt \<longleftrightarrow>
     (\<exists>priority m i. T (table, priority, m) = Some i \<and> i \<noteq> [] \<and> packet_matches m pkt \<and>
       (\<forall>priority' m'. T (table, priority', m') \<noteq> None \<longrightarrow> packet_matches m' pkt \<longrightarrow> priority' \<le> priority))"

lemma may_passI:
  "T (table, priority, m) = Some i \<Longrightarrow> i \<noteq> [] \<Longrightarrow> packet_matches m pkt \<Longrightarrow>
   (\<And>priority' m'. T (table, priority', m') \<noteq> None \<Longrightarrow> priority' \<le> priority) \<Longrightarrow> may_pass T table pkt"
  unfolding may_pass_def by blast

definition unmasked :: "mval \<Rightarrow> bool" where
  "unmasked v \<longleftrightarrow> (case v of MMasked a m \<Rightarrow> False | _ \<Rightarrow> True)"

lemma unmasked_simps [simp]: "unmasked (MInt n)" "unmasked (MStr s)" "unmasked (MIp ip)" "unmasked (MVal v)"
  by (simp_all add: unmasked_def)

lemma packet_field:
  assumes "packet_matches m pkt" "m k = Some v" "unmasked v"
  shows "pkt k = Some v"
proof -
  from assms(1,2) obtain w where "pkt k = Some w" "mval_covers v w" by (auto simp: packet_matches_def)
  moreover have "w = v" using \<open>mval_covers v w\<close> assms(3) by (cases v) (simp_all add: unmasked_def)
  ultimately show ?thesis by simp
qed

section \<open>A switch in memory\<close>

type_synonym mem_table = "flow_key \<Rightarrow> (int \<times> inst list) option"

definition drop_flows :: "(flow_key \<Rightarrow> int \<Rightarrow> bool) \<Rightarrow> mem_table \<Rightarrow> mem_table" where
  "drop_flows P t = (\<lambda>key. case t key of
       None \<Rightarrow> None | Some (c, i) \<Rightarrow> if P key c then None else Some (c, i))"

definition change_flows :: "(flow_key \<Rightarrow> int \<Rightarrow> bool) \<Rightarrow> inst list \<Rightarrow> mem_table \<Rightarrow> mem_table" where
  "change_flows P inst t = (\<lambda>key. map_option (\<lambda>(c, i). (c, if P key c then inst else i)) (t key))"

definition mem_mod :: "flow_mod \<Rightarrow> mem_table \<Rightarrow> mem_table" where
  "mem_mod f t =
     (case fm_command f of
        OFPFC_ADD \<Rightarrow> t(fm_key f \<mapsto> (fm_cookie f, fm_inst f))
      | OFPFC_MODIFY \<Rightarrow> change_flows (\<lambda>key c. hits f key \<and> cookie_selects f c) (fm_inst f) t
      | OFPFC_MODIFY_STRICT \<Rightarrow> change_flows (\<lambda>key c. key = fm_key f \<and> cookie_selects f c) (fm_inst f) t
      | OFPFC_DELETE \<Rightarrow> drop_flows (\<lambda>key c. hits f key \<and> cookie_selects f c) t
      | OFPFC_DELETE_STRICT \<Rightarrow> drop_flows (\<lambda>key c. key = fm_key f \<and> cookie_selects f c) t)"

interpretation mem: of_switch mem_mod "\<lambda>t. t"
  by unfold_locales (simp_all add: mem_mod_def change_flows_def drop_flows_def)

section \<open>The messages of an application\<close>

text \<open>The message for given arguments, once the global modifiers have written the cookie.\<close>

definition flow_message :: "int \<Rightarrow> int \<Rightarrow> flow_args \<Rightarrow> flow_mod" where
  "flow_message ck cm a =
     \<lparr>fm_cookie = ck, fm_cookie_mask = cm, fm_table_id = a_table_id a,
      fm_command = or_default OFPFC_ADD (a_command a), fm_idle_timeout = a_idle_timeout a,
      fm_hard_timeout = a_hard_timeout a, fm_priority = a_priority a, fm_buffer_id = a_buffer_id a,
      fm_out_port = or_default OFPP_ANY (a_out_port a),
      fm_out_group = or_default OFPG_ANY (a_out_group a), fm_flags = a_flags a,
      fm_match = a_match a,
      fm_inst = (case a_inst a of
          Some i \<Rightarrow> i
        | None \<Rightarrow> (case a_actions a of
                    Some acts \<Rightarrow> [Actions (or_default OFPIT_APPLY_ACTIONS (a_inst_type a)) acts]
                  | None \<Rightarrow> []))\<rparr>"

lemma mod_flow_message:
  assumes "apply_global_cookie_modifiers cs opaque (a_cookie a, a_cookie_mask a) = Inr (ck, cm)"
  shows "mod_flow cs opaque a = Inr (flow_message ck cm a)"
  using assms by (simp add: mod_flow_def flow_message_def Let_def)

text \<open>
  What every application has: the cookie space and its state for the cookie modifiers, and the
  messages it has sent.
\<close>

record 'o flow_conf =
  fc_cookies :: "'o cookie_space"
  fc_opaque :: 'o

record flow_app =
  fa_sent :: "flow_mod list"

definition send_flow ::
  "('o, 'm) flow_conf_scheme \<Rightarrow> flow_args \<Rightarrow> 's flow_app_scheme \<Rightarrow> 's flow_app_scheme outcome" where
  "send_flow conf a =
     with_value (mod_flow (fc_cookies conf) (fc_opaque conf) a)
       (\<lambda>fm s. (None, s\<lparr>fa_sent := fa_sent s @ [fm]\<rparr>))"

definition send_goto ::
  "('o, 'm) flow_conf_scheme \<Rightarrow> nat \<Rightarrow> int \<Rightarrow> nat \<Rightarrow> fmatch option \<Rightarrow>
   's flow_app_scheme \<Rightarrow> 's flow_app_scheme outcome" where
  "send_goto conf table priority goto_table_id mtch =
     with_value (add_flow_go_to_table (fc_cookies conf) (fc_opaque conf) table priority goto_table_id mtch)
       (\<lambda>fm s. (None, s\<lparr>fa_sent := fa_sent s @ [fm]\<rparr>))"

text \<open>The modifiers write the same cookie into every message while their applications' state stands.\<close>

definition stamps :: "('o, 'm) flow_conf_scheme \<Rightarrow> int \<Rightarrow> int \<Rightarrow> bool" where
  "stamps conf ck cm \<longleftrightarrow>
     apply_global_cookie_modifiers (fc_cookies conf) (fc_opaque conf) (0, 0) = Inr (ck, cm)"

definition plain_args :: "flow_args \<Rightarrow> bool" where
  "plain_args a \<longleftrightarrow> a_cookie a = 0 \<and> a_cookie_mask a = 0 \<and> a_out_port a = None \<and> a_out_group a = None"

lemma plain_args_simps [simp]:
  "plain_args default_args"
  "plain_args (a\<lparr>a_table_id := x1\<rparr>) = plain_args a" "plain_args (a\<lparr>a_command := x2\<rparr>) = plain_args a"
  "plain_args (a\<lparr>a_priority := x3\<rparr>) = plain_args a" "plain_args (a\<lparr>a_match := x4\<rparr>) = plain_args a"
  "plain_args (a\<lparr>a_actions := x5\<rparr>) = plain_args a" "plain_args (a\<lparr>a_inst := x6\<rparr>) = plain_args a"
  "plain_args (a\<lparr>a_flags := x7\<rparr>) = plain_args a"
  by (simp_all add: plain_args_def default_args_def)

lemma send_flow_stamped:
  assumes "stamps conf ck cm" "plain_args a"
  shows "send_flow conf a s = (None, s\<lparr>fa_sent := fa_sent s @ [flow_message ck cm a]\<rparr>)"
  using assms mod_flow_message [of "fc_cookies conf" "fc_opaque conf" a ck cm]
  by (simp add: send_flow_def stamps_def plain_args_def)

definition goto_args :: "nat \<Rightarrow> int \<Rightarrow> nat \<Rightarrow> fmatch option \<Rightarrow> flow_args" where
  "goto_args table priority goto_table_id mtch =
     (if table < goto_table_id
      then default_args\<lparr>a_inst := Some [GotoTable goto_table_id],
             a_table_id := table, a_priority := priority, a_match := mtch\<rparr>
      else default_args\<lparr>a_actions := Some [ResubmitTable goto_table_id],
             a_table_id := table, a_priority := priority, a_match := mtch\<rparr>)"

definition goto_insts :: "nat \<Rightarrow> nat \<Rightarrow> inst list" where
  "goto_insts table goto_table_id =
     (if table < goto_table_id then [GotoTable goto_table_id]
      else [Actions OFPIT_APPLY_ACTIONS [ResubmitTable goto_table_id]])"

lemma plain_goto_args [simp]: "plain_args (goto_args table priority goto_table_id mtch)"
  by (simp add: goto_args_def)

lemma send_goto_flow:
  "send_goto conf table priority goto_table_id mtch = send_flow conf (goto_args table priority goto_table_id mtch)"
  by (simp add: send_goto_def send_flow_def add_flow_go_to_table_def goto_args_def)

lemma send_goto_stamped:
  assumes "stamps conf ck cm"
  shows "send_goto conf table priority goto_table_id mtch s =
    (None, s\<lparr>fa_sent := fa_sent s @ [flow_message ck cm (goto_args table priority goto_table_id mtch)]\<rparr>)"
  by (simp add: send_goto_flow send_flow_stamped [OF assms])

lemma flow_message_carries [simp]: "plain_args a \<Longrightarrow> carries ck cm (flow_message ck cm a)"
  by (simp add: carries_def flow_message_def unrestricted_def or_default_def plain_args_def)

lemma flow_message_simps [simp]:
  "fm_command (flow_message ck cm a) = or_default OFPFC_ADD (a_command a)"
  "fm_inst (flow_message ck cm a) = (case a_inst a of
      Some i \<Rightarrow> i
    | None \<Rightarrow> (case a_actions a of
                Some acts \<Rightarrow> [Actions (or_default OFPIT_APPLY_ACTIONS (a_inst_type a)) acts]
              | None \<Rightarrow> []))"
  "fm_table_id (flow_message ck cm a) = a_table_id a"
  "fm_fields (flow_message ck cm a) = (case a_match a of Some m \<Rightarrow> m | None \<Rightarrow> [])"
  "fm_key (flow_message ck cm a) =
     (a_table_id a, a_priority a, map_of (case a_match a of Some m \<Rightarrow> m | None \<Rightarrow> []))"
  by (simp_all add: flow_message_def fm_fields_def fm_key_def)

end
