(* ===== verification/Logical_Networks.thy ===== *)
theory Logical_Networks
  imports Df_Prelude
begin

text \<open>
  The cache of the ports of each network, \<open>dragonflow/controller/common/logical_networks.py\<close>,
  which the tunneling and provider applications keep. A cache maps a network to a
  \<open>defaultdict(list)\<close> of the ports by network type: reading a type that is missing stores the
  empty list, and so the queries return the cache they leave behind.
\<close>

section \<open>The cache\<close>

type_synonym 'n net_cache = "('n, (string, string list) dict) dict"

record 'n logical_networks =
  local_ports_net_cache :: "'n net_cache"
  remote_ports_net_cache :: "'n net_cache"

definition ln_init :: "'n logical_networks" where
  "ln_init = \<lparr>local_ports_net_cache = [], remote_ports_net_cache = []\<rparr>"

definition default_get :: "('k, 'v list) dict \<Rightarrow> 'k \<Rightarrow> 'v list" where
  "default_get d k = (case map_of d k of Some v \<Rightarrow> v | None \<Rightarrow> [])"

definition ln_add_port :: "string \<Rightarrow> 'n \<Rightarrow> string \<Rightarrow> 'n net_cache \<Rightarrow> 'n net_cache" where
  "ln_add_port port_id network_id network_type ports =
     (let network_ports = default_get ports network_id
      in AList.update network_id
           (AList.update network_type (default_get network_ports network_type @ [port_id]) network_ports)
           ports)"

definition ln_remove_port :: "string \<Rightarrow> 'n \<Rightarrow> string \<Rightarrow> 'n net_cache \<Rightarrow> 'n net_cache" where
  "ln_remove_port port_id network_id network_type ports =
     (case map_of ports network_id of
        None \<Rightarrow> ports
      | Some network_ports \<Rightarrow>
          if network_ports = [] then ports
          else
            let type_ports = default_get network_ports network_type;
                network_ports = AList.update network_type type_ports network_ports
            in AList.update network_id
                 (if port_id \<in> set type_ports
                  then AList.update network_type (remove1 port_id type_ports) network_ports
                  else network_ports) ports)"

text \<open>The truth test on an optional network type.\<close>

definition given_type :: "string option \<Rightarrow> string option" where
  "given_type network_type = (if network_type = Some [] then None else network_type)"

definition ln_get_port_count :: "'n \<Rightarrow> string option \<Rightarrow> 'n net_cache \<Rightarrow> nat \<times> 'n net_cache" where
  "ln_get_port_count network_id network_type ports =
     (case map_of ports network_id of
        None \<Rightarrow> (0, ports)
      | Some network_ports \<Rightarrow>
          if network_ports = [] then (0, ports)
          else
            (case given_type network_type of
               Some t \<Rightarrow>
                 let type_ports = default_get network_ports t
                 in (length type_ports,
                     AList.update network_id (AList.update t type_ports network_ports) ports)
             | None \<Rightarrow> (sum_list (map length (dict_values network_ports)), ports)))"

definition ln_get_ports ::
  "'n \<Rightarrow> string option \<Rightarrow> 'n net_cache \<Rightarrow> string list option \<times> 'n net_cache" where
  "ln_get_ports network_id network_type ports =
     (case map_of ports network_id of
        None \<Rightarrow> (None, ports)
      | Some network_ports \<Rightarrow>
          if network_ports = [] then (None, ports)
          else
            (case given_type network_type of
               Some t \<Rightarrow>
                 let type_ports = default_get network_ports t
                 in (Some type_ports,
                     AList.update network_id (AList.update t type_ports network_ports) ports)
             | None \<Rightarrow> (Some (concat (dict_values network_ports)), ports)))"

definition add_local_port ::
  "string \<Rightarrow> 'n \<Rightarrow> string \<Rightarrow> 'n logical_networks \<Rightarrow> 'n logical_networks" where
  "add_local_port port_id network_id network_type ln =
     ln\<lparr>local_ports_net_cache := ln_add_port port_id network_id network_type (local_ports_net_cache ln)\<rparr>"

definition add_remote_port ::
  "string \<Rightarrow> 'n \<Rightarrow> string \<Rightarrow> 'n logical_networks \<Rightarrow> 'n logical_networks" where
  "add_remote_port port_id network_id network_type ln =
     ln\<lparr>remote_ports_net_cache := ln_add_port port_id network_id network_type (remote_ports_net_cache ln)\<rparr>"

definition remove_local_port ::
  "string \<Rightarrow> 'n \<Rightarrow> string \<Rightarrow> 'n logical_networks \<Rightarrow> 'n logical_networks" where
  "remove_local_port port_id network_id network_type ln =
     ln\<lparr>local_ports_net_cache := ln_remove_port port_id network_id network_type (local_ports_net_cache ln)\<rparr>"

definition remove_remote_port ::
  "string \<Rightarrow> 'n \<Rightarrow> string \<Rightarrow> 'n logical_networks \<Rightarrow> 'n logical_networks" where
  "remove_remote_port port_id network_id network_type ln =
     ln\<lparr>remote_ports_net_cache := ln_remove_port port_id network_id network_type (remote_ports_net_cache ln)\<rparr>"

definition get_local_port_count ::
  "'n \<Rightarrow> string option \<Rightarrow> 'n logical_networks \<Rightarrow> nat \<times> 'n logical_networks" where
  "get_local_port_count network_id network_type ln =
     (case ln_get_port_count network_id network_type (local_ports_net_cache ln) of
        (value, ports) \<Rightarrow> (value, ln\<lparr>local_ports_net_cache := ports\<rparr>))"

definition get_remote_port_count ::
  "'n \<Rightarrow> string option \<Rightarrow> 'n logical_networks \<Rightarrow> nat \<times> 'n logical_networks" where
  "get_remote_port_count network_id network_type ln =
     (case ln_get_port_count network_id network_type (remote_ports_net_cache ln) of
        (value, ports) \<Rightarrow> (value, ln\<lparr>remote_ports_net_cache := ports\<rparr>))"

definition get_local_ports ::
  "'n \<Rightarrow> string option \<Rightarrow> 'n logical_networks \<Rightarrow> string list option \<times> 'n logical_networks" where
  "get_local_ports network_id network_type ln =
     (case ln_get_ports network_id network_type (local_ports_net_cache ln) of
        (value, ports) \<Rightarrow> (value, ln\<lparr>local_ports_net_cache := ports\<rparr>))"

definition get_remote_ports ::
  "'n \<Rightarrow> string option \<Rightarrow> 'n logical_networks \<Rightarrow> string list option \<times> 'n logical_networks" where
  "get_remote_ports network_id network_type ln =
     (case ln_get_ports network_id network_type (remote_ports_net_cache ln) of
        (value, ports) \<Rightarrow> (value, ln\<lparr>remote_ports_net_cache := ports\<rparr>))"

section \<open>What the cache holds\<close>

text \<open>The ports of a network and type; the abstraction that the operations act on.\<close>

definition ports_on :: "'n net_cache \<Rightarrow> 'n \<Rightarrow> string \<Rightarrow> string list" where
  "ports_on ports n t = default_get (default_get ports n) t"

lemma default_get_update [simp]:
  "default_get (AList.update k v d) k' = (if k' = k then v else default_get d k')"
  by (simp add: default_get_def)

lemma ports_on_init [simp]: "ports_on [] n t = []"
  by (simp add: ports_on_def default_get_def)

lemma ports_on_add [simp]:
  "ports_on (ln_add_port i n t ports) n' t' =
     (if n' = n \<and> t' = t then ports_on ports n t @ [i] else ports_on ports n' t')"
  by (simp add: ln_add_port_def ports_on_def Let_def)

lemma ports_on_missing:
  "map_of ports n = None \<Longrightarrow> ports_on ports n t = []" "map_of ports n = Some [] \<Longrightarrow> ports_on ports n t = []"
  by (simp_all add: ports_on_def default_get_def)

lemma ports_on_remove [simp]:
  "ports_on (ln_remove_port i n t ports) n' t' =
     (if n' = n \<and> t' = t then remove1 i (ports_on ports n t) else ports_on ports n' t')"
proof (cases "map_of ports n")
  case None
  then show ?thesis by (simp add: ln_remove_port_def ports_on_missing)
next
  case (Some np)
  then show ?thesis
    by (cases "np = []")
      (auto simp: ln_remove_port_def ports_on_missing ports_on_def default_get_def Let_def remove1_idem)
qed

lemma port_count_is_length:
  assumes "t \<noteq> []"
  shows "fst (ln_get_port_count n (Some t) ports) = length (ports_on ports n t)"
    "ports_on (snd (ln_get_port_count n (Some t) ports)) = ports_on ports"
proof -
  have "fst (ln_get_port_count n (Some t) ports) = length (ports_on ports n t) \<and>
    ports_on (snd (ln_get_port_count n (Some t) ports)) n' t' = ports_on ports n' t'" for n' t'
  proof (cases "map_of ports n")
    case None
    then show ?thesis by (simp add: ln_get_port_count_def ports_on_missing)
  next
    case (Some np)
    then show ?thesis using assms
      by (cases "np = []")
        (auto simp: ln_get_port_count_def ports_on_missing ports_on_def default_get_def given_type_def Let_def)
  qed
  then show "fst (ln_get_port_count n (Some t) ports) = length (ports_on ports n t)"
    "ports_on (snd (ln_get_port_count n (Some t) ports)) = ports_on ports" by (auto intro!: ext)
qed

text \<open>A network whose ports are all of one type: asking for every type gives the ports of that one.\<close>

lemma concat_single:
  assumes "wf_dict d" "\<And>k. k \<noteq> t \<Longrightarrow> default_get d k = []"
  shows "concat (dict_values d) = default_get d t"
  using assms
proof (induction d)
  case Nil
  then show ?case by (simp add: default_get_def)
next
  case (Cons p d)
  obtain k v where p: "p = (k, v)" by fastforce
  have k: "default_get d k = []"
    using Cons.prems(1) p by (simp add: default_get_def map_of_eq_None_iff [THEN iffD2])
  have d: "default_get d k' = []" if "k' \<noteq> t" for k'
    using k Cons.prems(2) [OF that] p by (cases "k' = k") (auto simp: default_get_def)
  have IH: "concat (dict_values d) = default_get d t" using Cons.IH d Cons.prems(1) by simp
  show ?case
  proof (cases "k = t")
    case True
    with IH k p show ?thesis by (simp add: default_get_def)
  next
    case False
    with Cons.prems(2) [of k] p have "v = []" by (simp add: default_get_def)
    with IH False p show ?thesis by (simp add: default_get_def)
  qed
qed

definition wf_cache :: "'n net_cache \<Rightarrow> bool" where
  "wf_cache ports \<longleftrightarrow> (\<forall>n np. map_of ports n = Some np \<longrightarrow> wf_dict np)"

lemma wf_cache_Nil [simp]: "wf_cache []"
  by (simp add: wf_cache_def)

lemma wf_cache_ops [simp]:
  assumes "wf_cache ports"
  shows "wf_cache (ln_add_port i n t ports)" "wf_cache (ln_remove_port i n t ports)"
    "wf_cache (snd (ln_get_port_count n ty ports))"
proof -
  have "wf_dict (default_get ports n)"
    using assms by (auto simp: wf_cache_def default_get_def split: option.splits)
  with assms show "wf_cache (ln_add_port i n t ports)" by (auto simp: wf_cache_def ln_add_port_def Let_def)
  show "wf_cache (ln_remove_port i n t ports)"
    using assms by (auto simp: wf_cache_def ln_remove_port_def Let_def split: option.splits)
  show "wf_cache (snd (ln_get_port_count n ty ports))"
    using assms by (auto simp: wf_cache_def ln_get_port_count_def Let_def split: option.splits)
qed

lemma get_ports_single_type:
  assumes "wf_cache ports" "ports_on ports n t \<noteq> []" "\<And>t'. t' \<noteq> t \<Longrightarrow> ports_on ports n t' = []"
  shows "ln_get_ports n None ports = (Some (ports_on ports n t), ports)"
proof -
  obtain np where np: "map_of ports n = Some np" "np \<noteq> []"
    using assms(2) ports_on_missing [of ports n t] by (cases "map_of ports n") auto
  moreover have "concat (dict_values np) = default_get np t"
    using assms np by (intro concat_single) (auto simp: wf_cache_def ports_on_def default_get_def)
  ultimately show ?thesis by (simp add: ln_get_ports_def given_type_def ports_on_def default_get_def)
qed

end
