(* ===== verification/Tunneling.thy ===== *)
theory Tunneling
  imports Port_Binding Flow_Table Logical_Networks
begin

text \<open>
  The tunneling application, \<open>dragonflow/controller/apps/tunneling.py\<close>: it accepts the
  traffic of a tunnelled network while a port of the network is bound here, and sends traffic to
  the remote ports through the tunnel of the chassis they are bound to. The Open vSwitch database
  is not part of the repository: \<open>tc_port_ofport\<close> is the OpenFlow port number it gives for an
  interface, and what the application asks it to change goes to \<open>tn_vswitch\<close> in order.
\<close>

section \<open>State\<close>

datatype vswitch_op = DeletePort string | AddVirtualTunnelPort string

record 'o tun_conf = "'o flow_conf" +
  tc_tunnel_types :: "string list"
  tc_port_ofport :: "string \<Rightarrow> pyval"

record tun_app = flow_app +
  tn_networks :: "pyval logical_networks"
  tn_vswitch :: "vswitch_op list"

definition tun_init :: tun_app where
  "tun_init = \<lparr>fa_sent = [], tn_networks = ln_init, tn_vswitch = []\<rparr>"

section \<open>Operations\<close>

definition get_vtp_ofport :: "'o tun_conf \<Rightarrow> string \<Rightarrow> pyval" where
  "get_vtp_ofport conf tunnel_type = tc_port_ofport conf (tunnel_type @ ''-vtp'')"

text \<open>A string where the code concatenates one.\<close>

definition py_string :: "pyval \<Rightarrow> string result" where
  "py_string v = (case v of PStr t \<Rightarrow> Inr t | _ \<Rightarrow> Inl TypeError)"

lemma py_string_simps [simp]: "py_string (PStr t) = Inr t" "py_string v = Inr t \<longleftrightarrow> v = PStr t"
  by (cases v; simp add: py_string_def)+

text \<open>The tunnel ports found on the integration bridge are given by name and type.\<close>

definition create_tunnels :: "'o tun_conf \<Rightarrow> (string \<times> string) list \<Rightarrow> tun_app \<Rightarrow> tun_app" where
  "create_tunnels conf tunnel_ports s =
     s\<lparr>tn_vswitch := tn_vswitch s @
         map (\<lambda>(name, tunnel_type). DeletePort name)
           (filter (\<lambda>(name, tunnel_type). tunnel_type \<notin> set (tc_tunnel_types conf)) tunnel_ports) @
         map AddVirtualTunnelPort (tc_tunnel_types conf)\<rparr>"

definition tun_switch_features_handler ::
  "'o tun_conf \<Rightarrow> (string \<times> string) list \<Rightarrow> tun_app \<Rightarrow> tun_app" where
  "tun_switch_features_handler conf tunnel_ports s = create_tunnels conf tunnel_ports s"

definition get_lport_tunnel_ofport :: "'o tun_conf \<Rightarrow> loc_env \<Rightarrow> pyval \<Rightarrow> pyval result" where
  "get_lport_tunnel_ofport conf env lport =
     bind_result (le_attr env lport ''lswitch'') (\<lambda>lswitch.
     bind_result (le_attr env lswitch ''network_type'') (\<lambda>network_type.
     bind_result (py_string network_type) (\<lambda>t. Inr (get_vtp_ofport conf t))))"

definition make_network_match :: "'o tun_conf \<Rightarrow> loc_env \<Rightarrow> pyval \<Rightarrow> fmatch result" where
  "make_network_match conf env lport =
     bind_result (le_attr env lport ''lswitch'') (\<lambda>lswitch.
     bind_result (le_attr env lswitch ''segmentation_id'') (\<lambda>segmentation_id.
     bind_result (get_lport_tunnel_ofport conf env lport) (\<lambda>port_num.
       Inr [(''tunnel_id_nxm'', field_value segmentation_id), (''in_port'', field_value port_num)])))"

definition new_network_ingress_flow ::
  "'o tun_conf \<Rightarrow> loc_env \<Rightarrow> pyval \<Rightarrow> pyval \<Rightarrow> tun_app \<Rightarrow> tun_app outcome" where
  "new_network_ingress_flow conf env lport network_id =
     with_value (make_network_match conf env lport) (\<lambda>mtch.
       send_flow conf (default_args\<lparr>
         a_inst := Some [Actions OFPIT_APPLY_ACTIONS [SetField ''metadata'' (field_value network_id)],
                         GotoTable INGRESS_DESTINATION_PORT_LOOKUP_TABLE],
         a_table_id := INGRESS_CLASSIFICATION_DISPATCH_TABLE,
         a_priority := PRIORITY_MEDIUM, a_match := Some mtch\<rparr>))"

definition remove_network_ingress_flow ::
  "'o tun_conf \<Rightarrow> loc_env \<Rightarrow> pyval \<Rightarrow> tun_app \<Rightarrow> tun_app outcome" where
  "remove_network_ingress_flow conf env lport =
     with_value (make_network_match conf env lport) (\<lambda>mtch.
       send_flow conf (default_args\<lparr>a_command := Some OFPFC_DELETE,
         a_table_id := INGRESS_CLASSIFICATION_DISPATCH_TABLE,
         a_priority := PRIORITY_MEDIUM, a_match := Some mtch\<rparr>))"

text \<open>
  The handlers read the switch of the port first and return when its network type is not one of
  the configured tunnel types.
\<close>

definition on_tunnel_network ::
  "'o tun_conf \<Rightarrow> loc_env \<Rightarrow> pyval \<Rightarrow> (pyval \<Rightarrow> string \<Rightarrow> tun_app \<Rightarrow> tun_app outcome) \<Rightarrow>
   tun_app \<Rightarrow> tun_app outcome" where
  "on_tunnel_network conf env lport body =
     with_value (le_attr env lport ''lswitch'') (\<lambda>lswitch.
     with_value (le_attr env lswitch ''network_type'') (\<lambda>network_type.
       (case network_type of
          PStr t \<Rightarrow> if t \<in> set (tc_tunnel_types conf) then body lswitch t else (\<lambda>s. (None, s))
        | _ \<Rightarrow> (\<lambda>s. (None, s)))))"

definition tun_add_local_port :: "'o tun_conf \<Rightarrow> loc_env \<Rightarrow> pyval \<Rightarrow> tun_app \<Rightarrow> tun_app outcome" where
  "tun_add_local_port conf env lport =
     on_tunnel_network conf env lport (\<lambda>lswitch network_type.
       with_value (le_attr env lswitch ''unique_key'') (\<lambda>network_id s.
         case get_local_port_count network_id (Some network_type) (tn_networks s) of
           (port_count, networks) \<Rightarrow>
             and_then
               ((if port_count = 0 then new_network_ingress_flow conf env lport network_id
                 else (\<lambda>s. (None, s))) (s\<lparr>tn_networks := networks\<rparr>))
               (with_value (obj_id lport) (\<lambda>i s.
                 (None, s\<lparr>tn_networks := add_local_port i network_id network_type (tn_networks s)\<rparr>)))))"

definition tun_remove_local_port :: "'o tun_conf \<Rightarrow> loc_env \<Rightarrow> pyval \<Rightarrow> tun_app \<Rightarrow> tun_app outcome" where
  "tun_remove_local_port conf env lport =
     on_tunnel_network conf env lport (\<lambda>lswitch network_type.
       with_value (le_attr env lswitch ''unique_key'') (\<lambda>network_id.
       with_value (obj_id lport) (\<lambda>i s.
         case get_local_port_count network_id (Some network_type)
                (remove_local_port i network_id network_type (tn_networks s)) of
           (port_count, networks) \<Rightarrow>
             (if port_count = 0 then remove_network_ingress_flow conf env lport
              else (\<lambda>s. (None, s))) (s\<lparr>tn_networks := networks\<rparr>))))"

definition add_egress_dispatch_flow ::
  "'o tun_conf \<Rightarrow> loc_env \<Rightarrow> pyval \<Rightarrow> pyval \<Rightarrow> tun_app \<Rightarrow> tun_app outcome" where
  "add_egress_dispatch_flow conf env lport segmentation_id =
     with_value (get_port_binding env lport) (\<lambda>binding.
     with_value (binding_ip env binding) (\<lambda>remote_ip.
     with_value (get_lport_tunnel_ofport conf env lport) (\<lambda>port_num.
     with_value (le_attr env lport ''unique_key'') (\<lambda>unique_key.
       send_flow conf (default_args\<lparr>
         a_inst := Some [Actions OFPIT_APPLY_ACTIONS
           [SetField ''tun_ipv4_dst'' (field_value remote_ip),
            SetField ''tunnel_id_nxm'' (field_value segmentation_id),
            OutputPort port_num OFPCML_MAX]],
         a_table_id := EGRESS_TABLE, a_priority := PRIORITY_MEDIUM,
         a_match := Some [(''reg7'', field_value unique_key)]\<rparr>)))))"

definition remove_egress_dispatch_flow ::
  "'o tun_conf \<Rightarrow> loc_env \<Rightarrow> pyval \<Rightarrow> tun_app \<Rightarrow> tun_app outcome" where
  "remove_egress_dispatch_flow conf env lport =
     with_value (le_attr env lport ''unique_key'') (\<lambda>unique_key.
       send_flow conf (default_args\<lparr>a_command := Some OFPFC_DELETE,
         a_table_id := EGRESS_TABLE, a_priority := PRIORITY_MEDIUM,
         a_match := Some [(''reg7'', field_value unique_key)]\<rparr>))"

text \<open>Broadcast, unknown and multicast traffic has the group bit in its destination address.\<close>

definition make_bum_match :: "pyval \<Rightarrow> fmatch" where
  "make_bum_match metadata =
     [(''metadata'', field_value metadata), (''eth_dst'', MMasked BUM_ADDR BUM_ADDR)]"

text \<open>
  One copy of the packet for each chassis. A port that the database store no longer has is
  skipped, \<open>get_one\<close> by its id.
\<close>

fun bum_flow_loop ::
  "'o tun_conf \<Rightarrow> loc_env \<Rightarrow> pyval \<Rightarrow> string list \<Rightarrow> pyval list \<Rightarrow> action list result" where
  "bum_flow_loop conf env segmentation_id [] peer_ip_list = Inr []"
| "bum_flow_loop conf env segmentation_id (port_id # port_ids) peer_ip_list =
     (case le_deref env ''LogicalPort'' port_id of
        None \<Rightarrow> bum_flow_loop conf env segmentation_id port_ids peer_ip_list
      | Some lport \<Rightarrow>
          bind_result (get_port_binding env lport) (\<lambda>binding.
          bind_result (binding_ip env binding) (\<lambda>peer_ip.
            if peer_ip \<in> set peer_ip_list then bum_flow_loop conf env segmentation_id port_ids peer_ip_list
            else
              bind_result (get_lport_tunnel_ofport conf env lport) (\<lambda>port_num.
              bind_result (bum_flow_loop conf env segmentation_id port_ids (set_add peer_ip peer_ip_list)) (\<lambda>actions.
                Inr ([SetField ''tun_ipv4_dst'' (field_value peer_ip),
                      SetField ''tunnel_id_nxm'' (field_value segmentation_id),
                      OutputPort port_num OFPCML_MAX] @ actions))))))"

definition make_bum_flow_actions ::
  "'o tun_conf \<Rightarrow> loc_env \<Rightarrow> pyval \<Rightarrow> pyval \<Rightarrow> tun_app \<Rightarrow> action list result" where
  "make_bum_flow_actions conf env network_id segmentation_id s =
     (case fst (get_remote_ports network_id None (tn_networks s)) of
        None \<Rightarrow> Inl TypeError
      | Some remote_ports \<Rightarrow> bum_flow_loop conf env segmentation_id remote_ports [])"

definition eval_flow_actions ::
  "'o tun_conf \<Rightarrow> loc_env \<Rightarrow> pyval \<Rightarrow> pyval \<Rightarrow> nat \<Rightarrow> flow_command \<Rightarrow> tun_app \<Rightarrow>
   (inst list option \<times> flow_command) result" where
  "eval_flow_actions conf env network_id segmentation_id port_count command s =
     (if port_count = 0 then Inr (None, OFPFC_DELETE)
      else
        bind_result (make_bum_flow_actions conf env network_id segmentation_id s) (\<lambda>actions.
          Inr (Some [Actions OFPIT_APPLY_ACTIONS actions],
               if port_count \<noteq> 1 then OFPFC_MODIFY else command)))"

definition modify_egress_bum_flow ::
  "'o tun_conf \<Rightarrow> loc_env \<Rightarrow> pyval \<Rightarrow> string \<Rightarrow> pyval \<Rightarrow> flow_command \<Rightarrow> tun_app \<Rightarrow> tun_app outcome" where
  "modify_egress_bum_flow conf env network_id network_type segmentation_id command s =
     (case get_remote_port_count network_id (Some network_type) (tn_networks s) of
        (port_count, networks) \<Rightarrow>
          (let s = s\<lparr>tn_networks := networks\<rparr>
           in with_value (eval_flow_actions conf env network_id segmentation_id port_count command s)
                (\<lambda>(inst, command).
                   send_flow conf (default_args\<lparr>a_inst := inst, a_table_id := EGRESS_TABLE,
                     a_command := Some command, a_priority := PRIORITY_LOW,
                     a_match := Some (make_bum_match network_id)\<rparr>)) s))"

definition tun_add_remote_port :: "'o tun_conf \<Rightarrow> loc_env \<Rightarrow> pyval \<Rightarrow> tun_app \<Rightarrow> tun_app outcome" where
  "tun_add_remote_port conf env lport =
     on_tunnel_network conf env lport (\<lambda>lswitch network_type.
       with_value (le_attr env lswitch ''segmentation_id'') (\<lambda>segmentation_id s.
         and_then (add_egress_dispatch_flow conf env lport segmentation_id s)
           (with_value (le_attr env lswitch ''unique_key'') (\<lambda>network_id.
            with_value (obj_id lport) (\<lambda>i s.
              modify_egress_bum_flow conf env network_id network_type segmentation_id OFPFC_ADD
                (s\<lparr>tn_networks := add_remote_port i network_id network_type (tn_networks s)\<rparr>))))))"

definition tun_remove_remote_port :: "'o tun_conf \<Rightarrow> loc_env \<Rightarrow> pyval \<Rightarrow> tun_app \<Rightarrow> tun_app outcome" where
  "tun_remove_remote_port conf env lport =
     on_tunnel_network conf env lport (\<lambda>lswitch network_type s.
       and_then (remove_egress_dispatch_flow conf env lport s)
         (with_value (le_attr env lswitch ''unique_key'') (\<lambda>network_id.
          with_value (le_attr env lswitch ''segmentation_id'') (\<lambda>segmentation_id.
          with_value (obj_id lport) (\<lambda>i s.
            modify_egress_bum_flow conf env network_id network_type segmentation_id OFPFC_MODIFY
              (s\<lparr>tn_networks := remove_remote_port i network_id network_type (tn_networks s)\<rparr>))))))"

text \<open>The handlers by the event they are registered for; other events of a port have none.\<close>

definition tun_handle ::
  "'o tun_conf \<Rightarrow> loc_env \<times> string \<times> pyval \<Rightarrow> tun_app \<Rightarrow> tun_app outcome" where
  "tun_handle conf ev =
     (case ev of (env, event, lport) \<Rightarrow>
       if event = ''bind_local'' then tun_add_local_port conf env lport
       else if event = ''unbind_local'' then tun_remove_local_port conf env lport
       else if event = ''bind_remote'' then tun_add_remote_port conf env lport
       else if event = ''unbind_remote'' then tun_remove_remote_port conf env lport
       else (\<lambda>s. (None, s)))"

section \<open>The ports bound so far\<close>

text \<open>
  What the handlers read of a port: the ids and keys, the type and segment of its network and,
  for a remote port, the address of the chassis it is bound to.
\<close>

record tun_port =
  tp_id :: string
  tp_key :: pyval
  tp_type :: string
  tp_net :: pyval
  tp_seg :: pyval
  tp_ip :: pyval

definition read_net :: "loc_env \<Rightarrow> pyval \<Rightarrow> tun_port result" where
  "read_net env lport =
     bind_result (le_attr env lport ''lswitch'') (\<lambda>lswitch.
     bind_result (le_attr env lswitch ''network_type'') (\<lambda>network_type.
     bind_result (le_attr env lswitch ''unique_key'') (\<lambda>net.
     bind_result (le_attr env lswitch ''segmentation_id'') (\<lambda>seg.
     bind_result (le_attr env lport ''unique_key'') (\<lambda>key.
     bind_result (obj_id lport) (\<lambda>i.
     bind_result (py_string network_type) (\<lambda>t.
       Inr \<lparr>tp_id = i, tp_key = key, tp_type = t, tp_net = net, tp_seg = seg, tp_ip = PNone\<rparr>)))))))"

definition read_remote :: "loc_env \<Rightarrow> pyval \<Rightarrow> tun_port result" where
  "read_remote env lport =
     bind_result (read_net env lport) (\<lambda>x.
     bind_result (get_port_binding env lport) (\<lambda>binding.
     bind_result (binding_ip env binding) (\<lambda>ip. Inr (x\<lparr>tp_ip := ip\<rparr>))))"

lemma read_netD:
  assumes "read_net env p = Inr x"
  shows "\<exists>sw. le_attr env p ''lswitch'' = Inr sw \<and> le_attr env sw ''network_type'' = Inr (PStr (tp_type x)) \<and>
    le_attr env sw ''unique_key'' = Inr (tp_net x) \<and> le_attr env sw ''segmentation_id'' = Inr (tp_seg x)"
    "le_attr env p ''unique_key'' = Inr (tp_key x)" "obj_id p = Inr (tp_id x)"
  using assms by (auto simp: read_net_def bind_result_Inr_iff)

lemma read_remoteD:
  assumes "read_remote env p = Inr x"
  shows "\<exists>y. read_net env p = Inr y \<and> x = y\<lparr>tp_ip := tp_ip x\<rparr>"
    "\<exists>b. get_port_binding env p = Inr b \<and> binding_ip env b = Inr (tp_ip x)"
  using assms by (auto simp: read_remote_def bind_result_Inr_iff)

record tun_bound =
  tb_local :: "tun_port list"
  tb_remote :: "tun_port list"

text \<open>
  A port may be bound when it is not bound yet and its identifiers fit those of the bound ports:
  one type and segment for a network, different segments or tunnels for different networks, and
  a key of its own for every port.
\<close>

definition fits_local :: "'o tun_conf \<Rightarrow> tun_port \<Rightarrow> tun_port \<Rightarrow> bool" where
  "fits_local conf x y \<longleftrightarrow>
     (if tp_net x = tp_net y then tp_type x = tp_type y \<and> tp_seg x = tp_seg y
      else tp_seg x \<noteq> tp_seg y \<or> get_vtp_ofport conf (tp_type x) \<noteq> get_vtp_ofport conf (tp_type y))"

definition fits_remote :: "tun_port \<Rightarrow> tun_port \<Rightarrow> bool" where
  "fits_remote x y \<longleftrightarrow> (tp_net x = tp_net y \<longrightarrow> tp_type x = tp_type y \<and> tp_seg x = tp_seg y)"

definition may_bind_local :: "'o tun_conf \<Rightarrow> tun_port list \<Rightarrow> tun_port \<Rightarrow> bool" where
  "may_bind_local conf xs x \<longleftrightarrow> (\<forall>y\<in>set xs. tp_id y \<noteq> tp_id x \<and> fits_local conf x y)"

definition may_bind_remote :: "tun_port list \<Rightarrow> tun_port \<Rightarrow> bool" where
  "may_bind_remote xs x \<longleftrightarrow> (\<forall>y\<in>set xs. tp_id y \<noteq> tp_id x \<and> tp_key y \<noteq> tp_key x \<and> fits_remote x y)"

lemma fits_refl [simp]: "fits_local conf x x" "fits_remote x x"
  by (simp_all add: fits_local_def fits_remote_def)

lemma fits_sym: "fits_local conf x y = fits_local conf y x" "fits_remote x y = fits_remote y x"
  by (auto simp: fits_local_def fits_remote_def)

text \<open>The store still has the bound ports of a network as they were bound.\<close>

definition in_store :: "loc_env \<Rightarrow> pyval \<Rightarrow> tun_port list \<Rightarrow> bool" where
  "in_store env n xs \<longleftrightarrow>
     (\<forall>y\<in>set xs. tp_net y = n \<longrightarrow>
       (case le_deref env ''LogicalPort'' (tp_id y) of
          None \<Rightarrow> False | Some q \<Rightarrow> read_remote env q = Inr y))"

definition bound_step ::
  "'o tun_conf \<Rightarrow> loc_env \<times> string \<times> pyval \<Rightarrow> tun_bound \<Rightarrow> tun_bound option" where
  "bound_step conf ev B =
     (case ev of (env, event, lport) \<Rightarrow>
       if event = ''bind_local'' then
         (case read_net env lport of
            Inl e \<Rightarrow> None
          | Inr x \<Rightarrow>
              if tp_type x \<notin> set (tc_tunnel_types conf) then Some B
              else if may_bind_local conf (tb_local B) x
              then Some (B\<lparr>tb_local := tb_local B @ [x]\<rparr>) else None)
       else if event = ''unbind_local'' then
         (case read_net env lport of
            Inl e \<Rightarrow> None
          | Inr x \<Rightarrow>
              if tp_type x \<notin> set (tc_tunnel_types conf) then Some B
              else if x \<in> set (tb_local B) then Some (B\<lparr>tb_local := remove1 x (tb_local B)\<rparr>) else None)
       else if event = ''bind_remote'' then
         (case read_remote env lport of
            Inl e \<Rightarrow> None
          | Inr x \<Rightarrow>
              if tp_type x \<notin> set (tc_tunnel_types conf) then Some B
              else if may_bind_remote (tb_remote B) x \<and> in_store env (tp_net x) (tb_remote B @ [x])
              then Some (B\<lparr>tb_remote := tb_remote B @ [x]\<rparr>) else None)
       else if event = ''unbind_remote'' then
         (case read_remote env lport of
            Inl e \<Rightarrow> None
          | Inr x \<Rightarrow>
              if tp_type x \<notin> set (tc_tunnel_types conf) then Some B
              else if x \<in> set (tb_remote B) \<and> in_store env (tp_net x) (remove1 x (tb_remote B))
              then Some (B\<lparr>tb_remote := remove1 x (tb_remote B)\<rparr>) else None)
       else Some B)"

fun bound_after ::
  "'o tun_conf \<Rightarrow> (loc_env \<times> string \<times> pyval) list \<Rightarrow> tun_bound \<Rightarrow> tun_bound option" where
  "bound_after conf [] B = Some B"
| "bound_after conf (ev # evs) B =
     (case bound_step conf ev B of None \<Rightarrow> None | Some B \<Rightarrow> bound_after conf evs B)"

definition nothing_bound :: tun_bound where
  "nothing_bound = \<lparr>tb_local = [], tb_remote = []\<rparr>"

section \<open>The flows they should have\<close>

text \<open>The first occurrences of the elements of a list.\<close>

fun uniq :: "'a list \<Rightarrow> 'a list" where
  "uniq [] = []"
| "uniq (x # xs) = x # filter (\<lambda>y. y \<noteq> x) (uniq xs)"

lemma set_uniq [simp]: "set (uniq xs) = set xs"
  by (induction xs) auto

lemma distinct_uniq [simp]: "distinct (uniq xs)"
  by (induction xs) auto

lemma filter_uniq_Cons:
  "filter (\<lambda>y. y \<notin> set seen) (uniq (x # xs)) =
     (if x \<in> set seen then filter (\<lambda>y. y \<notin> set seen) (uniq xs)
      else x # filter (\<lambda>y. y \<notin> set (set_add x seen)) (uniq xs))"
  by (auto intro!: filter_cong)

definition tunnel_copy :: "'o tun_conf \<Rightarrow> string \<Rightarrow> pyval \<Rightarrow> pyval \<Rightarrow> action list" where
  "tunnel_copy conf t seg ip =
     [SetField ''tun_ipv4_dst'' (field_value ip), SetField ''tunnel_id_nxm'' (field_value seg),
      OutputPort (get_vtp_ofport conf t) OFPCML_MAX]"

definition dispatch_key :: "pyval \<Rightarrow> flow_key" where
  "dispatch_key k = (EGRESS_TABLE, PRIORITY_MEDIUM, map_of [(''reg7'', field_value k)])"

definition bum_key :: "pyval \<Rightarrow> flow_key" where
  "bum_key n = (EGRESS_TABLE, PRIORITY_LOW, map_of (make_bum_match n))"

definition ingress_key :: "pyval \<Rightarrow> pyval \<Rightarrow> flow_key" where
  "ingress_key seg ofport =
     (INGRESS_CLASSIFICATION_DISPATCH_TABLE, PRIORITY_MEDIUM,
      map_of [(''tunnel_id_nxm'', field_value seg), (''in_port'', field_value ofport)])"

definition accept_network :: "pyval \<Rightarrow> inst list" where
  "accept_network n =
     [Actions OFPIT_APPLY_ACTIONS [SetField ''metadata'' (field_value n)],
      GotoTable INGRESS_DESTINATION_PORT_LOOKUP_TABLE]"

definition dispatch_flow :: "'o tun_conf \<Rightarrow> tun_port list \<Rightarrow> pyval \<Rightarrow> inst list option" where
  "dispatch_flow conf remote k =
     map_option (\<lambda>x. [Actions OFPIT_APPLY_ACTIONS (tunnel_copy conf (tp_type x) (tp_seg x) (tp_ip x))])
       (find (\<lambda>x. tp_key x = k) remote)"

definition bum_flow :: "'o tun_conf \<Rightarrow> tun_port list \<Rightarrow> pyval \<Rightarrow> inst list option" where
  "bum_flow conf remote n =
     (case filter (\<lambda>x. tp_net x = n) remote of
        [] \<Rightarrow> None
      | x # xs \<Rightarrow> Some [Actions OFPIT_APPLY_ACTIONS
          (concat (map (tunnel_copy conf (tp_type x) (tp_seg x)) (uniq (map tp_ip (x # xs)))))])"

definition ingress_flow :: "'o tun_conf \<Rightarrow> tun_port list \<Rightarrow> pyval \<Rightarrow> pyval \<Rightarrow> inst list option" where
  "ingress_flow conf local seg ofport =
     map_option (\<lambda>x. accept_network (tp_net x))
       (find (\<lambda>x. tp_seg x = seg \<and> get_vtp_ofport conf (tp_type x) = ofport) local)"

section \<open>The cache holds the bound ports\<close>

definition holds :: "pyval net_cache \<Rightarrow> tun_port list \<Rightarrow> bool" where
  "holds ports xs \<longleftrightarrow> wf_cache ports \<and>
     (\<forall>n t. ports_on ports n t = map tp_id (filter (\<lambda>x. tp_net x = n \<and> tp_type x = t) xs))"

lemma holds_Nil [simp]: "holds [] []"
  by (simp add: holds_def)

lemma holds_add:
  "holds ports xs \<Longrightarrow> holds (ln_add_port (tp_id x) (tp_net x) (tp_type x) ports) (xs @ [x])"
  by (auto simp: holds_def)

lemma remove1_filter_map:
  assumes "distinct (map f xs)" "x \<in> set xs" "P x"
  shows "remove1 (f x) (map f (filter P xs)) = map f (filter P (remove1 x xs))"
  using assms
proof (induction xs)
  case Nil
  then show ?case by simp
next
  case (Cons y xs)
  show ?case
  proof (cases "y = x")
    case True
    then show ?thesis using Cons.prems(3) by simp
  next
    case False
    then have "x \<in> set xs" "f x \<noteq> f y" using Cons.prems(1,2) by (auto simp: image_iff)
    then show ?thesis using False Cons by simp
  qed
qed

lemma filter_remove1_other: "\<not> P x \<Longrightarrow> filter P (remove1 x xs) = filter P xs"
  by (induction xs) auto

lemma holds_remove:
  assumes "holds ports xs" "distinct (map tp_id xs)" "x \<in> set xs"
  shows "holds (ln_remove_port (tp_id x) (tp_net x) (tp_type x) ports) (remove1 x xs)"
  using assms remove1_filter_map [OF assms(2,3), of "\<lambda>y. tp_net y = tp_net x \<and> tp_type y = tp_type x"]
  by (auto simp: holds_def filter_remove1_other)

lemma holds_count:
  assumes "holds ports xs" "t \<noteq> []" "ln_get_port_count n (Some t) ports = (k, ports')"
  shows "k = length (filter (\<lambda>x. tp_net x = n \<and> tp_type x = t) xs)" "holds ports' xs"
  using assms port_count_is_length [OF assms(2), of n ports] wf_cache_ops(3) [of ports n "Some t"]
  by (simp_all add: holds_def)

definition nets_hold :: "pyval logical_networks \<Rightarrow> tun_bound \<Rightarrow> bool" where
  "nets_hold ln B \<longleftrightarrow>
     holds (local_ports_net_cache ln) (tb_local B) \<and> holds (remote_ports_net_cache ln) (tb_remote B)"

section \<open>The messages and their effect\<close>

definition ingress_args :: "'o tun_conf \<Rightarrow> tun_port \<Rightarrow> flow_args" where
  "ingress_args conf x = default_args\<lparr>
     a_inst := Some (accept_network (tp_net x)),
     a_table_id := INGRESS_CLASSIFICATION_DISPATCH_TABLE, a_priority := PRIORITY_MEDIUM,
     a_match := Some [(''tunnel_id_nxm'', field_value (tp_seg x)),
                      (''in_port'', field_value (get_vtp_ofport conf (tp_type x)))]\<rparr>"

definition no_ingress_args :: "'o tun_conf \<Rightarrow> tun_port \<Rightarrow> flow_args" where
  "no_ingress_args conf x = default_args\<lparr>a_command := Some OFPFC_DELETE,
     a_table_id := INGRESS_CLASSIFICATION_DISPATCH_TABLE, a_priority := PRIORITY_MEDIUM,
     a_match := Some [(''tunnel_id_nxm'', field_value (tp_seg x)),
                      (''in_port'', field_value (get_vtp_ofport conf (tp_type x)))]\<rparr>"

definition dispatch_args :: "'o tun_conf \<Rightarrow> tun_port \<Rightarrow> flow_args" where
  "dispatch_args conf x = default_args\<lparr>
     a_inst := Some [Actions OFPIT_APPLY_ACTIONS (tunnel_copy conf (tp_type x) (tp_seg x) (tp_ip x))],
     a_table_id := EGRESS_TABLE, a_priority := PRIORITY_MEDIUM,
     a_match := Some [(''reg7'', field_value (tp_key x))]\<rparr>"

definition no_dispatch_args :: "tun_port \<Rightarrow> flow_args" where
  "no_dispatch_args x = default_args\<lparr>a_command := Some OFPFC_DELETE,
     a_table_id := EGRESS_TABLE, a_priority := PRIORITY_MEDIUM,
     a_match := Some [(''reg7'', field_value (tp_key x))]\<rparr>"

definition bum_args :: "inst list option \<Rightarrow> flow_command \<Rightarrow> pyval \<Rightarrow> flow_args" where
  "bum_args inst command n = default_args\<lparr>a_inst := inst, a_table_id := EGRESS_TABLE,
     a_command := Some command, a_priority := PRIORITY_LOW, a_match := Some (make_bum_match n)\<rparr>"

lemmas tun_args_defs = ingress_args_def no_ingress_args_def dispatch_args_def no_dispatch_args_def bum_args_def

lemma plain_tun_args [simp]:
  "plain_args (ingress_args conf x)" "plain_args (no_ingress_args conf x)" "plain_args (dispatch_args conf x)"
  "plain_args (no_dispatch_args x)" "plain_args (bum_args inst command n)"
  by (simp_all add: tun_args_defs)

lemma mval_covers_field_value [simp]: "mval_covers (field_value a) (field_value b) \<longleftrightarrow> a = b"
  by (cases a; cases b) auto

lemma map_of_single_eq: "map_of [(k, v)] = map_of [(k, w)] \<longleftrightarrow> v = w"
  by (auto dest: fun_cong [of _ _ k])

lemma tun_keys [simp]:
  "dispatch_key k = dispatch_key k' \<longleftrightarrow> k = k'" "bum_key n = bum_key n' \<longleftrightarrow> n = n'"
  "ingress_key seg p = ingress_key seg' p' \<longleftrightarrow> seg = seg' \<and> p = p'"
  "dispatch_key k \<noteq> bum_key n" "bum_key n \<noteq> dispatch_key k" "dispatch_key k \<noteq> ingress_key seg p"
  "ingress_key seg p \<noteq> dispatch_key k" "bum_key n \<noteq> ingress_key seg p" "ingress_key seg p \<noteq> bum_key n"
proof -
  show "dispatch_key k = dispatch_key k' \<longleftrightarrow> k = k'"
    by (auto simp: dispatch_key_def dest: fun_cong [of _ _ "''reg7''"])
  show "bum_key n = bum_key n' \<longleftrightarrow> n = n'"
    by (auto simp: bum_key_def make_bum_match_def dest: fun_cong [of _ _ "''metadata''"])
  show "ingress_key seg p = ingress_key seg' p' \<longleftrightarrow> seg = seg' \<and> p = p'"
    by (auto simp: ingress_key_def dest: fun_cong [of _ _ "''tunnel_id_nxm''"] fun_cong [of _ _ "''in_port''"])
qed (simp_all add: dispatch_key_def bum_key_def ingress_key_def PRIORITY_MEDIUM_def PRIORITY_LOW_def table_defs)

lemma tun_adds:
  "table_mod (flow_message ck cm (ingress_args conf x)) T =
     T(ingress_key (tp_seg x) (get_vtp_ofport conf (tp_type x)) \<mapsto>
       accept_network (tp_net x))"
  "table_mod (flow_message ck cm (dispatch_args conf x)) T =
     T(dispatch_key (tp_key x) \<mapsto>
       [Actions OFPIT_APPLY_ACTIONS (tunnel_copy conf (tp_type x) (tp_seg x) (tp_ip x))])"
  "table_mod (flow_message ck cm (bum_args (Some inst) OFPFC_ADD n)) T = T(bum_key n \<mapsto> inst)"
  by (simp_all add: table_mod_def tun_args_defs default_args_def or_default_def ingress_key_def
      dispatch_key_def bum_key_def)

definition tun_key :: "flow_key \<Rightarrow> bool" where
  "tun_key key \<longleftrightarrow> key \<in> range dispatch_key \<union> range bum_key \<union> range (case_prod ingress_key)"

lemma tun_keyI [simp]: "tun_key (dispatch_key k)" "tun_key (bum_key n)" "tun_key (ingress_key seg p)"
  by (auto simp: tun_key_def intro: image_eqI [of _ _ "(seg, p)"])

lemma tun_hits:
  assumes "tun_key key"
  shows "hits (flow_message ck cm (no_ingress_args conf x)) key \<longleftrightarrow>
      key = ingress_key (tp_seg x) (get_vtp_ofport conf (tp_type x))"
    "hits (flow_message ck cm (no_dispatch_args x)) key \<longleftrightarrow> key = dispatch_key (tp_key x)"
    "hits (flow_message ck cm (bum_args inst command n)) key \<longleftrightarrow> key = bum_key n"
  using assms unfolding tun_key_def
  by (auto simp: hits_def tun_args_defs default_args_def match_covers_def
      OFPTT_ALL_def ingress_key_def dispatch_key_def bum_key_def make_bum_match_def table_defs
      PRIORITY_MEDIUM_def PRIORITY_LOW_def split: if_splits)

lemma tun_changes:
  assumes "tun_key key"
  shows "table_mod (flow_message ck cm (no_ingress_args conf x)) T key =
      (if key = ingress_key (tp_seg x) (get_vtp_ofport conf (tp_type x)) then None else T key)"
    "table_mod (flow_message ck cm (no_dispatch_args x)) T key =
      (if key = dispatch_key (tp_key x) then None else T key)"
    "table_mod (flow_message ck cm (bum_args inst OFPFC_DELETE n)) T key =
      (if key = bum_key n then None else T key)"
    "table_mod (flow_message ck cm (bum_args (Some i) OFPFC_MODIFY n)) T key =
      (if key = bum_key n then map_option (\<lambda>_. i) (T key) else T key)"
proof -
  have c: "fm_command (flow_message ck cm (no_ingress_args conf x)) = OFPFC_DELETE"
    "fm_command (flow_message ck cm (no_dispatch_args x)) = OFPFC_DELETE"
    "fm_command (flow_message ck cm (bum_args inst command n)) = command"
    "fm_inst (flow_message ck cm (bum_args (Some i) command n)) = i" for inst command n i
    by (simp_all add: tun_args_defs or_default_def)
  show "table_mod (flow_message ck cm (no_ingress_args conf x)) T key =
      (if key = ingress_key (tp_seg x) (get_vtp_ofport conf (tp_type x)) then None else T key)"
    "table_mod (flow_message ck cm (no_dispatch_args x)) T key =
      (if key = dispatch_key (tp_key x) then None else T key)"
    "table_mod (flow_message ck cm (bum_args inst OFPFC_DELETE n)) T key =
      (if key = bum_key n then None else T key)"
    "table_mod (flow_message ck cm (bum_args (Some i) OFPFC_MODIFY n)) T key =
      (if key = bum_key n then map_option (\<lambda>_. i) (T key) else T key)"
    unfolding table_mod_def c by (simp_all only: flow_command.case tun_hits [OF assms]) (cases "T key"; auto)
qed

section \<open>The handlers\<close>

lemma tunnel_ofport_read:
  "read_net env p = Inr x \<Longrightarrow> get_lport_tunnel_ofport conf env p = Inr (get_vtp_ofport conf (tp_type x))"
  using read_netD [of env p x] by (auto simp: get_lport_tunnel_ofport_def)

lemma network_match_read:
  assumes "read_net env p = Inr x"
  shows "make_network_match conf env p = Inr [(''tunnel_id_nxm'', field_value (tp_seg x)),
    (''in_port'', field_value (get_vtp_ofport conf (tp_type x)))]"
  using read_netD [OF assms] tunnel_ofport_read [OF assms, of conf] by (auto simp: make_network_match_def)

lemma on_tunnel_network_read:
  assumes "read_net env p = Inr x"
  obtains sw where "le_attr env sw ''unique_key'' = Inr (tp_net x)"
    "le_attr env sw ''segmentation_id'' = Inr (tp_seg x)"
    "\<And>body s. on_tunnel_network conf env p body s =
       (if tp_type x \<in> set (tc_tunnel_types conf) then body sw (tp_type x) s else (None, s))"
proof -
  from read_netD(1) [OF assms] obtain sw where sw: "le_attr env p ''lswitch'' = Inr sw"
    "le_attr env sw ''network_type'' = Inr (PStr (tp_type x))" "le_attr env sw ''unique_key'' = Inr (tp_net x)"
    "le_attr env sw ''segmentation_id'' = Inr (tp_seg x)" by blast
  then show thesis by (intro that [of sw]) (simp_all add: on_tunnel_network_def)
qed

lemma supported_network:
  assumes "read_net env p = Inr x" "tp_type x \<in> set (tc_tunnel_types conf)"
  obtains sw where "le_attr env sw ''unique_key'' = Inr (tp_net x)"
    "le_attr env sw ''segmentation_id'' = Inr (tp_seg x)"
    "on_tunnel_network conf env p = (\<lambda>body. body sw (tp_type x))"
proof (rule on_tunnel_network_read [OF assms(1), of conf])
  fix sw
  assume "le_attr env sw ''unique_key'' = Inr (tp_net x)" "le_attr env sw ''segmentation_id'' = Inr (tp_seg x)"
    "\<And>body s. on_tunnel_network conf env p body s =
       (if tp_type x \<in> set (tc_tunnel_types conf) then body sw (tp_type x) s else (None, s))"
  with assms(2) show thesis by (intro that [of sw]) (simp_all add: fun_eq_iff)
qed

lemma unsupported_network:
  assumes "read_net env p = Inr x" "tp_type x \<notin> set (tc_tunnel_types conf)"
  shows "tun_add_local_port conf env p s = (None, s)" "tun_remove_local_port conf env p s = (None, s)"
    "tun_add_remote_port conf env p s = (None, s)" "tun_remove_remote_port conf env p s = (None, s)"
  by (rule on_tunnel_network_read [OF assms(1), of conf]; simp add: assms(2) tun_add_local_port_def
      tun_remove_local_port_def tun_add_remote_port_def tun_remove_remote_port_def)+

text \<open>The ports of a network and type among the bound ones.\<close>

abbreviation on_net :: "tun_port \<Rightarrow> tun_port list \<Rightarrow> tun_port list" where
  "on_net x xs \<equiv> filter (\<lambda>y. tp_net y = tp_net x \<and> tp_type y = tp_type x) xs"

definition good_types :: "'o tun_conf \<Rightarrow> bool" where
  "good_types conf \<longleftrightarrow> [] \<notin> set (tc_tunnel_types conf)"

lemma add_local_result:
  assumes "stamps conf ck cm" "good_types conf" "read_net env p = Inr x"
    and "tp_type x \<in> set (tc_tunnel_types conf)" "nets_hold (tn_networks s) B"
  shows "\<exists>s'. tun_add_local_port conf env p s = (None, s') \<and>
    nets_hold (tn_networks s') (B\<lparr>tb_local := tb_local B @ [x]\<rparr>) \<and>
    fa_sent s' = fa_sent s @ (if on_net x (tb_local B) = [] then [flow_message ck cm (ingress_args conf x)] else [])"
proof -
  obtain sw where sw: "le_attr env sw ''unique_key'' = Inr (tp_net x)"
    "le_attr env sw ''segmentation_id'' = Inr (tp_seg x)"
    "on_tunnel_network conf env p = (\<lambda>body. body sw (tp_type x))"
    using supported_network [OF assms(3,4)] by blast
  obtain k ports where cnt: "ln_get_port_count (tp_net x) (Some (tp_type x)) (local_ports_net_cache (tn_networks s)) = (k, ports)"
    by fastforce
  have "tp_type x \<noteq> []" using assms(2,4) by (auto simp: good_types_def)
  with holds_count [OF _ _ cnt] assms(5) have h: "k = length (on_net x (tb_local B))" "holds ports (tb_local B)"
    by (simp_all add: nets_hold_def)
  have send: "new_network_ingress_flow conf env p (tp_net x) s = (None, s\<lparr>fa_sent := fa_sent s @
      [flow_message ck cm (ingress_args conf x)]\<rparr>)" for s
    by (simp add: new_network_ingress_flow_def network_match_read [OF assms(3)] send_flow_stamped [OF assms(1)]
        ingress_args_def accept_network_def)
  show ?thesis
    using holds_add [OF h(2), of x] assms(5) read_netD(3) [OF assms(3)]
    by (auto simp: tun_add_local_port_def sw get_local_port_count_def cnt h(1) send nets_hold_def add_local_port_def)
qed

lemma remove_local_result:
  assumes "stamps conf ck cm" "good_types conf" "read_net env p = Inr x"
    and "tp_type x \<in> set (tc_tunnel_types conf)" "nets_hold (tn_networks s) B"
    and "x \<in> set (tb_local B)" "distinct (map tp_id (tb_local B))"
  shows "\<exists>s'. tun_remove_local_port conf env p s = (None, s') \<and>
    nets_hold (tn_networks s') (B\<lparr>tb_local := remove1 x (tb_local B)\<rparr>) \<and>
    fa_sent s' = fa_sent s @
      (if on_net x (remove1 x (tb_local B)) = [] then [flow_message ck cm (no_ingress_args conf x)] else [])"
proof -
  obtain sw where sw: "le_attr env sw ''unique_key'' = Inr (tp_net x)"
    "le_attr env sw ''segmentation_id'' = Inr (tp_seg x)"
    "on_tunnel_network conf env p = (\<lambda>body. body sw (tp_type x))"
    using supported_network [OF assms(3,4)] by blast
  have held: "holds (ln_remove_port (tp_id x) (tp_net x) (tp_type x) (local_ports_net_cache (tn_networks s)))
      (remove1 x (tb_local B))"
    using holds_remove [OF _ assms(7,6)] assms(5) by (simp add: nets_hold_def)
  obtain k ports where cnt: "ln_get_port_count (tp_net x) (Some (tp_type x))
      (ln_remove_port (tp_id x) (tp_net x) (tp_type x) (local_ports_net_cache (tn_networks s))) = (k, ports)"
    by fastforce
  have "tp_type x \<noteq> []" using assms(2,4) by (auto simp: good_types_def)
  with holds_count [OF held _ cnt] have h: "k = length (on_net x (remove1 x (tb_local B)))"
    "holds ports (remove1 x (tb_local B))" by simp_all
  have send: "remove_network_ingress_flow conf env p s = (None, s\<lparr>fa_sent := fa_sent s @
      [flow_message ck cm (no_ingress_args conf x)]\<rparr>)" for s
    by (simp add: remove_network_ingress_flow_def network_match_read [OF assms(3)] send_flow_stamped [OF assms(1)]
        no_ingress_args_def)
  show ?thesis
    using h(2) assms(5) read_netD(3) [OF assms(3)]
    by (auto simp: tun_remove_local_port_def sw get_local_port_count_def cnt h(1) send nets_hold_def remove_local_port_def)
qed

text \<open>One copy for each peer: the loop against the list of first occurrences.\<close>

lemma bum_loop_copies:
  assumes "in_store env n xs" "\<forall>x\<in>set xs. tp_net x = n \<and> tp_type x = t"
  shows "bum_flow_loop conf env seg (map tp_id xs) seen =
    Inr (concat (map (tunnel_copy conf t seg) (filter (\<lambda>ip. ip \<notin> set seen) (uniq (map tp_ip xs)))))"
  using assms
proof (induction xs arbitrary: seen)
  case Nil
  then show ?case by simp
next
  case (Cons x xs)
  then obtain q where q: "le_deref env ''LogicalPort'' (tp_id x) = Some q" "read_remote env q = Inr x"
    by (auto simp: in_store_def split: option.splits)
  from read_remoteD [OF q(2)] obtain y b where y: "read_net env q = Inr y" "tp_type y = tp_type x"
    "get_port_binding env q = Inr b" "binding_ip env b = Inr (tp_ip x)" by (metis tun_port.select_convs(3) tun_port.surjective tun_port.update_convs(6))
  have IH: "bum_flow_loop conf env seg (map tp_id xs) seen' =
      Inr (concat (map (tunnel_copy conf t seg) (filter (\<lambda>ip. ip \<notin> set seen') (uniq (map tp_ip xs)))))" for seen'
    using Cons by (simp add: in_store_def)
  have loop: "bum_flow_loop conf env seg (map tp_id (x # xs)) seen =
      (if tp_ip x \<in> set seen then bum_flow_loop conf env seg (map tp_id xs) seen
       else bind_result (bum_flow_loop conf env seg (map tp_id xs) (set_add (tp_ip x) seen))
         (\<lambda>actions. Inr (tunnel_copy conf t seg (tp_ip x) @ actions)))"
    using q(1) y(3,4) tunnel_ofport_read [OF y(1), of conf] y(2) Cons.prems(2)
    by (simp add: tunnel_copy_def)
  show ?case unfolding loop unfolding IH list.map(2) filter_uniq_Cons by simp
qed

definition bum_command :: "tun_port list \<Rightarrow> flow_command \<Rightarrow> flow_command" where
  "bum_command xs command =
     (if xs = [] then OFPFC_DELETE else if length xs \<noteq> 1 then OFPFC_MODIFY else command)"

lemma modify_bum_result:
  assumes "stamps conf ck cm" "good_types conf" "t \<in> set (tc_tunnel_types conf)"
    and "nets_hold (tn_networks s) B" "in_store env n (tb_remote B)"
    and "\<forall>x\<in>set (tb_remote B). tp_net x = n \<longrightarrow> tp_type x = t \<and> tp_seg x = seg"
  shows "\<exists>s'. modify_egress_bum_flow conf env n t seg command s = (None, s') \<and>
    nets_hold (tn_networks s') B \<and>
    fa_sent s' = fa_sent s @ [flow_message ck cm (bum_args (bum_flow conf (tb_remote B) n)
      (bum_command (filter (\<lambda>x. tp_net x = n) (tb_remote B)) command) n)]"
proof -
  let ?R = "filter (\<lambda>x. tp_net x = n) (tb_remote B)"
  obtain k ports where cnt: "ln_get_port_count n (Some t) (remote_ports_net_cache (tn_networks s)) = (k, ports)"
    by fastforce
  have t: "t \<noteq> []" using assms(2,3) by (auto simp: good_types_def)
  have R: "filter (\<lambda>x. tp_net x = n \<and> tp_type x = t) (tb_remote B) = ?R"
    using assms(6) by (auto intro: filter_cong)
  from holds_count [OF _ t cnt, of "tb_remote B"] assms(4) R
  have h: "k = length ?R" "holds ports (tb_remote B)" by (simp_all add: nets_hold_def)
  then have p: "ports_on ports n t = map tp_id ?R" "wf_cache ports" using R by (simp_all add: holds_def)
  have other: "ports_on ports n t' = []" if "t' \<noteq> t" for t'
    using h(2) assms(6) that by (auto simp: holds_def filter_empty_conv)
  have stored: "in_store env n ?R" using assms(5) by (simp add: in_store_def)
  define s1 where "s1 = s\<lparr>tn_networks := (tn_networks s)\<lparr>remote_ports_net_cache := ports\<rparr>\<rparr>"
  have eval: "eval_flow_actions conf env n seg k command s1 = Inr (bum_flow conf (tb_remote B) n, bum_command ?R command)"
  proof (cases "?R = []")
    case True
    then show ?thesis by (simp add: eval_flow_actions_def h(1) bum_flow_def bum_command_def)
  next
    case False
    have "fst (get_remote_ports n None (tn_networks s1)) = Some (map tp_id ?R)"
      using get_ports_single_type [OF p(2), of n t] p(1) other False
      by (simp add: get_remote_ports_def s1_def)
    moreover have "bum_flow_loop conf env seg (map tp_id ?R) [] =
        Inr (concat (map (tunnel_copy conf t seg) (uniq (map tp_ip ?R))))"
      using bum_loop_copies [OF stored, of t conf seg "[]"] assms(6) by simp
    moreover from False obtain x xs where x: "?R = x # xs" by (cases ?R) auto
    moreover have "x \<in> set ?R" using x by simp
    then have "tp_type x = t" "tp_seg x = seg" using assms(6) by simp_all
    ultimately show ?thesis
      by (simp add: eval_flow_actions_def make_bum_flow_actions_def h(1) bum_flow_def bum_command_def)
  qed
  have "modify_egress_bum_flow conf env n t seg command s =
      (None, s1\<lparr>fa_sent := fa_sent s1 @ [flow_message ck cm (bum_args (bum_flow conf (tb_remote B) n)
        (bum_command ?R command) n)]\<rparr>)"
    using eval by (simp add: modify_egress_bum_flow_def get_remote_port_count_def cnt s1_def [symmetric]
        send_flow_stamped [OF assms(1)] bum_args_def)
  then show ?thesis using assms(4) h(2) by (auto simp: s1_def nets_hold_def)
qed

lemma add_remote_result:
  assumes "stamps conf ck cm" "good_types conf" "read_remote env p = Inr x"
    and "tp_type x \<in> set (tc_tunnel_types conf)" "nets_hold (tn_networks s) B"
    and "in_store env (tp_net x) (tb_remote B @ [x])" "\<forall>y\<in>set (tb_remote B). fits_remote x y"
  shows "\<exists>s'. tun_add_remote_port conf env p s = (None, s') \<and>
    nets_hold (tn_networks s') (B\<lparr>tb_remote := tb_remote B @ [x]\<rparr>) \<and>
    fa_sent s' = fa_sent s @ [flow_message ck cm (dispatch_args conf x),
      flow_message ck cm (bum_args (bum_flow conf (tb_remote B @ [x]) (tp_net x))
        (bum_command (filter (\<lambda>y. tp_net y = tp_net x) (tb_remote B @ [x])) OFPFC_ADD) (tp_net x))]"
proof -
  from read_remoteD [OF assms(3)] obtain y b where y: "read_net env p = Inr y" "x = y\<lparr>tp_ip := tp_ip x\<rparr>"
    and b: "get_port_binding env p = Inr b" "binding_ip env b = Inr (tp_ip x)" by blast
  from y(2) have xy: "tp_id y = tp_id x" "tp_key y = tp_key x" "tp_type y = tp_type x" "tp_net y = tp_net x"
    "tp_seg y = tp_seg x" by (metis tun_port.surjective tun_port.update_convs(6) tun_port.select_convs)+
  obtain sw where sw: "le_attr env sw ''unique_key'' = Inr (tp_net x)"
    "le_attr env sw ''segmentation_id'' = Inr (tp_seg x)"
    "on_tunnel_network conf env p = (\<lambda>body. body sw (tp_type x))"
    using supported_network [OF y(1), of conf] assms(4) xy by auto
  define s1 where "s1 = s\<lparr>fa_sent := fa_sent s @ [flow_message ck cm (dispatch_args conf x)],
    tn_networks := add_remote_port (tp_id x) (tp_net x) (tp_type x) (tn_networks s)\<rparr>"
  have n1: "nets_hold (tn_networks s1) (B\<lparr>tb_remote := tb_remote B @ [x]\<rparr>)"
    using assms(5) holds_add [of _ "tb_remote B" x] by (simp add: nets_hold_def s1_def add_remote_port_def)
  have run: "tun_add_remote_port conf env p s =
      modify_egress_bum_flow conf env (tp_net x) (tp_type x) (tp_seg x) OFPFC_ADD s1"
    using b read_netD(2,3) [OF y(1)] tunnel_ofport_read [OF y(1), of conf]
    by (simp add: tun_add_remote_port_def sw add_egress_dispatch_flow_def send_flow_stamped [OF assms(1)]
        xy s1_def dispatch_args_def tunnel_copy_def)
  have same: "\<forall>y\<in>set (tb_remote (B\<lparr>tb_remote := tb_remote B @ [x]\<rparr>)). tp_net y = tp_net x \<longrightarrow>
      tp_type y = tp_type x \<and> tp_seg y = tp_seg x" using assms(7) by (auto simp: fits_remote_def)
  show ?thesis
    using modify_bum_result [OF assms(1,2,4) n1 _ same, of env OFPFC_ADD] assms(6)
    by (auto simp: run s1_def)
qed

lemma remove_remote_result:
  assumes "stamps conf ck cm" "good_types conf" "read_remote env p = Inr x"
    and "tp_type x \<in> set (tc_tunnel_types conf)" "nets_hold (tn_networks s) B"
    and "in_store env (tp_net x) (remove1 x (tb_remote B))" "x \<in> set (tb_remote B)"
    and "distinct (map tp_id (tb_remote B))"
    and "\<forall>y\<in>set (tb_remote B). fits_remote x y"
  shows "\<exists>s'. tun_remove_remote_port conf env p s = (None, s') \<and>
    nets_hold (tn_networks s') (B\<lparr>tb_remote := remove1 x (tb_remote B)\<rparr>) \<and>
    fa_sent s' = fa_sent s @ [flow_message ck cm (no_dispatch_args x),
      flow_message ck cm (bum_args (bum_flow conf (remove1 x (tb_remote B)) (tp_net x))
        (bum_command (filter (\<lambda>y. tp_net y = tp_net x) (remove1 x (tb_remote B))) OFPFC_MODIFY) (tp_net x))]"
proof -
  from read_remoteD(1) [OF assms(3)] obtain y where y: "read_net env p = Inr y" "x = y\<lparr>tp_ip := tp_ip x\<rparr>" by blast
  from y(2) have xy: "tp_id y = tp_id x" "tp_key y = tp_key x" "tp_type y = tp_type x" "tp_net y = tp_net x"
    "tp_seg y = tp_seg x" by (metis tun_port.surjective tun_port.update_convs(6) tun_port.select_convs)+
  obtain sw where sw: "le_attr env sw ''unique_key'' = Inr (tp_net x)"
    "le_attr env sw ''segmentation_id'' = Inr (tp_seg x)"
    "on_tunnel_network conf env p = (\<lambda>body. body sw (tp_type x))"
    using supported_network [OF y(1), of conf] assms(4) xy by auto
  define s1 where "s1 = s\<lparr>fa_sent := fa_sent s @ [flow_message ck cm (no_dispatch_args x)],
    tn_networks := remove_remote_port (tp_id x) (tp_net x) (tp_type x) (tn_networks s)\<rparr>"
  have n1: "nets_hold (tn_networks s1) (B\<lparr>tb_remote := remove1 x (tb_remote B)\<rparr>)"
    using assms(5) holds_remove [OF _ assms(8,7)] by (simp add: nets_hold_def s1_def remove_remote_port_def)
  have run: "tun_remove_remote_port conf env p s =
      modify_egress_bum_flow conf env (tp_net x) (tp_type x) (tp_seg x) OFPFC_MODIFY s1"
    using read_netD(2,3) [OF y(1)]
    by (simp add: tun_remove_remote_port_def sw remove_egress_dispatch_flow_def send_flow_stamped [OF assms(1)]
        xy s1_def no_dispatch_args_def)
  have same: "\<forall>y\<in>set (tb_remote (B\<lparr>tb_remote := remove1 x (tb_remote B)\<rparr>)). tp_net y = tp_net x \<longrightarrow>
      tp_type y = tp_type x \<and> tp_seg y = tp_seg x" using assms(9) set_remove1_subset [of x "tb_remote B"] by (auto simp: fits_remote_def)
  show ?thesis
    using modify_bum_result [OF assms(1,2,4) n1 _ same, of env OFPFC_MODIFY] assms(6)
    by (auto simp: run s1_def)
qed

section \<open>The invariant\<close>

definition local_ok :: "'o tun_conf \<Rightarrow> tun_port list \<Rightarrow> bool" where
  "local_ok conf xs \<longleftrightarrow> distinct (map tp_id xs) \<and> (\<forall>x\<in>set xs. \<forall>y\<in>set xs. fits_local conf x y)"

definition remote_ok :: "tun_port list \<Rightarrow> bool" where
  "remote_ok xs \<longleftrightarrow> distinct (map tp_id xs) \<and> distinct (map tp_key xs) \<and>
     (\<forall>x\<in>set xs. \<forall>y\<in>set xs. fits_remote x y)"

definition tun_flows :: "'o tun_conf \<Rightarrow> tun_bound \<Rightarrow> flow_table \<Rightarrow> bool" where
  "tun_flows conf B T \<longleftrightarrow>
     (\<forall>k. T (dispatch_key k) = dispatch_flow conf (tb_remote B) k) \<and>
     (\<forall>n. T (bum_key n) = bum_flow conf (tb_remote B) n) \<and>
     (\<forall>seg ofport. T (ingress_key seg ofport) = ingress_flow conf (tb_local B) seg ofport)"

definition tun_inv :: "'o tun_conf \<Rightarrow> int \<Rightarrow> int \<Rightarrow> tun_bound \<Rightarrow> tun_app \<Rightarrow> bool" where
  "tun_inv conf ck cm B s \<longleftrightarrow> nets_hold (tn_networks s) B \<and> local_ok conf (tb_local B) \<and>
     remote_ok (tb_remote B) \<and> list_all (carries ck cm) (fa_sent s) \<and>
     tun_flows conf B (flows_after (fa_sent s))"

lemma local_ok_add: "local_ok conf xs \<Longrightarrow> may_bind_local conf xs x \<Longrightarrow> local_ok conf (xs @ [x])"
  using fits_sym(1) [of conf x] by (fastforce simp: local_ok_def may_bind_local_def)

lemma remote_ok_add: "remote_ok xs \<Longrightarrow> may_bind_remote xs x \<Longrightarrow> remote_ok (xs @ [x])"
  using fits_sym(2) [of x] by (fastforce simp: remote_ok_def may_bind_remote_def)

lemma local_ok_remove: "local_ok conf xs \<Longrightarrow> local_ok conf (remove1 x xs)"
  unfolding local_ok_def using distinct_map_remove1 [of tp_id xs x] set_remove1_subset [of x xs] by blast

lemma remote_ok_remove: "remote_ok xs \<Longrightarrow> remote_ok (remove1 x xs)"
  unfolding remote_ok_def
  using distinct_map_remove1 [of tp_id xs x] distinct_map_remove1 [of tp_key xs x] set_remove1_subset [of x xs]
  by blast

text \<open>A flow for every key of a bound port, where ports with the same key ask for the same flow.\<close>

definition keyed :: "('p \<Rightarrow> 'k) \<Rightarrow> ('p \<Rightarrow> 'v) \<Rightarrow> 'p list \<Rightarrow> 'k \<rightharpoonup> 'v" where
  "keyed K I xs k = map_option I (find (\<lambda>x. K x = k) xs)"

definition agreeing :: "('p \<Rightarrow> 'k) \<Rightarrow> ('p \<Rightarrow> 'v) \<Rightarrow> 'p list \<Rightarrow> bool" where
  "agreeing K I xs \<longleftrightarrow> (\<forall>x\<in>set xs. \<forall>y\<in>set xs. K x = K y \<longrightarrow> I x = I y)"

lemma agreeingD: "agreeing K I xs \<Longrightarrow> x \<in> set xs \<Longrightarrow> y \<in> set xs \<Longrightarrow> K x = K y \<Longrightarrow> I x = I y"
  unfolding agreeing_def by blast

lemma agreeing_subset: "agreeing K I xs \<Longrightarrow> set ys \<subseteq> set xs \<Longrightarrow> agreeing K I ys"
  unfolding agreeing_def by blast

lemma keyed_Some:
  assumes "agreeing K I xs"
  shows "keyed K I xs k = Some v \<longleftrightarrow> (\<exists>x\<in>set xs. K x = k \<and> I x = v)"
proof (cases "find (\<lambda>x. K x = k) xs")
  case None
  then have "\<forall>x\<in>set xs. K x \<noteq> k" by (auto simp: find_None_iff)
  with None show ?thesis by (auto simp: keyed_def)
next
  case (Some y)
  then have "y \<in> set xs" "K y = k" "keyed K I xs k = Some (I y)" by (auto simp: find_Some_iff keyed_def)
  then show ?thesis using agreeingD [OF assms] by (metis option.inject)
qed

lemma keyed_eqI:
  assumes "agreeing K I xs" "\<And>k v. m k = Some v \<longleftrightarrow> (\<exists>x\<in>set xs. K x = k \<and> I x = v)"
  shows "keyed K I xs = m"
proof (rule ext)
  fix k
  have "keyed K I xs k = Some v \<longleftrightarrow> m k = Some v" for v
    using keyed_Some [OF assms(1)] assms(2) by simp
  then show "keyed K I xs k = m k" by (metis option.exhaust)
qed

lemma keyed_add:
  assumes "agreeing K I (xs @ [x])"
  shows "keyed K I (xs @ [x]) = (keyed K I xs)(K x \<mapsto> I x)"
proof (rule keyed_eqI [OF assms])
  have a: "agreeing K I xs" by (rule agreeing_subset [OF assms]) auto
  have x: "I y = I x" if "y \<in> set xs" "K y = K x" for y
    using agreeingD [OF assms, of y x] that by simp
  show "((keyed K I xs)(K x \<mapsto> I x)) k = Some v \<longleftrightarrow> (\<exists>y\<in>set (xs @ [x]). K y = k \<and> I y = v)" for k v
  proof (cases "k = K x")
    case True
    then show ?thesis using x by auto
  next
    case False
    then show ?thesis using keyed_Some [OF a, of k v] by auto
  qed
qed

lemma keyed_remove:
  assumes "agreeing K I xs" "x \<in> set xs"
  shows "keyed K I (remove1 x xs) =
    (if K x \<in> K ` set (remove1 x xs) then keyed K I xs else (keyed K I xs)(K x := None))"
proof -
  note s = set_remove1_insert [OF assms(2)]
  have a: "agreeing K I (remove1 x xs)" using agreeing_subset [OF assms(1)] s by blast
  have same: "I y = I x" if "y \<in> set (remove1 x xs)" "K y = K x" for y
    using agreeingD [OF assms(1), of y x] that assms(2) s by blast
  show ?thesis
  proof (rule keyed_eqI [OF a])
    show "(if K x \<in> K ` set (remove1 x xs) then keyed K I xs else (keyed K I xs)(K x := None)) k = Some v \<longleftrightarrow>
        (\<exists>y\<in>set (remove1 x xs). K y = k \<and> I y = v)" for k v
    proof (cases "K x \<in> K ` set (remove1 x xs)")
      case True
      then obtain y where y: "y \<in> set (remove1 x xs)" "K y = K x" by auto
      have "(\<exists>y\<in>set xs. K y = k \<and> I y = v) \<longleftrightarrow> (\<exists>y\<in>set (remove1 x xs). K y = k \<and> I y = v)"
        unfolding s using y same [OF y] by (metis insert_iff)
      with True keyed_Some [OF assms(1), of k v] show ?thesis by simp
    next
      case False
      then show ?thesis using keyed_Some [OF assms(1), of k v] unfolding s by (auto simp: image_iff)
    qed
  qed
qed

lemma dispatch_flow_keyed:
  "dispatch_flow conf xs = keyed tp_key
     (\<lambda>x. [Actions OFPIT_APPLY_ACTIONS (tunnel_copy conf (tp_type x) (tp_seg x) (tp_ip x))]) xs"
  by (simp add: dispatch_flow_def keyed_def fun_eq_iff)

lemma ingress_flow_keyed:
  "ingress_flow conf xs seg p = keyed (\<lambda>x. (tp_seg x, get_vtp_ofport conf (tp_type x)))
     (\<lambda>x. accept_network (tp_net x)) xs (seg, p)"
  by (simp add: ingress_flow_def keyed_def)

lemma dispatch_agreeing: "remote_ok xs \<Longrightarrow> agreeing tp_key I xs"
  unfolding remote_ok_def agreeing_def distinct_map inj_on_def by metis

lemma ingress_agreeing:
  assumes "local_ok conf xs"
  shows "agreeing (\<lambda>x. (tp_seg x, get_vtp_ofport conf (tp_type x))) (\<lambda>x. accept_network (tp_net x)) xs"
  unfolding agreeing_def
proof (intro ballI impI)
  fix x y
  assume "x \<in> set xs" "y \<in> set xs" and k: "(tp_seg x, get_vtp_ofport conf (tp_type x)) = (tp_seg y, get_vtp_ofport conf (tp_type y))"
  then have "fits_local conf x y" using assms by (simp add: local_ok_def)
  then have "tp_net x = tp_net y" using k by (simp add: fits_local_def split: if_splits)
  then show "accept_network (tp_net x) = accept_network (tp_net y)" by simp
qed

text \<open>On the ports bound here, the network and the key of its flow determine each other.\<close>

lemma ingress_key_on_net:
  assumes "local_ok conf xs" "x \<in> set xs" "set ys \<subseteq> set xs"
  shows "(tp_seg x, get_vtp_ofport conf (tp_type x)) \<in> (\<lambda>y. (tp_seg y, get_vtp_ofport conf (tp_type y))) ` set ys \<longleftrightarrow>
    on_net x ys \<noteq> []"
proof -
  have "(tp_seg x, get_vtp_ofport conf (tp_type x)) = (tp_seg y, get_vtp_ofport conf (tp_type y)) \<longleftrightarrow>
      tp_net y = tp_net x \<and> tp_type y = tp_type x" if "y \<in> set ys" for y
  proof -
    have "fits_local conf x y" using assms that by (auto simp: local_ok_def)
    then show ?thesis by (auto simp: fits_local_def split: if_splits)
  qed
  then show ?thesis by (auto simp: filter_empty_conv image_iff)
qed

section \<open>Every event keeps it\<close>

lemma inv_bind_local:
  assumes "stamps conf ck cm" "good_types conf" "read_net env p = Inr x"
    and "tp_type x \<in> set (tc_tunnel_types conf)" "tun_inv conf ck cm B s" "may_bind_local conf (tb_local B) x"
  shows "\<exists>s'. tun_add_local_port conf env p s = (None, s') \<and> tun_inv conf ck cm (B\<lparr>tb_local := tb_local B @ [x]\<rparr>) s'"
proof -
  let ?B = "B\<lparr>tb_local := tb_local B @ [x]\<rparr>" and ?T = "flows_after (fa_sent s)"
  have inv: "nets_hold (tn_networks s) B" "local_ok conf (tb_local B)" "tun_flows conf B ?T"
    using assms(5) by (simp_all add: tun_inv_def)
  obtain s' where s': "tun_add_local_port conf env p s = (None, s')" "nets_hold (tn_networks s') ?B"
    "fa_sent s' = fa_sent s @ (if on_net x (tb_local B) = [] then [flow_message ck cm (ingress_args conf x)] else [])"
    using add_local_result [OF assms(1-4) inv(1)] by blast
  have ok: "local_ok conf (tb_local B @ [x])" by (rule local_ok_add [OF inv(2) assms(6)])
  have flow: "ingress_flow conf (tb_local B @ [x]) seg q =
      (if seg = tp_seg x \<and> q = get_vtp_ofport conf (tp_type x)
       then Some (accept_network (tp_net x)) else ingress_flow conf (tb_local B) seg q)" for seg q
    unfolding ingress_flow_keyed keyed_add [OF ingress_agreeing [OF ok]] by simp
  have old: "ingress_flow conf (tb_local B) (tp_seg x) (get_vtp_ofport conf (tp_type x)) = Some (accept_network (tp_net x))"
    if "on_net x (tb_local B) \<noteq> []"
  proof -
    from that obtain y where y: "y \<in> set (tb_local B)" "tp_net y = tp_net x" "tp_type y = tp_type x"
      by (auto simp: filter_empty_conv)
    have "fits_local conf x y" using assms(6) y(1) by (simp add: may_bind_local_def)
    then have "tp_seg y = tp_seg x" using y(2) by (simp add: fits_local_def)
    moreover have "ingress_flow conf (tb_local B) (tp_seg y) (get_vtp_ofport conf (tp_type y)) =
        Some (accept_network (tp_net y))"
      unfolding ingress_flow_keyed keyed_Some [OF ingress_agreeing [OF inv(2)]] using y(1) by blast
    ultimately show ?thesis using y by simp
  qed
  have "tun_flows conf ?B (flows_after (fa_sent s'))"
    using inv(3) old by (simp add: tun_flows_def s'(3) flows_after_append tun_adds flow)
  then show ?thesis using s' assms(5) ok by (auto simp: tun_inv_def)
qed

lemma inv_unbind_local:
  assumes "stamps conf ck cm" "good_types conf" "read_net env p = Inr x"
    and "tp_type x \<in> set (tc_tunnel_types conf)" "tun_inv conf ck cm B s" "x \<in> set (tb_local B)"
  shows "\<exists>s'. tun_remove_local_port conf env p s = (None, s') \<and>
    tun_inv conf ck cm (B\<lparr>tb_local := remove1 x (tb_local B)\<rparr>) s'"
proof -
  let ?B = "B\<lparr>tb_local := remove1 x (tb_local B)\<rparr>" and ?T = "flows_after (fa_sent s)"
  have inv: "nets_hold (tn_networks s) B" "local_ok conf (tb_local B)" "tun_flows conf B ?T"
    "distinct (map tp_id (tb_local B))"
    using assms(5) by (simp_all add: tun_inv_def local_ok_def)
  obtain s' where s': "tun_remove_local_port conf env p s = (None, s')" "nets_hold (tn_networks s') ?B"
    "fa_sent s' = fa_sent s @
      (if on_net x (remove1 x (tb_local B)) = [] then [flow_message ck cm (no_ingress_args conf x)] else [])"
    using remove_local_result [OF assms(1-4) inv(1) assms(6) inv(4)] by blast
  have ok: "local_ok conf (remove1 x (tb_local B))" by (rule local_ok_remove [OF inv(2)])
  have flow: "ingress_flow conf (remove1 x (tb_local B)) seg q =
      (if on_net x (remove1 x (tb_local B)) = [] \<and> seg = tp_seg x \<and> q = get_vtp_ofport conf (tp_type x)
       then None else ingress_flow conf (tb_local B) seg q)" for seg q
    unfolding ingress_flow_keyed keyed_remove [OF ingress_agreeing [OF inv(2)] assms(6)]
    using ingress_key_on_net [OF inv(2) assms(6) set_remove1_subset [of x "tb_local B"]] by simp
  have "tun_flows conf ?B (flows_after (fa_sent s'))"
    using inv(3) by (simp add: tun_flows_def s'(3) flows_after_append tun_changes flow)
  then show ?thesis using s' assms(5) ok by (auto simp: tun_inv_def)
qed

lemma inv_bind_remote:
  assumes "stamps conf ck cm" "good_types conf" "read_remote env p = Inr x"
    and "tp_type x \<in> set (tc_tunnel_types conf)" "tun_inv conf ck cm B s"
    and "may_bind_remote (tb_remote B) x" "in_store env (tp_net x) (tb_remote B @ [x])"
  shows "\<exists>s'. tun_add_remote_port conf env p s = (None, s') \<and>
    tun_inv conf ck cm (B\<lparr>tb_remote := tb_remote B @ [x]\<rparr>) s'"
proof -
  let ?B = "B\<lparr>tb_remote := tb_remote B @ [x]\<rparr>" and ?T = "flows_after (fa_sent s)"
  let ?R = "filter (\<lambda>y. tp_net y = tp_net x) (tb_remote B)"
  have inv: "nets_hold (tn_networks s) B" "remote_ok (tb_remote B)" "tun_flows conf B ?T"
    using assms(5) by (simp_all add: tun_inv_def)
  obtain s' where s': "tun_add_remote_port conf env p s = (None, s')" "nets_hold (tn_networks s') ?B"
    "fa_sent s' = fa_sent s @ [flow_message ck cm (dispatch_args conf x),
      flow_message ck cm (bum_args (bum_flow conf (tb_remote B @ [x]) (tp_net x))
        (bum_command (filter (\<lambda>y. tp_net y = tp_net x) (tb_remote B @ [x])) OFPFC_ADD) (tp_net x))]"
    using add_remote_result [OF assms(1-4) inv(1) assms(7)] assms(6) by (auto simp: may_bind_remote_def)
  have ok: "remote_ok (tb_remote B @ [x])" by (rule remote_ok_add [OF inv(2) assms(6)])
  have flow: "dispatch_flow conf (tb_remote B @ [x]) k =
      (if k = tp_key x then Some [Actions OFPIT_APPLY_ACTIONS (tunnel_copy conf (tp_type x) (tp_seg x) (tp_ip x))]
       else dispatch_flow conf (tb_remote B) k)" for k
    unfolding dispatch_flow_keyed keyed_add [OF dispatch_agreeing [OF ok]] by simp
  obtain i where i: "bum_flow conf (tb_remote B @ [x]) (tp_net x) = Some i"
    by (cases ?R) (auto simp: bum_flow_def)
  have other: "bum_flow conf (tb_remote B @ [x]) n = bum_flow conf (tb_remote B) n" if "n \<noteq> tp_net x" for n
    using that by (simp add: bum_flow_def)
  have cmd: "bum_command (?R @ [x]) OFPFC_ADD = (if ?R = [] then OFPFC_ADD else OFPFC_MODIFY)"
    by (cases ?R) (simp_all add: bum_command_def)
  have had: "bum_flow conf (tb_remote B) (tp_net x) \<noteq> None" if "?R \<noteq> []"
    using that by (cases ?R) (auto simp: bum_flow_def)
  have sent: "fa_sent s' = fa_sent s @ [flow_message ck cm (dispatch_args conf x),
      flow_message ck cm (bum_args (Some i) (if ?R = [] then OFPFC_ADD else OFPFC_MODIFY) (tp_net x))]"
    using s'(3) i cmd by simp
  have "tun_flows conf ?B (flows_after (fa_sent s'))"
    using inv(3) flow i other had unfolding sent
    by (cases "?R = []") (auto simp: tun_flows_def flows_after_append tun_adds tun_changes)
  then show ?thesis using s' assms(5) ok by (auto simp: tun_inv_def)
qed

lemma inv_unbind_remote:
  assumes "stamps conf ck cm" "good_types conf" "read_remote env p = Inr x"
    and "tp_type x \<in> set (tc_tunnel_types conf)" "tun_inv conf ck cm B s"
    and "x \<in> set (tb_remote B)" "in_store env (tp_net x) (remove1 x (tb_remote B))"
  shows "\<exists>s'. tun_remove_remote_port conf env p s = (None, s') \<and>
    tun_inv conf ck cm (B\<lparr>tb_remote := remove1 x (tb_remote B)\<rparr>) s'"
proof -
  let ?B = "B\<lparr>tb_remote := remove1 x (tb_remote B)\<rparr>" and ?T = "flows_after (fa_sent s)"
  let ?R = "filter (\<lambda>y. tp_net y = tp_net x) (remove1 x (tb_remote B))"
  have inv: "nets_hold (tn_networks s) B" "remote_ok (tb_remote B)" "tun_flows conf B ?T"
    "distinct (map tp_id (tb_remote B))" "distinct (map tp_key (tb_remote B))"
    "\<forall>y\<in>set (tb_remote B). fits_remote x y"
    using assms(5,6) by (simp_all add: tun_inv_def remote_ok_def)
  obtain s' where s': "tun_remove_remote_port conf env p s = (None, s')" "nets_hold (tn_networks s') ?B"
    "fa_sent s' = fa_sent s @ [flow_message ck cm (no_dispatch_args x),
      flow_message ck cm (bum_args (bum_flow conf (remove1 x (tb_remote B)) (tp_net x))
        (bum_command ?R OFPFC_MODIFY) (tp_net x))]"
    using remove_remote_result [OF assms(1-4) inv(1) assms(7,6) inv(4,6)] by blast
  have ok: "remote_ok (remove1 x (tb_remote B))" by (rule remote_ok_remove [OF inv(2)])
  have gone: "tp_key x \<notin> tp_key ` set (remove1 x (tb_remote B))"
    by (rule removed_key [OF inv(5) assms(6)])
  have flow: "dispatch_flow conf (remove1 x (tb_remote B)) k =
      (if k = tp_key x then None else dispatch_flow conf (tb_remote B) k)" for k
    unfolding dispatch_flow_keyed keyed_remove [OF dispatch_agreeing [OF inv(2)] assms(6)] using gone by simp
  have other: "bum_flow conf (remove1 x (tb_remote B)) n = bum_flow conf (tb_remote B) n" if "n \<noteq> tp_net x" for n
    using that by (simp add: bum_flow_def filter_remove1_other)
  have had: "bum_flow conf (tb_remote B) (tp_net x) \<noteq> None"
    using assms(6) by (auto simp: bum_flow_def filter_empty_conv split: list.splits)
  have last: "bum_flow conf (remove1 x (tb_remote B)) (tp_net x) = None \<longleftrightarrow> ?R = []"
    "bum_command ?R OFPFC_MODIFY = (if ?R = [] then OFPFC_DELETE else OFPFC_MODIFY)"
    by (auto simp: bum_flow_def bum_command_def split: list.splits)
  have "tun_flows conf ?B (flows_after (fa_sent s'))"
  proof (cases "?R = []")
    case True
    then show ?thesis using inv(3) flow other last
      by (simp add: tun_flows_def s'(3) flows_after_append tun_changes)
  next
    case False
    then obtain i where "bum_flow conf (remove1 x (tb_remote B)) (tp_net x) = Some i" using last(1) by auto
    then show ?thesis using inv(3) flow other had False last(2)
      by (auto simp: tun_flows_def s'(3) flows_after_append tun_changes)
  qed
  then show ?thesis using s' assms(5) ok by (auto simp: tun_inv_def)
qed

lemma inv_step:
  assumes "stamps conf ck cm" "good_types conf" "bound_step conf ev B = Some B'" "tun_inv conf ck cm B s"
  shows "\<exists>s'. tun_handle conf ev s = (None, s') \<and> tun_inv conf ck cm B' s'"
proof -
  obtain env e p where ev: "ev = (env, e, p)" by (cases ev) auto
  consider "e = ''bind_local''" | "e = ''unbind_local''" | "e = ''bind_remote''" | "e = ''unbind_remote''" |
    "e \<notin> {''bind_local'', ''unbind_local'', ''bind_remote'', ''unbind_remote''}" by blast
  then show ?thesis
  proof cases
    case 1
    with assms(3) ev obtain x where x: "read_net env p = Inr x" by (auto simp: bound_step_def split: sum.splits)
    from 1 assms(3,4) ev x unsupported_network(1) [OF x, of conf s] inv_bind_local [OF assms(1,2) x _ assms(4)]
    show ?thesis by (auto simp: bound_step_def tun_handle_def split: if_splits)
  next
    case 2
    with assms(3) ev obtain x where x: "read_net env p = Inr x" by (auto simp: bound_step_def split: sum.splits)
    from 2 assms(3,4) ev x unsupported_network(2) [OF x, of conf s] inv_unbind_local [OF assms(1,2) x _ assms(4)]
    show ?thesis by (auto simp: bound_step_def tun_handle_def split: if_splits)
  next
    case 3
    with assms(3) ev obtain x where x: "read_remote env p = Inr x" by (auto simp: bound_step_def split: sum.splits)
    from read_remoteD(1) [OF x] obtain y where y: "read_net env p = Inr y" "tp_type y = tp_type x"
      by (metis tun_port.select_convs(3) tun_port.surjective tun_port.update_convs(6))
    from 3 assms(3,4) ev x y(2) unsupported_network(3) [OF y(1), of conf s] inv_bind_remote [OF assms(1,2) x _ assms(4)]
    show ?thesis by (auto simp: bound_step_def tun_handle_def split: if_splits)
  next
    case 4
    with assms(3) ev obtain x where x: "read_remote env p = Inr x" by (auto simp: bound_step_def split: sum.splits)
    from read_remoteD(1) [OF x] obtain y where y: "read_net env p = Inr y" "tp_type y = tp_type x"
      by (metis tun_port.select_convs(3) tun_port.surjective tun_port.update_convs(6))
    from 4 assms(3,4) ev x y(2) unsupported_network(4) [OF y(1), of conf s] inv_unbind_remote [OF assms(1,2) x _ assms(4)]
    show ?thesis by (auto simp: bound_step_def tun_handle_def split: if_splits)
  next
    case 5
    with assms(3,4) ev show ?thesis by (simp add: bound_step_def tun_handle_def)
  qed
qed

lemma inv_run:
  assumes "stamps conf ck cm" "good_types conf" "bound_after conf evs B = Some B'" "tun_inv conf ck cm B s"
  shows "\<exists>s'. run_each (tun_handle conf) evs s = (None, s') \<and> tun_inv conf ck cm B' s'"
  using assms(3,4)
proof (induction evs arbitrary: B s)
  case Nil
  then show ?case by simp
next
  case (Cons ev evs)
  then obtain B1 where "bound_step conf ev B = Some B1" "bound_after conf evs B1 = Some B'"
    by (auto split: option.splits)
  with inv_step [OF assms(1,2) _ Cons.prems(2)] Cons.IH show ?case by fastforce
qed

lemma inv_init: "tun_inv conf ck cm nothing_bound tun_init"
  by (simp add: tun_inv_def nothing_bound_def tun_init_def nets_hold_def ln_init_def local_ok_def remote_ok_def
      tun_flows_def dispatch_flow_def bum_flow_def ingress_flow_def)

text \<open>
  C12. Tunnel traffic reaches exactly the bound ports. For any sequence of bind and unbind events
  in which ports have their own keys, networks their own segments, and bound ports stay as they
  were bound: no handler raises, and on every switch that follows the OpenFlow laws the tables
  hold, for each remote port, the flow that sends it through the tunnel of its chassis and nothing
  for any other key; for each network with remote ports, one copy of broadcast traffic for every
  chassis, however many ports it has; and the flow that accepts a network's tunnel traffic exactly
  while one of its ports is bound here.
\<close>

theorem tunneling_flows_exact:
  assumes "of_switch sw_mod flow_at" "flow_at t0 = Map.empty" "stamps conf ck cm"
    and "[] \<notin> set (tc_tunnel_types conf)" "bound_after conf evs nothing_bound = Some B"
  shows "\<exists>s. run_each (tun_handle conf) evs tun_init = (None, s) \<and>
    (\<forall>k. flow_at (fold sw_mod (fa_sent s) t0) (dispatch_key k) =
       map_option (Pair ck) (dispatch_flow conf (tb_remote B) k)) \<and>
    (\<forall>n. flow_at (fold sw_mod (fa_sent s) t0) (bum_key n) =
       map_option (Pair ck) (bum_flow conf (tb_remote B) n)) \<and>
    (\<forall>seg ofport. flow_at (fold sw_mod (fa_sent s) t0) (ingress_key seg ofport) =
       map_option (Pair ck) (ingress_flow conf (tb_local B) seg ofport))"
proof -
  have "good_types conf" using assms(4) by (simp add: good_types_def)
  from inv_run [OF assms(3) this assms(5) inv_init] obtain s where
    s: "run_each (tun_handle conf) evs tun_init = (None, s)" "tun_inv conf ck cm B s" by blast
  then have "list_all (carries ck cm) (fa_sent s)" by (simp add: tun_inv_def)
  note of_switch.switch_flows_after [OF assms(1) this assms(2)]
  with s show ?thesis by (auto simp: tun_inv_def tun_flows_def)
qed

text \<open>An installation with two chassis elsewhere, a geneve network and a port.\<close>

definition example_store :: deref where
  "example_store m i =
     (if m = ''LogicalSwitch'' then Some (PObj ''LogicalSwitch''
        [(''id'', PStr i), (''unique_key'', PInt 3), (''network_type'', PStr ''geneve''),
         (''segmentation_id'', PInt 88)])
      else if m = ''Chassis'' then Some (PObj ''Chassis''
        [(''id'', PStr i), (''ip'', PStr (i @ ''.example''))])
      else Some (PObj ''LogicalPort''
        [(''id'', PStr i), (''topic'', PStr ''t''), (''unique_key'', PInt 7), (''lswitch'', PRef ''LogicalSwitch'' ''n''),
         (''binding'', PObj ''PortBinding'' [(''type'', PStr ''chassis''), (''chassis'', PRef ''Chassis'' ''a'')])]))"

definition tun_example_port :: "string \<Rightarrow> pyval" where
  "tun_example_port ch = PObj ''LogicalPort''
     [(''id'', PStr ''p''), (''topic'', PStr ''t''), (''unique_key'', PInt 7), (''lswitch'', PRef ''LogicalSwitch'' ''n''),
      (''binding'', PObj ''PortBinding'' [(''type'', PStr ''chassis''), (''chassis'', PRef ''Chassis'' ch)])]"

definition tun_example_env :: loc_env where
  "tun_example_env = \<lparr>le_ct = df_classes, le_deref = example_store, le_host = ''here'', le_locations = []\<rparr>"

definition example_conf :: "unit tun_conf" where
  "example_conf = \<lparr>fc_cookies = empty_cookie_space, fc_opaque = (), tc_tunnel_types = [''geneve''],
     tc_port_ofport = (\<lambda>name. PInt 20)\<rparr>"

definition example_tun_port :: "string \<Rightarrow> tun_port" where
  "example_tun_port ch = \<lparr>tp_id = ''p'', tp_key = PInt 7, tp_type = ''geneve'', tp_net = PInt 3, tp_seg = PInt 88,
     tp_ip = PStr (ch @ ''.example'')\<rparr>"

lemma example_stamps: "stamps example_conf 0 0"
  by (simp add: stamps_def example_conf_def empty_cookie_space_def apply_global_cookie_modifiers_def)

lemma example_types: "tc_tunnel_types example_conf = [''geneve'']"
  by (simp add: example_conf_def)

lemma example_read: "read_remote tun_example_env (tun_example_port ch) = Inr (example_tun_port ch)"
  by (simp add: read_remote_def read_net_def le_attr_def py_getattr_def read_field_def tun_example_env_def
      tun_example_port_def example_store_def obj_id_def class_fields_def class_decl_defs get_port_binding_def
      binding_ip_def example_tun_port_def)

lemma example_in_store: "le_deref tun_example_env ''LogicalPort'' ''p'' = Some (tun_example_port ''a'')"
  by (simp add: tun_example_env_def example_store_def tun_example_port_def)

theorem tunneling_flows_exact_witness:
  "\<exists>s. run_each (tun_handle example_conf) [(tun_example_env, ''bind_remote'', tun_example_port ''a'')] tun_init = (None, s) \<and>
     fold mem_mod (fa_sent s) Map.empty (dispatch_key (PInt 7)) =
       Some (0, [Actions OFPIT_APPLY_ACTIONS (tunnel_copy example_conf ''geneve'' (PInt 88) (PStr ''a.example''))])"
proof -
  have "bound_after example_conf [(tun_example_env, ''bind_remote'', tun_example_port ''a'')] nothing_bound =
      Some \<lparr>tb_local = [], tb_remote = [example_tun_port ''a'']\<rparr>"
    by (simp add: bound_step_def example_read example_types nothing_bound_def may_bind_remote_def in_store_def
        example_tun_port_def example_in_store)
  from tunneling_flows_exact [OF mem.of_switch_axioms _ example_stamps _ this, of Map.empty]
  show ?thesis by (auto simp: example_types dispatch_flow_def example_tun_port_def)
qed

section \<open>Where the flows go stale\<close>

text \<open>
  C39. A port that moves between two other chassis keeps its old tunnel. The port binding
  application emits bind_remote for the port and then, when its binding changes to another remote
  chassis, only remote_updated, for which the tunneling application has no handler: after both
  events no handler has raised, and traffic to the port still goes to the chassis it left.
\<close>

theorem tunneling_ignores_remote_move:
  assumes "readable_port env q" "readable_port env p" "pb_port_id p = pb_port_id q"
    and "status_of env q = Remote" "status_of env p = Remote"
    and "read_remote env q = Inr x" "le_deref env ''LogicalPort'' (tp_id x) = Some q"
    and "tp_type x \<in> set (tc_tunnel_types conf)" "[] \<notin> set (tc_tunnel_types conf)" "stamps conf ck cm"
  shows "\<exists>a s. run_each (pb_handle env) [PortCreated q, PortUpdated p q] pb_init = (None, a) \<and>
    run_each (tun_handle conf) (map (\<lambda>(event, lport, orig). (env, event, lport)) (pb_events a)) tun_init = (None, s) \<and>
    flows_after (fa_sent s) (dispatch_key (tp_key x)) =
      Some [Actions OFPIT_APPLY_ACTIONS (tunnel_copy conf (tp_type x) (tp_seg x) (tp_ip x))]"
proof -
  have q: "port_disabled env q = Inr False" "is_port_local env q = Inr False" "is_port_remote env q = Inr True"
    "obj_id q = Inr (pb_port_id q)"
    using assms(4) by (cases rule: readable_cases [OF assms(1)]; auto split: if_splits)+
  have p: "port_disabled env p = Inr False" "is_port_local env p = Inr False" "is_port_remote env p = Inr True"
    "obj_id p = Inr (pb_port_id q)"
    using assms(3,5) by (cases rule: readable_cases [OF assms(2)]; auto split: if_splits)+
  have "\<exists>a. run_each (pb_handle env) [PortCreated q, PortUpdated p q] pb_init = (None, a) \<and>
      pb_events a = [(''bind_remote'', q, None), (''remote_updated'', p, Some q)]"
    by (simp add: port_created_def port_updated_def port_update_unbind_def port_update_bind_def emit_by_location_def
        port_moved_def or_result_def q p pb_emit_def pb_init_def port_bound_remote_def Let_def)
  moreover have "bound_after conf [(env, ''bind_remote'', q)] nothing_bound = Some \<lparr>tb_local = [], tb_remote = [x]\<rparr>"
    using assms(6-8) by (simp add: bound_step_def nothing_bound_def may_bind_remote_def in_store_def)
  from inv_run [OF assms(10) _ this inv_init] assms(9) obtain s where
    s: "tun_handle conf (env, ''bind_remote'', q) tun_init = (None, s)"
      "tun_inv conf ck cm \<lparr>tb_local = [], tb_remote = [x]\<rparr> s"
    by (auto simp: good_types_def and_then_None_iff)
  moreover have "tun_handle conf (env, ''remote_updated'', p) s = (None, s)" by (simp add: tun_handle_def)
  ultimately show ?thesis by (auto simp: tun_inv_def tun_flows_def dispatch_flow_def)
qed

lemma example_status:
  "readable_port tun_example_env (tun_example_port ''a'')" "readable_port tun_example_env (tun_example_port ''b'')"
  "status_of tun_example_env (tun_example_port ''a'') = Remote" "status_of tun_example_env (tun_example_port ''b'') = Remote"
  "pb_port_id (tun_example_port ch) = ''p''"
  by (simp_all add: readable_port_def status_of_def pb_port_id_def obj_id_def port_disabled_def is_port_local_def
      is_port_remote_def get_port_binding_def binding_is_local_def le_attr_def py_getattr_def read_field_def
      tun_example_env_def tun_example_port_def example_store_def class_fields_def class_decl_defs)

theorem tunneling_ignores_remote_move_witness:
  "\<exists>a s. run_each (pb_handle tun_example_env) [PortCreated (tun_example_port ''a''), PortUpdated (tun_example_port ''b'') (tun_example_port ''a'')]
       pb_init = (None, a) \<and>
     run_each (tun_handle example_conf) (map (\<lambda>(event, lport, orig). (tun_example_env, event, lport)) (pb_events a)) tun_init = (None, s) \<and>
     flows_after (fa_sent s) (dispatch_key (PInt 7)) =
       Some [Actions OFPIT_APPLY_ACTIONS (tunnel_copy example_conf ''geneve'' (PInt 88) (PStr ''a.example''))] \<and>
     read_remote tun_example_env (tun_example_port ''b'') = Inr (example_tun_port ''b'')"
  using tunneling_ignores_remote_move [OF example_status(1,2) _ example_status(3,4) example_read _ _ _ example_stamps]
    example_in_store example_read [of "''b''"]
  by (simp add: example_status(5) example_types example_tun_port_def)

lemma restart_keeps_cache:
  "tn_networks (tun_switch_features_handler conf tunnel_ports s) = tn_networks s"
  "fa_sent (tun_switch_features_handler conf tunnel_ports s) = fa_sent s"
  by (simp_all add: tun_switch_features_handler_def create_tunnels_def)

lemma init_nets_hold: "nets_hold (tn_networks tun_init) nothing_bound"
  by (simp add: nets_hold_def tun_init_def ln_init_def nothing_bound_def)

lemma restart_local:
  assumes "stamps conf ck cm" "good_types conf" "read_net env p = Inr x" "tp_type x \<in> set (tc_tunnel_types conf)"
  shows "\<exists>s s'. tun_add_local_port conf env p tun_init = (None, s) \<and>
      tun_add_local_port conf env p (tun_switch_features_handler conf tunnel_ports s) = (None, s') \<and>
      fa_sent s' = fa_sent s"
proof -
  from add_local_result [OF assms init_nets_hold] obtain s where
    s: "tun_add_local_port conf env p tun_init = (None, s)"
      "nets_hold (tn_networks s) \<lparr>tb_local = [x], tb_remote = []\<rparr>"
    by (auto simp: nothing_bound_def)
  from add_local_result [OF assms, of "tun_switch_features_handler conf tunnel_ports s"] s(2)
  obtain s' where "tun_add_local_port conf env p (tun_switch_features_handler conf tunnel_ports s) = (None, s')"
    "fa_sent s' = fa_sent s" by (fastforce simp: restart_keeps_cache)
  with s(1) show ?thesis by blast
qed

lemma restart_remote:
  assumes "stamps conf ck cm" "good_types conf" "read_remote env p = Inr x"
    and "tp_type x \<in> set (tc_tunnel_types conf)" "le_deref env ''LogicalPort'' (tp_id x) = Some p"
  shows "\<exists>s s'. tun_add_remote_port conf env p tun_init = (None, s) \<and>
      tun_add_remote_port conf env p (tun_switch_features_handler conf tunnel_ports s) = (None, s') \<and>
      flows_after (fa_sent s) (bum_key (tp_net x)) \<noteq> None \<and>
      flows_after (drop (length (fa_sent s)) (fa_sent s')) (bum_key (tp_net x)) = None"
proof -
  have st: "in_store env (tp_net x) [x]" "in_store env (tp_net x) [x, x]"
    using assms(3,5) by (simp_all add: in_store_def)
  from add_remote_result [OF assms(1-4) init_nets_hold] st(1) obtain s where
    s: "tun_add_remote_port conf env p tun_init = (None, s)" "nets_hold (tn_networks s) \<lparr>tb_local = [], tb_remote = [x]\<rparr>"
      "flows_after (fa_sent s) (bum_key (tp_net x)) \<noteq> None"
    by (auto simp: nothing_bound_def tun_init_def flows_after_def bum_command_def bum_flow_def tun_adds)
  from add_remote_result [OF assms(1-4), of "tun_switch_features_handler conf tunnel_ports s"
        "\<lparr>tb_local = [], tb_remote = [x]\<rparr>"] s(2) st(2)
  obtain s' where s': "tun_add_remote_port conf env p (tun_switch_features_handler conf tunnel_ports s) = (None, s')"
    "drop (length (fa_sent s)) (fa_sent s') = [flow_message ck cm (dispatch_args conf x),
        flow_message ck cm (bum_args (bum_flow conf [x, x] (tp_net x)) OFPFC_MODIFY (tp_net x))]"
    by (auto simp: restart_keeps_cache bum_command_def)
  have "flows_after (drop (length (fa_sent s)) (fa_sent s')) (bum_key (tp_net x)) = None"
    unfolding s'(2) by (simp add: flows_after_def tun_adds bum_flow_def tun_changes)
  with s s'(1) show ?thesis by blast
qed

text \<open>
  A switch that comes back empty does not get its tunnel flows. On a reconnection the
  application keeps its cache of ports, so when the ports are bound again it takes their networks
  as known: for a local port it sends nothing, and for a remote port it modifies the flow of
  broadcast traffic, which the switch does not have.
\<close>

theorem tunneling_restart_loses_flows:
  assumes "stamps conf ck cm" "[] \<notin> set (tc_tunnel_types conf)" "read_remote env p = Inr x"
    and "tp_type x \<in> set (tc_tunnel_types conf)" "le_deref env ''LogicalPort'' (tp_id x) = Some p"
  shows "(\<exists>s s'. tun_add_local_port conf env p tun_init = (None, s) \<and>
      tun_add_local_port conf env p (tun_switch_features_handler conf tunnel_ports s) = (None, s') \<and>
      fa_sent s' = fa_sent s) \<and>
    (\<exists>s s'. tun_add_remote_port conf env p tun_init = (None, s) \<and>
      tun_add_remote_port conf env p (tun_switch_features_handler conf tunnel_ports s) = (None, s') \<and>
      flows_after (fa_sent s) (bum_key (tp_net x)) \<noteq> None \<and>
      flows_after (drop (length (fa_sent s)) (fa_sent s')) (bum_key (tp_net x)) = None)"
proof -
  have good: "good_types conf" using assms(2) by (simp add: good_types_def)
  from read_remoteD(1) [OF assms(3)] obtain y where y: "read_net env p = Inr y" "tp_type y = tp_type x"
    by (metis tun_port.select_convs(3) tun_port.surjective tun_port.update_convs(6))
  then have "tp_type y \<in> set (tc_tunnel_types conf)" using assms(4) by simp
  from restart_local [OF assms(1) good y(1) this] restart_remote [OF assms(1) good assms(3-5)]
  show ?thesis by blast
qed

theorem tunneling_restart_loses_flows_witness:
  "\<exists>s s'. tun_add_remote_port example_conf tun_example_env (tun_example_port ''a'') tun_init = (None, s) \<and>
     tun_add_remote_port example_conf tun_example_env (tun_example_port ''a'') (tun_switch_features_handler example_conf [] s) = (None, s') \<and>
     flows_after (drop (length (fa_sent s)) (fa_sent s')) (bum_key (PInt 3)) = None"
  using tunneling_restart_loses_flows [OF example_stamps _ example_read [of "''a''"], of "[]"] example_in_store
  by (auto simp: example_types example_tun_port_def)

end
