(* ===== verification/Port_Sec.thy ===== *)
theory Port_Sec
  imports Flow_Table Sg_App
begin

text \<open>
  The port security application, \<open>dragonflow/controller/apps/portsec.py\<close>: a port may only
  send packets with the addresses it was given. The tables of the application are allocated by the
  datapath, and the truth value of an address (\<open>if ip\<close>) is that of the \<open>netaddr\<close> library:
  both are parts of the configuration.
\<close>

declare map_of_eq_Some_iff [simp del] Some_eq_map_of_iff [simp del]

section \<open>State\<close>

record 'o ps_conf = "'o flow_conf" +
  ps_main :: nat
  ps_exit_default :: nat
  ps_exit_services :: nat
  ps_ip_true :: "ipaddr \<Rightarrow> bool"

record sec_lport = lport +
  lp_macs :: "string list"
  lp_port_security_enabled :: bool

definition lp_mac :: "sec_lport \<Rightarrow> string option" where
  "lp_mac p = (case lp_macs p of [] \<Rightarrow> None | mac # macs \<Rightarrow> Some mac)"

definition DHCP_CLIENT_PORT :: int where "DHCP_CLIENT_PORT = 68"
definition DHCP_SERVER_PORT :: int where "DHCP_SERVER_PORT = 67"
definition DHCPV6_CLIENT_PORT :: int where "DHCPV6_CLIENT_PORT = 546"
definition DHCPV6_SERVER_PORT :: int where "DHCPV6_SERVER_PORT = 547"
definition BROADCAST_MAC :: string where "BROADCAST_MAC = ''ff:ff:ff:ff:ff:ff''"
definition PROTO_NUM_UDP :: int where "PROTO_NUM_UDP = 17"

section \<open>Allowed addresses\<close>

definition get_allow_ip_mac_pairs :: "sec_lport \<Rightarrow> (ipaddr \<times> string) list" where
  "get_allow_ip_mac_pairs p =
     (case lp_mac p of Some mac \<Rightarrow> map (\<lambda>ip. (ip, mac)) (lp_ips p) | None \<Rightarrow> []) @ lp_address_pairs p"

text \<open>The union with the addresses of the allowed pairs is computed and not kept.\<close>

definition get_allow_macs :: "sec_lport \<Rightarrow> string list" where
  "get_allow_macs p = (case lp_mac p of Some mac \<Rightarrow> [mac] | None \<Rightarrow> [])"

definition subtract_lists :: "'a list \<Rightarrow> 'a list \<Rightarrow> 'a list \<times> 'a list" where
  "subtract_lists list1 list2 =
     (filter (\<lambda>x. x \<notin> set list2) list1, filter (\<lambda>x. x \<notin> set list1) list2)"

definition get_added_and_removed_ip_mac_pairs ::
  "sec_lport \<Rightarrow> sec_lport \<Rightarrow> (ipaddr \<times> string) list \<times> (ipaddr \<times> string) list" where
  "get_added_and_removed_ip_mac_pairs p original =
     subtract_lists (get_allow_ip_mac_pairs p) (get_allow_ip_mac_pairs original)"

definition get_added_and_removed_valid_macs ::
  "sec_lport \<Rightarrow> sec_lport \<Rightarrow> string list \<times> string list" where
  "get_added_and_removed_valid_macs p original =
     subtract_lists (get_allow_macs p) (get_allow_macs original)"

section \<open>Matches\<close>

definition get_ip_address_match_item :: "ipaddr \<Rightarrow> string" where
  "get_ip_address_match_item ip = (if ip_version ip = 4 then ''ipv4_src'' else ''ipv6_src'')"

definition get_eth_from_ip_version :: "ipaddr \<Rightarrow> int" where
  "get_eth_from_ip_version ip = (if ip_version ip = 4 then ETH_TYPE_IP else ETH_TYPE_IPV6)"

definition get_ip_match_obj :: "'o ps_conf \<Rightarrow> int \<Rightarrow> string \<Rightarrow> ipaddr \<Rightarrow> fmatch" where
  "get_ip_match_obj conf unique_key mac ip =
     (let match_items = [(''reg6'', MInt unique_key), (''eth_src'', MStr mac), (''eth_type'', MInt ETH_TYPE_IP)]
      in if ps_ip_true conf ip then
           AList.update ''eth_type'' (MInt (get_eth_from_ip_version ip))
             (AList.update (get_ip_address_match_item ip) (MIp ip) match_items)
         else match_items)"

definition get_arp_match_obj :: "int \<Rightarrow> mval \<Rightarrow> mval \<Rightarrow> int option \<Rightarrow> fmatch" where
  "get_arp_match_obj unique_key mac ip arp_op =
     (let match_items = [(''reg6'', MInt unique_key), (''eth_src'', mac), (''eth_type'', MInt ETH_TYPE_ARP),
                         (''arp_spa'', ip), (''arp_sha'', mac)]
      in case arp_op of Some op \<Rightarrow> AList.update ''arp_op'' (MInt op) match_items | None \<Rightarrow> match_items)"

definition get_nd_match_object :: "'o ps_conf \<Rightarrow> int \<Rightarrow> mval \<Rightarrow> ipaddr option \<Rightarrow> fmatch" where
  "get_nd_match_object conf unique_key mac ip =
     (let matchdict = [(''reg6'', MInt unique_key), (''eth_src'', mac), (''eth_type'', MInt ETH_TYPE_IPV6),
                       (''ip_proto'', MInt IPPROTO_ICMPV6)]
      in case ip of
           Some a \<Rightarrow> if ps_ip_true conf a then AList.update ''ipv6_src'' (MIp a) matchdict else matchdict
         | None \<Rightarrow> matchdict)"

text \<open>ARP of an IPv4 address, neighbour discovery of an IPv6 one.\<close>

definition resolution_match :: "'o ps_conf \<Rightarrow> int \<Rightarrow> string \<Rightarrow> ipaddr \<Rightarrow> fmatch" where
  "resolution_match conf unique_key mac ip =
     (if ip_version ip = 4 then get_arp_match_obj unique_key (MStr mac) (MIp ip) None
      else get_nd_match_object conf unique_key (MStr mac) (Some ip))"

definition dhcp_match :: "int \<Rightarrow> mval \<Rightarrow> fmatch" where
  "dhcp_match unique_key vm_mac =
     [(''reg6'', MInt unique_key), (''eth_src'', vm_mac), (''eth_type'', MInt ETH_TYPE_IP),
      (''ip_proto'', MInt PROTO_NUM_UDP), (''udp_src'', MInt DHCP_CLIENT_PORT), (''udp_dst'', MInt DHCP_SERVER_PORT)]"

definition dhcpv6_match :: "int \<Rightarrow> mval \<Rightarrow> int \<Rightarrow> int \<Rightarrow> fmatch" where
  "dhcpv6_match unique_key vm_mac src dst =
     [(''reg6'', MInt unique_key), (''eth_src'', vm_mac), (''eth_dst'', MStr BROADCAST_MAC),
      (''eth_type'', MInt ETH_TYPE_IPV6), (''ip_proto'', MInt PROTO_NUM_UDP),
      (''udp_src'', MInt src), (''udp_dst'', MInt dst)]"

section \<open>Flows\<close>

definition add_flow_drop :: "'o ps_conf \<Rightarrow> int \<Rightarrow> fmatch option \<Rightarrow> flow_app \<Rightarrow> flow_app outcome" where
  "add_flow_drop conf priority mtch =
     send_flow conf (default_args\<lparr>a_inst := None, a_table_id := ps_main conf, a_priority := priority,
       a_match := mtch\<rparr>)"

definition remove_one_port_security_flow ::
  "'o ps_conf \<Rightarrow> int \<Rightarrow> fmatch \<Rightarrow> flow_app \<Rightarrow> flow_app outcome" where
  "remove_one_port_security_flow conf priority mtch =
     send_flow conf (default_args\<lparr>a_table_id := ps_main conf, a_priority := priority,
       a_match := Some mtch, a_command := Some OFPFC_DELETE_STRICT\<rparr>)"

definition install_flows_check_valid_ip_and_mac ::
  "'o ps_conf \<Rightarrow> int \<Rightarrow> ipaddr \<times> string \<Rightarrow> flow_app \<Rightarrow> flow_app outcome" where
  "install_flows_check_valid_ip_and_mac conf unique_key pair s =
     (case pair of (ip, mac) \<Rightarrow>
       and_then
         (send_goto conf (ps_main conf) PRIORITY_HIGH (ps_exit_default conf)
            (Some (get_ip_match_obj conf unique_key mac ip)) s)
         (send_goto conf (ps_main conf) PRIORITY_HIGH (ps_exit_services conf)
            (Some (resolution_match conf unique_key mac ip))))"

definition uninstall_flows_check_valid_ip_and_mac ::
  "'o ps_conf \<Rightarrow> int \<Rightarrow> ipaddr \<times> string \<Rightarrow> flow_app \<Rightarrow> flow_app outcome" where
  "uninstall_flows_check_valid_ip_and_mac conf unique_key pair s =
     (case pair of (ip, mac) \<Rightarrow>
       and_then
         (remove_one_port_security_flow conf PRIORITY_HIGH (get_ip_match_obj conf unique_key mac ip) s)
         (remove_one_port_security_flow conf PRIORITY_HIGH (resolution_match conf unique_key mac ip)))"

definition mac_match :: "int \<Rightarrow> string \<Rightarrow> fmatch" where
  "mac_match unique_key mac = [(''reg6'', MInt unique_key), (''eth_src'', MStr mac)]"

definition install_flows_check_valid_mac ::
  "'o ps_conf \<Rightarrow> int \<Rightarrow> string \<Rightarrow> flow_app \<Rightarrow> flow_app outcome" where
  "install_flows_check_valid_mac conf unique_key mac =
     send_goto conf (ps_main conf) PRIORITY_LOW (ps_exit_services conf) (Some (mac_match unique_key mac))"

definition uninstall_flows_check_valid_mac ::
  "'o ps_conf \<Rightarrow> int \<Rightarrow> string \<Rightarrow> flow_app \<Rightarrow> flow_app outcome" where
  "uninstall_flows_check_valid_mac conf unique_key mac =
     remove_one_port_security_flow conf PRIORITY_LOW (mac_match unique_key mac)"

definition install_flows_check_only_vm_mac ::
  "'o ps_conf \<Rightarrow> int \<Rightarrow> string option \<Rightarrow> flow_app \<Rightarrow> flow_app outcome" where
  "install_flows_check_only_vm_mac conf unique_key mac s =
     (let vm_mac = mac_value mac
      in and_then (send_goto conf (ps_main conf) PRIORITY_HIGH (ps_exit_default conf)
              (Some (dhcp_match unique_key vm_mac)) s) (\<lambda>s.
         and_then (send_goto conf (ps_main conf) PRIORITY_HIGH (ps_exit_default conf)
              (Some (dhcpv6_match unique_key vm_mac DHCPV6_CLIENT_PORT DHCPV6_SERVER_PORT)) s) (\<lambda>s.
         and_then (send_goto conf (ps_main conf) PRIORITY_HIGH (ps_exit_services conf)
              (Some (get_arp_match_obj unique_key vm_mac (MInt 0) (Some ARP_REQUEST))) s)
           (send_goto conf (ps_main conf) PRIORITY_HIGH (ps_exit_services conf)
              (Some (get_nd_match_object conf unique_key vm_mac None))))))"

definition uninstall_flows_check_only_vm_mac ::
  "'o ps_conf \<Rightarrow> int \<Rightarrow> string option \<Rightarrow> flow_app \<Rightarrow> flow_app outcome" where
  "uninstall_flows_check_only_vm_mac conf unique_key mac s =
     (let vm_mac = mac_value mac
      in and_then (remove_one_port_security_flow conf PRIORITY_HIGH (dhcp_match unique_key vm_mac) s) (\<lambda>s.
         and_then (remove_one_port_security_flow conf PRIORITY_HIGH
              (dhcpv6_match unique_key vm_mac DHCP_CLIENT_PORT DHCP_SERVER_PORT) s) (\<lambda>s.
         and_then (remove_one_port_security_flow conf PRIORITY_HIGH
              (get_arp_match_obj unique_key vm_mac (MInt 0) (Some ARP_REQUEST)) s)
           (remove_one_port_security_flow conf PRIORITY_HIGH
              (get_nd_match_object conf unique_key vm_mac None)))))"

definition install_port_security_flows :: "'o ps_conf \<Rightarrow> sec_lport \<Rightarrow> flow_app \<Rightarrow> flow_app outcome" where
  "install_port_security_flows conf p s =
     and_then (run_each (install_flows_check_valid_ip_and_mac conf (lp_unique_key p))
          (get_allow_ip_mac_pairs p) s) (\<lambda>s.
     and_then (run_each (install_flows_check_valid_mac conf (lp_unique_key p)) (get_allow_macs p) s)
       (install_flows_check_only_vm_mac conf (lp_unique_key p) (lp_mac p)))"

definition uninstall_port_security_flows :: "'o ps_conf \<Rightarrow> sec_lport \<Rightarrow> flow_app \<Rightarrow> flow_app outcome" where
  "uninstall_port_security_flows conf p s =
     and_then (run_each (uninstall_flows_check_valid_ip_and_mac conf (lp_unique_key p))
          (get_allow_ip_mac_pairs p) s) (\<lambda>s.
     and_then (run_each (uninstall_flows_check_valid_mac conf (lp_unique_key p)) (get_allow_macs p) s)
       (uninstall_flows_check_only_vm_mac conf (lp_unique_key p) (lp_mac p)))"

definition update_port_security_flows ::
  "'o ps_conf \<Rightarrow> sec_lport \<Rightarrow> sec_lport \<Rightarrow> flow_app \<Rightarrow> flow_app outcome" where
  "update_port_security_flows conf p original s =
     (let key = lp_unique_key p;
          (added_pairs, removed_pairs) = get_added_and_removed_ip_mac_pairs p original;
          (added_macs, removed_macs) = get_added_and_removed_valid_macs p original
      in and_then (run_each (install_flows_check_valid_ip_and_mac conf key) added_pairs s) (\<lambda>s.
         and_then (run_each (uninstall_flows_check_valid_ip_and_mac conf key) removed_pairs s) (\<lambda>s.
         and_then (run_each (install_flows_check_valid_mac conf key) added_macs s) (\<lambda>s.
         and_then (run_each (uninstall_flows_check_valid_mac conf key) removed_macs s) (\<lambda>s.
           if lp_mac p \<noteq> lp_mac original then
             and_then (install_flows_check_only_vm_mac conf key (lp_mac p) s)
               (uninstall_flows_check_only_vm_mac conf key (lp_mac original))
           else (None, s))))))"

definition key_match :: "int \<Rightarrow> fmatch" where
  "key_match unique_key = [(''reg6'', MInt unique_key)]"

definition install_disable_flow :: "'o ps_conf \<Rightarrow> sec_lport \<Rightarrow> flow_app \<Rightarrow> flow_app outcome" where
  "install_disable_flow conf p =
     send_goto conf (ps_main conf) PRIORITY_HIGH (ps_exit_default conf) (Some (key_match (lp_unique_key p)))"

definition uninstall_disable_flow :: "'o ps_conf \<Rightarrow> sec_lport \<Rightarrow> flow_app \<Rightarrow> flow_app outcome" where
  "uninstall_disable_flow conf p =
     remove_one_port_security_flow conf PRIORITY_HIGH (key_match (lp_unique_key p))"

definition ps_initialize :: "'o ps_conf \<Rightarrow> flow_app \<Rightarrow> flow_app outcome" where
  "ps_initialize conf s =
     and_then (add_flow_drop conf PRIORITY_MEDIUM (Some [(''eth_type'', MInt ETH_TYPE_IP)]) s) (\<lambda>s.
     and_then (add_flow_drop conf PRIORITY_MEDIUM (Some [(''eth_type'', MInt ETH_TYPE_IPV6)]) s) (\<lambda>s.
     and_then (add_flow_drop conf PRIORITY_MEDIUM (Some [(''eth_type'', MInt ETH_TYPE_ARP)]) s)
       (add_flow_drop conf PRIORITY_VERY_LOW None)))"

definition ps_add_local_port :: "'o ps_conf \<Rightarrow> sec_lport \<Rightarrow> flow_app \<Rightarrow> flow_app outcome" where
  "ps_add_local_port conf p =
     (if lp_port_security_enabled p then install_port_security_flows conf p else install_disable_flow conf p)"

definition ps_update_local_port ::
  "'o ps_conf \<Rightarrow> sec_lport \<Rightarrow> sec_lport \<Rightarrow> flow_app \<Rightarrow> flow_app outcome" where
  "ps_update_local_port conf p original s =
     (if lp_port_security_enabled p then
        (if lp_port_security_enabled original then update_port_security_flows conf p original s
         else and_then (install_port_security_flows conf p s) (uninstall_disable_flow conf original))
      else
        (if lp_port_security_enabled original
         then and_then (install_disable_flow conf p s) (uninstall_port_security_flows conf original)
         else (None, s)))"

definition ps_remove_local_port :: "'o ps_conf \<Rightarrow> sec_lport \<Rightarrow> flow_app \<Rightarrow> flow_app outcome" where
  "ps_remove_local_port conf p =
     (if lp_port_security_enabled p then uninstall_port_security_flows conf p else uninstall_disable_flow conf p)"

section \<open>The flows by what they allow\<close>

text \<open>
  The flows of the application, by the packets of a port that they let through: with an address
  pair, address resolution of a pair, any packet with a source address, DHCP, DHCPv6 (by the
  client and server ports), ARP probes and neighbour discovery of the port's own address, and
  everything.
\<close>

datatype ps_flow =
    PairFlow int ipaddr mval
  | ResolutionFlow int ipaddr mval
  | MacFlow int mval
  | DhcpFlow int mval
  | Dhcpv6Flow int mval int int
  | ProbeFlow int mval
  | NdFlow int mval
  | AllFlow int

fun ps_match :: "'o ps_conf \<Rightarrow> ps_flow \<Rightarrow> fmatch" where
  "ps_match conf (PairFlow k ip mac) =
     [(''reg6'', MInt k), (''eth_src'', mac), (''eth_type'', MInt (get_eth_from_ip_version ip)),
      (get_ip_address_match_item ip, MIp ip)]"
| "ps_match conf (ResolutionFlow k ip mac) =
     (if ip_version ip = 4 then get_arp_match_obj k mac (MIp ip) None
      else [(''reg6'', MInt k), (''eth_src'', mac), (''eth_type'', MInt ETH_TYPE_IPV6),
            (''ip_proto'', MInt IPPROTO_ICMPV6), (''ipv6_src'', MIp ip)])"
| "ps_match conf (MacFlow k mac) = [(''reg6'', MInt k), (''eth_src'', mac)]"
| "ps_match conf (DhcpFlow k mac) = dhcp_match k mac"
| "ps_match conf (Dhcpv6Flow k mac src dst) = dhcpv6_match k mac src dst"
| "ps_match conf (ProbeFlow k mac) = get_arp_match_obj k mac (MInt 0) (Some ARP_REQUEST)"
| "ps_match conf (NdFlow k mac) = get_nd_match_object conf k mac None"
| "ps_match conf (AllFlow k) = key_match k"

fun ps_priority :: "ps_flow \<Rightarrow> int" where
  "ps_priority (MacFlow k mac) = PRIORITY_LOW"
| "ps_priority f = PRIORITY_HIGH"

fun ps_exit :: "'o ps_conf \<Rightarrow> ps_flow \<Rightarrow> nat" where
  "ps_exit conf (PairFlow k ip mac) = ps_exit_default conf"
| "ps_exit conf (DhcpFlow k mac) = ps_exit_default conf"
| "ps_exit conf (Dhcpv6Flow k mac src dst) = ps_exit_default conf"
| "ps_exit conf (AllFlow k) = ps_exit_default conf"
| "ps_exit conf f = ps_exit_services conf"

definition ps_key :: "'o ps_conf \<Rightarrow> ps_flow \<Rightarrow> flow_key" where
  "ps_key conf f = (ps_main conf, ps_priority f, map_of (ps_match conf f))"

text \<open>A flow can be read off its match.\<close>

definition match_ip :: "(string \<rightharpoonup> mval) \<Rightarrow> string \<Rightarrow> ipaddr option" where
  "match_ip m field = (case m field of Some (MIp ip) \<Rightarrow> Some ip | _ \<Rightarrow> None)"

definition flow_of_match :: "(string \<rightharpoonup> mval) \<Rightarrow> ps_flow" where
  "flow_of_match m =
     (let k = match_int m ''reg6''
      in case m ''eth_src'' of
           None \<Rightarrow> AllFlow k
         | Some mac \<Rightarrow>
             if m ''eth_type'' = None then MacFlow k mac
             else if m ''arp_op'' \<noteq> None then ProbeFlow k mac
             else if m ''arp_spa'' \<noteq> None then ResolutionFlow k (the (match_ip m ''arp_spa'')) mac
             else if m ''eth_dst'' \<noteq> None then Dhcpv6Flow k mac (match_int m ''udp_src'') (match_int m ''udp_dst'')
             else if m ''udp_src'' \<noteq> None then DhcpFlow k mac
             else if m ''ip_proto'' \<noteq> None then
               (case match_ip m ''ipv6_src'' of
                  Some ip \<Rightarrow> ResolutionFlow k ip mac
                | None \<Rightarrow> NdFlow k mac)
             else (case match_ip m ''ipv4_src'' of
                     Some ip \<Rightarrow> PairFlow k ip mac
                   | None \<Rightarrow> PairFlow k (the (match_ip m ''ipv6_src'')) mac))"

lemma flow_of_ps_match: "flow_of_match (map_of (ps_match conf f)) = f"
  by (cases f) (simp_all add: flow_of_match_def match_ip_def match_int_def get_arp_match_obj_def
      get_nd_match_object_def dhcp_match_def dhcpv6_match_def key_match_def get_ip_address_match_item_def Let_def)

lemma ps_key_eq [simp]: "ps_key conf f = ps_key conf g \<longleftrightarrow> f = g"
  unfolding ps_key_def by (metis flow_of_ps_match prod.inject)

section \<open>Operations as changes of flows\<close>

text \<open>An addition or strict deletion of a flow.\<close>

definition op_args :: "'o ps_conf \<Rightarrow> bool \<times> ps_flow \<Rightarrow> flow_args" where
  "op_args conf op =
     (case op of (added, f) \<Rightarrow>
       if added then goto_args (ps_main conf) (ps_priority f) (ps_exit conf f) (Some (ps_match conf f))
       else default_args\<lparr>a_table_id := ps_main conf, a_priority := ps_priority f,
         a_match := Some (ps_match conf f), a_command := Some OFPFC_DELETE_STRICT\<rparr>)"

definition op_messages :: "'o ps_conf \<Rightarrow> int \<Rightarrow> int \<Rightarrow> (bool \<times> ps_flow) list \<Rightarrow> flow_mod list" where
  "op_messages conf ck cm ops = map (\<lambda>op. flow_message ck cm (op_args conf op)) ops"

definition performs ::
  "'o ps_conf \<Rightarrow> int \<Rightarrow> int \<Rightarrow> (flow_app \<Rightarrow> flow_app outcome) \<Rightarrow> (bool \<times> ps_flow) list \<Rightarrow> bool" where
  "performs conf ck cm h ops \<longleftrightarrow>
     (\<forall>s. h s = (None, s\<lparr>fa_sent := fa_sent s @ op_messages conf ck cm ops\<rparr>))"

lemma plain_op_args [simp]: "plain_args (op_args conf op)"
  by (simp add: op_args_def split: prod.splits)

lemma performs_nothing: "performs conf ck cm (\<lambda>s. (None, s)) []"
  by (simp add: performs_def op_messages_def)

lemma performs_then:
  assumes "performs conf ck cm h ops" "performs conf ck cm h' ops'"
  shows "performs conf ck cm (\<lambda>s. and_then (h s) h') (ops @ ops')"
  using assms by (simp add: performs_def op_messages_def)

lemma performs_each:
  assumes "\<And>x. x \<in> set xs \<Longrightarrow> performs conf ck cm (h x) (ops x)"
  shows "performs conf ck cm (run_each h xs) (concat (map ops xs))"
  using assms
proof (induction xs)
  case Nil
  then show ?case by (simp add: performs_def op_messages_def)
next
  case (Cons x xs)
  then have "performs conf ck cm (\<lambda>s. and_then (h x s) (run_each h xs)) (ops x @ concat (map ops xs))"
    by (intro performs_then) simp_all
  then show ?case by (simp add: performs_def)
qed

lemma performs_goto:
  assumes "stamps conf ck cm" "m = ps_match conf f" "prio = ps_priority f" "e = ps_exit conf f"
  shows "performs conf ck cm (send_goto conf (ps_main conf) prio e (Some m)) [(True, f)]"
  using assms by (simp add: performs_def op_messages_def op_args_def send_goto_stamped)

lemma performs_remove:
  assumes "stamps conf ck cm" "m = ps_match conf f" "prio = ps_priority f"
  shows "performs conf ck cm (remove_one_port_security_flow conf prio m) [(False, f)]"
  using assms by (simp add: performs_def op_messages_def op_args_def remove_one_port_security_flow_def send_flow_stamped)

definition pair_flows :: "int \<Rightarrow> ipaddr \<times> string \<Rightarrow> ps_flow list" where
  "pair_flows k pair = (case pair of (ip, mac) \<Rightarrow> [PairFlow k ip (MStr mac), ResolutionFlow k ip (MStr mac)])"

definition vm_flows :: "int \<Rightarrow> string option \<Rightarrow> int \<Rightarrow> int \<Rightarrow> ps_flow list" where
  "vm_flows k mac src dst =
     [DhcpFlow k (mac_value mac), Dhcpv6Flow k (mac_value mac) src dst, ProbeFlow k (mac_value mac),
      NdFlow k (mac_value mac)]"

abbreviation adds :: "ps_flow list \<Rightarrow> (bool \<times> ps_flow) list" where
  "adds fs \<equiv> map (Pair True) fs"

abbreviation removes :: "ps_flow list \<Rightarrow> (bool \<times> ps_flow) list" where
  "removes fs \<equiv> map (Pair False) fs"

lemma truthy_matches:
  assumes "ps_ip_true conf ip"
  shows "get_ip_match_obj conf k mac ip = ps_match conf (PairFlow k ip (MStr mac))"
    "resolution_match conf k mac ip = ps_match conf (ResolutionFlow k ip (MStr mac))"
  using assms by (auto simp: get_ip_match_obj_def resolution_match_def get_nd_match_object_def
      get_ip_address_match_item_def fun_eq_iff Let_def)

section \<open>What the handlers do\<close>

lemma install_pair_performs:
  assumes "stamps conf ck cm" "ps_ip_true conf (fst pair)"
  shows "performs conf ck cm (install_flows_check_valid_ip_and_mac conf k pair) (adds (pair_flows k pair))"
proof -
  obtain ip mac where pair: "pair = (ip, mac)" by fastforce
  have "performs conf ck cm (\<lambda>s. and_then
        (send_goto conf (ps_main conf) PRIORITY_HIGH (ps_exit_default conf) (Some (get_ip_match_obj conf k mac ip)) s)
        (send_goto conf (ps_main conf) PRIORITY_HIGH (ps_exit_services conf) (Some (resolution_match conf k mac ip))))
      ([(True, PairFlow k ip (MStr mac))] @ [(True, ResolutionFlow k ip (MStr mac))])"
    using assms(2) pair truthy_matches [of conf ip k mac]
    by (intro performs_then performs_goto [OF assms(1)]) simp_all
  then show ?thesis by (simp add: performs_def pair pair_flows_def install_flows_check_valid_ip_and_mac_def)
qed

lemma uninstall_pair_performs:
  assumes "stamps conf ck cm" "ps_ip_true conf (fst pair)"
  shows "performs conf ck cm (uninstall_flows_check_valid_ip_and_mac conf k pair) (removes (pair_flows k pair))"
proof -
  obtain ip mac where pair: "pair = (ip, mac)" by fastforce
  have "performs conf ck cm (\<lambda>s. and_then
        (remove_one_port_security_flow conf PRIORITY_HIGH (get_ip_match_obj conf k mac ip) s)
        (remove_one_port_security_flow conf PRIORITY_HIGH (resolution_match conf k mac ip)))
      ([(False, PairFlow k ip (MStr mac))] @ [(False, ResolutionFlow k ip (MStr mac))])"
    using assms(2) pair truthy_matches [of conf ip k mac]
    by (intro performs_then performs_remove [OF assms(1)]) simp_all
  then show ?thesis by (simp add: performs_def pair pair_flows_def uninstall_flows_check_valid_ip_and_mac_def)
qed

lemma mac_performs:
  assumes "stamps conf ck cm"
  shows "performs conf ck cm (install_flows_check_valid_mac conf k mac) [(True, MacFlow k (MStr mac))]"
    "performs conf ck cm (uninstall_flows_check_valid_mac conf k mac) [(False, MacFlow k (MStr mac))]"
  unfolding install_flows_check_valid_mac_def uninstall_flows_check_valid_mac_def
  by (rule performs_goto [OF assms] performs_remove [OF assms]; simp add: mac_match_def)+

lemma disable_performs:
  assumes "stamps conf ck cm"
  shows "performs conf ck cm (install_disable_flow conf p) [(True, AllFlow (lp_unique_key p))]"
    "performs conf ck cm (uninstall_disable_flow conf p) [(False, AllFlow (lp_unique_key p))]"
  unfolding install_disable_flow_def uninstall_disable_flow_def
  by (rule performs_goto [OF assms] performs_remove [OF assms]; simp)+

lemma install_vm_performs:
  assumes "stamps conf ck cm"
  shows "performs conf ck cm (install_flows_check_only_vm_mac conf k mac)
    (adds (vm_flows k mac DHCPV6_CLIENT_PORT DHCPV6_SERVER_PORT))"
proof -
  have "performs conf ck cm (install_flows_check_only_vm_mac conf k mac)
      ([(True, DhcpFlow k (mac_value mac))] @
       [(True, Dhcpv6Flow k (mac_value mac) DHCPV6_CLIENT_PORT DHCPV6_SERVER_PORT)] @
       [(True, ProbeFlow k (mac_value mac))] @ [(True, NdFlow k (mac_value mac))])"
    unfolding install_flows_check_only_vm_mac_def Let_def
    by (intro performs_then performs_goto [OF assms]) simp_all
  then show ?thesis by (simp add: vm_flows_def)
qed

lemma uninstall_vm_performs:
  assumes "stamps conf ck cm"
  shows "performs conf ck cm (uninstall_flows_check_only_vm_mac conf k mac)
    (removes (vm_flows k mac DHCP_CLIENT_PORT DHCP_SERVER_PORT))"
proof -
  have "performs conf ck cm (uninstall_flows_check_only_vm_mac conf k mac)
      ([(False, DhcpFlow k (mac_value mac))] @
       [(False, Dhcpv6Flow k (mac_value mac) DHCP_CLIENT_PORT DHCP_SERVER_PORT)] @
       [(False, ProbeFlow k (mac_value mac))] @ [(False, NdFlow k (mac_value mac))])"
    unfolding uninstall_flows_check_only_vm_mac_def Let_def
    by (intro performs_then performs_remove [OF assms]) simp_all
  then show ?thesis by (simp add: vm_flows_def)
qed

text \<open>The library's truth value holds for every address of a port.\<close>

definition usable :: "'o ps_conf \<Rightarrow> sec_lport \<Rightarrow> bool" where
  "usable conf p \<longleftrightarrow> (\<forall>pair\<in>set (get_allow_ip_mac_pairs p). ps_ip_true conf (fst pair))"

definition pairs_flows :: "int \<Rightarrow> (ipaddr \<times> string) list \<Rightarrow> ps_flow list" where
  "pairs_flows k pairs = concat (map (pair_flows k) pairs)"

definition macs_flows :: "int \<Rightarrow> string list \<Rightarrow> ps_flow list" where
  "macs_flows k macs = map (\<lambda>mac. MacFlow k (MStr mac)) macs"

lemma pairs_performs:
  assumes "stamps conf ck cm" "\<forall>pair\<in>set pairs. ps_ip_true conf (fst pair)"
  shows "performs conf ck cm (run_each (install_flows_check_valid_ip_and_mac conf k) pairs) (adds (pairs_flows k pairs))"
    "performs conf ck cm (run_each (uninstall_flows_check_valid_ip_and_mac conf k) pairs) (removes (pairs_flows k pairs))"
  using performs_each [of pairs conf ck cm "install_flows_check_valid_ip_and_mac conf k" "\<lambda>x. adds (pair_flows k x)"]
    performs_each [of pairs conf ck cm "uninstall_flows_check_valid_ip_and_mac conf k" "\<lambda>x. removes (pair_flows k x)"]
    install_pair_performs [OF assms(1)] uninstall_pair_performs [OF assms(1)] assms(2)
  by (simp_all add: pairs_flows_def map_concat comp_def)

lemma macs_performs:
  assumes "stamps conf ck cm"
  shows "performs conf ck cm (run_each (install_flows_check_valid_mac conf k) macs) (adds (macs_flows k macs))"
    "performs conf ck cm (run_each (uninstall_flows_check_valid_mac conf k) macs) (removes (macs_flows k macs))"
  using performs_each [of macs conf ck cm "install_flows_check_valid_mac conf k" "\<lambda>x. [(True, MacFlow k (MStr x))]"]
    performs_each [of macs conf ck cm "uninstall_flows_check_valid_mac conf k" "\<lambda>x. [(False, MacFlow k (MStr x))]"]
    mac_performs [OF assms]
  by (simp_all add: macs_flows_def comp_def)

text \<open>The flows a secured port has, and those that its removal deletes.\<close>

definition secured_flows :: "sec_lport \<Rightarrow> int \<Rightarrow> int \<Rightarrow> ps_flow list" where
  "secured_flows p src dst = pairs_flows (lp_unique_key p) (get_allow_ip_mac_pairs p) @
     macs_flows (lp_unique_key p) (get_allow_macs p) @ vm_flows (lp_unique_key p) (lp_mac p) src dst"

lemma install_performs:
  assumes "stamps conf ck cm" "usable conf p"
  shows "performs conf ck cm (install_port_security_flows conf p)
    (adds (secured_flows p DHCPV6_CLIENT_PORT DHCPV6_SERVER_PORT))"
  using performs_then [OF pairs_performs(1) [OF assms(1), of "get_allow_ip_mac_pairs p" "lp_unique_key p"]
      performs_then [OF macs_performs(1) [OF assms(1)] install_vm_performs [OF assms(1)]]] assms(2)
  by (simp add: secured_flows_def install_port_security_flows_def [abs_def] usable_def)

lemma uninstall_performs:
  assumes "stamps conf ck cm" "usable conf p"
  shows "performs conf ck cm (uninstall_port_security_flows conf p)
    (removes (secured_flows p DHCP_CLIENT_PORT DHCP_SERVER_PORT))"
  using performs_then [OF pairs_performs(2) [OF assms(1), of "get_allow_ip_mac_pairs p" "lp_unique_key p"]
      performs_then [OF macs_performs(2) [OF assms(1)] uninstall_vm_performs [OF assms(1)]]] assms(2)
  by (simp add: secured_flows_def uninstall_port_security_flows_def [abs_def] usable_def)

text \<open>The changes of an update of a secured port.\<close>

definition update_ops :: "sec_lport \<Rightarrow> sec_lport \<Rightarrow> (bool \<times> ps_flow) list" where
  "update_ops p q =
     (let k = lp_unique_key p;
          (added_pairs, removed_pairs) = get_added_and_removed_ip_mac_pairs p q;
          (added_macs, removed_macs) = get_added_and_removed_valid_macs p q
      in adds (pairs_flows k added_pairs) @ removes (pairs_flows k removed_pairs) @
         adds (macs_flows k added_macs) @ removes (macs_flows k removed_macs) @
         (if lp_mac p \<noteq> lp_mac q
          then adds (vm_flows k (lp_mac p) DHCPV6_CLIENT_PORT DHCPV6_SERVER_PORT) @
               removes (vm_flows k (lp_mac q) DHCP_CLIENT_PORT DHCP_SERVER_PORT)
          else []))"

lemma update_performs:
  assumes "stamps conf ck cm" "usable conf p" "usable conf q"
  shows "performs conf ck cm (update_port_security_flows conf p q) (update_ops p q)"
proof -
  obtain ap rp where pairs: "get_added_and_removed_ip_mac_pairs p q = (ap, rp)" by fastforce
  obtain am rm where macs: "get_added_and_removed_valid_macs p q = (am, rm)" by fastforce
  have tr: "\<forall>pair\<in>set ap. ps_ip_true conf (fst pair)" "\<forall>pair\<in>set rp. ps_ip_true conf (fst pair)"
    using pairs assms(2,3) by (auto simp: get_added_and_removed_ip_mac_pairs_def subtract_lists_def usable_def)
  have vm: "performs conf ck cm (\<lambda>s. if lp_mac p \<noteq> lp_mac q then
        and_then (install_flows_check_only_vm_mac conf (lp_unique_key p) (lp_mac p) s)
          (uninstall_flows_check_only_vm_mac conf (lp_unique_key p) (lp_mac q)) else (None, s))
      (if lp_mac p \<noteq> lp_mac q
          then adds (vm_flows (lp_unique_key p) (lp_mac p) DHCPV6_CLIENT_PORT DHCPV6_SERVER_PORT) @
               removes (vm_flows (lp_unique_key p) (lp_mac q) DHCP_CLIENT_PORT DHCP_SERVER_PORT)
          else [])"
    using performs_then [OF install_vm_performs [OF assms(1)] uninstall_vm_performs [OF assms(1)]]
      performs_nothing [of conf ck cm] by simp
  show ?thesis
    using performs_then [OF pairs_performs(1) [OF assms(1) tr(1)] performs_then [OF pairs_performs(2) [OF assms(1) tr(2)]
        performs_then [OF macs_performs(1) [OF assms(1)] performs_then [OF macs_performs(2) [OF assms(1)] vm]]]]
    by (simp add: update_port_security_flows_def [abs_def] update_ops_def pairs macs Let_def)
qed

section \<open>The table\<close>

text \<open>
  The default flows, which drop, and the table that has, besides them, a given set of flows of the
  application: the flow under a key is the one its match describes.
\<close>

definition drop_table :: "'o ps_conf \<Rightarrow> flow_table" where
  "drop_table conf = map_of
     [((ps_main conf, PRIORITY_VERY_LOW, Map.empty), []),
      ((ps_main conf, PRIORITY_MEDIUM, map_of [(''eth_type'', MInt ETH_TYPE_ARP)]), []),
      ((ps_main conf, PRIORITY_MEDIUM, map_of [(''eth_type'', MInt ETH_TYPE_IPV6)]), []),
      ((ps_main conf, PRIORITY_MEDIUM, map_of [(''eth_type'', MInt ETH_TYPE_IP)]), [])]"

definition ps_table :: "'o ps_conf \<Rightarrow> ps_flow set \<Rightarrow> flow_table" where
  "ps_table conf F key =
     (let f = flow_of_match (snd (snd key))
      in if f \<in> F \<and> key = ps_key conf f then Some (goto_insts (ps_main conf) (ps_exit conf f))
         else drop_table conf key)"

lemma ps_key_priority: "fst (snd (ps_key conf f)) \<in> {PRIORITY_LOW, PRIORITY_HIGH}"
  by (cases f) (simp_all add: ps_key_def)

lemma drop_table_Some:
  assumes "drop_table conf key = Some i"
  shows "i = []" "fst (snd key) \<in> {PRIORITY_VERY_LOW, PRIORITY_MEDIUM}"
  using assms by (auto simp: drop_table_def split: if_splits)

lemma drop_table_ps_key [simp]: "drop_table conf (ps_key conf f) = None"
  using drop_table_Some(2) [of conf "ps_key conf f"] ps_key_priority [of conf f]
  by (cases "drop_table conf (ps_key conf f)")
    (auto simp: PRIORITY_LOW_def PRIORITY_HIGH_def PRIORITY_VERY_LOW_def PRIORITY_MEDIUM_def)

lemma flow_of_ps_key [simp]: "flow_of_match (snd (snd (ps_key conf f))) = f"
  by (simp add: ps_key_def flow_of_ps_match)

lemma ps_table_key:
  "ps_table conf F (ps_key conf f) = (if f \<in> F then Some (goto_insts (ps_main conf) (ps_exit conf f)) else None)"
  by (simp add: ps_table_def Let_def)

lemma ps_table_Some:
  assumes "ps_table conf F key = Some i"
  shows "(\<exists>f\<in>F. key = ps_key conf f \<and> i = goto_insts (ps_main conf) (ps_exit conf f)) \<or> drop_table conf key = Some i"
  using assms by (auto simp: ps_table_def Let_def split: if_splits)

definition op_effect :: "bool \<times> ps_flow \<Rightarrow> ps_flow set \<Rightarrow> ps_flow set" where
  "op_effect op F = (case op of (added, f) \<Rightarrow> if added then insert f F else F - {f})"

lemma ps_table_insert:
  "ps_table conf (insert f F) = (ps_table conf F)(ps_key conf f \<mapsto> goto_insts (ps_main conf) (ps_exit conf f))"
  "ps_table conf (F - {f}) = (ps_table conf F)(ps_key conf f := None)"
proof -
  show "ps_table conf (insert f F) = (ps_table conf F)(ps_key conf f \<mapsto> goto_insts (ps_main conf) (ps_exit conf f))"
  proof (rule ext)
    fix key
    show "ps_table conf (insert f F) key =
        ((ps_table conf F)(ps_key conf f \<mapsto> goto_insts (ps_main conf) (ps_exit conf f))) key"
      by (cases "key = ps_key conf f") (auto simp: ps_table_def Let_def)
  qed
  show "ps_table conf (F - {f}) = (ps_table conf F)(ps_key conf f := None)"
  proof (rule ext)
    fix key
    show "ps_table conf (F - {f}) key = ((ps_table conf F)(ps_key conf f := None)) key"
      by (cases "key = ps_key conf f") (auto simp: ps_table_def Let_def)
  qed
qed

lemma op_table: "table_mod (flow_message ck cm (op_args conf op)) (ps_table conf F) = ps_table conf (op_effect op F)"
proof -
  obtain added f where op: "op = (added, f)" by fastforce
  show ?thesis
    by (simp add: op op_args_def table_mod_def goto_args_def goto_insts_def default_args_def or_default_def
        op_effect_def ps_table_insert) (simp add: ps_key_def)
qed

lemma ops_table:
  "fold table_mod (op_messages conf ck cm ops) (ps_table conf F) = ps_table conf (fold op_effect ops F)"
  by (induction ops arbitrary: F) (simp_all add: op_messages_def op_table)

lemma effect_adds [simp]: "fold op_effect (adds fs) F = F \<union> set fs"
  by (induction fs arbitrary: F) (auto simp: op_effect_def)

lemma effect_removes [simp]: "fold op_effect (removes fs) F = F - set fs"
  by (induction fs arbitrary: F) (auto simp: op_effect_def)

definition ps_rep :: "'o ps_conf \<Rightarrow> int \<Rightarrow> int \<Rightarrow> ps_flow set \<Rightarrow> flow_app \<Rightarrow> bool" where
  "ps_rep conf ck cm F s \<longleftrightarrow>
     flows_after (fa_sent s) = ps_table conf F \<and> list_all (carries ck cm) (fa_sent s)"

lemma performs_rep:
  assumes "performs conf ck cm h ops" "ps_rep conf ck cm F s"
  shows "\<exists>s'. h s = (None, s') \<and> ps_rep conf ck cm (fold op_effect ops F) s'"
  using assms ops_table [of conf ck cm ops F]
  by (auto simp: performs_def ps_rep_def flows_after_append list_all_iff) (auto simp: op_messages_def)

section \<open>The life of the ports\<close>

datatype ps_event = PsBind sec_lport | PsUpdate sec_lport sec_lport | PsUnbind sec_lport

fun ps_handle :: "'o ps_conf \<Rightarrow> ps_event \<Rightarrow> flow_app \<Rightarrow> flow_app outcome" where
  "ps_handle conf (PsBind p) = ps_add_local_port conf p"
| "ps_handle conf (PsUpdate p q) = ps_update_local_port conf p q"
| "ps_handle conf (PsUnbind p) = ps_remove_local_port conf p"

text \<open>
  The ports bound now, each with its own key, and the keys and addresses that secured ports had
  before they changed their address, lost their security or were unbound.
\<close>

type_synonym ps_ports = "sec_lport list \<times> (int \<times> string option) list"

definition past_address :: "sec_lport \<Rightarrow> (int \<times> string option) list" where
  "past_address q = (if lp_port_security_enabled q then [(lp_unique_key q, lp_mac q)] else [])"

fun ps_step :: "'o ps_conf \<Rightarrow> ps_event \<Rightarrow> ps_ports \<Rightarrow> ps_ports option" where
  "ps_step conf (PsBind p) (ports, past) =
     (if usable conf p \<and> lp_unique_key p \<notin> lp_unique_key ` set ports then Some (p # ports, past) else None)"
| "ps_step conf (PsUpdate p q) (ports, past) =
     (if usable conf p \<and> q \<in> set ports \<and> lp_unique_key p = lp_unique_key q
      then Some (p # remove1 q ports,
        if lp_port_security_enabled p \<and> lp_mac p = lp_mac q then past else past_address q @ past)
      else None)"
| "ps_step conf (PsUnbind q) (ports, past) =
     (if q \<in> set ports then Some (remove1 q ports, past_address q @ past) else None)"

fun ps_after :: "'o ps_conf \<Rightarrow> ps_event list \<Rightarrow> ps_ports \<Rightarrow> ps_ports option" where
  "ps_after conf [] st = Some st"
| "ps_after conf (ev # evs) st =
     (case ps_step conf ev st of None \<Rightarrow> None | Some st \<Rightarrow> ps_after conf evs st)"

definition port_flows :: "sec_lport \<Rightarrow> ps_flow set" where
  "port_flows p =
     (if lp_port_security_enabled p then set (secured_flows p DHCPV6_CLIENT_PORT DHCPV6_SERVER_PORT)
      else {AllFlow (lp_unique_key p)})"

definition left_over :: "(int \<times> string option) list \<Rightarrow> ps_flow set" where
  "left_over past = (\<lambda>(k, mac). Dhcpv6Flow k (mac_value mac) DHCPV6_CLIENT_PORT DHCPV6_SERVER_PORT) ` set past"

definition ps_flows :: "ps_ports \<Rightarrow> ps_flow set" where
  "ps_flows st = (case st of (ports, past) \<Rightarrow> \<Union> (port_flows ` set ports) \<union> left_over past)"

fun flow_port :: "ps_flow \<Rightarrow> int" where
  "flow_port (PairFlow k ip mac) = k" | "flow_port (ResolutionFlow k ip mac) = k"
| "flow_port (MacFlow k mac) = k" | "flow_port (DhcpFlow k mac) = k" | "flow_port (Dhcpv6Flow k mac src dst) = k"
| "flow_port (ProbeFlow k mac) = k" | "flow_port (NdFlow k mac) = k" | "flow_port (AllFlow k) = k"

lemma flow_port_of:
  "f \<in> set (secured_flows p src dst) \<Longrightarrow> flow_port f = lp_unique_key p" "f \<in> port_flows p \<Longrightarrow> flow_port f = lp_unique_key p"
  by (auto simp: port_flows_def secured_flows_def pairs_flows_def pair_flows_def macs_flows_def vm_flows_def split: if_splits)

lemma mac_value_eq [simp]: "mac_value a = mac_value b \<longleftrightarrow> a = b" "MStr m = mac_value a \<longleftrightarrow> a = Some m"
  by (cases a; cases b; auto simp: mac_value_def)+

lemma flows_iff:
  "f \<in> set (pairs_flows k pairs) \<longleftrightarrow>
     (\<exists>ip mac. (ip, mac) \<in> set pairs \<and> (f = PairFlow k ip (MStr mac) \<or> f = ResolutionFlow k ip (MStr mac)))"
  "f \<in> set (macs_flows k macs) \<longleftrightarrow> (\<exists>mac\<in>set macs. f = MacFlow k (MStr mac))"
  "f \<in> set (vm_flows k m src dst) \<longleftrightarrow> f = DhcpFlow k (mac_value m) \<or> f = Dhcpv6Flow k (mac_value m) src dst \<or>
     f = ProbeFlow k (mac_value m) \<or> f = NdFlow k (mac_value m)"
  by (auto simp: pairs_flows_def pair_flows_def macs_flows_def vm_flows_def)

text \<open>The other flows of the table: of other ports, or left over.\<close>

definition apart :: "int \<Rightarrow> ps_flow set \<Rightarrow> bool" where
  "apart k X \<longleftrightarrow> (\<forall>f\<in>X. flow_port f \<noteq> k \<or> (\<exists>mac. f = Dhcpv6Flow k mac DHCPV6_CLIENT_PORT DHCPV6_SERVER_PORT))"

lemma apartD:
  assumes "apart k X"
  shows "PairFlow k ip mac \<notin> X" "ResolutionFlow k ip mac \<notin> X" "MacFlow k mac \<notin> X" "DhcpFlow k mac \<notin> X"
    "ProbeFlow k mac \<notin> X" "NdFlow k mac \<notin> X" "AllFlow k \<notin> X"
    "Dhcpv6Flow k mac DHCP_CLIENT_PORT DHCP_SERVER_PORT \<notin> X"
  using assms unfolding apart_def
  by (fastforce simp: DHCP_CLIENT_PORT_def DHCPV6_CLIENT_PORT_def)+

lemma uninstall_flows:
  assumes "lp_port_security_enabled q" "apart (lp_unique_key q) X"
  shows "(port_flows q \<union> X) - set (secured_flows q DHCP_CLIENT_PORT DHCP_SERVER_PORT) = X \<union> left_over (past_address q)"
  using assms(1) apartD [OF assms(2)]
  by (auto simp: port_flows_def secured_flows_def flows_iff left_over_def past_address_def DHCP_CLIENT_PORT_def
      DHCPV6_CLIENT_PORT_def)

lemma update_flows:
  assumes "lp_port_security_enabled p" "lp_port_security_enabled q" "lp_unique_key p = lp_unique_key q"
    and "apart (lp_unique_key q) X"
  shows "fold op_effect (update_ops p q) (port_flows q \<union> X) =
    port_flows p \<union> X \<union> (if lp_mac p = lp_mac q then {} else left_over (past_address q))"
proof (rule set_eqI)
  fix f
  have ports: "DHCP_CLIENT_PORT \<noteq> DHCPV6_CLIENT_PORT" by (simp add: DHCP_CLIENT_PORT_def DHCPV6_CLIENT_PORT_def)
  show "f \<in> fold op_effect (update_ops p q) (port_flows q \<union> X) \<longleftrightarrow>
      f \<in> port_flows p \<union> X \<union> (if lp_mac p = lp_mac q then {} else left_over (past_address q))"
    using assms(1-3) apartD [OF assms(4)] ports
    by (cases f) (auto simp: update_ops_def port_flows_def secured_flows_def flows_iff left_over_def past_address_def
        get_added_and_removed_ip_mac_pairs_def get_added_and_removed_valid_macs_def subtract_lists_def Let_def)
qed


definition drop_args :: "'o ps_conf \<Rightarrow> int \<Rightarrow> fmatch option \<Rightarrow> flow_args" where
  "drop_args conf priority mtch =
     default_args\<lparr>a_inst := None, a_table_id := ps_main conf, a_priority := priority, a_match := mtch\<rparr>"

lemma drop_message:
  "table_mod (flow_message ck cm (drop_args conf priority mtch)) T =
     T((ps_main conf, priority, map_of (case mtch of Some m \<Rightarrow> m | None \<Rightarrow> [])) \<mapsto> [])"
  by (simp add: table_mod_def drop_args_def default_args_def or_default_def)

lemma initialize_rep:
  assumes "stamps conf ck cm"
  shows "\<exists>s. ps_initialize conf \<lparr>fa_sent = []\<rparr> = (None, s) \<and> ps_rep conf ck cm {} s"
proof -
  let ?m = "\<lambda>priority mtch. flow_message ck cm (drop_args conf priority mtch)"
  let ?ms = "[?m PRIORITY_MEDIUM (Some [(''eth_type'', MInt ETH_TYPE_IP)]),
      ?m PRIORITY_MEDIUM (Some [(''eth_type'', MInt ETH_TYPE_IPV6)]),
      ?m PRIORITY_MEDIUM (Some [(''eth_type'', MInt ETH_TYPE_ARP)]), ?m PRIORITY_VERY_LOW None]"
  have drop: "add_flow_drop conf priority mtch s = (None, s\<lparr>fa_sent := fa_sent s @ [?m priority mtch]\<rparr>)" for priority mtch s
    by (simp add: add_flow_drop_def send_flow_stamped [OF assms] drop_args_def)
  have run: "ps_initialize conf \<lparr>fa_sent = []\<rparr> = (None, \<lparr>fa_sent = ?ms\<rparr>)"
    by (simp add: ps_initialize_def drop)
  have "ps_table conf {} = drop_table conf" by (auto simp: ps_table_def)
  moreover have "flows_after ?ms = drop_table conf"
    by (simp add: flows_after_def drop_message drop_table_def)
  moreover have "plain_args (drop_args conf priority mtch)" for priority mtch by (simp add: drop_args_def)
  ultimately show ?thesis using run by (simp add: ps_rep_def)
qed

section \<open>Every event keeps the table\<close>

definition ps_ok :: "'o ps_conf \<Rightarrow> ps_ports \<Rightarrow> bool" where
  "ps_ok conf st \<longleftrightarrow> (case st of (ports, past) \<Rightarrow>
     distinct (map lp_unique_key ports) \<and> (\<forall>p\<in>set ports. usable conf p))"

lemma ps_flows_Cons: "ps_flows (p # ports, past) = port_flows p \<union> ps_flows (ports, past)"
  by (auto simp: ps_flows_def)

lemma ps_flows_past: "ps_flows (ports, xs @ past) = ps_flows (ports, past) \<union> left_over xs"
  by (auto simp: ps_flows_def left_over_def)

lemma ps_flows_split:
  assumes "q \<in> set ports" "distinct (map lp_unique_key ports)"
  shows "ps_flows (ports, past) = port_flows q \<union> ps_flows (remove1 q ports, past)"
    "apart (lp_unique_key q) (ps_flows (remove1 q ports, past))"
proof -
  from set_remove1_insert [OF assms(1)] show "ps_flows (ports, past) = port_flows q \<union> ps_flows (remove1 q ports, past)"
    by (auto simp: ps_flows_def)
  have "lp_unique_key p \<noteq> lp_unique_key q" if "p \<in> set (remove1 q ports)" for p
    using removed_key [OF assms(2,1)] that by (metis image_eqI)
  then show "apart (lp_unique_key q) (ps_flows (remove1 q ports, past))"
    by (auto simp: apart_def ps_flows_def left_over_def dest: flow_port_of(2))
qed

lemma ps_update_flows:
  assumes "stamps conf ck cm" "usable conf p" "usable conf q" "lp_unique_key p = lp_unique_key q"
    and "apart (lp_unique_key q) X" "ps_rep conf ck cm (port_flows q \<union> X) s"
  shows "\<exists>s'. ps_update_local_port conf p q s = (None, s') \<and>
    ps_rep conf ck cm (port_flows p \<union> X \<union>
      left_over (if lp_port_security_enabled p \<and> lp_mac p = lp_mac q then [] else past_address q)) s'"
proof (cases "lp_port_security_enabled p")
  case True
  note p = this
  show ?thesis
  proof (cases "lp_port_security_enabled q")
    case True
    have "left_over [] = {}" by (simp add: left_over_def)
    with performs_rep [OF update_performs [OF assms(1-3)] assms(6)] p True update_flows [OF p True assms(4,5)]
    show ?thesis by (auto simp: ps_update_local_port_def)
  next
    case False
    have ops: "performs conf ck cm (\<lambda>s. and_then (install_port_security_flows conf p s) (uninstall_disable_flow conf q))
        (adds (secured_flows p DHCPV6_CLIENT_PORT DHCPV6_SERVER_PORT) @ [(False, AllFlow (lp_unique_key q))])"
      by (rule performs_then [OF install_performs [OF assms(1,2)] disable_performs(2) [OF assms(1)]])
    have "(port_flows q \<union> X \<union> set (secured_flows p DHCPV6_CLIENT_PORT DHCPV6_SERVER_PORT)) - {AllFlow (lp_unique_key q)} =
        port_flows p \<union> X"
      using p False apartD(7) [OF assms(5)] by (auto simp: port_flows_def secured_flows_def flows_iff)
    moreover have "left_over [] = {}" "past_address q = []" using False by (simp_all add: left_over_def past_address_def)
    ultimately show ?thesis using performs_rep [OF ops assms(6)] p False
      by (auto simp: ps_update_local_port_def op_effect_def)
  qed
next
  case False
  note p = this
  show ?thesis
  proof (cases "lp_port_security_enabled q")
    case True
    have ops: "performs conf ck cm (\<lambda>s. and_then (install_disable_flow conf p s) (uninstall_port_security_flows conf q))
        ([(True, AllFlow (lp_unique_key p))] @ removes (secured_flows q DHCP_CLIENT_PORT DHCP_SERVER_PORT))"
      by (rule performs_then [OF disable_performs(1) [OF assms(1)] uninstall_performs [OF assms(1,3)]])
    have "AllFlow k \<notin> set (secured_flows q src dst)" for k src dst by (auto simp: secured_flows_def flows_iff)
    then have "insert (AllFlow (lp_unique_key p)) (port_flows q \<union> X) - set (secured_flows q DHCP_CLIENT_PORT DHCP_SERVER_PORT) =
        port_flows p \<union> X \<union> left_over (past_address q)"
      using p uninstall_flows [OF True assms(5)] by (auto simp: port_flows_def [of p] insert_Diff_if)
    with performs_rep [OF ops assms(6)] p True show ?thesis
      by (auto simp: ps_update_local_port_def op_effect_def)
  next
    case False
    have "left_over (past_address q) = {}" "port_flows p = port_flows q"
      using p False assms(4) by (simp_all add: left_over_def past_address_def port_flows_def)
    with assms(6) p False show ?thesis by (auto simp: ps_update_local_port_def)
  qed
qed

lemma ps_add_flows:
  assumes "stamps conf ck cm" "usable conf p" "ps_rep conf ck cm F s"
  shows "\<exists>s'. ps_add_local_port conf p s = (None, s') \<and> ps_rep conf ck cm (port_flows p \<union> F) s'"
  using performs_rep [OF install_performs [OF assms(1,2)] assms(3)] performs_rep [OF disable_performs(1) [OF assms(1)] assms(3), of p]
  by (auto simp: ps_add_local_port_def port_flows_def op_effect_def Un_commute)

lemma ps_remove_flows:
  assumes "stamps conf ck cm" "usable conf q" "apart (lp_unique_key q) X" "ps_rep conf ck cm (port_flows q \<union> X) s"
  shows "\<exists>s'. ps_remove_local_port conf q s = (None, s') \<and> ps_rep conf ck cm (X \<union> left_over (past_address q)) s'"
proof (cases "lp_port_security_enabled q")
  case True
  with performs_rep [OF uninstall_performs [OF assms(1,2)] assms(4)] uninstall_flows [OF True assms(3)]
  show ?thesis by (auto simp: ps_remove_local_port_def)
next
  case False
  then have "(port_flows q \<union> X) - {AllFlow (lp_unique_key q)} = X \<union> left_over (past_address q)"
    using apartD(7) [OF assms(3)] by (auto simp: port_flows_def left_over_def past_address_def)
  with performs_rep [OF disable_performs(2) [OF assms(1)] assms(4), of q] False show ?thesis
    by (auto simp: ps_remove_local_port_def op_effect_def)
qed

lemma ps_step_inv:
  assumes "stamps conf ck cm" "ps_step conf ev st = Some st'" "ps_ok conf st" "ps_rep conf ck cm (ps_flows st) s"
  shows "\<exists>s'. ps_handle conf ev s = (None, s') \<and> ps_ok conf st' \<and> ps_rep conf ck cm (ps_flows st') s'"
proof -
  obtain ports past where st: "st = (ports, past)" by fastforce
  have ok: "distinct (map lp_unique_key ports)" "\<forall>p\<in>set ports. usable conf p" using assms(3) st by (simp_all add: ps_ok_def)
  have kept: "distinct (map lp_unique_key (remove1 q ports))" "\<forall>p\<in>set (remove1 q ports). usable conf p" for q
    using distinct_map_remove1 [OF ok(1)] ok(2) set_remove1_subset [of q ports] by auto
  show ?thesis
  proof (cases ev)
    case (PsBind p)
    with assms(2) st have p: "usable conf p" "lp_unique_key p \<notin> lp_unique_key ` set ports" "st' = (p # ports, past)"
      by (simp_all split: if_splits)
    with ps_add_flows [OF assms(1) p(1) assms(4)] ok st PsBind show ?thesis
      by (auto simp: ps_ok_def ps_flows_Cons)
  next
    case (PsUpdate p q)
    let ?past = "if lp_port_security_enabled p \<and> lp_mac p = lp_mac q then [] else past_address q"
    from PsUpdate assms(2) st have p: "usable conf p" "q \<in> set ports" "lp_unique_key p = lp_unique_key q"
      "st' = (p # remove1 q ports, ?past @ past)" by (auto split: if_splits)
    have "lp_unique_key p \<notin> lp_unique_key ` set (remove1 q ports)" using removed_key [OF ok(1) p(2)] p(3) by simp
    then have "ps_ok conf st'" using p(1,4) kept by (auto simp: ps_ok_def)
    moreover note sp = ps_flows_split [OF p(2) ok(1), of past]
    have "ps_flows st' = port_flows p \<union> ps_flows (remove1 q ports, past) \<union> left_over ?past"
      unfolding p(4) ps_flows_past ps_flows_Cons ..
    moreover have "ps_rep conf ck cm (port_flows q \<union> ps_flows (remove1 q ports, past)) s"
      using assms(4) sp(1) st by simp
    ultimately show ?thesis
      using ps_update_flows [OF assms(1) p(1) _ p(3) sp(2)] ok(2) p(2) PsUpdate by simp
  next
    case (PsUnbind q)
    with assms(2) st have q: "q \<in> set ports" "st' = (remove1 q ports, past_address q @ past)" by (simp_all split: if_splits)
    note sp = ps_flows_split [OF q(1) ok(1), of past]
    have "ps_rep conf ck cm (port_flows q \<union> ps_flows (remove1 q ports, past)) s" using assms(4) sp(1) st by simp
    from ps_remove_flows [OF assms(1) _ sp(2) this] ok(2) q kept PsUnbind show ?thesis
      by (auto simp: ps_ok_def ps_flows_past)
  qed
qed

lemma ps_run_inv:
  assumes "stamps conf ck cm" "ps_after conf evs st = Some st'" "ps_ok conf st" "ps_rep conf ck cm (ps_flows st) s"
  shows "\<exists>s'. run_each (ps_handle conf) evs s = (None, s') \<and> ps_ok conf st' \<and> ps_rep conf ck cm (ps_flows st') s'"
  using assms(2-4)
proof (induction evs arbitrary: st s)
  case Nil
  then show ?case by simp
next
  case (Cons ev evs)
  then obtain st1 where st1: "ps_step conf ev st = Some st1" "ps_after conf evs st1 = Some st'"
    by (auto split: option.splits)
  from ps_step_inv [OF assms(1) st1(1) Cons.prems(2,3)] Cons.IH [OF st1(2)] show ?case by fastforce
qed

lemma ps_life:
  assumes "stamps conf ck cm" "ps_after conf evs ([], []) = Some st"
  shows "\<exists>s0 s. ps_initialize conf \<lparr>fa_sent = []\<rparr> = (None, s0) \<and> run_each (ps_handle conf) evs s0 = (None, s) \<and>
    ps_ok conf st \<and> ps_rep conf ck cm (ps_flows st) s"
proof -
  have "ps_flows ([], []) = {}" "ps_ok conf ([], [])" by (simp_all add: ps_flows_def left_over_def ps_ok_def)
  with initialize_rep [OF assms(1)] ps_run_inv [OF assms] show ?thesis by fastforce
qed

text \<open>
  C20. The port security table holds exactly the flows of the bound ports. For any sequence of
  bind, update and unbind events of ports with their own keys, no handler raises, and on every
  switch that follows the OpenFlow laws the table has, besides the default drops, for each secured
  port the flows of its address pairs, of its own address and of its DHCP, and for each other port
  the one flow that lets everything through - but also, for every address that a secured port had
  before, the DHCPv6 flow, which its removal misses because it names the ports of DHCP.
\<close>

theorem portsec_flows_exact:
  assumes "of_switch sw_mod flow_at" "flow_at t0 = Map.empty" "stamps conf ck cm"
    and "ps_after conf evs ([], []) = Some (ports, past)"
  shows "\<exists>s0 s. ps_initialize conf \<lparr>fa_sent = []\<rparr> = (None, s0) \<and> run_each (ps_handle conf) evs s0 = (None, s) \<and>
    (\<forall>f. flow_at (fold sw_mod (fa_sent s) t0) (ps_key conf f) =
       (if (\<exists>p\<in>set ports. f \<in> port_flows p) \<or>
           (\<exists>(k, mac)\<in>set past. f = Dhcpv6Flow k (mac_value mac) DHCPV6_CLIENT_PORT DHCPV6_SERVER_PORT)
        then Some (ck, goto_insts (ps_main conf) (ps_exit conf f)) else None)) \<and>
    (\<forall>key. key \<notin> range (ps_key conf) \<longrightarrow>
       flow_at (fold sw_mod (fa_sent s) t0) key = map_option (Pair ck) (drop_table conf key))"
proof -
  from ps_life [OF assms(3,4)] obtain s0 s where
    s: "ps_initialize conf \<lparr>fa_sent = []\<rparr> = (None, s0)" "run_each (ps_handle conf) evs s0 = (None, s)"
      "ps_rep conf ck cm (ps_flows (ports, past)) s" by blast
  then have "list_all (carries ck cm) (fa_sent s)" "flows_after (fa_sent s) = ps_table conf (ps_flows (ports, past))"
    by (simp_all add: ps_rep_def)
  from of_switch.switch_flows_after [OF assms(1) this(1) assms(2)] this(2)
  have T: "flow_at (fold sw_mod (fa_sent s) t0) key = map_option (Pair ck) (ps_table conf (ps_flows (ports, past)) key)" for key
    by simp
  have F: "f \<in> ps_flows (ports, past) \<longleftrightarrow> (\<exists>p\<in>set ports. f \<in> port_flows p) \<or>
      (\<exists>(k, mac)\<in>set past. f = Dhcpv6Flow k (mac_value mac) DHCPV6_CLIENT_PORT DHCPV6_SERVER_PORT)" for f
    by (auto simp: ps_flows_def left_over_def)
  have "ps_table conf F key = drop_table conf key" if "key \<notin> range (ps_key conf)" for F key
    using that by (auto simp: ps_table_def Let_def)
  with s(1,2) show ?thesis by (auto simp: T ps_table_key F)
qed

text \<open>What a secured port may send as IPv4, ARP and IPv6, and as anything else.\<close>

definition ipv4_allowed :: "sec_lport \<Rightarrow> packet \<Rightarrow> bool" where
  "ipv4_allowed p pkt \<longleftrightarrow>
     (\<exists>(ip, mac)\<in>set (get_allow_ip_mac_pairs p). pkt ''eth_src'' = Some (MStr mac) \<and> pkt ''ipv4_src'' = Some (MIp ip)) \<or>
     (pkt ''eth_src'' = Some (mac_value (lp_mac p)) \<and> pkt ''ip_proto'' = Some (MInt PROTO_NUM_UDP) \<and>
      pkt ''udp_src'' = Some (MInt DHCP_CLIENT_PORT) \<and> pkt ''udp_dst'' = Some (MInt DHCP_SERVER_PORT))"

definition arp_allowed :: "sec_lport \<Rightarrow> packet \<Rightarrow> bool" where
  "arp_allowed p pkt \<longleftrightarrow>
     (\<exists>(ip, mac)\<in>set (get_allow_ip_mac_pairs p). pkt ''eth_src'' = Some (MStr mac) \<and>
        pkt ''arp_sha'' = Some (MStr mac) \<and> pkt ''arp_spa'' = Some (MIp ip)) \<or>
     (pkt ''eth_src'' = Some (mac_value (lp_mac p)) \<and> pkt ''arp_sha'' = Some (mac_value (lp_mac p)) \<and>
      pkt ''arp_spa'' = Some (MInt 0) \<and> pkt ''arp_op'' = Some (MInt ARP_REQUEST))"

definition ipv6_allowed :: "sec_lport \<Rightarrow> packet \<Rightarrow> bool" where
  "ipv6_allowed p pkt \<longleftrightarrow>
     (\<exists>(ip, mac)\<in>set (get_allow_ip_mac_pairs p). pkt ''eth_src'' = Some (MStr mac) \<and> pkt ''ipv6_src'' = Some (MIp ip)) \<or>
     (pkt ''eth_src'' = Some (mac_value (lp_mac p)) \<and> pkt ''ip_proto'' = Some (MInt IPPROTO_ICMPV6)) \<or>
     (pkt ''ip_proto'' = Some (MInt PROTO_NUM_UDP) \<and> pkt ''eth_dst'' = Some (MStr BROADCAST_MAC) \<and>
      pkt ''udp_src'' = Some (MInt DHCPV6_CLIENT_PORT) \<and> pkt ''udp_dst'' = Some (MInt DHCPV6_SERVER_PORT))"

definition packet_allowed :: "sec_lport \<Rightarrow> packet \<Rightarrow> bool" where
  "packet_allowed p pkt \<longleftrightarrow>
     (pkt ''eth_type'' = Some (MInt ETH_TYPE_IP) \<longrightarrow> ipv4_allowed p pkt) \<and>
     (pkt ''eth_type'' = Some (MInt ETH_TYPE_ARP) \<longrightarrow> arp_allowed p pkt) \<and>
     (pkt ''eth_type'' = Some (MInt ETH_TYPE_IPV6) \<longrightarrow> ipv6_allowed p pkt) \<and>
     (pkt ''eth_type'' \<notin> Some ` MInt ` {ETH_TYPE_IP, ETH_TYPE_ARP, ETH_TYPE_IPV6} \<longrightarrow>
        pkt ''eth_src'' = Some (mac_value (lp_mac p)))"

lemma eth_types: "ETH_TYPE_IP \<noteq> ETH_TYPE_ARP" "ETH_TYPE_IP \<noteq> ETH_TYPE_IPV6" "ETH_TYPE_ARP \<noteq> ETH_TYPE_IPV6"
  "ETH_TYPE_ARP \<noteq> ETH_TYPE_IP" "ETH_TYPE_IPV6 \<noteq> ETH_TYPE_IP" "ETH_TYPE_IPV6 \<noteq> ETH_TYPE_ARP"
  by (simp_all add: ETH_TYPE_IP_def ETH_TYPE_ARP_def ETH_TYPE_IPV6_def)

lemma unmasked_mac [simp]: "unmasked (mac_value m)"
  by (cases m) (simp_all add: mac_value_def)

text \<open>The fields a flow fixes are those of every packet it takes.\<close>

lemma flow_packet:
  assumes "packet_matches (map_of (ps_match conf f)) pkt" "(k, v) \<in> set (ps_match conf f)" "unmasked v"
    and "distinct (map fst (ps_match conf f))"
  shows "pkt k = Some v"
  using packet_field [OF assms(1) _ assms(3)] assms(2,4) by (simp add: wf_dict_map_of_iff)

lemma ps_match_distinct: "distinct (map fst (ps_match conf f))"
  by (cases f) (auto simp: get_ip_address_match_item_def get_arp_match_obj_def get_nd_match_object_def
      dhcp_match_def dhcpv6_match_def key_match_def)

lemmas flow_field = flow_packet [OF _ _ _ ps_match_distinct]

lemma pair_packet:
  assumes "(ip, mac) \<in> set (get_allow_ip_mac_pairs p)"
    and "packet_matches (map_of (ps_match conf f)) pkt" "f = PairFlow k ip (MStr mac) \<or> f = ResolutionFlow k ip (MStr mac)"
  shows "packet_allowed p pkt"
  using assms(3)
proof
  assume f: "f = PairFlow k ip (MStr mac)"
  have "pkt ''eth_src'' = Some (MStr mac)" "pkt ''eth_type'' = Some (MInt (get_eth_from_ip_version ip))"
    "pkt (get_ip_address_match_item ip) = Some (MIp ip)"
    by (rule flow_field [OF assms(2)]; simp add: f)+
  then show ?thesis using assms(1) eth_types
    by (auto simp: packet_allowed_def ipv4_allowed_def ipv6_allowed_def get_eth_from_ip_version_def
        get_ip_address_match_item_def split: if_splits)
next
  assume f: "f = ResolutionFlow k ip (MStr mac)"
  show ?thesis
  proof (cases "ip_version ip = 4")
    case True
    have "pkt ''eth_src'' = Some (MStr mac)" "pkt ''eth_type'' = Some (MInt ETH_TYPE_ARP)"
      "pkt ''arp_sha'' = Some (MStr mac)" "pkt ''arp_spa'' = Some (MIp ip)"
      by (rule flow_field [OF assms(2)]; simp add: f True get_arp_match_obj_def)+
    then show ?thesis using assms(1) eth_types by (auto simp: packet_allowed_def arp_allowed_def)
  next
    case False
    have "pkt ''eth_src'' = Some (MStr mac)" "pkt ''eth_type'' = Some (MInt ETH_TYPE_IPV6)"
      "pkt ''ipv6_src'' = Some (MIp ip)"
      by (rule flow_field [OF assms(2)]; simp add: f False)+
    then show ?thesis using assms(1) eth_types by (auto simp: packet_allowed_def ipv6_allowed_def)
  qed
qed

lemma dhcpv6_packet:
  assumes "packet_matches (map_of (ps_match conf (Dhcpv6Flow k mac DHCPV6_CLIENT_PORT DHCPV6_SERVER_PORT))) pkt"
  shows "packet_allowed p pkt"
proof -
  have "pkt ''eth_type'' = Some (MInt ETH_TYPE_IPV6)" "pkt ''ip_proto'' = Some (MInt PROTO_NUM_UDP)"
    "pkt ''eth_dst'' = Some (MStr BROADCAST_MAC)" "pkt ''udp_src'' = Some (MInt DHCPV6_CLIENT_PORT)"
    "pkt ''udp_dst'' = Some (MInt DHCPV6_SERVER_PORT)"
    by (rule flow_field [OF assms]; simp add: dhcpv6_match_def)+
  then show ?thesis using eth_types by (auto simp: packet_allowed_def ipv6_allowed_def)
qed

lemma own_packet:
  assumes "f \<in> {DhcpFlow k (mac_value (lp_mac p)), ProbeFlow k (mac_value (lp_mac p)), NdFlow k (mac_value (lp_mac p))}"
    and "packet_matches (map_of (ps_match conf f)) pkt"
  shows "packet_allowed p pkt"
proof -
  consider "f = DhcpFlow k (mac_value (lp_mac p))" | "f = ProbeFlow k (mac_value (lp_mac p))" | "f = NdFlow k (mac_value (lp_mac p))"
    using assms(1) by blast
  then show ?thesis
  proof cases
    case 1
    have "pkt ''eth_src'' = Some (mac_value (lp_mac p))" "pkt ''eth_type'' = Some (MInt ETH_TYPE_IP)"
      "pkt ''ip_proto'' = Some (MInt PROTO_NUM_UDP)" "pkt ''udp_src'' = Some (MInt DHCP_CLIENT_PORT)"
      "pkt ''udp_dst'' = Some (MInt DHCP_SERVER_PORT)"
      by (rule flow_field [OF assms(2)]; simp add: 1 dhcp_match_def)+
    then show ?thesis using eth_types by (auto simp: packet_allowed_def ipv4_allowed_def)
  next
    case 2
    have "pkt ''eth_src'' = Some (mac_value (lp_mac p))" "pkt ''eth_type'' = Some (MInt ETH_TYPE_ARP)"
      "pkt ''arp_sha'' = Some (mac_value (lp_mac p))" "pkt ''arp_spa'' = Some (MInt 0)" "pkt ''arp_op'' = Some (MInt ARP_REQUEST)"
      by (rule flow_field [OF assms(2)]; simp add: 2 get_arp_match_obj_def)+
    then show ?thesis using eth_types by (auto simp: packet_allowed_def arp_allowed_def)
  next
    case 3
    have "pkt ''eth_src'' = Some (mac_value (lp_mac p))" "pkt ''eth_type'' = Some (MInt ETH_TYPE_IPV6)"
      "pkt ''ip_proto'' = Some (MInt IPPROTO_ICMPV6)"
      by (rule flow_field [OF assms(2)]; simp add: 3 get_nd_match_object_def)+
    then show ?thesis using eth_types by (auto simp: packet_allowed_def ipv6_allowed_def)
  qed
qed

lemma secured_packet:
  assumes "f \<in> set (secured_flows p DHCPV6_CLIENT_PORT DHCPV6_SERVER_PORT)" "ps_priority f = PRIORITY_HIGH"
    and "packet_matches (map_of (ps_match conf f)) pkt"
  shows "packet_allowed p pkt"
proof -
  have "PRIORITY_LOW \<noteq> PRIORITY_HIGH" by (simp add: PRIORITY_LOW_def PRIORITY_HIGH_def)
  with assms(1,2) pair_packet [OF _ assms(3)] own_packet [OF _ assms(3)] dhcpv6_packet [of conf _ _ pkt p] assms(3)
  show ?thesis by (auto simp: secured_flows_def flows_iff)
qed


lemma mac_packet:
  assumes "mac \<in> set (get_allow_macs p)" "packet_matches (map_of (ps_match conf (MacFlow k (MStr mac)))) pkt"
  shows "pkt ''eth_src'' = Some (mac_value (lp_mac p))"
proof -
  have "lp_mac p = Some mac" using assms(1) by (auto simp: get_allow_macs_def split: option.splits)
  moreover have "pkt ''eth_src'' = Some (MStr mac)" by (rule flow_field [OF assms(2)]) simp_all
  ultimately show ?thesis by (simp add: mac_value_def)
qed

text \<open>A packet that is not dropped by default is taken by a flow of high priority.\<close>

lemma drop_matches:
  assumes "pkt ''eth_type'' \<in> Some ` MInt ` {ETH_TYPE_IP, ETH_TYPE_ARP, ETH_TYPE_IPV6}"
  shows "\<exists>m. ps_table conf F (ps_main conf, PRIORITY_MEDIUM, m) \<noteq> None \<and> packet_matches m pkt"
proof -
  from assms obtain e where e: "e \<in> {ETH_TYPE_IP, ETH_TYPE_ARP, ETH_TYPE_IPV6}" "pkt ''eth_type'' = Some (MInt e)" by auto
  let ?key = "(ps_main conf, PRIORITY_MEDIUM, map_of [(''eth_type'', MInt e)])"
  have "drop_table conf ?key = Some []" using e(1) by (auto simp: drop_table_def)
  then have "ps_table conf F ?key \<noteq> None" by (simp add: ps_table_def Let_def)
  moreover have "packet_matches (map_of [(''eth_type'', MInt e)]) pkt" using e(2) by (simp add: packet_matches_def)
  ultimately show ?thesis by blast
qed

lemma passing_flow:
  assumes "may_pass (ps_table conf F) (ps_main conf) pkt"
  shows "\<exists>f\<in>F. packet_matches (map_of (ps_match conf f)) pkt \<and>
    (pkt ''eth_type'' \<in> Some ` MInt ` {ETH_TYPE_IP, ETH_TYPE_ARP, ETH_TYPE_IPV6} \<longrightarrow> ps_priority f = PRIORITY_HIGH)"
proof -
  from assms obtain priority m i where T: "ps_table conf F (ps_main conf, priority, m) = Some i" "i \<noteq> []"
    "packet_matches m pkt"
    and max: "\<And>priority' m'. ps_table conf F (ps_main conf, priority', m') \<noteq> None \<Longrightarrow> packet_matches m' pkt \<Longrightarrow>
      priority' \<le> priority" by (auto simp: may_pass_def)
  from ps_table_Some [OF T(1)] drop_table_Some(1) [of conf "(ps_main conf, priority, m)" i] T(2)
  obtain f where f: "f \<in> F" "(ps_main conf, priority, m) = ps_key conf f" by auto
  then have m: "m = map_of (ps_match conf f)" "priority = ps_priority f" by (simp_all add: ps_key_def)
  have "ps_priority f = PRIORITY_HIGH" if "pkt ''eth_type'' \<in> Some ` MInt ` {ETH_TYPE_IP, ETH_TYPE_ARP, ETH_TYPE_IPV6}"
  proof -
    have "PRIORITY_MEDIUM \<le> ps_priority f" using drop_matches [of pkt conf F, OF that] max m(2) by blast
    then show ?thesis using ps_key_priority [of conf f]
      by (auto simp: ps_key_def PRIORITY_MEDIUM_def PRIORITY_LOW_def)
  qed
  with f(1) T(3) m(1) show ?thesis by blast
qed

lemma high_flow_passes:
  assumes "f \<in> F" "ps_priority f = PRIORITY_HIGH" "packet_matches (map_of (ps_match conf f)) pkt"
  shows "may_pass (ps_table conf F) (ps_main conf) pkt"
proof -
  have "priority \<le> PRIORITY_HIGH" if "ps_table conf F (ps_main conf, priority, m) \<noteq> None" for priority m
  proof -
    from that obtain i where "ps_table conf F (ps_main conf, priority, m) = Some i" by auto
    from ps_table_Some [OF this] show ?thesis
    proof
      assume "\<exists>g\<in>F. (ps_main conf, priority, m) = ps_key conf g \<and> i = goto_insts (ps_main conf) (ps_exit conf g)"
      then obtain g where "(ps_main conf, priority, m) = ps_key conf g" by blast
      with ps_key_priority [of conf g] show ?thesis by (auto simp: ps_key_def PRIORITY_LOW_def PRIORITY_HIGH_def)
    next
      assume "drop_table conf (ps_main conf, priority, m) = Some i"
      from drop_table_Some(2) [OF this] show ?thesis
        by (auto simp: PRIORITY_VERY_LOW_def PRIORITY_MEDIUM_def PRIORITY_HIGH_def)
    qed
  qed
  moreover have "ps_table conf F (ps_main conf, PRIORITY_HIGH, map_of (ps_match conf f)) =
      Some (goto_insts (ps_main conf) (ps_exit conf f))"
    using ps_table_key [of conf F f] assms(1,2) by (simp add: ps_key_def)
  moreover have "goto_insts a b \<noteq> []" for a b by (simp add: goto_insts_def)
  ultimately show ?thesis using assms(3) by (intro may_passI) auto
qed

lemma flow_of_port:
  assumes "packet_matches (map_of (ps_match conf f)) pkt" "pkt ''reg6'' = Some (MInt k)"
  shows "flow_port f = k"
proof -
  have "(''reg6'', MInt (flow_port f)) \<in> set (ps_match conf f)"
    by (cases f) (simp_all add: get_arp_match_obj_def get_nd_match_object_def dhcp_match_def dhcpv6_match_def key_match_def)
  from flow_field [OF assms(1) this] assms(2) show ?thesis by simp
qed

lemma no_spoofing:
  assumes "ps_ok conf (ports, past)" "p \<in> set ports" "lp_port_security_enabled p"
    and "pkt ''reg6'' = Some (MInt (lp_unique_key p))" "may_pass (ps_table conf (ps_flows (ports, past))) (ps_main conf) pkt"
  shows "packet_allowed p pkt"
proof -
  from passing_flow [OF assms(5)] obtain f where f: "f \<in> ps_flows (ports, past)"
    "packet_matches (map_of (ps_match conf f)) pkt"
    "pkt ''eth_type'' \<in> Some ` MInt ` {ETH_TYPE_IP, ETH_TYPE_ARP, ETH_TYPE_IPV6} \<Longrightarrow> ps_priority f = PRIORITY_HIGH"
    by blast
  have k: "flow_port f = lp_unique_key p" by (rule flow_of_port [OF f(2) assms(4)])
  from f(1) consider q where "q \<in> set ports" "f \<in> port_flows q" | "f \<in> left_over past" by (auto simp: ps_flows_def)
  then show ?thesis
  proof cases
    case 1
    then have "lp_unique_key q = lp_unique_key p" using k flow_port_of(2) by simp
    then have "q = p" using 1(1) assms(1,2) by (auto simp: ps_ok_def distinct_map inj_on_def)
    then have sec: "f \<in> set (secured_flows p DHCPV6_CLIENT_PORT DHCPV6_SERVER_PORT)" using 1(2) assms(3) by (simp add: port_flows_def)
    show ?thesis
    proof (cases "ps_priority f = PRIORITY_HIGH")
      case True
      then show ?thesis using secured_packet [OF sec _ f(2)] by simp
    next
      case False
      then obtain mac where "mac \<in> set (get_allow_macs p)" "f = MacFlow (lp_unique_key p) (MStr mac)"
        using sec by (auto simp: secured_flows_def flows_iff)
      with mac_packet f(2) have "pkt ''eth_src'' = Some (mac_value (lp_mac p))" by blast
      moreover have "pkt ''eth_type'' \<notin> Some ` MInt ` {ETH_TYPE_IP, ETH_TYPE_ARP, ETH_TYPE_IPV6}" using f(3) False by blast
      ultimately show ?thesis by (auto simp: packet_allowed_def)
    qed
  next
    case 2
    then show ?thesis using f(2) dhcpv6_packet [of conf _ _ pkt p] by (auto simp: left_over_def)
  qed
qed

lemma pair_passes:
  assumes "p \<in> set ports" "lp_port_security_enabled p" "(ip, mac) \<in> set (get_allow_ip_mac_pairs p)"
    and "pkt ''reg6'' = Some (MInt (lp_unique_key p))" "pkt ''eth_src'' = Some (MStr mac)"
    and "pkt ''eth_type'' = Some (MInt (get_eth_from_ip_version ip))" "pkt (get_ip_address_match_item ip) = Some (MIp ip)"
  shows "may_pass (ps_table conf (ps_flows (ports, past))) (ps_main conf) pkt"
proof (rule high_flow_passes)
  show "PairFlow (lp_unique_key p) ip (MStr mac) \<in> ps_flows (ports, past)"
    using assms(1-3) by (auto simp: ps_flows_def port_flows_def secured_flows_def flows_iff)
  show "packet_matches (map_of (ps_match conf (PairFlow (lp_unique_key p) ip (MStr mac)))) pkt"
    using assms(4-7) by (auto simp: packet_matches_def get_ip_address_match_item_def split: if_splits)
qed simp



definition example_ps_conf :: "unit ps_conf" where
  "example_ps_conf = \<lparr>fc_cookies = empty_cookie_space, fc_opaque = (), ps_main = 5, ps_exit_default = 10,
     ps_exit_services = 20, ps_ip_true = (\<lambda>ip. True)\<rparr>"

definition example_sec_port :: "string \<Rightarrow> sec_lport" where
  "example_sec_port mac = \<lparr>lp_id = ''p'', lp_unique_key = 7, lp_ips = [IPv4 1], lp_address_pairs = [],
     lp_security_groups = [], lp_lswitch = ''n'', lp_macs = [mac], lp_port_security_enabled = True\<rparr>"

lemma example_ps:
  "stamps example_ps_conf 0 0" "usable example_ps_conf (example_sec_port mac)"
  "lp_mac (example_sec_port mac) = Some mac" "lp_unique_key (example_sec_port mac) = 7"
  "lp_port_security_enabled (example_sec_port mac)"
  "get_allow_ip_mac_pairs (example_sec_port mac) = [(IPv4 1, mac)]"
  by (simp_all add: stamps_def example_ps_conf_def empty_cookie_space_def apply_global_cookie_modifiers_def
      usable_def example_sec_port_def lp_mac_def get_allow_ip_mac_pairs_def)

lemma example_ps_life:
  "ps_after example_ps_conf [PsBind (example_sec_port ''a''), PsUpdate (example_sec_port ''b'') (example_sec_port ''a'')] ([], []) =
     Some ([example_sec_port ''b''], [(7, Some ''a'')])"
proof -
  have "example_sec_port ''a'' \<noteq> example_sec_port ''b''" by (simp add: example_sec_port_def)
  then show ?thesis by (simp add: example_ps past_address_def)
qed

theorem portsec_flows_exact_witness:
  "\<exists>s0 s. ps_initialize example_ps_conf \<lparr>fa_sent = []\<rparr> = (None, s0) \<and>
     run_each (ps_handle example_ps_conf)
       [PsBind (example_sec_port ''a''), PsUpdate (example_sec_port ''b'') (example_sec_port ''a'')] s0 = (None, s) \<and>
     fold mem_mod (fa_sent s) Map.empty (ps_key example_ps_conf (PairFlow 7 (IPv4 1) (MStr ''b''))) = Some (0, [GotoTable 10]) \<and>
     fold mem_mod (fa_sent s) Map.empty (ps_key example_ps_conf (PairFlow 7 (IPv4 1) (MStr ''a''))) = None \<and>
     fold mem_mod (fa_sent s) Map.empty (ps_key example_ps_conf (Dhcpv6Flow 7 (MStr ''a'') 546 547)) \<noteq> None"
proof -
  have F: "(\<exists>p\<in>set [example_sec_port ''b'']. f \<in> port_flows p) \<longleftrightarrow>
      f \<in> set (secured_flows (example_sec_port ''b'') DHCPV6_CLIENT_PORT DHCPV6_SERVER_PORT)" for f
    by (simp add: port_flows_def example_ps)
  from portsec_flows_exact [OF mem.of_switch_axioms _ example_ps(1) example_ps_life, of Map.empty] F show ?thesis
    by (fastforce simp: secured_flows_def flows_iff example_ps mac_value_def goto_insts_def example_ps_conf_def
        DHCPV6_CLIENT_PORT_def DHCPV6_SERVER_PORT_def)
qed


end
