(* ===== verification/Flow_Family.thy ===== *)
theory Flow_Family
  imports Flow_Table
begin

text \<open>
  The flows an application may send, as a family of values: each has a table, a priority and a
  match. Some of them the application may also modify or delete; the locale \<open>flow_family\<close> asks that
  the match of such a flow covers no other flow of its table, so that a modification or deletion
  that is not strict reaches that flow only. The application's messages then are operations on a
  map from the flows of the family to instructions, which every switch that follows the OpenFlow
  laws implements.
\<close>

section \<open>Operations on flows\<close>

datatype 'f flow_op = Put 'f "inst list" | Mod 'f "inst list" | Del 'f | Wipe "'f set"

fun op_step :: "'f flow_op \<Rightarrow> ('f \<rightharpoonup> inst list) \<Rightarrow> ('f \<rightharpoonup> inst list)" where
  "op_step (Put f i) M = M(f \<mapsto> i)"
| "op_step (Mod f i) M = M(f := map_option (\<lambda>_. i) (M f))"
| "op_step (Del f) M = M(f := None)"
| "op_step (Wipe F) M = M |` (- F)"

type_synonym 'f flow_shape = "'f \<Rightarrow> nat \<times> int \<times> fmatch"

definition shape_key :: "'f flow_shape \<Rightarrow> 'f \<Rightarrow> flow_key" where
  "shape_key sh f = (case sh f of (table, priority, m) \<Rightarrow> (table, priority, map_of m))"

text \<open>The table that holds a map of flows of the family and nothing else.\<close>

definition family_table :: "'f flow_shape \<Rightarrow> ('f \<rightharpoonup> inst list) \<Rightarrow> flow_table" where
  "family_table sh M key = (if key \<in> range (shape_key sh) then M (inv (shape_key sh) key) else None)"

text \<open>
  A message names a flow by its table, priority and match, and asks for an operation on it. The
  priority does not matter to a modification or deletion that is not strict. A deletion may also
  reach several flows, \<open>Wipe\<close>.
\<close>

definition names_flow :: "'f flow_shape \<Rightarrow> 'f \<Rightarrow> flow_mod \<Rightarrow> bool" where
  "names_flow sh f fm \<longleftrightarrow> sh f = (fm_table_id fm, fm_priority fm, fm_fields fm)"

definition targets_flow :: "'f flow_shape \<Rightarrow> 'f \<Rightarrow> flow_mod \<Rightarrow> bool" where
  "targets_flow sh f fm \<longleftrightarrow> fst (sh f) = fm_table_id fm \<and> snd (snd (sh f)) = fm_fields fm"

definition tables_of :: "'f flow_shape \<Rightarrow> ('f \<Rightarrow> bool) \<Rightarrow> nat set" where
  "tables_of sh fam = {fst (sh f) |f. fam f}"

lemma tables_ofI: "fam f \<Longrightarrow> fst (sh f) = table \<Longrightarrow> table \<in> tables_of sh fam"
  by (auto simp: tables_of_def)

fun asks :: "'f flow_shape \<Rightarrow> ('f \<Rightarrow> bool) \<Rightarrow> ('f \<Rightarrow> bool) \<Rightarrow> 'f flow_op \<Rightarrow> flow_mod \<Rightarrow> bool" where
  "asks sh fam own (Put f i) fm \<longleftrightarrow> fam f \<and> names_flow sh f fm \<and> fm_command fm = OFPFC_ADD \<and> fm_inst fm = i"
| "asks sh fam own (Mod f i) fm \<longleftrightarrow> fam f \<and> own f \<and> targets_flow sh f fm \<and> fm_command fm = OFPFC_MODIFY \<and> fm_inst fm = i"
| "asks sh fam own (Del f) fm \<longleftrightarrow> fam f \<and>
     (fm_command fm = OFPFC_DELETE \<and> own f \<and> targets_flow sh f fm \<or>
      fm_command fm = OFPFC_DELETE_STRICT \<and> names_flow sh f fm)"
| "asks sh fam own (Wipe F) fm \<longleftrightarrow>
     fm_command fm = OFPFC_DELETE \<and> fm_table_id fm \<in> tables_of sh fam \<and>
     (\<forall>g. fam g \<longrightarrow> (hits fm (shape_key sh g) \<longleftrightarrow> g \<in> F))"

section \<open>Outcomes of a handler\<close>

definition yields :: "'s outcome \<Rightarrow> ('s \<Rightarrow> bool) \<Rightarrow> bool" where
  "yields r P \<longleftrightarrow> fst r = None \<and> P (snd r)"

lemma yields_None [simp]: "yields (None, s) P \<longleftrightarrow> P s"
  by (simp add: yields_def)

lemma yields_then:
  assumes "yields r P" "\<And>s. P s \<Longrightarrow> yields (f s) Q"
  shows "yields (and_then r f) Q"
  using assms by (cases r) (simp add: yields_def)

lemma yields_mono: "yields r P \<Longrightarrow> (\<And>s. P s \<Longrightarrow> Q s) \<Longrightarrow> yields r Q"
  by (simp add: yields_def)

lemma yieldsD: "yields r P \<Longrightarrow> \<exists>s. r = (None, s) \<and> P s"
  by (cases r) (simp add: yields_def)

text \<open>
  The messages an application has sent implement a map of flows, and the rest of its state is the
  one given.
\<close>

definition flows_rep :: "'f flow_shape \<Rightarrow> ('f \<Rightarrow> bool) \<Rightarrow> int \<Rightarrow> int \<Rightarrow> ('f \<rightharpoonup> inst list) \<Rightarrow> 'x \<Rightarrow> 'x flow_app_scheme \<Rightarrow> bool" where
  "flows_rep sh fam ck cm M x s \<longleftrightarrow>
     list_all (carries ck cm) (fa_sent s) \<and> flows_after (fa_sent s) = family_table sh M \<and> flow_app.more s = x \<and>
     (\<forall>f. \<not> fam f \<longrightarrow> M f = None) \<and> list_all (\<lambda>fm. fm_table_id fm \<in> tables_of sh fam) (fa_sent s)"

lemma flows_rep_empty: "flows_rep sh fam ck cm Map.empty x \<lparr>fa_sent = [], \<dots> = x\<rparr>"
  by (simp add: flows_rep_def family_table_def fun_eq_iff)

lemma flows_rep_more: "flows_rep sh fam ck cm M x s \<Longrightarrow> flows_rep sh fam ck cm M y (flow_app.more_update (\<lambda>_. y) s)"
  by (simp add: flows_rep_def)

lemma flows_rep_switch:
  assumes "flows_rep sh fam ck cm M x s" "of_switch sw_mod flow_at" "flow_at t = Map.empty"
  shows "flow_at (fold sw_mod (fa_sent s) t) = (\<lambda>key. map_option (Pair ck) (family_table sh M key))"
  using of_switch.switch_flows_after [OF assms(2) _ assms(3), of ck cm "fa_sent s"] assms(1)
  by (simp add: flows_rep_def fun_eq_iff)

text \<open>What a handler that sends messages only does to the flows, as a list of operations.\<close>

definition sends_ops ::
  "'f flow_shape \<Rightarrow> ('f \<Rightarrow> bool) \<Rightarrow> int \<Rightarrow> int \<Rightarrow> ('x flow_app_scheme \<Rightarrow> 'x flow_app_scheme outcome) \<Rightarrow> 'f flow_op list \<Rightarrow> bool" where
  "sends_ops sh fam ck cm h ops \<longleftrightarrow>
     (\<forall>s M x. flows_rep sh fam ck cm M x s \<longrightarrow> yields (h s) (flows_rep sh fam ck cm (fold op_step ops M) x))"

lemma sends_nothing [simp]: "sends_ops sh fam ck cm (\<lambda>s. (None, s)) []"
  by (simp add: sends_ops_def)

lemma sends_then:
  assumes "sends_ops sh fam ck cm h ops" "sends_ops sh fam ck cm h' ops'"
  shows "sends_ops sh fam ck cm (\<lambda>s. and_then (h s) h') (ops @ ops')"
  using assms by (auto simp: sends_ops_def intro!: yields_then)

lemma sends_each:
  assumes "\<And>x. x \<in> set xs \<Longrightarrow> sends_ops sh fam ck cm (h x) (ops x)"
  shows "sends_ops sh fam ck cm (run_each h xs) (concat (map ops xs))"
  using assms
proof (induction xs)
  case Nil
  then show ?case by (simp add: sends_ops_def)
next
  case (Cons x xs)
  then have "sends_ops sh fam ck cm (\<lambda>s. and_then (h x s) (run_each h xs)) (ops x @ concat (map ops xs))"
    by (intro sends_then) simp_all
  then show ?case by (simp add: sends_ops_def)
qed

text \<open>Additions and deletions of the flows of a dictionary.\<close>

definition put_all :: "('f, inst list) dict \<Rightarrow> 'f flow_op list" where
  "put_all ps = map (\<lambda>(f, i). Put f i) ps"

definition del_all :: "('f, inst list) dict \<Rightarrow> 'f flow_op list" where
  "del_all ps = map (\<lambda>(f, i). Del f) ps"

lemma put_all_simps [simp]:
  "put_all [] = []" "put_all ((f, i) # ps) = Put f i # put_all ps" "put_all (ps @ qs) = put_all ps @ put_all qs"
  by (simp_all add: put_all_def)

lemma del_all_simps [simp]:
  "del_all [] = []" "del_all ((f, i) # ps) = Del f # del_all ps" "del_all (ps @ qs) = del_all ps @ del_all qs"
  by (simp_all add: del_all_def)

lemma fold_put_all: "wf_dict ps \<Longrightarrow> fold op_step (put_all ps) M = M ++ map_of ps"
proof (induction ps arbitrary: M)
  case Nil
  then show ?case by simp
next
  case (Cons p ps)
  obtain f i where p: "p = (f, i)" by fastforce
  with Cons.prems have "f \<notin> dom (map_of ps)" by (simp add: dom_map_of_conv_image_fst)
  then show ?case using Cons p by (simp add: map_add_upd_left) (auto simp: fun_eq_iff map_add_def)
qed

lemma fold_del_all: "fold op_step (del_all ps) M = M |` (- set (dict_keys ps))"
  by (induction ps arbitrary: M) (auto simp: del_all_def fun_eq_iff restrict_map_def)

section \<open>Families\<close>

locale flow_family =
  fixes sh :: "'f flow_shape"
    and fam :: "'f \<Rightarrow> bool"
    and own :: "'f \<Rightarrow> bool"
  assumes table_named: "own f \<Longrightarrow> fst (sh f) \<noteq> OFPTT_ALL"
    and wf_match: "wf_dict (snd (snd (sh f)))"
    and key_inj: "shape_key sh f = shape_key sh g \<Longrightarrow> f = g"
    and apart: "own f \<Longrightarrow> fam g \<Longrightarrow> fst (sh f) = fst (sh g) \<Longrightarrow>
      match_covers (snd (snd (sh f))) (map_of (snd (snd (sh g)))) \<Longrightarrow> f = g"
begin

lemma shape_key_eq [simp]: "shape_key sh f = shape_key sh g \<longleftrightarrow> f = g"
  using key_inj by blast

lemma family_table_key [simp]: "family_table sh M (shape_key sh f) = M f"
proof -
  have "inj (shape_key sh)" by (auto intro: injI)
  then show ?thesis by (simp add: family_table_def)
qed

lemma family_table_other [simp]: "key \<notin> range (shape_key sh) \<Longrightarrow> family_table sh M key = None"
  by (simp add: family_table_def)

lemma covers_self: "match_covers (snd (snd (sh f))) (map_of (snd (snd (sh f))))"
  using wf_match [of f] by (auto simp: match_covers_iff)

lemma hits_targeted:
  assumes "targets_flow sh f fm" "own f" "fam g"
  shows "hits fm (shape_key sh g) \<longleftrightarrow> g = f"
proof
  assume h: "hits fm (shape_key sh g)"
  have "fst (sh f) = fst (sh g)" "match_covers (snd (snd (sh f))) (map_of (snd (snd (sh g))))"
    using h assms table_named [of f] by (auto simp: hits_def targets_flow_def shape_key_def split: prod.splits)
  then show "g = f" using apart assms(2,3) by blast
next
  assume "g = f"
  then show "hits fm (shape_key sh g)"
    using assms covers_self [of f] by (auto simp: hits_def targets_flow_def shape_key_def split: prod.splits)
qed

lemma key_named: "names_flow sh f fm \<Longrightarrow> fm_key fm = shape_key sh f"
  by (simp add: names_flow_def shape_key_def fm_key_def)

lemma table_mod_other:
  assumes "asks sh fam own op fm" "key \<notin> range (shape_key sh)" "T key = None"
  shows "table_mod fm T key = None"
  using assms key_named by (cases op) (auto simp: table_mod_def split: flow_command.splits)

lemma table_mod_named:
  assumes "asks sh fam own op fm" "\<And>f. \<not> fam f \<Longrightarrow> M f = None"
  shows "table_mod fm (family_table sh M) (shape_key sh g) = op_step op M g"
proof (cases op)
  case (Put f i)
  then show ?thesis using assms(1) key_named [of f fm] by (auto simp: table_mod_def)
next
  case (Mod f i)
  then have "targets_flow sh f fm" "own f" using assms(1) by simp_all
  note h = hits_targeted [OF this, of g]
  show ?thesis using assms(1) assms(2) [of g] Mod h
    by (cases "g = f"; cases "M g") (auto simp: table_mod_def)
next
  case (Del f)
  show ?thesis
  proof (cases "fm_command fm = OFPFC_DELETE_STRICT")
    case True
    then have "fm_key fm = shape_key sh f" using assms(1) Del key_named [of f fm] by simp
    then show ?thesis using True Del by (simp add: table_mod_def)
  next
    case False
    then have "targets_flow sh f fm" "own f" "fm_command fm = OFPFC_DELETE" using assms(1) Del by auto
    then show ?thesis using hits_targeted [of f fm g] assms(2) [of g] Del
      by (cases "fam g") (auto simp: table_mod_def)
  qed
next
  case (Wipe F)
  then show ?thesis using assms(1) assms(2) [of g]
    by (cases "fam g"; cases "g \<in> F") (simp_all add: table_mod_def restrict_map_def)
qed

lemma table_mod_op:
  assumes "asks sh fam own op fm" "\<And>f. \<not> fam f \<Longrightarrow> M f = None"
  shows "table_mod fm (family_table sh M) = family_table sh (op_step op M)"
proof (rule ext)
  fix key
  show "table_mod fm (family_table sh M) key = family_table sh (op_step op M) key"
  proof (cases "key \<in> range (shape_key sh)")
    case True
    then show ?thesis using table_mod_named [OF assms] by auto
  next
    case False
    then show ?thesis using table_mod_other [OF assms(1) False, of "family_table sh M"] by simp
  qed
qed

lemma op_step_family:
  assumes "asks sh fam own op fm" "\<And>f. \<not> fam f \<Longrightarrow> M f = None" "\<not> fam g"
  shows "op_step op M g = None"
  using assms(1) assms(2) [OF assms(3)] assms(3) by (cases op) (auto simp: restrict_map_def)

lemma asks_table: "asks sh fam own op fm \<Longrightarrow> fm_table_id fm \<in> tables_of sh fam"
  by (cases op) (auto simp: names_flow_def targets_flow_def intro: tables_ofI)

lemma send_flow_yields:
  assumes "stamps conf ck cm" "plain_args a" "asks sh fam own op (flow_message ck cm a)"
    and "flows_rep sh fam ck cm M x s"
  shows "yields (send_flow conf a s) (flows_rep sh fam ck cm (op_step op M) x)"
proof -
  from assms(4) have M: "\<And>f. \<not> fam f \<Longrightarrow> M f = None" by (simp add: flows_rep_def)
  show ?thesis using assms table_mod_op [OF assms(3) M] op_step_family [OF assms(3) M] asks_table [OF assms(3)]
    by (simp add: send_flow_stamped flows_rep_def flows_after_append)
qed

lemma sends_flow:
  assumes "stamps conf ck cm" "plain_args a" "asks sh fam own op (flow_message ck cm a)"
  shows "sends_ops sh fam ck cm (send_flow conf a) [op]"
  unfolding sends_ops_def by (intro allI impI) (simp add: send_flow_yields [OF assms])

end

lemma goto_asks:
  assumes "sh f = (table, priority, case mtch of Some m \<Rightarrow> m | None \<Rightarrow> [])" "fam f"
  shows "asks sh fam own (Put f (goto_insts table e)) (flow_message ck cm (goto_args table priority e mtch))"
  using assms by (simp add: names_flow_def goto_args_def goto_insts_def or_default_def flow_message_def fm_fields_def
      default_args_def)

end
