(* ===== verification/Classifier.thy ===== *)
theory Classifier
  imports Flow_Family
begin

text \<open>
  The classifier application, \<open>dragonflow/controller/apps/classifier.py\<close>: packets of a switch port
  enter the pipeline marked with the key of the logical port and of its network, and packets with
  the key of a logical port as destination leave by its switch port. The logical port comes from the
  northbound database, which is a parameter.
\<close>

section \<open>State\<close>

text \<open>
  What the handlers read: of a switch port its id, number and reference to a logical port; of a
  logical port its key and that of its network, whose reference may fail.
\<close>

record switch_port =
  sp_id :: string
  sp_port_num :: "int option"
  sp_lport :: "string option"

record cls_lport =
  cl_unique_key :: int
  cl_network :: "int result"

record cls_app = flow_app +
  ofport_unique_key_map :: "(string, int \<times> int) dict"

section \<open>Handlers\<close>

definition cls_switch_features_handler :: "'o flow_conf \<Rightarrow> cls_app \<Rightarrow> cls_app outcome" where
  "cls_switch_features_handler conf s =
     send_goto conf INGRESS_CLASSIFICATION_DISPATCH_TABLE PRIORITY_DEFAULT
       INGRESS_CLASSIFICATION_EXITPOINT_TABLE None (s\<lparr>ofport_unique_key_map := []\<rparr>)"

definition make_ingress_dispatch_flow :: "'o flow_conf \<Rightarrow> cls_lport \<Rightarrow> int \<Rightarrow> cls_app \<Rightarrow> cls_app outcome" where
  "make_ingress_dispatch_flow conf lport port_num =
     send_flow conf (default_args\<lparr>
       a_inst := Some [Actions OFPIT_APPLY_ACTIONS [OutputPort (PInt port_num) OFPCML_NO_BUFFER]],
       a_table_id := INGRESS_DISPATCH_TABLE, a_priority := PRIORITY_MEDIUM,
       a_match := Some [(''reg7'', MInt (cl_unique_key lport))]\<rparr>)"

definition classification_actions :: "int \<Rightarrow> int \<Rightarrow> action list" where
  "classification_actions port_key network_id =
     [SetField ''reg6'' (MInt port_key), SetField ''metadata'' (MInt network_id), RegLoad ''in_port'' 0,
      Resubmit NX_IN_PORT]"

definition make_ingress_classification_flow ::
  "'o flow_conf \<Rightarrow> cls_lport \<Rightarrow> int \<Rightarrow> cls_app \<Rightarrow> cls_app outcome" where
  "make_ingress_classification_flow conf lport port_num =
     with_value (cl_network lport) (\<lambda>network_id.
       send_flow conf (default_args\<lparr>
         a_table_id := INGRESS_CLASSIFICATION_DISPATCH_TABLE, a_priority := PRIORITY_MEDIUM,
         a_match := Some [(''in_port'', MInt port_num)],
         a_actions := Some (classification_actions (cl_unique_key lport) network_id)\<rparr>))"

definition del_ingress_dispatch_flow :: "'o flow_conf \<Rightarrow> int \<Rightarrow> cls_app \<Rightarrow> cls_app outcome" where
  "del_ingress_dispatch_flow conf port_key =
     send_flow conf (default_args\<lparr>a_table_id := INGRESS_DISPATCH_TABLE, a_command := Some OFPFC_DELETE,
       a_priority := PRIORITY_MEDIUM, a_match := Some [(''reg7'', MInt port_key)]\<rparr>)"

definition del_ingress_classification_flow :: "'o flow_conf \<Rightarrow> int \<Rightarrow> cls_app \<Rightarrow> cls_app outcome" where
  "del_ingress_classification_flow conf port_num =
     send_flow conf (default_args\<lparr>a_table_id := INGRESS_CLASSIFICATION_DISPATCH_TABLE,
       a_command := Some OFPFC_DELETE, a_priority := PRIORITY_MEDIUM, a_match := Some [(''in_port'', MInt port_num)]\<rparr>)"

definition cls_switch_port_deleted :: "'o flow_conf \<Rightarrow> switch_port \<Rightarrow> cls_app \<Rightarrow> cls_app outcome" where
  "cls_switch_port_deleted conf sp s =
     (case map_of (ofport_unique_key_map s) (sp_id sp) of
        None \<Rightarrow> (None, s)
      | Some (port_num, port_key) \<Rightarrow>
          and_then
            (del_ingress_dispatch_flow conf port_key
               (s\<lparr>ofport_unique_key_map := AList.delete (sp_id sp) (ofport_unique_key_map s)\<rparr>))
            (del_ingress_classification_flow conf port_num))"

text \<open>The number of a port that is ready.\<close>

definition ready_port :: "switch_port \<Rightarrow> int option" where
  "ready_port sp = (case sp_port_num sp of Some n \<Rightarrow> if n = 0 \<or> n = -1 then None else Some n | None \<Rightarrow> None)"

definition cls_port_moved :: "switch_port \<Rightarrow> switch_port option \<Rightarrow> bool" where
  "cls_port_moved sp orig = (case orig of Some o' \<Rightarrow> sp_port_num o' \<noteq> sp_port_num sp | None \<Rightarrow> False)"

definition cls_switch_port_created ::
  "'o flow_conf \<Rightarrow> (string \<Rightarrow> cls_lport option) \<Rightarrow> switch_port \<Rightarrow> switch_port option \<Rightarrow> cls_app \<Rightarrow> cls_app outcome" where
  "cls_switch_port_created conf nb_get sp orig s =
     (case sp_lport sp of
        None \<Rightarrow> (None, s)
      | Some lport_ref \<Rightarrow>
          and_then (if cls_port_moved sp orig then cls_switch_port_deleted conf sp s else (None, s)) (\<lambda>s.
            case ready_port sp of
              None \<Rightarrow> (None, s)
            | Some port_num \<Rightarrow>
                (case nb_get lport_ref of
                   None \<Rightarrow> (Some AttributeError, s)
                 | Some lport \<Rightarrow>
                     and_then
                       (make_ingress_classification_flow conf lport port_num
                          (s\<lparr>ofport_unique_key_map :=
                             AList.update (sp_id sp) (port_num, cl_unique_key lport) (ofport_unique_key_map s)\<rparr>))
                       (make_ingress_dispatch_flow conf lport port_num))))"

section \<open>The flows\<close>

datatype cls_flow = Enter int | Leave int | EnterDefault

fun cls_shape :: "cls_flow flow_shape" where
  "cls_shape (Enter port_num) =
     (INGRESS_CLASSIFICATION_DISPATCH_TABLE, PRIORITY_MEDIUM, [(''in_port'', MInt port_num)])"
| "cls_shape (Leave port_key) = (INGRESS_DISPATCH_TABLE, PRIORITY_MEDIUM, [(''reg7'', MInt port_key)])"
| "cls_shape EnterDefault = (INGRESS_CLASSIFICATION_DISPATCH_TABLE, PRIORITY_DEFAULT, [])"

definition cls_fam :: "cls_flow \<Rightarrow> bool" where
  "cls_fam f \<longleftrightarrow> True"

definition cls_own :: "cls_flow \<Rightarrow> bool" where
  "cls_own f \<longleftrightarrow> f \<noteq> EnterDefault"

interpretation cls: flow_family cls_shape cls_fam cls_own
proof
  fix f g
  show "fst (cls_shape f) \<noteq> OFPTT_ALL" by (cases f) (simp_all add: table_defs OFPTT_ALL_def)
  show "wf_dict (snd (snd (cls_shape f)))" by (cases f) simp_all
  show "f = g" if "shape_key cls_shape f = shape_key cls_shape g"
    using that by (cases f; cases g) (auto simp: shape_key_def table_defs fun_eq_iff split: if_splits dest: spec [of _ "''in_port''"] spec [of _ "''reg7''"])
  show "f = g" if "cls_own f" "fst (cls_shape f) = fst (cls_shape g)"
    "match_covers (snd (snd (cls_shape f))) (map_of (snd (snd (cls_shape g))))"
    using that by (cases f; cases g) (simp_all add: cls_own_def match_covers_def table_defs)
qed

section \<open>What the ports ask for\<close>

text \<open>The entry of a port that is ready: its number, key and network.\<close>

record cls_entry =
  ce_port :: int
  ce_key :: int
  ce_network :: int

definition enter_insts :: "cls_entry \<Rightarrow> inst list" where
  "enter_insts e = [Actions OFPIT_APPLY_ACTIONS (classification_actions (ce_key e) (ce_network e))]"

definition leave_insts :: "cls_entry \<Rightarrow> inst list" where
  "leave_insts e = [Actions OFPIT_APPLY_ACTIONS [OutputPort (PInt (ce_port e)) OFPCML_NO_BUFFER]]"

datatype cls_event =
    SpCreated switch_port "switch_port option" "cls_lport option"
  | SpDeleted switch_port

fun cls_handle :: "'o flow_conf \<Rightarrow> cls_event \<Rightarrow> cls_app \<Rightarrow> cls_app outcome" where
  "cls_handle conf (SpCreated sp orig lport) = cls_switch_port_created conf (\<lambda>_. lport) sp orig"
| "cls_handle conf (SpDeleted sp) = cls_switch_port_deleted conf sp"

type_synonym cls_entries = "(string, cls_entry) dict"

text \<open>
  An entry may replace the one of its switch port only when the number and the key stay; of the
  other entries they must differ.
\<close>

definition may_enter :: "cls_entries \<Rightarrow> string \<Rightarrow> cls_entry \<Rightarrow> bool" where
  "may_enter E i e \<longleftrightarrow>
     list_all (\<lambda>(j, e'). if j = i then ce_port e' = ce_port e \<and> ce_key e' = ce_key e
        else ce_port e' \<noteq> ce_port e \<and> ce_key e' \<noteq> ce_key e) E"

definition enter_lport :: "switch_port \<Rightarrow> int \<Rightarrow> cls_lport option \<Rightarrow> cls_entries \<Rightarrow> cls_entries option" where
  "enter_lport sp n lport E =
     (case lport of
        None \<Rightarrow> None
      | Some p \<Rightarrow>
          (case cl_network p of
             Inl err \<Rightarrow> None
           | Inr net \<Rightarrow>
               let e = \<lparr>ce_port = n, ce_key = cl_unique_key p, ce_network = net\<rparr>
               in if may_enter E (sp_id sp) e then Some (AList.update (sp_id sp) e E) else None))"

text \<open>The entries after an event; \<open>None\<close> for an event outside the contract.\<close>

fun cls_after_event :: "cls_event \<Rightarrow> cls_entries \<Rightarrow> cls_entries option" where
  "cls_after_event (SpDeleted sp) E = Some (AList.delete (sp_id sp) E)"
| "cls_after_event (SpCreated sp orig lport) E =
     (if sp_lport sp = None then Some E
      else
        let E = (if cls_port_moved sp orig then AList.delete (sp_id sp) E else E)
        in case ready_port sp of
             None \<Rightarrow> Some E
           | Some n \<Rightarrow> enter_lport sp n lport E)"

fun cls_after :: "cls_event list \<Rightarrow> cls_entries \<Rightarrow> cls_entries option" where
  "cls_after [] E = Some E"
| "cls_after (ev # evs) E = Option.bind (cls_after_event ev E) (cls_after evs)"

text \<open>The flows of the entries.\<close>

fun cls_flows :: "cls_entries \<Rightarrow> cls_flow \<rightharpoonup> inst list" where
  "cls_flows E (Enter n) = map_option enter_insts (find (\<lambda>e. ce_port e = n) (dict_values E))"
| "cls_flows E (Leave k) = map_option leave_insts (find (\<lambda>e. ce_key e = k) (dict_values E))"
| "cls_flows E EnterDefault =
     Some (goto_insts INGRESS_CLASSIFICATION_DISPATCH_TABLE INGRESS_CLASSIFICATION_EXITPOINT_TABLE)"

definition cls_map :: "cls_entries \<Rightarrow> (string, int \<times> int) dict" where
  "cls_map E = map (\<lambda>(i, e). (i, (ce_port e, ce_key e))) E"

definition cls_inv :: "cls_entries \<Rightarrow> bool" where
  "cls_inv E \<longleftrightarrow> wf_dict E \<and> distinct (map ce_port (dict_values E)) \<and> distinct (map ce_key (dict_values E))"

section \<open>Entries and flows\<close>

lemma find_delete:
  assumes "wf_dict E" "distinct (map f (dict_values E))" "map_of E i = Some e"
  shows "find (\<lambda>x. f x = n) (dict_values (AList.delete i E)) =
    (if n = f e then None else find (\<lambda>x. f x = n) (dict_values E))"
  using assms
proof (induction E)
  case Nil
  then show ?case by simp
next
  case (Cons p E)
  obtain j x where p: "p = (j, x)" by fastforce
  show ?case
  proof (cases "j = i")
    case True
    then have "AList.delete i E = E" "x = e" using Cons.prems p by (auto simp: delete_id)
    then show ?thesis using True Cons.prems(2) p by (auto simp: find_None_iff image_iff)
  next
    case False
    then have "map_of E i = Some e" using Cons.prems(3) p by simp
    moreover from this have "e \<in> set (dict_values E)" by (force dest: map_of_SomeD)
    moreover have "f x \<noteq> f e" using calculation(2) Cons.prems(2) p by (auto simp: image_iff)
    ultimately show ?thesis using Cons False p by auto
  qed
qed

lemma find_update:
  assumes "list_all (\<lambda>(j, x). if j = i then f x = f e else f x \<noteq> f e) E"
  shows "find (\<lambda>x. f x = n) (dict_values (AList.update i e E)) =
    (if n = f e then Some e else find (\<lambda>x. f x = n) (dict_values E))"
  using assms by (induction E) (auto split: if_splits)

lemma delete_entry_flows:
  assumes "cls_inv E" "map_of E i = Some e"
  shows "op_step (Del (Enter (ce_port e))) (op_step (Del (Leave (ce_key e))) (cls_flows E)) = cls_flows (AList.delete i E)"
proof (rule ext)
  fix f
  show "op_step (Del (Enter (ce_port e))) (op_step (Del (Leave (ce_key e))) (cls_flows E)) f = cls_flows (AList.delete i E) f"
    using assms find_delete [of E ce_port i e] find_delete [of E ce_key i e] by (cases f) (auto simp: cls_inv_def)
qed

lemma may_enterD:
  assumes "may_enter E i e"
  shows "list_all (\<lambda>(j, x). if j = i then ce_port x = ce_port e else ce_port x \<noteq> ce_port e) E"
    "list_all (\<lambda>(j, x). if j = i then ce_key x = ce_key e else ce_key x \<noteq> ce_key e) E"
  using assms by (auto simp: may_enter_def list_all_iff split: if_splits)

lemma enter_entry_flows:
  assumes "may_enter E i e"
  shows "op_step (Put (Leave (ce_key e)) (leave_insts e)) (op_step (Put (Enter (ce_port e)) (enter_insts e)) (cls_flows E)) =
    cls_flows (AList.update i e E)"
proof (rule ext)
  fix f
  note find_update [OF may_enterD(1) [OF assms]] find_update [OF may_enterD(2) [OF assms]]
  then show "op_step (Put (Leave (ce_key e)) (leave_insts e)) (op_step (Put (Enter (ce_port e)) (enter_insts e)) (cls_flows E)) f =
      cls_flows (AList.update i e E) f"
    by (cases f) auto
qed

lemma distinct_values_delete:
  "distinct (map f (dict_values E)) \<Longrightarrow> distinct (map f (dict_values (AList.delete i E)))"
  by (induction E) (auto simp: image_iff AList.delete_eq)

lemma distinct_values_update:
  assumes "distinct (map f (dict_values E))" "wf_dict E"
    and "list_all (\<lambda>(j, x). if j = i then f x = f e else f x \<noteq> f e) E"
  shows "distinct (map f (dict_values (AList.update i e E)))"
proof (cases "map_of E i")
  case None
  then have i: "i \<notin> set (dict_keys E)" by (simp add: map_of_None_keys)
  have "f x \<noteq> f e" if "(j, x) \<in> set E" for j x
    using assms(3) i that by (force simp: list_all_iff split: if_splits)
  then have "f e \<notin> f ` set (dict_values E)" by (metis (no_types, lifting) imageE list.set_map prod.collapse)
  then show ?thesis using assms(1) by (simp add: update_new [OF i] del: map_map)
next
  case (Some x)
  have "map f (dict_values (AList.update i e E)) = map f (dict_values E)"
    using assms(2,3) Some by (induction E) (auto split: if_splits)
  then show ?thesis using assms(1) by simp
qed

lemma cls_inv_delete: "cls_inv E \<Longrightarrow> cls_inv (AList.delete i E)"
  unfolding cls_inv_def by (intro conjI distinct_values_delete wf_dict_delete) auto

lemma cls_inv_enter: "cls_inv E \<Longrightarrow> may_enter E i e \<Longrightarrow> cls_inv (AList.update i e E)"
  unfolding cls_inv_def by (intro conjI distinct_values_update wf_dict_update may_enterD) auto

lemma cls_map_simps:
  "map_of (cls_map E) i = map_option (\<lambda>e. (ce_port e, ce_key e)) (map_of E i)"
  "AList.delete i (cls_map E) = cls_map (AList.delete i E)"
  "AList.update i (ce_port e, ce_key e) (cls_map E) = cls_map (AList.update i e E)"
  by (induction E) (auto simp: cls_map_def)

section \<open>What the handlers do\<close>

definition cls_rep :: "int \<Rightarrow> int \<Rightarrow> (cls_flow \<rightharpoonup> inst list) \<Rightarrow> (string, int \<times> int) dict \<Rightarrow> cls_app \<Rightarrow> bool" where
  "cls_rep ck cm M d s \<longleftrightarrow> flows_rep cls_shape cls_fam ck cm M (cls_app.fields d) s"

lemma cls_rep_map: "cls_rep ck cm M d s \<Longrightarrow> ofport_unique_key_map s = d"
  by (cases s) (simp add: cls_rep_def flows_rep_def cls_app.defs)

lemma cls_rep_update: "cls_rep ck cm M d s \<Longrightarrow> cls_rep ck cm M d' (s\<lparr>ofport_unique_key_map := d'\<rparr>)"
  by (cases s) (simp add: cls_rep_def flows_rep_def cls_app.defs)

lemma cls_send:
  assumes "stamps conf ck cm" "plain_args a" "asks cls_shape cls_fam cls_own op (flow_message ck cm a)" "cls_rep ck cm M d s"
  shows "yields (send_flow conf a s) (cls_rep ck cm (op_step op M) d)"
  using cls.send_flow_yields [OF assms(1-3)] assms(4) by (simp add: cls_rep_def yields_def)

lemma delete_flows_yields:
  assumes "stamps conf ck cm" "cls_rep ck cm M d s" "map_of d (sp_id sp) = Some (n, k)"
  shows "yields (cls_switch_port_deleted conf sp s)
    (cls_rep ck cm (op_step (Del (Enter n)) (op_step (Del (Leave k)) M)) (AList.delete (sp_id sp) d))"
proof -
  let ?d = "AList.delete (sp_id sp) d"
  let ?s = "s\<lparr>ofport_unique_key_map := ?d\<rparr>"
  have s: "cls_switch_port_deleted conf sp s =
      and_then (del_ingress_dispatch_flow conf k ?s) (del_ingress_classification_flow conf n)"
    using assms(3) cls_rep_map [OF assms(2)] by (simp add: cls_switch_port_deleted_def)
  have "yields (del_ingress_dispatch_flow conf k ?s) (cls_rep ck cm (op_step (Del (Leave k)) M) ?d)"
    unfolding del_ingress_dispatch_flow_def using assms(1) cls_rep_update [OF assms(2)]
    by (intro cls_send) (simp_all add: cls_fam_def targets_flow_def names_flow_def flow_message_def fm_fields_def cls_own_def or_default_def)
  moreover have "yields (del_ingress_classification_flow conf n t) (cls_rep ck cm (op_step (Del (Enter n)) M') ?d)"
    if "cls_rep ck cm M' ?d t" for t M'
    unfolding del_ingress_classification_flow_def using assms(1) that
    by (intro cls_send) (simp_all add: cls_fam_def targets_flow_def names_flow_def flow_message_def fm_fields_def cls_own_def or_default_def)
  ultimately show ?thesis unfolding s by (rule yields_then)
qed

lemma deleted_yields:
  assumes "stamps conf ck cm" "cls_inv E" "cls_rep ck cm (cls_flows E) (cls_map E) s"
  shows "yields (cls_switch_port_deleted conf sp s)
    (cls_rep ck cm (cls_flows (AList.delete (sp_id sp) E)) (cls_map (AList.delete (sp_id sp) E)))"
proof (cases "map_of E (sp_id sp)")
  case None
  then have "AList.delete (sp_id sp) E = E" by (simp add: delete_id map_of_None_keys)
  then show ?thesis using None assms(3) by (simp add: cls_switch_port_deleted_def cls_rep_map cls_map_simps)
next
  case (Some e)
  then have "map_of (cls_map E) (sp_id sp) = Some (ce_port e, ce_key e)" by (simp add: cls_map_simps)
  from delete_flows_yields [OF assms(1,3) this] delete_entry_flows [OF assms(2) Some] show ?thesis
    by (simp add: cls_map_simps)
qed

lemma enter_flows_yields:
  assumes "stamps conf ck cm" "cls_rep ck cm M d s"
    and "cl_network p = Inr (ce_network e)" "cl_unique_key p = ce_key e"
  shows "yields
      (and_then (make_ingress_classification_flow conf p (ce_port e)
           (s\<lparr>ofport_unique_key_map := AList.update i (ce_port e, ce_key e) (ofport_unique_key_map s)\<rparr>))
         (make_ingress_dispatch_flow conf p (ce_port e)))
      (cls_rep ck cm
         (op_step (Put (Leave (ce_key e)) (leave_insts e)) (op_step (Put (Enter (ce_port e)) (enter_insts e)) M))
         (AList.update i (ce_port e, ce_key e) d))"
proof -
  let ?d = "AList.update i (ce_port e, ce_key e) d"
  have "yields (make_ingress_classification_flow conf p (ce_port e) (s\<lparr>ofport_unique_key_map := ?d\<rparr>))
      (cls_rep ck cm (op_step (Put (Enter (ce_port e)) (enter_insts e)) M) ?d)"
    unfolding make_ingress_classification_flow_def assms(3) with_value_simps
    using assms(1) cls_rep_update [OF assms(2), of ?d]
    by (intro cls_send) (simp_all add: cls_fam_def targets_flow_def names_flow_def flow_message_def fm_fields_def or_default_def enter_insts_def
        assms(4) default_args_def plain_args_def)
  moreover have "yields (make_ingress_dispatch_flow conf p (ce_port e) t)
      (cls_rep ck cm (op_step (Put (Leave (ce_key e)) (leave_insts e)) M') ?d)" if "cls_rep ck cm M' ?d t" for t M'
    unfolding make_ingress_dispatch_flow_def using assms(1) that
    by (intro cls_send) (simp_all add: cls_fam_def targets_flow_def names_flow_def flow_message_def fm_fields_def or_default_def leave_insts_def
        assms(4) default_args_def plain_args_def)
  ultimately show ?thesis unfolding cls_rep_map [OF assms(2)] by (rule yields_then)
qed

lemma created_yields:
  assumes "stamps conf ck cm" "sp_lport sp = Some r" "ready_port sp = Some (ce_port e)" "nb_get r = Some p"
    and "cl_network p = Inr (ce_network e)" "cl_unique_key p = ce_key e"
    and "cls_rep ck cm M d s" "\<not> cls_port_moved sp orig"
  shows "yields (cls_switch_port_created conf nb_get sp orig s)
      (cls_rep ck cm
         (op_step (Put (Leave (ce_key e)) (leave_insts e)) (op_step (Put (Enter (ce_port e)) (enter_insts e)) M))
         (AList.update (sp_id sp) (ce_port e, ce_key e) d))"
  using enter_flows_yields [OF assms(1,7,5,6), of "sp_id sp"] assms(2-6,8)
  by (simp add: cls_switch_port_created_def)

lemma handle_yields:
  assumes "stamps conf ck cm" "cls_inv E" "cls_rep ck cm (cls_flows E) (cls_map E) s" "cls_after_event ev E = Some E'"
  shows "yields (cls_handle conf ev s) (cls_rep ck cm (cls_flows E') (cls_map E'))" "cls_inv E'"
proof -
  show "yields (cls_handle conf ev s) (cls_rep ck cm (cls_flows E') (cls_map E'))"
  proof (cases ev)
    case (SpDeleted sp)
    then show ?thesis using deleted_yields [OF assms(1-3), of sp] assms(4) by auto
  next
    case (SpCreated sp orig lport)
    let ?E = "if cls_port_moved sp orig then AList.delete (sp_id sp) E else E"
    have "yields (if cls_port_moved sp orig then cls_switch_port_deleted conf sp s else (None, s))
        (cls_rep ck cm (cls_flows ?E) (cls_map ?E))"
      using deleted_yields [OF assms(1-3), of sp] assms(3) by simp
    moreover have "yields
        (case ready_port sp of None \<Rightarrow> (None, s)
         | Some port_num \<Rightarrow>
             (case lport of None \<Rightarrow> (Some AttributeError, s)
              | Some lport \<Rightarrow>
                  and_then (make_ingress_classification_flow conf lport port_num
                      (s\<lparr>ofport_unique_key_map :=
                         AList.update (sp_id sp) (port_num, cl_unique_key lport) (ofport_unique_key_map s)\<rparr>))
                    (make_ingress_dispatch_flow conf lport port_num)))
        (cls_rep ck cm (cls_flows E') (cls_map E'))"
      if s: "cls_rep ck cm (cls_flows ?E) (cls_map ?E) s" and "sp_lport sp \<noteq> None" for s
    proof (cases "ready_port sp")
      case None
      then show ?thesis using that assms(4) SpCreated by (auto simp: Let_def)
    next
      case (Some n)
      with that(2) assms(4) SpCreated obtain p net where p: "lport = Some p" "cl_network p = Inr net"
        by (auto simp: enter_lport_def Let_def split: option.splits sum.splits)
      let ?e = "\<lparr>ce_port = n, ce_key = cl_unique_key p, ce_network = net\<rparr>"
      from p Some that(2) assms(4) SpCreated have E': "may_enter ?E (sp_id sp) ?e" "E' = AList.update (sp_id sp) ?e ?E"
        by (auto simp: enter_lport_def Let_def split: if_splits)
      have "yields
          (and_then (make_ingress_classification_flow conf p n
               (s\<lparr>ofport_unique_key_map := AList.update (sp_id sp) (n, cl_unique_key p) (ofport_unique_key_map s)\<rparr>))
             (make_ingress_dispatch_flow conf p n))
          (cls_rep ck cm (cls_flows E') (cls_map E'))"
        using enter_flows_yields [OF assms(1) s, of p ?e "sp_id sp"] p(2) enter_entry_flows [OF E'(1)]
          cls_map_simps(3) [of "sp_id sp" ?e ?E] E'(2) by simp
      then show ?thesis using Some p by simp
    qed
    ultimately show ?thesis using assms(3,4) SpCreated
      by (cases "sp_lport sp") (auto simp: cls_switch_port_created_def intro: yields_then)
  qed
  show "cls_inv E'"
    using assms(2,4) cls_inv_delete cls_inv_enter
    by (cases ev) (auto simp: enter_lport_def Let_def split: if_splits option.splits sum.splits)
qed

lemma run_yields:
  assumes "stamps conf ck cm" "cls_inv E" "cls_rep ck cm (cls_flows E) (cls_map E) s" "cls_after evs E = Some E'"
  shows "yields (run_each (cls_handle conf) evs s) (cls_rep ck cm (cls_flows E') (cls_map E'))"
  using assms(2-)
proof (induction evs arbitrary: E s)
  case Nil
  then show ?case by simp
next
  case (Cons ev evs)
  then obtain E1 where E1: "cls_after_event ev E = Some E1" "cls_after evs E1 = Some E'"
    by (auto simp: bind_eq_Some_conv)
  note h = handle_yields [OF assms(1) Cons.prems(1,2) E1(1)]
  show ?case using yields_then [OF h(1)] Cons.IH [OF h(2) _ E1(2)] by simp
qed

lemma cls_empty:
  assumes "stamps conf ck cm"
  shows "yields (cls_switch_features_handler conf \<lparr>fa_sent = [], ofport_unique_key_map = d\<rparr>)
    (cls_rep ck cm (cls_flows []) (cls_map []))" "cls_inv []"
proof -
  have M: "op_step (Put EnterDefault (goto_insts INGRESS_CLASSIFICATION_DISPATCH_TABLE
        INGRESS_CLASSIFICATION_EXITPOINT_TABLE)) Map.empty = cls_flows []"
  proof
    show "op_step (Put EnterDefault (goto_insts INGRESS_CLASSIFICATION_DISPATCH_TABLE
        INGRESS_CLASSIFICATION_EXITPOINT_TABLE)) Map.empty f = cls_flows [] f" for f
      by (cases f) simp_all
  qed
  have "cls_rep ck cm Map.empty [] \<lparr>fa_sent = [], ofport_unique_key_map = []\<rparr>"
    using flows_rep_empty [of cls_shape cls_fam ck cm "cls_app.fields []"] by (simp add: cls_rep_def cls_app.defs)
  from cls_send [OF assms plain_goto_args goto_asks [of cls_shape EnterDefault _ _ None cls_fam] this]
  show "yields (cls_switch_features_handler conf \<lparr>fa_sent = [], ofport_unique_key_map = d\<rparr>)
    (cls_rep ck cm (cls_flows []) (cls_map []))"
    by (simp add: cls_switch_features_handler_def send_goto_flow M [symmetric] cls_map_def cls_fam_def)
  show "cls_inv []" by (simp add: cls_inv_def)
qed

section \<open>Correctness\<close>

lemma cls_life:
  assumes "stamps conf ck cm" "cls_after evs [] = Some E"
  shows "\<exists>s0 s. cls_switch_features_handler conf \<lparr>fa_sent = [], ofport_unique_key_map = d\<rparr> = (None, s0) \<and>
    run_each (cls_handle conf) evs s0 = (None, s) \<and> cls_rep ck cm (cls_flows E) (cls_map E) s"
  using yieldsD [OF cls_empty(1) [OF assms(1), of d]] yieldsD [OF run_yields [OF assms(1) cls_empty(2) [OF assms(1)] _ assms(2)]]
  by blast

text \<open>
  C16. The classification tables hold exactly the flows of the ready switch ports. After the switch
  has connected and any sequence of events of switch ports, whose numbers and logical ports do not
  collide and where an update that keeps the number of a port keeps its logical port, no handler
  has raised, the application remembers the number and key of each port, and on every switch that
  follows the OpenFlow laws there are, besides the default flow, for each port the flow that marks
  its packets with its key and network and the flow that sends packets to it, and no other flow.
\<close>

theorem classifier_flows_exact:
  assumes "of_switch sw_mod flow_at" "flow_at t0 = Map.empty" "stamps conf ck cm" "cls_after evs [] = Some E"
  shows "\<exists>s0 s. cls_switch_features_handler conf \<lparr>fa_sent = [], ofport_unique_key_map = d\<rparr> = (None, s0) \<and>
    run_each (cls_handle conf) evs s0 = (None, s) \<and> ofport_unique_key_map s = cls_map E \<and>
    (\<forall>f. flow_at (fold sw_mod (fa_sent s) t0) (shape_key cls_shape f) = map_option (Pair ck) (cls_flows E f)) \<and>
    (\<forall>key. key \<notin> range (shape_key cls_shape) \<longrightarrow> flow_at (fold sw_mod (fa_sent s) t0) key = None)"
proof -
  from cls_life [OF assms(3,4)] obtain s0 s where
    s: "cls_switch_features_handler conf \<lparr>fa_sent = [], ofport_unique_key_map = d\<rparr> = (None, s0)"
      "run_each (cls_handle conf) evs s0 = (None, s)" "cls_rep ck cm (cls_flows E) (cls_map E) s" by blast
  from flows_rep_switch [OF s(3) [unfolded cls_rep_def] assms(1,2)] s cls_rep_map [OF s(3)] show ?thesis by auto
qed

text \<open>
  A switch port that keeps its number while its logical port changes leaves a flow behind: the
  application replaces the remembered key, and when the port is deleted it removes the flow of the
  new key only. Packets for the old logical port are still sent to the switch port.
\<close>

theorem classifier_keeps_old_dispatch:
  assumes "of_switch sw_mod flow_at" "flow_at t0 = Map.empty" "stamps conf ck cm"
    and "sp_id sp' = sp_id sp" "sp_port_num sp' = sp_port_num sp" "ready_port sp = Some n"
    and "sp_lport sp = Some r" "nb_get r = Some p" "cl_network p = Inr net"
    and "sp_lport sp' = Some r'" "nb_get r' = Some p'" "cl_network p' = Inr net'"
    and "cl_unique_key p \<noteq> cl_unique_key p'"
  shows "\<exists>s0 s1 s2 s. cls_switch_features_handler conf \<lparr>fa_sent = [], ofport_unique_key_map = d\<rparr> = (None, s0) \<and>
    cls_switch_port_created conf nb_get sp None s0 = (None, s1) \<and>
    cls_switch_port_created conf nb_get sp' (Some sp) s1 = (None, s2) \<and>
    cls_switch_port_deleted conf sp' s2 = (None, s) \<and> ofport_unique_key_map s = [] \<and>
    flow_at (fold sw_mod (fa_sent s) t0) (shape_key cls_shape (Leave (cl_unique_key p))) =
      Some (ck, [Actions OFPIT_APPLY_ACTIONS [OutputPort (PInt n) OFPCML_NO_BUFFER]])"
proof -
  let ?e = "\<lparr>ce_port = n, ce_key = cl_unique_key p, ce_network = net\<rparr>"
  let ?e' = "\<lparr>ce_port = n, ce_key = cl_unique_key p', ce_network = net'\<rparr>"
  have n: "ready_port sp' = Some n" using assms(5,6) by (simp add: ready_port_def)
  have keep: "\<not> cls_port_moved sp' (Some sp)" "\<not> cls_port_moved sp None" using assms(5) by (simp_all add: cls_port_moved_def)
  from yieldsD [OF cls_empty(1) [OF assms(3), of d]] obtain s0 where
    s0: "cls_switch_features_handler conf \<lparr>fa_sent = [], ofport_unique_key_map = d\<rparr> = (None, s0)"
      "cls_rep ck cm (cls_flows []) (cls_map []) s0" by blast
  from yieldsD [OF created_yields [of conf ck cm sp r ?e nb_get p]] assms(3,6-9) s0(2) keep obtain s1 where
    s1: "cls_switch_port_created conf nb_get sp None s0 = (None, s1)"
      "cls_rep ck cm (op_step (Put (Leave (ce_key ?e)) (leave_insts ?e)) (op_step (Put (Enter n) (enter_insts ?e)) (cls_flows [])))
         (AList.update (sp_id sp) (n, cl_unique_key p) (cls_map [])) s1" by fastforce
  from yieldsD [OF created_yields [of conf ck cm sp' r' ?e' nb_get p']] assms(3,10-12) n s1(2) keep obtain s2 where
    s2: "cls_switch_port_created conf nb_get sp' (Some sp) s1 = (None, s2)"
      "cls_rep ck cm (op_step (Put (Leave (ce_key ?e')) (leave_insts ?e')) (op_step (Put (Enter n) (enter_insts ?e'))
         (op_step (Put (Leave (ce_key ?e)) (leave_insts ?e)) (op_step (Put (Enter n) (enter_insts ?e)) (cls_flows [])))))
         (AList.update (sp_id sp') (n, cl_unique_key p') (AList.update (sp_id sp) (n, cl_unique_key p) (cls_map []))) s2"
    by fastforce
  from yieldsD [OF delete_flows_yields [OF assms(3) s2(2), of sp' n "cl_unique_key p'"]] obtain s where
    s: "cls_switch_port_deleted conf sp' s2 = (None, s)"
      "cls_rep ck cm (op_step (Del (Enter n)) (op_step (Del (Leave (cl_unique_key p')))
         (op_step (Put (Leave (ce_key ?e')) (leave_insts ?e')) (op_step (Put (Enter n) (enter_insts ?e'))
         (op_step (Put (Leave (ce_key ?e)) (leave_insts ?e)) (op_step (Put (Enter n) (enter_insts ?e)) (cls_flows [])))))))
         (AList.delete (sp_id sp') (AList.update (sp_id sp') (n, cl_unique_key p')
            (AList.update (sp_id sp) (n, cl_unique_key p) (cls_map [])))) s" by auto
  from flows_rep_switch [OF s(2) [unfolded cls_rep_def] assms(1,2)] s0(1) s1(1) s2(1) s(1) cls_rep_map [OF s(2)] assms(4,13)
  show ?thesis by (auto simp: leave_insts_def cls_map_def)
qed

section \<open>Examples\<close>

definition example_flow_conf :: "unit flow_conf" where
  "example_flow_conf = \<lparr>fc_cookies = empty_cookie_space, fc_opaque = ()\<rparr>"

definition example_switch_port :: "int \<Rightarrow> string \<Rightarrow> switch_port" where
  "example_switch_port n r = \<lparr>sp_id = ''sp'', sp_port_num = Some n, sp_lport = Some r\<rparr>"

definition example_cls_lport :: "int \<Rightarrow> cls_lport" where
  "example_cls_lport k = \<lparr>cl_unique_key = k, cl_network = Inr 9\<rparr>"

lemma example_flow_conf_stamps: "stamps example_flow_conf 0 0"
  by (simp add: stamps_def example_flow_conf_def empty_cookie_space_def apply_global_cookie_modifiers_def)

lemma example_cls_life:
  "cls_after [SpCreated (example_switch_port 3 ''a'') None (Some (example_cls_lport 7)),
              SpCreated (example_switch_port 4 ''a'') (Some (example_switch_port 3 ''a'')) (Some (example_cls_lport 7))] [] =
     Some [(''sp'', \<lparr>ce_port = 4, ce_key = 7, ce_network = 9\<rparr>)]"
  by (simp add: example_switch_port_def example_cls_lport_def cls_port_moved_def ready_port_def enter_lport_def may_enter_def)

theorem classifier_flows_exact_witness:
  "\<exists>s0 s. cls_switch_features_handler example_flow_conf \<lparr>fa_sent = [], ofport_unique_key_map = []\<rparr> = (None, s0) \<and>
     run_each (cls_handle example_flow_conf)
       [SpCreated (example_switch_port 3 ''a'') None (Some (example_cls_lport 7)),
        SpCreated (example_switch_port 4 ''a'') (Some (example_switch_port 3 ''a'')) (Some (example_cls_lport 7))] s0 = (None, s) \<and>
     fold mem_mod (fa_sent s) Map.empty (shape_key cls_shape (Enter 3)) = None \<and>
     fold mem_mod (fa_sent s) Map.empty (shape_key cls_shape (Enter 4)) =
       Some (0, [Actions OFPIT_APPLY_ACTIONS (classification_actions 7 9)])"
  using classifier_flows_exact [OF mem.of_switch_axioms _ example_flow_conf_stamps example_cls_life, of Map.empty "[]"]
  by (fastforce simp: enter_insts_def)

theorem classifier_keeps_old_dispatch_witness:
  "\<exists>s0 s1 s2 s. cls_switch_features_handler example_flow_conf \<lparr>fa_sent = [], ofport_unique_key_map = []\<rparr> = (None, s0) \<and>
    cls_switch_port_created example_flow_conf (\<lambda>r. Some (example_cls_lport (if r = ''a'' then 7 else 8)))
      (example_switch_port 3 ''a'') None s0 = (None, s1) \<and>
    cls_switch_port_created example_flow_conf (\<lambda>r. Some (example_cls_lport (if r = ''a'' then 7 else 8)))
      (example_switch_port 3 ''b'') (Some (example_switch_port 3 ''a'')) s1 = (None, s2) \<and>
    cls_switch_port_deleted example_flow_conf (example_switch_port 3 ''b'') s2 = (None, s) \<and> ofport_unique_key_map s = [] \<and>
    fold mem_mod (fa_sent s) Map.empty (shape_key cls_shape (Leave 7)) =
      Some (0, [Actions OFPIT_APPLY_ACTIONS [OutputPort (PInt 3) OFPCML_NO_BUFFER]])"
  using classifier_keeps_old_dispatch [OF mem.of_switch_axioms _ example_flow_conf_stamps, of Map.empty
      "example_switch_port 3 ''b''" "example_switch_port 3 ''a''" 3 "''a''"
      "\<lambda>r. Some (example_cls_lport (if r = ''a'' then 7 else 8))" "example_cls_lport 7" 9 "''b''" "example_cls_lport 8" 9 "[]"]
  by (simp add: example_switch_port_def example_cls_lport_def ready_port_def)

end
