(* ===== verification/Responders.thy ===== *)
theory Responders
  imports Flow_Family
begin

text \<open>
  The flows that answer address resolution in the switch:
  \<open>dragonflow/controller/common/arp_responder.py\<close> for IPv4 and
  \<open>dragonflow/controller/common/nd_advertisers.py\<close> for IPv6. An answer is the request with its
  addresses swapped, sent back to the port that asked.
\<close>

section \<open>ARP\<close>

record arp_responder =
  ar_network_id :: "int option"
  ar_interface_ip :: ipaddr
  ar_mac_address :: "string option"
  ar_table_id :: nat
  ar_priority :: int
  ar_goto_table_id :: nat
  ar_source_port_key :: "int option"

definition ArpResponder :: "int option \<Rightarrow> ipaddr \<Rightarrow> string option \<Rightarrow> arp_responder" where
  "ArpResponder network_id interface_ip interface_mac =
     \<lparr>ar_network_id = network_id, ar_interface_ip = interface_ip, ar_mac_address = interface_mac,
      ar_table_id = ARP_TABLE, ar_priority = PRIORITY_MEDIUM, ar_goto_table_id = INGRESS_DISPATCH_TABLE,
      ar_source_port_key = None\<rparr>"

definition ipv4_text_to_int :: "ipaddr \<Rightarrow> int result" where
  "ipv4_text_to_int ip = (case ip of IPv4 w \<Rightarrow> Inr (uint w) | IPv6 w \<Rightarrow> Inl InvalidIPAddressException)"

definition network_field :: "int option \<Rightarrow> fmatch" where
  "network_field network_id = (case network_id of Some n \<Rightarrow> [(''metadata'', MInt n)] | None \<Rightarrow> [])"

definition arp_get_match :: "arp_responder \<Rightarrow> fmatch result" where
  "arp_get_match r =
     bind_result (ipv4_text_to_int (ar_interface_ip r)) (\<lambda>tpa.
       Inr ([(''eth_type'', MInt ETH_TYPE_ARP), (''arp_tpa'', MInt tpa), (''arp_op'', MInt ARP_REQUEST)]
            @ network_field (ar_network_id r)))"

definition arp_get_instructions :: "arp_responder \<Rightarrow> inst list" where
  "arp_get_instructions r =
     (let actions =
            [SetField ''arp_op'' (MInt ARP_REPLY), RegMove ''arp_sha'' ''arp_tha'' 48,
             RegMove ''arp_spa'' ''arp_tpa'' 32, RegMove ''eth_src'' ''eth_dst'' 48,
             SetField ''eth_src'' (mac_value (ar_mac_address r)), SetField ''arp_sha'' (mac_value (ar_mac_address r)),
             SetField ''arp_spa'' (MIp (ar_interface_ip r)), RegMove ''reg6'' ''reg7'' 32];
          need_resubmit = (ar_goto_table_id r \<le> ar_table_id r);
          actions = (case ar_source_port_key r of
              Some key \<Rightarrow> actions @ [SetField ''reg6'' (MInt key)] | None \<Rightarrow> actions);
          actions = (if need_resubmit then actions @ [ResubmitTable (ar_goto_table_id r)] else actions)
      in if need_resubmit then [Actions OFPIT_APPLY_ACTIONS actions]
         else [Actions OFPIT_APPLY_ACTIONS actions, GotoTable (ar_goto_table_id r)])"

definition arp_add ::
  "('o, 'm) flow_conf_scheme \<Rightarrow> arp_responder \<Rightarrow> 's flow_app_scheme \<Rightarrow> 's flow_app_scheme outcome" where
  "arp_add conf r =
     with_value (arp_get_match r) (\<lambda>m.
       send_flow conf (default_args\<lparr>a_table_id := ar_table_id r, a_command := Some OFPFC_ADD,
         a_priority := ar_priority r, a_match := Some m, a_flags := OFPFF_SEND_FLOW_REM,
         a_inst := Some (arp_get_instructions r)\<rparr>))"

definition arp_remove ::
  "('o, 'm) flow_conf_scheme \<Rightarrow> arp_responder \<Rightarrow> 's flow_app_scheme \<Rightarrow> 's flow_app_scheme outcome" where
  "arp_remove conf r =
     with_value (arp_get_match r) (\<lambda>m.
       send_flow conf (default_args\<lparr>a_table_id := ar_table_id r, a_command := Some OFPFC_DELETE_STRICT,
         a_priority := ar_priority r, a_match := Some m\<rparr>))"

section \<open>Neighbour discovery\<close>

record nd_advertiser =
  nd_network_key :: "int option"
  nd_interface_ip :: ipaddr
  nd_mac_address :: "string option"
  nd_table_id :: nat

definition NeighborAdvertiser :: "int option \<Rightarrow> ipaddr \<Rightarrow> string option \<Rightarrow> nd_advertiser" where
  "NeighborAdvertiser network_key interface_ip interface_mac =
     \<lparr>nd_network_key = network_key, nd_interface_ip = interface_ip, nd_mac_address = interface_mac,
      nd_table_id = IPV6_ND_TABLE\<rparr>"

text \<open>The eight numbers of an IPv6 address are the address itself in a match.\<close>

definition ipv6_text_to_short :: "ipaddr \<Rightarrow> mval result" where
  "ipv6_text_to_short ip = (case ip of IPv6 w \<Rightarrow> Inr (MIp ip) | IPv4 w \<Rightarrow> Inl InvalidIPAddressException)"

definition nd_get_match :: "nd_advertiser \<Rightarrow> fmatch result" where
  "nd_get_match r =
     bind_result (ipv6_text_to_short (nd_interface_ip r)) (\<lambda>dst.
       Inr ([(''eth_type'', MInt ETH_TYPE_IPV6), (''ip_proto'', MInt IPPROTO_ICMPV6), (''ipv6_dst'', dst),
             (''icmpv6_type'', MInt ND_NEIGHBOR_SOLICIT)] @ network_field (nd_network_key r)))"

definition nd_get_instructions :: "nd_advertiser \<Rightarrow> inst list" where
  "nd_get_instructions r =
     [Actions OFPIT_APPLY_ACTIONS
        [SetField ''icmpv6_type'' (MInt ND_NEIGHBOR_ADVERT), RegMove ''ipv6_src'' ''ipv6_dst'' 128,
         RegMove ''eth_src'' ''eth_dst'' 48, SetField ''eth_src'' (mac_value (nd_mac_address r)),
         SetField ''ipv6_nd_sll'' (mac_value (nd_mac_address r)), RegMove ''reg6'' ''reg7'' 32],
      GotoTable INGRESS_DISPATCH_TABLE]"

definition nd_add ::
  "('o, 'm) flow_conf_scheme \<Rightarrow> nd_advertiser \<Rightarrow> 's flow_app_scheme \<Rightarrow> 's flow_app_scheme outcome" where
  "nd_add conf r =
     with_value (nd_get_match r) (\<lambda>m.
       send_flow conf (default_args\<lparr>a_table_id := nd_table_id r, a_command := Some OFPFC_ADD,
         a_priority := PRIORITY_MEDIUM, a_match := Some m, a_inst := Some (nd_get_instructions r),
         a_flags := OFPFF_SEND_FLOW_REM\<rparr>))"

definition nd_remove ::
  "('o, 'm) flow_conf_scheme \<Rightarrow> nd_advertiser \<Rightarrow> 's flow_app_scheme \<Rightarrow> 's flow_app_scheme outcome" where
  "nd_remove conf r =
     with_value (nd_get_match r) (\<lambda>m.
       send_flow conf (default_args\<lparr>a_table_id := nd_table_id r, a_command := Some OFPFC_DELETE,
         a_priority := PRIORITY_MEDIUM, a_match := Some m\<rparr>))"

end
