(* ===== verification/L2_App.thy ===== *)
theory L2_App
  imports Responders
begin

text \<open>
  The layer 2 application, \<open>dragonflow/controller/apps/l2.py\<close>: for each port the flows that
  find it by its Ethernet address, the answers to address resolution, and for each network with local
  ports the flows that copy multicast and broadcast packets to them. Parameters are the parser of
  Ethernet addresses of the OpenFlow library and, of the database store, the lookup of a port by its
  id.
\<close>

section \<open>State\<close>

record 'o l2_conf = "'o flow_conf" +
  is_install_l2_responder :: bool
  haddr_to_bin :: "string option \<Rightarrow> int result"

text \<open>What the handlers read of a port; reading the key of its network may fail.\<close>

record l2_port =
  l2_id :: string
  l2_key :: int
  l2_network :: "int result"
  l2_mac :: "string option"
  l2_ips :: "ipaddr list"
  l2_device_owner :: string

record local_network =
  ln_local_ports :: "(string, int) dict"
  ln_remote_ports :: "(string, int) dict"

definition LocalNetwork :: local_network where
  "LocalNetwork = \<lparr>ln_local_ports = [], ln_remote_ports = []\<rparr>"

definition ln_is_empty :: "local_network \<Rightarrow> bool" where
  "ln_is_empty n \<longleftrightarrow> ln_local_ports n = [] \<and> ln_remote_ports n = []"

record l2_app = flow_app +
  l2_networks :: "(int, local_network) dict"

type_synonym l2_store = "string \<Rightarrow> l2_port option"

definition DEVICE_OWNER_ROUTER_INTF :: string where
  "DEVICE_OWNER_ROUTER_INTF = ''network:router_interface''"

section \<open>Start\<close>

definition l2_switch_features_handler :: "'o l2_conf \<Rightarrow> l2_app \<Rightarrow> l2_app outcome" where
  "l2_switch_features_handler conf s =
     and_then (send_goto conf SERVICES_CLASSIFICATION_TABLE PRIORITY_DEFAULT L2_LOOKUP_TABLE None s) (\<lambda>s.
     and_then (send_goto conf ARP_TABLE PRIORITY_DEFAULT L2_LOOKUP_TABLE None s) (\<lambda>s.
     and_then (send_goto conf IPV6_ND_TABLE PRIORITY_DEFAULT L2_LOOKUP_TABLE None s) (\<lambda>s.
     and_then (send_goto conf SERVICES_CLASSIFICATION_TABLE PRIORITY_MEDIUM ARP_TABLE
         (Some [(''eth_type'', MInt 0x0806)]) s) (\<lambda>s.
     and_then (send_goto conf SERVICES_CLASSIFICATION_TABLE PRIORITY_MEDIUM IPV6_ND_TABLE
         (Some [(''eth_type'', MInt ETH_TYPE_IPV6), (''ip_proto'', MInt IPPROTO_ICMPV6)]) s) (\<lambda>s.
     and_then (send_goto conf EGRESS_CONNTRACK_TABLE PRIORITY_DEFAULT SERVICES_CLASSIFICATION_TABLE None s) (\<lambda>s.
     and_then (send_goto conf INGRESS_CONNTRACK_TABLE PRIORITY_DEFAULT INGRESS_DISPATCH_TABLE None s) (\<lambda>s.
       (None, s\<lparr>l2_networks := []\<rparr>))))))))"

section \<open>Address resolution\<close>

definition add_l2_responder :: "'o l2_conf \<Rightarrow> int \<Rightarrow> string option \<Rightarrow> ipaddr \<Rightarrow> l2_app \<Rightarrow> l2_app outcome" where
  "add_l2_responder conf network_id mac ip =
     (if ip_version ip = 4 then arp_add conf (ArpResponder (Some network_id) ip mac)
      else if ip_version ip = 6 then nd_add conf (NeighborAdvertiser (Some network_id) ip mac)
      else (\<lambda>s. (None, s)))"

definition add_l2_responders :: "'o l2_conf \<Rightarrow> l2_port \<Rightarrow> l2_app \<Rightarrow> l2_app outcome" where
  "add_l2_responders conf lport s =
     (if \<not> is_install_l2_responder conf then (None, s)
      else with_value (l2_network lport) (\<lambda>network_id.
        run_each (add_l2_responder conf network_id (l2_mac lport)) (l2_ips lport)) s)"

definition remove_l2_responder :: "'o l2_conf \<Rightarrow> int \<Rightarrow> ipaddr \<Rightarrow> l2_app \<Rightarrow> l2_app outcome" where
  "remove_l2_responder conf network_id ip =
     (if ip_version ip = 4 then arp_remove conf (ArpResponder (Some network_id) ip None)
      else if ip_version ip = 6 then nd_remove conf (NeighborAdvertiser (Some network_id) ip None)
      else (\<lambda>s. (None, s)))"

definition remove_l2_responders :: "'o l2_conf \<Rightarrow> l2_port \<Rightarrow> l2_app \<Rightarrow> l2_app outcome" where
  "remove_l2_responders conf lport s =
     (if \<not> is_install_l2_responder conf then (None, s)
      else with_value (l2_network lport) (\<lambda>network_id.
        run_each (remove_l2_responder conf network_id) (l2_ips lport)) s)"

section \<open>Lookup of a port\<close>

definition unicast_match :: "int \<Rightarrow> int \<Rightarrow> fmatch" where
  "unicast_match network_id dst = [(''metadata'', MInt network_id), (''eth_dst'', MInt dst)]"

definition to_port :: "int \<Rightarrow> nat \<Rightarrow> inst list" where
  "to_port port_key table = [Actions OFPIT_APPLY_ACTIONS [SetField ''reg7'' (MInt port_key)], GotoTable table]"

definition add_dst_classifier_flow_for_port ::
  "'o l2_conf \<Rightarrow> int \<Rightarrow> string option \<Rightarrow> int \<Rightarrow> l2_app \<Rightarrow> l2_app outcome" where
  "add_dst_classifier_flow_for_port conf network_id mac port_key =
     with_value (haddr_to_bin conf mac) (\<lambda>dst.
       send_flow conf (default_args\<lparr>a_inst := Some (to_port port_key EGRESS_TABLE),
         a_table_id := L2_LOOKUP_TABLE, a_priority := PRIORITY_MEDIUM,
         a_match := Some (unicast_match network_id dst)\<rparr>))"

definition delete_dst_classifier_flow_for_port ::
  "'o l2_conf \<Rightarrow> int \<Rightarrow> string option \<Rightarrow> l2_app \<Rightarrow> l2_app outcome" where
  "delete_dst_classifier_flow_for_port conf network_id mac =
     with_value (haddr_to_bin conf mac) (\<lambda>dst.
       send_flow conf (default_args\<lparr>a_table_id := L2_LOOKUP_TABLE, a_command := Some OFPFC_DELETE,
         a_priority := PRIORITY_MEDIUM, a_match := Some (unicast_match network_id dst)\<rparr>))"

definition add_port :: "'o l2_conf \<Rightarrow> l2_port \<Rightarrow> l2_app \<Rightarrow> l2_app outcome" where
  "add_port conf lport =
     with_value (l2_network lport) (\<lambda>network_id s.
       and_then
         (if l2_device_owner lport \<noteq> DEVICE_OWNER_ROUTER_INTF
          then add_dst_classifier_flow_for_port conf network_id (l2_mac lport) (l2_key lport) s
          else (None, s))
         (add_l2_responders conf lport))"

definition remove_port :: "'o l2_conf \<Rightarrow> l2_port \<Rightarrow> l2_app \<Rightarrow> l2_app outcome" where
  "remove_port conf lport =
     with_value (l2_network lport) (\<lambda>network_id s.
       and_then
         (if l2_device_owner lport \<noteq> DEVICE_OWNER_ROUTER_INTF
          then delete_dst_classifier_flow_for_port conf network_id (l2_mac lport) s
          else (None, s))
         (remove_l2_responders conf lport))"

section \<open>Multicast and broadcast\<close>

definition get_multicast_broadcast_match :: "int \<Rightarrow> fmatch" where
  "get_multicast_broadcast_match network_id =
     [(''eth_dst'', MMasked BUM_ADDR BUM_ADDR), (''metadata'', MInt network_id)]"

definition copies :: "nat \<Rightarrow> int list \<Rightarrow> action list" where
  "copies table port_keys = concat (map (\<lambda>key. [SetField ''reg7'' (MInt key), ResubmitTable table]) port_keys)"

definition egress_copies :: "int list \<Rightarrow> inst list" where
  "egress_copies port_keys = [Actions OFPIT_APPLY_ACTIONS (copies EGRESS_TABLE (port_keys @ [0]))]"

definition ingress_copies :: "int list \<Rightarrow> inst list" where
  "ingress_copies port_keys = [Actions OFPIT_APPLY_ACTIONS (copies INGRESS_CONNTRACK_TABLE port_keys)]"

definition send_multicast_broadcast_flows ::
  "'o l2_conf \<Rightarrow> flow_command \<Rightarrow> int \<Rightarrow> int list \<Rightarrow> l2_app \<Rightarrow> l2_app outcome" where
  "send_multicast_broadcast_flows conf command network_id port_keys s =
     and_then
       (send_flow conf (default_args\<lparr>a_inst := Some (egress_copies port_keys), a_table_id := L2_LOOKUP_TABLE,
          a_command := Some command, a_priority := PRIORITY_MEDIUM,
          a_match := Some (get_multicast_broadcast_match network_id)\<rparr>) s)
       (send_flow conf (default_args\<lparr>a_inst := Some (ingress_copies port_keys),
          a_table_id := INGRESS_DESTINATION_PORT_LOOKUP_TABLE, a_command := Some command,
          a_priority := PRIORITY_HIGH, a_match := Some (get_multicast_broadcast_match network_id)\<rparr>))"

definition del_multicast_broadcast_flows_for_local :: "'o l2_conf \<Rightarrow> int \<Rightarrow> l2_app \<Rightarrow> l2_app outcome" where
  "del_multicast_broadcast_flows_for_local conf network_id s =
     and_then
       (send_flow conf (default_args\<lparr>a_table_id := L2_LOOKUP_TABLE, a_command := Some OFPFC_DELETE,
          a_priority := PRIORITY_MEDIUM, a_match := Some (get_multicast_broadcast_match network_id)\<rparr>) s)
       (send_flow conf (default_args\<lparr>a_table_id := INGRESS_DESTINATION_PORT_LOOKUP_TABLE,
          a_command := Some OFPFC_DELETE, a_priority := PRIORITY_HIGH,
          a_match := Some (get_multicast_broadcast_match network_id)\<rparr>))"

definition update_multicast_broadcast_flows_for_local ::
  "'o l2_conf \<Rightarrow> l2_store \<Rightarrow> (string, int) dict \<Rightarrow> int \<Rightarrow> l2_app \<Rightarrow> l2_app outcome" where
  "update_multicast_broadcast_flows_for_local conf store local_ports network_id =
     send_multicast_broadcast_flows conf OFPFC_MODIFY network_id
       (map snd (filter (\<lambda>(i, key). store i \<noteq> None) local_ports))"

definition del_multicast_broadcast_handling_for_local ::
  "'o l2_conf \<Rightarrow> l2_store \<Rightarrow> string \<Rightarrow> int \<Rightarrow> l2_app \<Rightarrow> l2_app outcome" where
  "del_multicast_broadcast_handling_for_local conf store lport_id network_id s =
     (case map_of (l2_networks s) network_id of
        None \<Rightarrow> (None, s)
      | Some network \<Rightarrow>
          if lport_id \<notin> set (dict_keys (ln_local_ports network)) then (None, s)
          else
            let network = network\<lparr>ln_local_ports := AList.delete lport_id (ln_local_ports network)\<rparr>;
                s = s\<lparr>l2_networks := AList.update network_id network (l2_networks s)\<rparr>
            in if ln_local_ports network = [] then
                 and_then (del_multicast_broadcast_flows_for_local conf network_id s) (\<lambda>s.
                   (None, if ln_is_empty network
                          then s\<lparr>l2_networks := AList.delete network_id (l2_networks s)\<rparr> else s))
               else update_multicast_broadcast_flows_for_local conf store (ln_local_ports network) network_id s)"

definition add_multicast_broadcast_handling_for_local_port ::
  "'o l2_conf \<Rightarrow> l2_store \<Rightarrow> string \<Rightarrow> int \<Rightarrow> int \<Rightarrow> l2_app \<Rightarrow> l2_app outcome" where
  "add_multicast_broadcast_handling_for_local_port conf store lport_id port_key network_id s =
     (let local_network = (case map_of (l2_networks s) network_id of Some n \<Rightarrow> n | None \<Rightarrow> LocalNetwork);
          command = (if ln_local_ports local_network = [] then OFPFC_ADD else OFPFC_MODIFY);
          local_ports = AList.update lport_id port_key (ln_local_ports local_network);
          others = map snd (filter (\<lambda>(i, key). case store i of None \<Rightarrow> False | Some p \<Rightarrow> lport_id \<noteq> l2_id p) local_ports)
      in send_multicast_broadcast_flows conf command network_id (port_key # others)
           (s\<lparr>l2_networks := AList.update network_id (local_network\<lparr>ln_local_ports := local_ports\<rparr>) (l2_networks s)\<rparr>))"

section \<open>Local ports\<close>

definition add_local_port_dispatch :: "'o l2_conf \<Rightarrow> l2_store \<Rightarrow> l2_port \<Rightarrow> l2_app \<Rightarrow> l2_app outcome" where
  "add_local_port_dispatch conf store lport =
     with_value (l2_network lport) (\<lambda>network_id.
     with_value (haddr_to_bin conf (l2_mac lport)) (\<lambda>dst s.
       and_then
         (send_flow conf (default_args\<lparr>a_inst := Some (to_port (l2_key lport) INGRESS_CONNTRACK_TABLE),
            a_table_id := INGRESS_DESTINATION_PORT_LOOKUP_TABLE, a_priority := PRIORITY_HIGH,
            a_match := Some (unicast_match network_id dst)\<rparr>) s) (\<lambda>s.
       and_then
         (send_flow conf (default_args\<lparr>a_inst := Some [GotoTable INGRESS_CONNTRACK_TABLE],
            a_table_id := EGRESS_TABLE, a_priority := PRIORITY_MEDIUM,
            a_match := Some [(''reg7'', MInt (l2_key lport))]\<rparr>) s)
         (add_multicast_broadcast_handling_for_local_port conf store (l2_id lport) (l2_key lport) network_id))))"

definition remove_local_port_pipeline_interface ::
  "'o l2_conf \<Rightarrow> l2_store \<Rightarrow> l2_port \<Rightarrow> l2_app \<Rightarrow> l2_app outcome" where
  "remove_local_port_pipeline_interface conf store lport =
     with_value (l2_network lport) (\<lambda>network_id s.
       and_then
         (send_flow conf (default_args\<lparr>a_table_id := EGRESS_TABLE, a_command := Some OFPFC_DELETE,
            a_priority := PRIORITY_MEDIUM, a_match := Some [(''reg7'', MInt (l2_key lport))]\<rparr>) s)
         (with_value (haddr_to_bin conf (l2_mac lport)) (\<lambda>dst s.
            and_then
              (send_flow conf (default_args\<lparr>a_table_id := INGRESS_DESTINATION_PORT_LOOKUP_TABLE,
                 a_command := Some OFPFC_DELETE, a_priority := PRIORITY_HIGH,
                 a_match := Some (unicast_match network_id dst)\<rparr>) s)
              (del_multicast_broadcast_handling_for_local conf store (l2_id lport) network_id))))"

definition l2_add_local_port :: "'o l2_conf \<Rightarrow> l2_store \<Rightarrow> l2_port \<Rightarrow> l2_app \<Rightarrow> l2_app outcome" where
  "l2_add_local_port conf store lport s = and_then (add_port conf lport s) (add_local_port_dispatch conf store lport)"

definition l2_remove_local_port :: "'o l2_conf \<Rightarrow> l2_store \<Rightarrow> l2_port \<Rightarrow> l2_app \<Rightarrow> l2_app outcome" where
  "l2_remove_local_port conf store lport s =
     and_then (remove_port conf lport s) (remove_local_port_pipeline_interface conf store lport)"

definition l2_add_remote_port :: "'o l2_conf \<Rightarrow> l2_port \<Rightarrow> l2_app \<Rightarrow> l2_app outcome" where
  "l2_add_remote_port = add_port"

definition l2_remove_remote_port :: "'o l2_conf \<Rightarrow> l2_port \<Rightarrow> l2_app \<Rightarrow> l2_app outcome" where
  "l2_remove_remote_port = remove_port"

definition remove_logical_switch :: "'o l2_conf \<Rightarrow> int \<Rightarrow> l2_app \<Rightarrow> l2_app outcome" where
  "remove_logical_switch conf network_id =
     send_flow conf (default_args\<lparr>a_table_id := L2_LOOKUP_TABLE, a_command := Some OFPFC_DELETE,
       a_priority := PRIORITY_HIGH, a_match := Some (get_multicast_broadcast_match network_id)\<rparr>)"

end
