(* ===== verification/L2_Flows.thy ===== *)
theory L2_Flows
  imports L2_App "HOL-Library.Multiset"
begin

text \<open>
  Which flows the layer 2 application keeps in the switch: after any sequence of bind and unbind
  events they are those of the ports bound then.
\<close>

section \<open>The flows\<close>

datatype l2_flow =
    Unicast int int
  | InUnicast int int
  | EgressTo int
  | ArpFlow int "32 word"
  | NdpFlow int "128 word"
  | Flood int
  | InFlood int
  | DefaultOf nat
  | ArpTraffic
  | NdpTraffic

fun l2_shape :: "l2_flow flow_shape" where
  "l2_shape (Unicast n dst) = (L2_LOOKUP_TABLE, PRIORITY_MEDIUM, unicast_match n dst)"
| "l2_shape (InUnicast n dst) = (INGRESS_DESTINATION_PORT_LOOKUP_TABLE, PRIORITY_HIGH, unicast_match n dst)"
| "l2_shape (EgressTo k) = (EGRESS_TABLE, PRIORITY_MEDIUM, [(''reg7'', MInt k)])"
| "l2_shape (ArpFlow n w) =
     (ARP_TABLE, PRIORITY_MEDIUM, [(''eth_type'', MInt ETH_TYPE_ARP), (''arp_tpa'', MInt (uint w)),
        (''arp_op'', MInt ARP_REQUEST), (''metadata'', MInt n)])"
| "l2_shape (NdpFlow n w) =
     (IPV6_ND_TABLE, PRIORITY_MEDIUM, [(''eth_type'', MInt ETH_TYPE_IPV6), (''ip_proto'', MInt IPPROTO_ICMPV6),
        (''ipv6_dst'', MIp (IPv6 w)), (''icmpv6_type'', MInt ND_NEIGHBOR_SOLICIT), (''metadata'', MInt n)])"
| "l2_shape (Flood n) = (L2_LOOKUP_TABLE, PRIORITY_MEDIUM, get_multicast_broadcast_match n)"
| "l2_shape (InFlood n) =
     (INGRESS_DESTINATION_PORT_LOOKUP_TABLE, PRIORITY_HIGH, get_multicast_broadcast_match n)"
| "l2_shape (DefaultOf table) = (table, PRIORITY_DEFAULT, [])"
| "l2_shape ArpTraffic = (SERVICES_CLASSIFICATION_TABLE, PRIORITY_MEDIUM, [(''eth_type'', MInt 0x0806)])"
| "l2_shape NdpTraffic =
     (SERVICES_CLASSIFICATION_TABLE, PRIORITY_MEDIUM,
      [(''eth_type'', MInt ETH_TYPE_IPV6), (''ip_proto'', MInt IPPROTO_ICMPV6)])"

text \<open>The address of a port is a unicast address: it does not have the group bit.\<close>

fun l2_fam :: "l2_flow \<Rightarrow> bool" where
  "l2_fam (Unicast n dst) \<longleftrightarrow> dst AND BUM_ADDR = 0"
| "l2_fam (InUnicast n dst) \<longleftrightarrow> dst AND BUM_ADDR = 0"
| "l2_fam (DefaultOf table) \<longleftrightarrow>
     table \<in> {SERVICES_CLASSIFICATION_TABLE, ARP_TABLE, IPV6_ND_TABLE, EGRESS_CONNTRACK_TABLE, INGRESS_CONNTRACK_TABLE}"
| "l2_fam f \<longleftrightarrow> True"

fun l2_own :: "l2_flow \<Rightarrow> bool" where
  "l2_own (DefaultOf table) \<longleftrightarrow> False"
| "l2_own ArpTraffic \<longleftrightarrow> False"
| "l2_own NdpTraffic \<longleftrightarrow> False"
| "l2_own f \<longleftrightarrow> True"

text \<open>A flow can be read off its table, priority and match.\<close>

definition l2_unshape :: "flow_key \<Rightarrow> l2_flow" where
  "l2_unshape key =
     (case key of (table, priority, m) \<Rightarrow>
       let n = match_int m ''metadata''
       in if priority = PRIORITY_DEFAULT then DefaultOf table
          else if table = EGRESS_TABLE then EgressTo (match_int m ''reg7'')
          else if table = ARP_TABLE then ArpFlow n (of_int (match_int m ''arp_tpa''))
          else if table = IPV6_ND_TABLE then
            NdpFlow n (case m ''ipv6_dst'' of Some (MIp (IPv6 w)) \<Rightarrow> w | _ \<Rightarrow> 0)
          else if table = SERVICES_CLASSIFICATION_TABLE then (if m ''ip_proto'' = None then ArpTraffic else NdpTraffic)
          else if table = L2_LOOKUP_TABLE then
            (case m ''eth_dst'' of Some (MInt dst) \<Rightarrow> Unicast n dst | _ \<Rightarrow> Flood n)
          else (case m ''eth_dst'' of Some (MInt dst) \<Rightarrow> InUnicast n dst | _ \<Rightarrow> InFlood n))"

lemma l2_unshape_key: "l2_unshape (shape_key l2_shape f) = f"
  by (cases f) (simp_all add: l2_unshape_def shape_key_def match_int_def table_defs PRIORITY_DEFAULT_def
      PRIORITY_MEDIUM_def PRIORITY_HIGH_def unicast_match_def get_multicast_broadcast_match_def)

lemma l2_apart:
  assumes "l2_own f" "l2_fam g" "fst (l2_shape f) = fst (l2_shape g)"
    "match_covers (snd (snd (l2_shape f))) (map_of (snd (snd (l2_shape g))))"
  shows "f = g"
  using assms
  by (cases f; cases g) (simp_all add: match_covers_def unicast_match_def get_multicast_broadcast_match_def table_defs BUM_ADDR_def
      word_uint_eq_iff [symmetric])

interpretation l2: flow_family l2_shape l2_fam l2_own
proof
  fix f g
  show "fst (l2_shape f) \<noteq> OFPTT_ALL" if "l2_own f" using that by (cases f) (simp_all add: table_defs OFPTT_ALL_def)
  show "wf_dict (snd (snd (l2_shape f)))"
    by (cases f) (simp_all add: unicast_match_def get_multicast_broadcast_match_def)
  show "f = g" if "shape_key l2_shape f = shape_key l2_shape g" using that l2_unshape_key by metis
  show "f = g" if "l2_own f" "l2_fam g" "fst (l2_shape f) = fst (l2_shape g)"
    "match_covers (snd (snd (l2_shape f))) (map_of (snd (snd (l2_shape g))))"
    using that by (rule l2_apart)
qed

section \<open>Ports and their flows\<close>

text \<open>A port whose network and address can be read, the address being a unicast one.\<close>

record l2_bound =
  lb_id :: string
  lb_key :: int
  lb_net :: int
  lb_addr :: int
  lb_mac :: "string option"
  lb_ips :: "ipaddr list"
  lb_routed :: bool

definition resolve_port :: "'o l2_conf \<Rightarrow> l2_port \<Rightarrow> l2_bound option" where
  "resolve_port conf p =
     (case (l2_network p, haddr_to_bin conf (l2_mac p)) of
        (Inr n, Inr dst) \<Rightarrow>
          if dst AND BUM_ADDR = 0 then
            Some \<lparr>lb_id = l2_id p, lb_key = l2_key p, lb_net = n, lb_addr = dst, lb_mac = l2_mac p,
              lb_ips = l2_ips p, lb_routed = (l2_device_owner p = DEVICE_OWNER_ROUTER_INTF)\<rparr>
          else None
      | _ \<Rightarrow> None)"

definition responder_flow :: "int \<Rightarrow> string option \<Rightarrow> ipaddr \<Rightarrow> l2_flow \<times> inst list" where
  "responder_flow n mac ip =
     (case ip of
        IPv4 w \<Rightarrow> (ArpFlow n w, arp_get_instructions (ArpResponder (Some n) ip mac))
      | IPv6 w \<Rightarrow> (NdpFlow n w, nd_get_instructions (NeighborAdvertiser (Some n) ip mac)))"

definition lookup_flows :: "'o l2_conf \<Rightarrow> l2_bound \<Rightarrow> (l2_flow, inst list) dict" where
  "lookup_flows conf b =
     (if lb_routed b then [] else [(Unicast (lb_net b) (lb_addr b), to_port (lb_key b) EGRESS_TABLE)]) @
     (if is_install_l2_responder conf then map (responder_flow (lb_net b) (lb_mac b)) (lb_ips b) else [])"

definition dispatch_flows :: "l2_bound \<Rightarrow> (l2_flow, inst list) dict" where
  "dispatch_flows b =
     [(InUnicast (lb_net b) (lb_addr b), to_port (lb_key b) INGRESS_CONNTRACK_TABLE),
      (EgressTo (lb_key b), [GotoTable INGRESS_CONNTRACK_TABLE])]"

text \<open>The ports bound so far, each with whether it is local.\<close>

type_synonym l2_ports = "(bool \<times> l2_bound) list"

definition port_flow_dict :: "'o l2_conf \<Rightarrow> bool \<times> l2_bound \<Rightarrow> (l2_flow, inst list) dict" where
  "port_flow_dict conf p = lookup_flows conf (snd p) @ (if fst p then dispatch_flows (snd p) else [])"

definition ports_flow_dict :: "'o l2_conf \<Rightarrow> l2_ports \<Rightarrow> (l2_flow, inst list) dict" where
  "ports_flow_dict conf P = concat (map (port_flow_dict conf) P)"

definition locals_of :: "l2_ports \<Rightarrow> int \<Rightarrow> l2_bound list" where
  "locals_of P n = map snd (filter (\<lambda>(loc, b). loc \<and> lb_net b = n) P)"

text \<open>Ports have ids and keys of their own and, in a network, addresses of their own.\<close>

definition own_names :: "bool \<times> l2_bound \<Rightarrow> bool \<times> l2_bound \<Rightarrow> bool" where
  "own_names p q \<longleftrightarrow>
     lb_id (snd p) \<noteq> lb_id (snd q) \<and> lb_key (snd p) \<noteq> lb_key (snd q) \<and>
     (lb_net (snd p) = lb_net (snd q) \<longrightarrow>
        lb_addr (snd p) \<noteq> lb_addr (snd q) \<and> set (lb_ips (snd p)) \<inter> set (lb_ips (snd q)) = {})"

definition l2_ports_ok :: "l2_ports \<Rightarrow> bool" where
  "l2_ports_ok P \<longleftrightarrow> sorted_wrt own_names P \<and> list_all (\<lambda>p. distinct (lb_ips (snd p)) \<and> lb_addr (snd p) AND BUM_ADDR = 0) P"

lemma responder_flow_fst:
  "fst (responder_flow n mac ip) = (case ip of IPv4 w \<Rightarrow> ArpFlow n w | IPv6 w \<Rightarrow> NdpFlow n w)"
  by (cases ip) (simp_all add: responder_flow_def)

lemma responder_keys:
  "f \<in> set (dict_keys (map (responder_flow n mac) ips)) \<longleftrightarrow>
    (case f of
       ArpFlow m w \<Rightarrow> m = n \<and> IPv4 w \<in> set ips
     | NdpFlow m w \<Rightarrow> m = n \<and> IPv6 w \<in> set ips
     | _ \<Rightarrow> False)"
  by (induction ips) (auto simp: responder_flow_fst split: l2_flow.split ipaddr.split)

lemma port_flow_dict_keys:
  "f \<in> set (dict_keys (port_flow_dict conf p)) \<longleftrightarrow>
    (case f of
       Unicast n dst \<Rightarrow> n = lb_net (snd p) \<and> dst = lb_addr (snd p) \<and> \<not> lb_routed (snd p)
     | InUnicast n dst \<Rightarrow> fst p \<and> n = lb_net (snd p) \<and> dst = lb_addr (snd p)
     | EgressTo k \<Rightarrow> fst p \<and> k = lb_key (snd p)
     | ArpFlow n w \<Rightarrow> is_install_l2_responder conf \<and> n = lb_net (snd p) \<and> IPv4 w \<in> set (lb_ips (snd p))
     | NdpFlow n w \<Rightarrow> is_install_l2_responder conf \<and> n = lb_net (snd p) \<and> IPv6 w \<in> set (lb_ips (snd p))
     | _ \<Rightarrow> False)"
proof -
  have "f \<in> set (dict_keys (port_flow_dict conf p)) \<longleftrightarrow>
      \<not> lb_routed (snd p) \<and> f = Unicast (lb_net (snd p)) (lb_addr (snd p)) \<or>
      is_install_l2_responder conf \<and>
        f \<in> set (dict_keys (map (responder_flow (lb_net (snd p)) (lb_mac (snd p))) (lb_ips (snd p)))) \<or>
      fst p \<and> (f = InUnicast (lb_net (snd p)) (lb_addr (snd p)) \<or> f = EgressTo (lb_key (snd p)))"
    by (cases "lb_routed (snd p)"; cases "fst p"; cases "is_install_l2_responder conf")
      (auto simp: port_flow_dict_def lookup_flows_def dispatch_flows_def)
  then show ?thesis unfolding responder_keys by (cases f) auto
qed

lemma wf_port_flow_dict:
  assumes "distinct (lb_ips (snd p))"
  shows "wf_dict (port_flow_dict conf p)"
proof -
  define r where "r = map (responder_flow (lb_net (snd p)) (lb_mac (snd p))) (lb_ips (snd p))"
  have "wf_dict r"
    using assms by (auto simp: r_def distinct_map inj_on_def responder_flow_fst split: ipaddr.splits)
  moreover have "Unicast n dst \<notin> set (dict_keys r)" "InUnicast n dst \<notin> set (dict_keys r)" "EgressTo k \<notin> set (dict_keys r)"
    for n dst k unfolding r_def responder_keys by simp_all
  ultimately show ?thesis
    unfolding port_flow_dict_def lookup_flows_def dispatch_flows_def r_def [symmetric]
    by (cases "lb_routed (snd p)"; cases "fst p"; cases "is_install_l2_responder conf") auto
qed

lemma own_names_disjoint:
  "own_names p q \<Longrightarrow> set (dict_keys (port_flow_dict conf p)) \<inter> set (dict_keys (port_flow_dict conf q)) = {}"
  by (auto simp: port_flow_dict_keys own_names_def simp del: set_map split: l2_flow.splits)

lemma wf_concat:
  assumes "sorted_wrt (\<lambda>x y. set (dict_keys (g x)) \<inter> set (dict_keys (g y)) = {}) xs"
    and "list_all (\<lambda>x. wf_dict (g x)) xs"
  shows "wf_dict (concat (map g xs))"
  using assms
proof (induction xs)
  case Nil
  then show ?case by simp
next
  case (Cons x xs)
  then show ?case by (simp add: map_concat) blast
qed

lemma wf_ports_flow_dict:
  assumes "l2_ports_ok P"
  shows "wf_dict (ports_flow_dict conf P)"
proof -
  have "sorted_wrt (\<lambda>p q. set (dict_keys (port_flow_dict conf p)) \<inter> set (dict_keys (port_flow_dict conf q)) = {}) P"
  proof (rule sorted_wrt_mono_rel [of P own_names])
    show "sorted_wrt own_names P" using assms by (simp add: l2_ports_ok_def)
  qed (rule own_names_disjoint)
  then show ?thesis unfolding ports_flow_dict_def
    using assms wf_port_flow_dict by (intro wf_concat) (auto simp: l2_ports_ok_def list_all_iff)
qed

lemma map_of_middle:
  assumes "wf_dict (A @ D @ B)"
  shows "map_of (A @ D @ B) = map_of (A @ B) ++ map_of D"
    and "map_of (A @ B) = map_of (A @ D @ B) |` (- set (dict_keys D))"
proof -
  have "dom (map_of A) \<inter> dom (map_of D) = {}" "dom (map_of B) \<inter> dom (map_of D) = {}"
    using assms by (auto simp: dom_map_of_conv_image_fst)
  then have A: "map_of A f = None \<or> map_of D f = None" and B: "map_of B f = None \<or> map_of D f = None" for f
    by blast+
  show "map_of (A @ D @ B) = map_of (A @ B) ++ map_of D"
  proof
    show "map_of (A @ D @ B) f = (map_of (A @ B) ++ map_of D) f" for f
      using A [of f] B [of f] by (auto simp: map_add_def split: option.splits)
  qed
  show "map_of (A @ B) = map_of (A @ D @ B) |` (- set (dict_keys D))"
  proof
    show "map_of (A @ B) f = (map_of (A @ D @ B) |` (- set (dict_keys D))) f" for f
      using A [of f] B [of f] by (cases "map_of D f")
        (auto simp: map_add_def restrict_map_def map_of_None_keys [symmetric] simp del: set_map split: option.splits)
  qed
qed

lemma ports_flow_dict_simps:
  "ports_flow_dict conf [] = []"
  "ports_flow_dict conf (P @ Q) = ports_flow_dict conf P @ ports_flow_dict conf Q"
  "ports_flow_dict conf (p # P) = port_flow_dict conf p @ ports_flow_dict conf P"
  by (simp_all add: ports_flow_dict_def)

section \<open>The table of the application\<close>

fun other_flows :: "(int \<Rightarrow> int list) \<Rightarrow> l2_flow \<rightharpoonup> inst list" where
  "other_flows fl (Flood n) = (if fl n = [] then None else Some (egress_copies (fl n)))"
| "other_flows fl (InFlood n) = (if fl n = [] then None else Some (ingress_copies (fl n)))"
| "other_flows fl (DefaultOf table) =
     (if table \<in> {SERVICES_CLASSIFICATION_TABLE, ARP_TABLE, IPV6_ND_TABLE} then Some (goto_insts table L2_LOOKUP_TABLE)
      else if table = EGRESS_CONNTRACK_TABLE then Some (goto_insts table SERVICES_CLASSIFICATION_TABLE)
      else if table = INGRESS_CONNTRACK_TABLE then Some (goto_insts table INGRESS_DISPATCH_TABLE)
      else None)"
| "other_flows fl ArpTraffic = Some (goto_insts SERVICES_CLASSIFICATION_TABLE ARP_TABLE)"
| "other_flows fl NdpTraffic = Some (goto_insts SERVICES_CLASSIFICATION_TABLE IPV6_ND_TABLE)"
| "other_flows fl f = None"

definition l2_table :: "'o l2_conf \<Rightarrow> l2_ports \<Rightarrow> (int \<Rightarrow> int list) \<Rightarrow> l2_flow \<rightharpoonup> inst list" where
  "l2_table conf P fl = other_flows fl ++ map_of (ports_flow_dict conf P)"

lemma l2_table_add:
  assumes "l2_ports_ok (P @ [p])"
  shows "l2_table conf P fl ++ map_of (port_flow_dict conf p) = l2_table conf (P @ [p]) fl"
proof -
  have "wf_dict (ports_flow_dict conf P @ port_flow_dict conf p @ [])"
    using wf_ports_flow_dict [OF assms, of conf] by (simp add: ports_flow_dict_simps)
  from map_of_middle(1) [OF this] show ?thesis by (simp add: l2_table_def ports_flow_dict_simps)
qed

lemma l2_table_remove:
  assumes "l2_ports_ok P" "p \<in> set P"
  shows "l2_table conf P fl |` (- set (dict_keys (port_flow_dict conf p))) = l2_table conf (remove1 p P) fl"
proof -
  from assms(2) obtain A B where P: "P = A @ p # B" "p \<notin> set A" by (meson split_list_first)
  then have r: "remove1 p P = A @ B" by (simp add: remove1_append)
  have "wf_dict (ports_flow_dict conf A @ port_flow_dict conf p @ ports_flow_dict conf B)"
    using wf_ports_flow_dict [OF assms(1), of conf] P(1) by (simp add: ports_flow_dict_simps)
  from map_of_middle(2) [OF this]
  have m: "map_of (ports_flow_dict conf (A @ B)) = map_of (ports_flow_dict conf P) |` (- set (dict_keys (port_flow_dict conf p)))"
    unfolding P(1) ports_flow_dict_simps .
  have o: "other_flows fl f = None" if "f \<in> set (dict_keys (port_flow_dict conf p))" for f
    using that unfolding port_flow_dict_keys by (cases f) auto
  show ?thesis
  proof
    show "(l2_table conf P fl |` (- set (dict_keys (port_flow_dict conf p)))) f = l2_table conf (remove1 p P) fl f" for f
      unfolding l2_table_def r m using o [of f] by (simp add: restrict_map_def map_add_def del: set_map)
  qed
qed

section \<open>What the handlers send\<close>

abbreviation l2_sends :: "int \<Rightarrow> int \<Rightarrow> (l2_app \<Rightarrow> l2_app outcome) \<Rightarrow> l2_flow flow_op list \<Rightarrow> bool" where
  "l2_sends \<equiv> sends_ops l2_shape l2_fam"

lemmas l2_message_simps = names_flow_def targets_flow_def flow_message_def fm_fields_def or_default_def
  default_args_def plain_args_def

lemma resolve_portD:
  assumes "resolve_port conf p = Some b"
  shows "l2_network p = Inr (lb_net b)" "haddr_to_bin conf (l2_mac p) = Inr (lb_addr b)"
    "lb_addr b AND BUM_ADDR = 0" "lb_id b = l2_id p" "lb_key b = l2_key p" "lb_mac b = l2_mac p" "lb_ips b = l2_ips p"
    "lb_routed b \<longleftrightarrow> l2_device_owner p = DEVICE_OWNER_ROUTER_INTF"
  using assms by (auto simp: resolve_port_def split: sum.splits if_splits)

lemma ip_version_cases: "ip_version ip = (case ip of IPv4 w \<Rightarrow> 4 | IPv6 w \<Rightarrow> 6)"
  by (simp add: ip_version_def)

lemma arp_match_flow: "arp_get_match (ArpResponder (Some n) (IPv4 w) mac) = Inr (snd (snd (l2_shape (ArpFlow n w))))"
  by (simp add: arp_get_match_def ArpResponder_def ipv4_text_to_int_def network_field_def bind_result_def)

lemma nd_match_flow: "nd_get_match (NeighborAdvertiser (Some n) (IPv6 w) mac) = Inr (snd (snd (l2_shape (NdpFlow n w))))"
  by (simp add: nd_get_match_def NeighborAdvertiser_def ipv6_text_to_short_def network_field_def bind_result_def)

lemmas responder_simps = add_l2_responder_def remove_l2_responder_def ip_version_def responder_flow_def
  arp_add_def nd_add_def arp_remove_def nd_remove_def

lemma add_responder_sends:
  assumes "stamps conf ck cm"
  shows "l2_sends ck cm (add_l2_responder conf n mac ip) (put_all [responder_flow n mac ip])"
  using assms
  by (cases ip; simp add: responder_simps arp_match_flow nd_match_flow; intro l2.sends_flow)
    (simp_all add: l2_message_simps ArpResponder_def NeighborAdvertiser_def)

lemma remove_responder_sends:
  assumes "stamps conf ck cm"
  shows "l2_sends ck cm (remove_l2_responder conf n ip) (del_all [responder_flow n mac ip])"
  using assms
  by (cases ip; simp add: responder_simps arp_match_flow nd_match_flow; intro l2.sends_flow)
    (simp_all add: l2_message_simps ArpResponder_def NeighborAdvertiser_def)

lemma put_all_concat: "concat (map (\<lambda>x. put_all [f x]) xs) = put_all (map f xs)"
  by (induction xs) (simp_all add: put_all_def)

lemma del_all_concat: "concat (map (\<lambda>x. del_all [f x]) xs) = del_all (map f xs)"
  by (induction xs) (simp_all add: del_all_def)

lemma add_port_sends:
  assumes "stamps conf ck cm" "resolve_port conf p = Some b"
  shows "l2_sends ck cm (add_port conf p) (put_all (lookup_flows conf b))"
proof -
  note b = resolve_portD [OF assms(2)]
  have u: "l2_sends ck cm (add_dst_classifier_flow_for_port conf (lb_net b) (l2_mac p) (l2_key p))
      (put_all [(Unicast (lb_net b) (lb_addr b), to_port (lb_key b) EGRESS_TABLE)])"
    unfolding add_dst_classifier_flow_for_port_def b(2) with_value_Inr put_all_simps
    using assms(1) b(3,5) by (intro l2.sends_flow) (simp_all add: l2_message_simps)
  have "l2_sends ck cm (run_each (add_l2_responder conf (lb_net b) (l2_mac p)) (l2_ips p))
      (put_all (map (responder_flow (lb_net b) (lb_mac b)) (lb_ips b)))"
    unfolding put_all_concat [symmetric] b(6,7)
    by (intro sends_each add_responder_sends assms(1))
  then have "l2_sends ck cm (add_l2_responders conf p)
      (put_all (if is_install_l2_responder conf then map (responder_flow (lb_net b) (lb_mac b)) (lb_ips b) else []))"
    by (simp add: add_l2_responders_def b(1) sends_ops_def)
  then have "l2_sends ck cm (\<lambda>s. and_then
        ((if l2_device_owner p \<noteq> DEVICE_OWNER_ROUTER_INTF
          then add_dst_classifier_flow_for_port conf (lb_net b) (l2_mac p) (l2_key p) else (\<lambda>s. (None, s))) s)
        (add_l2_responders conf p)) (put_all (lookup_flows conf b))"
    unfolding lookup_flows_def put_all_simps using u b(8) by (intro sends_then) auto
  then show ?thesis by (simp add: add_port_def b(1) if_distrib [of "\<lambda>f. f _"])
qed

lemma remove_port_sends:
  assumes "stamps conf ck cm" "resolve_port conf p = Some b"
  shows "l2_sends ck cm (remove_port conf p) (del_all (lookup_flows conf b))"
proof -
  note b = resolve_portD [OF assms(2)]
  have u: "l2_sends ck cm (delete_dst_classifier_flow_for_port conf (lb_net b) (l2_mac p))
      (del_all [(Unicast (lb_net b) (lb_addr b), to_port (lb_key b) EGRESS_TABLE)])"
    unfolding delete_dst_classifier_flow_for_port_def b(2) with_value_Inr del_all_simps
    using assms(1) b(3,5) by (intro l2.sends_flow) (simp_all add: l2_message_simps)
  have "l2_sends ck cm (run_each (remove_l2_responder conf (lb_net b)) (l2_ips p))
      (del_all (map (responder_flow (lb_net b) (lb_mac b)) (lb_ips b)))"
    unfolding del_all_concat [symmetric] b(6,7)
    by (intro sends_each remove_responder_sends assms(1))
  then have "l2_sends ck cm (remove_l2_responders conf p)
      (del_all (if is_install_l2_responder conf then map (responder_flow (lb_net b) (lb_mac b)) (lb_ips b) else []))"
    by (simp add: remove_l2_responders_def b(1) sends_ops_def)
  then have "l2_sends ck cm (\<lambda>s. and_then
        ((if l2_device_owner p \<noteq> DEVICE_OWNER_ROUTER_INTF
          then delete_dst_classifier_flow_for_port conf (lb_net b) (l2_mac p) else (\<lambda>s. (None, s))) s)
        (remove_l2_responders conf p)) (del_all (lookup_flows conf b))"
    unfolding lookup_flows_def del_all_simps using u b(8) by (intro sends_then) auto
  then show ?thesis by (simp add: remove_port_def b(1) if_distrib [of "\<lambda>f. f _"])
qed

lemma flood_add_sends:
  assumes "stamps conf ck cm"
  shows "l2_sends ck cm (send_multicast_broadcast_flows conf OFPFC_ADD n keys)
    ([Put (Flood n) (egress_copies keys)] @ [Put (InFlood n) (ingress_copies keys)])"
  unfolding send_multicast_broadcast_flows_def using assms
  by (intro sends_then l2.sends_flow) (simp_all add: l2_message_simps)

lemma flood_modify_sends:
  assumes "stamps conf ck cm"
  shows "l2_sends ck cm (send_multicast_broadcast_flows conf OFPFC_MODIFY n keys)
    ([Mod (Flood n) (egress_copies keys)] @ [Mod (InFlood n) (ingress_copies keys)])"
  unfolding send_multicast_broadcast_flows_def using assms
  by (intro sends_then l2.sends_flow) (simp_all add: l2_message_simps)

lemma flood_delete_sends:
  assumes "stamps conf ck cm"
  shows "l2_sends ck cm (del_multicast_broadcast_flows_for_local conf n) ([Del (Flood n)] @ [Del (InFlood n)])"
  unfolding del_multicast_broadcast_flows_for_local_def using assms
  by (intro sends_then l2.sends_flow) (simp_all add: l2_message_simps)

lemma no_flood_in_ports: "map_of (ports_flow_dict conf P) (Flood n) = None" "map_of (ports_flow_dict conf P) (InFlood n) = None"
proof -
  have "Flood n \<notin> set (dict_keys (ports_flow_dict conf P)) \<and> InFlood n \<notin> set (dict_keys (ports_flow_dict conf P))"
  proof (induction P)
    case Nil
    then show ?case by (simp add: ports_flow_dict_simps)
  next
    case (Cons p P)
    then show ?case
      using port_flow_dict_keys [of "Flood n" conf p] port_flow_dict_keys [of "InFlood n" conf p]
      by (simp add: ports_flow_dict_simps)
  qed
  then show "map_of (ports_flow_dict conf P) (Flood n) = None" "map_of (ports_flow_dict conf P) (InFlood n) = None"
    by (simp_all add: map_of_None_keys del: set_map)
qed

lemma l2_table_flood:
  "l2_table conf P (fl(n := keys)) =
     (l2_table conf P fl)(Flood n := (if keys = [] then None else Some (egress_copies keys)),
        InFlood n := (if keys = [] then None else Some (ingress_copies keys)))"
proof
  fix f
  show "l2_table conf P (fl(n := keys)) f =
     ((l2_table conf P fl)(Flood n := (if keys = [] then None else Some (egress_copies keys)),
        InFlood n := (if keys = [] then None else Some (ingress_copies keys)))) f"
    by (cases f) (auto simp: l2_table_def map_add_def no_flood_in_ports split: option.splits)
qed

lemma l2_table_has_flood:
  "l2_table conf P fl (Flood n) = (if fl n = [] then None else Some (egress_copies (fl n)))"
  "l2_table conf P fl (InFlood n) = (if fl n = [] then None else Some (ingress_copies (fl n)))"
  by (simp_all add: l2_table_def map_add_def no_flood_in_ports)

section \<open>Representation\<close>

definition l2_frep :: "int \<Rightarrow> int \<Rightarrow> (l2_flow \<rightharpoonup> inst list) \<Rightarrow> (int, local_network) dict \<Rightarrow> l2_app \<Rightarrow> bool" where
  "l2_frep ck cm M d s \<longleftrightarrow> flows_rep l2_shape l2_fam ck cm M (l2_app.fields d) s"

lemma l2_frep_networks: "l2_frep ck cm M d s \<Longrightarrow> l2_networks s = d"
  by (cases s) (simp add: l2_frep_def flows_rep_def l2_app.defs)

lemma l2_frep_update: "l2_frep ck cm M d s \<Longrightarrow> l2_frep ck cm M d' (s\<lparr>l2_networks := d'\<rparr>)"
  by (cases s) (simp add: l2_frep_def flows_rep_def l2_app.defs)

lemma l2_sendsD: "l2_sends ck cm h ops \<Longrightarrow> l2_frep ck cm M d s \<Longrightarrow> yields (h s) (l2_frep ck cm (fold op_step ops M) d)"
  by (simp add: sends_ops_def l2_frep_def [abs_def])

definition local_dict :: "l2_bound list \<Rightarrow> (string, int) dict" where
  "local_dict bs = map (\<lambda>b. (lb_id b, lb_key b)) bs"

definition networks_of :: "l2_ports \<Rightarrow> (int, local_network) dict \<Rightarrow> bool" where
  "networks_of P d \<longleftrightarrow> wf_dict d \<and>
     map_of d = (\<lambda>n. if locals_of P n = [] then None
       else Some \<lparr>ln_local_ports = local_dict (locals_of P n), ln_remote_ports = []\<rparr>)"

definition floods_locals :: "l2_ports \<Rightarrow> (int \<Rightarrow> int list) \<Rightarrow> bool" where
  "floods_locals P fl \<longleftrightarrow> (\<forall>n. mset (fl n) = mset (map lb_key (locals_of P n)))"

definition l2_rep :: "'o l2_conf \<Rightarrow> int \<Rightarrow> int \<Rightarrow> l2_ports \<Rightarrow> l2_app \<Rightarrow> bool" where
  "l2_rep conf ck cm P s \<longleftrightarrow>
     (\<exists>fl d. l2_frep ck cm (l2_table conf P fl) d s \<and> networks_of P d \<and> floods_locals P fl)"

lemma l2_repI:
  "l2_frep ck cm (l2_table conf P fl) d s \<Longrightarrow> networks_of P d \<Longrightarrow> floods_locals P fl \<Longrightarrow> l2_rep conf ck cm P s"
  unfolding l2_rep_def by blast

lemma locals_of_append [simp]:
  "locals_of (P @ [(loc, b)]) n = locals_of P n @ (if loc \<and> lb_net b = n then [b] else [])"
  by (simp add: locals_of_def)

lemma locals_of_remove:
  "locals_of (remove1 (loc, b) P) n = (if loc \<and> lb_net b = n then remove1 b (locals_of P n) else locals_of P n)"
proof (induction P)
  case Nil
  then show ?case by (simp add: locals_of_def)
next
  case (Cons p P)
  obtain loc' c where p: "p = (loc', c)" by fastforce
  have "locals_of (p # P) n = (if loc' \<and> lb_net c = n then c # locals_of P n else locals_of P n)" for P
    by (simp add: p locals_of_def)
  then show ?case using Cons by (cases "p = (loc, b)") (auto simp: p)
qed

lemma remote_locals: "locals_of (P @ [(False, b)]) = locals_of P" "locals_of (remove1 (False, b) P) = locals_of P"
  by (simp_all add: fun_eq_iff locals_of_remove)

lemma remote_rep:
  "networks_of (P @ [(False, b)]) = networks_of P" "networks_of (remove1 (False, b) P) = networks_of P"
  "floods_locals (P @ [(False, b)]) = floods_locals P" "floods_locals (remove1 (False, b) P) = floods_locals P"
  unfolding networks_of_def [abs_def] floods_locals_def [abs_def] remote_locals by (rule refl)+

text \<open>The store has the local ports of a network, under their ids.\<close>

definition stored :: "l2_store \<Rightarrow> l2_bound list \<Rightarrow> bool" where
  "stored store bs \<longleftrightarrow> list_all (\<lambda>b. case store (lb_id b) of None \<Rightarrow> False | Some q \<Rightarrow> l2_id q = lb_id b) bs"

definition store_by_id :: "l2_store \<Rightarrow> string \<Rightarrow> bool" where
  "store_by_id store i \<longleftrightarrow> (case store i of None \<Rightarrow> True | Some q \<Rightarrow> l2_id q = i)"

lemma set_locals_of: "b \<in> set (locals_of P n) \<longleftrightarrow> (True, b) \<in> set P \<and> lb_net b = n"
  by (auto simp: locals_of_def image_iff)

lemma l2_ports_ok_ids: "l2_ports_ok P \<Longrightarrow> distinct (map lb_id (locals_of P n))"
  unfolding l2_ports_ok_def
  by (induction P) (auto simp: locals_of_def own_names_def image_iff)

lemma l2_ports_ok_new:
  assumes "l2_ports_ok (P @ [(loc, b)])"
  shows "l2_ports_ok P" "lb_id b \<notin> lb_id ` set (locals_of P n)"
proof -
  show "l2_ports_ok P" using assms by (simp add: l2_ports_ok_def sorted_wrt_append)
  show "lb_id b \<notin> lb_id ` set (locals_of P n)"
    using assms by (force simp: l2_ports_ok_def sorted_wrt_append set_locals_of own_names_def)
qed

lemma l2_ports_ok_remove:
  assumes "l2_ports_ok P"
  shows "l2_ports_ok (remove1 p P)"
proof (cases "p \<in> set P")
  case True
  then obtain A B where P: "P = A @ p # B" "p \<notin> set A" by (meson split_list_first)
  then have "remove1 p P = A @ B" by (simp add: remove1_append)
  then show ?thesis using assms P by (simp add: l2_ports_ok_def sorted_wrt_append)
next
  case False
  then show ?thesis using assms by (simp add: remove1_idem)
qed

lemma filter_remove1: "distinct (map f xs) \<Longrightarrow> b \<in> set xs \<Longrightarrow> filter (\<lambda>c. f b \<noteq> f c) xs = remove1 b xs"
proof (induction xs)
  case Nil
  then show ?case by simp
next
  case (Cons x xs)
  show ?case
  proof (cases "x = b")
    case True
    then have "\<forall>c\<in>set xs. f b \<noteq> f c" using Cons.prems(1) by (auto simp: image_iff)
    then show ?thesis using True by simp
  next
    case False
    then show ?thesis using Cons by (auto simp: image_iff)
  qed
qed

lemma local_dict_delete:
  assumes "distinct (map lb_id bs)" "b \<in> set bs"
  shows "AList.delete (lb_id b) (local_dict bs) = local_dict (remove1 b bs)"
  unfolding filter_remove1 [OF assms, symmetric]
  by (auto simp: local_dict_def AList.delete_eq filter_map comp_def)

lemma local_dict_update:
  "lb_id b \<notin> lb_id ` set bs \<Longrightarrow> AList.update (lb_id b) (lb_key b) (local_dict bs) = local_dict (bs @ [b])"
  by (subst update_new) (auto simp: local_dict_def)

section \<open>The handlers on the ports\<close>

lemma networks_get:
  assumes "networks_of P d"
  shows "map_of d n = (if locals_of P n = [] then None
    else Some \<lparr>ln_local_ports = local_dict (locals_of P n), ln_remote_ports = []\<rparr>)"
  using assms by (simp add: networks_of_def)

lemma local_dict_keys [simp]: "map snd (local_dict bs) = map lb_key bs" "dict_keys (local_dict bs) = map lb_id bs"
  by (simp_all add: local_dict_def)

lemma local_dict_Nil [simp]: "local_dict bs = [] \<longleftrightarrow> bs = []"
  by (simp add: local_dict_def)

lemma stored_others:
  assumes "stored store bs" "lb_id b \<notin> lb_id ` set bs" "store_by_id store (lb_id b)"
  shows "filter (\<lambda>(i, key). case store i of None \<Rightarrow> False | Some p \<Rightarrow> lb_id b \<noteq> l2_id p) (local_dict (bs @ [b])) = local_dict bs"
proof -
  have "filter (\<lambda>(i, key). case store i of None \<Rightarrow> False | Some p \<Rightarrow> lb_id b \<noteq> l2_id p) (local_dict bs) = local_dict bs"
    using assms(1,2) by (auto simp: local_dict_def stored_def list_all_iff filter_id_conv split: option.splits)
  moreover have "filter (\<lambda>(i, key). case store i of None \<Rightarrow> False | Some p \<Rightarrow> lb_id b \<noteq> l2_id p) (local_dict [b]) = []"
    using assms(3) by (auto simp: local_dict_def store_by_id_def split: option.splits)
  ultimately show ?thesis by (simp add: local_dict_def)
qed

lemma stored_all: "stored store bs \<Longrightarrow> filter (\<lambda>(i, key). store i \<noteq> None) (local_dict bs) = local_dict bs"
  by (auto simp: local_dict_def stored_def list_all_iff filter_id_conv split: option.splits)

lemma flood_add_yields:
  assumes "stamps conf ck cm" "l2_frep ck cm (l2_table conf (P @ [(True, b)]) fl) d s"
    and "networks_of P d" "floods_locals P fl" "l2_ports_ok (P @ [(True, b)])"
    and "stored store (locals_of P (lb_net b))" "store_by_id store (lb_id b)"
  shows "yields (add_multicast_broadcast_handling_for_local_port conf store (lb_id b) (lb_key b) (lb_net b) s)
    (l2_rep conf ck cm (P @ [(True, b)]))"
proof -
  let ?P = "P @ [(True, b)]" and ?n = "lb_net b" and ?bs = "locals_of P (lb_net b)"
  let ?keys = "lb_key b # map lb_key ?bs"
  let ?d = "AList.update ?n \<lparr>ln_local_ports = local_dict (?bs @ [b]), ln_remote_ports = []\<rparr> d"
  let ?s = "s\<lparr>l2_networks := ?d\<rparr>"
  let ?cmd = "if ?bs = [] then OFPFC_ADD else OFPFC_MODIFY"
  note new = l2_ports_ok_new(2) [OF assms(5), of ?n]
  have ln: "(case map_of (l2_networks s) ?n of Some n \<Rightarrow> n | None \<Rightarrow> LocalNetwork) =
      \<lparr>ln_local_ports = local_dict ?bs, ln_remote_ports = []\<rparr>"
    using networks_get [OF assms(3), of ?n] l2_frep_networks [OF assms(2)] by (auto simp: LocalNetwork_def local_dict_def)
  have h: "add_multicast_broadcast_handling_for_local_port conf store (lb_id b) (lb_key b) ?n s =
      send_multicast_broadcast_flows conf ?cmd ?n ?keys ?s"
    unfolding add_multicast_broadcast_handling_for_local_port_def ln Let_def
    by (simp only: local_network.simps local_dict_update [OF new] stored_others [OF assms(6) new assms(7)]
        l2_frep_networks [OF assms(2)] local_dict_keys local_dict_Nil)
  have fl: "fl ?n = [] \<longleftrightarrow> ?bs = []"
    using assms(4) by (metis floods_locals_def map_is_Nil_conv mset_zero_iff)
  note f = l2_frep_update [OF assms(2), of ?d]
  have "yields (send_multicast_broadcast_flows conf ?cmd ?n ?keys ?s) (l2_frep ck cm (l2_table conf ?P (fl(?n := ?keys))) ?d)"
  proof (cases "?bs = []")
    case True
    then show ?thesis using l2_sendsD [OF flood_add_sends [OF assms(1), of ?n ?keys] f] by (simp add: l2_table_flood)
  next
    case False
    then show ?thesis using l2_sendsD [OF flood_modify_sends [OF assms(1), of ?n ?keys] f] fl
      by (simp add: l2_table_flood l2_table_has_flood)
  qed
  moreover have "networks_of ?P ?d" using assms(3) by (auto simp: networks_of_def fun_eq_iff)
  moreover have "floods_locals ?P (fl(?n := ?keys))" using assms(4) by (simp add: floods_locals_def)
  ultimately show ?thesis unfolding h by (blast intro: yields_mono l2_repI)
qed

lemma flood_remove_yields:
  assumes "stamps conf ck cm" "l2_frep ck cm (l2_table conf (remove1 (True, b) P) fl) d s"
    and "networks_of P d" "floods_locals P fl" "l2_ports_ok P" "(True, b) \<in> set P"
    and "stored store (locals_of (remove1 (True, b) P) (lb_net b))"
  shows "yields (del_multicast_broadcast_handling_for_local conf store (lb_id b) (lb_net b) s)
    (l2_rep conf ck cm (remove1 (True, b) P))"
proof -
  let ?P = "remove1 (True, b) P" and ?n = "lb_net b"
  let ?bs = "locals_of P (lb_net b)" and ?bs' = "remove1 b (locals_of P (lb_net b))"
  let ?network = "\<lparr>ln_local_ports = local_dict ?bs', ln_remote_ports = []\<rparr>"
  let ?d = "AList.update ?n ?network d"
  let ?s = "s\<lparr>l2_networks := ?d\<rparr>"
  have b: "b \<in> set ?bs" using assms(6) by (simp add: set_locals_of)
  then have ne: "?bs \<noteq> []" by auto
  have loc: "locals_of ?P ?n = ?bs'" by (simp add: locals_of_remove)
  note del = local_dict_delete [OF l2_ports_ok_ids [OF assms(5)] b]
  have net: "map_of (l2_networks s) ?n = Some \<lparr>ln_local_ports = local_dict ?bs, ln_remote_ports = []\<rparr>"
    using networks_get [OF assms(3), of ?n] l2_frep_networks [OF assms(2)] ne by simp
  have fl: "fl ?n \<noteq> []" using assms(4) ne by (metis floods_locals_def map_is_Nil_conv mset_zero_iff)
  note f = l2_frep_update [OF assms(2), of ?d]
  have floods: "floods_locals ?P (fl(?n := map lb_key ?bs'))"
    using assms(4) by (simp add: floods_locals_def locals_of_remove)
  show ?thesis
  proof (cases "?bs' = []")
    case True
    have h: "del_multicast_broadcast_handling_for_local conf store (lb_id b) ?n s =
        and_then (del_multicast_broadcast_flows_for_local conf ?n ?s)
          (\<lambda>s. (None, s\<lparr>l2_networks := AList.delete ?n (l2_networks s)\<rparr>))"
      using True b net del l2_frep_networks [OF assms(2)]
      by (simp add: del_multicast_broadcast_handling_for_local_def ln_is_empty_def)
    have nets: "networks_of ?P (AList.delete ?n ?d)"
      using assms(3) True by (auto simp: networks_of_def fun_eq_iff locals_of_remove)
    have "yields (del_multicast_broadcast_flows_for_local conf ?n ?s) (l2_frep ck cm (l2_table conf ?P (fl(?n := []))) ?d)"
      using l2_sendsD [OF flood_delete_sends [OF assms(1), of ?n] f] by (simp add: l2_table_flood)
    then show ?thesis unfolding h
      by (rule yields_then) (use nets floods True l2_frep_update l2_frep_networks in \<open>fastforce simp: l2_rep_def\<close>)
  next
    case False
    have h: "del_multicast_broadcast_handling_for_local conf store (lb_id b) ?n s =
        send_multicast_broadcast_flows conf OFPFC_MODIFY ?n (map lb_key ?bs') ?s"
      using False b net del l2_frep_networks [OF assms(2)] stored_all [OF assms(7)]
      by (simp add: del_multicast_broadcast_handling_for_local_def update_multicast_broadcast_flows_for_local_def loc)
    have nets: "networks_of ?P ?d"
      using assms(3) False by (auto simp: networks_of_def fun_eq_iff locals_of_remove)
    have "yields (send_multicast_broadcast_flows conf OFPFC_MODIFY ?n (map lb_key ?bs') ?s)
        (l2_frep ck cm (l2_table conf ?P (fl(?n := map lb_key ?bs'))) ?d)"
      using l2_sendsD [OF flood_modify_sends [OF assms(1), of ?n "map lb_key ?bs'"] f] fl False
      by (simp add: l2_table_flood l2_table_has_flood)
    then show ?thesis unfolding h by (rule yields_mono) (rule l2_repI [OF _ nets floods])
  qed
qed

lemma add_lookup_yields:
  assumes "stamps conf ck cm" "resolve_port conf p = Some b" "l2_frep ck cm M d s" "distinct (lb_ips b)"
  shows "yields (add_port conf p s) (l2_frep ck cm (M ++ map_of (port_flow_dict conf (False, b))) d)"
  using l2_sendsD [OF add_port_sends [OF assms(1,2)] assms(3)] wf_port_flow_dict [of "(False, b)" conf] assms(4)
  by (simp add: fold_put_all port_flow_dict_def)

lemma remove_lookup_yields:
  assumes "stamps conf ck cm" "resolve_port conf p = Some b" "l2_frep ck cm M d s"
  shows "yields (remove_port conf p s) (l2_frep ck cm (M |` (- set (dict_keys (port_flow_dict conf (False, b))))) d)"
  using l2_sendsD [OF remove_port_sends [OF assms(1,2)] assms(3)]
  by (simp add: fold_del_all port_flow_dict_def)

lemma bind_remote_yields:
  assumes "stamps conf ck cm" "resolve_port conf p = Some b" "l2_ports_ok (P @ [(False, b)])" "l2_rep conf ck cm P s"
  shows "yields (l2_add_remote_port conf p s) (l2_rep conf ck cm (P @ [(False, b)]))"
proof -
  from assms(4) obtain fl d where r: "l2_frep ck cm (l2_table conf P fl) d s" "networks_of P d" "floods_locals P fl"
    by (auto simp: l2_rep_def)
  have "distinct (lb_ips b)" using assms(3) by (simp add: l2_ports_ok_def)
  from add_lookup_yields [OF assms(1,2) r(1) this] l2_table_add [OF assms(3), of conf fl]
  have "yields (l2_add_remote_port conf p s) (l2_frep ck cm (l2_table conf (P @ [(False, b)]) fl) d)"
    by (simp add: l2_add_remote_port_def)
  then show ?thesis
    by (rule yields_mono) (rule l2_repI, assumption, use r(2,3) in \<open>simp_all add: remote_rep\<close>)
qed

lemma unbind_remote_yields:
  assumes "stamps conf ck cm" "resolve_port conf p = Some b" "l2_ports_ok P" "(False, b) \<in> set P" "l2_rep conf ck cm P s"
  shows "yields (l2_remove_remote_port conf p s) (l2_rep conf ck cm (remove1 (False, b) P))"
proof -
  from assms(5) obtain fl d where r: "l2_frep ck cm (l2_table conf P fl) d s" "networks_of P d" "floods_locals P fl"
    by (auto simp: l2_rep_def)
  from remove_lookup_yields [OF assms(1,2) r(1)] l2_table_remove [OF assms(3,4), of conf fl]
  have "yields (l2_remove_remote_port conf p s) (l2_frep ck cm (l2_table conf (remove1 (False, b) P) fl) d)"
    by (simp add: l2_remove_remote_port_def)
  then show ?thesis
    by (rule yields_mono) (rule l2_repI, assumption, use r(2,3) in \<open>simp_all add: remote_rep\<close>)
qed

lemma bind_local_yields:
  assumes "stamps conf ck cm" "resolve_port conf p = Some b" "l2_ports_ok (P @ [(True, b)])" "l2_rep conf ck cm P s"
    and "stored store (locals_of P (lb_net b))" "store_by_id store (lb_id b)"
  shows "yields (l2_add_local_port conf store p s) (l2_rep conf ck cm (P @ [(True, b)]))"
proof -
  note b = resolve_portD [OF assms(2)]
  from assms(4) obtain fl d where r: "l2_frep ck cm (l2_table conf P fl) d s" "networks_of P d" "floods_locals P fl"
    by (auto simp: l2_rep_def)
  let ?h1 = "send_flow conf (default_args\<lparr>a_inst := Some (to_port (l2_key p) INGRESS_CONNTRACK_TABLE),
            a_table_id := INGRESS_DESTINATION_PORT_LOOKUP_TABLE, a_priority := PRIORITY_HIGH,
            a_match := Some (unicast_match (lb_net b) (lb_addr b))\<rparr>)"
  let ?h2 = "send_flow conf (default_args\<lparr>a_inst := Some [GotoTable INGRESS_CONNTRACK_TABLE],
            a_table_id := EGRESS_TABLE, a_priority := PRIORITY_MEDIUM,
            a_match := Some [(''reg7'', MInt (l2_key p))]\<rparr>)"
  have "l2_sends ck cm (\<lambda>s. and_then (?h1 s) ?h2)
      ([Put (InUnicast (lb_net b) (lb_addr b)) (to_port (lb_key b) INGRESS_CONNTRACK_TABLE)] @
       [Put (EgressTo (lb_key b)) [GotoTable INGRESS_CONNTRACK_TABLE]])"
    using assms(1) b(3,5) by (intro sends_then l2.sends_flow) (simp_all add: l2_message_simps)
  then have "l2_sends ck cm (\<lambda>s. and_then (?h1 s) ?h2) (put_all (dispatch_flows b))"
    by (simp add: dispatch_flows_def)
  from sends_then [OF add_port_sends [OF assms(1,2)] this]
  have "l2_sends ck cm (\<lambda>s. and_then (add_port conf p s) (\<lambda>s. and_then (?h1 s) ?h2)) (put_all (port_flow_dict conf (True, b)))"
    by (simp add: port_flow_dict_def)
  moreover have "wf_dict (port_flow_dict conf (True, b))"
    using assms(3) by (intro wf_port_flow_dict) (simp add: l2_ports_ok_def)
  ultimately have y: "yields (and_then (add_port conf p s) (\<lambda>s. and_then (?h1 s) ?h2))
      (l2_frep ck cm (l2_table conf (P @ [(True, b)]) fl) d)"
    using l2_sendsD [OF _ r(1)] l2_table_add [OF assms(3), of conf fl] by (fastforce simp: fold_put_all)
  have "l2_add_local_port conf store p s = and_then (and_then (add_port conf p s) (\<lambda>s. and_then (?h1 s) ?h2))
      (add_multicast_broadcast_handling_for_local_port conf store (lb_id b) (lb_key b) (lb_net b))"
    using b by (simp add: l2_add_local_port_def add_local_port_dispatch_def and_then_assoc)
  then show ?thesis using yields_then [OF y] flood_add_yields [OF assms(1) _ r(2,3) assms(3,5,6)] by simp
qed

lemma unbind_local_yields:
  assumes "stamps conf ck cm" "resolve_port conf p = Some b" "l2_ports_ok P" "(True, b) \<in> set P" "l2_rep conf ck cm P s"
    and "stored store (locals_of (remove1 (True, b) P) (lb_net b))"
  shows "yields (l2_remove_local_port conf store p s) (l2_rep conf ck cm (remove1 (True, b) P))"
proof -
  note b = resolve_portD [OF assms(2)]
  from assms(5) obtain fl d where r: "l2_frep ck cm (l2_table conf P fl) d s" "networks_of P d" "floods_locals P fl"
    by (auto simp: l2_rep_def)
  let ?h1 = "send_flow conf (default_args\<lparr>a_table_id := EGRESS_TABLE, a_command := Some OFPFC_DELETE,
            a_priority := PRIORITY_MEDIUM, a_match := Some [(''reg7'', MInt (l2_key p))]\<rparr>)"
  let ?h2 = "send_flow conf (default_args\<lparr>a_table_id := INGRESS_DESTINATION_PORT_LOOKUP_TABLE,
                 a_command := Some OFPFC_DELETE, a_priority := PRIORITY_HIGH,
                 a_match := Some (unicast_match (lb_net b) (lb_addr b))\<rparr>)"
  have "l2_sends ck cm (\<lambda>s. and_then (?h1 s) ?h2) ([Del (EgressTo (lb_key b))] @ [Del (InUnicast (lb_net b) (lb_addr b))])"
    using assms(1) b(3,5) by (intro sends_then l2.sends_flow) (simp_all add: l2_message_simps)
  then have "l2_sends ck cm (\<lambda>s. and_then (?h1 s) ?h2) (del_all (rev (dispatch_flows b)))"
    by (simp add: dispatch_flows_def)
  from sends_then [OF remove_port_sends [OF assms(1,2)] this]
  have sends: "l2_sends ck cm (\<lambda>s. and_then (remove_port conf p s) (\<lambda>s. and_then (?h1 s) ?h2))
      (del_all (lookup_flows conf b @ rev (dispatch_flows b)))"
    by simp
  have keys: "set (dict_keys (lookup_flows conf b @ rev (dispatch_flows b))) = set (dict_keys (port_flow_dict conf (True, b)))"
    by (simp add: port_flow_dict_def)
  from l2_sendsD [OF sends r(1)]
  have y: "yields (and_then (remove_port conf p s) (\<lambda>s. and_then (?h1 s) ?h2))
      (l2_frep ck cm (l2_table conf (remove1 (True, b) P) fl) d)"
    unfolding fold_del_all keys l2_table_remove [OF assms(3,4)] .
  have "l2_remove_local_port conf store p s = and_then (and_then (remove_port conf p s) (\<lambda>s. and_then (?h1 s) ?h2))
      (del_multicast_broadcast_handling_for_local conf store (lb_id b) (lb_net b))"
    using b by (simp add: l2_remove_local_port_def remove_local_port_pipeline_interface_def and_then_assoc)
  then show ?thesis using yields_then [OF y] flood_remove_yields [OF assms(1) _ r(2,3) assms(3,4,6)] by simp
qed

lemma switch_deleted_yields:
  assumes "stamps conf ck cm" "locals_of P n = []" "l2_rep conf ck cm P s"
  shows "yields (remove_logical_switch conf n s) (l2_rep conf ck cm P)"
proof -
  from assms(3) obtain fl d where r: "l2_frep ck cm (l2_table conf P fl) d s" "networks_of P d" "floods_locals P fl"
    by (auto simp: l2_rep_def)
  have "l2_sends ck cm (remove_logical_switch conf n) [Del (Flood n)]"
    unfolding remove_logical_switch_def using assms(1) by (intro l2.sends_flow) (simp_all add: l2_message_simps)
  moreover have "fl n = []" using r(3) assms(2) by (metis floods_locals_def list.map_disc_iff mset_zero_iff)
  then have "op_step (Del (Flood n)) (l2_table conf P fl) = l2_table conf P fl"
    by (auto simp: fun_eq_iff l2_table_has_flood)
  ultimately have "yields (remove_logical_switch conf n s) (l2_frep ck cm (l2_table conf P fl) d)"
    using l2_sendsD [OF _ r(1)] by fastforce
  then show ?thesis by (rule yields_mono) (rule l2_repI [OF _ r(2,3)])
qed

section \<open>Lives of the application\<close>

datatype l2_event =
    L2BindLocal l2_store l2_port
  | L2UnbindLocal l2_store l2_port
  | L2BindRemote l2_port
  | L2UnbindRemote l2_port
  | L2SwitchDeleted int

fun l2_handle :: "'o l2_conf \<Rightarrow> l2_event \<Rightarrow> l2_app \<Rightarrow> l2_app outcome" where
  "l2_handle conf (L2BindLocal store p) = l2_add_local_port conf store p"
| "l2_handle conf (L2UnbindLocal store p) = l2_remove_local_port conf store p"
| "l2_handle conf (L2BindRemote p) = l2_add_remote_port conf p"
| "l2_handle conf (L2UnbindRemote p) = l2_remove_remote_port conf p"
| "l2_handle conf (L2SwitchDeleted n) = remove_logical_switch conf n"

text \<open>
  The ports bound after an event, or \<open>None\<close> for an event outside the contract: a port is bound
  with names of its own, and unbound as it was bound; the store has the local ports of its network;
  a network is deleted when it has no local ports.
\<close>

definition bind_port :: "l2_ports \<Rightarrow> bool \<times> l2_bound \<Rightarrow> l2_ports option" where
  "bind_port P p = (if l2_ports_ok (P @ [p]) then Some (P @ [p]) else None)"

definition unbind_port :: "l2_ports \<Rightarrow> bool \<times> l2_bound \<Rightarrow> l2_ports option" where
  "unbind_port P p = (if p \<in> set P then Some (remove1 p P) else None)"

fun l2_after_event :: "'o l2_conf \<Rightarrow> l2_event \<Rightarrow> l2_ports \<Rightarrow> l2_ports option" where
  "l2_after_event conf (L2BindLocal store p) P =
     Option.bind (resolve_port conf p) (\<lambda>b.
       if stored store (locals_of P (lb_net b)) \<and> store_by_id store (lb_id b) then bind_port P (True, b) else None)"
| "l2_after_event conf (L2UnbindLocal store p) P =
     Option.bind (resolve_port conf p) (\<lambda>b.
       if stored store (locals_of (remove1 (True, b) P) (lb_net b)) then unbind_port P (True, b) else None)"
| "l2_after_event conf (L2BindRemote p) P = Option.bind (resolve_port conf p) (\<lambda>b. bind_port P (False, b))"
| "l2_after_event conf (L2UnbindRemote p) P = Option.bind (resolve_port conf p) (\<lambda>b. unbind_port P (False, b))"
| "l2_after_event conf (L2SwitchDeleted n) P = (if locals_of P n = [] then Some P else None)"

fun l2_after :: "'o l2_conf \<Rightarrow> l2_event list \<Rightarrow> l2_ports \<Rightarrow> l2_ports option" where
  "l2_after conf [] P = Some P"
| "l2_after conf (ev # evs) P = Option.bind (l2_after_event conf ev P) (l2_after conf evs)"

lemma l2_event_ports_ok:
  "l2_after_event conf ev P = Some P' \<Longrightarrow> l2_ports_ok P \<Longrightarrow> l2_ports_ok P'"
  by (cases ev) (auto simp: bind_eq_Some_conv bind_port_def unbind_port_def intro: l2_ports_ok_remove split: if_splits)

lemma l2_after_ports_ok: "l2_after conf evs P = Some P' \<Longrightarrow> l2_ports_ok P \<Longrightarrow> l2_ports_ok P'"
  by (induction evs arbitrary: P) (auto simp: bind_eq_Some_conv dest: l2_event_ports_ok)

lemma l2_handle_yields:
  assumes "stamps conf ck cm" "l2_ports_ok P" "l2_rep conf ck cm P s" "l2_after_event conf ev P = Some P'"
  shows "yields (l2_handle conf ev s) (l2_rep conf ck cm P')"
proof (cases ev)
  case (L2BindLocal store p)
  with assms(4) obtain b where "resolve_port conf p = Some b" "l2_ports_ok (P @ [(True, b)])" "P' = P @ [(True, b)]"
    "stored store (locals_of P (lb_net b))" "store_by_id store (lb_id b)"
    by (auto simp: bind_eq_Some_conv bind_port_def split: if_splits)
  then show ?thesis using bind_local_yields [OF assms(1) _ _ assms(3)] L2BindLocal by simp
next
  case (L2UnbindLocal store p)
  with assms(4) obtain b where "resolve_port conf p = Some b" "(True, b) \<in> set P" "P' = remove1 (True, b) P"
    "stored store (locals_of (remove1 (True, b) P) (lb_net b))"
    by (auto simp: bind_eq_Some_conv unbind_port_def split: if_splits)
  then show ?thesis using unbind_local_yields [OF assms(1) _ assms(2) _ assms(3)] L2UnbindLocal by simp
next
  case (L2BindRemote p)
  with assms(4) obtain b where "resolve_port conf p = Some b" "l2_ports_ok (P @ [(False, b)])" "P' = P @ [(False, b)]"
    by (auto simp: bind_eq_Some_conv bind_port_def split: if_splits)
  then show ?thesis using bind_remote_yields [OF assms(1) _ _ assms(3)] L2BindRemote by simp
next
  case (L2UnbindRemote p)
  with assms(4) obtain b where "resolve_port conf p = Some b" "(False, b) \<in> set P" "P' = remove1 (False, b) P"
    by (auto simp: bind_eq_Some_conv unbind_port_def split: if_splits)
  then show ?thesis using unbind_remote_yields [OF assms(1) _ assms(2) _ assms(3)] L2UnbindRemote by simp
next
  case (L2SwitchDeleted n)
  then show ?thesis using switch_deleted_yields [OF assms(1) _ assms(3)] assms(4) by (auto split: if_splits)
qed

lemma l2_run_yields:
  assumes "stamps conf ck cm" "l2_ports_ok P" "l2_rep conf ck cm P s" "l2_after conf evs P = Some P'"
  shows "yields (run_each (l2_handle conf) evs s) (l2_rep conf ck cm P')"
  using assms(2-)
proof (induction evs arbitrary: P s)
  case Nil
  then show ?case by simp
next
  case (Cons ev evs)
  then obtain P1 where P1: "l2_after_event conf ev P = Some P1" "l2_after conf evs P1 = Some P'"
    by (auto simp: bind_eq_Some_conv)
  note h = l2_handle_yields [OF assms(1) Cons.prems(1,2) P1(1)]
  show ?case using yields_then [OF h] Cons.IH [OF l2_event_ports_ok [OF P1(1) Cons.prems(1)] _ P1(2)] by simp
qed

lemma sends_goto:
  assumes "stamps conf ck cm" "l2_shape f = (table, priority, case mtch of Some m \<Rightarrow> m | None \<Rightarrow> [])" "l2_fam f"
  shows "l2_sends ck cm (send_goto conf table priority e mtch) [Put f (goto_insts table e)]"
  unfolding send_goto_flow by (rule l2.sends_flow [OF assms(1) plain_goto_args goto_asks [where sh = l2_shape and fam = l2_fam and f = f, OF assms(2,3)]])

definition start_flows :: "(l2_flow, inst list) dict" where
  "start_flows =
     [(DefaultOf SERVICES_CLASSIFICATION_TABLE, goto_insts SERVICES_CLASSIFICATION_TABLE L2_LOOKUP_TABLE),
      (DefaultOf ARP_TABLE, goto_insts ARP_TABLE L2_LOOKUP_TABLE),
      (DefaultOf IPV6_ND_TABLE, goto_insts IPV6_ND_TABLE L2_LOOKUP_TABLE),
      (ArpTraffic, goto_insts SERVICES_CLASSIFICATION_TABLE ARP_TABLE),
      (NdpTraffic, goto_insts SERVICES_CLASSIFICATION_TABLE IPV6_ND_TABLE),
      (DefaultOf EGRESS_CONNTRACK_TABLE, goto_insts EGRESS_CONNTRACK_TABLE SERVICES_CLASSIFICATION_TABLE),
      (DefaultOf INGRESS_CONNTRACK_TABLE, goto_insts INGRESS_CONNTRACK_TABLE INGRESS_DISPATCH_TABLE)]"

lemma start_flows_table: "map_of start_flows = l2_table conf [] (\<lambda>n. [])"
proof
  show "map_of start_flows f = l2_table conf [] (\<lambda>n. []) f" for f
    by (cases f) (auto simp: start_flows_def l2_table_def ports_flow_dict_def table_defs)
qed

lemma l2_start_yields:
  assumes "stamps conf ck cm"
  shows "yields (l2_switch_features_handler conf \<lparr>fa_sent = [], l2_networks = d\<rparr>) (l2_rep conf ck cm [])"
proof -
  let ?goto = "\<lambda>table prio e m. send_goto conf table prio e m :: l2_app \<Rightarrow> l2_app outcome"
  let ?h = "\<lambda>s. and_then (?goto SERVICES_CLASSIFICATION_TABLE PRIORITY_DEFAULT L2_LOOKUP_TABLE None s) (\<lambda>s.
     and_then (?goto ARP_TABLE PRIORITY_DEFAULT L2_LOOKUP_TABLE None s) (\<lambda>s.
     and_then (?goto IPV6_ND_TABLE PRIORITY_DEFAULT L2_LOOKUP_TABLE None s) (\<lambda>s.
     and_then (?goto SERVICES_CLASSIFICATION_TABLE PRIORITY_MEDIUM ARP_TABLE (Some [(''eth_type'', MInt 0x0806)]) s) (\<lambda>s.
     and_then (?goto SERVICES_CLASSIFICATION_TABLE PRIORITY_MEDIUM IPV6_ND_TABLE
         (Some [(''eth_type'', MInt ETH_TYPE_IPV6), (''ip_proto'', MInt IPPROTO_ICMPV6)]) s) (\<lambda>s.
     and_then (?goto EGRESS_CONNTRACK_TABLE PRIORITY_DEFAULT SERVICES_CLASSIFICATION_TABLE None s)
       (?goto INGRESS_CONNTRACK_TABLE PRIORITY_DEFAULT INGRESS_DISPATCH_TABLE None))))))"
  have ops: "put_all start_flows =
      [Put (DefaultOf SERVICES_CLASSIFICATION_TABLE) (goto_insts SERVICES_CLASSIFICATION_TABLE L2_LOOKUP_TABLE)] @
      [Put (DefaultOf ARP_TABLE) (goto_insts ARP_TABLE L2_LOOKUP_TABLE)] @
      [Put (DefaultOf IPV6_ND_TABLE) (goto_insts IPV6_ND_TABLE L2_LOOKUP_TABLE)] @
      [Put ArpTraffic (goto_insts SERVICES_CLASSIFICATION_TABLE ARP_TABLE)] @
      [Put NdpTraffic (goto_insts SERVICES_CLASSIFICATION_TABLE IPV6_ND_TABLE)] @
      [Put (DefaultOf EGRESS_CONNTRACK_TABLE) (goto_insts EGRESS_CONNTRACK_TABLE SERVICES_CLASSIFICATION_TABLE)] @
      [Put (DefaultOf INGRESS_CONNTRACK_TABLE) (goto_insts INGRESS_CONNTRACK_TABLE INGRESS_DISPATCH_TABLE)]"
    by (simp add: start_flows_def)
  have "l2_sends ck cm ?h (put_all start_flows)"
    unfolding ops by (intro sends_then sends_goto assms) simp_all
  moreover have "l2_frep ck cm Map.empty d \<lparr>fa_sent = [], l2_networks = d\<rparr>"
    using flows_rep_empty [of l2_shape l2_fam ck cm "l2_app.fields d"] by (simp add: l2_frep_def l2_app.defs)
  moreover have "wf_dict start_flows" by (simp add: start_flows_def table_defs)
  ultimately have y: "yields (?h \<lparr>fa_sent = [], l2_networks = d\<rparr>) (l2_frep ck cm (l2_table conf [] (\<lambda>n. [])) d)"
    using l2_sendsD [of ck cm ?h "put_all start_flows" Map.empty d "\<lparr>fa_sent = [], l2_networks = d\<rparr>"]
    by (simp add: fold_put_all start_flows_table [of conf])
  have "l2_switch_features_handler conf \<lparr>fa_sent = [], l2_networks = d\<rparr> =
      and_then (?h \<lparr>fa_sent = [], l2_networks = d\<rparr>) (\<lambda>s. (None, s\<lparr>l2_networks := []\<rparr>))"
    by (simp add: l2_switch_features_handler_def and_then_assoc)
  moreover have e: "networks_of [] []" "floods_locals [] (\<lambda>n. [])"
    by (simp_all add: networks_of_def floods_locals_def locals_of_def fun_eq_iff)
  have "yields (None, s\<lparr>l2_networks := []\<rparr>) (l2_rep conf ck cm [])"
    if "l2_frep ck cm (l2_table conf [] (\<lambda>n. [])) d s" for s
    using l2_repI [OF l2_frep_update [OF that] e] by simp
  ultimately show ?thesis using yields_then [OF y] by simp
qed

section \<open>Correctness\<close>

lemma l2_life:
  assumes "stamps conf ck cm" "l2_after conf evs [] = Some P"
  shows "\<exists>s0 s. l2_switch_features_handler conf \<lparr>fa_sent = [], l2_networks = d\<rparr> = (None, s0) \<and>
    run_each (l2_handle conf) evs s0 = (None, s) \<and> l2_rep conf ck cm P s"
proof -
  have "l2_ports_ok []" by (simp add: l2_ports_ok_def)
  with yieldsD [OF l2_start_yields [OF assms(1), of d]] yieldsD [OF l2_run_yields [OF assms(1) _ _ assms(2)]]
  show ?thesis by blast
qed

text \<open>
  C15. The layer 2 application's flows are exactly those of the bound ports. After the switch has
  connected and any sequence of bind and unbind events of local and remote ports, with ids, keys and
  addresses of their own, no handler has raised, and on every switch that follows the OpenFlow laws
  the flows are: the defaults; for each port the lookup by its address and the answers to address
  resolution; for each local port the flows that take packets to it; and for each network with local
  ports the two flows that copy multicast and broadcast packets, one copy for each local port of the
  network and no other port.
\<close>

theorem l2_flows_exact:
  assumes "of_switch sw_mod flow_at" "flow_at t0 = Map.empty" "stamps conf ck cm" "l2_after conf evs [] = Some P"
  shows "\<exists>s0 s fl. l2_switch_features_handler conf \<lparr>fa_sent = [], l2_networks = d\<rparr> = (None, s0) \<and>
    run_each (l2_handle conf) evs s0 = (None, s) \<and>
    (\<forall>n. mset (fl n) = mset (map lb_key (locals_of P n))) \<and>
    (\<forall>f. flow_at (fold sw_mod (fa_sent s) t0) (shape_key l2_shape f) =
       map_option (Pair ck) (case map_of (ports_flow_dict conf P) f of Some i \<Rightarrow> Some i | None \<Rightarrow> other_flows fl f)) \<and>
    (\<forall>key. key \<notin> range (shape_key l2_shape) \<longrightarrow> flow_at (fold sw_mod (fa_sent s) t0) key = None)"
proof -
  from l2_life [OF assms(3,4)] obtain s0 s where
    s: "l2_switch_features_handler conf \<lparr>fa_sent = [], l2_networks = d\<rparr> = (None, s0)"
      "run_each (l2_handle conf) evs s0 = (None, s)" "l2_rep conf ck cm P s" by blast
  from s(3) obtain fl d' where r: "l2_frep ck cm (l2_table conf P fl) d' s" "floods_locals P fl"
    by (auto simp: l2_rep_def)
  have "l2_table conf P fl f = (case map_of (ports_flow_dict conf P) f of Some i \<Rightarrow> Some i | None \<Rightarrow> other_flows fl f)" for f
    by (simp add: l2_table_def map_add_def split: option.splits)
  with flows_rep_switch [OF r(1) [unfolded l2_frep_def] assms(1,2)] s(1,2) r(2) [unfolded floods_locals_def] show ?thesis
    by (intro exI [of _ s0] exI [of _ s] exI [of _ fl]) simp
qed

text \<open>
  A change of the addresses of a bound port leaves answers behind. The application has no
  handler for updates of ports, so a port that loses an address keeps answering for it, and when the
  port is unbound as it is then, the answer for the lost address stays in the switch.
\<close>

theorem l2_keeps_old_responder:
  assumes "of_switch sw_mod flow_at" "flow_at t0 = Map.empty" "stamps conf ck cm" "is_install_l2_responder conf"
    and "resolve_port conf p = Some b" "resolve_port conf p' = Some b'" "distinct (l2_ips p)"
    and "IPv4 w \<in> set (l2_ips p)" "IPv4 w \<notin> set (l2_ips p')"
  shows "\<exists>s0 s1 s. l2_switch_features_handler conf \<lparr>fa_sent = [], l2_networks = d\<rparr> = (None, s0) \<and>
    l2_add_remote_port conf p s0 = (None, s1) \<and> l2_remove_remote_port conf p' s1 = (None, s) \<and>
    flow_at (fold sw_mod (fa_sent s) t0) (shape_key l2_shape (ArpFlow (lb_net b) w)) \<noteq> None"
proof -
  note b = resolve_portD(7) [OF assms(5)] resolve_portD(7) [OF assms(6)]
  from yieldsD [OF l2_start_yields [OF assms(3), of d]] obtain s0 fl d' where
    s0: "l2_switch_features_handler conf \<lparr>fa_sent = [], l2_networks = d\<rparr> = (None, s0)"
      "l2_frep ck cm (l2_table conf [] fl) d' s0" by (auto simp: l2_rep_def)
  have "distinct (lb_ips b)" using assms(7) b by simp
  from yieldsD [OF add_lookup_yields [OF assms(3,5) s0(2) this]] obtain s1 where
    s1: "l2_add_remote_port conf p s0 = (None, s1)"
      "l2_frep ck cm (l2_table conf [] fl ++ map_of (port_flow_dict conf (False, b))) d' s1"
    by (auto simp: l2_add_remote_port_def)
  from yieldsD [OF remove_lookup_yields [OF assms(3,6) s1(2)]] obtain s where
    s: "l2_remove_remote_port conf p' s1 = (None, s)"
      "l2_frep ck cm ((l2_table conf [] fl ++ map_of (port_flow_dict conf (False, b))) |`
         (- set (dict_keys (port_flow_dict conf (False, b'))))) d' s"
    by (auto simp: l2_remove_remote_port_def)
  let ?f = "ArpFlow (lb_net b) w"
  have "?f \<in> set (dict_keys (port_flow_dict conf (False, b)))" "?f \<notin> set (dict_keys (port_flow_dict conf (False, b')))"
    using assms(4,8,9) b unfolding port_flow_dict_keys by simp_all
  moreover from this(1) obtain i where "map_of (port_flow_dict conf (False, b)) ?f = Some i"
    using map_of_None_keys [of "port_flow_dict conf (False, b)" ?f] by fastforce
  ultimately have "((l2_table conf [] fl ++ map_of (port_flow_dict conf (False, b))) |`
         (- set (dict_keys (port_flow_dict conf (False, b'))))) ?f \<noteq> None"
    by (simp add: map_add_def del: set_map)
  with flows_rep_switch [OF s(2) [unfolded l2_frep_def] assms(1,2)] s0(1) s1(1) s(1) show ?thesis by auto
qed

section \<open>Examples\<close>

definition example_l2_conf :: "unit l2_conf" where
  "example_l2_conf = \<lparr>fc_cookies = empty_cookie_space, fc_opaque = (), is_install_l2_responder = True,
     haddr_to_bin = (\<lambda>mac. case mac of Some m \<Rightarrow> Inr (if m = ''a'' then 1 else 2) | None \<Rightarrow> Inl ValueError)\<rparr>"

definition example_l2_port :: "string \<Rightarrow> int \<Rightarrow> string \<Rightarrow> 32 word list \<Rightarrow> l2_port" where
  "example_l2_port i key mac ips = \<lparr>l2_id = i, l2_key = key, l2_network = Inr 9, l2_mac = Some mac,
     l2_ips = map IPv4 ips, l2_device_owner = ''compute''\<rparr>"

definition example_l2_store :: l2_store where
  "example_l2_store i = Some (example_l2_port i 0 [] [])"

lemma example_l2_stamps: "stamps example_l2_conf 0 0"
  by (simp add: stamps_def example_l2_conf_def empty_cookie_space_def apply_global_cookie_modifiers_def)

definition example_bound :: "string \<Rightarrow> int \<Rightarrow> string \<Rightarrow> 32 word list \<Rightarrow> l2_bound" where
  "example_bound i key mac ips = \<lparr>lb_id = i, lb_key = key, lb_net = 9, lb_addr = (if mac = ''a'' then 1 else 2),
     lb_mac = Some mac, lb_ips = map IPv4 ips, lb_routed = False\<rparr>"

lemma example_resolve:
  "resolve_port example_l2_conf (example_l2_port i key mac ips) = Some (example_bound i key mac ips)"
  by (simp add: resolve_port_def example_l2_conf_def example_l2_port_def example_bound_def BUM_ADDR_def
      DEVICE_OWNER_ROUTER_INTF_def)

lemma example_l2_life:
  "l2_after example_l2_conf [L2BindLocal example_l2_store (example_l2_port ''p'' 7 ''a'' [1]),
     L2BindLocal example_l2_store (example_l2_port ''q'' 8 ''b'' [2]),
     L2UnbindLocal example_l2_store (example_l2_port ''p'' 7 ''a'' [1])] [] = Some [(True, example_bound ''q'' 8 ''b'' [2])]"
proof -
  have "example_bound ''q'' 8 ''b'' [2] \<noteq> example_bound ''p'' 7 ''a'' [1]" by (simp add: example_bound_def)
  then show ?thesis
    by (simp add: example_resolve bind_port_def unbind_port_def l2_ports_ok_def own_names_def)
      (simp add: example_bound_def stored_def store_by_id_def example_l2_store_def example_l2_port_def locals_of_def BUM_ADDR_def)
qed

theorem l2_flows_exact_witness:
  "\<exists>s0 s. l2_switch_features_handler example_l2_conf \<lparr>fa_sent = [], l2_networks = []\<rparr> = (None, s0) \<and>
     run_each (l2_handle example_l2_conf) [L2BindLocal example_l2_store (example_l2_port ''p'' 7 ''a'' [1]),
       L2BindLocal example_l2_store (example_l2_port ''q'' 8 ''b'' [2]),
       L2UnbindLocal example_l2_store (example_l2_port ''p'' 7 ''a'' [1])] s0 = (None, s) \<and>
     fold mem_mod (fa_sent s) Map.empty (shape_key l2_shape (Unicast 9 1)) = None \<and>
     fold mem_mod (fa_sent s) Map.empty (shape_key l2_shape (Unicast 9 2)) = Some (0, to_port 8 EGRESS_TABLE) \<and>
     fold mem_mod (fa_sent s) Map.empty (shape_key l2_shape (Flood 9)) = Some (0, egress_copies [8])"
proof -
  have D: "ports_flow_dict example_l2_conf [(True, example_bound ''q'' 8 ''b'' [2])] =
      [(Unicast 9 2, to_port 8 EGRESS_TABLE), responder_flow 9 (Some ''b'') (IPv4 2),
       (InUnicast 9 2, to_port 8 INGRESS_CONNTRACK_TABLE), (EgressTo 8, [GotoTable INGRESS_CONNTRACK_TABLE])]"
    by (simp add: ports_flow_dict_def port_flow_dict_def lookup_flows_def dispatch_flows_def example_bound_def example_l2_conf_def)
  have k: "map lb_key (locals_of [(True, example_bound ''q'' 8 ''b'' [2])] 9) = [8]"
    by (simp add: locals_of_def example_bound_def)
  have m: "mset xs = mset [8] \<Longrightarrow> xs = [8]" for xs :: "int list" by (cases xs) auto
  from l2_flows_exact [OF mem.of_switch_axioms _ example_l2_stamps example_l2_life, of Map.empty "[]"]
  obtain s0 s fl where s: "l2_switch_features_handler example_l2_conf \<lparr>fa_sent = [], l2_networks = []\<rparr> = (None, s0)"
    "run_each (l2_handle example_l2_conf) [L2BindLocal example_l2_store (example_l2_port ''p'' 7 ''a'' [1]),
       L2BindLocal example_l2_store (example_l2_port ''q'' 8 ''b'' [2]),
       L2UnbindLocal example_l2_store (example_l2_port ''p'' 7 ''a'' [1])] s0 = (None, s)"
    and fl: "\<forall>n. mset (fl n) = mset (map lb_key (locals_of [(True, example_bound ''q'' 8 ''b'' [2])] n))"
    and T: "\<forall>f. fold mem_mod (fa_sent s) Map.empty (shape_key l2_shape f) = map_option (Pair 0)
       (case map_of (ports_flow_dict example_l2_conf [(True, example_bound ''q'' 8 ''b'' [2])]) f of
          Some i \<Rightarrow> Some i | None \<Rightarrow> other_flows fl f)"
    by blast
  have "fl 9 = [8]" using fl k m by metis
  then show ?thesis using s T by (auto simp: D responder_flow_def)
qed

theorem l2_keeps_old_responder_witness:
  "\<exists>s0 s1 s. l2_switch_features_handler example_l2_conf \<lparr>fa_sent = [], l2_networks = []\<rparr> = (None, s0) \<and>
    l2_add_remote_port example_l2_conf (example_l2_port ''p'' 7 ''a'' [1]) s0 = (None, s1) \<and>
    l2_remove_remote_port example_l2_conf (example_l2_port ''p'' 7 ''a'' [2]) s1 = (None, s) \<and>
    fold mem_mod (fa_sent s) Map.empty (shape_key l2_shape (ArpFlow 9 1)) \<noteq> None"
  using l2_keeps_old_responder [OF mem.of_switch_axioms _ example_l2_stamps _ example_resolve example_resolve,
      of Map.empty "''p''" 7 "''a''" "[1]" 1 "''p''" 7 "''a''" "[2]" "[]"]
  by (simp add: example_l2_conf_def example_l2_port_def example_bound_def)

end
