(* ===== verification/Pipeline.thy ===== *)
theory Pipeline
  imports Classifier L2_Flows
begin

text \<open>
  The way of a packet through the tables of the switch, and what the flows of the classifier and of
  the layer 2 application together do to it.
\<close>

section \<open>Packets in the tables\<close>

text \<open>A flow of the highest priority among those that match takes the packet.\<close>

definition takes :: "flow_table \<Rightarrow> nat \<Rightarrow> packet \<Rightarrow> inst list \<Rightarrow> bool" where
  "takes T table pkt i \<longleftrightarrow>
     (\<exists>priority m. T (table, priority, m) = Some i \<and> packet_matches m pkt \<and>
       (\<forall>priority' m'. T (table, priority', m') \<noteq> None \<longrightarrow> packet_matches m' pkt \<longrightarrow> priority' \<le> priority))"

datatype place = AtTable nat packet | AtPort pyval packet

text \<open>
  Actions change the packet and send copies of it on; the actions of the other applications have no
  meaning here.
\<close>

fun run_actions :: "action list \<Rightarrow> packet \<Rightarrow> (place list \<times> packet) option" where
  "run_actions [] pkt = Some ([], pkt)"
| "run_actions (SetField k v # as) pkt = run_actions as (pkt(k \<mapsto> v))"
| "run_actions (RegLoad k n # as) pkt = run_actions as (pkt(k \<mapsto> MInt n))"
| "run_actions (ResubmitTable table # as) pkt = map_option (\<lambda>(ps, q). (AtTable table pkt # ps, q)) (run_actions as pkt)"
| "run_actions (OutputPort port n # as) pkt = map_option (\<lambda>(ps, q). (AtPort port pkt # ps, q)) (run_actions as pkt)"
| "run_actions (a # as) pkt = None"

fun run_insts :: "inst list \<Rightarrow> packet \<Rightarrow> place list option" where
  "run_insts [] pkt = Some []"
| "run_insts [GotoTable table] pkt = Some [AtTable table pkt]"
| "run_insts (Actions OFPIT_APPLY_ACTIONS as # is) pkt =
     Option.bind (run_actions as pkt) (\<lambda>(ps, q). map_option ((@) ps) (run_insts is q))"
| "run_insts is pkt = None"

text \<open>A packet does not leave by the port it came in.\<close>

inductive delivered :: "flow_table \<Rightarrow> place \<Rightarrow> pyval \<Rightarrow> bool" for T where
  leaves: "pkt ''in_port'' \<noteq> Some (field_value port) \<Longrightarrow> delivered T (AtPort port pkt) port"
| moves: "takes T table pkt i \<Longrightarrow> run_insts i pkt = Some ps \<Longrightarrow> p \<in> set ps \<Longrightarrow> delivered T p port \<Longrightarrow>
    delivered T (AtTable table pkt) port"

inductive_simps delivered_at_port: "delivered T (AtPort port pkt) port'"
inductive_simps delivered_at_table: "delivered T (AtTable table pkt) port"

lemma delivered_by:
  assumes "takes T table pkt = (=) i" "run_insts i pkt = Some ps"
  shows "delivered T (AtTable table pkt) port \<longleftrightarrow> (\<exists>p\<in>set ps. delivered T p port)"
  unfolding delivered_at_table assms(1) using assms(2) by auto

lemma not_delivered: "(\<And>i. \<not> takes T table pkt i) \<Longrightarrow> \<not> delivered T (AtTable table pkt) port"
  unfolding delivered_at_table by simp

section \<open>Tables that hold a family of flows\<close>

definition table_holds :: "flow_table \<Rightarrow> nat \<Rightarrow> 'f flow_shape \<Rightarrow> ('f \<rightharpoonup> inst list) \<Rightarrow> bool" where
  "table_holds T table sh M \<longleftrightarrow> (\<forall>priority m. T (table, priority, m) = family_table sh M (table, priority, m))"

definition flow_matches :: "'f flow_shape \<Rightarrow> nat \<Rightarrow> packet \<Rightarrow> 'f \<Rightarrow> bool" where
  "flow_matches sh table pkt f \<longleftrightarrow> fst (sh f) = table \<and> packet_matches (map_of (snd (snd (sh f)))) pkt"

context flow_family
begin

lemma table_holds_Some:
  assumes "table_holds T table sh M" "T (table, priority, m) = Some i"
  obtains f where "sh f = (table, priority, snd (snd (sh f)))" "m = map_of (snd (snd (sh f)))" "M f = Some i"
proof -
  have "family_table sh M (table, priority, m) = Some i" using assms by (simp add: table_holds_def)
  then obtain f where "(table, priority, m) = shape_key sh f" "M f = Some i"
    by (metis family_table_key family_table_other imageE not_None_eq option.distinct(1))
  then show thesis using that [of f] by (cases "sh f") (simp add: shape_key_def)
qed

lemma takes_only:
  assumes "table_holds T table sh M" "flow_matches sh table pkt f" "M f = Some i"
    and "\<And>g. flow_matches sh table pkt g \<Longrightarrow> M g \<noteq> None \<Longrightarrow> g = f \<or> fst (snd (sh g)) < fst (snd (sh f))"
  shows "takes T table pkt = (=) i"
proof -
  have key: "shape_key sh f = (table, fst (snd (sh f)), map_of (snd (snd (sh f))))"
    using assms(2) by (cases "sh f") (simp add: shape_key_def flow_matches_def)
  have Tf: "T (table, fst (snd (sh f)), map_of (snd (snd (sh f)))) = Some i"
    using assms(1,3) family_table_key [of M f] by (simp add: table_holds_def key)
  have other: "(priority = fst (snd (sh f)) \<and> m = map_of (snd (snd (sh f)))) \<or> priority < fst (snd (sh f))"
    if "T (table, priority, m) = Some j" "packet_matches m pkt" for priority m j
  proof -
    from table_holds_Some [OF assms(1) that(1)] obtain g where
      g: "sh g = (table, priority, snd (snd (sh g)))" "m = map_of (snd (snd (sh g)))" "M g = Some j" .
    then have "flow_matches sh table pkt g" using that(2) by (metis flow_matches_def fst_conv)
    with assms(4) g show ?thesis by (metis fst_conv snd_conv option.distinct(1))
  qed
  show ?thesis
  proof (intro ext iffI)
    fix j
    assume "takes T table pkt j"
    then obtain priority m where t: "T (table, priority, m) = Some j" "packet_matches m pkt"
      "fst (snd (sh f)) \<le> priority"
      using Tf assms(2) unfolding takes_def flow_matches_def by blast
    with other [OF t(1,2)] Tf show "i = j" by auto
  next
    fix j
    assume "i = j"
    moreover have "\<forall>priority m. T (table, priority, m) \<noteq> None \<longrightarrow> packet_matches m pkt \<longrightarrow> priority \<le> fst (snd (sh f))"
      using other by fastforce
    ultimately show "takes T table pkt j"
      using Tf assms(2) unfolding takes_def flow_matches_def by blast
  qed
qed

lemma takes_none:
  assumes "table_holds T table sh M" "\<And>g. flow_matches sh table pkt g \<Longrightarrow> M g = None"
  shows "\<not> takes T table pkt i"
proof
  assume "takes T table pkt i"
  then obtain priority m where "T (table, priority, m) = Some i" "packet_matches m pkt" by (auto simp: takes_def)
  with table_holds_Some [OF assms(1)] assms(2) show False
    unfolding flow_matches_def by (metis fst_conv option.distinct(1))
qed

end

section \<open>Messages of several applications\<close>

definition on_tables :: "nat set \<Rightarrow> flow_mod list \<Rightarrow> flow_mod list" where
  "on_tables A fms = filter (\<lambda>fm. fm_table_id fm \<in> A) fms"

text \<open>
  The messages of a switch in the order it receives them: those for the tables of an application are
  the ones the application sent, in its order; the rest, for other tables, are of other applications.
\<close>

definition merges :: "int \<Rightarrow> int \<Rightarrow> (nat set \<times> flow_mod list) list \<Rightarrow> flow_mod list \<Rightarrow> bool" where
  "merges ck cm apps fms \<longleftrightarrow>
     list_all (carries ck cm) fms \<and> list_all (\<lambda>fm. fm_table_id fm \<noteq> OFPTT_ALL) fms \<and>
     list_all (\<lambda>(A, sent). on_tables A fms = sent) apps"

lemma table_mod_elsewhere:
  assumes "fm_table_id fm \<noteq> OFPTT_ALL" "fm_table_id fm \<noteq> table"
  shows "table_mod fm T (table, priority, m) = T (table, priority, m)"
  using assms by (auto simp: table_mod_def hits_def fm_key_def option.map_ident split: flow_command.splits)

lemma table_mod_local:
  "T (table, priority, m) = T' (table, priority, m) \<Longrightarrow>
   table_mod fm T (table, priority, m) = table_mod fm T' (table, priority, m)"
  by (auto simp: table_mod_def split: flow_command.splits)

lemma flows_on_tables:
  assumes "list_all (\<lambda>fm. fm_table_id fm \<noteq> OFPTT_ALL) fms" "table \<in> A"
  shows "flows_after fms (table, priority, m) = flows_after (on_tables A fms) (table, priority, m)"
  using assms(1)
proof (induction fms rule: rev_induct)
  case Nil
  then show ?case by (simp add: on_tables_def)
next
  case (snoc fm fms)
  then have IH: "flows_after fms (table, priority, m) = flows_after (on_tables A fms) (table, priority, m)" by simp
  show ?case
  proof (cases "fm_table_id fm \<in> A")
    case True
    then show ?thesis using table_mod_local [of "flows_after fms" table priority m "flows_after (on_tables A fms)" fm, OF IH]
      by (simp add: on_tables_def flows_after_append)
  next
    case False
    then have "fm_table_id fm \<noteq> table" using assms(2) by blast
    then show ?thesis using False snoc.prems IH table_mod_elsewhere [of fm table "flows_after fms"]
      by (simp add: on_tables_def flows_after_append)
  qed
qed

text \<open>What the switch holds after the messages.\<close>

lemma merged_holds:
  assumes "merges ck cm apps fms" "(tables_of sh fam, fa_sent s) \<in> set apps" "flows_rep sh fam ck cm M x s"
    and "table \<in> tables_of sh fam"
  shows "table_holds (flows_after fms) table sh M"
proof -
  have "on_tables (tables_of sh fam) fms = fa_sent s" "list_all (\<lambda>fm. fm_table_id fm \<noteq> OFPTT_ALL) fms"
    using assms(1,2) by (auto simp: merges_def list_all_iff)
  with flows_on_tables [OF this(2) assms(4)] assms(3) show ?thesis by (simp add: table_holds_def flows_rep_def)
qed

lemma merged_switch:
  assumes "of_switch sw_mod flow_at" "flow_at t0 = Map.empty" "merges ck cm apps fms"
  shows "(\<lambda>key. map_option snd (flow_at (fold sw_mod fms t0) key)) = flows_after fms"
  using of_switch.switch_flows_after [OF assms(1) _ assms(2), of ck cm fms] assms(3)
  by (simp add: merges_def fun_eq_iff option.map_comp comp_def option.map_ident)

section \<open>The layer 2 tables\<close>

lemma packet_matches_simps:
  "packet_matches Map.empty pkt"
  "m k = None \<Longrightarrow> packet_matches (m(k \<mapsto> v)) pkt \<longleftrightarrow>
     (\<exists>w. pkt k = Some w \<and> mval_covers v w) \<and> packet_matches m pkt"
  by (auto simp: packet_matches_def)

lemmas l2_matches = flow_matches_def table_defs packet_matches_simps unicast_match_def get_multicast_broadcast_match_def

lemma bum_disjoint: "dst AND BUM_ADDR = 0 \<Longrightarrow> dst AND BUM_ADDR \<noteq> BUM_ADDR"
  by (simp add: BUM_ADDR_def)

lemma l2_table_default:
  "l2_table conf P fl (DefaultOf table) = other_flows fl (DefaultOf table)"
  "l2_table conf P fl ArpTraffic = other_flows fl ArpTraffic" "l2_table conf P fl NdpTraffic = other_flows fl NdpTraffic"
proof -
  have "f \<notin> set (dict_keys (ports_flow_dict conf P))" if "f = DefaultOf table \<or> f = ArpTraffic \<or> f = NdpTraffic" for f
    using that port_flow_dict_keys [of f conf] by (auto simp: ports_flow_dict_def image_iff split: l2_flow.splits)
  then have "map_of (ports_flow_dict conf P) f = None" if "f = DefaultOf table \<or> f = ArpTraffic \<or> f = NdpTraffic" for f
    using that by (simp add: map_of_None_keys del: set_map)
  then show "l2_table conf P fl (DefaultOf table) = other_flows fl (DefaultOf table)"
    "l2_table conf P fl ArpTraffic = other_flows fl ArpTraffic" "l2_table conf P fl NdpTraffic = other_flows fl NdpTraffic"
    by (simp_all add: l2_table_def map_add_def)
qed

lemma l2_table_port:
  assumes "l2_ports_ok P" "p \<in> set P" "(f, i) \<in> set (port_flow_dict conf p)"
  shows "l2_table conf P fl f = Some i"
proof -
  have "(f, i) \<in> set (ports_flow_dict conf P)" using assms(2,3) by (force simp: ports_flow_dict_def)
  then show ?thesis using wf_ports_flow_dict [OF assms(1), of conf] by (simp add: l2_table_def map_add_def)
qed

lemma l2_table_unicast:
  assumes "l2_ports_ok P" "l2_table conf P fl (Unicast n dst) \<noteq> None"
  shows "dst AND BUM_ADDR = 0"
proof -
  have "map_of (ports_flow_dict conf P) (Unicast n dst) \<noteq> None" using assms(2) by (auto simp: l2_table_def map_add_def split: option.splits)
  then obtain p where "p \<in> set P" "Unicast n dst \<in> set (dict_keys (port_flow_dict conf p))"
    by (force simp: ports_flow_dict_def map_of_None_keys dest: map_of_SomeD)
  then show ?thesis using assms(1) by (auto simp: port_flow_dict_keys l2_ports_ok_def list_all_iff simp del: set_map)
qed

lemma l2_table_egress:
  assumes "l2_table conf P fl (EgressTo k) \<noteq> None"
  shows "\<exists>b. (True, b) \<in> set P \<and> lb_key b = k"
proof -
  have "map_of (ports_flow_dict conf P) (EgressTo k) \<noteq> None" using assms by (auto simp: l2_table_def map_add_def split: option.splits)
  then obtain p where "p \<in> set P" "EgressTo k \<in> set (dict_keys (port_flow_dict conf p))"
    by (force simp: ports_flow_dict_def map_of_None_keys dest: map_of_SomeD)
  then have "fst p" "lb_key (snd p) = k" "p \<in> set P" by (simp_all add: port_flow_dict_keys del: set_map)
  then show ?thesis by (cases p) auto
qed

definition plain_packet :: "packet \<Rightarrow> bool" where
  "plain_packet pkt \<longleftrightarrow> pkt ''eth_type'' \<noteq> Some (MInt ETH_TYPE_ARP) \<and>
     (pkt ''eth_type'' = Some (MInt ETH_TYPE_IPV6) \<longrightarrow> pkt ''ip_proto'' \<noteq> Some (MInt IPPROTO_ICMPV6))"

definition l2_holds :: "'o l2_conf \<Rightarrow> l2_ports \<Rightarrow> (int \<Rightarrow> int list) \<Rightarrow> flow_table \<Rightarrow> bool" where
  "l2_holds conf P fl T \<longleftrightarrow> l2_ports_ok P \<and>
     (\<forall>table\<in>tables_of l2_shape l2_fam. table_holds T table l2_shape (l2_table conf P fl))"

lemma l2_holdsD:
  assumes "l2_holds conf P fl T" "l2_fam f"
  shows "table_holds T (fst (l2_shape f)) l2_shape (l2_table conf P fl)"
  using assms tables_ofI [of l2_fam f l2_shape] by (simp add: l2_holds_def)

lemma takes_egress_conntrack:
  assumes "l2_holds conf P fl T"
  shows "takes T EGRESS_CONNTRACK_TABLE pkt = (=) (goto_insts EGRESS_CONNTRACK_TABLE SERVICES_CLASSIFICATION_TABLE)"
proof -
  let ?f = "DefaultOf EGRESS_CONNTRACK_TABLE"
  have "table_holds T EGRESS_CONNTRACK_TABLE l2_shape (l2_table conf P fl)" using l2_holdsD [OF assms, of ?f] by simp
  then show ?thesis
  proof (rule l2.takes_only)
    show "flow_matches l2_shape EGRESS_CONNTRACK_TABLE pkt ?f" by (simp add: l2_matches)
    show "l2_table conf P fl ?f = Some (goto_insts EGRESS_CONNTRACK_TABLE SERVICES_CLASSIFICATION_TABLE)"
      by (simp add: l2_table_default table_defs)
    show "g = ?f \<or> fst (snd (l2_shape g)) < fst (snd (l2_shape ?f))" if "flow_matches l2_shape EGRESS_CONNTRACK_TABLE pkt g" for g
      using that by (cases g) (simp_all add: l2_matches)
  qed
qed

lemma takes_ingress_conntrack:
  assumes "l2_holds conf P fl T"
  shows "takes T INGRESS_CONNTRACK_TABLE pkt = (=) (goto_insts INGRESS_CONNTRACK_TABLE INGRESS_DISPATCH_TABLE)"
proof -
  let ?f = "DefaultOf INGRESS_CONNTRACK_TABLE"
  have "table_holds T INGRESS_CONNTRACK_TABLE l2_shape (l2_table conf P fl)" using l2_holdsD [OF assms, of ?f] by simp
  then show ?thesis
  proof (rule l2.takes_only)
    show "flow_matches l2_shape INGRESS_CONNTRACK_TABLE pkt ?f" by (simp add: l2_matches)
    show "l2_table conf P fl ?f = Some (goto_insts INGRESS_CONNTRACK_TABLE INGRESS_DISPATCH_TABLE)"
      by (simp add: l2_table_default table_defs)
    show "g = ?f \<or> fst (snd (l2_shape g)) < fst (snd (l2_shape ?f))" if "flow_matches l2_shape INGRESS_CONNTRACK_TABLE pkt g" for g
      using that by (cases g) (simp_all add: l2_matches)
  qed
qed

lemma takes_services:
  assumes "l2_holds conf P fl T" "plain_packet pkt"
  shows "takes T SERVICES_CLASSIFICATION_TABLE pkt = (=) (goto_insts SERVICES_CLASSIFICATION_TABLE L2_LOOKUP_TABLE)"
proof -
  let ?f = "DefaultOf SERVICES_CLASSIFICATION_TABLE"
  have "table_holds T SERVICES_CLASSIFICATION_TABLE l2_shape (l2_table conf P fl)" using l2_holdsD [OF assms(1), of ?f] by simp
  then show ?thesis
  proof (rule l2.takes_only)
    show "flow_matches l2_shape SERVICES_CLASSIFICATION_TABLE pkt ?f" by (simp add: l2_matches)
    show "l2_table conf P fl ?f = Some (goto_insts SERVICES_CLASSIFICATION_TABLE L2_LOOKUP_TABLE)"
      by (simp add: l2_table_default)
    show "g = ?f \<or> fst (snd (l2_shape g)) < fst (snd (l2_shape ?f))" if "flow_matches l2_shape SERVICES_CLASSIFICATION_TABLE pkt g" for g
      using that assms(2) by (cases g) (auto simp: l2_matches plain_packet_def ETH_TYPE_ARP_def)
  qed
qed

lemma takes_lookup_unicast:
  assumes "l2_holds conf P fl T" "(loc, b) \<in> set P" "\<not> lb_routed b"
    and "pkt ''metadata'' = Some (MInt (lb_net b))" "pkt ''eth_dst'' = Some (MInt (lb_addr b))"
  shows "takes T L2_LOOKUP_TABLE pkt = (=) (to_port (lb_key b) EGRESS_TABLE)"
proof -
  let ?f = "Unicast (lb_net b) (lb_addr b)"
  have ok: "l2_ports_ok P" "lb_addr b AND BUM_ADDR = 0" using assms(1,2) by (auto simp: l2_holds_def l2_ports_ok_def list_all_iff)
  then have "table_holds T L2_LOOKUP_TABLE l2_shape (l2_table conf P fl)" using l2_holdsD [OF assms(1), of ?f] by simp
  then show ?thesis
  proof (rule l2.takes_only)
    show "flow_matches l2_shape L2_LOOKUP_TABLE pkt ?f" using assms(4,5) by (simp add: l2_matches)
    show "l2_table conf P fl ?f = Some (to_port (lb_key b) EGRESS_TABLE)"
      using assms(3) by (intro l2_table_port [OF ok(1) assms(2)]) (simp add: port_flow_dict_def lookup_flows_def)
    show "g = ?f \<or> fst (snd (l2_shape g)) < fst (snd (l2_shape ?f))" if "flow_matches l2_shape L2_LOOKUP_TABLE pkt g" for g
      using that assms(4,5) bum_disjoint [OF ok(2)] by (cases g) (auto simp: l2_matches PRIORITY_DEFAULT_def PRIORITY_MEDIUM_def)
  qed
qed

lemma takes_lookup_flood:
  assumes "l2_holds conf P fl T" "fl n \<noteq> []"
    and "pkt ''metadata'' = Some (MInt n)" "pkt ''eth_dst'' = Some (MInt dst)" "dst AND BUM_ADDR = BUM_ADDR"
  shows "takes T L2_LOOKUP_TABLE pkt = (=) (egress_copies (fl n))"
proof -
  let ?f = "Flood n"
  have ok: "l2_ports_ok P" using assms(1) by (simp add: l2_holds_def)
  have "table_holds T L2_LOOKUP_TABLE l2_shape (l2_table conf P fl)" using l2_holdsD [OF assms(1), of ?f] by simp
  then show ?thesis
  proof (rule l2.takes_only)
    show "flow_matches l2_shape L2_LOOKUP_TABLE pkt ?f" using assms(3-5) by (simp add: l2_matches)
    show "l2_table conf P fl ?f = Some (egress_copies (fl n))" using assms(2) by (simp add: l2_table_has_flood)
    show "g = ?f \<or> fst (snd (l2_shape g)) < fst (snd (l2_shape ?f))"
      if "flow_matches l2_shape L2_LOOKUP_TABLE pkt g" "l2_table conf P fl g \<noteq> None" for g
      using that assms(3-5) l2_table_unicast [OF ok, of conf fl n dst] bum_disjoint [of dst]
      by (cases g) (auto simp: l2_matches PRIORITY_DEFAULT_def PRIORITY_MEDIUM_def)
  qed
qed

lemma no_lookup_flood:
  assumes "l2_holds conf P fl T" "fl n = []"
    and "pkt ''metadata'' = Some (MInt n)" "pkt ''eth_dst'' = Some (MInt dst)" "dst AND BUM_ADDR = BUM_ADDR"
  shows "\<not> takes T L2_LOOKUP_TABLE pkt i"
proof -
  have ok: "l2_ports_ok P" using assms(1) by (simp add: l2_holds_def)
  have u: "l2_table conf P fl (Unicast n dst) = None"
    using l2_table_unicast [OF ok, of conf fl n dst] bum_disjoint [of dst] assms(5) by blast
  have "table_holds T L2_LOOKUP_TABLE l2_shape (l2_table conf P fl)" using l2_holdsD [OF assms(1), of "Flood n"] by simp
  then show ?thesis
  proof (rule l2.takes_none)
    show "l2_table conf P fl g = None" if "flow_matches l2_shape L2_LOOKUP_TABLE pkt g" for g
      using that assms(2-5) u by (cases g) (auto simp: l2_matches l2_table_has_flood l2_table_default)
  qed
qed

lemma takes_egress:
  assumes "l2_holds conf P fl T" "(True, b) \<in> set P" "pkt ''reg7'' = Some (MInt (lb_key b))"
  shows "takes T EGRESS_TABLE pkt = (=) [GotoTable INGRESS_CONNTRACK_TABLE]"
proof -
  let ?f = "EgressTo (lb_key b)"
  have ok: "l2_ports_ok P" using assms(1) by (simp add: l2_holds_def)
  have "table_holds T EGRESS_TABLE l2_shape (l2_table conf P fl)" using l2_holdsD [OF assms(1), of ?f] by simp
  then show ?thesis
  proof (rule l2.takes_only)
    show "flow_matches l2_shape EGRESS_TABLE pkt ?f" using assms(3) by (simp add: l2_matches)
    show "l2_table conf P fl ?f = Some [GotoTable INGRESS_CONNTRACK_TABLE]"
      by (intro l2_table_port [OF ok assms(2)]) (simp add: port_flow_dict_def dispatch_flows_def)
    show "g = ?f \<or> fst (snd (l2_shape g)) < fst (snd (l2_shape ?f))" if "flow_matches l2_shape EGRESS_TABLE pkt g" for g
      using that assms(3) by (cases g) (auto simp: l2_matches PRIORITY_DEFAULT_def PRIORITY_MEDIUM_def)
  qed
qed

lemma no_egress:
  assumes "l2_holds conf P fl T" "\<forall>b. (True, b) \<in> set P \<longrightarrow> lb_key b \<noteq> k" "pkt ''reg7'' = Some (MInt k)"
  shows "\<not> takes T EGRESS_TABLE pkt i"
proof -
  have u: "l2_table conf P fl (EgressTo k) = None" using l2_table_egress [of conf P fl k] assms(2) by blast
  have "table_holds T EGRESS_TABLE l2_shape (l2_table conf P fl)" using l2_holdsD [OF assms(1), of "EgressTo k"] by simp
  then show ?thesis
  proof (rule l2.takes_none)
    show "l2_table conf P fl g = None" if "flow_matches l2_shape EGRESS_TABLE pkt g" for g
      using that assms(2,3) u by (cases g) (auto simp: l2_matches l2_table_default)
  qed
qed

section \<open>The dispatch table\<close>

lemma find_Some_unique: "distinct (map f xs) \<Longrightarrow> x \<in> set xs \<Longrightarrow> find (\<lambda>y. f y = f x) xs = Some x"
  by (induction xs) (auto simp: image_iff)

lemma takes_dispatch:
  assumes "table_holds T INGRESS_DISPATCH_TABLE cls_shape (cls_flows E)" "pkt ''reg7'' = Some (MInt (ce_key e))"
    and "cls_inv E" "e \<in> set (dict_values E)"
  shows "takes T INGRESS_DISPATCH_TABLE pkt = (=) (leave_insts e)"
  using assms(1)
proof (rule cls.takes_only)
  let ?f = "Leave (ce_key e)"
  show "flow_matches cls_shape INGRESS_DISPATCH_TABLE pkt ?f" using assms(2) by (simp add: l2_matches)
  have "find (\<lambda>x. ce_key x = ce_key e) (dict_values E) = Some e"
    using assms(3,4) by (intro find_Some_unique) (simp_all add: cls_inv_def)
  then show "cls_flows E ?f = Some (leave_insts e)" by simp
  show "g = ?f \<or> fst (snd (cls_shape g)) < fst (snd (cls_shape ?f))" if "flow_matches cls_shape INGRESS_DISPATCH_TABLE pkt g" for g
    using that assms(2) by (cases g) (auto simp: l2_matches)
qed

lemma no_dispatch:
  assumes "table_holds T INGRESS_DISPATCH_TABLE cls_shape (cls_flows E)" "pkt ''reg7'' = Some (MInt k)"
    and "\<forall>e\<in>set (dict_values E). ce_key e \<noteq> k"
  shows "\<not> takes T INGRESS_DISPATCH_TABLE pkt i"
  using assms(1)
proof (rule cls.takes_none)
  have "find (\<lambda>x. ce_key x = k) (dict_values E) = None" using assms(3) by (simp add: find_None_iff)
  then show "cls_flows E g = None" if "flow_matches cls_shape INGRESS_DISPATCH_TABLE pkt g" for g
    using that assms(2) by (cases g) (auto simp: l2_matches)
qed

text \<open>From the table before the dispatch a packet for a port leaves by the ready switch port of it.\<close>

definition port_of :: "cls_entries \<Rightarrow> int \<Rightarrow> pyval \<Rightarrow> bool" where
  "port_of E k port \<longleftrightarrow> (\<exists>e\<in>set (dict_values E). ce_key e = k \<and> port = PInt (ce_port e))"

lemma delivered_conntrack:
  assumes "l2_holds conf P fl T" "table_holds T INGRESS_DISPATCH_TABLE cls_shape (cls_flows E)" "cls_inv E"
    and "\<forall>e\<in>set (dict_values E). ce_port e \<noteq> 0" "pkt ''reg7'' = Some (MInt k)" "pkt ''in_port'' = Some (MInt 0)"
  shows "delivered T (AtTable INGRESS_CONNTRACK_TABLE pkt) port \<longleftrightarrow> port_of E k port"
proof -
  have "delivered T (AtTable INGRESS_CONNTRACK_TABLE pkt) port \<longleftrightarrow> delivered T (AtTable INGRESS_DISPATCH_TABLE pkt) port"
    using delivered_by [OF takes_ingress_conntrack [OF assms(1)], of pkt "[AtTable INGRESS_DISPATCH_TABLE pkt]"]
    by (simp add: goto_insts_def table_defs)
  also have "\<dots> \<longleftrightarrow> port_of E k port"
  proof (cases "\<exists>e\<in>set (dict_values E). ce_key e = k")
    case True
    then obtain e where e: "e \<in> set (dict_values E)" "ce_key e = k" by blast
    have u: "x = e" if "x \<in> set (dict_values E)" "ce_key x = k" for x
      using that e assms(3) unfolding cls_inv_def distinct_map inj_on_def by blast
    have "takes T INGRESS_DISPATCH_TABLE pkt = (=) (leave_insts e)"
      using assms(5) e(2) by (intro takes_dispatch [OF assms(2) _ assms(3) e(1)]) simp
    from delivered_by [OF this, of "[AtPort (PInt (ce_port e)) pkt]"]
    have "delivered T (AtTable INGRESS_DISPATCH_TABLE pkt) port \<longleftrightarrow> port = PInt (ce_port e)"
      using assms(4,6) e(1) by (auto simp: leave_insts_def delivered_at_port)
    also have "\<dots> \<longleftrightarrow> port_of E k port" unfolding port_of_def using e u by blast
    finally show ?thesis .
  next
    case False
    then show ?thesis using not_delivered no_dispatch [of T E pkt k, OF assms(2,5)] unfolding port_of_def by blast
  qed
  finally show ?thesis .
qed

section \<open>Delivery\<close>

text \<open>A packet with the key of a port in its register, at the egress table.\<close>

definition local_key :: "l2_ports \<Rightarrow> int \<Rightarrow> bool" where
  "local_key P k \<longleftrightarrow> (\<exists>b. (True, b) \<in> set P \<and> lb_key b = k)"

lemma delivered_egress:
  assumes "l2_holds conf P fl T" "table_holds T INGRESS_DISPATCH_TABLE cls_shape (cls_flows E)" "cls_inv E"
    and "\<forall>e\<in>set (dict_values E). ce_port e \<noteq> 0" "pkt ''reg7'' = Some (MInt k)" "pkt ''in_port'' = Some (MInt 0)"
  shows "delivered T (AtTable EGRESS_TABLE pkt) port \<longleftrightarrow> local_key P k \<and> port_of E k port"
proof (cases "local_key P k")
  case True
  then obtain b where b: "(True, b) \<in> set P" "lb_key b = k" by (auto simp: local_key_def)
  then have "takes T EGRESS_TABLE pkt = (=) [GotoTable INGRESS_CONNTRACK_TABLE]"
    using assms(5) by (intro takes_egress [OF assms(1)]) auto
  from delivered_by [OF this, of "[AtTable INGRESS_CONNTRACK_TABLE pkt]"] True delivered_conntrack [OF assms]
  show ?thesis by simp
next
  case False
  then show ?thesis using not_delivered no_egress [of conf P fl T k pkt, OF assms(1) _ assms(5)] by (metis local_key_def)
qed

definition addressed :: "packet \<Rightarrow> int \<Rightarrow> packet" where
  "addressed pkt k = pkt(''reg7'' \<mapsto> MInt k)"

lemma addressed_simps [simp]:
  "addressed (addressed pkt k) k' = addressed pkt k'" "addressed pkt k ''reg7'' = Some (MInt k)"
  "field \<noteq> ''reg7'' \<Longrightarrow> addressed pkt k field = pkt field"
  by (simp_all add: addressed_def)

lemma run_copies:
  "\<exists>q. run_actions (copies table ks) pkt = Some (map (\<lambda>k. AtTable table (addressed pkt k)) ks, q)"
proof (induction ks arbitrary: pkt)
  case Nil
  then show ?case by (simp add: copies_def)
next
  case (Cons k ks)
  have "run_actions (copies table (k # ks)) pkt =
      map_option (\<lambda>(ps, q). (AtTable table (addressed pkt k) # ps, q)) (run_actions (copies table ks) (addressed pkt k))"
    by (simp add: copies_def addressed_def)
  with Cons [of "addressed pkt k"] show ?case by auto
qed

lemma delivered_services:
  assumes "l2_holds conf P fl T" "plain_packet pkt"
  shows "delivered T (AtTable EGRESS_CONNTRACK_TABLE pkt) port \<longleftrightarrow> delivered T (AtTable L2_LOOKUP_TABLE pkt) port"
  using delivered_by [OF takes_egress_conntrack [OF assms(1)], of pkt "[AtTable SERVICES_CLASSIFICATION_TABLE pkt]"]
    delivered_by [OF takes_services [OF assms], of "[AtTable L2_LOOKUP_TABLE pkt]"]
  by (simp add: goto_insts_def table_defs)

lemma delivered_unicast:
  assumes "l2_holds conf P fl T" "table_holds T INGRESS_DISPATCH_TABLE cls_shape (cls_flows E)" "cls_inv E"
    and "\<forall>e\<in>set (dict_values E). ce_port e \<noteq> 0" "pkt ''in_port'' = Some (MInt 0)"
    and "(loc, b) \<in> set P" "\<not> lb_routed b"
    and "pkt ''metadata'' = Some (MInt (lb_net b))" "pkt ''eth_dst'' = Some (MInt (lb_addr b))"
  shows "delivered T (AtTable L2_LOOKUP_TABLE pkt) port \<longleftrightarrow> local_key P (lb_key b) \<and> port_of E (lb_key b) port"
proof -
  let ?pkt = "addressed pkt (lb_key b)"
  from delivered_by [OF takes_lookup_unicast [OF assms(1,6-9)], of "[AtTable EGRESS_TABLE ?pkt]"]
    delivered_egress [OF assms(1-4), of ?pkt] assms(5)
  show ?thesis by (simp add: to_port_def addressed_def)
qed

lemma delivered_flood:
  assumes "l2_holds conf P fl T" "table_holds T INGRESS_DISPATCH_TABLE cls_shape (cls_flows E)" "cls_inv E"
    and "\<forall>e\<in>set (dict_values E). ce_port e \<noteq> 0" "pkt ''in_port'' = Some (MInt 0)"
    and "pkt ''metadata'' = Some (MInt n)" "pkt ''eth_dst'' = Some (MInt dst)" "dst AND BUM_ADDR = BUM_ADDR"
    and "\<not> local_key P 0" "set (fl n) = lb_key ` set (locals_of P n)"
  shows "delivered T (AtTable L2_LOOKUP_TABLE pkt) port \<longleftrightarrow> (\<exists>b\<in>set (locals_of P n). port_of E (lb_key b) port)"
proof (cases "fl n = []")
  case True
  then show ?thesis using not_delivered no_lookup_flood [OF assms(1) True assms(6-8)] assms(10) by auto
next
  case False
  have loc: "local_key P (lb_key b)" if "b \<in> set (locals_of P n)" for b
    using that by (auto simp: local_key_def locals_of_def)
  let ?ps = "map (\<lambda>k. AtTable EGRESS_TABLE (addressed pkt k)) (fl n @ [0])"
  have "run_insts (egress_copies (fl n)) pkt = Some ?ps"
    using run_copies [of EGRESS_TABLE "fl n @ [0]" pkt] by (auto simp: egress_copies_def)
  from delivered_by [OF takes_lookup_flood [OF assms(1) False assms(6-8)] this]
  have "delivered T (AtTable L2_LOOKUP_TABLE pkt) port \<longleftrightarrow>
      (\<exists>k\<in>set (fl n @ [0]). delivered T (AtTable EGRESS_TABLE (addressed pkt k)) port)"
    by simp
  also have "\<dots> \<longleftrightarrow> (\<exists>k\<in>set (fl n @ [0]). local_key P k \<and> port_of E k port)"
    using delivered_egress [OF assms(1-4)] assms(5) by simp
  also have "\<dots> \<longleftrightarrow> (\<exists>b\<in>set (locals_of P n). port_of E (lb_key b) port)"
    using assms(9,10) loc by auto
  finally show ?thesis .
qed

text \<open>Switch ports that are ready have a number other than zero.\<close>

lemma cls_after_event_inv:
  assumes "cls_after_event ev E = Some E'" "cls_inv E" "\<forall>e\<in>set (dict_values E). ce_port e \<noteq> 0"
  shows "cls_inv E' \<and> (\<forall>e\<in>set (dict_values E'). ce_port e \<noteq> 0)"
proof -
  have del: "set (dict_values (AList.delete i E)) \<subseteq> set (dict_values E)" for i
    by (auto simp: AList.delete_eq)
  have upd: "set (dict_values (AList.update i e F)) \<subseteq> insert e (set (dict_values F))" for i e and F :: cls_entries
    by (induction F) auto
  show ?thesis
  proof (cases ev)
    case (SpDeleted sp)
    then show ?thesis using assms(1,2) cls_inv_delete del [of "sp_id sp"] bspec [OF assms(3)] by (auto simp del: set_map)
  next
    case (SpCreated sp orig lport)
    define F where "F = (if cls_port_moved sp orig then AList.delete (sp_id sp) E else E)"
    have F: "cls_inv F" "\<forall>e\<in>set (dict_values F). ce_port e \<noteq> 0"
      using assms(2) cls_inv_delete del [of "sp_id sp"] bspec [OF assms(3)] by (auto simp: F_def simp del: set_map)
    show ?thesis
    proof (cases "sp_lport sp = None \<or> ready_port sp = None")
      case True
      then have "E' = E \<or> E' = F" using assms(1) SpCreated by (auto simp: F_def Let_def split: if_splits option.splits)
      then show ?thesis using assms(2,3) F by blast
    next
      case False
      then obtain n where n: "ready_port sp = Some n" "enter_lport sp n lport F = Some E'"
        using assms(1) SpCreated by (auto simp: F_def Let_def split: option.splits)
      from n(1) have "n \<noteq> 0" by (auto simp: ready_port_def split: option.splits if_splits)
      moreover from n(2) obtain k net where "may_enter F (sp_id sp) \<lparr>ce_port = n, ce_key = k, ce_network = net\<rparr>"
        "E' = AList.update (sp_id sp) \<lparr>ce_port = n, ce_key = k, ce_network = net\<rparr> F"
        by (auto simp: enter_lport_def Let_def split: option.splits sum.splits if_splits)
      then obtain e where e: "ce_port e = n" "may_enter F (sp_id sp) e" "E' = AList.update (sp_id sp) e F"
        by (metis cls_entry.select_convs(1))
      ultimately show ?thesis using F cls_inv_enter [OF F(1) e(2)] upd [of "sp_id sp" e F] by (auto simp del: set_map)
    qed
  qed
qed

lemma cls_after_inv:
  assumes "cls_after evs E = Some E'" "cls_inv E" "\<forall>e\<in>set (dict_values E). ce_port e \<noteq> 0"
  shows "cls_inv E' \<and> (\<forall>e\<in>set (dict_values E'). ce_port e \<noteq> 0)"
  using assms
proof (induction evs arbitrary: E)
  case Nil
  then show ?case by simp
next
  case (Cons ev evs)
  then obtain F where F: "cls_after_event ev E = Some F" "cls_after evs F = Some E'" by (auto simp: bind_eq_Some_conv)
  from cls_after_event_inv [OF F(1) Cons.prems(2,3)] Cons.IH [OF F(2)] show ?case by blast
qed

text \<open>Both applications have run, and the switch holds their flows.\<close>

lemma dispatch_table: "INGRESS_DISPATCH_TABLE \<in> tables_of cls_shape cls_fam"
  by (rule tables_ofI [of _ "Leave 0"]) (simp_all add: cls_fam_def)

lemma both_run:
  assumes "stamps lconf ck cm" "stamps cconf ck cm" "l2_after lconf evs [] = Some P" "cls_after cevs [] = Some E"
  shows "\<exists>l0 l c0 c fl.
    l2_switch_features_handler lconf \<lparr>fa_sent = [], l2_networks = []\<rparr> = (None, l0) \<and> run_each (l2_handle lconf) evs l0 = (None, l) \<and>
    cls_switch_features_handler cconf \<lparr>fa_sent = [], ofport_unique_key_map = []\<rparr> = (None, c0) \<and>
    run_each (cls_handle cconf) cevs c0 = (None, c) \<and>
    (\<forall>n. set (fl n) = lb_key ` set (locals_of P n)) \<and> cls_inv E \<and> (\<forall>e\<in>set (dict_values E). ce_port e \<noteq> 0) \<and>
    (\<forall>fms. merges ck cm [(tables_of l2_shape l2_fam, fa_sent l), (tables_of cls_shape cls_fam, fa_sent c)] fms \<longrightarrow>
       l2_holds lconf P fl (flows_after fms) \<and>
       (\<forall>table\<in>tables_of cls_shape cls_fam. table_holds (flows_after fms) table cls_shape (cls_flows E)))"
proof -
  from l2_life [OF assms(1,3), of "[]"] obtain l0 l fl d where
    l: "l2_switch_features_handler lconf \<lparr>fa_sent = [], l2_networks = []\<rparr> = (None, l0)" "run_each (l2_handle lconf) evs l0 = (None, l)"
      "l2_frep ck cm (l2_table lconf P fl) d l" "floods_locals P fl" by (auto simp: l2_rep_def)
  from cls_life [OF assms(2,4), of "[]"] obtain c0 c where
    c: "cls_switch_features_handler cconf \<lparr>fa_sent = [], ofport_unique_key_map = []\<rparr> = (None, c0)"
      "run_each (cls_handle cconf) cevs c0 = (None, c)" "cls_rep ck cm (cls_flows E) (cls_map E) c" by blast
  have ok: "l2_ports_ok P" using l2_after_ports_ok [OF assms(3)] by (simp add: l2_ports_ok_def)
  have "set (fl n) = lb_key ` set (locals_of P n)" for n
    using l(4) by (metis floods_locals_def set_map set_mset_mset)
  moreover have "l2_holds lconf P fl (flows_after fms) \<and>
       (\<forall>table\<in>tables_of cls_shape cls_fam. table_holds (flows_after fms) table cls_shape (cls_flows E))"
    if "merges ck cm [(tables_of l2_shape l2_fam, fa_sent l), (tables_of cls_shape cls_fam, fa_sent c)] fms" for fms
    using merged_holds [OF that _ l(3) [unfolded l2_frep_def]] merged_holds [OF that _ c(3) [unfolded cls_rep_def]] ok
    by (simp add: l2_holds_def)
  moreover have "cls_inv E \<and> (\<forall>e\<in>set (dict_values E). ce_port e \<noteq> 0)"
    using cls_after_inv [OF assms(4)] by (simp add: cls_inv_def)
  ultimately show ?thesis using l(1,2) c(1,2) by blast
qed

section \<open>Correctness\<close>



text \<open>
  The tables a flow sends packets on to, by a goto instruction or by resubmission; OpenFlow accepts
  a goto only to a later table.
\<close>

fun action_tables :: "action \<Rightarrow> nat list" where
  "action_tables (ResubmitTable table) = [table]"
| "action_tables a = []"

fun inst_tables :: "inst \<Rightarrow> nat list" where
  "inst_tables (GotoTable table) = [table]"
| "inst_tables (Actions t as) = concat (map action_tables as)"

definition insts_forward :: "nat \<Rightarrow> inst list \<Rightarrow> bool" where
  "insts_forward table i \<longleftrightarrow> list_all (\<lambda>t. table < t \<and> t < OFPTT_ALL) (concat (map inst_tables i))"

lemmas forward_defs = insts_forward_def table_defs OFPTT_ALL_def

lemma goto_forward: "table < t \<Longrightarrow> t < OFPTT_ALL \<Longrightarrow> insts_forward table (goto_insts table t)"
  by (simp add: insts_forward_def goto_insts_def)

lemma copies_tables: "concat (map action_tables (copies table ks)) = replicate (length ks) table"
  by (induction ks) (simp_all add: copies_def)

lemma copies_forward: "table < t \<Longrightarrow> t < OFPTT_ALL \<Longrightarrow> insts_forward table [Actions ty (copies t ks)]"
  by (simp add: insts_forward_def copies_tables list_all_length)

lemma port_flow_forward:
  assumes "(f, i) \<in> set (port_flow_dict conf p)"
  shows "insts_forward (fst (l2_shape f)) i"
proof -
  have r: "insts_forward (fst (l2_shape (fst (responder_flow n mac ip)))) (snd (responder_flow n mac ip))" for n mac ip
    by (cases ip) (simp_all add: responder_flow_def arp_get_instructions_def nd_get_instructions_def ArpResponder_def
        forward_defs)
  have o: "insts_forward (fst (l2_shape f)) i"
    if "(f, i) \<in> set [(Unicast n d, to_port k EGRESS_TABLE), (InUnicast n d, to_port k INGRESS_CONNTRACK_TABLE),
      (EgressTo k, [GotoTable INGRESS_CONNTRACK_TABLE])]" for n d k
    using that by (auto simp: to_port_def forward_defs)
  from assms obtain n d k where "(f, i) \<in> set [(Unicast n d, to_port k EGRESS_TABLE), (InUnicast n d, to_port k INGRESS_CONNTRACK_TABLE),
      (EgressTo k, [GotoTable INGRESS_CONNTRACK_TABLE])] \<or> (\<exists>ip. (f, i) = responder_flow (lb_net (snd p)) (lb_mac (snd p)) ip)"
    by (auto simp: port_flow_dict_def lookup_flows_def dispatch_flows_def split: if_splits)
  with o [of n d k] r show ?thesis by (metis fst_conv snd_conv)
qed

lemma l2_table_forward:
  assumes "l2_table conf P fl f = Some i"
  shows "insts_forward (fst (l2_shape f)) i"
proof (cases "map_of (ports_flow_dict conf P) f")
  case None
  then have "other_flows fl f = Some i" using assms by (simp add: l2_table_def map_add_def)
  then show ?thesis
    by (cases f) (auto simp: egress_copies_def ingress_copies_def table_defs OFPTT_ALL_def
        intro!: goto_forward copies_forward split: if_splits)
next
  case (Some j)
  then have "j = i" "(f, j) \<in> set (ports_flow_dict conf P)" using assms by (auto simp: l2_table_def map_add_def dest: map_of_SomeD)
  then show ?thesis using port_flow_forward by (auto simp: ports_flow_dict_def)
qed

lemma cls_flows_forward: "cls_flows E f = Some i \<Longrightarrow> insts_forward (fst (cls_shape f)) i"
  by (cases f) (auto simp: enter_insts_def leave_insts_def classification_actions_def goto_insts_def forward_defs)


section \<open>Examples\<close>

text \<open>The messages of the two applications one after the other.\<close>

lemma l2_tables:
  assumes "table \<in> tables_of l2_shape l2_fam"
  shows "table \<in> {SERVICES_CLASSIFICATION_TABLE, ARP_TABLE, IPV6_ND_TABLE, EGRESS_CONNTRACK_TABLE,
      INGRESS_CONNTRACK_TABLE, L2_LOOKUP_TABLE, EGRESS_TABLE, INGRESS_DESTINATION_PORT_LOOKUP_TABLE}"
proof -
  from assms obtain f where "l2_fam f" "table = fst (l2_shape f)" by (auto simp: tables_of_def)
  then show ?thesis by (cases f) auto
qed

lemma cls_tables:
  assumes "table \<in> tables_of cls_shape cls_fam"
  shows "table \<in> {INGRESS_CLASSIFICATION_DISPATCH_TABLE, INGRESS_DISPATCH_TABLE}"
proof -
  from assms obtain f where "table = fst (cls_shape f)" by (auto simp: tables_of_def)
  then show ?thesis by (cases f) auto
qed

lemma merges_append:
  assumes "flows_rep l2_shape l2_fam ck cm M x l" "flows_rep cls_shape cls_fam ck cm N y c"
  shows "merges ck cm [(tables_of l2_shape l2_fam, fa_sent l), (tables_of cls_shape cls_fam, fa_sent c)] (fa_sent l @ fa_sent c)"
proof -
  let ?L = "tables_of l2_shape l2_fam" and ?C = "tables_of cls_shape cls_fam"
  have d: "table \<notin> ?C" "table \<noteq> OFPTT_ALL" if "table \<in> ?L" for table
    using l2_tables [OF that] cls_tables [of table] by (auto simp: table_defs OFPTT_ALL_def)
  have n: "table \<noteq> OFPTT_ALL" if "table \<in> ?C" for table
    using cls_tables [OF that] by (auto simp: table_defs OFPTT_ALL_def)
  have l: "list_all (carries ck cm) (fa_sent l)" "\<forall>fm\<in>set (fa_sent l). fm_table_id fm \<in> ?L"
    and c: "list_all (carries ck cm) (fa_sent c)" "\<forall>fm\<in>set (fa_sent c). fm_table_id fm \<in> ?C"
    using assms by (simp_all add: flows_rep_def list_all_iff)
  have "on_tables ?L (fa_sent l) = fa_sent l" "on_tables ?C (fa_sent c) = fa_sent c"
    unfolding on_tables_def filter_id_conv using l(2) c(2) by blast+
  moreover have "on_tables ?L (fa_sent c) = []" "on_tables ?C (fa_sent l) = []"
    unfolding on_tables_def filter_empty_conv using l(2) c(2) d(1) by blast+
  ultimately have "on_tables ?L (fa_sent l @ fa_sent c) = fa_sent l" "on_tables ?C (fa_sent l @ fa_sent c) = fa_sent c"
    by (simp_all add: on_tables_def)
  moreover have "list_all (\<lambda>fm. fm_table_id fm \<noteq> OFPTT_ALL) (fa_sent l @ fa_sent c)"
    using l(2) c(2) d(2) n by (simp add: list_all_iff ball_Un)
  ultimately show ?thesis using l(1) c(1) by (simp add: merges_def)
qed

definition example_packet :: "int \<Rightarrow> packet" where
  "example_packet dst = [''in_port'' \<mapsto> MInt 0, ''metadata'' \<mapsto> MInt 9, ''eth_dst'' \<mapsto> MInt dst, ''eth_type'' \<mapsto> MInt ETH_TYPE_IP]"

definition example_switch_events :: "cls_event list" where
  "example_switch_events =
     [SpCreated (example_switch_port 3 ''q'') None (Some (example_cls_lport 8)),
      SpCreated (example_switch_port 4 ''q'') (Some (example_switch_port 3 ''q'')) (Some (example_cls_lport 8))]"

definition example_port_events :: "l2_event list" where
  "example_port_events = [L2BindLocal example_l2_store (example_l2_port ''p'' 7 ''a'' [1]),
     L2BindLocal example_l2_store (example_l2_port ''q'' 8 ''b'' [2]),
     L2UnbindLocal example_l2_store (example_l2_port ''p'' 7 ''a'' [1])]"

lemma example_switch_life: "cls_after example_switch_events [] = Some [(''sp'', \<lparr>ce_port = 4, ce_key = 8, ce_network = 9\<rparr>)]"
  by (simp add: example_switch_events_def example_switch_port_def example_cls_lport_def cls_port_moved_def ready_port_def
      enter_lport_def may_enter_def)

lemma example_packet_simps:
  "plain_packet (example_packet dst)" "example_packet dst ''in_port'' = Some (MInt 0)"
  "example_packet dst ''metadata'' = Some (MInt 9)" "example_packet dst ''eth_dst'' = Some (MInt dst)"
  by (simp_all add: plain_packet_def example_packet_def ETH_TYPE_IP_def ETH_TYPE_ARP_def ETH_TYPE_IPV6_def)

lemma example_merge:
  assumes "l2_switch_features_handler example_l2_conf \<lparr>fa_sent = [], l2_networks = []\<rparr> = (None, l0)"
    and "run_each (l2_handle example_l2_conf) example_port_events l0 = (None, l)"
    and "cls_switch_features_handler example_flow_conf \<lparr>fa_sent = [], ofport_unique_key_map = []\<rparr> = (None, c0)"
    and "run_each (cls_handle example_flow_conf) example_switch_events c0 = (None, c)"
  shows "merges 0 0 [(tables_of l2_shape l2_fam, fa_sent l), (tables_of cls_shape cls_fam, fa_sent c)] (fa_sent l @ fa_sent c)"
proof -
  from l2_life [OF example_l2_stamps example_l2_life [folded example_port_events_def], of "[]"] assms(1,2)
  obtain M d where l: "l2_frep 0 0 M d l" by (auto simp: l2_rep_def)
  from cls_life [OF example_flow_conf_stamps example_switch_life, of "[]"] assms(3,4)
  obtain N e where c: "cls_rep 0 0 N e c" by auto
  from merges_append [OF l [unfolded l2_frep_def] c [unfolded cls_rep_def]] show ?thesis .
qed




end
