(* ===== verification/Provider.thy ===== *)
theory Provider
  imports Flow_Family Logical_Networks
begin

text \<open>
  The provider network application, \<open>dragonflow/controller/apps/provider.py\<close>: networks that are
  VLANs or the untagged traffic of a physical network, reached through patch ports between the
  integration bridge and a bridge of the physical network. The Open vSwitch database, the parsed
  configuration and the index lookup in the store are parameters.
\<close>

section \<open>State\<close>

definition EXTERNAL_INGRESS_DETECT_SOURCE_TABLE :: nat where "EXTERNAL_INGRESS_DETECT_SOURCE_TABLE = 2"
definition EMPTY_MAC :: string where "EMPTY_MAC = ''00:00:00:00:00:00''"
definition NET_VLAN :: string where "NET_VLAN = ''vlan''"
definition NET_FLAT :: string where "NET_FLAT = ''flat''"
definition NETWORK_TYPES :: "string list" where "NETWORK_TYPES = [NET_VLAN, NET_FLAT]"
definition VLAN_TAG_BITS :: nat where "VLAN_TAG_BITS = 12"

definition get_bitmask :: "nat \<Rightarrow> int" where
  "get_bitmask width = NOT (push_bit width (drop_bit width (- 1)))"

definition VLAN_MASK :: int where "VLAN_MASK = get_bitmask VLAN_TAG_BITS"

record 'o pv_conf = "'o flow_conf" +
  integration_bridge :: string
  bridge_mappings :: "(string, string) dict"
  create_patch_pair :: "string \<Rightarrow> string \<Rightarrow> string \<times> string"
  get_port_ofport :: "string \<Rightarrow> pyval"
  get_port_mac_in_use :: "string \<Rightarrow> string option"

record pv_lswitch =
  ls_unique_key :: int
  ls_network_type :: string
  ls_segmentation_id :: "int option"
  ls_physical_network :: "string option"

record pv_port =
  pp_id :: string
  pp_lswitch :: "pv_lswitch result"

record pv_app = flow_app +
  pv_networks :: "int logical_networks"
  int_ofports :: "(string, pyval) dict"
  bridge_macs :: "(string, string option) dict"

definition pv_init :: pv_app where
  "pv_init = \<lparr>fa_sent = [], pv_networks = ln_init, int_ofports = [], bridge_macs = []\<rparr>"

definition reverse_bridge_mappings :: "'o pv_conf \<Rightarrow> (string, string) dict" where
  "reverse_bridge_mappings conf = fold (\<lambda>(k, v). AList.update v k) (bridge_mappings conf) []"

fun setup_physical_bridges :: "'o pv_conf \<Rightarrow> (string, string) dict \<Rightarrow> pv_app \<Rightarrow> pv_app" where
  "setup_physical_bridges conf [] s = s"
| "setup_physical_bridges conf ((physical_network, bridge) # rest) s =
     (let mappings = create_patch_pair conf (integration_bridge conf) bridge
      in setup_physical_bridges conf rest
           (s\<lparr>int_ofports := AList.update physical_network (get_port_ofport conf (fst mappings)) (int_ofports s),
              bridge_macs := AList.update physical_network (get_port_mac_in_use conf bridge) (bridge_macs s)\<rparr>))"

definition pv_switch_features_handler :: "'o pv_conf \<Rightarrow> pv_app \<Rightarrow> pv_app outcome" where
  "pv_switch_features_handler conf s =
     send_goto conf EXTERNAL_INGRESS_DETECT_SOURCE_TABLE PRIORITY_DEFAULT L2_LOOKUP_TABLE None
       (setup_physical_bridges conf (bridge_mappings conf) s)"

text \<open>\<open>self.int_ofports[physical_network]\<close>, where the physical network may be missing.\<close>

definition int_ofport :: "pv_app \<Rightarrow> string option \<Rightarrow> pyval result" where
  "int_ofport s physical_network =
     (case Option.bind physical_network (map_of (int_ofports s)) of Some p \<Rightarrow> Inr p | None \<Rightarrow> Inl KeyError)"

section \<open>Flows of a network\<close>

definition match_actions_by_network_type ::
  "pv_lswitch \<Rightarrow> int \<Rightarrow> string \<Rightarrow> pv_app \<Rightarrow> (fmatch \<times> action list) result" where
  "match_actions_by_network_type lswitch network_id network_type s =
     (let actions = [RegLoad ''in_port'' 0, SetField ''metadata'' (MInt network_id)]
      in bind_result
           (if network_type = NET_VLAN then
              (case ls_segmentation_id lswitch of
                 Some seg \<Rightarrow> Inr (OFPVID_PRESENT OR seg, actions @ [PopVlan])
               | None \<Rightarrow> Inl TypeError)
            else Inr (0, actions)) (\<lambda>(vlan_vid, actions).
         bind_result (int_ofport s (ls_physical_network lswitch)) (\<lambda>port.
           Inr ([(''in_port'', field_value port), (''vlan_vid'', MInt vlan_vid)], actions))))"

definition network_classification_flow ::
  "'o pv_conf \<Rightarrow> pv_lswitch \<Rightarrow> int \<Rightarrow> string \<Rightarrow> pv_app \<Rightarrow> pv_app outcome" where
  "network_classification_flow conf lswitch network_id network_type s =
     with_value (match_actions_by_network_type lswitch network_id network_type s) (\<lambda>(m, actions).
       send_flow conf (default_args\<lparr>
         a_inst := Some [Actions OFPIT_APPLY_ACTIONS actions, GotoTable EXTERNAL_INGRESS_DETECT_SOURCE_TABLE],
         a_table_id := INGRESS_CLASSIFICATION_DISPATCH_TABLE, a_priority := PRIORITY_LOW, a_match := Some m\<rparr>)) s"

definition remove_network_classification_flow ::
  "'o pv_conf \<Rightarrow> pv_lswitch \<Rightarrow> int \<Rightarrow> string \<Rightarrow> pv_app \<Rightarrow> pv_app outcome" where
  "remove_network_classification_flow conf lswitch network_id network_type s =
     with_value (match_actions_by_network_type lswitch network_id network_type s) (\<lambda>(m, actions).
       send_flow conf (default_args\<lparr>a_table_id := INGRESS_CLASSIFICATION_DISPATCH_TABLE,
         a_command := Some OFPFC_DELETE, a_priority := PRIORITY_LOW, a_match := Some m\<rparr>)) s"

text \<open>The addresses without the group bit, that is all unicast destinations of a network.\<close>

definition pv_make_bum_match :: "int \<Rightarrow> fmatch" where
  "pv_make_bum_match network_id = [(''metadata'', MInt network_id), (''eth_dst'', MMasked 0 BUM_ADDR)]"

definition l2_lookup_flow :: "'o pv_conf \<Rightarrow> int \<Rightarrow> pv_app \<Rightarrow> pv_app outcome" where
  "l2_lookup_flow conf network_id =
     send_flow conf (default_args\<lparr>a_inst := Some [GotoTable EGRESS_TABLE], a_table_id := L2_LOOKUP_TABLE,
       a_priority := PRIORITY_MEDIUM, a_match := Some (pv_make_bum_match network_id)\<rparr>)"

definition remove_l2_lookup_flow :: "'o pv_conf \<Rightarrow> int \<Rightarrow> pv_app \<Rightarrow> pv_app outcome" where
  "remove_l2_lookup_flow conf network_id =
     send_flow conf (default_args\<lparr>a_table_id := L2_LOOKUP_TABLE, a_command := Some OFPFC_DELETE,
       a_priority := PRIORITY_MEDIUM, a_match := Some (pv_make_bum_match network_id)\<rparr>)"

definition network_match :: "int \<Rightarrow> fmatch" where
  "network_match network_id = [(''metadata'', MInt network_id)]"

definition egress_insts :: "pv_lswitch \<Rightarrow> string \<Rightarrow> inst list result" where
  "egress_insts lswitch network_type =
     (if network_type = NET_VLAN then
        (case ls_segmentation_id lswitch of
           Some seg \<Rightarrow>
             let vlan_tag = (seg AND VLAN_MASK) OR OFPVID_PRESENT
             in Inr [Actions OFPIT_APPLY_ACTIONS [PushVlan ETH_TYPE_8021Q, SetField ''vlan_vid'' (MInt vlan_tag)],
                     GotoTable EGRESS_EXTERNAL_TABLE]
         | None \<Rightarrow> Inl TypeError)
      else Inr [GotoTable EGRESS_EXTERNAL_TABLE])"

definition egress_flow :: "'o pv_conf \<Rightarrow> pv_lswitch \<Rightarrow> int \<Rightarrow> string \<Rightarrow> pv_app \<Rightarrow> pv_app outcome" where
  "egress_flow conf lswitch network_id network_type =
     with_value (egress_insts lswitch network_type) (\<lambda>inst s.
       and_then
         (send_flow conf (default_args\<lparr>a_table_id := EGRESS_TABLE, a_priority := PRIORITY_LOW,
            a_match := Some (network_match network_id), a_inst := Some inst\<rparr>) s)
         (send_flow conf (default_args\<lparr>a_table_id := EGRESS_TABLE, a_priority := PRIORITY_LOW + 1,
            a_match := Some (network_match network_id @ [(''reg6'', MInt 0)]), a_inst := None\<rparr>)))"

definition remove_egress_flow :: "'o pv_conf \<Rightarrow> int \<Rightarrow> pv_app \<Rightarrow> pv_app outcome" where
  "remove_egress_flow conf network_id =
     send_flow conf (default_args\<lparr>a_command := Some OFPFC_DELETE, a_table_id := EGRESS_TABLE,
       a_priority := PRIORITY_LOW, a_match := Some (network_match network_id)\<rparr>)"

definition placeholder_match :: "int \<Rightarrow> fmatch" where
  "placeholder_match network_id = [(''metadata'', MInt network_id), (''eth_dst'', MStr EMPTY_MAC)]"

definition bridge_mac :: "pv_app \<Rightarrow> string option \<Rightarrow> string option result" where
  "bridge_mac s physical_network =
     (case Option.bind physical_network (map_of (bridge_macs s)) of Some mac \<Rightarrow> Inr mac | None \<Rightarrow> Inl KeyError)"

definition egress_placeholder_flow :: "'o pv_conf \<Rightarrow> pv_lswitch \<Rightarrow> pv_app \<Rightarrow> pv_app outcome" where
  "egress_placeholder_flow conf lswitch s =
     with_value (int_ofport s (ls_physical_network lswitch)) (\<lambda>port_num.
     with_value (bridge_mac s (ls_physical_network lswitch)) (\<lambda>mac.
       send_flow conf (default_args\<lparr>a_table_id := EGRESS_EXTERNAL_TABLE, a_priority := PRIORITY_HIGH,
         a_match := Some (placeholder_match (ls_unique_key lswitch)),
         a_inst := Some [Actions OFPIT_APPLY_ACTIONS
           [SetField ''eth_dst'' (mac_value mac), OutputPort port_num OFPCML_NO_BUFFER]]\<rparr>))) s"

definition remove_egress_placeholder_flow :: "'o pv_conf \<Rightarrow> int \<Rightarrow> pv_app \<Rightarrow> pv_app outcome" where
  "remove_egress_placeholder_flow conf network_id =
     send_flow conf (default_args\<lparr>a_command := Some OFPFC_DELETE, a_table_id := EGRESS_EXTERNAL_TABLE,
       a_priority := PRIORITY_HIGH, a_match := Some (placeholder_match network_id)\<rparr>)"

definition egress_external_flow :: "'o pv_conf \<Rightarrow> pv_lswitch \<Rightarrow> int \<Rightarrow> pv_app \<Rightarrow> pv_app outcome" where
  "egress_external_flow conf lswitch network_id s =
     with_value (int_ofport s (ls_physical_network lswitch)) (\<lambda>port_num s.
       and_then
         (send_flow conf (default_args\<lparr>a_table_id := EGRESS_EXTERNAL_TABLE, a_priority := PRIORITY_MEDIUM,
            a_match := Some (network_match network_id),
            a_inst := Some [Actions OFPIT_APPLY_ACTIONS [OutputPort port_num OFPCML_NO_BUFFER]]\<rparr>) s) (\<lambda>s.
         case Option.bind (ls_physical_network lswitch) (map_of (bridge_macs s)) of
           Some (Some mac) \<Rightarrow> egress_placeholder_flow conf lswitch s
         | _ \<Rightarrow> (None, s))) s"

definition remove_egress_external_flow :: "'o pv_conf \<Rightarrow> int \<Rightarrow> pv_app \<Rightarrow> pv_app outcome" where
  "remove_egress_external_flow conf network_id =
     send_flow conf (default_args\<lparr>a_command := Some OFPFC_DELETE, a_table_id := EGRESS_EXTERNAL_TABLE,
       a_priority := PRIORITY_HIGH, a_match := Some (network_match network_id)\<rparr>)"

definition new_network_flow :: "'o pv_conf \<Rightarrow> pv_lswitch \<Rightarrow> int \<Rightarrow> string \<Rightarrow> pv_app \<Rightarrow> pv_app outcome" where
  "new_network_flow conf lswitch network_id network_type s =
     and_then (network_classification_flow conf lswitch network_id network_type s) (\<lambda>s.
     and_then (l2_lookup_flow conf network_id s) (\<lambda>s.
     and_then (egress_flow conf lswitch network_id network_type s)
       (egress_external_flow conf lswitch network_id)))"

definition remove_network_flow :: "'o pv_conf \<Rightarrow> pv_lswitch \<Rightarrow> int \<Rightarrow> string \<Rightarrow> pv_app \<Rightarrow> pv_app outcome" where
  "remove_network_flow conf lswitch network_id network_type s =
     and_then (remove_network_classification_flow conf lswitch network_id network_type s) (\<lambda>s.
     and_then (remove_l2_lookup_flow conf network_id s) (\<lambda>s.
     and_then (remove_egress_flow conf network_id s)
       (remove_egress_external_flow conf network_id)))"

section \<open>Handlers\<close>

definition pv_add_local_port :: "'o pv_conf \<Rightarrow> pv_port \<Rightarrow> pv_app \<Rightarrow> pv_app outcome" where
  "pv_add_local_port conf lport =
     with_value (pp_lswitch lport) (\<lambda>lswitch s.
       let network_type = ls_network_type lswitch; network_id = ls_unique_key lswitch
       in if network_type \<notin> set NETWORK_TYPES then (None, s)
          else
            let (port_count, networks) = get_local_port_count network_id (Some network_type) (pv_networks s)
            in and_then
                 (if port_count = 0
                  then new_network_flow conf lswitch network_id network_type (s\<lparr>pv_networks := networks\<rparr>)
                  else (None, s\<lparr>pv_networks := networks\<rparr>))
                 (\<lambda>s. (None, s\<lparr>pv_networks := add_local_port (pp_id lport) network_id network_type (pv_networks s)\<rparr>)))"

definition pv_remove_local_port :: "'o pv_conf \<Rightarrow> pv_port \<Rightarrow> pv_app \<Rightarrow> pv_app outcome" where
  "pv_remove_local_port conf lport =
     with_value (pp_lswitch lport) (\<lambda>lswitch s.
       let network_type = ls_network_type lswitch; network_id = ls_unique_key lswitch
       in if network_type \<notin> set NETWORK_TYPES then (None, s)
          else
            let networks = remove_local_port (pp_id lport) network_id network_type (pv_networks s);
                (port_count, networks) = get_local_port_count network_id (Some network_type) networks;
                s = s\<lparr>pv_networks := networks\<rparr>
            in if port_count = 0 then remove_network_flow conf lswitch network_id network_type s
               else (None, s))"

text \<open>
  The lookup of the network by the name of its physical network may find none, or raise when
  there are several.
\<close>

definition update_bridge_mac ::
  "'o pv_conf \<Rightarrow> (string \<Rightarrow> pv_lswitch option result) \<Rightarrow> string \<Rightarrow> string option \<Rightarrow> pv_app \<Rightarrow> pv_app outcome" where
  "update_bridge_mac conf find_lswitch bridge mac s =
     (case map_of (reverse_bridge_mappings conf) bridge of
        None \<Rightarrow> (None, s)
      | Some physical_network \<Rightarrow>
          if physical_network = [] then (None, s)
          else
            (case map_of (bridge_macs s) physical_network of
               None \<Rightarrow> (None, s)
             | Some old_mac \<Rightarrow>
                 if old_mac = mac then (None, s)
                 else with_value (find_lswitch physical_network) (\<lambda>lswitch s.
                   and_then
                     (if old_mac \<noteq> None then
                        (case lswitch of
                           Some ls \<Rightarrow> remove_egress_placeholder_flow conf (ls_unique_key ls) s
                         | None \<Rightarrow> (Some AttributeError, s))
                      else (None, s)) (\<lambda>s.
                   and_then
                     (if mac \<noteq> None then
                        (case lswitch of
                           Some ls \<Rightarrow> egress_placeholder_flow conf ls s
                         | None \<Rightarrow> (Some AttributeError, s))
                      else (None, s)) (\<lambda>s.
                     (None, s\<lparr>bridge_macs := AList.update physical_network mac (bridge_macs s)\<rparr>)))) s))"

definition bridge_updated ::
  "'o pv_conf \<Rightarrow> (string \<Rightarrow> pv_lswitch option result) \<Rightarrow> string \<Rightarrow> string option \<Rightarrow> pv_app \<Rightarrow> pv_app outcome" where
  "bridge_updated conf find_lswitch name mac_in_use = update_bridge_mac conf find_lswitch name mac_in_use"

definition bridge_deleted ::
  "'o pv_conf \<Rightarrow> (string \<Rightarrow> pv_lswitch option result) \<Rightarrow> string \<Rightarrow> pv_app \<Rightarrow> pv_app outcome" where
  "bridge_deleted conf find_lswitch name = update_bridge_mac conf find_lswitch name None"

end
