(* ===== verification/Provider_Flows.thy ===== *)
theory Provider_Flows
  imports Provider L2_Flows
begin

text \<open>
  Which flows the provider network application keeps in the switch, and how they meet those of the
  layer 2 application in the lookup table.
\<close>

section \<open>The flows\<close>

datatype pv_flow =
    PvEnter mval int
  | PvUnknown int
  | PvEgress int
  | PvEgressDrop int
  | PvExternal int
  | PvPlaceholder int
  | PvDefault

fun pv_shape :: "pv_flow flow_shape" where
  "pv_shape (PvEnter port vid) =
     (INGRESS_CLASSIFICATION_DISPATCH_TABLE, PRIORITY_LOW, [(''in_port'', port), (''vlan_vid'', MInt vid)])"
| "pv_shape (PvUnknown n) = (L2_LOOKUP_TABLE, PRIORITY_MEDIUM, pv_make_bum_match n)"
| "pv_shape (PvEgress n) = (EGRESS_TABLE, PRIORITY_LOW, network_match n)"
| "pv_shape (PvEgressDrop n) = (EGRESS_TABLE, PRIORITY_LOW + 1, network_match n @ [(''reg6'', MInt 0)])"
| "pv_shape (PvExternal n) = (EGRESS_EXTERNAL_TABLE, PRIORITY_MEDIUM, network_match n)"
| "pv_shape (PvPlaceholder n) = (EGRESS_EXTERNAL_TABLE, PRIORITY_HIGH, placeholder_match n)"
| "pv_shape PvDefault = (EXTERNAL_INGRESS_DETECT_SOURCE_TABLE, PRIORITY_DEFAULT, [])"

fun pv_fam :: "pv_flow \<Rightarrow> bool" where
  "pv_fam (PvEnter port vid) \<longleftrightarrow> unmasked port"
| "pv_fam f \<longleftrightarrow> True"

fun pv_own :: "pv_flow \<Rightarrow> bool" where
  "pv_own (PvEnter port vid) \<longleftrightarrow> unmasked port"
| "pv_own (PvUnknown n) \<longleftrightarrow> True"
| "pv_own (PvPlaceholder n) \<longleftrightarrow> True"
| "pv_own f \<longleftrightarrow> False"

lemmas pv_match_defs = pv_make_bum_match_def network_match_def placeholder_match_def

definition pv_unshape :: "flow_key \<Rightarrow> pv_flow" where
  "pv_unshape key =
     (case key of (table, priority, m) \<Rightarrow>
       let n = match_int m ''metadata''
       in if table = INGRESS_CLASSIFICATION_DISPATCH_TABLE then PvEnter (the (m ''in_port'')) (match_int m ''vlan_vid'')
          else if table = L2_LOOKUP_TABLE then PvUnknown n
          else if table = EGRESS_TABLE then (if m ''reg6'' = None then PvEgress n else PvEgressDrop n)
          else if table = EGRESS_EXTERNAL_TABLE then (if m ''eth_dst'' = None then PvExternal n else PvPlaceholder n)
          else PvDefault)"

lemma pv_unshape_key: "pv_unshape (shape_key pv_shape f) = f"
  by (cases f) (simp_all add: pv_unshape_def shape_key_def match_int_def table_defs pv_match_defs
      EXTERNAL_INGRESS_DETECT_SOURCE_TABLE_def)

lemma unmasked_covers: "unmasked v \<Longrightarrow> mval_covers v w \<longleftrightarrow> v = w"
  by (cases v; cases w) (simp_all add: unmasked_def)

interpretation pv: flow_family pv_shape pv_fam pv_own
proof
  fix f g
  show "fst (pv_shape f) \<noteq> OFPTT_ALL" if "pv_own f" using that by (cases f) (simp_all add: table_defs OFPTT_ALL_def)
  show "wf_dict (snd (snd (pv_shape f)))" by (cases f) (simp_all add: pv_match_defs)
  show "f = g" if "shape_key pv_shape f = shape_key pv_shape g" using that pv_unshape_key by metis
  show "f = g" if "pv_own f" "pv_fam g" "fst (pv_shape f) = fst (pv_shape g)"
    "match_covers (snd (snd (pv_shape f))) (map_of (snd (snd (pv_shape g))))"
    using that by (cases f; cases g)
      (simp_all add: match_covers_def pv_match_defs table_defs unmasked_covers EXTERNAL_INGRESS_DETECT_SOURCE_TABLE_def)
qed

section \<open>Networks and their flows\<close>

text \<open>What the flows of a network depend on, once the bridges are set up.\<close>

record pv_net =
  pn_key :: int
  pn_type :: string
  pn_port :: pyval
  pn_vid :: int
  pn_actions :: "action list"
  pn_egress :: "inst list"
  pn_mac :: "string option"

type_synonym pv_bridges = "(string, pyval) dict \<times> (string, string option) dict"

definition bridges_of :: "pv_app \<Rightarrow> pv_bridges" where
  "bridges_of s = (int_ofports s, bridge_macs s)"

definition resolve_net :: "pv_bridges \<Rightarrow> pv_lswitch \<Rightarrow> pv_net option" where
  "resolve_net bridges ls =
     (let vlan = (ls_network_type ls = NET_VLAN);
          actions = [RegLoad ''in_port'' 0, SetField ''metadata'' (MInt (ls_unique_key ls))]
      in case (Option.bind (ls_physical_network ls) (map_of (fst bridges)), ls_segmentation_id ls, egress_insts ls (ls_network_type ls)) of
           (Some port, seg, Inr egress) \<Rightarrow>
             if vlan \<and> seg = None \<or> ls_network_type ls \<notin> set NETWORK_TYPES then None
             else Some \<lparr>pn_key = ls_unique_key ls, pn_type = ls_network_type ls, pn_port = port,
               pn_vid = (if vlan then OFPVID_PRESENT OR the seg else 0),
               pn_actions = (if vlan then actions @ [PopVlan] else actions), pn_egress = egress,
               pn_mac = (case Option.bind (ls_physical_network ls) (map_of (snd bridges)) of
                   Some (Some mac) \<Rightarrow> Some mac | _ \<Rightarrow> None)\<rparr>
         | _ \<Rightarrow> None)"

definition net_flows :: "pv_net \<Rightarrow> (pv_flow, inst list) dict" where
  "net_flows net =
     [(PvEnter (field_value (pn_port net)) (pn_vid net),
         [Actions OFPIT_APPLY_ACTIONS (pn_actions net), GotoTable EXTERNAL_INGRESS_DETECT_SOURCE_TABLE]),
      (PvUnknown (pn_key net), [GotoTable EGRESS_TABLE]),
      (PvEgress (pn_key net), pn_egress net), (PvEgressDrop (pn_key net), []),
      (PvExternal (pn_key net), [Actions OFPIT_APPLY_ACTIONS [OutputPort (pn_port net) OFPCML_NO_BUFFER]])] @
     (case pn_mac net of
        Some mac \<Rightarrow> [(PvPlaceholder (pn_key net), [Actions OFPIT_APPLY_ACTIONS
            [SetField ''eth_dst'' (MStr mac), OutputPort (pn_port net) OFPCML_NO_BUFFER]])]
      | None \<Rightarrow> [])"

definition net_keys :: "pv_net \<Rightarrow> pv_flow set" where
  "net_keys net = {PvEnter (field_value (pn_port net)) (pn_vid net), PvUnknown (pn_key net), PvEgress (pn_key net),
     PvEgressDrop (pn_key net), PvExternal (pn_key net), PvPlaceholder (pn_key net)}"

lemma wf_net_flows: "wf_dict (net_flows net)"
  by (simp add: net_flows_def split: option.split)

lemma net_flows_keys: "set (dict_keys (net_flows net)) \<subseteq> net_keys net"
  by (auto simp: net_flows_def net_keys_def split: option.splits)

text \<open>Different networks have different keys, and enter by a different port or tag.\<close>

definition nets_apart :: "pv_net \<Rightarrow> pv_net \<Rightarrow> bool" where
  "nets_apart x y \<longleftrightarrow> x = y \<or> pn_key x \<noteq> pn_key y \<and> (pn_port x \<noteq> pn_port y \<or> pn_vid x \<noteq> pn_vid y)"

lemma nets_apart_keys: "nets_apart x y \<Longrightarrow> f \<in> net_keys x \<Longrightarrow> f \<in> net_keys y \<Longrightarrow> x = y"
  by (auto simp: nets_apart_def net_keys_def)

type_synonym pv_ports = "(string \<times> pv_net) list"

definition pv_ports_ok :: "pv_ports \<Rightarrow> bool" where
  "pv_ports_ok P \<longleftrightarrow> distinct (map fst P) \<and> list_all (\<lambda>p. list_all (\<lambda>q. nets_apart (snd p) (snd q)) P) P"

definition pv_port_flows :: "pv_ports \<Rightarrow> pv_flow \<rightharpoonup> inst list" where
  "pv_port_flows P = map_of (concat (map (\<lambda>p. net_flows (snd p)) P))"

definition pv_table :: "pv_ports \<Rightarrow> pv_flow \<rightharpoonup> inst list" where
  "pv_table P = (pv_port_flows P)(PvDefault \<mapsto> goto_insts EXTERNAL_INGRESS_DETECT_SOURCE_TABLE L2_LOOKUP_TABLE)"

lemma map_of_net_flows: "map_of (net_flows net) f = Some i \<Longrightarrow> f \<in> net_keys net"
  using net_flows_keys [of net] by (force dest: map_of_SomeD)

lemma pv_port_flows_iff:
  assumes "list_all (\<lambda>p. list_all (\<lambda>q. nets_apart (snd p) (snd q)) P) P"
  shows "pv_port_flows P f = Some i \<longleftrightarrow> (\<exists>p\<in>set P. map_of (net_flows (snd p)) f = Some i)"
  using assms
proof (induction P)
  case Nil
  then show ?case by (simp add: pv_port_flows_def)
next
  case (Cons p P)
  then have IH: "pv_port_flows P f = Some i \<longleftrightarrow> (\<exists>p\<in>set P. map_of (net_flows (snd p)) f = Some i)"
    by (simp add: list_all_iff)
  have apart: "snd p = snd q" if "q \<in> set P" "map_of (net_flows (snd p)) f = Some j" "map_of (net_flows (snd q)) f = Some k" for q j k
    using nets_apart_keys [of "snd p" "snd q" f] map_of_net_flows that Cons.prems by (fastforce simp: list_all_iff)
  have "pv_port_flows (p # P) f = (case map_of (net_flows (snd p)) f of Some j \<Rightarrow> Some j | None \<Rightarrow> pv_port_flows P f)"
    by (simp add: pv_port_flows_def map_add_def split: option.split)
  then show ?case using IH apart by (fastforce split: option.splits)
qed

lemma option_eqI: "(\<And>i. a = Some i \<longleftrightarrow> b = Some i) \<Longrightarrow> a = b"
  by (cases a; cases b) auto

section \<open>What the handlers send\<close>

definition pv_frep :: "int \<Rightarrow> int \<Rightarrow> (pv_flow \<rightharpoonup> inst list) \<Rightarrow> int logical_networks \<Rightarrow> pv_bridges \<Rightarrow> pv_app \<Rightarrow> bool" where
  "pv_frep ck cm M ln br s \<longleftrightarrow> flows_rep pv_shape pv_fam ck cm M (pv_app.fields ln (fst br) (snd br)) s"

lemma pv_frepD: "pv_frep ck cm M ln br s \<Longrightarrow> pv_networks s = ln" "pv_frep ck cm M ln br s \<Longrightarrow> int_ofports s = fst br"
  "pv_frep ck cm M ln br s \<Longrightarrow> bridge_macs s = snd br"
  by (cases s; simp add: pv_frep_def flows_rep_def pv_app.defs)+

lemma pv_frep_networks: "pv_frep ck cm M ln br s \<Longrightarrow> pv_frep ck cm M ln' br (s\<lparr>pv_networks := ln'\<rparr>)"
  by (cases s) (simp add: pv_frep_def flows_rep_def pv_app.defs)

lemma pv_frep_macs: "pv_frep ck cm M ln br s \<Longrightarrow> pv_frep ck cm M ln (fst br, macs) (s\<lparr>bridge_macs := macs\<rparr>)"
  by (cases s) (simp add: pv_frep_def flows_rep_def pv_app.defs)

lemma pv_send:
  assumes "stamps conf ck cm" "plain_args a" "asks pv_shape pv_fam pv_own op (flow_message ck cm a)" "pv_frep ck cm M ln br s"
  shows "yields (send_flow conf a s) (pv_frep ck cm (op_step op M) ln br)"
  using pv.send_flow_yields [OF assms(1-3)] assms(4) by (simp add: pv_frep_def [abs_def])

lemma resolve_netD:
  assumes "resolve_net br ls = Some net"
  shows "pn_key net = ls_unique_key ls" "pn_type net = ls_network_type ls"
    "egress_insts ls (ls_network_type ls) = Inr (pn_egress net)" "ls_network_type ls \<in> set NETWORK_TYPES"
  using assms by (auto simp: resolve_net_def Let_def split: option.splits sum.splits if_splits)

lemma resolve_net_state:
  assumes "resolve_net br ls = Some net" "pv_frep ck cm M ln br s"
  shows "match_actions_by_network_type ls (ls_unique_key ls) (ls_network_type ls) s =
      Inr ([(''in_port'', field_value (pn_port net)), (''vlan_vid'', MInt (pn_vid net))], pn_actions net)"
    "int_ofport s (ls_physical_network ls) = Inr (pn_port net)"
    "(case Option.bind (ls_physical_network ls) (map_of (bridge_macs s)) of Some (Some mac) \<Rightarrow> Some mac | _ \<Rightarrow> None) = pn_mac net"
  using assms(1) pv_frepD [OF assms(2)]
  by (auto simp: resolve_net_def match_actions_by_network_type_def int_ofport_def bind_result_def Let_def
      split: option.splits sum.splits if_splits)

lemma unmasked_field_value [simp]: "unmasked (field_value v)"
  by (cases v) (simp_all add: unmasked_def)

lemma enter_yields_pv:
  assumes "stamps conf ck cm" "resolve_net br ls = Some net" "pv_frep ck cm M ln br s"
  shows "yields (network_classification_flow conf ls (ls_unique_key ls) (ls_network_type ls) s)
    (pv_frep ck cm (op_step (Put (PvEnter (field_value (pn_port net)) (pn_vid net))
       [Actions OFPIT_APPLY_ACTIONS (pn_actions net), GotoTable EXTERNAL_INGRESS_DETECT_SOURCE_TABLE]) M) ln br)"
  unfolding network_classification_flow_def resolve_net_state(1) [OF assms(2,3)] with_value_Inr prod.case
  using assms(1,3) by (intro pv_send) (simp_all add: l2_message_simps)

lemma lookup_yields_pv:
  assumes "stamps conf ck cm" "pv_frep ck cm M ln br s"
  shows "yields (l2_lookup_flow conf n s) (pv_frep ck cm (op_step (Put (PvUnknown n) [GotoTable EGRESS_TABLE]) M) ln br)"
  unfolding l2_lookup_flow_def using assms by (intro pv_send) (simp_all add: l2_message_simps)

lemma egress_yields_pv:
  assumes "stamps conf ck cm" "resolve_net br ls = Some net" "pv_frep ck cm M ln br s"
  shows "yields (egress_flow conf ls n (ls_network_type ls) s)
    (pv_frep ck cm (op_step (Put (PvEgressDrop n) []) (op_step (Put (PvEgress n) (pn_egress net)) M)) ln br)"
  unfolding egress_flow_def resolve_netD(3) [OF assms(2)] with_value_Inr
proof (rule yields_then)
  show "yields (send_flow conf (default_args\<lparr>a_table_id := EGRESS_TABLE, a_priority := PRIORITY_LOW,
      a_match := Some (network_match n), a_inst := Some (pn_egress net)\<rparr>) s)
    (pv_frep ck cm (op_step (Put (PvEgress n) (pn_egress net)) M) ln br)"
    using assms(1,3) by (intro pv_send) (simp_all add: l2_message_simps)
qed (use assms(1) in \<open>intro pv_send, simp_all add: l2_message_simps\<close>)

lemma placeholder_yields_pv:
  assumes "stamps conf ck cm" "resolve_net br ls = Some net" "pv_frep ck cm M ln br s" "pn_mac net = Some mac"
  shows "yields (egress_placeholder_flow conf ls s)
    (pv_frep ck cm (op_step (Put (PvPlaceholder (ls_unique_key ls)) [Actions OFPIT_APPLY_ACTIONS
       [SetField ''eth_dst'' (MStr mac), OutputPort (pn_port net) OFPCML_NO_BUFFER]]) M) ln br)"
proof -
  note st = resolve_net_state [OF assms(2,3)]
  have m: "bridge_mac s (ls_physical_network ls) = Inr (Some mac)"
    using st(3) assms(4) by (auto simp: bridge_mac_def split: option.splits)
  show ?thesis
    unfolding egress_placeholder_flow_def st(2) m with_value_Inr
    using assms(1,3) by (intro pv_send) (simp_all add: l2_message_simps mac_value_def)
qed

lemma external_yields_pv:
  assumes "stamps conf ck cm" "resolve_net br ls = Some net" "pv_frep ck cm M ln br s"
  shows "yields (egress_external_flow conf ls (ls_unique_key ls) s)
    (pv_frep ck cm (fold op_step (put_all (drop 4 (net_flows net))) M) ln br)"
proof -
  note st = resolve_net_state [OF assms(2,3)]
  let ?M = "op_step (Put (PvExternal (ls_unique_key ls)) [Actions OFPIT_APPLY_ACTIONS [OutputPort (pn_port net) OFPCML_NO_BUFFER]]) M"
  have 1: "yields (send_flow conf (default_args\<lparr>a_table_id := EGRESS_EXTERNAL_TABLE, a_priority := PRIORITY_MEDIUM,
            a_match := Some (network_match (ls_unique_key ls)),
            a_inst := Some [Actions OFPIT_APPLY_ACTIONS [OutputPort (pn_port net) OFPCML_NO_BUFFER]]\<rparr>) s)
      (pv_frep ck cm ?M ln br)"
    using assms(1,3) by (intro pv_send) (simp_all add: l2_message_simps)
  have 2: "yields (case Option.bind (ls_physical_network ls) (map_of (bridge_macs t)) of
           Some (Some mac) \<Rightarrow> egress_placeholder_flow conf ls t | _ \<Rightarrow> (None, t))
      (pv_frep ck cm (fold op_step (put_all (drop 4 (net_flows net))) M) ln br)" if t: "pv_frep ck cm ?M ln br t" for t
  proof (cases "pn_mac net")
    case None
    then show ?thesis using resolve_net_state(3) [OF assms(2) t] t resolve_netD(1) [OF assms(2)]
      by (auto simp: net_flows_def split: option.splits)
  next
    case (Some mac)
    then show ?thesis using resolve_net_state(3) [OF assms(2) t] placeholder_yields_pv [OF assms(1,2) t Some] resolve_netD(1) [OF assms(2)]
      by (auto simp: net_flows_def split: option.splits)
  qed
  show ?thesis unfolding egress_external_flow_def st(2) with_value_Inr using 1 2 by (rule yields_then)
qed

lemma new_network_yields:
  assumes "stamps conf ck cm" "resolve_net br ls = Some net" "pv_frep ck cm M ln br s"
  shows "yields (new_network_flow conf ls (ls_unique_key ls) (ls_network_type ls) s)
    (pv_frep ck cm (M ++ map_of (net_flows net)) ln br)"
proof -
  let ?n = "ls_unique_key ls"
  let ?M1 = "op_step (Put (PvEnter (field_value (pn_port net)) (pn_vid net))
       [Actions OFPIT_APPLY_ACTIONS (pn_actions net), GotoTable EXTERNAL_INGRESS_DETECT_SOURCE_TABLE]) M"
  let ?M2 = "op_step (Put (PvUnknown ?n) [GotoTable EGRESS_TABLE]) ?M1"
  let ?M3 = "op_step (Put (PvEgressDrop ?n) []) (op_step (Put (PvEgress ?n) (pn_egress net)) ?M2)"
  have "fold op_step (put_all (drop 4 (net_flows net))) ?M3 = fold op_step (put_all (net_flows net)) M"
    using resolve_netD(1) [OF assms(2)] by (simp add: net_flows_def)
  then have eq: "fold op_step (put_all (drop 4 (net_flows net))) ?M3 = M ++ map_of (net_flows net)"
    by (simp only: fold_put_all [OF wf_net_flows])
  show ?thesis unfolding new_network_flow_def eq [symmetric]
    by (intro yields_then [OF enter_yields_pv [OF assms]] yields_then [OF lookup_yields_pv [OF assms(1)]]
        yields_then [OF egress_yields_pv [OF assms(1,2)]] external_yields_pv [OF assms(1,2)])
qed

lemma wipe_egress_yields:
  assumes "stamps conf ck cm" "pv_frep ck cm M ln br s"
  shows "yields (remove_egress_flow conf n s) (pv_frep ck cm (op_step (Wipe {PvEgress n, PvEgressDrop n}) M) ln br)"
proof -
  let ?a = "default_args\<lparr>a_command := Some OFPFC_DELETE, a_table_id := EGRESS_TABLE,
       a_priority := PRIORITY_LOW, a_match := Some (network_match n)\<rparr>"
  have "hits (flow_message ck cm ?a) (shape_key pv_shape g) \<longleftrightarrow> g \<in> {PvEgress n, PvEgressDrop n}" for g
    by (cases g) (auto simp: hits_def shape_key_def match_covers_def pv_match_defs table_defs OFPTT_ALL_def
        EXTERNAL_INGRESS_DETECT_SOURCE_TABLE_def)
  then have "asks pv_shape pv_fam pv_own (Wipe {PvEgress n, PvEgressDrop n}) (flow_message ck cm ?a)"
    by (simp add: or_default_def tables_ofI [of pv_fam "PvEgress n"] tables_ofI [of pv_fam "PvExternal n"])
  from pv_send [OF assms(1) _ this assms(2)] show ?thesis by (simp add: remove_egress_flow_def)
qed

lemma wipe_external_yields:
  assumes "stamps conf ck cm" "pv_frep ck cm M ln br s"
  shows "yields (remove_egress_external_flow conf n s) (pv_frep ck cm (op_step (Wipe {PvExternal n, PvPlaceholder n}) M) ln br)"
proof -
  let ?a = "default_args\<lparr>a_command := Some OFPFC_DELETE, a_table_id := EGRESS_EXTERNAL_TABLE,
       a_priority := PRIORITY_HIGH, a_match := Some (network_match n)\<rparr>"
  have "hits (flow_message ck cm ?a) (shape_key pv_shape g) \<longleftrightarrow> g \<in> {PvExternal n, PvPlaceholder n}" for g
    by (cases g) (auto simp: hits_def shape_key_def match_covers_def pv_match_defs table_defs OFPTT_ALL_def
        EXTERNAL_INGRESS_DETECT_SOURCE_TABLE_def)
  then have "asks pv_shape pv_fam pv_own (Wipe {PvExternal n, PvPlaceholder n}) (flow_message ck cm ?a)"
    by (simp add: or_default_def tables_ofI [of pv_fam "PvEgress n"] tables_ofI [of pv_fam "PvExternal n"])
  from pv_send [OF assms(1) _ this assms(2)] show ?thesis by (simp add: remove_egress_external_flow_def)
qed

lemma remove_network_yields:
  assumes "stamps conf ck cm" "resolve_net br ls = Some net" "pv_frep ck cm M ln br s"
  shows "yields (remove_network_flow conf ls (ls_unique_key ls) (ls_network_type ls) s)
    (pv_frep ck cm (M |` (- net_keys net)) ln br)"
proof -
  let ?n = "ls_unique_key ls"
  let ?M1 = "op_step (Del (PvEnter (field_value (pn_port net)) (pn_vid net))) M"
  let ?M2 = "op_step (Del (PvUnknown ?n)) ?M1"
  let ?M3 = "op_step (Wipe {PvEgress ?n, PvEgressDrop ?n}) ?M2"
  have eq: "M |` (- net_keys net) = op_step (Wipe {PvExternal ?n, PvPlaceholder ?n}) ?M3"
    using resolve_netD(1) [OF assms(2)] by (auto simp: net_keys_def restrict_map_def fun_eq_iff)
  have 1: "yields (remove_network_classification_flow conf ls ?n (ls_network_type ls) s) (pv_frep ck cm ?M1 ln br)"
    unfolding remove_network_classification_flow_def resolve_net_state(1) [OF assms(2,3)] with_value_Inr prod.case
    using assms(1,3) by (intro pv_send) (simp_all add: l2_message_simps)
  have 2: "yields (remove_l2_lookup_flow conf ?n t) (pv_frep ck cm ?M2 ln br)" if "pv_frep ck cm ?M1 ln br t" for t
    unfolding remove_l2_lookup_flow_def using assms(1) that by (intro pv_send) (simp_all add: l2_message_simps)
  show ?thesis unfolding remove_network_flow_def eq
    by (intro yields_then [OF 1] yields_then [OF 2] yields_then [OF wipe_egress_yields [OF assms(1)]]
        wipe_external_yields [OF assms(1)])
qed

section \<open>The handlers on the ports\<close>

definition cache_of :: "pv_ports \<Rightarrow> int net_cache \<Rightarrow> bool" where
  "cache_of P ports \<longleftrightarrow>
     (\<forall>n t. ports_on ports n t = map fst (filter (\<lambda>p. pn_key (snd p) = n \<and> pn_type (snd p) = t) P))"

definition pv_rep :: "int \<Rightarrow> int \<Rightarrow> pv_bridges \<Rightarrow> pv_ports \<Rightarrow> pv_app \<Rightarrow> bool" where
  "pv_rep ck cm br P s \<longleftrightarrow>
     (\<exists>ln. pv_frep ck cm (pv_table P) ln br s \<and> cache_of P (local_ports_net_cache ln))"

lemma pv_repI: "pv_frep ck cm (pv_table P) ln br s \<Longrightarrow> cache_of P (local_ports_net_cache ln) \<Longrightarrow> pv_rep ck cm br P s"
  unfolding pv_rep_def by blast

lemma network_type_not_empty: "t \<in> set NETWORK_TYPES \<Longrightarrow> t \<noteq> []"
  by (auto simp: NETWORK_TYPES_def NET_VLAN_def NET_FLAT_def)

lemma local_count:
  assumes "cache_of P (local_ports_net_cache ln)" "t \<in> set NETWORK_TYPES"
  obtains k ln' where "get_local_port_count n (Some t) ln = (k, ln')" "cache_of P (local_ports_net_cache ln')"
    "k = 0 \<longleftrightarrow> (\<forall>p\<in>set P. \<not> (pn_key (snd p) = n \<and> pn_type (snd p) = t))"
proof -
  obtain k ports where c: "ln_get_port_count n (Some t) (local_ports_net_cache ln) = (k, ports)" by fastforce
  note l = port_count_is_length [OF network_type_not_empty [OF assms(2)], of n "local_ports_net_cache ln", unfolded c]
  show ?thesis
  proof (rule that)
    show "get_local_port_count n (Some t) ln = (k, ln\<lparr>local_ports_net_cache := ports\<rparr>)"
      by (simp add: get_local_port_count_def c)
    show "cache_of P (local_ports_net_cache (ln\<lparr>local_ports_net_cache := ports\<rparr>))"
      using l(2) assms(1) by (simp add: cache_of_def)
    show "k = 0 \<longleftrightarrow> (\<forall>p\<in>set P. \<not> (pn_key (snd p) = n \<and> pn_type (snd p) = t))"
      using l(1) assms(1) by (auto simp: cache_of_def filter_empty_conv)
  qed
qed

lemma cache_of_add:
  "cache_of P (local_ports_net_cache ln) \<Longrightarrow>
   cache_of (P @ [(i, net)]) (local_ports_net_cache (add_local_port i (pn_key net) (pn_type net) ln))"
  by (auto simp: cache_of_def add_local_port_def)

lemma map_fst_remove1:
  assumes "distinct (map fst P)" "(i, x) \<in> set P" "Q (i, x)"
  shows "map fst (filter Q (remove1 (i, x) P)) = remove1 i (map fst (filter Q P))"
  using assms
proof (induction P)
  case Nil
  then show ?case by simp
next
  case (Cons p P)
  show ?case
  proof (cases "p = (i, x)")
    case True
    then show ?thesis using Cons.prems(3) by simp
  next
    case False
    then have "fst p \<noteq> i" using Cons.prems(1,2) by (auto simp: image_iff)
    then show ?thesis using Cons False by auto
  qed
qed

lemma cache_of_remove:
  assumes "cache_of P (local_ports_net_cache ln)" "pv_ports_ok P" "(i, net) \<in> set P"
  shows "cache_of (remove1 (i, net) P) (local_ports_net_cache (remove_local_port i (pn_key net) (pn_type net) ln))"
proof -
  have d: "distinct (map fst P)" using assms(2) by (simp add: pv_ports_ok_def)
  have "filter Q (remove1 (i, net) P) = filter Q P" if "\<not> Q (i, net)" for Q
    using that by (induction P) auto
  then show ?thesis
    using assms(1) map_fst_remove1 [OF d assms(3)] by (auto simp: cache_of_def remove_local_port_def)
qed

lemma pv_table_eqI:
  assumes "pv_ports_ok P" "pv_ports_ok Q" "snd ` set P = snd ` set Q"
  shows "pv_table P = pv_table Q"
proof -
  have "pv_port_flows P f = pv_port_flows Q f" for f
  proof (rule option_eqI)
    fix i
    have "(\<exists>p\<in>set P. map_of (net_flows (snd p)) f = Some i) \<longleftrightarrow> (\<exists>q\<in>set Q. map_of (net_flows (snd q)) f = Some i)"
      using assms(3) by (metis (no_types, lifting) image_iff)
    then show "pv_port_flows P f = Some i \<longleftrightarrow> pv_port_flows Q f = Some i"
      using assms(1,2) by (simp add: pv_port_flows_iff pv_ports_ok_def)
  qed
  then show ?thesis by (simp add: pv_table_def fun_eq_iff)
qed

lemma net_keys_default [simp]: "PvDefault \<notin> net_keys net" "map_of (net_flows net) PvDefault = None"
  by (auto simp: net_keys_def net_flows_def split: option.splits)

lemma pv_table_add:
  assumes "pv_ports_ok (P @ [(i, net)])"
  shows "pv_table P ++ map_of (net_flows net) = pv_table (P @ [(i, net)])"
proof
  fix f
  have ok: "list_all (\<lambda>p. list_all (\<lambda>q. nets_apart (snd p) (snd q)) (P @ [(i, net)])) (P @ [(i, net)])"
    "list_all (\<lambda>p. list_all (\<lambda>q. nets_apart (snd p) (snd q)) P) P"
    using assms by (auto simp: pv_ports_ok_def list_all_iff)
  have "(pv_port_flows P ++ map_of (net_flows net)) f = pv_port_flows (P @ [(i, net)]) f"
  proof (rule option_eqI)
    fix j
    have "j = k" if "map_of (net_flows net) f = Some k" "p \<in> set P" "map_of (net_flows (snd p)) f = Some j" for k p
      using nets_apart_keys [of net "snd p" f] map_of_net_flows that ok(1) by (fastforce simp: list_all_iff)
    then show "(pv_port_flows P ++ map_of (net_flows net)) f = Some j \<longleftrightarrow> pv_port_flows (P @ [(i, net)]) f = Some j"
      using pv_port_flows_iff [OF ok(1), of f j] pv_port_flows_iff [OF ok(2), of f j]
      by (cases "map_of (net_flows net) f") (auto simp: map_add_def)
  qed
  then show "(pv_table P ++ map_of (net_flows net)) f = pv_table (P @ [(i, net)]) f"
    by (cases "f = PvDefault") (auto simp: pv_table_def map_add_def split: option.splits)
qed

lemma pv_ports_ok_remove: "pv_ports_ok P \<Longrightarrow> pv_ports_ok (remove1 p P)"
  by (auto simp: pv_ports_ok_def list_all_iff distinct_map_remove1 dest: notin_set_remove1)

lemma pv_table_remove:
  assumes "pv_ports_ok P" "(i, net) \<in> set P" "net \<notin> snd ` set (remove1 (i, net) P)"
  shows "pv_table P |` (- net_keys net) = pv_table (remove1 (i, net) P)"
proof
  fix f
  let ?Q = "remove1 (i, net) P"
  have ok: "list_all (\<lambda>p. list_all (\<lambda>q. nets_apart (snd p) (snd q)) P) P"
    "list_all (\<lambda>p. list_all (\<lambda>q. nets_apart (snd p) (snd q)) ?Q) ?Q"
    using assms(1) pv_ports_ok_remove [OF assms(1), of "(i, net)"] by (simp_all add: pv_ports_ok_def)
  have P: "set P = insert (i, net) (set ?Q)" using set_remove1_insert [OF assms(2)] .
  have apart: "f \<notin> net_keys net" if "q \<in> set ?Q" "map_of (net_flows (snd q)) f = Some j" for q j
  proof
    assume "f \<in> net_keys net"
    then have "net = snd q"
      using nets_apart_keys [of net "snd q" f] map_of_net_flows [OF that(2)] ok(1) that(1) assms(2) P
      by (fastforce simp: list_all_iff)
    then show False using assms(3) that(1) by auto
  qed
  have "(pv_port_flows P |` (- net_keys net)) f = pv_port_flows ?Q f"
  proof (rule option_eqI)
    fix j
    show "(pv_port_flows P |` (- net_keys net)) f = Some j \<longleftrightarrow> pv_port_flows ?Q f = Some j"
      using pv_port_flows_iff [OF ok(1), of f j] pv_port_flows_iff [OF ok(2), of f j] apart [of _ j] P map_of_net_flows [of net f j]
      by (cases "f \<in> net_keys net") (auto simp: restrict_map_def)
  qed
  then show "(pv_table P |` (- net_keys net)) f = pv_table ?Q f"
    by (cases "f = PvDefault") (simp_all add: pv_table_def restrict_map_def split: if_splits)
qed

lemma pv_bind_yields:
  assumes "stamps conf ck cm" "pp_lswitch p = Inr ls" "resolve_net br ls = Some net"
    and "pv_rep ck cm br P s" "pv_ports_ok (P @ [(pp_id p, net)])"
  shows "yields (pv_add_local_port conf p s) (pv_rep ck cm br (P @ [(pp_id p, net)]))"
proof -
  note r = resolve_netD [OF assms(3)]
  let ?n = "ls_unique_key ls" and ?t = "ls_network_type ls" and ?P = "P @ [(pp_id p, net)]"
  from assms(4) obtain ln where s: "pv_frep ck cm (pv_table P) ln br s" "cache_of P (local_ports_net_cache ln)"
    by (auto simp: pv_rep_def)
  from local_count [OF s(2) r(4)] obtain k ln' where k: "get_local_port_count ?n (Some ?t) ln = (k, ln')"
    "cache_of P (local_ports_net_cache ln')" "k = 0 \<longleftrightarrow> (\<forall>q\<in>set P. \<not> (pn_key (snd q) = ?n \<and> pn_type (snd q) = ?t))" .
  note s' = pv_frep_networks [OF s(1), of ln']
  have okP: "pv_ports_ok P" using assms(5) by (auto simp: pv_ports_ok_def list_all_iff)
  have "yields (if k = 0 then new_network_flow conf ls ?n ?t (s\<lparr>pv_networks := ln'\<rparr>) else (None, s\<lparr>pv_networks := ln'\<rparr>))
      (pv_frep ck cm (pv_table ?P) ln' br)"
  proof (cases "k = 0")
    case True
    then show ?thesis using new_network_yields [OF assms(1,3) s'] pv_table_add [OF assms(5)] by simp
  next
    case False
    then obtain q where q: "q \<in> set P" "pn_key (snd q) = pn_key net" using k(3) r(1,2) by auto
    then have "snd q = net" using assms(5) by (fastforce simp: pv_ports_ok_def list_all_iff nets_apart_def)
    then have "snd ` set ?P = snd ` set P" using q(1) by force
    then show ?thesis using False s' pv_table_eqI [OF assms(5) okP] by simp
  qed
  moreover have "yields (None, t\<lparr>pv_networks := add_local_port (pp_id p) ?n ?t (pv_networks t)\<rparr>) (pv_rep ck cm br ?P)"
    if "pv_frep ck cm (pv_table ?P) ln' br t" for t
    using pv_repI [OF pv_frep_networks [OF that] cache_of_add [OF k(2), of "pp_id p" net]] pv_frepD(1) [OF that] r(1,2) by simp
  ultimately have "yields (and_then
      (if k = 0 then new_network_flow conf ls ?n ?t (s\<lparr>pv_networks := ln'\<rparr>) else (None, s\<lparr>pv_networks := ln'\<rparr>))
      (\<lambda>s. (None, s\<lparr>pv_networks := add_local_port (pp_id p) ?n ?t (pv_networks s)\<rparr>))) (pv_rep ck cm br ?P)"
    by (rule yields_then)
  then show ?thesis using r(4) by (simp add: pv_add_local_port_def assms(2) Let_def pv_frepD(1) [OF s(1)] k(1))
qed

lemma pv_unbind_yields:
  assumes "stamps conf ck cm" "pp_lswitch p = Inr ls" "resolve_net br ls = Some net"
    and "pv_rep ck cm br P s" "pv_ports_ok P" "(pp_id p, net) \<in> set P"
  shows "yields (pv_remove_local_port conf p s) (pv_rep ck cm br (remove1 (pp_id p, net) P))"
proof -
  note r = resolve_netD [OF assms(3)]
  let ?n = "ls_unique_key ls" and ?t = "ls_network_type ls" and ?P = "remove1 (pp_id p, net) P"
  from assms(4) obtain ln where s: "pv_frep ck cm (pv_table P) ln br s" "cache_of P (local_ports_net_cache ln)"
    by (auto simp: pv_rep_def)
  from cache_of_remove [OF s(2) assms(5,6)] r(1,2)
  have c: "cache_of ?P (local_ports_net_cache (remove_local_port (pp_id p) ?n ?t ln))" by simp
  from local_count [OF this r(4)] obtain k ln' where
    k: "get_local_port_count ?n (Some ?t) (remove_local_port (pp_id p) ?n ?t ln) = (k, ln')"
    "cache_of ?P (local_ports_net_cache ln')" "k = 0 \<longleftrightarrow> (\<forall>q\<in>set ?P. \<not> (pn_key (snd q) = ?n \<and> pn_type (snd q) = ?t))" .
  note s' = pv_frep_networks [OF s(1), of ln']
  have P: "set P = insert (pp_id p, net) (set ?P)" using set_remove1_insert [OF assms(6)] .
  have "yields (if k = 0 then remove_network_flow conf ls ?n ?t (s\<lparr>pv_networks := ln'\<rparr>) else (None, s\<lparr>pv_networks := ln'\<rparr>))
      (pv_frep ck cm (pv_table ?P) ln' br)"
  proof (cases "k = 0")
    case True
    then have "net \<notin> snd ` set ?P" using k(3) r(1,2) by auto
    then show ?thesis using True remove_network_yields [OF assms(1,3) s'] pv_table_remove [OF assms(5,6)] by simp
  next
    case False
    then obtain q where q: "q \<in> set ?P" "pn_key (snd q) = pn_key net" using k(3) r(1,2) by auto
    then have "snd q = net" using assms(5,6) P by (fastforce simp: pv_ports_ok_def list_all_iff nets_apart_def)
    then have "snd ` set P = snd ` set ?P" using q(1) P by force
    then show ?thesis using False s' pv_table_eqI [OF assms(5) pv_ports_ok_remove [OF assms(5)]] by simp
  qed
  then have "yields (if k = 0 then remove_network_flow conf ls ?n ?t (s\<lparr>pv_networks := ln'\<rparr>) else (None, s\<lparr>pv_networks := ln'\<rparr>))
      (pv_rep ck cm br ?P)"
    by (rule yields_mono) (rule pv_repI [OF _ k(2)])
  then show ?thesis using r(4) by (simp add: pv_remove_local_port_def assms(2) Let_def pv_frepD(1) [OF s(1)] k(1))
qed

lemma other_port_ignored:
  assumes "pp_lswitch p = Inr ls" "ls_network_type ls \<notin> set NETWORK_TYPES"
  shows "pv_add_local_port conf p s = (None, s)" "pv_remove_local_port conf p s = (None, s)"
  using assms by (simp_all add: pv_add_local_port_def pv_remove_local_port_def)

section \<open>Lives of the application\<close>

datatype pv_event = PvBind pv_port | PvUnbind pv_port

fun pv_handle :: "'o pv_conf \<Rightarrow> pv_event \<Rightarrow> pv_app \<Rightarrow> pv_app outcome" where
  "pv_handle conf (PvBind p) = pv_add_local_port conf p"
| "pv_handle conf (PvUnbind p) = pv_remove_local_port conf p"

text \<open>
  The ports of provider networks bound after an event, or \<open>None\<close> for an event outside the contract.
  Ports of other networks pass by.
\<close>

definition pv_step :: "pv_bridges \<Rightarrow> pv_port \<Rightarrow> (string \<times> pv_net \<Rightarrow> pv_ports option) \<Rightarrow> pv_ports \<Rightarrow> pv_ports option" where
  "pv_step br p f P =
     (case pp_lswitch p of
        Inl e \<Rightarrow> None
      | Inr ls \<Rightarrow>
          if ls_network_type ls \<notin> set NETWORK_TYPES then Some P
          else Option.bind (resolve_net br ls) (\<lambda>net. f (pp_id p, net)))"

fun pv_after_event :: "pv_bridges \<Rightarrow> pv_event \<Rightarrow> pv_ports \<Rightarrow> pv_ports option" where
  "pv_after_event br (PvBind p) P =
     pv_step br p (\<lambda>x. if pv_ports_ok (P @ [x]) then Some (P @ [x]) else None) P"
| "pv_after_event br (PvUnbind p) P = pv_step br p (\<lambda>x. if x \<in> set P then Some (remove1 x P) else None) P"

fun pv_after :: "pv_bridges \<Rightarrow> pv_event list \<Rightarrow> pv_ports \<Rightarrow> pv_ports option" where
  "pv_after br [] P = Some P"
| "pv_after br (ev # evs) P = Option.bind (pv_after_event br ev P) (pv_after br evs)"

lemma pv_event_ok: "pv_after_event br ev P = Some P' \<Longrightarrow> pv_ports_ok P \<Longrightarrow> pv_ports_ok P'"
  by (cases ev) (auto simp: pv_step_def bind_eq_Some_conv pv_ports_ok_remove split: sum.splits if_splits)

lemma pv_after_ports_ok: "pv_after br evs P = Some P' \<Longrightarrow> pv_ports_ok P \<Longrightarrow> pv_ports_ok P'"
  by (induction evs arbitrary: P) (auto simp: bind_eq_Some_conv dest: pv_event_ok)

lemma pv_handle_yields:
  assumes "stamps conf ck cm" "pv_ports_ok P" "pv_rep ck cm br P s" "pv_after_event br ev P = Some P'"
  shows "yields (pv_handle conf ev s) (pv_rep ck cm br P')"
proof (cases ev)
  case (PvBind p)
  with assms(4) obtain ls where ls: "pp_lswitch p = Inr ls" by (auto simp: pv_step_def split: sum.splits)
  show ?thesis
  proof (cases "ls_network_type ls \<in> set NETWORK_TYPES")
    case True
    with PvBind ls assms(4) obtain net where "resolve_net br ls = Some net" "pv_ports_ok (P @ [(pp_id p, net)])"
      "P' = P @ [(pp_id p, net)]" by (auto simp: pv_step_def bind_eq_Some_conv split: if_splits)
    then show ?thesis using pv_bind_yields [OF assms(1) ls _ assms(3)] PvBind by simp
  next
    case False
    then show ?thesis using PvBind ls assms(3,4) by (simp add: pv_step_def other_port_ignored)
  qed
next
  case (PvUnbind p)
  with assms(4) obtain ls where ls: "pp_lswitch p = Inr ls" by (auto simp: pv_step_def split: sum.splits)
  show ?thesis
  proof (cases "ls_network_type ls \<in> set NETWORK_TYPES")
    case True
    with PvUnbind ls assms(4) obtain net where "resolve_net br ls = Some net" "(pp_id p, net) \<in> set P"
      "P' = remove1 (pp_id p, net) P" by (auto simp: pv_step_def bind_eq_Some_conv split: if_splits)
    then show ?thesis using pv_unbind_yields [OF assms(1) ls _ assms(3,2)] PvUnbind by simp
  next
    case False
    then show ?thesis using PvUnbind ls assms(3,4) by (simp add: pv_step_def other_port_ignored)
  qed
qed

lemma pv_run_yields:
  assumes "stamps conf ck cm" "pv_ports_ok P" "pv_rep ck cm br P s" "pv_after br evs P = Some P'"
  shows "yields (run_each (pv_handle conf) evs s) (pv_rep ck cm br P')"
  using assms(2-)
proof (induction evs arbitrary: P s)
  case Nil
  then show ?case by simp
next
  case (Cons ev evs)
  then obtain P1 where P1: "pv_after_event br ev P = Some P1" "pv_after br evs P1 = Some P'"
    by (auto simp: bind_eq_Some_conv)
  note h = pv_handle_yields [OF assms(1) Cons.prems(1,2) P1(1)]
  show ?case using yields_then [OF h] Cons.IH [OF pv_event_ok [OF P1(1) Cons.prems(1)] _ P1(2)] by simp
qed

text \<open>The bridges as the start leaves them.\<close>

definition start_bridges :: "'o pv_conf \<Rightarrow> pv_bridges" where
  "start_bridges conf = bridges_of (setup_physical_bridges conf (bridge_mappings conf) pv_init)"

lemma setup_keeps: "fa_sent (setup_physical_bridges conf d s) = fa_sent s" "pv_networks (setup_physical_bridges conf d s) = pv_networks s"
  by (induction d arbitrary: s) (auto simp: Let_def)

lemma pv_start_yields:
  assumes "stamps conf ck cm"
  shows "yields (pv_switch_features_handler conf pv_init) (pv_rep ck cm (start_bridges conf) [])"
proof -
  let ?s = "setup_physical_bridges conf (bridge_mappings conf) pv_init"
  let ?op = "Put PvDefault (goto_insts EXTERNAL_INGRESS_DETECT_SOURCE_TABLE L2_LOOKUP_TABLE)"
  have e: "?s = \<lparr>fa_sent = [], pv_networks = ln_init, int_ofports = fst (start_bridges conf), bridge_macs = snd (start_bridges conf)\<rparr>"
    using setup_keeps [of conf "bridge_mappings conf" pv_init] by (cases ?s) (simp add: start_bridges_def bridges_of_def pv_init_def)
  have "pv_frep ck cm Map.empty ln_init (start_bridges conf) ?s"
    unfolding e pv_frep_def using flows_rep_empty [of pv_shape pv_fam ck cm] by (simp add: pv_app.defs)
  from pv_send [OF assms plain_goto_args goto_asks [where sh = pv_shape and fam = pv_fam and f = PvDefault and mtch = None] this]
  have "yields (pv_switch_features_handler conf pv_init) (pv_frep ck cm (op_step ?op Map.empty) ln_init (start_bridges conf))"
    by (simp add: pv_switch_features_handler_def send_goto_flow)
  moreover have "op_step ?op Map.empty = pv_table []" by (simp add: pv_table_def pv_port_flows_def)
  moreover have "cache_of [] (local_ports_net_cache ln_init)" by (simp add: cache_of_def ln_init_def)
  ultimately show ?thesis by (auto intro: yields_mono pv_repI)
qed

section \<open>Correctness\<close>

lemma pv_life:
  assumes "stamps conf ck cm" "pv_after (start_bridges conf) evs [] = Some P"
  shows "\<exists>s0 s. pv_switch_features_handler conf pv_init = (None, s0) \<and>
    run_each (pv_handle conf) evs s0 = (None, s) \<and> pv_rep ck cm (start_bridges conf) P s"
proof -
  have "pv_ports_ok []" by (simp add: pv_ports_ok_def)
  with yieldsD [OF pv_start_yields [OF assms(1)]] yieldsD [OF pv_run_yields [OF assms(1) _ _ assms(2)]]
  show ?thesis by blast
qed


text \<open>
  C40. A new hardware address of a bridge is announced with the old one. When the address of the
  bridge of a network changes, the application removes the flow that replaces the placeholder
  address and installs it again before it stores the new address: the new flow still writes the
  old address, although the application now remembers the new one and ignores later reports of it.
\<close>

theorem provider_stale_bridge_mac:
  assumes "of_switch sw_mod flow_at" "flow_at t0 = Map.empty" "stamps conf ck cm"
    and "pv_after (start_bridges conf) evs [] = Some P"
    and "map_of (reverse_bridge_mappings conf) bridge = Some pn" "pn \<noteq> []"
    and "map_of (snd (start_bridges conf)) pn = Some (Some old)" "old \<noteq> mac"
    and "find_lswitch pn = Inr (Some ls)" "ls_physical_network ls = Some pn" "resolve_net (start_bridges conf) ls = Some net"
  shows "\<exists>s0 s s'. pv_switch_features_handler conf pv_init = (None, s0) \<and> run_each (pv_handle conf) evs s0 = (None, s) \<and>
    bridge_updated conf find_lswitch bridge (Some mac) s = (None, s') \<and> map_of (bridge_macs s') pn = Some (Some mac) \<and>
    bridge_updated conf find_lswitch bridge (Some mac) s' = (None, s') \<and>
    flow_at (fold sw_mod (fa_sent s') t0) (shape_key pv_shape (PvPlaceholder (ls_unique_key ls))) =
      Some (ck, [Actions OFPIT_APPLY_ACTIONS [SetField ''eth_dst'' (MStr old), OutputPort (pn_port net) OFPCML_NO_BUFFER]])"
proof -
  let ?br = "start_bridges conf" and ?n = "ls_unique_key ls"
  from pv_life [OF assms(3,4)] obtain s0 s ln where
    s: "pv_switch_features_handler conf pv_init = (None, s0)" "run_each (pv_handle conf) evs s0 = (None, s)"
      "pv_frep ck cm (pv_table P) ln ?br s" by (auto simp: pv_rep_def)
  have pm: "pn_mac net = Some old"
    using resolve_net_state(3) [OF assms(11) s(3)] assms(7,10) pv_frepD(3) [OF s(3)] by simp
  have 1: "yields (remove_egress_placeholder_flow conf ?n s) (pv_frep ck cm (op_step (Del (PvPlaceholder ?n)) (pv_table P)) ln ?br)"
    unfolding remove_egress_placeholder_flow_def using assms(3) s(3) by (intro pv_send) (simp_all add: l2_message_simps)
  have "yields (and_then (remove_egress_placeholder_flow conf ?n s) (egress_placeholder_flow conf ls))
      (pv_frep ck cm (op_step (Put (PvPlaceholder ?n) [Actions OFPIT_APPLY_ACTIONS
         [SetField ''eth_dst'' (MStr old), OutputPort (pn_port net) OFPCML_NO_BUFFER]])
           (op_step (Del (PvPlaceholder ?n)) (pv_table P))) ln ?br)"
    using 1 by (rule yields_then) (rule placeholder_yields_pv [OF assms(3,11) _ pm])
  from yieldsD [OF this] obtain s1 where
    s1: "and_then (remove_egress_placeholder_flow conf ?n s) (egress_placeholder_flow conf ls) = (None, s1)"
      "pv_frep ck cm (op_step (Put (PvPlaceholder ?n) [Actions OFPIT_APPLY_ACTIONS
         [SetField ''eth_dst'' (MStr old), OutputPort (pn_port net) OFPCML_NO_BUFFER]])
           (op_step (Del (PvPlaceholder ?n)) (pv_table P))) ln ?br s1" by blast
  let ?s = "s1\<lparr>bridge_macs := AList.update pn (Some mac) (bridge_macs s1)\<rparr>"
  have "bridge_updated conf find_lswitch bridge (Some mac) s =
      and_then (and_then (remove_egress_placeholder_flow conf ?n s) (egress_placeholder_flow conf ls))
        (\<lambda>s. (None, s\<lparr>bridge_macs := AList.update pn (Some mac) (bridge_macs s)\<rparr>))"
    using assms(5-9) pv_frepD(3) [OF s(3)] by (simp add: bridge_updated_def update_bridge_mac_def and_then_assoc)
  then have u: "bridge_updated conf find_lswitch bridge (Some mac) s = (None, ?s)" by (simp add: s1(1))
  have "bridge_updated conf find_lswitch bridge (Some mac) ?s = (None, ?s)"
    using assms(5,6) by (simp add: bridge_updated_def update_bridge_mac_def)
  moreover from flows_rep_switch [OF s1(2) [unfolded pv_frep_def] assms(1,2)]
  have "flow_at (fold sw_mod (fa_sent ?s) t0) (shape_key pv_shape (PvPlaceholder ?n)) =
      Some (ck, [Actions OFPIT_APPLY_ACTIONS [SetField ''eth_dst'' (MStr old), OutputPort (pn_port net) OFPCML_NO_BUFFER]])"
    by simp
  ultimately show ?thesis using s(1,2) u by fastforce
qed

section \<open>Two applications in one table\<close>

text \<open>The messages of both applications arrive at the same switch.\<close>

lemma both_tables:
  assumes "of_switch sw_mod flow_at" "flow_at t0 = Map.empty"
    and "flows_rep sh fam ck cm M x s" "list_all (carries ck cm) fms"
  shows "flow_at (fold sw_mod (fa_sent s @ fms) t0) key = map_option (Pair ck) (fold table_mod fms (family_table sh M) key)"
  using of_switch.switch_refines_table [OF assms(1,4) flows_rep_switch [OF assms(3,1,2)]] by simp

lemma add_only:
  assumes "list_all (\<lambda>fm. fm_command fm = OFPFC_ADD) fms"
  shows "fold table_mod fms T = T ++ flows_after fms"
  using assms
proof (induction fms rule: rev_induct)
  case Nil
  then show ?case by simp
next
  case (snoc fm fms)
  then have "table_mod fm (T ++ flows_after fms) = (T ++ flows_after fms)(fm_key fm \<mapsto> fm_inst fm)"
    "table_mod fm (flows_after fms) = (flows_after fms)(fm_key fm \<mapsto> fm_inst fm)"
    by (simp_all add: table_mod_def)
  then show ?case using snoc by (simp only: flows_after_append fold_append comp_apply fold_simps map_add_upd list_all_append)
qed

lemma goto_args_add [simp]: "a_command (goto_args table priority e mtch) = None"
  by (simp add: goto_args_def default_args_def)

lemma sent_reads [simp]:
  "int_ofport (s\<lparr>fa_sent := x\<rparr>) = int_ofport s" "bridge_mac (s\<lparr>fa_sent := x\<rparr>) = bridge_mac s"
  by (simp_all add: fun_eq_iff int_ofport_def bridge_mac_def)

definition adds_only :: "'s flow_app_scheme outcome \<Rightarrow> 's flow_app_scheme \<Rightarrow> bool" where
  "adds_only r s \<longleftrightarrow> (\<exists>fms. r = (None, s\<lparr>fa_sent := fa_sent s @ fms\<rparr>) \<and> list_all (\<lambda>fm. fm_command fm = OFPFC_ADD) fms)"

lemma adds_nothing: "adds_only (None, s) s"
  by (auto simp: adds_only_def intro!: exI [of _ "[]"])

lemma adds_then:
  assumes "adds_only r s" "\<And>x. adds_only (f (s\<lparr>fa_sent := x\<rparr>)) (s\<lparr>fa_sent := x\<rparr>)"
  shows "adds_only (and_then r f) s"
proof -
  from assms(1) obtain fms where r: "r = (None, s\<lparr>fa_sent := fa_sent s @ fms\<rparr>)" "list_all (\<lambda>fm. fm_command fm = OFPFC_ADD) fms"
    by (auto simp: adds_only_def)
  from assms(2) [of "fa_sent s @ fms"] r show ?thesis
    by (fastforce simp: adds_only_def)
qed

lemma adds_send:
  assumes "stamps conf ck cm" "plain_args a" "a_command a = None"
  shows "adds_only (send_flow conf a s) s"
  using assms by (auto simp: adds_only_def send_flow_stamped or_default_def)

lemma new_network_adds:
  assumes "stamps conf ck cm" "resolve_net br ls = Some net" "pv_frep ck cm M ln br s"
  shows "adds_only (new_network_flow conf ls (ls_unique_key ls) (ls_network_type ls) s) s"
proof -
  note st = resolve_net_state [OF assms(2,3)]
  have p: "adds_only (egress_placeholder_flow conf ls (s\<lparr>fa_sent := x\<rparr>)) (s\<lparr>fa_sent := x\<rparr>)"
    if "Option.bind (ls_physical_network ls) (map_of (bridge_macs s)) = Some mac" for x mac
    using that st(2) by (auto simp: egress_placeholder_flow_def bridge_mac_def default_args_def plain_args_def intro!: adds_send [OF assms(1)])
  have e: "adds_only (egress_external_flow conf ls n (s\<lparr>fa_sent := x\<rparr>)) (s\<lparr>fa_sent := x\<rparr>)" for n x
    using st(2) p unfolding egress_external_flow_def
    by (auto simp: default_args_def plain_args_def intro!: adds_then adds_send [OF assms(1)] adds_nothing split: option.splits)
  show ?thesis
    unfolding new_network_flow_def network_classification_flow_def st(1) with_value_Inr prod.case l2_lookup_flow_def
      egress_flow_def resolve_netD(3) [OF assms(2)]
    by (intro adds_then adds_send [OF assms(1)]) (simp_all add: default_args_def plain_args_def e)
qed

lemma adds_only_sent: "adds_only (None, t) s \<Longrightarrow> list_all (\<lambda>fm. fm_command fm = OFPFC_ADD) (fa_sent s) \<Longrightarrow>
    list_all (\<lambda>fm. fm_command fm = OFPFC_ADD) (fa_sent t)"
  by (auto simp: adds_only_def)

lemma pv_first_port_adds:
  assumes "stamps conf ck cm" "pp_lswitch p = Inr ls" "resolve_net (start_bridges conf) ls = Some net"
  shows "\<exists>s0 s. pv_switch_features_handler conf pv_init = (None, s0) \<and> pv_add_local_port conf p s0 = (None, s) \<and>
    list_all (\<lambda>fm. fm_command fm = OFPFC_ADD) (fa_sent s) \<and> pv_rep ck cm (start_bridges conf) [(pp_id p, net)] s"
proof -
  note r = resolve_netD [OF assms(3)]
  let ?n = "ls_unique_key ls" and ?t = "ls_network_type ls"
  from yieldsD [OF pv_start_yields [OF assms(1)]] obtain s0 ln where
    s0: "pv_switch_features_handler conf pv_init = (None, s0)" "pv_rep ck cm (start_bridges conf) [] s0"
      "pv_frep ck cm (pv_table []) ln (start_bridges conf) s0" "cache_of [] (local_ports_net_cache ln)"
    by (auto simp: pv_rep_def)
  have a0: "list_all (\<lambda>fm. fm_command fm = OFPFC_ADD) (fa_sent s0)"
  proof -
    let ?s = "setup_physical_bridges conf (bridge_mappings conf) pv_init"
    have "adds_only (pv_switch_features_handler conf pv_init) ?s"
      unfolding pv_switch_features_handler_def send_goto_flow
      by (intro adds_send [OF assms(1)]) simp_all
    from adds_only_sent [OF this [unfolded s0(1)]] show ?thesis
      by (simp add: setup_keeps pv_init_def)
  qed
  have "pv_ports_ok ([] @ [(pp_id p, net)])" by (simp add: pv_ports_ok_def nets_apart_def)
  from yieldsD [OF pv_bind_yields [OF assms s0(2) this]] obtain s where
    s: "pv_add_local_port conf p s0 = (None, s)" "pv_rep ck cm (start_bridges conf) [(pp_id p, net)] s" by auto
  from local_count [OF s0(4) r(4), of ?n] obtain k ln' where k: "get_local_port_count ?n (Some ?t) ln = (k, ln')" "k = 0"
    by (metis empty_iff empty_set)
  note s' = pv_frep_networks [OF s0(3), of ln']
  from new_network_adds [OF assms(1,3) s'] obtain fms where
    f: "new_network_flow conf ls ?n ?t (s0\<lparr>pv_networks := ln'\<rparr>) = (None, s0\<lparr>pv_networks := ln', fa_sent := fa_sent s0 @ fms\<rparr>)"
      "list_all (\<lambda>fm. fm_command fm = OFPFC_ADD) fms" by (auto simp: adds_only_def)
  have "pv_add_local_port conf p s0 =
      (None, s0\<lparr>pv_networks := add_local_port (pp_id p) ?n ?t ln', fa_sent := fa_sent s0 @ fms\<rparr>)"
    using r(4) by (simp add: pv_add_local_port_def assms(2) Let_def pv_frepD(1) [OF s0(3)] k f(1))
  then have "fa_sent s = fa_sent s0 @ fms" using s(1) by auto
  then show ?thesis using s0(1) s a0 f(2) by simp
qed

lemma unicast_is_not_pv: "shape_key l2_shape (Unicast n dst) \<notin> range (shape_key pv_shape)"
proof
  assume "shape_key l2_shape (Unicast n dst) \<in> range (shape_key pv_shape)"
  then obtain f where "shape_key l2_shape (Unicast n dst) = shape_key pv_shape f" by blast
  then show False
    by (cases f) (auto simp: shape_key_def table_defs pv_match_defs unicast_match_def EXTERNAL_INGRESS_DETECT_SOURCE_TABLE_def
        dest!: fun_cong [where x = "''eth_dst''"])
qed

text \<open>
  C37. On a provider network the lookup of a port's address is ambiguous. When the layer 2
  application has bound a port that no router serves, and the provider application then binds its
  first local port of that network, the lookup table has two flows of the same priority with
  different instructions that both match every packet for the address of the port in its network:
  the one that takes it to the port, and the one that sends every unicast packet of the network out.
  The OpenFlow specification leaves open which of the two the switch takes.
\<close>

theorem provider_l2_overlap:
  assumes "of_switch sw_mod flow_at" "flow_at t0 = Map.empty" "stamps lconf ck cm" "stamps conf ck cm"
    and "l2_after lconf evs [] = Some P" "(loc, b) \<in> set P" "\<not> lb_routed b"
    and "pp_lswitch p = Inr ls" "resolve_net (start_bridges conf) ls = Some net" "ls_unique_key ls = lb_net b"
  shows "\<exists>l0 l s0 s.
    l2_switch_features_handler lconf \<lparr>fa_sent = [], l2_networks = d\<rparr> = (None, l0) \<and> run_each (l2_handle lconf) evs l0 = (None, l) \<and>
    pv_switch_features_handler conf pv_init = (None, s0) \<and> pv_add_local_port conf p s0 = (None, s) \<and>
    flow_at (fold sw_mod (fa_sent l @ fa_sent s) t0) (L2_LOOKUP_TABLE, PRIORITY_MEDIUM, map_of (unicast_match (lb_net b) (lb_addr b))) =
      Some (ck, to_port (lb_key b) EGRESS_TABLE) \<and>
    flow_at (fold sw_mod (fa_sent l @ fa_sent s) t0) (L2_LOOKUP_TABLE, PRIORITY_MEDIUM, map_of (pv_make_bum_match (lb_net b))) =
      Some (ck, [GotoTable EGRESS_TABLE]) \<and>
    (\<forall>pkt. packet_matches (map_of (unicast_match (lb_net b) (lb_addr b))) pkt \<longrightarrow>
       packet_matches (map_of (pv_make_bum_match (lb_net b))) pkt)"
proof -
  from l2_life [OF assms(3,5), of d] obtain l0 l fl d' where
    l: "l2_switch_features_handler lconf \<lparr>fa_sent = [], l2_networks = d\<rparr> = (None, l0)"
      "run_each (l2_handle lconf) evs l0 = (None, l)" "l2_frep ck cm (l2_table lconf P fl) d' l" by (auto simp: l2_rep_def)
  from pv_first_port_adds [OF assms(4,8,9)] obtain s0 s ln where
    s: "pv_switch_features_handler conf pv_init = (None, s0)" "pv_add_local_port conf p s0 = (None, s)"
      "list_all (\<lambda>fm. fm_command fm = OFPFC_ADD) (fa_sent s)"
      "pv_frep ck cm (pv_table [(pp_id p, net)]) ln (start_bridges conf) s" by (auto simp: pv_rep_def)
  have pv: "flows_after (fa_sent s) = family_table pv_shape (pv_table [(pp_id p, net)])"
    "list_all (carries ck cm) (fa_sent s)" using s(4) by (simp_all add: pv_frep_def flows_rep_def)
  from both_tables [OF assms(1,2) l(3) [unfolded l2_frep_def] pv(2)]
  have T: "flow_at (fold sw_mod (fa_sent l @ fa_sent s) t0) key = map_option (Pair ck)
      ((family_table l2_shape (l2_table lconf P fl) ++ family_table pv_shape (pv_table [(pp_id p, net)])) key)" for key
    by (simp only: add_only [OF s(3)] pv(1))
  have ok: "l2_ports_ok P" using l2_after_ports_ok [OF assms(5)] by (simp add: l2_ports_ok_def)
  have "(Unicast (lb_net b) (lb_addr b), to_port (lb_key b) EGRESS_TABLE) \<in> set (ports_flow_dict lconf P)"
    using assms(6,7) by (force simp: ports_flow_dict_def port_flow_dict_def lookup_flows_def)
  then have u: "l2_table lconf P fl (Unicast (lb_net b) (lb_addr b)) = Some (to_port (lb_key b) EGRESS_TABLE)"
    using wf_ports_flow_dict [OF ok, of lconf] by (simp add: l2_table_def map_add_def)
  have a: "lb_addr b AND BUM_ADDR = 0" using ok assms(6) by (fastforce simp: l2_ports_ok_def list_all_iff)
  have "flow_at (fold sw_mod (fa_sent l @ fa_sent s) t0) (shape_key l2_shape (Unicast (lb_net b) (lb_addr b))) =
      Some (ck, to_port (lb_key b) EGRESS_TABLE)"
    unfolding T by (simp add: map_add_def unicast_is_not_pv u)
  moreover have "pv_table [(pp_id p, net)] (PvUnknown (lb_net b)) = Some [GotoTable EGRESS_TABLE]"
    using resolve_netD(1) [OF assms(9)] assms(10) by (simp add: pv_table_def pv_port_flows_def net_flows_def split: option.split)
  then have "flow_at (fold sw_mod (fa_sent l @ fa_sent s) t0) (shape_key pv_shape (PvUnknown (lb_net b))) =
      Some (ck, [GotoTable EGRESS_TABLE])"
    unfolding T by (simp add: map_add_def)
  moreover have "packet_matches (map_of (pv_make_bum_match (lb_net b))) pkt"
    if "packet_matches (map_of (unicast_match (lb_net b) (lb_addr b))) pkt" for pkt
    using that a by (force simp: packet_matches_def unicast_match_def pv_make_bum_match_def split: if_splits)
  ultimately show ?thesis using l(1,2) s(1,2) by (fastforce simp: shape_key_def)
qed

section \<open>Examples\<close>

definition example_pv_conf :: "unit pv_conf" where
  "example_pv_conf = \<lparr>fc_cookies = empty_cookie_space, fc_opaque = (), integration_bridge = ''br-int'',
     bridge_mappings = [(''pn'', ''br-ex'')], create_patch_pair = (\<lambda>local peer. (''i'', ''e'')),
     get_port_ofport = (\<lambda>name. PInt 3), get_port_mac_in_use = (\<lambda>name. Some ''m'')\<rparr>"

definition example_pv_lswitch :: pv_lswitch where
  "example_pv_lswitch = \<lparr>ls_unique_key = 9, ls_network_type = NET_VLAN, ls_segmentation_id = Some 5,
     ls_physical_network = Some ''pn''\<rparr>"

definition example_pv_port :: "string \<Rightarrow> pv_port" where
  "example_pv_port i = \<lparr>pp_id = i, pp_lswitch = Inr example_pv_lswitch\<rparr>"

definition example_pv_net :: pv_net where
  "example_pv_net = \<lparr>pn_key = 9, pn_type = NET_VLAN, pn_port = PInt 3, pn_vid = OFPVID_PRESENT OR 5,
     pn_actions = [RegLoad ''in_port'' 0, SetField ''metadata'' (MInt 9), PopVlan],
     pn_egress = [Actions OFPIT_APPLY_ACTIONS [PushVlan ETH_TYPE_8021Q, SetField ''vlan_vid'' (MInt ((5 AND VLAN_MASK) OR OFPVID_PRESENT))],
       GotoTable EGRESS_EXTERNAL_TABLE],
     pn_mac = Some ''m''\<rparr>"

lemma example_pv_stamps: "stamps example_pv_conf 0 0"
  by (simp add: stamps_def example_pv_conf_def empty_cookie_space_def apply_global_cookie_modifiers_def)

lemma example_start_bridges: "start_bridges example_pv_conf = ([(''pn'', PInt 3)], [(''pn'', Some ''m'')])"
  by (simp add: start_bridges_def example_pv_conf_def pv_init_def bridges_of_def)

lemma example_resolve_net: "resolve_net (start_bridges example_pv_conf) example_pv_lswitch = Some example_pv_net"
  by (simp add: resolve_net_def example_start_bridges example_pv_lswitch_def example_pv_net_def egress_insts_def NETWORK_TYPES_def)

lemma example_pv_life:
  "pv_after (start_bridges example_pv_conf)
     [PvBind (example_pv_port ''p''), PvBind (example_pv_port ''q''), PvUnbind (example_pv_port ''p'')] [] =
   Some [(''q'', example_pv_net)]"
proof -
  have t: "ls_network_type example_pv_lswitch \<in> set NETWORK_TYPES"
    by (simp add: example_pv_lswitch_def NETWORK_TYPES_def)
  show ?thesis
    by (simp add: pv_step_def example_resolve_net t example_pv_port_def pv_ports_ok_def nets_apart_def)
qed


theorem provider_stale_bridge_mac_witness:
  "\<exists>s0 s s'. pv_switch_features_handler example_pv_conf pv_init = (None, s0) \<and>
    run_each (pv_handle example_pv_conf)
      [PvBind (example_pv_port ''p''), PvBind (example_pv_port ''q''), PvUnbind (example_pv_port ''p'')] s0 = (None, s) \<and>
    bridge_updated example_pv_conf (\<lambda>pn. Inr (Some example_pv_lswitch)) ''br-ex'' (Some ''n'') s = (None, s') \<and>
    fold mem_mod (fa_sent s') Map.empty (shape_key pv_shape (PvPlaceholder 9)) =
      Some (0, [Actions OFPIT_APPLY_ACTIONS [SetField ''eth_dst'' (MStr ''m''), OutputPort (PInt 3) OFPCML_NO_BUFFER]])"
proof -
  have "map_of (reverse_bridge_mappings example_pv_conf) ''br-ex'' = Some ''pn''"
    by (simp add: reverse_bridge_mappings_def example_pv_conf_def)
  note provider_stale_bridge_mac [OF mem.of_switch_axioms _ example_pv_stamps example_pv_life this, of Map.empty "''m''" "''n''"
      "\<lambda>pn. Inr (Some example_pv_lswitch)" example_pv_lswitch example_pv_net]
  moreover have "ls_unique_key example_pv_lswitch = 9" "ls_physical_network example_pv_lswitch = Some ''pn''" "pn_port example_pv_net = PInt 3"
    "map_of (snd (start_bridges example_pv_conf)) ''pn'' = Some (Some ''m'')"
    by (simp_all add: example_pv_lswitch_def example_pv_net_def example_start_bridges)
  ultimately show ?thesis using example_resolve_net by fastforce
qed

theorem provider_l2_overlap_witness:
  "\<exists>l0 l s0 s.
    l2_switch_features_handler example_l2_conf \<lparr>fa_sent = [], l2_networks = []\<rparr> = (None, l0) \<and>
    run_each (l2_handle example_l2_conf) [L2BindLocal example_l2_store (example_l2_port ''p'' 7 ''a'' [1]),
      L2BindLocal example_l2_store (example_l2_port ''q'' 8 ''b'' [2]),
      L2UnbindLocal example_l2_store (example_l2_port ''p'' 7 ''a'' [1])] l0 = (None, l) \<and>
    pv_switch_features_handler example_pv_conf pv_init = (None, s0) \<and>
    pv_add_local_port example_pv_conf (example_pv_port ''q'') s0 = (None, s) \<and>
    fold mem_mod (fa_sent l @ fa_sent s) Map.empty (L2_LOOKUP_TABLE, PRIORITY_MEDIUM, map_of (unicast_match 9 2)) =
      Some (0, to_port 8 EGRESS_TABLE) \<and>
    fold mem_mod (fa_sent l @ fa_sent s) Map.empty (L2_LOOKUP_TABLE, PRIORITY_MEDIUM, map_of (pv_make_bum_match 9)) =
      Some (0, [GotoTable EGRESS_TABLE])"
proof -
  have b: "lb_net (example_bound ''q'' 8 ''b'' [2]) = 9" "lb_addr (example_bound ''q'' 8 ''b'' [2]) = 2"
    "lb_key (example_bound ''q'' 8 ''b'' [2]) = 8" "\<not> lb_routed (example_bound ''q'' 8 ''b'' [2])"
    by (simp_all add: example_bound_def)
  have p: "pp_lswitch (example_pv_port ''q'') = Inr example_pv_lswitch" "ls_unique_key example_pv_lswitch = 9"
    by (simp_all add: example_pv_port_def example_pv_lswitch_def)
  from provider_l2_overlap [OF mem.of_switch_axioms _ example_l2_stamps example_pv_stamps example_l2_life, of Map.empty True
      "example_bound ''q'' 8 ''b'' [2]" "example_pv_port ''q''" example_pv_lswitch example_pv_net "[]"]
  show ?thesis using example_resolve_net by (fastforce simp: b p)
qed

end
