(* ===== verification/Trunk.thy ===== *)
theory Trunk
  imports Flow_Family
begin

text \<open>
  The trunk application, \<open>dragonflow/controller/apps/trunk.py\<close>: ports nested in another port, told
  apart by a VLAN tag or by their addresses. The application binds a child where its parent is
  bound (\<open>dragonflow/controller/port_locator.py\<close>), emits its bind and unbind events, and sends
  the flows that turn packets of the parent into packets of the child and back. The store's index
  lookup of the children of a port is a parameter.
\<close>

section \<open>State\<close>

definition TYPE_VLAN :: string where "TYPE_VLAN = ''vlan''"
definition TYPE_MACVLAN :: string where "TYPE_MACVLAN = ''macvlan''"
definition TYPE_IPVLAN :: string where "TYPE_IPVLAN = ''ipvlan''"

text \<open>Of a binding the application reads whether it is local; it may be a binding to a chassis that cannot be read.\<close>

record trunk_binding =
  tb_name :: string
  tb_is_local :: "bool result"

record trunk_lport =
  tl_key :: int
  tl_network :: "int result"
  tl_macs :: "string list"
  tl_ips :: "ipaddr list"
  tl_binding :: "trunk_binding option"

text \<open>The references of a child port segmentation know the ids of the ports, which may be missing.\<close>

record cps =
  cps_parent_id :: string
  cps_parent :: "trunk_lport result"
  cps_port_id :: string
  cps_port :: "trunk_lport result"
  cps_segmentation_type :: string
  cps_segmentation_id :: "int option"

record trunk_app = flow_app +
  trunk_locations :: "(string, trunk_binding option) dict"
  trunk_events :: "(string \<times> string) list"

definition tl_ip :: "trunk_lport \<Rightarrow> ipaddr option" where
  "tl_ip p = (case tl_ips p of [] \<Rightarrow> None | ip # ips \<Rightarrow> Some ip)"

definition tl_mac :: "trunk_lport \<Rightarrow> string option" where
  "tl_mac p = (case tl_macs p of [] \<Rightarrow> None | mac # macs \<Rightarrow> Some mac)"

section \<open>The kinds of nested ports\<close>

datatype nested_impl =
    VlanNestedPortImpl
  | MACVlanNestedPortIPImpl
  | MACVlanNestedPortArpImpl
  | IPVlanNestedPortIPImpl
  | IPVlanNestedPortArpImpl

definition get_classification_params_ip :: "cps \<Rightarrow> (string \<times> int \<times> ipaddr) result" where
  "get_classification_params_ip c =
     bind_result (cps_port c) (\<lambda>child.
       case tl_ip child of
         None \<Rightarrow> Inl AttributeError
       | Some ip \<Rightarrow>
           if ip_version ip = 4 then Inr (''ipv4_src'', ETH_TYPE_IP, ip)
           else if ip_version ip = 6 then Inr (''ipv6_src'', ETH_TYPE_IPV6, ip)
           else Inl InvalidIPAddressException)"

text \<open>An address that is missing stands in a match or action as it is.\<close>

definition ip_value :: "ipaddr option \<Rightarrow> mval" where
  "ip_value ip = (case ip of Some a \<Rightarrow> MIp a | None \<Rightarrow> MVal PNone)"

fun get_additional_classification_params :: "nested_impl \<Rightarrow> cps \<Rightarrow> fmatch result" where
  "get_additional_classification_params VlanNestedPortImpl c =
     (case cps_segmentation_id c of
        Some seg \<Rightarrow> Inr [(''vlan_vid'', MInt (OFPVID_PRESENT OR seg))]
      | None \<Rightarrow> Inl TypeError)"
| "get_additional_classification_params MACVlanNestedPortIPImpl c =
     bind_result (get_classification_params_ip c) (\<lambda>(ip_field, eth_type, child_ip).
     bind_result (cps_port c) (\<lambda>child.
       Inr [(''eth_src'', mac_value (tl_mac child)), (''eth_type'', MInt eth_type), (ip_field, MIp child_ip)]))"
| "get_additional_classification_params MACVlanNestedPortArpImpl c =
     bind_result (cps_port c) (\<lambda>child.
       Inr [(''eth_src'', mac_value (tl_mac child)), (''eth_type'', MInt ETH_TYPE_ARP),
            (''arp_sha'', mac_value (tl_mac child)), (''arp_spa'', ip_value (tl_ip child))])"
| "get_additional_classification_params IPVlanNestedPortIPImpl c =
     bind_result (get_classification_params_ip c) (\<lambda>(ip_field, eth_type, child_ip).
     bind_result (cps_parent c) (\<lambda>parent.
       Inr [(''eth_src'', mac_value (tl_mac parent)), (''eth_type'', MInt eth_type), (ip_field, MIp child_ip)]))"
| "get_additional_classification_params IPVlanNestedPortArpImpl c =
     bind_result (cps_parent c) (\<lambda>parent.
     bind_result (cps_port c) (\<lambda>child.
       Inr [(''eth_src'', mac_value (tl_mac parent)), (''eth_type'', MInt ETH_TYPE_ARP),
            (''arp_sha'', mac_value (tl_mac parent)), (''arp_spa'', ip_value (tl_ip child))]))"

fun get_additional_classification_actions :: "nested_impl \<Rightarrow> cps \<Rightarrow> action list result" where
  "get_additional_classification_actions VlanNestedPortImpl c = Inr [PopVlan]"
| "get_additional_classification_actions IPVlanNestedPortIPImpl c =
     bind_result (cps_port c) (\<lambda>child. Inr [SetField ''eth_src'' (mac_value (tl_mac child))])"
| "get_additional_classification_actions IPVlanNestedPortArpImpl c =
     bind_result (cps_port c) (\<lambda>child.
       Inr [SetField ''eth_src'' (mac_value (tl_mac child)), SetField ''arp_sha'' (mac_value (tl_mac child))])"
| "get_additional_classification_actions impl c = Inr []"

fun get_additional_dispatch_params :: "nested_impl \<Rightarrow> cps \<Rightarrow> fmatch result" where
  "get_additional_dispatch_params VlanNestedPortImpl c = Inr []"
| "get_additional_dispatch_params MACVlanNestedPortIPImpl c =
     bind_result (get_classification_params_ip c) (\<lambda>(ip_field, eth_type, child_ip). Inr [(''eth_type'', MInt eth_type)])"
| "get_additional_dispatch_params IPVlanNestedPortIPImpl c =
     bind_result (get_classification_params_ip c) (\<lambda>(ip_field, eth_type, child_ip). Inr [(''eth_type'', MInt eth_type)])"
| "get_additional_dispatch_params impl c = Inr [(''eth_type'', MInt ETH_TYPE_ARP)]"

fun get_additional_dispatch_actions :: "nested_impl \<Rightarrow> cps \<Rightarrow> action list result" where
  "get_additional_dispatch_actions VlanNestedPortImpl c =
     (case cps_segmentation_id c of
        Some seg \<Rightarrow> Inr [PushVlan ETH_TYPE_8021Q, SetField ''vlan_vid'' (MInt (seg OR OFPVID_PRESENT))]
      | None \<Rightarrow> Inl TypeError)"
| "get_additional_dispatch_actions IPVlanNestedPortIPImpl c =
     bind_result (cps_parent c) (\<lambda>parent. Inr [SetField ''eth_dst'' (mac_value (tl_mac parent))])"
| "get_additional_dispatch_actions IPVlanNestedPortArpImpl c =
     bind_result (cps_parent c) (\<lambda>parent.
       Inr [SetField ''eth_dst'' (mac_value (tl_mac parent)), SetField ''arp_tha'' (mac_value (tl_mac parent))])"
| "get_additional_dispatch_actions impl c = Inr []"

section \<open>Flow pairs\<close>

definition get_classification_match :: "nested_impl \<Rightarrow> cps \<Rightarrow> fmatch result" where
  "get_classification_match impl c =
     bind_result (cps_parent c) (\<lambda>parent.
     bind_result (get_additional_classification_params impl c) (\<lambda>params.
       Inr ((''reg6'', MInt (tl_key parent)) # params)))"

definition get_classification_actions :: "nested_impl \<Rightarrow> cps \<Rightarrow> action list result" where
  "get_classification_actions impl c =
     bind_result (cps_port c) (\<lambda>lport.
     bind_result (tl_network lport) (\<lambda>network_id.
     bind_result (get_additional_classification_actions impl c) (\<lambda>additional.
       Inr ([SetField ''reg6'' (MInt (tl_key lport)), SetField ''metadata'' (MInt network_id)] @ additional @
            [Resubmit NX_IN_PORT]))))"

definition get_dispatch_match :: "nested_impl \<Rightarrow> cps \<Rightarrow> fmatch result" where
  "get_dispatch_match impl c =
     bind_result (cps_port c) (\<lambda>lport.
     bind_result (get_additional_dispatch_params impl c) (\<lambda>params.
       Inr ((''reg7'', MInt (tl_key lport)) # params)))"

definition get_dispatch_actions :: "nested_impl \<Rightarrow> cps \<Rightarrow> action list result" where
  "get_dispatch_actions impl c =
     bind_result (get_additional_dispatch_actions impl c) (\<lambda>actions.
     bind_result (cps_parent c) (\<lambda>parent.
       Inr (actions @ [SetField ''reg7'' (MInt (tl_key parent)), Resubmit NX_IN_PORT])))"

text \<open>The implementations for ARP do nothing for a child whose address is not of version 4.\<close>

definition ipv4_only :: "nested_impl \<Rightarrow> cps \<Rightarrow> (trunk_app \<Rightarrow> trunk_app outcome) \<Rightarrow> trunk_app \<Rightarrow> trunk_app outcome" where
  "ipv4_only impl c act =
     (if impl = MACVlanNestedPortArpImpl \<or> impl = IPVlanNestedPortArpImpl then
        with_value (cps_port c) (\<lambda>child s.
          case tl_ip child of
            None \<Rightarrow> (Some AttributeError, s)
          | Some ip \<Rightarrow> if ip_version ip \<noteq> 4 then (None, s) else act s)
      else act)"

definition install_classification_rule :: "'o flow_conf \<Rightarrow> nested_impl \<Rightarrow> cps \<Rightarrow> trunk_app \<Rightarrow> trunk_app outcome" where
  "install_classification_rule conf impl c =
     ipv4_only impl c
       (with_value (get_classification_match impl c) (\<lambda>m.
        with_value (get_classification_actions impl c) (\<lambda>actions.
          send_flow conf (default_args\<lparr>a_table_id := INGRESS_CLASSIFICATION_DISPATCH_TABLE,
            a_priority := PRIORITY_HIGH, a_match := Some m, a_actions := Some actions\<rparr>))))"

definition delete_classification_rule :: "'o flow_conf \<Rightarrow> nested_impl \<Rightarrow> cps \<Rightarrow> trunk_app \<Rightarrow> trunk_app outcome" where
  "delete_classification_rule conf impl c =
     ipv4_only impl c
       (with_value (get_classification_match impl c) (\<lambda>m.
          send_flow conf (default_args\<lparr>a_table_id := INGRESS_CLASSIFICATION_DISPATCH_TABLE,
            a_priority := PRIORITY_HIGH, a_match := Some m, a_command := Some OFPFC_DELETE_STRICT\<rparr>)))"

definition install_dispatch_rule :: "'o flow_conf \<Rightarrow> nested_impl \<Rightarrow> cps \<Rightarrow> trunk_app \<Rightarrow> trunk_app outcome" where
  "install_dispatch_rule conf impl c =
     ipv4_only impl c
       (with_value (get_dispatch_match impl c) (\<lambda>m.
        with_value (get_dispatch_actions impl c) (\<lambda>actions.
          send_flow conf (default_args\<lparr>a_table_id := INGRESS_DISPATCH_TABLE,
            a_priority := PRIORITY_HIGH, a_match := Some m, a_actions := Some actions\<rparr>))))"

definition delete_dispatch_rule :: "'o flow_conf \<Rightarrow> nested_impl \<Rightarrow> cps \<Rightarrow> trunk_app \<Rightarrow> trunk_app outcome" where
  "delete_dispatch_rule conf impl c =
     ipv4_only impl c
       (with_value (get_dispatch_match impl c) (\<lambda>m.
          send_flow conf (default_args\<lparr>a_table_id := INGRESS_DISPATCH_TABLE,
            a_priority := PRIORITY_MEDIUM, a_match := Some m, a_command := Some OFPFC_DELETE_STRICT\<rparr>)))"

section \<open>Bindings and events\<close>

definition trunk_get_port_binding :: "trunk_app \<Rightarrow> string \<Rightarrow> trunk_lport result \<Rightarrow> trunk_binding option result" where
  "trunk_get_port_binding s i lport =
     bind_result lport (\<lambda>p. Inr (case map_of (trunk_locations s) i of Some b \<Rightarrow> b | None \<Rightarrow> tl_binding p))"

definition trunk_copy_port_binding :: "cps \<Rightarrow> trunk_app \<Rightarrow> trunk_app outcome" where
  "trunk_copy_port_binding c s =
     with_value (trunk_get_port_binding s (cps_parent_id c) (cps_parent c)) (\<lambda>b s.
       (None, s\<lparr>trunk_locations := AList.update (cps_port_id c) b (trunk_locations s)\<rparr>)) s"

definition trunk_clear_port_binding :: "cps \<Rightarrow> trunk_app \<Rightarrow> trunk_app outcome" where
  "trunk_clear_port_binding c s =
     (if map_of (trunk_locations s) (cps_port_id c) = None then (Some KeyError, s)
      else (None, s\<lparr>trunk_locations := AList.delete (cps_port_id c) (trunk_locations s)\<rparr>))"

text \<open>
  An event of a port runs the handlers of all applications, that of this application included,
  whose exceptions are logged.
\<close>

definition trunk_emit ::
  "string \<Rightarrow> (string \<Rightarrow> trunk_app \<Rightarrow> trunk_app outcome) \<Rightarrow> cps \<Rightarrow> trunk_app \<Rightarrow> trunk_app outcome" where
  "trunk_emit event handler c =
     with_value (cps_port c) (\<lambda>child s.
       (None, snd (handler (cps_port_id c) (s\<lparr>trunk_events := trunk_events s @ [(event, cps_port_id c)]\<rparr>))))"

section \<open>Handlers\<close>

definition segmentation_type_implementations :: "(string, nested_impl list) dict" where
  "segmentation_type_implementations =
     [(TYPE_VLAN, [VlanNestedPortImpl]), (TYPE_MACVLAN, [MACVlanNestedPortIPImpl, MACVlanNestedPortArpImpl]),
      (TYPE_IPVLAN, [IPVlanNestedPortIPImpl, IPVlanNestedPortArpImpl])]"

definition get_segmentation_type_implementations :: "cps \<Rightarrow> nested_impl list result" where
  "get_segmentation_type_implementations c =
     (case map_of segmentation_type_implementations (cps_segmentation_type c) of
        Some impls \<Rightarrow> Inr impls
      | None \<Rightarrow> Inl UnsupportedSegmentationTypeException)"

definition install_rules :: "'o flow_conf \<Rightarrow> cps \<Rightarrow> nested_impl \<Rightarrow> trunk_app \<Rightarrow> trunk_app outcome" where
  "install_rules conf c impl s =
     and_then (install_classification_rule conf impl c s) (install_dispatch_rule conf impl c)"

definition delete_rules :: "'o flow_conf \<Rightarrow> cps \<Rightarrow> nested_impl \<Rightarrow> trunk_app \<Rightarrow> trunk_app outcome" where
  "delete_rules conf c impl s =
     and_then (delete_classification_rule conf impl c s) (delete_dispatch_rule conf impl c)"

definition install_local_cps ::
  "'o flow_conf \<Rightarrow> (string \<Rightarrow> trunk_app \<Rightarrow> trunk_app outcome) \<Rightarrow> cps \<Rightarrow> trunk_app \<Rightarrow> trunk_app outcome" where
  "install_local_cps conf bound c =
     with_value (get_segmentation_type_implementations c) (\<lambda>impls s.
       and_then (run_each (install_rules conf c) impls s) (\<lambda>s.
       and_then (trunk_copy_port_binding c s)
         (trunk_emit ''bind_local'' bound c)))"

definition install_remote_cps ::
  "(string \<Rightarrow> trunk_app \<Rightarrow> trunk_app outcome) \<Rightarrow> cps \<Rightarrow> trunk_app \<Rightarrow> trunk_app outcome" where
  "install_remote_cps bound c s =
     and_then (trunk_copy_port_binding c s) (trunk_emit ''bind_remote'' bound c)"

definition uninstall_local_cps ::
  "'o flow_conf \<Rightarrow> (string \<Rightarrow> trunk_app \<Rightarrow> trunk_app outcome) \<Rightarrow> cps \<Rightarrow> trunk_app \<Rightarrow> trunk_app outcome" where
  "uninstall_local_cps conf unbound c s =
     and_then (trunk_emit ''unbind_local'' unbound c s) (\<lambda>s.
     and_then (trunk_clear_port_binding c s)
       (with_value (get_segmentation_type_implementations c) (run_each (delete_rules conf c))))"

definition uninstall_remote_cps ::
  "(string \<Rightarrow> trunk_app \<Rightarrow> trunk_app outcome) \<Rightarrow> cps \<Rightarrow> trunk_app \<Rightarrow> trunk_app outcome" where
  "uninstall_remote_cps unbound c s =
     and_then (trunk_emit ''unbind_remote'' unbound c s) (trunk_clear_port_binding c)"

text \<open>
  A child may be a parent itself, so the event of a child comes back to these handlers. The
  recursion ends at the depth of the interpreter's stack, with an exception that is logged as those
  of any handler.
\<close>

type_synonym cps_lookup = "string \<Rightarrow> cps list"

primrec local_port_bound :: "'o flow_conf \<Rightarrow> cps_lookup \<Rightarrow> nat \<Rightarrow> string \<Rightarrow> trunk_app \<Rightarrow> trunk_app outcome" where
  "local_port_bound conf get_all_cps_by_parent 0 i s = (Some RuntimeError, s)"
| "local_port_bound conf get_all_cps_by_parent (Suc depth) i s =
     run_each (install_local_cps conf (local_port_bound conf get_all_cps_by_parent depth)) (get_all_cps_by_parent i) s"

primrec local_port_unbound :: "'o flow_conf \<Rightarrow> cps_lookup \<Rightarrow> nat \<Rightarrow> string \<Rightarrow> trunk_app \<Rightarrow> trunk_app outcome" where
  "local_port_unbound conf get_all_cps_by_parent 0 i s = (Some RuntimeError, s)"
| "local_port_unbound conf get_all_cps_by_parent (Suc depth) i s =
     run_each (uninstall_local_cps conf (local_port_unbound conf get_all_cps_by_parent depth)) (get_all_cps_by_parent i) s"

primrec remote_port_bound :: "cps_lookup \<Rightarrow> nat \<Rightarrow> string \<Rightarrow> trunk_app \<Rightarrow> trunk_app outcome" where
  "remote_port_bound get_all_cps_by_parent 0 i s = (Some RuntimeError, s)"
| "remote_port_bound get_all_cps_by_parent (Suc depth) i s =
     run_each (install_remote_cps (remote_port_bound get_all_cps_by_parent depth)) (get_all_cps_by_parent i) s"

primrec remote_port_unbound :: "cps_lookup \<Rightarrow> nat \<Rightarrow> string \<Rightarrow> trunk_app \<Rightarrow> trunk_app outcome" where
  "remote_port_unbound get_all_cps_by_parent 0 i s = (Some RuntimeError, s)"
| "remote_port_unbound get_all_cps_by_parent (Suc depth) i s =
     run_each (uninstall_remote_cps (remote_port_unbound get_all_cps_by_parent depth)) (get_all_cps_by_parent i) s"

definition child_port_segmentation_created ::
  "'o flow_conf \<Rightarrow> cps_lookup \<Rightarrow> nat \<Rightarrow> cps \<Rightarrow> trunk_app \<Rightarrow> trunk_app outcome" where
  "child_port_segmentation_created conf get_all_cps_by_parent depth c s =
     with_value (trunk_get_port_binding s (cps_parent_id c) (cps_parent c)) (\<lambda>binding s.
       case binding of
         None \<Rightarrow> (None, s)
       | Some b \<Rightarrow>
           with_value (tb_is_local b) (\<lambda>is_local.
             if is_local then install_local_cps conf (local_port_bound conf get_all_cps_by_parent depth) c
             else install_remote_cps (remote_port_bound get_all_cps_by_parent depth) c) s) s"

definition child_port_segmentation_deleted ::
  "'o flow_conf \<Rightarrow> cps_lookup \<Rightarrow> nat \<Rightarrow> cps \<Rightarrow> trunk_app \<Rightarrow> trunk_app outcome" where
  "child_port_segmentation_deleted conf get_all_cps_by_parent depth c s =
     with_value (trunk_get_port_binding s (cps_parent_id c) (cps_parent c)) (\<lambda>binding s.
       case binding of
         None \<Rightarrow> (None, s)
       | Some b \<Rightarrow>
           with_value (tb_is_local b) (\<lambda>is_local.
             if is_local then uninstall_local_cps conf (local_port_unbound conf get_all_cps_by_parent depth) c
             else uninstall_remote_cps (remote_port_unbound get_all_cps_by_parent depth) c) s) s"

end
