(* ===== verification/Trunk_Flows.thy ===== *)
theory Trunk_Flows
  imports Trunk L2_Flows
begin

text \<open>
  What the trunk application keeps: the flows of nested ports, their bindings, and the events it
  emits for them.
\<close>

section \<open>The flows\<close>

datatype tr_extra = ExVlan int | ExIp mval ipaddr | ExArp mval mval
datatype tr_disp = DispAll | DispEth int

text \<open>
  The flows that recognise a child's packets, those that take packets to the child, and those the
  deletion of the latter names.
\<close>

datatype trunk_flow = TrClass int tr_extra | TrDisp int tr_disp | TrDispMedium int tr_disp

fun extra_params :: "tr_extra \<Rightarrow> fmatch" where
  "extra_params (ExVlan vid) = [(''vlan_vid'', MInt vid)]"
| "extra_params (ExIp mac (IPv4 w)) =
     [(''eth_src'', mac), (''eth_type'', MInt ETH_TYPE_IP), (''ipv4_src'', MIp (IPv4 w))]"
| "extra_params (ExIp mac (IPv6 w)) =
     [(''eth_src'', mac), (''eth_type'', MInt ETH_TYPE_IPV6), (''ipv6_src'', MIp (IPv6 w))]"
| "extra_params (ExArp mac spa) =
     [(''eth_src'', mac), (''eth_type'', MInt ETH_TYPE_ARP), (''arp_sha'', mac), (''arp_spa'', spa)]"

fun disp_params :: "tr_disp \<Rightarrow> fmatch" where
  "disp_params DispAll = []"
| "disp_params (DispEth t) = [(''eth_type'', MInt t)]"

fun trunk_shape :: "trunk_flow flow_shape" where
  "trunk_shape (TrClass k x) =
     (INGRESS_CLASSIFICATION_DISPATCH_TABLE, PRIORITY_HIGH, (''reg6'', MInt k) # extra_params x)"
| "trunk_shape (TrDisp k x) = (INGRESS_DISPATCH_TABLE, PRIORITY_HIGH, (''reg7'', MInt k) # disp_params x)"
| "trunk_shape (TrDispMedium k x) = (INGRESS_DISPATCH_TABLE, PRIORITY_MEDIUM, (''reg7'', MInt k) # disp_params x)"

definition trunk_fam :: "trunk_flow \<Rightarrow> bool" where
  "trunk_fam f \<longleftrightarrow> True"

definition trunk_own :: "trunk_flow \<Rightarrow> bool" where
  "trunk_own f \<longleftrightarrow> False"

definition trunk_unshape :: "flow_key \<Rightarrow> trunk_flow" where
  "trunk_unshape key =
     (case key of (table, priority, m) \<Rightarrow>
       let x = (case m ''eth_type'' of None \<Rightarrow> DispAll | Some v \<Rightarrow> DispEth (match_int m ''eth_type''))
       in if table = INGRESS_DISPATCH_TABLE then
            (if priority = PRIORITY_HIGH then TrDisp (match_int m ''reg7'') x else TrDispMedium (match_int m ''reg7'') x)
          else TrClass (match_int m ''reg6'')
            (if m ''vlan_vid'' \<noteq> None then ExVlan (match_int m ''vlan_vid'')
             else case m ''arp_spa'' of
                 Some spa \<Rightarrow> ExArp (the (m ''eth_src'')) spa
               | None \<Rightarrow> ExIp (the (m ''eth_src''))
                   (case (m ''ipv4_src'', m ''ipv6_src'') of (Some (MIp ip), _) \<Rightarrow> ip | (_, Some (MIp ip)) \<Rightarrow> ip)))"

lemma trunk_unshape_key: "trunk_unshape (shape_key trunk_shape f) = f"
proof (cases f)
  case (TrClass k x)
  show ?thesis
  proof (cases x)
    case (ExIp mac ip)
    then show ?thesis using TrClass
      by (cases ip) (simp_all add: trunk_unshape_def shape_key_def match_int_def table_defs)
  qed (use TrClass in \<open>simp_all add: trunk_unshape_def shape_key_def match_int_def table_defs\<close>)
next
  case (TrDisp k x)
  then show ?thesis by (cases x) (simp_all add: trunk_unshape_def shape_key_def match_int_def)
next
  case (TrDispMedium k x)
  then show ?thesis
    by (cases x) (simp_all add: trunk_unshape_def shape_key_def match_int_def PRIORITY_HIGH_def PRIORITY_MEDIUM_def)
qed

lemma wf_params: "wf_dict ((''reg6'', v) # extra_params x)" "wf_dict ((''reg7'', v) # disp_params y)"
  by (cases x rule: extra_params.cases; simp) (cases y; simp)

interpretation tr: flow_family trunk_shape trunk_fam trunk_own
proof
  fix f g
  show "wf_dict (snd (snd (trunk_shape f)))" by (cases f) (simp_all only: trunk_shape.simps snd_conv wf_params)
  show "f = g" if "shape_key trunk_shape f = shape_key trunk_shape g" using that trunk_unshape_key by metis
qed (simp_all add: trunk_own_def)

section \<open>Children\<close>

datatype tr_kind = KVlan int | KMac ipaddr | KIp ipaddr

record tr_child =
  tc_id :: string
  tc_key :: int
  tc_net :: int
  tc_mac :: mval
  tc_parent_key :: int
  tc_parent_mac :: mval
  tc_kind :: tr_kind

definition child_kind :: "cps \<Rightarrow> trunk_lport \<Rightarrow> tr_kind option" where
  "child_kind c child =
     (if cps_segmentation_type c = TYPE_VLAN then map_option KVlan (cps_segmentation_id c)
      else if cps_segmentation_type c = TYPE_MACVLAN then map_option KMac (tl_ip child)
      else if cps_segmentation_type c = TYPE_IPVLAN then map_option KIp (tl_ip child)
      else None)"

definition resolve_cps :: "cps \<Rightarrow> tr_child option" where
  "resolve_cps c =
     (case (cps_parent c, cps_port c) of
        (Inr parent, Inr child) \<Rightarrow>
          (case (tl_network child, child_kind c child) of
             (Inr n, Some kind) \<Rightarrow>
               Some \<lparr>tc_id = cps_port_id c, tc_key = tl_key child, tc_net = n, tc_mac = mac_value (tl_mac child),
                 tc_parent_key = tl_key parent, tc_parent_mac = mac_value (tl_mac parent), tc_kind = kind\<rparr>
           | _ \<Rightarrow> None)
      | _ \<Rightarrow> None)"

definition class_insts :: "tr_child \<Rightarrow> action list \<Rightarrow> inst list" where
  "class_insts ch actions = [Actions OFPIT_APPLY_ACTIONS
     ([SetField ''reg6'' (MInt (tc_key ch)), SetField ''metadata'' (MInt (tc_net ch))] @ actions @ [Resubmit NX_IN_PORT])]"

definition disp_insts :: "tr_child \<Rightarrow> action list \<Rightarrow> inst list" where
  "disp_insts ch actions = [Actions OFPIT_APPLY_ACTIONS
     (actions @ [SetField ''reg7'' (MInt (tc_parent_key ch)), Resubmit NX_IN_PORT])]"

definition ip_eth_type :: "ipaddr \<Rightarrow> int" where
  "ip_eth_type ip = (case ip of IPv4 w \<Rightarrow> ETH_TYPE_IP | IPv6 w \<Rightarrow> ETH_TYPE_IPV6)"

definition is_ipv4 :: "ipaddr \<Rightarrow> bool" where
  "is_ipv4 ip = (case ip of IPv4 w \<Rightarrow> True | IPv6 w \<Rightarrow> False)"

text \<open>The pairs of flows of a child.\<close>

type_synonym flow_pair = "(trunk_flow \<times> inst list) \<times> (trunk_flow \<times> inst list)"

definition child_pairs :: "tr_child \<Rightarrow> flow_pair list" where
  "child_pairs ch =
     (let pk = tc_parent_key ch; k = tc_key ch
      in case tc_kind ch of
           KVlan seg \<Rightarrow>
             [((TrClass pk (ExVlan (OFPVID_PRESENT OR seg)), class_insts ch [PopVlan]),
               (TrDisp k DispAll, disp_insts ch [PushVlan ETH_TYPE_8021Q, SetField ''vlan_vid'' (MInt (seg OR OFPVID_PRESENT))]))]
         | KMac ip \<Rightarrow>
             [((TrClass pk (ExIp (tc_mac ch) ip), class_insts ch []), (TrDisp k (DispEth (ip_eth_type ip)), disp_insts ch []))] @
             (if is_ipv4 ip then
                [((TrClass pk (ExArp (tc_mac ch) (MIp ip)), class_insts ch []), (TrDisp k (DispEth ETH_TYPE_ARP), disp_insts ch []))]
              else [])
         | KIp ip \<Rightarrow>
             [((TrClass pk (ExIp (tc_parent_mac ch) ip), class_insts ch [SetField ''eth_src'' (tc_mac ch)]),
               (TrDisp k (DispEth (ip_eth_type ip)), disp_insts ch [SetField ''eth_dst'' (tc_parent_mac ch)]))] @
             (if is_ipv4 ip then
                [((TrClass pk (ExArp (tc_parent_mac ch) (MIp ip)),
                     class_insts ch [SetField ''eth_src'' (tc_mac ch), SetField ''arp_sha'' (tc_mac ch)]),
                  (TrDisp k (DispEth ETH_TYPE_ARP),
                     disp_insts ch [SetField ''eth_dst'' (tc_parent_mac ch), SetField ''arp_tha'' (tc_parent_mac ch)]))]
              else []))"

definition class_flows :: "tr_child \<Rightarrow> (trunk_flow, inst list) dict" where
  "class_flows ch = map fst (child_pairs ch)"

definition disp_flows :: "tr_child \<Rightarrow> (trunk_flow, inst list) dict" where
  "disp_flows ch = map snd (child_pairs ch)"

fun medium :: "trunk_flow \<Rightarrow> trunk_flow" where
  "medium (TrDisp k x) = TrDispMedium k x"
| "medium f = f"

definition pair_install :: "flow_pair \<Rightarrow> trunk_flow flow_op list" where
  "pair_install p = [Put (fst (fst p)) (snd (fst p)), Put (fst (snd p)) (snd (snd p))]"

definition pair_delete :: "flow_pair \<Rightarrow> trunk_flow flow_op list" where
  "pair_delete p = [Del (fst (fst p)), Del (medium (fst (snd p)))]"

section \<open>What the rules send\<close>

abbreviation tr_sends :: "int \<Rightarrow> int \<Rightarrow> (trunk_app \<Rightarrow> trunk_app outcome) \<Rightarrow> trunk_flow flow_op list \<Rightarrow> bool" where
  "tr_sends \<equiv> sends_ops trunk_shape trunk_fam"

text \<open>An implementation with the pair it stands for: none for an ARP implementation of a child with an IPv6 address.\<close>

definition impl_pair :: "nested_impl \<Rightarrow> cps \<Rightarrow> flow_pair option \<Rightarrow> bool" where
  "impl_pair impl c q \<longleftrightarrow>
     (case q of
        None \<Rightarrow> \<forall>act s. ipv4_only impl c act s = (None, s)
      | Some p \<Rightarrow>
          ipv4_only impl c = (\<lambda>act. act) \<and> (\<exists>pk x as k y bs.
          p = ((TrClass pk x, [Actions OFPIT_APPLY_ACTIONS as]), (TrDisp k y, [Actions OFPIT_APPLY_ACTIONS bs])) \<and>
          get_classification_match impl c = Inr ((''reg6'', MInt pk) # extra_params x) \<and>
          get_classification_actions impl c = Inr as \<and>
          get_dispatch_match impl c = Inr ((''reg7'', MInt k) # disp_params y) \<and> get_dispatch_actions impl c = Inr bs))"

lemmas trunk_message_simps = l2_message_simps trunk_fam_def

lemma install_rules_send:
  assumes "stamps conf ck cm" "impl_pair impl c q"
  shows "tr_sends ck cm (install_rules conf c impl) (case q of None \<Rightarrow> [] | Some p \<Rightarrow> pair_install p)"
proof (cases q)
  case None
  then have "ipv4_only impl c act s = (None, s)" for act s using assms(2) by (simp add: impl_pair_def)
  then have "install_rules conf c impl = (\<lambda>s. (None, s))"
    by (simp add: fun_eq_iff install_rules_def install_classification_rule_def install_dispatch_rule_def)
  then show ?thesis using None by simp
next
  case (Some p)
  with assms(2) obtain pk x k y as bs where
    p: "p = ((TrClass pk x, [Actions OFPIT_APPLY_ACTIONS as]), (TrDisp k y, [Actions OFPIT_APPLY_ACTIONS bs]))"
    "ipv4_only impl c = (\<lambda>act. act)"
    "get_classification_match impl c = Inr ((''reg6'', MInt pk) # extra_params x)" "get_classification_actions impl c = Inr as"
    "get_dispatch_match impl c = Inr ((''reg7'', MInt k) # disp_params y)" "get_dispatch_actions impl c = Inr bs"
    by (auto simp: impl_pair_def)
  have "tr_sends ck cm (\<lambda>s. and_then (install_classification_rule conf impl c s) (install_dispatch_rule conf impl c))
      ([Put (TrClass pk x) [Actions OFPIT_APPLY_ACTIONS as]] @ [Put (TrDisp k y) [Actions OFPIT_APPLY_ACTIONS bs]])"
    unfolding install_classification_rule_def install_dispatch_rule_def p(2-6) with_value_Inr
    using assms(1) by (intro sends_then tr.sends_flow) (simp_all add: trunk_message_simps)
  then show ?thesis using Some p(1) by (simp add: install_rules_def [abs_def] pair_install_def)
qed

lemma delete_rules_send:
  assumes "stamps conf ck cm" "impl_pair impl c q"
  shows "tr_sends ck cm (delete_rules conf c impl) (case q of None \<Rightarrow> [] | Some p \<Rightarrow> pair_delete p)"
proof (cases q)
  case None
  then have "ipv4_only impl c act s = (None, s)" for act s using assms(2) by (simp add: impl_pair_def)
  then have "delete_rules conf c impl = (\<lambda>s. (None, s))"
    by (simp add: fun_eq_iff delete_rules_def delete_classification_rule_def delete_dispatch_rule_def)
  then show ?thesis using None by simp
next
  case (Some p)
  with assms(2) obtain pk x k y i j where
    p: "p = ((TrClass pk x, i), (TrDisp k y, j))" "ipv4_only impl c = (\<lambda>act. act)"
    "get_classification_match impl c = Inr ((''reg6'', MInt pk) # extra_params x)"
    "get_dispatch_match impl c = Inr ((''reg7'', MInt k) # disp_params y)"
    by (auto simp: impl_pair_def)
  have "tr_sends ck cm (\<lambda>s. and_then (delete_classification_rule conf impl c s) (delete_dispatch_rule conf impl c))
      ([Del (TrClass pk x)] @ [Del (TrDispMedium k y)])"
    unfolding delete_classification_rule_def delete_dispatch_rule_def p(2-4) with_value_Inr
    using assms(1) by (intro sends_then tr.sends_flow) (simp_all add: trunk_message_simps)
  then show ?thesis using Some p(1) by (simp add: delete_rules_def [abs_def] pair_delete_def)
qed

text \<open>The implementations of a segmentation type and the pairs of the child.\<close>

lemma resolve_cpsD:
  assumes "resolve_cps c = Some ch"
  obtains parent child where "cps_parent c = Inr parent" "cps_port c = Inr child" "tl_network child = Inr (tc_net ch)"
    "child_kind c child = Some (tc_kind ch)" "tc_id ch = cps_port_id c" "tc_key ch = tl_key child"
    "tc_mac ch = mac_value (tl_mac child)" "tc_parent_key ch = tl_key parent" "tc_parent_mac ch = mac_value (tl_mac parent)"
  using assms by (auto simp: resolve_cps_def split: sum.splits option.splits)

lemma impl_pairI:
  assumes "\<And>act. ipv4_only impl c act = act"
    and "get_classification_match impl c = Inr ((''reg6'', MInt pk) # extra_params x)" "get_classification_actions impl c = Inr as"
    and "get_dispatch_match impl c = Inr ((''reg7'', MInt k) # disp_params y)" "get_dispatch_actions impl c = Inr bs"
  shows "impl_pair impl c (Some ((TrClass pk x, [Actions OFPIT_APPLY_ACTIONS as]), (TrDisp k y, [Actions OFPIT_APPLY_ACTIONS bs])))"
  using assms by (auto simp: impl_pair_def)

lemmas impl_simps = get_classification_match_def get_classification_actions_def get_dispatch_match_def
  get_dispatch_actions_def get_classification_params_ip_def bind_result_def ip_version_def ipv4_only_def
  ip_eth_type_def ip_value_def

definition arp_pair :: "ipaddr \<Rightarrow> flow_pair \<Rightarrow> flow_pair option" where
  "arp_pair ip p = (if is_ipv4 ip then Some p else None)"

lemma pairs_of_options: "List.map_filter id [Some p, arp_pair ip q] = [p] @ (if is_ipv4 ip then [q] else [])"
  "List.map_filter id [Some p] = [p]"
  by (simp_all add: arp_pair_def List.map_filter_simps)

lemma child_impls:
  assumes "resolve_cps c = Some ch"
  shows "\<exists>impls qs. get_segmentation_type_implementations c = Inr impls \<and> list_all2 (\<lambda>impl q. impl_pair impl c q) impls qs \<and>
    child_pairs ch = List.map_filter id qs"
proof -
  from resolve_cpsD [OF assms] obtain parent child where
    r: "cps_parent c = Inr parent" "cps_port c = Inr child" "tl_network child = Inr (tc_net ch)"
      "child_kind c child = Some (tc_kind ch)" "tc_key ch = tl_key child" "tc_mac ch = mac_value (tl_mac child)"
      "tc_parent_key ch = tl_key parent" "tc_parent_mac ch = mac_value (tl_mac parent)" by metis
  note seg = get_segmentation_type_implementations_def segmentation_type_implementations_def TYPE_VLAN_def TYPE_MACVLAN_def TYPE_IPVLAN_def
  show ?thesis
  proof (cases "tc_kind ch")
    case (KVlan n)
    then have "cps_segmentation_type c = TYPE_VLAN" "cps_segmentation_id c = Some n"
      using r(4) by (auto simp: child_kind_def split: if_splits)
    then have "get_segmentation_type_implementations c = Inr [VlanNestedPortImpl]" by (simp add: seg)
    moreover have "impl_pair VlanNestedPortImpl c (Some
        ((TrClass (tc_parent_key ch) (ExVlan (OFPVID_PRESENT OR n)), class_insts ch [PopVlan]),
         (TrDisp (tc_key ch) DispAll, disp_insts ch [PushVlan ETH_TYPE_8021Q, SetField ''vlan_vid'' (MInt (n OR OFPVID_PRESENT))])))"
      unfolding class_insts_def disp_insts_def using r \<open>cps_segmentation_id c = Some n\<close>
      by (intro impl_pairI) (simp_all add: impl_simps)
    ultimately show ?thesis unfolding child_pairs_def Let_def KVlan tr_kind.case pairs_of_options(2) [symmetric] by blast
  next
    case (KMac ip)
    then have "cps_segmentation_type c = TYPE_MACVLAN" and ip: "tl_ip child = Some ip"
      using r(4) by (auto simp: child_kind_def split: if_splits)
    then have "get_segmentation_type_implementations c = Inr [MACVlanNestedPortIPImpl, MACVlanNestedPortArpImpl]" by (simp add: seg)
    moreover have "impl_pair MACVlanNestedPortIPImpl c (Some
        ((TrClass (tc_parent_key ch) (ExIp (tc_mac ch) ip), class_insts ch []),
         (TrDisp (tc_key ch) (DispEth (ip_eth_type ip)), disp_insts ch [])))"
      unfolding class_insts_def disp_insts_def using r ip by (intro impl_pairI; cases ip) (simp_all add: impl_simps)
    moreover have "impl_pair MACVlanNestedPortArpImpl c (arp_pair ip
        ((TrClass (tc_parent_key ch) (ExArp (tc_mac ch) (MIp ip)), class_insts ch []),
         (TrDisp (tc_key ch) (DispEth ETH_TYPE_ARP), disp_insts ch [])))"
    proof (cases ip)
      case (IPv4 w)
      then show ?thesis unfolding class_insts_def disp_insts_def using r ip
        by (simp add: arp_pair_def is_ipv4_def, intro impl_pairI) (simp_all add: impl_simps)
    next
      case (IPv6 w)
      then show ?thesis using r ip by (simp add: arp_pair_def is_ipv4_def impl_pair_def impl_simps)
    qed
    ultimately show ?thesis unfolding child_pairs_def Let_def KMac tr_kind.case pairs_of_options(1) [symmetric] by blast
  next
    case (KIp ip)
    then have "cps_segmentation_type c = TYPE_IPVLAN" and ip: "tl_ip child = Some ip"
      using r(4) by (auto simp: child_kind_def split: if_splits)
    then have "get_segmentation_type_implementations c = Inr [IPVlanNestedPortIPImpl, IPVlanNestedPortArpImpl]" by (simp add: seg)
    moreover have "impl_pair IPVlanNestedPortIPImpl c (Some
        ((TrClass (tc_parent_key ch) (ExIp (tc_parent_mac ch) ip), class_insts ch [SetField ''eth_src'' (tc_mac ch)]),
         (TrDisp (tc_key ch) (DispEth (ip_eth_type ip)), disp_insts ch [SetField ''eth_dst'' (tc_parent_mac ch)])))"
      unfolding class_insts_def disp_insts_def using r ip by (intro impl_pairI; cases ip) (simp_all add: impl_simps)
    moreover have "impl_pair IPVlanNestedPortArpImpl c (arp_pair ip
        ((TrClass (tc_parent_key ch) (ExArp (tc_parent_mac ch) (MIp ip)),
            class_insts ch [SetField ''eth_src'' (tc_mac ch), SetField ''arp_sha'' (tc_mac ch)]),
         (TrDisp (tc_key ch) (DispEth ETH_TYPE_ARP),
            disp_insts ch [SetField ''eth_dst'' (tc_parent_mac ch), SetField ''arp_tha'' (tc_parent_mac ch)])))"
    proof (cases ip)
      case (IPv4 w)
      then show ?thesis unfolding class_insts_def disp_insts_def using r ip
        by (simp add: arp_pair_def is_ipv4_def, intro impl_pairI) (simp_all add: impl_simps)
    next
      case (IPv6 w)
      then show ?thesis using r ip by (simp add: arp_pair_def is_ipv4_def impl_pair_def impl_simps)
    qed
    ultimately show ?thesis unfolding child_pairs_def Let_def KIp tr_kind.case pairs_of_options(1) [symmetric] by blast
  qed
qed

lemma run_rules_send:
  assumes "list_all2 (\<lambda>impl q. impl_pair impl c q) impls qs" "stamps conf ck cm"
  shows "tr_sends ck cm (run_each (install_rules conf c) impls) (concat (map pair_install (List.map_filter id qs)))"
    "tr_sends ck cm (run_each (delete_rules conf c) impls) (concat (map pair_delete (List.map_filter id qs)))"
  using assms
proof (induction impls qs rule: list_all2_induct)
  case Nil
  case 1
  show ?case by (simp add: sends_ops_def List.map_filter_simps)
  case 2
  show ?case by (simp add: sends_ops_def List.map_filter_simps)
next
  case (Cons impl impls q qs)
  have e: "concat (map g (List.map_filter id (q # qs))) = (case q of None \<Rightarrow> [] | Some p \<Rightarrow> g p) @ concat (map g (List.map_filter id qs))"
    for g :: "flow_pair \<Rightarrow> trunk_flow flow_op list"
    by (cases q) (simp_all add: List.map_filter_simps)
  have r: "run_each h (impl # impls) = (\<lambda>s. and_then (h impl s) (run_each h impls))"
    for h :: "nested_impl \<Rightarrow> trunk_app \<Rightarrow> trunk_app outcome" by (simp add: fun_eq_iff)
  case 1
  show ?case unfolding e r using Cons 1 by (intro sends_then install_rules_send) (simp_all add: id_def)
  case 2
  show ?case unfolding e r using Cons 2 by (intro sends_then delete_rules_send) (simp_all add: id_def)
qed

lemma child_rules:
  assumes "stamps conf ck cm" "resolve_cps c = Some ch"
  obtains impls where "get_segmentation_type_implementations c = Inr impls"
    "tr_sends ck cm (run_each (install_rules conf c) impls) (concat (map pair_install (child_pairs ch)))"
    "tr_sends ck cm (run_each (delete_rules conf c) impls) (concat (map pair_delete (child_pairs ch)))"
  using child_impls [OF assms(2)] run_rules_send [OF _ assms(1)] by metis

section \<open>The table of the application\<close>

text \<open>
  The flows that recognise packets are those of the children installed now; the flows that take
  packets to a child are those of every child ever installed, the last one first.
\<close>

definition trunk_table :: "tr_child list \<Rightarrow> tr_child list \<Rightarrow> trunk_flow \<rightharpoonup> inst list" where
  "trunk_table K H f =
     (case f of
        TrClass k x \<Rightarrow> map_of (concat (map class_flows K)) f
      | TrDisp k x \<Rightarrow> map_of (concat (map disp_flows (rev H))) f
      | TrDispMedium k x \<Rightarrow> None)"

definition class_apart :: "tr_child \<Rightarrow> tr_child \<Rightarrow> bool" where
  "class_apart x y \<longleftrightarrow> set (dict_keys (class_flows x)) \<inter> set (dict_keys (class_flows y)) = {}"

lemma child_keys:
  "f \<in> set (dict_keys (class_flows ch)) \<Longrightarrow> \<exists>k x. f = TrClass k x"
  "f \<in> set (dict_keys (disp_flows ch)) \<Longrightarrow> \<exists>k x. f = TrDisp k x"
  by (auto simp: class_flows_def disp_flows_def child_pairs_def Let_def split: tr_kind.splits if_splits)

lemma wf_child_flows: "wf_dict (class_flows ch)" "wf_dict (disp_flows ch)"
proof -
  have "ip_eth_type ip \<noteq> ETH_TYPE_ARP" for ip
    by (cases ip) (simp_all add: ip_eth_type_def ETH_TYPE_IP_def ETH_TYPE_IPV6_def ETH_TYPE_ARP_def)
  then show "wf_dict (class_flows ch)" "wf_dict (disp_flows ch)"
    by (auto simp: class_flows_def disp_flows_def child_pairs_def Let_def split: tr_kind.splits)
qed

fun flat_pairs :: "('a \<times> 'a) list \<Rightarrow> 'a list" where
  "flat_pairs [] = []"
| "flat_pairs ((a, b) # ps) = a # b # flat_pairs ps"

lemma set_flat_pairs: "set (flat_pairs ps) = fst ` set ps \<union> snd ` set ps"
  by (induction ps rule: flat_pairs.induct) auto

lemma wf_pairs:
  assumes "wf_dict (map fst ps)" "wf_dict (map snd ps)" "fst ` fst ` set ps \<inter> fst ` snd ` set ps = {}"
  shows "wf_dict (flat_pairs ps)"
  using assms
proof (induction ps rule: flat_pairs.induct)
  case 1
  then show ?case by simp
next
  case (2 a b ps)
  have "fst a \<noteq> fst b" "fst a \<notin> fst ` fst ` set ps \<union> fst ` snd ` set ps" "fst b \<notin> fst ` fst ` set ps \<union> fst ` snd ` set ps"
    using "2.prems" by (auto simp: image_image)
  moreover have "wf_dict (flat_pairs ps)" using 2 by auto
  ultimately show ?case by (auto simp: set_flat_pairs image_Un)
qed

lemma pair_install_puts: "concat (map pair_install ps) = put_all (flat_pairs ps)"
  by (induction ps rule: flat_pairs.induct) (auto simp: pair_install_def put_all_def)

lemma map_of_pairs:
  "f \<notin> fst ` snd ` set ps \<Longrightarrow> map_of (flat_pairs ps) f = map_of (map fst ps) f"
  "f \<notin> fst ` fst ` set ps \<Longrightarrow> map_of (flat_pairs ps) f = map_of (map snd ps) f"
  by (induction ps rule: flat_pairs.induct) auto

lemma fold_pair_delete: "fold op_step (concat (map pair_delete ps)) M =
    M |` (- (fst ` fst ` set ps \<union> medium ` fst ` snd ` set ps))"
  by (induction ps arbitrary: M) (auto simp: pair_delete_def restrict_map_def fun_eq_iff)

lemma child_pair_keys:
  "fst ` fst ` set (child_pairs ch) = set (dict_keys (class_flows ch))" "fst ` snd ` set (child_pairs ch) = set (dict_keys (disp_flows ch))"
  by (simp_all add: class_flows_def disp_flows_def image_image)

lemma wf_classes: "sorted_wrt class_apart K \<Longrightarrow> wf_dict (concat (map class_flows K))"
  using wf_child_flows(1) by (intro wf_concat) (simp_all add: class_apart_def [abs_def] list_all_iff del: set_map)

lemma install_table:
  assumes "sorted_wrt class_apart (K @ [ch])"
  shows "fold op_step (concat (map pair_install (child_pairs ch))) (trunk_table K H) = trunk_table (K @ [ch]) (H @ [ch])"
proof
  fix f
  have wf: "wf_dict (flat_pairs (child_pairs ch))"
    using wf_child_flows [of ch] child_keys [of _ ch]
    by (intro wf_pairs) (auto simp: class_flows_def disp_flows_def child_pair_keys simp del: set_map)
  have wfK: "wf_dict (concat (map class_flows (K @ [ch])))"
    by (rule wf_classes [OF assms])
  from map_of_middle(1) [of "concat (map class_flows K)" "class_flows ch" "[]"] wfK
  have c: "map_of (concat (map class_flows K) @ class_flows ch) = map_of (concat (map class_flows K)) ++ map_of (class_flows ch)"
    by simp
  have "fold op_step (concat (map pair_install (child_pairs ch))) (trunk_table K H) f = (trunk_table K H ++ map_of (flat_pairs (child_pairs ch))) f"
    by (simp add: pair_install_puts fold_put_all [OF wf])
  also have "\<dots> = trunk_table (K @ [ch]) (H @ [ch]) f"
  proof (cases f)
    case (TrClass k x)
    then have "map_of (flat_pairs (child_pairs ch)) f = map_of (class_flows ch) f"
      using map_of_pairs(1) [of f "child_pairs ch"] child_keys(2) [of f ch]
      unfolding child_pair_keys class_flows_def by blast
    then show ?thesis using TrClass c by (simp add: trunk_table_def map_add_def split: option.splits)
  next
    case (TrDisp k x)
    then have "map_of (flat_pairs (child_pairs ch)) f = map_of (disp_flows ch) f"
      using map_of_pairs(2) [of f "child_pairs ch"] child_keys(1) [of f ch]
      unfolding child_pair_keys disp_flows_def by blast
    then show ?thesis using TrDisp by (simp add: trunk_table_def map_add_def split: option.splits)
  next
    case (TrDispMedium k x)
    then have "f \<notin> set (dict_keys (class_flows ch))" "f \<notin> set (dict_keys (disp_flows ch))"
      using child_keys [of f ch] by blast+
    then have "map_of (flat_pairs (child_pairs ch)) f = None"
      using set_flat_pairs [of "child_pairs ch"] child_pair_keys [of ch] by (simp add: map_of_eq_None_iff image_Un)
    then show ?thesis using TrDispMedium by (simp add: trunk_table_def map_add_def)
  qed
  finally show "fold op_step (concat (map pair_install (child_pairs ch))) (trunk_table K H) f = trunk_table (K @ [ch]) (H @ [ch]) f" .
qed

lemma delete_table:
  assumes "sorted_wrt class_apart K" "ch \<in> set K"
  shows "fold op_step (concat (map pair_delete (child_pairs ch))) (trunk_table K H) = trunk_table (remove1 ch K) H"
proof
  fix f
  let ?D = "set (dict_keys (class_flows ch))"
  from assms(2) obtain A B where K: "K = A @ ch # B" "ch \<notin> set A" by (meson split_list_first)
  then have r: "remove1 ch K = A @ B" by (simp add: remove1_append)
  have "wf_dict (concat (map class_flows K))"
    by (rule wf_classes [OF assms(1)])
  from map_of_middle(2) [of "concat (map class_flows A)" "class_flows ch" "concat (map class_flows B)"] this
  have c: "map_of (concat (map class_flows (A @ B))) = map_of (concat (map class_flows K)) |` (- ?D)"
    by (simp add: K(1) del: set_map)
  have m: "medium ` fst ` snd ` set (child_pairs ch) \<subseteq> {f. \<exists>k x. f = TrDispMedium k x}"
    unfolding child_pair_keys using child_keys(2) [of _ ch] by fastforce
  have "fold op_step (concat (map pair_delete (child_pairs ch))) (trunk_table K H) f =
      (trunk_table K H |` (- (?D \<union> medium ` fst ` snd ` set (child_pairs ch)))) f"
    by (simp only: fold_pair_delete child_pair_keys)
  also have "\<dots> = trunk_table (remove1 ch K) H f"
    unfolding r using m child_keys(1) [of f ch] c
    by (cases f) (auto simp: trunk_table_def restrict_map_def simp del: set_map)
  finally show "fold op_step (concat (map pair_delete (child_pairs ch))) (trunk_table K H) f = trunk_table (remove1 ch K) H f" .
qed

section \<open>Children that are bound\<close>

text \<open>The bound children, each with whether it is bound locally and with the binding of its parent.\<close>

type_synonym tr_bound = "(bool \<times> trunk_binding \<times> tr_child) list"

abbreviation bound_id :: "bool \<times> trunk_binding \<times> tr_child \<Rightarrow> string" where
  "bound_id x \<equiv> tc_id (snd (snd x))"

definition local_children :: "tr_bound \<Rightarrow> tr_child list" where
  "local_children L = map (snd \<circ> snd) (filter fst L)"

definition bound_ok :: "tr_bound \<Rightarrow> bool" where
  "bound_ok L \<longleftrightarrow> distinct (map bound_id L) \<and> sorted_wrt class_apart (local_children L)"

definition bindings_of :: "tr_bound \<Rightarrow> (string, trunk_binding option) dict" where
  "bindings_of L = map (\<lambda>x. (bound_id x, Some (fst (snd x)))) L"

text \<open>The events emitted for a child bind it where it was not bound and unbind it where it was.\<close>

definition event_step :: "string \<times> string \<Rightarrow> (bool \<times> string) list \<Rightarrow> (bool \<times> string) list option" where
  "event_step ev B =
     (case ev of (name, i) \<Rightarrow>
       if name = ''bind_local'' then (if i \<in> snd ` set B then None else Some (B @ [(True, i)]))
       else if name = ''bind_remote'' then (if i \<in> snd ` set B then None else Some (B @ [(False, i)]))
       else if name = ''unbind_local'' then (if (True, i) \<in> set B then Some (remove1 (True, i) B) else None)
       else if name = ''unbind_remote'' then (if (False, i) \<in> set B then Some (remove1 (False, i) B) else None)
       else None)"

fun replay_events :: "(string \<times> string) list \<Rightarrow> (bool \<times> string) list \<Rightarrow> (bool \<times> string) list option" where
  "replay_events [] B = Some B"
| "replay_events (ev # evs) B = Option.bind (event_step ev B) (replay_events evs)"

lemma replay_events_snoc: "replay_events (evs @ [ev]) B = Option.bind (replay_events evs B) (event_step ev)"
  by (induction evs arbitrary: B) (auto split: bind_splits)

definition bound_names :: "tr_bound \<Rightarrow> (bool \<times> string) list" where
  "bound_names L = map (\<lambda>x. (fst x, bound_id x)) L"

definition trunk_frep :: "int \<Rightarrow> int \<Rightarrow> (trunk_flow \<rightharpoonup> inst list) \<Rightarrow> (string, trunk_binding option) dict \<Rightarrow> (string \<times> string) list \<Rightarrow> trunk_app \<Rightarrow> bool" where
  "trunk_frep ck cm M d e s \<longleftrightarrow> flows_rep trunk_shape trunk_fam ck cm M (trunk_app.fields d e) s"

lemma trunk_frepD: "trunk_frep ck cm M d e s \<Longrightarrow> trunk_locations s = d" "trunk_frep ck cm M d e s \<Longrightarrow> trunk_events s = e"
  by (cases s; simp add: trunk_frep_def flows_rep_def trunk_app.defs)+

lemma trunk_frep_locations: "trunk_frep ck cm M d e s \<Longrightarrow> trunk_frep ck cm M d' e (s\<lparr>trunk_locations := d'\<rparr>)"
  by (cases s) (simp add: trunk_frep_def flows_rep_def trunk_app.defs)

lemma trunk_frep_events: "trunk_frep ck cm M d e s \<Longrightarrow> trunk_frep ck cm M d e' (s\<lparr>trunk_events := e'\<rparr>)"
  by (cases s) (simp add: trunk_frep_def flows_rep_def trunk_app.defs)

lemma tr_sendsD:
  "tr_sends ck cm h ops \<Longrightarrow> trunk_frep ck cm M d e s \<Longrightarrow> yields (h s) (trunk_frep ck cm (fold op_step ops M) d e)"
  by (simp add: sends_ops_def trunk_frep_def [abs_def])

definition trunk_rep :: "int \<Rightarrow> int \<Rightarrow> tr_bound \<Rightarrow> tr_child list \<Rightarrow> trunk_app \<Rightarrow> bool" where
  "trunk_rep ck cm L H s \<longleftrightarrow>
     (\<exists>d e. trunk_frep ck cm (trunk_table (local_children L) H) d e s \<and> map_of d = map_of (bindings_of L) \<and>
        replay_events e [] = Some (bound_names L))"

lemma trunk_repI:
  "trunk_frep ck cm (trunk_table (local_children L) H) d e s \<Longrightarrow> map_of d = map_of (bindings_of L) \<Longrightarrow>
   replay_events e [] = Some (bound_names L) \<Longrightarrow> trunk_rep ck cm L H s"
  unfolding trunk_rep_def by blast

lemma map_of_bindings_None: "map_of (bindings_of L) i = None \<longleftrightarrow> i \<notin> bound_id ` set L"
  by (force simp: bindings_of_def map_of_eq_None_iff)

lemma map_of_bindings_add:
  "i \<notin> bound_id ` set L \<Longrightarrow> map_of (bindings_of (L @ [(loc, b, ch)])) = (map_of (bindings_of L))(tc_id ch \<mapsto> Some b)" if "i = tc_id ch"
  using that map_of_bindings_None [of L i] by (auto simp: bindings_of_def map_add_def fun_eq_iff split: option.splits)

lemma map_of_bindings_remove:
  assumes "distinct (map bound_id L)" "x \<in> set L"
  shows "map_of (bindings_of (remove1 x L)) = (map_of (bindings_of L))(bound_id x := None)"
  using assms
proof (induction L)
  case Nil
  then show ?case by simp
next
  case (Cons y L)
  show ?case
  proof (cases "y = x")
    case True
    then have "map_of (bindings_of L) (bound_id x) = None" using Cons.prems(1) by (auto simp: map_of_bindings_None)
    then show ?thesis using True by (auto simp: bindings_of_def fun_eq_iff)
  next
    case False
    then have "bound_id y \<noteq> bound_id x" using Cons.prems by (auto simp: image_iff)
    then show ?thesis using Cons False by (auto simp: bindings_of_def fun_eq_iff)
  qed
qed

lemma bound_names_remove:
  assumes "distinct (map bound_id L)" "x \<in> set L"
  shows "bound_names (remove1 x L) = remove1 (fst x, bound_id x) (bound_names L)"
  using assms
proof (induction L)
  case Nil
  then show ?case by simp
next
  case (Cons y L)
  then show ?case by (cases "y = x") (auto simp: bound_names_def image_iff)
qed

lemma local_children_remove:
  assumes "distinct (map bound_id L)" "(loc, b, ch) \<in> set L"
  shows "local_children (remove1 (loc, b, ch) L) = (if loc then remove1 ch (local_children L) else local_children L)"
  using assms
proof (induction L)
  case Nil
  then show ?case by simp
next
  case (Cons y L)
  then show ?case by (cases "y = (loc, b, ch)") (auto simp: local_children_def image_iff)
qed

lemma bound_ok_remove: "bound_ok L \<Longrightarrow> x \<in> set L \<Longrightarrow> bound_ok (remove1 x L)"
proof -
  assume a: "bound_ok L" "x \<in> set L"
  obtain loc b ch where x: "x = (loc, b, ch)" by (metis surj_pair)
  have "sorted_wrt P xs \<Longrightarrow> sorted_wrt P (remove1 y xs)" for P :: "tr_child \<Rightarrow> tr_child \<Rightarrow> bool" and y xs
    by (induction xs) (auto dest: notin_set_remove1)
  then show "bound_ok (remove1 x L)"
    using a local_children_remove [of L loc b ch] x by (auto simp: bound_ok_def distinct_map_remove1)
qed

section \<open>The handlers on the children\<close>

text \<open>Events of a child whose own children the store does not know change nothing but the record of events.\<close>

definition no_grandchildren :: "(string \<Rightarrow> trunk_app \<Rightarrow> trunk_app outcome) \<Rightarrow> string \<Rightarrow> bool" where
  "no_grandchildren handler i \<longleftrightarrow> (\<forall>s. snd (handler i s) = s)"

lemma emit_yields:
  assumes "trunk_frep ck cm M d e s" "no_grandchildren handler (cps_port_id c)" "resolve_cps c = Some ch"
  shows "yields (trunk_emit event handler c s) (trunk_frep ck cm M d (e @ [(event, cps_port_id c)]))"
proof -
  from resolve_cpsD [OF assms(3)] obtain child where "cps_port c = Inr child" by metis
  then show ?thesis
    using trunk_frep_events [OF assms(1), of "e @ [(event, cps_port_id c)]"] trunk_frepD(2) [OF assms(1)] assms(2)
    by (simp add: trunk_emit_def no_grandchildren_def)
qed

text \<open>The parent's own binding, where no child of that id is bound.\<close>

definition parent_binding :: "cps \<Rightarrow> tr_bound \<Rightarrow> trunk_binding option" where
  "parent_binding c L =
     (if cps_parent_id c \<in> bound_id ` set L then None
      else case cps_parent c of Inr parent \<Rightarrow> tl_binding parent | Inl e \<Rightarrow> None)"

lemma parent_binding_read:
  assumes "parent_binding c L = Some b" "map_of (trunk_locations s) = map_of (bindings_of L)"
  shows "trunk_get_port_binding s (cps_parent_id c) (cps_parent c) = Inr (Some b)"
  using assms map_of_bindings_None [of L "cps_parent_id c"]
  by (auto simp: parent_binding_def trunk_get_port_binding_def bind_result_def split: if_splits sum.splits)

lemma copy_yields:
  assumes "trunk_frep ck cm M d e s" "parent_binding c L = Some b" "map_of d = map_of (bindings_of L)"
  shows "yields (trunk_copy_port_binding c s) (trunk_frep ck cm M (AList.update (cps_port_id c) (Some b) d) e)"
  using trunk_frep_locations [OF assms(1)] trunk_frepD(1) [OF assms(1)] parent_binding_read [OF assms(2), of s] assms(3)
  by (simp add: trunk_copy_port_binding_def)

lemma clear_yields:
  assumes "trunk_frep ck cm M d e s" "map_of d (cps_port_id c) \<noteq> None"
  shows "yields (trunk_clear_port_binding c s) (trunk_frep ck cm M (AList.delete (cps_port_id c) d) e)"
  using trunk_frep_locations [OF assms(1)] trunk_frepD(1) [OF assms(1)] assms(2)
  by (auto simp: trunk_clear_port_binding_def)

lemma bind_rep:
  assumes "trunk_frep ck cm (trunk_table (local_children (L @ [(loc, b, ch)])) H) (AList.update (tc_id ch) (Some b) d) (e @ [(ev, tc_id ch)]) s"
    and "map_of d = map_of (bindings_of L)" "replay_events e [] = Some (bound_names L)" "bound_ok (L @ [(loc, b, ch)])"
    and "ev = (if loc then ''bind_local'' else ''bind_remote'')"
  shows "trunk_rep ck cm (L @ [(loc, b, ch)]) H s"
proof -
  have i: "tc_id ch \<notin> bound_id ` set L" using assms(4) by (auto simp: bound_ok_def)
  then have n: "tc_id ch \<notin> snd ` set (bound_names L)" by (force simp: bound_names_def)
  show ?thesis
  proof (rule trunk_repI [OF assms(1)])
    show "map_of (AList.update (tc_id ch) (Some b) d) = map_of (bindings_of (L @ [(loc, b, ch)]))"
      using map_of_bindings_add [OF refl i] assms(2) by (simp add: update_conv')
    show "replay_events (e @ [(ev, tc_id ch)]) [] = Some (bound_names (L @ [(loc, b, ch)]))"
      using n assms(3,5) by (cases loc) (simp_all add: replay_events_snoc event_step_def bound_names_def)
  qed
qed

lemma unbind_rep:
  assumes "trunk_frep ck cm (trunk_table (local_children (remove1 (loc, b, ch) L)) H) (AList.delete (tc_id ch) d) (e @ [(ev, tc_id ch)]) s"
    and "map_of d = map_of (bindings_of L)" "replay_events e [] = Some (bound_names L)" "bound_ok L" "(loc, b, ch) \<in> set L"
    and "ev = (if loc then ''unbind_local'' else ''unbind_remote'')"
  shows "trunk_rep ck cm (remove1 (loc, b, ch) L) H s"
proof -
  have D: "distinct (map bound_id L)" using assms(4) by (simp add: bound_ok_def)
  have n: "(loc, tc_id ch) \<in> set (bound_names L)" using assms(5) by (force simp: bound_names_def)
  show ?thesis
  proof (rule trunk_repI [OF assms(1)])
    show "map_of (AList.delete (tc_id ch) d) = map_of (bindings_of (remove1 (loc, b, ch) L))"
      using map_of_bindings_remove [OF D assms(5)] assms(2) by (simp add: delete_conv')
    show "replay_events (e @ [(ev, tc_id ch)]) [] = Some (bound_names (remove1 (loc, b, ch) L))"
      using n assms(3,6) bound_names_remove [OF D assms(5)] by (cases loc) (simp_all add: replay_events_snoc event_step_def)
  qed
qed

lemma install_local_yields:
  assumes "stamps conf ck cm" "resolve_cps c = Some ch" "parent_binding c L = Some b" "trunk_rep ck cm L H s"
    and "bound_ok (L @ [(True, b, ch)])" "no_grandchildren bound (cps_port_id c)"
  shows "yields (install_local_cps conf bound c s) (trunk_rep ck cm (L @ [(True, b, ch)]) (H @ [ch]))"
proof -
  from assms(4) obtain d e where s: "trunk_frep ck cm (trunk_table (local_children L) H) d e s"
    "map_of d = map_of (bindings_of L)" "replay_events e [] = Some (bound_names L)" by (auto simp: trunk_rep_def)
  from child_rules [OF assms(1,2)] obtain impls where i: "get_segmentation_type_implementations c = Inr impls"
    "tr_sends ck cm (run_each (install_rules conf c) impls) (concat (map pair_install (child_pairs ch)))" by metis
  have id: "tc_id ch = cps_port_id c" using resolve_cpsD [OF assms(2)] by metis
  have "sorted_wrt class_apart (local_children L @ [ch])" using assms(5) by (simp add: bound_ok_def local_children_def)
  note 1 = tr_sendsD [OF i(2) s(1), unfolded install_table [OF this]]
  show ?thesis unfolding install_local_cps_def i(1) with_value_Inr
  proof (rule yields_then [OF 1], rule yields_then [OF copy_yields [OF _ assms(3) s(2)]])
    fix t
    assume "trunk_frep ck cm (trunk_table (local_children L @ [ch]) (H @ [ch])) (AList.update (cps_port_id c) (Some b) d) e t"
    from emit_yields [OF this assms(6,2)]
    show "yields (trunk_emit ''bind_local'' bound c t) (trunk_rep ck cm (L @ [(True, b, ch)]) (H @ [ch]))"
      by (rule yields_mono, intro bind_rep [OF _ s(2,3) assms(5)]) (simp_all add: local_children_def id)
  qed
qed

lemma install_remote_yields:
  assumes "resolve_cps c = Some ch" "parent_binding c L = Some b" "trunk_rep ck cm L H s"
    and "bound_ok (L @ [(False, b, ch)])" "no_grandchildren bound (cps_port_id c)"
  shows "yields (install_remote_cps bound c s) (trunk_rep ck cm (L @ [(False, b, ch)]) H)"
proof -
  from assms(3) obtain d e where s: "trunk_frep ck cm (trunk_table (local_children L) H) d e s"
    "map_of d = map_of (bindings_of L)" "replay_events e [] = Some (bound_names L)" by (auto simp: trunk_rep_def)
  have id: "tc_id ch = cps_port_id c" using resolve_cpsD [OF assms(1)] by metis
  show ?thesis unfolding install_remote_cps_def
  proof (rule yields_then [OF copy_yields [OF s(1) assms(2) s(2)]])
    fix t
    assume "trunk_frep ck cm (trunk_table (local_children L) H) (AList.update (cps_port_id c) (Some b) d) e t"
    from emit_yields [OF this assms(5,1)]
    show "yields (trunk_emit ''bind_remote'' bound c t) (trunk_rep ck cm (L @ [(False, b, ch)]) H)"
      by (rule yields_mono, intro bind_rep [OF _ s(2,3) assms(4)]) (simp_all add: local_children_def id)
  qed
qed

lemma uninstall_local_yields:
  assumes "stamps conf ck cm" "resolve_cps c = Some ch" "trunk_rep ck cm L H s" "bound_ok L" "(True, b, ch) \<in> set L"
    and "no_grandchildren unbound (cps_port_id c)"
  shows "yields (uninstall_local_cps conf unbound c s) (trunk_rep ck cm (remove1 (True, b, ch) L) H)"
proof -
  from assms(3) obtain d e where s: "trunk_frep ck cm (trunk_table (local_children L) H) d e s"
    "map_of d = map_of (bindings_of L)" "replay_events e [] = Some (bound_names L)" by (auto simp: trunk_rep_def)
  from child_rules [OF assms(1,2)] obtain impls where i: "get_segmentation_type_implementations c = Inr impls"
    "tr_sends ck cm (run_each (delete_rules conf c) impls) (concat (map pair_delete (child_pairs ch)))" by metis
  have id: "tc_id ch = cps_port_id c" using resolve_cpsD [OF assms(2)] by metis
  have D: "distinct (map bound_id L)" "sorted_wrt class_apart (local_children L)" using assms(4) by (simp_all add: bound_ok_def)
  have ch: "ch \<in> set (local_children L)" using assms(5) by (force simp: local_children_def)
  have b: "map_of d (cps_port_id c) \<noteq> None" using s(2) map_of_bindings_None [of L "cps_port_id c"] assms(5) id by force
  show ?thesis unfolding uninstall_local_cps_def i(1) with_value_Inr
  proof (rule yields_then [OF emit_yields [OF s(1) assms(6,2)]], rule yields_then [OF clear_yields [OF _ b]])
    fix t
    assume "trunk_frep ck cm (trunk_table (local_children L) H) (AList.delete (cps_port_id c) d) (e @ [(''unbind_local'', cps_port_id c)]) t"
    from tr_sendsD [OF i(2) this, unfolded delete_table [OF D(2) ch]]
    show "yields (run_each (delete_rules conf c) impls t) (trunk_rep ck cm (remove1 (True, b, ch) L) H)"
      by (rule yields_mono, intro unbind_rep [OF _ s(2,3) assms(4,5)])
        (simp_all add: local_children_remove [OF D(1) assms(5)] id)
  qed
qed

lemma uninstall_remote_yields:
  assumes "resolve_cps c = Some ch" "trunk_rep ck cm L H s" "bound_ok L" "(False, b, ch) \<in> set L"
    and "no_grandchildren unbound (cps_port_id c)"
  shows "yields (uninstall_remote_cps unbound c s) (trunk_rep ck cm (remove1 (False, b, ch) L) H)"
proof -
  from assms(2) obtain d e where s: "trunk_frep ck cm (trunk_table (local_children L) H) d e s"
    "map_of d = map_of (bindings_of L)" "replay_events e [] = Some (bound_names L)" by (auto simp: trunk_rep_def)
  have id: "tc_id ch = cps_port_id c" using resolve_cpsD [OF assms(1)] by metis
  have D: "distinct (map bound_id L)" using assms(3) by (simp add: bound_ok_def)
  have b: "map_of d (cps_port_id c) \<noteq> None" using s(2) map_of_bindings_None [of L "cps_port_id c"] assms(4) id by force
  show ?thesis unfolding uninstall_remote_cps_def
  proof (rule yields_then [OF emit_yields [OF s(1) assms(5,1)]])
    fix t
    assume t: "trunk_frep ck cm (trunk_table (local_children L) H) d (e @ [(''unbind_remote'', cps_port_id c)]) t"
    show "yields (trunk_clear_port_binding c t) (trunk_rep ck cm (remove1 (False, b, ch) L) H)"
      by (rule yields_mono [OF clear_yields [OF t b]], intro unbind_rep [OF _ s(2,3) assms(3,4)])
        (simp_all add: local_children_remove [OF D assms(4)] id)
  qed
qed

section \<open>Lives of the application\<close>

text \<open>
  The events come with the store's answers at their time: the children of a port.
\<close>

datatype trunk_event =
    CpsCreated cps_lookup cps
  | CpsDeleted cps_lookup cps
  | ParentBoundLocal cps_lookup string
  | ParentUnboundLocal cps_lookup string
  | ParentBoundRemote cps_lookup string
  | ParentUnboundRemote cps_lookup string

fun trunk_handle :: "'o flow_conf \<Rightarrow> nat \<Rightarrow> trunk_event \<Rightarrow> trunk_app \<Rightarrow> trunk_app outcome" where
  "trunk_handle conf depth (CpsCreated kids c) = child_port_segmentation_created conf kids depth c"
| "trunk_handle conf depth (CpsDeleted kids c) = child_port_segmentation_deleted conf kids depth c"
| "trunk_handle conf depth (ParentBoundLocal kids i) = local_port_bound conf kids (Suc depth) i"
| "trunk_handle conf depth (ParentUnboundLocal kids i) = local_port_unbound conf kids (Suc depth) i"
| "trunk_handle conf depth (ParentBoundRemote kids i) = remote_port_bound kids (Suc depth) i"
| "trunk_handle conf depth (ParentUnboundRemote kids i) = remote_port_unbound kids (Suc depth) i"

text \<open>
  The bound children and those ever installed after an event; \<open>None\<close> for an event outside the
  contract: a child is bound once, has a segmentation of its own on its parent, and is no parent
  itself.
\<close>

type_synonym tr_state = "tr_bound \<times> tr_child list"

definition bind_child :: "cps_lookup \<Rightarrow> bool \<Rightarrow> cps \<Rightarrow> tr_state \<Rightarrow> tr_state option" where
  "bind_child kids loc c A =
     (case A of (L, H) \<Rightarrow>
       Option.bind (resolve_cps c) (\<lambda>ch.
       Option.bind (parent_binding c L) (\<lambda>b.
         if bound_ok (L @ [(loc, b, ch)]) \<and> kids (cps_port_id c) = []
         then Some (L @ [(loc, b, ch)], if loc then H @ [ch] else H) else None)))"

definition unbind_child :: "cps_lookup \<Rightarrow> bool \<Rightarrow> cps \<Rightarrow> tr_state \<Rightarrow> tr_state option" where
  "unbind_child kids loc c A =
     (case A of (L, H) \<Rightarrow>
       Option.bind (resolve_cps c) (\<lambda>ch.
       Option.bind (find (\<lambda>x. fst x = loc \<and> snd (snd x) = ch) L) (\<lambda>x.
         if kids (cps_port_id c) = [] then Some (remove1 x L, H) else None)))"

fun each_child :: "(cps \<Rightarrow> tr_state \<Rightarrow> tr_state option) \<Rightarrow> cps list \<Rightarrow> tr_state \<Rightarrow> tr_state option" where
  "each_child f [] A = Some A"
| "each_child f (c # cs) A = Option.bind (f c A) (each_child f cs)"

definition where_parent_is :: "cps \<Rightarrow> tr_state \<Rightarrow> (bool \<Rightarrow> tr_state option) \<Rightarrow> tr_state option" where
  "where_parent_is c A f =
     Option.bind (parent_binding c (fst A)) (\<lambda>b. case tb_is_local b of Inr loc \<Rightarrow> f loc | Inl e \<Rightarrow> None)"

fun trunk_after_event :: "trunk_event \<Rightarrow> tr_state \<Rightarrow> tr_state option" where
  "trunk_after_event (CpsCreated kids c) A = where_parent_is c A (\<lambda>loc. bind_child kids loc c A)"
| "trunk_after_event (CpsDeleted kids c) A = where_parent_is c A (\<lambda>loc. unbind_child kids loc c A)"
| "trunk_after_event (ParentBoundLocal kids i) A = each_child (bind_child kids True) (kids i) A"
| "trunk_after_event (ParentUnboundLocal kids i) A = each_child (unbind_child kids True) (kids i) A"
| "trunk_after_event (ParentBoundRemote kids i) A = each_child (bind_child kids False) (kids i) A"
| "trunk_after_event (ParentUnboundRemote kids i) A = each_child (unbind_child kids False) (kids i) A"

fun trunk_after :: "trunk_event list \<Rightarrow> tr_state \<Rightarrow> tr_state option" where
  "trunk_after [] A = Some A"
| "trunk_after (ev # evs) A = Option.bind (trunk_after_event ev A) (trunk_after evs)"

text \<open>A handler that follows a step of the contract.\<close>

definition follows :: "int \<Rightarrow> int \<Rightarrow> (trunk_app \<Rightarrow> trunk_app outcome) \<Rightarrow> (tr_state \<Rightarrow> tr_state option) \<Rightarrow> bool" where
  "follows ck cm h f \<longleftrightarrow>
     (\<forall>L H s L' H'. bound_ok L \<longrightarrow> trunk_rep ck cm L H s \<longrightarrow> f (L, H) = Some (L', H') \<longrightarrow>
        bound_ok L' \<and> yields (h s) (trunk_rep ck cm L' H'))"

lemma followsD:
  "follows ck cm h f \<Longrightarrow> bound_ok L \<Longrightarrow> trunk_rep ck cm L H s \<Longrightarrow> f (L, H) = Some (L', H') \<Longrightarrow>
   bound_ok L' \<and> yields (h s) (trunk_rep ck cm L' H')"
  unfolding follows_def by blast

lemma port_handlers_leaf:
  assumes "kids i = []"
  shows "no_grandchildren (local_port_bound conf kids depth) i" "no_grandchildren (local_port_unbound conf kids depth) i"
    "no_grandchildren (remote_port_bound kids depth) i" "no_grandchildren (remote_port_unbound kids depth) i"
  using assms by (cases depth; simp add: no_grandchildren_def)+

lemma find_SomeD: "find P xs = Some x \<Longrightarrow> x \<in> set xs \<and> P x"
  by (induction xs) (auto split: if_splits)

lemma bind_childE:
  assumes "bind_child kids loc c (L, H) = Some (L', H')"
  obtains ch b where "resolve_cps c = Some ch" "parent_binding c L = Some b" "bound_ok (L @ [(loc, b, ch)])"
    "kids (cps_port_id c) = []" "L' = L @ [(loc, b, ch)]" "H' = (if loc then H @ [ch] else H)"
  using assms by (auto simp: bind_child_def bind_eq_Some_conv split: if_splits)

lemma unbind_childE:
  assumes "unbind_child kids loc c (L, H) = Some (L', H')"
  obtains ch b where "resolve_cps c = Some ch" "(loc, b, ch) \<in> set L" "kids (cps_port_id c) = []"
    "L' = remove1 (loc, b, ch) L" "H' = H"
proof -
  from assms obtain ch x where x: "resolve_cps c = Some ch" "find (\<lambda>x. fst x = loc \<and> snd (snd x) = ch) L = Some x"
    "kids (cps_port_id c) = []" "L' = remove1 x L" "H' = H"
    by (auto simp: unbind_child_def bind_eq_Some_conv split: if_splits)
  moreover obtain l b y where "x = (l, b, y)" by (metis surj_pair)
  ultimately show thesis using that find_SomeD [OF x(2)] by auto
qed

lemma bind_follows:
  assumes "stamps conf ck cm"
  shows "follows ck cm (install_local_cps conf (local_port_bound conf kids depth) c) (bind_child kids True c)"
    "follows ck cm (install_remote_cps (remote_port_bound kids depth) c) (bind_child kids False c)"
proof -
  have 1: "yields (install_local_cps conf (local_port_bound conf kids depth) c s) (trunk_rep ck cm L' H')" "bound_ok L'"
    if "trunk_rep ck cm L H s" "bind_child kids True c (L, H) = Some (L', H')" for L H s L' H'
    using bind_childE [OF that(2)] install_local_yields [OF assms _ _ that(1)] port_handlers_leaf(1) by metis+
  have 2: "yields (install_remote_cps (remote_port_bound kids depth) c s) (trunk_rep ck cm L' H')" "bound_ok L'"
    if "trunk_rep ck cm L H s" "bind_child kids False c (L, H) = Some (L', H')" for L H s L' H'
    using bind_childE [OF that(2)] install_remote_yields [OF _ _ that(1)] port_handlers_leaf(3) by metis+
  show "follows ck cm (install_local_cps conf (local_port_bound conf kids depth) c) (bind_child kids True c)"
    "follows ck cm (install_remote_cps (remote_port_bound kids depth) c) (bind_child kids False c)"
    unfolding follows_def using 1 2 by blast+
qed

lemma unbind_follows:
  assumes "stamps conf ck cm"
  shows "follows ck cm (uninstall_local_cps conf (local_port_unbound conf kids depth) c) (unbind_child kids True c)"
    "follows ck cm (uninstall_remote_cps (remote_port_unbound kids depth) c) (unbind_child kids False c)"
proof -
  have ok: "bound_ok L'" if "bound_ok L" "unbind_child kids loc c (L, H) = Some (L', H')" for L H L' H' loc
    using unbind_childE [OF that(2)] bound_ok_remove [OF that(1)] by metis
  have 1: "yields (uninstall_local_cps conf (local_port_unbound conf kids depth) c s) (trunk_rep ck cm L' H')"
    if "bound_ok L" "trunk_rep ck cm L H s" "unbind_child kids True c (L, H) = Some (L', H')" for L H s L' H'
    using unbind_childE [OF that(3)] uninstall_local_yields [OF assms _ that(2,1)] port_handlers_leaf(2) by metis
  have 2: "yields (uninstall_remote_cps (remote_port_unbound kids depth) c s) (trunk_rep ck cm L' H')"
    if "bound_ok L" "trunk_rep ck cm L H s" "unbind_child kids False c (L, H) = Some (L', H')" for L H s L' H'
    using unbind_childE [OF that(3)] uninstall_remote_yields [OF _ that(2,1)] port_handlers_leaf(4) by metis
  show "follows ck cm (uninstall_local_cps conf (local_port_unbound conf kids depth) c) (unbind_child kids True c)"
    "follows ck cm (uninstall_remote_cps (remote_port_unbound kids depth) c) (unbind_child kids False c)"
    unfolding follows_def using 1 2 ok by blast+
qed

lemma each_follows:
  assumes "\<And>c. follows ck cm (h c) (f c)"
  shows "follows ck cm (run_each h cs) (each_child f cs)"
proof (induction cs)
  case Nil
  then show ?case by (simp add: follows_def)
next
  case (Cons c cs)
  show ?case unfolding follows_def
  proof (intro allI impI)
    fix L H s L' H'
    assume a: "bound_ok L" "trunk_rep ck cm L H s" "each_child f (c # cs) (L, H) = Some (L', H')"
    then obtain L1 H1 where 1: "f c (L, H) = Some (L1, H1)" "each_child f cs (L1, H1) = Some (L', H')"
      by (auto simp: bind_eq_Some_conv)
    note 2 = followsD [OF assms a(1,2) 1(1)]
    then show "bound_ok L' \<and> yields (run_each h (c # cs) s) (trunk_rep ck cm L' H')"
      using followsD [OF Cons _ _ 1(2)] yields_then [of "h c s" "trunk_rep ck cm L1 H1" "run_each h cs"]
      by (auto simp: yields_def dest: yieldsD)
  qed
qed

lemma segmentation_follows:
  assumes "\<And>loc. follows ck cm (h loc) (f loc)"
  shows "follows ck cm (\<lambda>s. with_value (trunk_get_port_binding s (cps_parent_id c) (cps_parent c)) (\<lambda>binding s.
       case binding of None \<Rightarrow> (None, s) | Some b \<Rightarrow> with_value (tb_is_local b) h s) s)
     (\<lambda>A. where_parent_is c A (\<lambda>loc. f loc A))"
  unfolding follows_def
proof (intro allI impI)
  fix L H s L' H'
  assume a: "bound_ok L" "trunk_rep ck cm L H s" "where_parent_is c (L, H) (\<lambda>loc. f loc (L, H)) = Some (L', H')"
  then obtain b loc where b: "parent_binding c L = Some b" "tb_is_local b = Inr loc" "f loc (L, H) = Some (L', H')"
    by (cases "parent_binding c L"; cases "tb_is_local (the (parent_binding c L))") (auto simp: where_parent_is_def)
  from a(2) have "map_of (trunk_locations s) = map_of (bindings_of L)" by (auto simp: trunk_rep_def dest: trunk_frepD(1))
  note parent_binding_read [OF b(1) this]
  then show "bound_ok L' \<and> yields (with_value (trunk_get_port_binding s (cps_parent_id c) (cps_parent c)) (\<lambda>binding s.
       case binding of None \<Rightarrow> (None, s) | Some b \<Rightarrow> with_value (tb_is_local b) h s) s) (trunk_rep ck cm L' H')"
    using followsD [OF assms a(1,2) b(3)] b(2) by simp
qed

lemma handle_follows:
  assumes "stamps conf ck cm"
  shows "follows ck cm (trunk_handle conf depth ev) (trunk_after_event ev)"
proof -
  have b: "follows ck cm (if loc then install_local_cps conf (local_port_bound conf kids depth) c
        else install_remote_cps (remote_port_bound kids depth) c) (bind_child kids loc c)"
    "follows ck cm (if loc then uninstall_local_cps conf (local_port_unbound conf kids depth) c
        else uninstall_remote_cps (remote_port_unbound kids depth) c) (unbind_child kids loc c)" for loc kids c
    using bind_follows [OF assms, of kids depth c] unbind_follows [OF assms, of kids depth c] by simp_all
  note e = each_follows [OF bind_follows(1) [OF assms]] each_follows [OF bind_follows(2) [OF assms]]
    each_follows [OF unbind_follows(1) [OF assms]] each_follows [OF unbind_follows(2) [OF assms]]
  show ?thesis
  proof (cases ev)
    case (CpsCreated kids c)
    from segmentation_follows [of ck cm "\<lambda>loc. if loc then install_local_cps conf (local_port_bound conf kids depth) c
        else install_remote_cps (remote_port_bound kids depth) c" "\<lambda>loc. bind_child kids loc c" c, OF b(1)]
    show ?thesis using CpsCreated by (simp add: child_port_segmentation_created_def [abs_def] follows_def)
  next
    case (CpsDeleted kids c)
    from segmentation_follows [of ck cm "\<lambda>loc. if loc then uninstall_local_cps conf (local_port_unbound conf kids depth) c
        else uninstall_remote_cps (remote_port_unbound kids depth) c" "\<lambda>loc. unbind_child kids loc c" c, OF b(2)]
    show ?thesis using CpsDeleted by (simp add: child_port_segmentation_deleted_def [abs_def] follows_def)
  next
    case (ParentBoundLocal kids i)
    have "trunk_handle conf depth ev = run_each (install_local_cps conf (local_port_bound conf kids depth)) (kids i)"
      "trunk_after_event ev = each_child (bind_child kids True) (kids i)" unfolding ParentBoundLocal by (simp_all add: fun_eq_iff)
    then show ?thesis using e(1) by simp
  next
    case (ParentUnboundLocal kids i)
    have "trunk_handle conf depth ev = run_each (uninstall_local_cps conf (local_port_unbound conf kids depth)) (kids i)"
      "trunk_after_event ev = each_child (unbind_child kids True) (kids i)" unfolding ParentUnboundLocal by (simp_all add: fun_eq_iff)
    then show ?thesis using e(3) by simp
  next
    case (ParentBoundRemote kids i)
    have "trunk_handle conf depth ev = run_each (install_remote_cps (remote_port_bound kids depth)) (kids i)"
      "trunk_after_event ev = each_child (bind_child kids False) (kids i)" unfolding ParentBoundRemote by (simp_all add: fun_eq_iff)
    then show ?thesis using e(2) by simp
  next
    case (ParentUnboundRemote kids i)
    have "trunk_handle conf depth ev = run_each (uninstall_remote_cps (remote_port_unbound kids depth)) (kids i)"
      "trunk_after_event ev = each_child (unbind_child kids False) (kids i)" unfolding ParentUnboundRemote by (simp_all add: fun_eq_iff)
    then show ?thesis using e(4) by simp
  qed
qed

lemma trunk_run:
  assumes "stamps conf ck cm" "bound_ok L" "trunk_rep ck cm L H s" "trunk_after evs (L, H) = Some (L', H')"
  shows "bound_ok L' \<and> yields (run_each (trunk_handle conf depth) evs s) (trunk_rep ck cm L' H')"
  using assms(2-)
proof (induction evs arbitrary: L H s)
  case Nil
  then show ?case by simp
next
  case (Cons ev evs)
  then obtain L1 H1 where 1: "trunk_after_event ev (L, H) = Some (L1, H1)" "trunk_after evs (L1, H1) = Some (L', H')"
    by (auto simp: bind_eq_Some_conv)
  note 2 = followsD [OF handle_follows [OF assms(1)] Cons.prems(1,2) 1(1), of depth]
  have ok: "bound_ok L'" using Cons.IH [OF conjunct1 [OF 2] _ 1(2)] yieldsD [OF conjunct2 [OF 2]] by blast
  have "yields (and_then (trunk_handle conf depth ev s) (run_each (trunk_handle conf depth) evs)) (trunk_rep ck cm L' H')"
    using Cons.IH [OF conjunct1 [OF 2] _ 1(2)] by (intro yields_then [OF conjunct2 [OF 2]]) blast
  then show ?case using ok by simp
qed

section \<open>Correctness\<close>

definition trunk_init :: trunk_app where
  "trunk_init = \<lparr>fa_sent = [], trunk_locations = [], trunk_events = []\<rparr>"

lemma trunk_life:
  assumes "stamps conf ck cm" "trunk_after evs ([], []) = Some (L, H)"
  shows "\<exists>s. run_each (trunk_handle conf depth) evs trunk_init = (None, s) \<and> trunk_rep ck cm L H s"
proof -
  have "trunk_frep ck cm Map.empty [] [] trunk_init"
    using flows_rep_empty [of trunk_shape trunk_fam ck cm "trunk_app.fields [] []"]
    by (simp add: trunk_frep_def trunk_init_def trunk_app.defs)
  moreover have "trunk_table (local_children []) [] = Map.empty"
    by (auto simp: trunk_table_def local_children_def fun_eq_iff split: trunk_flow.splits)
  ultimately have r: "trunk_rep ck cm [] [] trunk_init"
    by (intro trunk_repI [where d = "[]" and e = "[]"]) (simp_all add: bindings_of_def bound_names_def)
  have "bound_ok []" by (simp add: bound_ok_def local_children_def)
  from trunk_run [OF assms(1) this r assms(2), of depth] show ?thesis using yieldsD by blast
qed

text \<open>
  C18. What the trunk application keeps in the switch. After any sequence of creations and
  deletions of nested ports and of bind and unbind events of their parents, no handler has raised,
  and on every switch that follows the OpenFlow laws the flows that recognise packets of nested
  ports are exactly those of the nested ports bound here now. The flows that take packets to nested
  ports are those of every nested port that was ever bound here: their deletion names another
  priority than their creation and removes nothing.
\<close>

theorem trunk_flows_exact:
  assumes "of_switch sw_mod flow_at" "flow_at t0 = Map.empty" "stamps conf ck cm" "trunk_after evs ([], []) = Some (L, H)"
  shows "\<exists>s. run_each (trunk_handle conf depth) evs trunk_init = (None, s) \<and>
    (\<forall>k x. flow_at (fold sw_mod (fa_sent s) t0) (shape_key trunk_shape (TrClass k x)) =
       map_option (Pair ck) (map_of (concat (map class_flows (local_children L))) (TrClass k x))) \<and>
    (\<forall>k x. flow_at (fold sw_mod (fa_sent s) t0) (shape_key trunk_shape (TrDisp k x)) =
       map_option (Pair ck) (map_of (concat (map disp_flows (rev H))) (TrDisp k x))) \<and>
    (\<forall>key. (\<forall>k x. key \<noteq> shape_key trunk_shape (TrClass k x)) \<longrightarrow> (\<forall>k x. key \<noteq> shape_key trunk_shape (TrDisp k x)) \<longrightarrow>
       flow_at (fold sw_mod (fa_sent s) t0) key = None)"
proof -
  from trunk_life [OF assms(3,4), of depth] obtain s d e where s: "run_each (trunk_handle conf depth) evs trunk_init = (None, s)"
    "trunk_frep ck cm (trunk_table (local_children L) H) d e s" by (auto simp: trunk_rep_def)
  from flows_rep_switch [OF s(2) [unfolded trunk_frep_def] assms(1,2)]
  have T: "flow_at (fold sw_mod (fa_sent s) t0) key =
      map_option (Pair ck) (family_table trunk_shape (trunk_table (local_children L) H) key)" for key by simp
  have "flow_at (fold sw_mod (fa_sent s) t0) key = None"
    if "\<forall>k x. key \<noteq> shape_key trunk_shape (TrClass k x)" "\<forall>k x. key \<noteq> shape_key trunk_shape (TrDisp k x)" for key
  proof (cases "key \<in> range (shape_key trunk_shape)")
    case True
    then obtain f where "key = shape_key trunk_shape f" by blast
    with that show ?thesis by (cases f) (auto simp: T trunk_table_def)
  qed (simp add: T)
  then show ?thesis using s(1) by (auto simp: T trunk_table_def)
qed


section \<open>Examples\<close>

definition example_trunk_port :: "int \<Rightarrow> trunk_lport" where
  "example_trunk_port k = \<lparr>tl_key = k, tl_network = Inr 9, tl_macs = [], tl_ips = [],
     tl_binding = Some \<lparr>tb_name = ''here'', tb_is_local = Inr True\<rparr>\<rparr>"

definition example_cps :: "string \<Rightarrow> int \<Rightarrow> int \<Rightarrow> cps" where
  "example_cps i k seg = \<lparr>cps_parent_id = ''p'', cps_parent = Inr (example_trunk_port 1), cps_port_id = i,
     cps_port = Inr (example_trunk_port k), cps_segmentation_type = TYPE_VLAN, cps_segmentation_id = Some seg\<rparr>"

definition example_child :: "string \<Rightarrow> int \<Rightarrow> int \<Rightarrow> tr_child" where
  "example_child i k seg = \<lparr>tc_id = i, tc_key = k, tc_net = 9, tc_mac = MVal PNone, tc_parent_key = 1,
     tc_parent_mac = MVal PNone, tc_kind = KVlan seg\<rparr>"

definition example_trunk_events :: "trunk_event list" where
  "example_trunk_events = [CpsCreated (\<lambda>i. []) (example_cps ''a'' 2 5), CpsCreated (\<lambda>i. []) (example_cps ''b'' 3 6),
     CpsDeleted (\<lambda>i. []) (example_cps ''a'' 2 5)]"

lemma example_trunk_stamps: "stamps (\<lparr>fc_cookies = empty_cookie_space, fc_opaque = ()\<rparr> :: unit flow_conf) 0 0"
  by (simp add: stamps_def empty_cookie_space_def apply_global_cookie_modifiers_def)

lemma example_trunk_life:
  "trunk_after example_trunk_events ([], []) =
     Some ([(True, \<lparr>tb_name = ''here'', tb_is_local = Inr True\<rparr>, example_child ''b'' 3 6)],
           [example_child ''a'' 2 5, example_child ''b'' 3 6])"
proof -
  have r: "resolve_cps (example_cps i k seg) = Some (example_child i k seg)" for i k seg
    by (simp add: resolve_cps_def example_cps_def example_child_def example_trunk_port_def child_kind_def tl_mac_def mac_value_def)
  have p: "parent_binding (example_cps i k seg) L = (if ''p'' \<in> bound_id ` set L then None else Some \<lparr>tb_name = ''here'', tb_is_local = Inr True\<rparr>)"
    for i k seg L by (simp add: parent_binding_def example_cps_def example_trunk_port_def)
  have c: "class_apart (example_child i k seg) (example_child j l seg') \<longleftrightarrow> OFPVID_PRESENT OR seg \<noteq> OFPVID_PRESENT OR seg'" for i j k l seg seg'
    by (auto simp: class_apart_def class_flows_def child_pairs_def example_child_def)
  have n: "tc_id (example_child i k seg) = i" "example_child i k seg = example_child j l seg' \<longleftrightarrow> i = j \<and> k = l \<and> seg = seg'"
    for i j k l seg seg' by (auto simp: example_child_def)
  show ?thesis
    by (simp add: example_trunk_events_def where_parent_is_def p bind_child_def unbind_child_def r bound_ok_def local_children_def n c
        OFPVID_PRESENT_def)
qed

theorem trunk_flows_exact_witness:
  "\<exists>s. run_each (trunk_handle (\<lparr>fc_cookies = empty_cookie_space, fc_opaque = ()\<rparr> :: unit flow_conf) 1) example_trunk_events trunk_init = (None, s) \<and>
     fold mem_mod (fa_sent s) Map.empty (shape_key trunk_shape (TrClass 1 (ExVlan (OFPVID_PRESENT OR 5)))) = None \<and>
     fold mem_mod (fa_sent s) Map.empty (shape_key trunk_shape (TrDisp 2 DispAll)) \<noteq> None"
proof -
  have "map_of (concat (map class_flows (local_children [(True, \<lparr>tb_name = ''here'', tb_is_local = Inr True\<rparr>, example_child ''b'' 3 6)])))
      (TrClass 1 (ExVlan (OFPVID_PRESENT OR 5))) = None"
    by (simp add: local_children_def class_flows_def child_pairs_def example_child_def OFPVID_PRESENT_def)
  moreover have "map_of (concat (map disp_flows (rev [example_child ''a'' 2 5, example_child ''b'' 3 6]))) (TrDisp 2 DispAll) \<noteq> None"
    by (simp add: disp_flows_def child_pairs_def example_child_def)
  ultimately show ?thesis
    using trunk_flows_exact [OF mem.of_switch_axioms _ example_trunk_stamps example_trunk_life, of Map.empty 1] by fastforce
qed


end
