(* ===== verification/Spec2Isabelle.thy ===== *)
theory Spec2Isabelle
  imports Model_Order Flow_Mod Sg_App Topology_Cases Controller_Loop Tunneling Port_Sec Pipeline Provider_Flows Trunk_Flows
begin

text \<open>
  Verification of Dragonflow, the distributed SDN controller of OpenStack
  (\<open>src/dragonflow\<close>).

  \<^bold>\<open>The program.\<close> Neutron writes logical objects - ports, switches, security groups and so on -
  into a northbound database; on every compute host a local controller keeps a cache of the
  objects of the tenants (topics) that have ports on the host, and its applications turn changes
  of the cache into flows of the local Open vSwitch. An update arrives through a publish/subscribe
  channel or a full sync, goes through the controller's priority queue, has the objects it refers
  to loaded first, is stored, and is announced to the applications by events. The port binding
  application turns the life of a port into bind, update and unbind events for the applications
  that send flows.

  \<^bold>\<open>Foundations.\<close>
  \<^item> \<open>Df_Prelude\<close>: dictionaries, sets and exceptions of Python, loops that may raise, and
    statements that leave their earlier effects behind when they raise.
  \<^item> \<open>Radix_Tree\<close> (\<open>utils/radix_tree.py\<close>): the tree of the store's indexes refines a multimap
    with wildcard queries, the locale \<open>wild_multimap\<close>; its deletion never prunes.
  \<^item> \<open>Df_Models\<close> (\<open>db/models/*.py\<close>), \<open>Model_Framework\<close> and \<open>Model_Order\<close>
    (\<open>db/model_framework.py\<close>): the declared classes, merging of set fields, embedded models,
    references, the registry, and the dependency order, which exists exactly without cycles.

  \<^bold>\<open>The cache and the northbound side.\<close>
  \<^item> \<open>Db_Store\<close> (\<open>db/db_store.py\<close>, \<open>db/model_proxy.py\<close>): index queries are exact; storing and
    deleting keep the invariant of embedded objects and cascade; what a failed update and
    \<open>clear\<close> leave behind.
  \<^item> \<open>Nb_Driver\<close> (\<open>db/drivers/etcd_db_driver.py\<close>): the driver keeps the driver contract, the
    locale \<open>db_driver\<close>, on every client with the documented laws of etcd, and unique keys
    allocated by any number of interleaved processes never repeat.
  \<^item> \<open>Nb_Api\<close> (\<open>db/api_nb.py\<close>, the hooks of \<open>db/models/mixins.py\<close>, \<open>core.py\<close>,
    \<open>service.py\<close>): objects are read back as created, and an update reaches every controller as a
    newer version.
  \<^item> \<open>Sync\<close> (\<open>db/sync.py\<close>): the callbacks it is given are the locale \<open>sync_contract\<close>; under it
    a sync leaves exactly the wanted objects.

  \<^bold>\<open>The controller.\<close>
  \<^item> \<open>Controller\<close>, \<open>Controller_Cases\<close> (\<open>controller/df_local_controller.py\<close>): the version gate of an
    update, the loading of references, the objects that wait for a missing reference, and a sync on
    the real callbacks, which discharge \<open>sync_contract\<close>.
  \<^item> \<open>Controller_Loop\<close> (same file, \<open>db/db_common.py\<close>, \<open>common/utils.py\<close>): the queue hands updates
    out in time order, the dispatch by action, and the rate limiter's bound.
  \<^item> \<open>Port_Binding\<close> (\<open>controller/port_locator.py\<close>, \<open>controller/apps/portbinding.py\<close>): the events of
    every port are a run of the bind/unbind automaton.
  \<^item> \<open>Topology\<close>, \<open>Topology_Cases\<close> (\<open>controller/topology.py\<close>): switch ports, the topics the
    controller watches, the periodic recheck.

  \<^bold>\<open>Flows.\<close>
  \<^item> \<open>Cookies\<close> (\<open>controller/common/cookies.py\<close>): disjoint bit ranges and their round trip.
  \<^item> \<open>Flow_Mod\<close> (\<open>controller/df_base_app.py\<close>, \<open>controller/common/constants.py\<close>,
    \<open>controller/apps/aging.py\<close>): the messages, and the deletion of the flows of a previous run.
  \<^item> \<open>Flow_Table\<close>: the switch the messages go to, the locale \<open>of_switch\<close>, with the laws of flow
    modification of the OpenFlow specification; while all messages carry one cookie, such a switch
    is a map from flows to instructions (\<open>switch_flows_after\<close>).
  \<^item> \<open>Sg_App\<close> (\<open>controller/apps/sg.py\<close>): rules, conjunction ids, address aggregation with its
    reference counts, port ranges, and the selective removal of a rule's flows.
  \<^item> \<open>Logical_Networks\<close>, \<open>Tunneling\<close> (\<open>controller/common/logical_networks.py\<close>,
    \<open>controller/apps/tunneling.py\<close>): the tunnel flows are exactly those of the bound ports; and two
    ways in which they go stale, one of them over the events of the port binding application.
  \<^item> \<open>Port_Sec\<close> (\<open>controller/apps/portsec.py\<close>): the table of the application, and that a secured
    port cannot spoof.
  \<^item> \<open>Flow_Family\<close>: the flows an application may send as the values of a type, the locale
    \<open>flow_family\<close>. Its laws - the match of a flow that is deleted or modified without \<open>strict\<close> covers
    no other flow of the family - make the messages of the application operations on a map from
    flows to instructions. The next applications interpret it.
  \<^item> \<open>Classifier\<close> (\<open>controller/apps/classifier.py\<close>): the flows in and out of every switch port.
  \<^item> \<open>Responders\<close>, \<open>L2_App\<close>, \<open>L2_Flows\<close> (\<open>controller/common/arp_responder.py\<close>,
    \<open>controller/common/nd_advertisers.py\<close>, \<open>controller/apps/l2.py\<close>): the answers to address resolution,
    the layer 2 application, and that its flows are exactly those of the bound ports, each network
    flooding to exactly its local ports.
  \<^item> \<open>Provider\<close>, \<open>Provider_Flows\<close> (\<open>controller/apps/provider.py\<close>): the flows are exactly those of the
    VLAN and flat networks with local ports; how they overlap with those of the layer 2 application.
  \<^item> \<open>Trunk\<close>, \<open>Trunk_Flows\<close> (\<open>controller/apps/trunk.py\<close>): nested ports are bound where their parents
    are; the flows that recognise them are those of the ports bound now, while the flows towards them
    are never removed.
  \<^item> \<open>Pipeline\<close>: the way of a packet through the tables, the relation \<open>delivered\<close>, and what the flows of
    the classifier and the layer 2 application do together: in whatever order the switch receives
    the messages, a packet reaches exactly the port, or the ports of the network, it is for.

  \<^bold>\<open>How the code is modelled.\<close> An object of a model class is a value of \<open>pyval\<close> (its class and its
  set fields) wherever the code is generic over models, and a record of the fields an application
  reads where it is not. A method that changes state is a function from state to exception and
  state (\<open>outcome\<close>), so that the effects before an exception stay. A method that sends flows
  appends messages to the state. Python's integers are \<^typ>\<open>int\<close>; addresses are words.

  \<^bold>\<open>Recursion.\<close> Loading references follows the reference graph with fuel \<open>ref_fuel\<close>, the number
  of objects in reach, and \<open>refs_deep_enough_fuel\<close> shows that it is enough. Sending an object that
  releases waiting ones recurses as deep as there are waiting objects (\<open>send_fuel_enough\<close>);
  deleting an object from the store recurses through its embedded objects, as deep as there are
  records of embedding. The events of a nested port come back to the trunk application, which
  recurses as deep as the interpreter's stack allows; the theorems hold for every depth. The walk
  over embedded class types has the number of classes as fuel. The allocation of a unique key, which
  retries for ever, is a partial function on an interleaving of processes.

  \<^bold>\<open>Parameters.\<close> Code that is not in the repository is an argument of the definitions: the
  equality of model instances and their conversion to JSON (\<open>jsonmodels\<close>), address arithmetic
  (\<open>netaddr\<close>), the etcd client, the Open vSwitch database, the OpenFlow switch, the clock and
  \<open>uuid5\<close>. What a theorem relies on of them is a named hypothesis, with a concrete instance in
  its witness.

  \<^bold>\<open>Not modelled.\<close> The applications for DHCP, metadata, routing, NAT, QoS, service chains,
  active port detection and migration send flows in the same way as the modelled ones; the Neutron plugin and its
  mechanism and service drivers translate Neutron's objects into northbound ones and call
  \<open>Nb_Api\<close>; the other database and publish/subscribe drivers are clients of services outside the
  repository; the command line tools, the services that start processes, BGP and the configuration
  are input and output.
\<close>

end
